(* ===== verification/Foco_Prelude.thy ===== *)
theory Foco_Prelude
  imports Main "HOL-Library.Word"
begin

text \<open>
  Shared vocabulary of the development: the part of Rust and of its standard library that the
  modelled code uses. A Rust string is a list of Unicode scalar values (\<open>rstr\<close>), so that
  \<open>chars().count()\<close> is \<open>length\<close> and \<open>len()\<close> is the length of the UTF-8
  encoding (\<open>str_len\<close>); \<open>lit\<close> turns an ASCII literal into such a string. The string
  functions follow the documentation of \<open>str\<close>: \<open>trim\<close> uses the Unicode property
  White\_Space, \<open>lines\<close> ends a line at a line feed and drops one carriage return before it,
  \<open>split\<close> never returns an empty list. Machine integers are words; a \<open>usize\<close> that only
  counts elements of a collection in memory is a \<open>nat\<close>. \<open>Result\<close> is a sum with the
  error on the left. Below the definitions: the lemmas on lists, strings and words that the
  component theories share.
\<close>

named_theorems rust_str \<open>defining equations of the Rust string functions\<close>

type_synonym rchar = nat
type_synonym rstr = "nat list"
type_synonym u64 = "64 word"
type_synonym u32 = "32 word"

section \<open>Strings\<close>

definition lit :: "string \<Rightarrow> rstr" where
  "lit s = map of_char s"

text \<open>A text between single quotes, as the messages show identifiers.\<close>

definition quote_id :: "rstr \<Rightarrow> rstr" where
  "quote_id s = [39] @ s @ [39]"

definition NL :: rchar where "NL = 10"
definition CR :: rchar where "CR = 13"

definition is_whitespace :: "rchar \<Rightarrow> bool" where
  "is_whitespace c \<longleftrightarrow>
     (9 \<le> c \<and> c \<le> 13) \<or> c = 32 \<or> c = 133 \<or> c = 160 \<or> c = 5760 \<or>
     (8192 \<le> c \<and> c \<le> 8202) \<or> c = 8232 \<or> c = 8233 \<or> c = 8239 \<or> c = 8287 \<or> c = 12288"

definition is_ascii :: "rchar \<Rightarrow> bool" where
  "is_ascii c \<longleftrightarrow> c < 128"

definition trim_start :: "rstr \<Rightarrow> rstr" where
  "trim_start s = dropWhile is_whitespace s"

definition trim_end :: "rstr \<Rightarrow> rstr" where
  "trim_end s = rev (dropWhile is_whitespace (rev s))"

definition trim :: "rstr \<Rightarrow> rstr" where
  "trim s = trim_end (trim_start s)"

definition trim_end_matches :: "rchar \<Rightarrow> rstr \<Rightarrow> rstr" where
  "trim_end_matches c s = rev (dropWhile (\<lambda>x. x = c) (rev s))"

definition starts_with :: "rstr \<Rightarrow> rstr \<Rightarrow> bool" where
  "starts_with s p \<longleftrightarrow> take (length p) s = p"

definition ends_with :: "rstr \<Rightarrow> rstr \<Rightarrow> bool" where
  "ends_with s p \<longleftrightarrow> length p \<le> length s \<and> drop (length s - length p) s = p"

definition strip_prefix :: "rstr \<Rightarrow> rstr \<Rightarrow> rstr option" where
  "strip_prefix s p = (if starts_with s p then Some (drop (length p) s) else None)"

definition strip_suffix :: "rstr \<Rightarrow> rstr \<Rightarrow> rstr option" where
  "strip_suffix s p = (if ends_with s p then Some (take (length s - length p) s) else None)"

fun split_on :: "rchar \<Rightarrow> rstr \<Rightarrow> rstr list" where
  "split_on c [] = [[]]"
| "split_on c (x # xs) =
     (if x = c then [] # split_on c xs
      else (case split_on c xs of [] \<Rightarrow> [[x]] | y # ys \<Rightarrow> (x # y) # ys))"

fun join :: "rstr \<Rightarrow> rstr list \<Rightarrow> rstr" where
  "join sep [] = []"
| "join sep [x] = x"
| "join sep (x # y # ys) = x @ sep @ join sep (y # ys)"

definition drop_cr :: "rstr \<Rightarrow> rstr" where
  "drop_cr s = (case strip_suffix s [CR] of None \<Rightarrow> s | Some t \<Rightarrow> t)"

text \<open>\<open>str::lines\<close>: every piece but the last was ended by a line feed, so one carriage return
  before it belongs to the line ending; the last piece is dropped when it is empty and is kept as
  it is otherwise.\<close>

definition str_lines :: "rstr \<Rightarrow> rstr list" where
  "str_lines s =
     (let ps = split_on NL s
      in map drop_cr (butlast ps) @ (if last ps = [] then [] else [last ps]))"

definition replace_char :: "rchar \<Rightarrow> rchar \<Rightarrow> rstr \<Rightarrow> rstr" where
  "replace_char a b s = map (\<lambda>c. if c = a then b else c) s"

definition to_ascii_lowercase :: "rstr \<Rightarrow> rstr" where
  "to_ascii_lowercase s = map (\<lambda>c. if 65 \<le> c \<and> c \<le> 90 then c + 32 else c) s"

definition utf8_char :: "rchar \<Rightarrow> nat list" where
  "utf8_char c =
     (if c < 128 then [c]
      else if c < 2048 then [192 + c div 64, 128 + c mod 64]
      else if c < 65536 then [224 + c div 4096, 128 + c div 64 mod 64, 128 + c mod 64]
      else [240 + c div 262144, 128 + c div 4096 mod 64, 128 + c div 64 mod 64, 128 + c mod 64])"

definition str_bytes :: "rstr \<Rightarrow> nat list" where
  "str_bytes s = concat (map utf8_char s)"

definition str_len :: "rstr \<Rightarrow> nat" where
  "str_len s = length (str_bytes s)"

text \<open>Decimal rendering, as \<open>Display\<close> of the unsigned integers.\<close>

fun nat_display :: "nat \<Rightarrow> rstr" where
  "nat_display n = (if n < 10 then [48 + n] else nat_display (n div 10) @ [48 + n mod 10])"

declare nat_display.simps [simp del]

section \<open>Results, options and machine integers\<close>

fun is_ok :: "'e + 'a \<Rightarrow> bool" where
  "is_ok (Inl e) = False"
| "is_ok (Inr a) = True"

text \<open>The first error of a loop whose body either continues or returns an error.\<close>

fun first_some :: "('a \<Rightarrow> 'b option) \<Rightarrow> 'a list \<Rightarrow> 'b option" where
  "first_some f [] = None"
| "first_some f (x # xs) = (case f x of Some y \<Rightarrow> Some y | None \<Rightarrow> first_some f xs)"

definition u64_MAX :: u64 where "u64_MAX = - 1"

definition sat_add64 :: "u64 \<Rightarrow> u64 \<Rightarrow> u64" where
  "sat_add64 a b = (if unat a + unat b < 2 ^ 64 then a + b else u64_MAX)"

definition sat_mul64 :: "u64 \<Rightarrow> u64 \<Rightarrow> u64" where
  "sat_mul64 a b = (if unat a * unat b < 2 ^ 64 then a * b else u64_MAX)"

text \<open>\<open>Iterator::sum\<close> over \<open>u64\<close> in a release build: the additions wrap.\<close>

definition wrapping_sum64 :: "u64 list \<Rightarrow> u64" where
  "wrapping_sum64 xs = foldl (+) 0 xs"

definition usize_MAX :: nat where "usize_MAX = 2 ^ 64 - 1"

definition sat_add_usize :: "nat \<Rightarrow> nat \<Rightarrow> nat" where
  "sat_add_usize a b = min usize_MAX (a + b)"

section \<open>Shared lemmas\<close>

lemmas [rust_str] = starts_with_def ends_with_def strip_prefix_def strip_suffix_def
  trim_def trim_start_def trim_end_def trim_end_matches_def lit_def

lemma lit_inject [simp]: "lit a = lit b \<longleftrightarrow> a = b"
  by (simp add: lit_def inj_map_eq_map [OF inj_of_char])

lemma lit_Nil [simp]: "lit [] = []"
  by (simp add: lit_def)

lemma lit_eq_Nil_iff [simp]: "lit s = [] \<longleftrightarrow> s = []"
  by (simp add: lit_def)

lemma length_lit [simp]: "length (lit s) = length s"
  by (simp add: lit_def)

lemma starts_with_iff: "starts_with s p \<longleftrightarrow> (\<exists>t. s = p @ t)"
  unfolding starts_with_def
  by (metis append_eq_conv_conj append_take_drop_id)

lemma starts_with_lit [simp]: "starts_with (lit a) (lit b) \<longleftrightarrow> take (length b) a = b"
  by (simp add: starts_with_def lit_def take_map inj_map_eq_map [OF inj_of_char])

lemma starts_with_append [simp]: "starts_with (p @ t) p"
  by (auto simp: starts_with_iff)

lemma starts_with_Nil [simp]: "starts_with s []"
  by (simp add: starts_with_def)

lemma strip_prefix_append [simp]: "strip_prefix (p @ t) p = Some t"
  by (simp add: strip_prefix_def)

lemma strip_prefix_Some_iff: "strip_prefix s p = Some t \<longleftrightarrow> s = p @ t"
  by (auto simp: strip_prefix_def starts_with_def) (metis append_take_drop_id)

lemma strip_prefix_None_iff: "strip_prefix s p = None \<longleftrightarrow> \<not> starts_with s p"
  by (simp add: strip_prefix_def)

lemma split_on_not_Nil [simp]: "split_on c s \<noteq> []"
  by (cases s) (auto split: list.splits)

lemma length_split_on_pos [simp]: "0 < length (split_on c s)"
  by simp

lemma join_split_on: "join [c] (split_on c s) = s"
proof (induction s)
  case Nil
  then show ?case by simp
next
  case (Cons x xs)
  obtain y ys where s: "split_on c xs = y # ys"
    by (cases "split_on c xs") auto
  with Cons.IH show ?case
    by (cases ys) auto
qed

lemma split_on_no_sep: "c \<notin> set s \<Longrightarrow> split_on c s = [s]"
  by (induction s) auto

lemma split_on_append_sep: "split_on c (a @ c # b) = split_on c a @ split_on c b"
  by (induction a) (auto split: list.splits)

lemma split_on_no_sep_in: "p \<in> set (split_on c s) \<Longrightarrow> c \<notin> set p"
proof (induction s arbitrary: p)
  case Nil
  then show ?case by simp
next
  case (Cons x xs)
  obtain y ys where s: "split_on c xs = y # ys"
    by (cases "split_on c xs") auto
  with Cons show ?case
    by (auto split: if_splits)
qed

lemma split_on_join:
  "ps \<noteq> [] \<Longrightarrow> \<forall>p \<in> set ps. c \<notin> set p \<Longrightarrow> split_on c (join [c] ps) = ps"
  by (induction "[c]" ps rule: join.induct)
    (auto simp: split_on_no_sep split_on_append_sep)

lemma first_some_None_iff: "first_some f xs = None \<longleftrightarrow> (\<forall>x \<in> set xs. f x = None)"
  by (induction xs) (auto split: option.splits)

lemma first_some_SomeD: "first_some f xs = Some y \<Longrightarrow> \<exists>x \<in> set xs. f x = Some y"
  by (induction xs) (auto split: option.splits)

lemma first_some_earliest:
  "first_some f xs = Some y \<Longrightarrow> \<exists>i < length xs. f (xs ! i) = Some y \<and> (\<forall>j < i. f (xs ! j) = None)"
proof (induction xs)
  case Nil
  then show ?case by simp
next
  case (Cons x xs)
  show ?case
  proof (cases "f x")
    case None
    with Cons obtain i where "i < length xs" "f (xs ! i) = Some y" "\<forall>j < i. f (xs ! j) = None" by auto
    with None show ?thesis by (intro exI [of _ "Suc i"]) (auto simp: less_Suc_eq_0_disj)
  next
    case (Some v)
    with Cons.prems show ?thesis by (intro exI [of _ 0]) simp
  qed
qed

lemma first_some_upt:
  assumes "first_some f [a..<b] = Some y"
  shows "\<exists>x. a \<le> x \<and> x < b \<and> f x = Some y \<and> (\<forall>z. a \<le> z \<and> z < x \<longrightarrow> f z = None)"
proof -
  obtain i where i: "i < b - a" "f (a + i) = Some y" "\<forall>j < i. f (a + j) = None"
    using first_some_earliest [OF assms] by auto
  have "f z = None" if "a \<le> z" "z < a + i" for z
    using i(3) that by (metis add_less_cancel_left le_add_diff_inverse)
  with i show ?thesis by (intro exI [of _ "a + i"]) auto
qed

lemma first_some_upt_Cons:
  "a < b \<Longrightarrow> first_some f [a..<b] = (case f a of Some y \<Rightarrow> Some y | None \<Rightarrow> first_some f [Suc a..<b])"
  by (simp add: upt_conv_Cons)

lemma unat_sat_add64: "unat (sat_add64 a b) = min (2 ^ 64 - 1) (unat a + unat b)"
proof (cases "unat a + unat b < 2 ^ 64")
  case True
  then have "unat (a + b) = unat a + unat b"
    by (subst unat_word_ariths) simp
  with True show ?thesis by (simp add: sat_add64_def)
next
  case False
  then show ?thesis by (simp add: sat_add64_def u64_MAX_def unsigned_minus_1_eq_mask mask_eq_exp_minus_1)
qed

lemma foldl_plus_word: "foldl (+) a (xs :: u64 list) = a + sum_list xs"
  by (induction xs arbitrary: a) (simp_all add: add.assoc)

lemma wrapping_sum64_eq: "wrapping_sum64 xs = sum_list xs"
  by (simp add: wrapping_sum64_def foldl_plus_word)

lemma unat_sum_list:
  "sum_list (map unat xs) < 2 ^ 64 \<Longrightarrow> unat (sum_list (xs :: u64 list)) = sum_list (map unat xs)"
proof (induction xs)
  case Nil
  then show ?case by simp
next
  case (Cons x xs)
  then have IH: "unat (sum_list xs) = sum_list (map unat xs)" by simp
  with Cons.prems show ?case
    by (simp add: unat_word_ariths)
qed

lemma nat_display_nonempty [simp]: "nat_display n \<noteq> []"
  by (subst nat_display.simps) simp

lemma nat_display_digit: "x \<in> set (nat_display n) \<Longrightarrow> 48 \<le> x \<and> x < 58"
proof (induction n rule: nat_display.induct)
  case (1 n)
  have "n mod 10 < 10" by simp
  with 1 show ?case by (subst (asm) nat_display.simps) (auto split: if_splits)
qed

lemma nat_display_inject: "nat_display m = nat_display n \<Longrightarrow> m = n"
proof (induction m arbitrary: n rule: nat_display.induct)
  case (1 m)
  have one: "k < 10" if "nat_display k = [d]" for k d
    using that by (subst (asm) nat_display.simps) (auto split: if_splits)
  show ?case
  proof (cases "m < 10")
    case True
    then have m: "nat_display m = [48 + m]" by (simp add: nat_display.simps [of m])
    with "1.prems" have "n < 10" using one by metis
    then have "nat_display n = [48 + n]" by (simp add: nat_display.simps [of n])
    with m "1.prems" show ?thesis by simp
  next
    case False
    then have m: "nat_display m = nat_display (m div 10) @ [48 + m mod 10]"
      by (simp add: nat_display.simps [of m])
    have "\<not> n < 10"
    proof
      assume "n < 10"
      then have "nat_display n = [48 + n]" by (simp add: nat_display.simps [of n])
      with m "1.prems" have "nat_display (m div 10) = []" by (metis append_self_conv2 append_eq_Cons_conv
            append_is_Nil_conv list.distinct(1))
      then show False by simp
    qed
    then have n: "nat_display n = nat_display (n div 10) @ [48 + n mod 10]"
      by (simp add: nat_display.simps [of n])
    from m n "1.prems" "1.IH" [OF False] have "m div 10 = n div 10" "m mod 10 = n mod 10" by auto
    then show ?thesis by (metis div_mult_mod_eq)
  qed
qed

lemma length_filter_list_update:
  assumes "i < length xs"
  shows "length (filter P (xs[i := y])) + (if P (xs ! i) then 1 else 0)
       = length (filter P xs) + (if P y then 1 else 0)"
  using assms
proof (induction xs arbitrary: i)
  case Nil
  then show ?case by simp
next
  case (Cons x xs)
  then show ?case by (cases i) auto
qed

end
