(* ===== verification/Agent_Domain.thy ===== *)
theory Agent_Domain
  imports Foco_Prelude
begin

text \<open>
  The agent domain of \<open>agent/lib.rs\<close>: validated identifiers, collaboration permissions,
  the structured domain error with its constructors, and the status machines of teams, instances,
  tasks and attempts. Serialising a status to its JSON name is done by \<open>serde_json\<close>; it is
  the parameter \<open>ser\<close> of the operations that put a status name into an error.
\<close>

section \<open>Entities and identifiers\<close>

datatype AgentEntityKind =
  EntityDefinition | EntityTeam | EntityInstance | EntityTask | EntityMessage | EntityAttempt

fun entity_display :: "AgentEntityKind \<Rightarrow> rstr" where
  "entity_display EntityDefinition = lit ''agent_definition''"
| "entity_display EntityTeam = lit ''agent_team''"
| "entity_display EntityInstance = lit ''agent_instance''"
| "entity_display EntityTask = lit ''agent_task''"
| "entity_display EntityMessage = lit ''agent_message''"
| "entity_display EntityAttempt = lit ''agent_attempt''"

fun id_prefix :: "AgentEntityKind \<Rightarrow> rstr" where
  "id_prefix EntityDefinition = lit ''agent-definition-''"
| "id_prefix EntityTeam = lit ''agent-team-''"
| "id_prefix EntityInstance = lit ''agent-instance-''"
| "id_prefix EntityTask = lit ''agent-task-''"
| "id_prefix EntityMessage = lit ''agent-message-''"
| "id_prefix EntityAttempt = lit ''agent-attempt-''"

section \<open>Domain errors\<close>

datatype AgentDomainErrorCode =
  InvalidId | InvalidStateTransition | MissingCoordinatorDefinition | TeamBusy | QueueConflict
| InstanceLimitExceeded | DependencyCycle | MutationLeaseConflict | CrossTeamReference
| PermissionDenied

datatype AgentDomainErrorPhase =
  PhaseContract | PhaseConfig | PhaseStore | PhaseScheduler | PhaseExecution | PhaseTool | PhaseApi

record AgentErrorDiagnostics =
  diag_entity :: "AgentEntityKind option"
  diag_entity_id :: "rstr option"
  diag_from_state :: "rstr option"
  diag_requested_transition :: "rstr option"
  diag_queued_tasks :: "u32 option"
  diag_running_tasks :: "u32 option"
  diag_waiting_tasks :: "u32 option"
  diag_configured_limit :: "u32 option"

record AgentDomainError =
  err_code :: AgentDomainErrorCode
  err_phase :: AgentDomainErrorPhase
  err_message :: rstr
  err_retryable :: bool
  err_diagnostics :: AgentErrorDiagnostics

definition default_diagnostics :: AgentErrorDiagnostics where
  "default_diagnostics = \<lparr>diag_entity = None, diag_entity_id = None, diag_from_state = None,
     diag_requested_transition = None, diag_queued_tasks = None, diag_running_tasks = None,
     diag_waiting_tasks = None, diag_configured_limit = None\<rparr>"

definition queue_conflict :: "rstr \<Rightarrow> AgentDomainError" where
  "queue_conflict instance_id = \<lparr>err_code = QueueConflict, err_phase = PhaseScheduler,
     err_message = lit ''agent instance already has an active queue-head task'',
     err_retryable = True,
     err_diagnostics = default_diagnostics\<lparr>diag_entity := Some EntityInstance,
       diag_entity_id := Some instance_id\<rparr>\<rparr>"

definition instance_limit_exceeded :: "u32 \<Rightarrow> AgentDomainError" where
  "instance_limit_exceeded configured_limit = \<lparr>err_code = InstanceLimitExceeded,
     err_phase = PhaseScheduler, err_message = lit ''agent instance limit exceeded'',
     err_retryable = False,
     err_diagnostics = default_diagnostics\<lparr>diag_configured_limit := Some configured_limit\<rparr>\<rparr>"

definition dependency_cycle :: "rstr \<Rightarrow> AgentDomainError" where
  "dependency_cycle task_id = \<lparr>err_code = DependencyCycle, err_phase = PhaseStore,
     err_message = lit ''agent task dependency would create a cycle'', err_retryable = False,
     err_diagnostics = default_diagnostics\<lparr>diag_entity := Some EntityTask,
       diag_entity_id := Some task_id\<rparr>\<rparr>"

definition mutation_lease_conflict :: "rstr \<Rightarrow> AgentDomainError" where
  "mutation_lease_conflict instance_id = \<lparr>err_code = MutationLeaseConflict,
     err_phase = PhaseTool,
     err_message = lit ''workspace mutation lease is held by another agent instance'',
     err_retryable = True,
     err_diagnostics = default_diagnostics\<lparr>diag_entity := Some EntityInstance,
       diag_entity_id := Some instance_id\<rparr>\<rparr>"

definition cross_team_reference :: "AgentEntityKind \<Rightarrow> rstr \<Rightarrow> AgentDomainError" where
  "cross_team_reference entity entity_id = \<lparr>err_code = CrossTeamReference,
     err_phase = PhaseStore, err_message = lit ''agent entity belongs to a different team'',
     err_retryable = False,
     err_diagnostics = default_diagnostics\<lparr>diag_entity := Some entity,
       diag_entity_id := Some entity_id\<rparr>\<rparr>"

definition permission_denied :: "AgentEntityKind \<Rightarrow> rstr \<Rightarrow> AgentDomainError" where
  "permission_denied entity entity_id = \<lparr>err_code = PermissionDenied,
     err_phase = PhaseExecution,
     err_message = lit ''agent is not permitted to perform this operation'',
     err_retryable = False,
     err_diagnostics = default_diagnostics\<lparr>diag_entity := Some entity,
       diag_entity_id := Some entity_id\<rparr>\<rparr>"

definition invalid_id :: "AgentEntityKind \<Rightarrow> rstr \<Rightarrow> AgentDomainError" where
  "invalid_id entity expected_prefix = \<lparr>err_code = InvalidId, err_phase = PhaseContract,
     err_message = entity_display entity @ lit '' id must start with '' @ [39] @ expected_prefix
       @ [39] @ lit '' and contain only lowercase ASCII letters, digits, or hyphens'',
     err_retryable = False,
     err_diagnostics = default_diagnostics\<lparr>diag_entity := Some entity\<rparr>\<rparr>"

definition invalid_state_transition ::
    "AgentEntityKind \<Rightarrow> rstr \<Rightarrow> rstr \<Rightarrow> AgentDomainError" where
  "invalid_state_transition entity from_state requested_transition =
     \<lparr>err_code = InvalidStateTransition, err_phase = PhaseContract,
      err_message = lit ''invalid '' @ entity_display entity @ lit '' state transition'',
      err_retryable = False,
      err_diagnostics = default_diagnostics\<lparr>diag_entity := Some entity,
        diag_from_state := Some from_state,
        diag_requested_transition := Some requested_transition\<rparr>\<rparr>"

definition missing_coordinator_definition :: "rstr \<Rightarrow> AgentDomainError" where
  "missing_coordinator_definition definition_id = \<lparr>err_code = MissingCoordinatorDefinition,
     err_phase = PhaseConfig,
     err_message = lit ''team mode requires an existing valid coordinator agent definition'',
     err_retryable = False,
     err_diagnostics = default_diagnostics\<lparr>diag_entity := Some EntityDefinition,
       diag_entity_id := Some definition_id\<rparr>\<rparr>"

record TeamWorkload =
  queued_tasks :: u32
  running_tasks :: u32
  waiting_tasks :: u32

definition team_busy :: "TeamWorkload \<Rightarrow> AgentDomainError" where
  "team_busy workload = \<lparr>err_code = TeamBusy, err_phase = PhaseScheduler,
     err_message =
       lit ''team cannot be deactivated while queued, running, or waiting tasks exist'',
     err_retryable = False,
     err_diagnostics = default_diagnostics\<lparr>diag_queued_tasks := Some (queued_tasks workload),
       diag_running_tasks := Some (running_tasks workload),
       diag_waiting_tasks := Some (waiting_tasks workload)\<rparr>\<rparr>"

definition validate_deactivation :: "TeamWorkload \<Rightarrow> AgentDomainError + unit" where
  "validate_deactivation w =
     (if queued_tasks w = 0 \<and> running_tasks w = 0 \<and> waiting_tasks w = 0 then Inr ()
      else Inl (team_busy w))"

definition validate_definition :: "rstr \<Rightarrow> bool \<Rightarrow> AgentDomainError + unit" where
  "validate_definition coordinator_definition_id definition_is_valid =
     (if definition_is_valid then Inr ()
      else Inl (missing_coordinator_definition coordinator_definition_id))"

definition id_byte_ok :: "nat \<Rightarrow> bool" where
  "id_byte_ok b \<longleftrightarrow> (97 \<le> b \<and> b \<le> 122) \<or> (48 \<le> b \<and> b \<le> 57) \<or> b = 45"

definition validate_agent_id ::
    "AgentEntityKind \<Rightarrow> rstr \<Rightarrow> rstr \<Rightarrow> AgentDomainError + unit" where
  "validate_agent_id entity expected_prefix value =
     (let suffix = (case strip_prefix value expected_prefix of
                      None \<Rightarrow> None
                    | Some s \<Rightarrow> if s \<noteq> [] then Some s else None);
          valid = (str_len value \<le> 128 \<and>
                   (case suffix of None \<Rightarrow> False | Some s \<Rightarrow> list_all id_byte_ok (str_bytes s)))
      in if valid then Inr () else Inl (invalid_id entity expected_prefix))"

text \<open>The constructor the macro \<open>define_agent_id\<close> generates for each kind of identifier.\<close>

definition agent_id_new :: "AgentEntityKind \<Rightarrow> rstr \<Rightarrow> AgentDomainError + rstr" where
  "agent_id_new kind value =
     (case validate_agent_id kind (id_prefix kind) value of
        Inl e \<Rightarrow> Inl e | Inr _ \<Rightarrow> Inr value)"

section \<open>Collaboration permissions\<close>

datatype AgentCollaborationTool =
  SendMessage | DelegateTask | WaitTasks | TransferTask | CreateInstance

record AgentPermissions =
  can_create_instances :: bool
  can_delegate :: bool
  allowed_agent_definition_ids :: "rstr list"

fun collaboration_tool_allowed :: "AgentPermissions \<Rightarrow> AgentCollaborationTool \<Rightarrow> bool" where
  "collaboration_tool_allowed p SendMessage = True"
| "collaboration_tool_allowed p DelegateTask = can_delegate p"
| "collaboration_tool_allowed p WaitTasks = can_delegate p"
| "collaboration_tool_allowed p TransferTask = can_delegate p"
| "collaboration_tool_allowed p CreateInstance = can_create_instances p"

definition authorize_collaboration_tool ::
    "AgentPermissions \<Rightarrow> AgentCollaborationTool \<Rightarrow> rstr \<Rightarrow> AgentDomainError + unit" where
  "authorize_collaboration_tool p tool actor_id =
     (if collaboration_tool_allowed p tool then Inr ()
      else Inl (permission_denied EntityInstance actor_id))"

definition authorize_instance_definition ::
    "AgentPermissions \<Rightarrow> rstr \<Rightarrow> rstr \<Rightarrow> AgentDomainError + unit" where
  "authorize_instance_definition p target_definition_id actor_id =
     (case authorize_collaboration_tool p CreateInstance actor_id of
        Inl e \<Rightarrow> Inl e
      | Inr _ \<Rightarrow>
          if list_ex (\<lambda>allowed_id. allowed_id = target_definition_id)
               (allowed_agent_definition_ids p)
          then Inr ()
          else Inl (permission_denied EntityDefinition target_definition_id))"

section \<open>Status machines\<close>

definition status_name :: "('s \<Rightarrow> rstr option) \<Rightarrow> 's \<Rightarrow> rstr" where
  "status_name ser s = (case ser s of Some n \<Rightarrow> n | None \<Rightarrow> lit ''unknown'')"

datatype AgentTeamStatus = TeamActive | TeamPaused | TeamDraining | TeamStopped | TeamFailed

definition team_allowed :: "AgentTeamStatus \<Rightarrow> AgentTeamStatus \<Rightarrow> bool" where
  "team_allowed s t =
     (case s of
        TeamActive \<Rightarrow> t \<in> {TeamPaused, TeamDraining, TeamStopped, TeamFailed}
      | TeamPaused \<Rightarrow> t \<in> {TeamActive, TeamDraining, TeamStopped, TeamFailed}
      | TeamDraining \<Rightarrow> t \<in> {TeamStopped, TeamFailed}
      | TeamFailed \<Rightarrow> t \<in> {TeamActive, TeamStopped}
      | TeamStopped \<Rightarrow> False)"

definition team_transition_to ::
    "(AgentTeamStatus \<Rightarrow> rstr option) \<Rightarrow> AgentTeamStatus \<Rightarrow> AgentTeamStatus
     \<Rightarrow> AgentDomainError + AgentTeamStatus" where
  "team_transition_to ser s target =
     (if team_allowed s target then Inr target
      else Inl (invalid_state_transition EntityTeam (status_name ser s) (status_name ser target)))"

datatype AgentInstanceStatus =
  InstIdle | InstRunning | InstWaiting | InstPaused | InstDraining | InstStopped | InstFailed

definition instance_allowed :: "AgentInstanceStatus \<Rightarrow> AgentInstanceStatus \<Rightarrow> bool" where
  "instance_allowed s t \<longleftrightarrow>
     (s, t) \<in> {(InstIdle, InstRunning), (InstIdle, InstPaused), (InstIdle, InstDraining),
       (InstIdle, InstStopped), (InstIdle, InstFailed),
       (InstRunning, InstIdle), (InstRunning, InstWaiting), (InstRunning, InstPaused),
       (InstRunning, InstDraining), (InstRunning, InstStopped), (InstRunning, InstFailed),
       (InstWaiting, InstRunning), (InstWaiting, InstPaused), (InstWaiting, InstDraining),
       (InstWaiting, InstStopped), (InstWaiting, InstFailed),
       (InstPaused, InstIdle), (InstPaused, InstDraining), (InstPaused, InstStopped),
       (InstPaused, InstFailed),
       (InstDraining, InstStopped), (InstDraining, InstFailed),
       (InstFailed, InstIdle), (InstFailed, InstStopped)}"

definition instance_transition_to ::
    "(AgentInstanceStatus \<Rightarrow> rstr option) \<Rightarrow> AgentInstanceStatus \<Rightarrow> AgentInstanceStatus
     \<Rightarrow> AgentDomainError + AgentInstanceStatus" where
  "instance_transition_to ser s target =
     (if instance_allowed s target then Inr target
      else Inl (invalid_state_transition EntityInstance (status_name ser s)
        (status_name ser target)))"

definition instance_is_terminal :: "AgentInstanceStatus \<Rightarrow> bool" where
  "instance_is_terminal s \<longleftrightarrow> s = InstStopped"

datatype AgentTaskStatus =
  TaskQueued | TaskRunning | TaskWaiting | TaskCompleted | TaskFailed | TaskCancelled
| TaskInterrupted

datatype AgentTaskTransition =
  TStart | TWait | TResume | TComplete | TFail | TCancel | TInterrupt | TRetry

fun task_transition_name :: "AgentTaskTransition \<Rightarrow> rstr" where
  "task_transition_name TStart = lit ''start''"
| "task_transition_name TWait = lit ''wait''"
| "task_transition_name TResume = lit ''resume''"
| "task_transition_name TComplete = lit ''complete''"
| "task_transition_name TFail = lit ''fail''"
| "task_transition_name TCancel = lit ''cancel''"
| "task_transition_name TInterrupt = lit ''interrupt''"
| "task_transition_name TRetry = lit ''retry''"

fun task_target :: "AgentTaskStatus \<Rightarrow> AgentTaskTransition \<Rightarrow> AgentTaskStatus option" where
  "task_target TaskQueued TStart = Some TaskRunning"
| "task_target TaskQueued TCancel = Some TaskCancelled"
| "task_target TaskRunning TWait = Some TaskWaiting"
| "task_target TaskRunning TComplete = Some TaskCompleted"
| "task_target TaskRunning TFail = Some TaskFailed"
| "task_target TaskRunning TCancel = Some TaskCancelled"
| "task_target TaskRunning TInterrupt = Some TaskInterrupted"
| "task_target TaskWaiting TResume = Some TaskRunning"
| "task_target TaskWaiting TFail = Some TaskFailed"
| "task_target TaskWaiting TCancel = Some TaskCancelled"
| "task_target TaskWaiting TInterrupt = Some TaskInterrupted"
| "task_target TaskFailed TRetry = Some TaskQueued"
| "task_target TaskCancelled TRetry = Some TaskQueued"
| "task_target TaskInterrupted TRetry = Some TaskQueued"
| "task_target _ _ = None"

definition task_apply ::
    "(AgentTaskStatus \<Rightarrow> rstr option) \<Rightarrow> AgentTaskStatus \<Rightarrow> AgentTaskTransition
     \<Rightarrow> AgentDomainError + AgentTaskStatus" where
  "task_apply ser s t =
     (case task_target s t of
        Some target \<Rightarrow> Inr target
      | None \<Rightarrow> Inl (invalid_state_transition EntityTask (status_name ser s)
                 (task_transition_name t)))"

definition holds_queue_head :: "AgentTaskStatus \<Rightarrow> bool" where
  "holds_queue_head s \<longleftrightarrow> s \<in> {TaskQueued, TaskRunning, TaskWaiting}"

definition task_is_terminal :: "AgentTaskStatus \<Rightarrow> bool" where
  "task_is_terminal s \<longleftrightarrow> s \<in> {TaskCompleted, TaskFailed, TaskCancelled, TaskInterrupted}"

datatype AgentAttemptStatus =
  AttRunning | AttSuspended | AttCompleted | AttFailed | AttCancelled | AttInterrupted

datatype AgentAttemptTransition = ASuspend | AResume | AComplete | AFail | ACancel | AInterrupt

fun attempt_transition_name :: "AgentAttemptTransition \<Rightarrow> rstr" where
  "attempt_transition_name ASuspend = lit ''suspend''"
| "attempt_transition_name AResume = lit ''resume''"
| "attempt_transition_name AComplete = lit ''complete''"
| "attempt_transition_name AFail = lit ''fail''"
| "attempt_transition_name ACancel = lit ''cancel''"
| "attempt_transition_name AInterrupt = lit ''interrupt''"

fun attempt_target :: "AgentAttemptStatus \<Rightarrow> AgentAttemptTransition \<Rightarrow> AgentAttemptStatus option"
  where
  "attempt_target AttRunning ASuspend = Some AttSuspended"
| "attempt_target AttRunning AComplete = Some AttCompleted"
| "attempt_target AttRunning AFail = Some AttFailed"
| "attempt_target AttRunning ACancel = Some AttCancelled"
| "attempt_target AttRunning AInterrupt = Some AttInterrupted"
| "attempt_target AttSuspended AResume = Some AttRunning"
| "attempt_target AttSuspended AFail = Some AttFailed"
| "attempt_target AttSuspended ACancel = Some AttCancelled"
| "attempt_target AttSuspended AInterrupt = Some AttInterrupted"
| "attempt_target _ _ = None"

definition attempt_apply ::
    "(AgentAttemptStatus \<Rightarrow> rstr option) \<Rightarrow> AgentAttemptStatus \<Rightarrow> AgentAttemptTransition
     \<Rightarrow> AgentDomainError + AgentAttemptStatus" where
  "attempt_apply ser s t =
     (case attempt_target s t of
        Some target \<Rightarrow> Inr target
      | None \<Rightarrow> Inl (invalid_state_transition EntityAttempt (status_name ser s)
                 (attempt_transition_name t)))"

definition attempt_is_terminal :: "AgentAttemptStatus \<Rightarrow> bool" where
  "attempt_is_terminal s \<longleftrightarrow> s \<in> {AttCompleted, AttFailed, AttCancelled, AttInterrupted}"

text \<open>A run applies a sequence of requests and stops at the first error.\<close>

fun run_transitions :: "('s \<Rightarrow> 't \<Rightarrow> 'e + 's) \<Rightarrow> 's \<Rightarrow> 't list \<Rightarrow> 'e + 's" where
  "run_transitions app s [] = Inr s"
| "run_transitions app s (t # ts) =
     (case app s t of Inl e \<Rightarrow> Inl e | Inr s' \<Rightarrow> run_transitions app s' ts)"

text \<open>What a task looks like while one of its attempts is in a given status.\<close>

fun task_of_attempt :: "AgentAttemptStatus \<Rightarrow> AgentTaskStatus" where
  "task_of_attempt AttRunning = TaskRunning"
| "task_of_attempt AttSuspended = TaskWaiting"
| "task_of_attempt AttCompleted = TaskCompleted"
| "task_of_attempt AttFailed = TaskFailed"
| "task_of_attempt AttCancelled = TaskCancelled"
| "task_of_attempt AttInterrupted = TaskInterrupted"

fun task_event_of_attempt :: "AgentAttemptTransition \<Rightarrow> AgentTaskTransition" where
  "task_event_of_attempt ASuspend = TWait"
| "task_event_of_attempt AResume = TResume"
| "task_event_of_attempt AComplete = TComplete"
| "task_event_of_attempt AFail = TFail"
| "task_event_of_attempt ACancel = TCancel"
| "task_event_of_attempt AInterrupt = TInterrupt"

section \<open>The interface of a status machine\<close>

text \<open>
  A status machine with final statuses: in a final status every request is refused unless it is
  one of the requests that reopen the entity.
\<close>

locale status_machine =
  fixes app :: "'s \<Rightarrow> 't \<Rightarrow> 'e + 's"
    and final :: "'s \<Rightarrow> bool"
    and reopens :: "'t \<Rightarrow> bool"
  assumes final_refuses: "final s \<Longrightarrow> \<not> reopens t \<Longrightarrow> \<exists>e. app s t = Inl e"
begin

lemma run_from_final:
  assumes "final s" and "\<forall>t \<in> set ts. \<not> reopens t" and "run_transitions app s ts = Inr s'"
  shows "ts = [] \<and> s' = s"
proof (cases ts)
  case Nil
  with assms show ?thesis by simp
next
  case (Cons t us)
  with assms(2) have "\<not> reopens t" by simp
  with assms(1) obtain e where "app s t = Inl e"
    using final_refuses by blast
  with Cons assms(3) show ?thesis by simp
qed

lemma run_through_final:
  assumes "run_transitions app s (ts @ us) = Inr s'"
    and "run_transitions app s ts = Inr m" and "final m" and "\<forall>t \<in> set us. \<not> reopens t"
  shows "us = [] \<and> s' = m"
proof -
  have "run_transitions app s (ts @ us) = run_transitions app m us"
    using assms(2) by (induction ts arbitrary: s) (auto split: sum.splits)
  with assms run_from_final [of m us s'] show ?thesis by simp
qed

end

section \<open>Lemmas\<close>

lemma utf8_char_ascii: "c < 128 \<Longrightarrow> utf8_char c = [c]"
  by (simp add: utf8_char_def)

lemma id_byte_ok_ascii: "id_byte_ok b \<Longrightarrow> b < 128"
  by (auto simp: id_byte_ok_def)

lemma list_all_id_bytes: "list_all id_byte_ok (str_bytes s) \<longleftrightarrow> list_all id_byte_ok s"
proof (induction s)
  case Nil
  then show ?case by (simp add: str_bytes_def)
next
  case (Cons c s)
  have "list_all id_byte_ok (utf8_char c) \<longleftrightarrow> id_byte_ok c"
    by (auto simp: utf8_char_def id_byte_ok_def)
  with Cons.IH show ?case by (simp add: str_bytes_def)
qed

lemma agent_id_new_ok_iff:
  "agent_id_new k v = Inr w \<longleftrightarrow>
     w = v \<and> str_len v \<le> 128 \<and>
     (\<exists>s. v = id_prefix k @ s \<and> s \<noteq> [] \<and> list_all id_byte_ok s)"
  by (auto simp: agent_id_new_def validate_agent_id_def Let_def list_all_id_bytes
      strip_prefix_Some_iff split: option.splits if_splits sum.splits)

lemma id_prefix_inj: "id_prefix a @ s = id_prefix b @ t \<Longrightarrow> a = b"
  by (cases a; cases b; simp add: lit_def)

interpretation team_machine:
  status_machine "team_transition_to ser" "\<lambda>s. s = TeamStopped" "\<lambda>_. False" for ser
  by unfold_locales (simp add: team_transition_to_def team_allowed_def)

interpretation instance_machine:
  status_machine "instance_transition_to ser" instance_is_terminal "\<lambda>_. False" for ser
  by unfold_locales
    (simp add: instance_transition_to_def instance_allowed_def instance_is_terminal_def)

interpretation task_machine:
  status_machine "task_apply ser" task_is_terminal "\<lambda>t. t = TRetry" for ser
proof
  fix s t
  assume "task_is_terminal s" and "\<not> t = TRetry"
  then show "\<exists>e. task_apply ser s t = Inl e"
    by (cases s; cases t) (simp_all add: task_apply_def task_is_terminal_def)
qed

interpretation attempt_machine:
  status_machine "attempt_apply ser" attempt_is_terminal "\<lambda>_. False" for ser
proof
  fix s :: AgentAttemptStatus and t :: AgentAttemptTransition
  assume "attempt_is_terminal s" and "\<not> False"
  then show "\<exists>e. attempt_apply ser s t = Inl e"
    by (cases s; cases t) (simp_all add: attempt_apply_def attempt_is_terminal_def)
qed

lemma attempt_target_simulates:
  "map_option task_of_attempt (attempt_target a t)
     = task_target (task_of_attempt a) (task_event_of_attempt t)"
  by (cases a; cases t) simp_all

section \<open>Properties\<close>

text \<open>C1: the attempt machine refines the task machine. Whatever the requests, running them on an
  attempt succeeds exactly when running the corresponding task requests on the task the attempt
  belongs to succeeds, and the two end in corresponding statuses.\<close>

theorem attempt_run_refines_task_run:
  "(\<forall>a'. run_transitions (attempt_apply ser) a ts = Inr a' \<longrightarrow>
      run_transitions (task_apply ser') (task_of_attempt a) (map task_event_of_attempt ts)
        = Inr (task_of_attempt a'))
   \<and> (is_ok (run_transitions (attempt_apply ser) a ts) \<longleftrightarrow>
      is_ok (run_transitions (task_apply ser') (task_of_attempt a) (map task_event_of_attempt ts)))"
proof (induction ts arbitrary: a)
  case Nil
  then show ?case by simp
next
  case (Cons t ts)
  show ?case
  proof (cases "attempt_target a t")
    case None
    then have "task_target (task_of_attempt a) (task_event_of_attempt t) = None"
      using attempt_target_simulates [of a t] by simp
    with None show ?thesis by (simp add: attempt_apply_def task_apply_def)
  next
    case (Some a')
    then have "task_target (task_of_attempt a) (task_event_of_attempt t)
        = Some (task_of_attempt a')"
      using attempt_target_simulates [of a t] by simp
    with Some Cons.IH [of a'] show ?thesis by (simp add: attempt_apply_def task_apply_def)
  qed
qed

theorem attempt_run_refines_task_run_witness:
  "run_transitions (task_apply (\<lambda>_. None)) TaskRunning [TWait, TResume, TComplete]
     = Inr TaskCompleted"
  using attempt_run_refines_task_run
    [of "\<lambda>_. None" AttRunning "[ASuspend, AResume, AComplete]" "\<lambda>_. None"]
  by (simp add: attempt_apply_def)

text \<open>final statuses are final. A task that has reached a terminal status leaves it only by an
  explicit retry; terminal attempts, stopped instances and stopped teams accept no request at all.\<close>

theorem terminal_statuses_are_final:
  "(task_is_terminal s \<and> TRetry \<notin> set ts \<and> run_transitions (task_apply f) s ts = Inr s'
      \<longrightarrow> ts = [] \<and> s' = s)
   \<and> (attempt_is_terminal a \<and> run_transitions (attempt_apply g) a us = Inr a'
      \<longrightarrow> us = [] \<and> a' = a)
   \<and> (instance_is_terminal i \<and> run_transitions (instance_transition_to h) i vs = Inr i'
      \<longrightarrow> vs = [] \<and> i' = i)
   \<and> (run_transitions (team_transition_to k) TeamStopped ws = Inr m
      \<longrightarrow> ws = [] \<and> m = TeamStopped)"
  using task_machine.run_from_final [of s ts f s'] attempt_machine.run_from_final [of a us g a']
    instance_machine.run_from_final [of i vs h i']
    team_machine.run_from_final [of TeamStopped ws k m]
  by auto

theorem terminal_statuses_are_final_witness:
  "task_is_terminal TaskFailed \<and>
   run_transitions (task_apply (\<lambda>_. None)) TaskFailed [] = Inr TaskFailed \<and>
   run_transitions (task_apply (\<lambda>_. None)) TaskFailed [TRetry, TStart] = Inr TaskRunning \<and>
   \<not> is_ok (run_transitions (task_apply (\<lambda>_. None)) TaskFailed [TStart])"
proof -
  have "run_transitions (task_apply (\<lambda>_. None)) TaskFailed [TStart] \<noteq> Inr s'" for s'
    using terminal_statuses_are_final [of TaskFailed "[TStart]" "\<lambda>_. None" s'
        AttFailed "\<lambda>_. None" "[]" AttFailed InstStopped "\<lambda>_. None" "[]" InstStopped
        "\<lambda>_. None" "[]" TeamStopped]
    by (auto simp: task_is_terminal_def)
  then have "\<not> is_ok (run_transitions (task_apply (\<lambda>_. None)) TaskFailed [TStart])"
    by (metis is_ok.elims(2))
  then show ?thesis
    by (simp add: task_is_terminal_def task_apply_def)
qed

text \<open>An identifier is accepted exactly when it is the prefix of its kind followed by a
  non-empty suffix of lowercase ASCII letters, digits and hyphens, 128 bytes at most, and no
  identifier is accepted for two kinds of entity.\<close>

theorem agent_id_accepts_one_kind:
  "(agent_id_new k v = Inr w \<longleftrightarrow>
      w = v \<and> str_len v \<le> 128 \<and>
      (\<exists>s. v = id_prefix k @ s \<and> s \<noteq> [] \<and> list_all id_byte_ok s))
   \<and> (is_ok (agent_id_new k v) \<and> is_ok (agent_id_new k' v) \<longrightarrow> k = k')"
proof -
  have "k = k'" if "is_ok (agent_id_new k v)" and "is_ok (agent_id_new k' v)"
  proof -
    from that obtain w1 w2 where "agent_id_new k v = Inr w1" and "agent_id_new k' v = Inr w2"
      by (metis is_ok.elims(2))
    then obtain s t where "v = id_prefix k @ s" and "v = id_prefix k' @ t"
      by (auto simp: agent_id_new_ok_iff)
    then show ?thesis using id_prefix_inj by metis
  qed
  then show ?thesis using agent_id_new_ok_iff by blast
qed

theorem agent_id_accepts_one_kind_witness:
  "is_ok (agent_id_new EntityTask (lit ''agent-task-7'')) \<and>
   \<not> is_ok (agent_id_new EntityTeam (lit ''agent-task-7''))"
proof -
  have ok: "is_ok (agent_id_new EntityTask (lit ''agent-task-7''))"
    by (simp add: agent_id_new_def validate_agent_id_def lit_def strip_prefix_def
        starts_with_def str_len_def str_bytes_def utf8_char_def id_byte_ok_def)
  with agent_id_accepts_one_kind [of EntityTask "lit ''agent-task-7''" _ EntityTeam]
  show ?thesis by blast
qed

end
