(* ===== verification/Context_Budget.thy ===== *)
theory Context_Budget
  imports Foco_Prelude
begin

text \<open>
  Prompt budgeting of \<open>agent/lib.rs\<close>: the token estimate, the context budget, packing of the
  message history into the budget and the plan of what to compress. Token counts are \<open>u64\<close>
  words; \<open>Iterator::sum\<close> wraps in the release profile, so the results about sums assume that
  the estimates of one history add up to less than \<open>2 ^ 64\<close>.
\<close>

section \<open>Token estimate\<close>

definition div_ceil64 :: "u64 \<Rightarrow> u64 \<Rightarrow> u64" where
  "div_ceil64 a b = (if a mod b = 0 then a div b else a div b + 1)"

fun count_chars :: "rstr \<Rightarrow> u64 \<Rightarrow> u64 \<Rightarrow> u64 \<times> u64" where
  "count_chars [] ascii_chars non_ascii_chars = (ascii_chars, non_ascii_chars)"
| "count_chars (ch # text) ascii_chars non_ascii_chars =
     (if is_ascii ch then count_chars text (ascii_chars + 1) non_ascii_chars
      else count_chars text ascii_chars (non_ascii_chars + 1))"

definition ESTIMATED_CHARS_PER_TOKEN :: u64 where
  "ESTIMATED_CHARS_PER_TOKEN = 4"

definition estimate_text_tokens :: "rstr \<Rightarrow> u64" where
  "estimate_text_tokens text =
     (let (ascii_chars, non_ascii_chars) = count_chars text 0 0
      in div_ceil64 ascii_chars ESTIMATED_CHARS_PER_TOKEN + non_ascii_chars)"

section \<open>Context budget\<close>

record ContextBudget =
  context_window :: u64
  max_output_tokens :: u64
  system_prompt_tokens :: u64
  tool_schema_tokens :: u64
  safety_tokens :: u64
  available_message_tokens :: u64

datatype ContextBudgetError = ReservedExceedsWindow u64 u64

definition DEFAULT_CONTEXT_SAFETY_TOKENS :: u64 where
  "DEFAULT_CONTEXT_SAFETY_TOKENS = 256"

definition calculate_context_budget_with_safety ::
    "u64 \<Rightarrow> u64 \<Rightarrow> u64 \<Rightarrow> u64 \<Rightarrow> u64 \<Rightarrow> ContextBudgetError + ContextBudget" where
  "calculate_context_budget_with_safety window max_output system_prompt tool_schema safety =
     (let reserved_tokens = sat_add64 (sat_add64 system_prompt tool_schema) safety
      in if reserved_tokens \<ge> window then Inl (ReservedExceedsWindow window reserved_tokens)
         else Inr \<lparr>context_window = window, max_output_tokens = max_output,
                system_prompt_tokens = system_prompt, tool_schema_tokens = tool_schema,
                safety_tokens = safety,
                available_message_tokens = window - reserved_tokens\<rparr>)"

definition calculate_context_budget ::
    "u64 \<Rightarrow> u64 \<Rightarrow> u64 \<Rightarrow> u64 \<Rightarrow> ContextBudgetError + ContextBudget" where
  "calculate_context_budget window max_output system_prompt tool_schema =
     calculate_context_budget_with_safety window max_output system_prompt tool_schema
       DEFAULT_CONTEXT_SAFETY_TOKENS"

section \<open>Packing\<close>

record ContextPackItem =
  item_id :: rstr
  estimated_tokens :: u64
  must_keep :: bool

record PackedContext =
  selected_indices :: "nat list"
  dropped_ids :: "rstr list"
  used_message_tokens :: u64

datatype ContextPackError = RequiredMessagesExceedBudget u64 u64

text \<open>The loop over the messages from the newest to the oldest: it works on the array
  \<open>selected\<close> and on the remaining budget.\<close>

fun select_optional ::
    "ContextPackItem list \<Rightarrow> nat list \<Rightarrow> bool list \<times> u64 \<Rightarrow> bool list \<times> u64" where
  "select_optional messages [] (selected, remaining) = (selected, remaining)"
| "select_optional messages (index # rest) (selected, remaining) =
     select_optional messages rest
       (if selected ! index then (selected, remaining)
        else if estimated_tokens (messages ! index) \<le> remaining
        then (selected[index := True], remaining - estimated_tokens (messages ! index))
        else (selected, remaining))"

text \<open>The final loop splits the messages into the selected and the dropped ones.\<close>

fun collect_packed ::
    "(nat \<times> ContextPackItem) list \<Rightarrow> bool list \<Rightarrow> PackedContext \<Rightarrow> PackedContext" where
  "collect_packed [] selected p = p"
| "collect_packed ((index, message) # rest) selected p =
     collect_packed rest selected
       (if selected ! index
        then p\<lparr>selected_indices := selected_indices p @ [index],
               used_message_tokens := used_message_tokens p + estimated_tokens message\<rparr>
        else p\<lparr>dropped_ids := dropped_ids p @ [item_id message]\<rparr>)"

definition pack_context ::
    "ContextPackItem list \<Rightarrow> u64 \<Rightarrow> ContextPackError + PackedContext" where
  "pack_context messages available_tokens =
     (let required_tokens = wrapping_sum64 (map estimated_tokens (filter must_keep messages))
      in if required_tokens > available_tokens
         then Inl (RequiredMessagesExceedBudget required_tokens available_tokens)
         else
           (let (selected, _) = select_optional messages (rev [0..<length messages])
                  (map must_keep messages, available_tokens - required_tokens)
            in Inr (collect_packed (enumerate 0 messages) selected
                 \<lparr>selected_indices = [], dropped_ids = [], used_message_tokens = 0\<rparr>)))"

section \<open>Compression plan\<close>

record ContextCompressionPlan =
  covered_indices :: "nat list"
  original_tokens :: u64
  trigger_tokens :: u64

definition CONTEXT_COMPRESSION_TRIGGER_NUMERATOR :: u64 where
  "CONTEXT_COMPRESSION_TRIGGER_NUMERATOR = 4"
definition CONTEXT_COMPRESSION_TRIGGER_DENOMINATOR :: u64 where
  "CONTEXT_COMPRESSION_TRIGGER_DENOMINATOR = 5"

definition context_compression_trigger_tokens :: "u64 \<Rightarrow> u64" where
  "context_compression_trigger_tokens available_tokens =
     sat_mul64 available_tokens CONTEXT_COMPRESSION_TRIGGER_NUMERATOR
       div CONTEXT_COMPRESSION_TRIGGER_DENOMINATOR"

definition compressible_indices :: "ContextPackItem list \<Rightarrow> nat \<Rightarrow> nat list" where
  "compressible_indices messages active_tool_start_index =
     map fst (filter (\<lambda>(index, message). index < active_tool_start_index \<and> \<not> must_keep message
         \<and> estimated_tokens message > 0) (enumerate 0 messages))"

definition plan_context_compression_at_trigger ::
    "ContextPackItem list \<Rightarrow> u64 \<Rightarrow> u64 \<Rightarrow> nat \<Rightarrow> nat \<Rightarrow> ContextCompressionPlan option" where
  "plan_context_compression_at_trigger messages available_tokens trigger
       active_tool_start_index preserve_recent_messages =
     (if available_tokens = 0 then None
      else if wrapping_sum64 (map estimated_tokens messages) \<le> trigger then None
      else
        (let compressible = compressible_indices messages active_tool_start_index
         in if length compressible \<le> preserve_recent_messages then None
            else
              (let covered = take (length compressible - preserve_recent_messages) compressible;
                   tokens = wrapping_sum64 (map (\<lambda>index. estimated_tokens (messages ! index)) covered)
               in if tokens = 0 then None
                  else Some \<lparr>covered_indices = covered, original_tokens = tokens,
                         trigger_tokens = trigger\<rparr>)))"

definition plan_context_compression ::
    "ContextPackItem list \<Rightarrow> u64 \<Rightarrow> nat \<Rightarrow> nat \<Rightarrow> ContextCompressionPlan option" where
  "plan_context_compression messages available_tokens active_tool_start_index
       preserve_recent_messages =
     plan_context_compression_at_trigger messages available_tokens
       (context_compression_trigger_tokens available_tokens) active_tool_start_index
       preserve_recent_messages"

section \<open>Lemmas\<close>

abbreviation tokens_of :: "ContextPackItem \<Rightarrow> nat" where
  "tokens_of m \<equiv> unat (estimated_tokens m)"

definition selected_sum :: "ContextPackItem list \<Rightarrow> bool list \<Rightarrow> nat" where
  "selected_sum messages selected =
     sum_list (map (\<lambda>i. tokens_of (messages ! i)) (filter (\<lambda>i. selected ! i) [0..<length messages]))"

definition no_token_overflow :: "ContextPackItem list \<Rightarrow> bool" where
  "no_token_overflow messages \<longleftrightarrow> sum_list (map tokens_of messages) < 2 ^ 64"

lemma unat_minus_le: "(b :: u64) \<le> a \<Longrightarrow> unat (a - b) = unat a - unat b"
  by (simp add: unat_sub word_le_nat_alt)

lemma count_chars_eq:
  "count_chars s a n = (a + of_nat (length (filter is_ascii s)),
     n + of_nat (length (filter (\<lambda>c. \<not> is_ascii c) s)))"
  by (induction s a n rule: count_chars.induct) (simp_all add: algebra_simps)

lemma filter_upt_update:
  assumes "i < n" and "n \<le> length sel" and "\<not> sel ! i"
  shows "sum_list (map f (filter (\<lambda>j. sel[i := True] ! j) [0..<n]))
       = sum_list (map f (filter (\<lambda>j. sel ! j) [0..<n])) + (f i :: nat)"
  using assms
proof (induction n)
  case 0
  then show ?case by simp
next
  case (Suc n)
  show ?case
  proof (cases "i = n")
    case True
    have "filter (\<lambda>j. sel[n := True] ! j) [0..<n] = filter (\<lambda>j. sel ! j) [0..<n]"
      by (rule filter_cong) auto
    with True Suc.prems show ?thesis by simp
  next
    case False
    with Suc have "sum_list (map f (filter (\<lambda>j. sel[i := True] ! j) [0..<n]))
       = sum_list (map f (filter (\<lambda>j. sel ! j) [0..<n])) + f i" by simp
    with False show ?thesis by simp
  qed
qed

lemma selected_sum_update:
  "i < length ms \<Longrightarrow> length sel = length ms \<Longrightarrow> \<not> sel ! i \<Longrightarrow>
     selected_sum ms (sel[i := True]) = selected_sum ms sel + tokens_of (ms ! i)"
  unfolding selected_sum_def by (rule filter_upt_update) auto

text \<open>What the greedy loop keeps: the length of the array, the messages already chosen, and the
  sum of the chosen estimates plus the remaining budget.\<close>

lemma select_optional_invariant:
  assumes "select_optional ms ixs (sel, rem) = (sel', rem')"
    and "length sel = length ms" and "\<forall>i \<in> set ixs. i < length ms"
  shows "length sel' = length ms \<and> (\<forall>i. sel ! i \<longrightarrow> sel' ! i)
       \<and> selected_sum ms sel' + unat rem' = selected_sum ms sel + unat rem
       \<and> rem' \<le> rem"
  using assms
proof (induction ixs arbitrary: sel rem)
  case Nil
  then show ?case by simp
next
  case (Cons i ixs)
  let ?t = "estimated_tokens (ms ! i)"
  show ?case
  proof (cases "\<not> sel ! i \<and> ?t \<le> rem")
    case False
    then show ?thesis using Cons by (auto split: if_splits)
  next
    case True
    with Cons.prems have run: "select_optional ms ixs (sel[i := True], rem - ?t) = (sel', rem')"
      by simp
    have IH: "length sel' = length ms \<and> (\<forall>j. sel[i := True] ! j \<longrightarrow> sel' ! j)
       \<and> selected_sum ms sel' + unat rem' = selected_sum ms (sel[i := True]) + unat (rem - ?t)
       \<and> rem' \<le> rem - ?t"
      using Cons.IH [OF run] Cons.prems by simp
    have "unat (rem - ?t) = unat rem - unat ?t" and "unat ?t \<le> unat rem"
      using True by (simp_all add: unat_minus_le word_le_nat_alt)
    moreover have "selected_sum ms (sel[i := True]) = selected_sum ms sel + unat ?t"
      using Cons.prems True by (simp add: selected_sum_update)
    moreover have "sel ! j \<Longrightarrow> sel[i := True] ! j" for j
      using Cons.prems by (cases "i = j") auto
    moreover have "rem - ?t \<le> rem"
      using True by (simp add: word_sub_le)
    ultimately show ?thesis using IH by (auto intro: order_trans)
  qed
qed

text \<open>A visited message that stays out does not fit into what is left at the end.\<close>

lemma select_optional_maximal:
  assumes "select_optional ms ixs (sel, rem) = (sel', rem')"
    and "length sel = length ms" and "\<forall>i \<in> set ixs. i < length ms"
    and "i \<in> set ixs" and "\<not> sel' ! i"
  shows "rem' < estimated_tokens (ms ! i)"
  using assms
proof (induction ixs arbitrary: sel rem)
  case Nil
  then show ?case by simp
next
  case (Cons j ixs)
  define st where "st = (if sel ! j then (sel, rem)
    else if estimated_tokens (ms ! j) \<le> rem
    then (sel[j := True], rem - estimated_tokens (ms ! j)) else (sel, rem))"
  obtain sel1 rem1 where st: "st = (sel1, rem1)" by (cases st)
  have len: "length sel1 = length ms" using st Cons.prems by (auto simp: st_def split: if_splits)
  have run: "select_optional ms ixs (sel1, rem1) = (sel', rem')"
    using Cons.prems(1) st by (simp add: st_def)
  note inv = select_optional_invariant [OF run len]
  show ?case
  proof (cases "i \<in> set ixs")
    case True
    then show ?thesis using Cons.IH [OF run len] Cons.prems by simp
  next
    case False
    with Cons.prems have i: "i = j" by simp
    have keep: "\<forall>k. sel1 ! k \<longrightarrow> sel' ! k" and le: "rem' \<le> rem1"
      using inv Cons.prems by auto
    have "\<not> sel1 ! j" using keep Cons.prems(5) i by auto
    with st Cons.prems have "rem < estimated_tokens (ms ! j)" and "rem1 = rem"
      by (auto simp: st_def nth_list_update split: if_splits)
    with le i show ?thesis by simp
  qed
qed

lemma collect_packed_eq:
  "collect_packed xs sel p =
     p\<lparr>selected_indices := selected_indices p @ map fst (filter (\<lambda>(i, m). sel ! i) xs),
       dropped_ids := dropped_ids p @ map (item_id \<circ> snd) (filter (\<lambda>(i, m). \<not> sel ! i) xs),
       used_message_tokens := used_message_tokens p
         + sum_list (map (estimated_tokens \<circ> snd) (filter (\<lambda>(i, m). sel ! i) xs))\<rparr>"
  by (induction xs sel p rule: collect_packed.induct) (simp_all add: add.assoc)

lemma enumerate_map: "enumerate 0 ms = map (\<lambda>i. (i, ms ! i)) [0..<length ms]"
  by (rule nth_equalityI) (simp_all add: nth_enumerate_eq)

lemma filter_enumerate:
  "filter (\<lambda>(i, m). P i m) (enumerate 0 ms)
     = map (\<lambda>i. (i, ms ! i)) (filter (\<lambda>i. P i (ms ! i)) [0..<length ms])"
  by (simp add: enumerate_map filter_map o_def)

lemma selected_sum_le_total:
  "selected_sum ms sel \<le> sum_list (map tokens_of ms)"
proof -
  have "selected_sum ms sel \<le> sum_list (map (\<lambda>i. tokens_of (ms ! i)) [0..<length ms])"
    unfolding selected_sum_def by (rule sum_list_filter_le_nat)
  also have "map (\<lambda>i. tokens_of (ms ! i)) [0..<length ms] = map tokens_of ms"
    by (rule nth_equalityI) auto
  finally show ?thesis .
qed

lemma selected_sum_must_keep:
  "selected_sum ms (map must_keep ms) = sum_list (map tokens_of (filter must_keep ms))"
proof -
  have "filter (\<lambda>i. map must_keep ms ! i) [0..<length ms]
      = filter (\<lambda>i. must_keep (ms ! i)) [0..<length ms]"
    by (rule filter_cong) auto
  moreover have "filter must_keep ms = map ((!) ms) (filter (\<lambda>i. must_keep (ms ! i)) [0..<length ms])"
    by (metis (mono_tags, lifting) comp_apply filter_cong filter_map map_nth)
  ultimately show ?thesis by (simp add: selected_sum_def o_def)
qed

lemma unat_required:
  assumes "no_token_overflow ms"
  shows "unat (wrapping_sum64 (map estimated_tokens (filter must_keep ms)))
    = sum_list (map tokens_of (filter must_keep ms))"
proof -
  have "sum_list (map tokens_of (filter must_keep ms)) \<le> sum_list (map tokens_of ms)"
    by (rule sum_list_filter_le_nat)
  with assms have "sum_list (map unat (map estimated_tokens (filter must_keep ms))) < 2 ^ 64"
    by (simp add: no_token_overflow_def o_def)
  then show ?thesis
    by (simp add: wrapping_sum64_eq unat_sum_list o_def)
qed

text \<open>The result of a successful packing, in terms of the array the greedy loop ends with.\<close>

lemma pack_context_Ok_cases:
  assumes "pack_context ms avail = Inr p"
  obtains sel rem' where
    "select_optional ms (rev [0..<length ms])
       (map must_keep ms, avail - wrapping_sum64 (map estimated_tokens (filter must_keep ms)))
     = (sel, rem')"
    "wrapping_sum64 (map estimated_tokens (filter must_keep ms)) \<le> avail"
    "selected_indices p = filter (\<lambda>i. sel ! i) [0..<length ms]"
    "dropped_ids p = map (\<lambda>i. item_id (ms ! i)) (filter (\<lambda>i. \<not> sel ! i) [0..<length ms])"
    "used_message_tokens p
       = sum_list (map (\<lambda>i. estimated_tokens (ms ! i)) (filter (\<lambda>i. sel ! i) [0..<length ms]))"
proof -
  let ?req = "wrapping_sum64 (map estimated_tokens (filter must_keep ms))"
  obtain sel rem' where run: "select_optional ms (rev [0..<length ms])
      (map must_keep ms, avail - ?req) = (sel, rem')" by fastforce
  from assms run have "\<not> ?req > avail" and p: "p = collect_packed (enumerate 0 ms) sel
      \<lparr>selected_indices = [], dropped_ids = [], used_message_tokens = 0\<rparr>"
    by (auto simp: pack_context_def Let_def split: if_splits)
  then have le: "?req \<le> avail" by simp
  have sel_p: "selected_indices p = filter (\<lambda>i. sel ! i) [0..<length ms]"
    and drop_p: "dropped_ids p = map (\<lambda>i. item_id (ms ! i)) (filter (\<lambda>i. \<not> sel ! i) [0..<length ms])"
    and used_p: "used_message_tokens p
       = sum_list (map (\<lambda>i. estimated_tokens (ms ! i)) (filter (\<lambda>i. sel ! i) [0..<length ms]))"
    by (simp_all add: p collect_packed_eq filter_enumerate o_def)
  show ?thesis by (rule that [OF run le sel_p drop_p used_p])
qed

lemma unat_selected_sum:
  assumes "no_token_overflow ms"
  shows "unat (sum_list (map (\<lambda>i. estimated_tokens (ms ! i))
           (filter (\<lambda>i. sel ! i) [0..<length ms]))) = selected_sum ms sel"
  unfolding selected_sum_def using assms selected_sum_le_total [of ms sel]
  by (subst unat_sum_list) (simp_all add: no_token_overflow_def selected_sum_def o_def)

lemma packed_total:
  assumes "no_token_overflow ms"
    and "select_optional ms (rev [0..<length ms])
       (map must_keep ms, avail - wrapping_sum64 (map estimated_tokens (filter must_keep ms)))
     = (sel, rem')"
    and "wrapping_sum64 (map estimated_tokens (filter must_keep ms)) \<le> avail"
  shows "selected_sum ms sel + unat rem' = unat avail"
  using select_optional_invariant [OF assms(2)] assms(3) unat_required [OF assms(1)]
  by (simp add: selected_sum_must_keep unat_minus_le word_le_nat_alt)

section \<open>Properties\<close>

text \<open>Packing respects the budget and keeps what it must. When the estimates of the history do
  not overflow, packing succeeds exactly when the required messages fit; the chosen indices are in
  order, contain every required message, and their estimates add up to the reported usage, which is
  within the budget; the dropped identifiers are those of all other messages, in order; and no
  dropped message would still fit into the budget that is left.\<close>

theorem pack_context_correct:
  assumes "no_token_overflow ms"
  shows "(is_ok (pack_context ms avail) \<longleftrightarrow>
            sum_list (map tokens_of (filter must_keep ms)) \<le> unat avail)
    \<and> (\<forall>p. pack_context ms avail = Inr p \<longrightarrow>
         sorted_wrt (<) (selected_indices p)
         \<and> {i. i < length ms \<and> must_keep (ms ! i)} \<subseteq> set (selected_indices p)
         \<and> set (selected_indices p) \<subseteq> {..<length ms}
         \<and> dropped_ids p = map (\<lambda>i. item_id (ms ! i))
             (filter (\<lambda>i. i \<notin> set (selected_indices p)) [0..<length ms])
         \<and> unat (used_message_tokens p)
             = (\<Sum>i \<leftarrow> selected_indices p. tokens_of (ms ! i))
         \<and> used_message_tokens p \<le> avail
         \<and> (\<forall>i < length ms. i \<notin> set (selected_indices p) \<longrightarrow>
              unat avail < unat (used_message_tokens p) + tokens_of (ms ! i)))"
proof (intro conjI allI impI)
  let ?req = "wrapping_sum64 (map estimated_tokens (filter must_keep ms))"
  show "is_ok (pack_context ms avail) \<longleftrightarrow>
      sum_list (map tokens_of (filter must_keep ms)) \<le> unat avail"
    using unat_required [OF assms]
    by (auto simp: pack_context_def Let_def word_le_nat_alt word_less_nat_alt split: prod.splits)
  fix p
  assume "pack_context ms avail = Inr p"
  then obtain sel rem' where run: "select_optional ms (rev [0..<length ms])
       (map must_keep ms, avail - ?req) = (sel, rem')"
    and le: "?req \<le> avail"
    and idx: "selected_indices p = filter (\<lambda>i. sel ! i) [0..<length ms]"
    and drop_p: "dropped_ids p = map (\<lambda>i. item_id (ms ! i)) (filter (\<lambda>i. \<not> sel ! i) [0..<length ms])"
    and used: "used_message_tokens p
       = sum_list (map (\<lambda>i. estimated_tokens (ms ! i)) (filter (\<lambda>i. sel ! i) [0..<length ms]))"
    by (rule pack_context_Ok_cases)
  have mem: "i \<in> set (selected_indices p) \<longleftrightarrow> sel ! i" if "i < length ms" for i
    using that idx by simp
  note inv = select_optional_invariant [OF run]
  note used_sum = unat_selected_sum [OF assms, of sel, folded used]
  note total = packed_total [OF assms run le]
  show "sorted_wrt (<) (selected_indices p)"
    unfolding idx by (rule sorted_wrt_filter) simp
  show "{i. i < length ms \<and> must_keep (ms ! i)} \<subseteq> set (selected_indices p)"
    using inv mem by fastforce
  show "set (selected_indices p) \<subseteq> {..<length ms}"
    using idx by auto
  show "dropped_ids p = map (\<lambda>i. item_id (ms ! i))
      (filter (\<lambda>i. i \<notin> set (selected_indices p)) [0..<length ms])"
    unfolding drop_p using mem by (auto intro!: arg_cong [where f = "map _"] filter_cong)
  show "unat (used_message_tokens p) = (\<Sum>i \<leftarrow> selected_indices p. tokens_of (ms ! i))"
    using used_sum idx by (simp add: selected_sum_def)
  show "used_message_tokens p \<le> avail"
    using used_sum total by (simp add: word_le_nat_alt)
  fix i
  assume i: "i < length ms" and "i \<notin> set (selected_indices p)"
  then have "rem' < estimated_tokens (ms ! i)"
    using select_optional_maximal [OF run, of i] mem by simp
  then show "unat avail < unat (used_message_tokens p) + tokens_of (ms ! i)"
    using used_sum total by (simp add: word_less_nat_alt)
qed

definition pack_example :: "ContextPackItem list" where
  "pack_example = [\<lparr>item_id = lit ''a'', estimated_tokens = 5, must_keep = True\<rparr>,
     \<lparr>item_id = lit ''b'', estimated_tokens = 9, must_keep = False\<rparr>,
     \<lparr>item_id = lit ''c'', estimated_tokens = 3, must_keep = False\<rparr>]"

theorem pack_context_correct_witness:
  "no_token_overflow pack_example \<and> is_ok (pack_context pack_example 10)"
proof -
  have "no_token_overflow pack_example"
    by (simp add: no_token_overflow_def pack_example_def)
  moreover from pack_context_correct [OF this, of 10]
  have "is_ok (pack_context pack_example 10)"
    by (simp add: pack_example_def)
  ultimately show ?thesis by simp
qed

text \<open>the compression plan covers only what may be compressed and never the newest
  compressible messages. Every covered index is a non-required message with tokens before the active
  tool turn, the covered messages are an initial segment of the compressible ones, exactly
  \<open>preserve_recent_messages\<close> of them stay, and the plan is only made above the trigger.\<close>

theorem plan_context_compression_covers:
  assumes "plan_context_compression_at_trigger ms avail trigger active preserve = Some plan"
  shows "\<exists>kept. compressible_indices ms active = covered_indices plan @ kept
           \<and> length kept = preserve
           \<and> covered_indices plan \<noteq> []
           \<and> sorted_wrt (<) (covered_indices plan @ kept)
           \<and> (\<forall>i \<in> set (covered_indices plan). i < active \<and> i < length ms
                \<and> \<not> must_keep (ms ! i) \<and> 0 < tokens_of (ms ! i))
           \<and> trigger_tokens plan = trigger
           \<and> (no_token_overflow ms \<longrightarrow>
                unat trigger < sum_list (map tokens_of ms)
                \<and> unat (original_tokens plan)
                    = (\<Sum>i \<leftarrow> covered_indices plan. tokens_of (ms ! i)))"
proof -
  let ?c = "compressible_indices ms active"
  let ?cov = "take (length ?c - preserve) ?c"
  from assms have len: "preserve < length ?c" and cov: "covered_indices plan = ?cov"
    and trig: "trigger_tokens plan = trigger"
    and above: "trigger < wrapping_sum64 (map estimated_tokens ms)"
    and orig: "original_tokens plan = wrapping_sum64 (map (\<lambda>i. estimated_tokens (ms ! i)) ?cov)"
    by (auto simp: plan_context_compression_at_trigger_def Let_def not_le split: if_splits)
  have c_eq: "?c = filter (\<lambda>i. i < active \<and> \<not> must_keep (ms ! i) \<and> estimated_tokens (ms ! i) > 0)
      [0..<length ms]"
    by (simp add: compressible_indices_def filter_enumerate o_def)
  have "sorted_wrt (<) ?c" unfolding c_eq by (rule sorted_wrt_filter) simp
  moreover have "\<forall>i \<in> set ?cov. i < active \<and> i < length ms \<and> \<not> must_keep (ms ! i)
      \<and> 0 < tokens_of (ms ! i)"
    by (auto simp: c_eq word_less_nat_alt dest!: in_set_takeD)
  moreover have "unat trigger < sum_list (map tokens_of ms)
      \<and> unat (original_tokens plan) = (\<Sum>i \<leftarrow> ?cov. tokens_of (ms ! i))"
    if nov: "no_token_overflow ms"
  proof
    have "unat (wrapping_sum64 (map estimated_tokens ms)) = sum_list (map tokens_of ms)"
      using nov by (simp add: wrapping_sum64_eq unat_sum_list no_token_overflow_def o_def)
    then show "unat trigger < sum_list (map tokens_of ms)"
      using above by (simp add: word_less_nat_alt)
    have "sum_list (map (\<lambda>i. tokens_of (ms ! i)) ?cov)
        \<le> sum_list (map (\<lambda>i. tokens_of (ms ! i)) ?c)"
      by (metis (no_types, lifting) append_take_drop_id le_add1 map_append sum_list_append)
    also have "\<dots> \<le> sum_list (map (\<lambda>i. tokens_of (ms ! i)) [0..<length ms])"
      unfolding c_eq by (rule sum_list_filter_le_nat)
    also have "map (\<lambda>i. tokens_of (ms ! i)) [0..<length ms] = map tokens_of ms"
      by (rule nth_equalityI) auto
    finally show "unat (original_tokens plan) = (\<Sum>i \<leftarrow> ?cov. tokens_of (ms ! i))"
      using nov by (simp add: orig wrapping_sum64_eq unat_sum_list no_token_overflow_def o_def)
  qed
  ultimately show ?thesis using len cov trig
    by (intro exI [of _ "drop (length ?c - preserve) ?c"]) auto
qed

theorem plan_context_compression_covers_witness:
  "plan_context_compression pack_example 10 2 0
     = Some \<lparr>covered_indices = [1], original_tokens = 9, trigger_tokens = 8\<rparr>
   \<and> compressible_indices pack_example 2 = [1]"
proof -
  have run: "plan_context_compression_at_trigger pack_example 10 8 2 0
      = Some \<lparr>covered_indices = [1], original_tokens = 9, trigger_tokens = 8\<rparr>"
    by (simp add: plan_context_compression_at_trigger_def pack_example_def
        compressible_indices_def wrapping_sum64_def)
  have "compressible_indices pack_example 2 = [1]"
    using plan_context_compression_covers [OF run] by simp
  moreover have "context_compression_trigger_tokens 10 = 8"
    by (simp add: context_compression_trigger_tokens_def sat_mul64_def
        CONTEXT_COMPRESSION_TRIGGER_NUMERATOR_def CONTEXT_COMPRESSION_TRIGGER_DENOMINATOR_def)
  ultimately show ?thesis using run by (simp add: plan_context_compression_def)
qed

text \<open>the message budget is exact and never wraps. The budget is granted exactly when the
  reserved tokens, added without wrap-around, are below the window; then the reservation and the
  message budget together make up the window and the message budget is positive.\<close>

theorem context_budget_exact:
  "(is_ok (calculate_context_budget_with_safety w m sp ts sf) \<longleftrightarrow>
      unat sp + unat ts + unat sf < unat w)
   \<and> (\<forall>b. calculate_context_budget_with_safety w m sp ts sf = Inr b \<longrightarrow>
        unat sp + unat ts + unat sf + unat (available_message_tokens b) = unat w
        \<and> 0 < unat (available_message_tokens b))"
proof -
  define r where "r = sat_add64 (sat_add64 sp ts) sf"
  have unat_r: "unat r = min (2 ^ 64 - 1) (unat sp + unat ts + unat sf)"
    unfolding r_def unat_sat_add64 by linarith
  have w: "unat w < 2 ^ 64" using unsigned_less [of w] by simp
  have lt: "r < w \<longleftrightarrow> unat sp + unat ts + unat sf < unat w"
    using unat_r w by (auto simp: word_less_nat_alt)
  have sub: "unat (w - r) = unat w - (unat sp + unat ts + unat sf)" if "r < w"
    using that lt unat_r w by (simp add: unat_minus_le)
  show ?thesis
    using lt sub
    by (auto simp: calculate_context_budget_with_safety_def Let_def r_def [symmetric] not_le)
qed

theorem context_budget_exact_witness:
  "calculate_context_budget 1000 50 100 44
     = Inr \<lparr>context_window = 1000, max_output_tokens = 50, system_prompt_tokens = 100,
            tool_schema_tokens = 44, safety_tokens = 256, available_message_tokens = 600\<rparr>
   \<and> 0 < unat (600 :: u64)"
proof -
  have run: "calculate_context_budget_with_safety 1000 50 100 44 256
     = Inr \<lparr>context_window = 1000, max_output_tokens = 50, system_prompt_tokens = 100,
            tool_schema_tokens = 44, safety_tokens = 256, available_message_tokens = 600\<rparr>"
    by (simp add: calculate_context_budget_with_safety_def sat_add64_def)
  with context_budget_exact [of 1000 50 100 44 256]
  have "0 < unat (600 :: u64)" by simp
  with run show ?thesis
    by (simp add: calculate_context_budget_def DEFAULT_CONTEXT_SAFETY_TOKENS_def)
qed

end
