(* ===== verification/Tool_Resources.thy ===== *)
theory Tool_Resources
  imports Foco_Prelude
begin

text \<open>
  The resources a tool call touches (\<open>agent/lib.rs\<close>): the effect class of a tool, the locks
  of a call, the conflict relation on locks, and the path markers the scheduler reads from an
  \<open>apply_patch\<close> document. The arguments of a call are a \<open>serde_json\<close> value of an
  arbitrary type; the only access the code makes is \<open>arguments.get(key).and_then(as_str)\<close>,
  the parameter \<open>arg_str\<close> of the operations.
\<close>

section \<open>Data\<close>

datatype ToolEffect = ReadOnly | WorkspaceMutation | ExternalOrUnknown

datatype ToolRetrySafety = RetrySafe | RetryUnsafe

fun retry_safety :: "ToolEffect \<Rightarrow> ToolRetrySafety" where
  "retry_safety ReadOnly = RetrySafe"
| "retry_safety WorkspaceMutation = RetryUnsafe"
| "retry_safety ExternalOrUnknown = RetryUnsafe"

datatype ToolResourceAccess = AccessRead | AccessWrite | AccessExclusive

datatype ToolResource =
  WorkspaceMutationLease | WorkspaceFiles | FileRes rstr | TodoGraph | PlanRes | ProjectSpec
| MemoryRes rstr | CommandProcess rstr | ExternalTool rstr

record ToolResourceLock =
  lock_resource :: ToolResource
  lock_access :: ToolResourceAccess

record 'v PendingToolCall =
  call_id :: rstr
  call_name :: rstr
  call_arguments :: 'v

datatype ToolConflictError =
  MissingPath rstr rstr
| MissingScope rstr rstr
| SameFileWrite rstr rstr rstr
| MixedFileWriteMethods rstr rstr rstr
| ResourceConflict ToolResource "rstr option" rstr ToolResourceAccess rstr ToolResourceAccess

type_synonym 'v arg_reader = "'v \<Rightarrow> rstr \<Rightarrow> rstr option"

abbreviation mk_lock :: "ToolResource \<Rightarrow> ToolResourceAccess \<Rightarrow> ToolResourceLock" where
  "mk_lock r a \<equiv> \<lparr>lock_resource = r, lock_access = a\<rparr>"

section \<open>Tool names\<close>

definition mcp_prefix :: rstr where
  "mcp_prefix = lit ''mcp__''"

definition graph_and_search_tools :: "rstr list" where
  "graph_and_search_tools = map lit [''find_files'', ''search_text'', ''graph_find_symbols'',
     ''graph_find_callers'', ''graph_find_callees'', ''graph_find_children'',
     ''graph_find_references'', ''graph_find_imports'', ''graph_find_importers'',
     ''graph_related_files'', ''graph_explore'']"

definition agent_tools :: "rstr list" where
  "agent_tools = map lit [''agent_list'', ''agent_get_task'', ''agent_send_message'',
     ''agent_delegate_task'', ''agent_cancel_task'', ''agent_wait_tasks'',
     ''agent_transfer_task'', ''agent_create_instances'']"

definition query_tools :: "rstr list" where
  "query_tools = map lit [''get_todo_graph'', ''get_plans'', ''read_spec'', ''memory_search'',
     ''web_search'', ''web_fetch'', ''get_command_output'', ''agent_list'', ''agent_get_task'',
     ''sleep'']"

definition read_only_tools :: "rstr list" where
  "read_only_tools = lit ''read_file'' # graph_and_search_tools @ query_tools"

definition workspace_mutation_tools :: "rstr list" where
  "workspace_mutation_tools = map lit [''write_file'', ''edit_file'', ''apply_patch'',
     ''create_todo_graph'', ''update_todo_graph'', ''create_plan'', ''update_plan'',
     ''update_plan_step'', ''delete_plan'', ''update_spec'', ''memory_write'']"

definition sequential_tools :: "rstr list" where
  "sequential_tools = map lit [''ask_question'', ''run_command'', ''stop_command'',
     ''create_todo_graph'', ''update_todo_graph'', ''create_plan'', ''update_plan'',
     ''update_plan_step'', ''delete_plan'', ''memory_write'']"

definition tool_effect :: "rstr \<Rightarrow> ToolEffect" where
  "tool_effect tool_name =
     (if tool_name \<in> set read_only_tools then ReadOnly
      else if tool_name \<in> set workspace_mutation_tools then WorkspaceMutation
      else ExternalOrUnknown)"

definition tool_requires_workspace_mutation_lease :: "rstr \<Rightarrow> bool" where
  "tool_requires_workspace_mutation_lease tool_name \<longleftrightarrow>
     tool_name \<in> set (map lit [''write_file'', ''edit_file'', ''apply_patch''])"

definition tool_call_requires_sequential_execution :: "rstr \<Rightarrow> bool" where
  "tool_call_requires_sequential_execution tool_name \<longleftrightarrow>
     tool_name \<in> set sequential_tools \<or> starts_with tool_name mcp_prefix"

section \<open>Paths\<close>

definition normalize_workspace_path_display :: "rstr \<Rightarrow> rstr" where
  "normalize_workspace_path_display path =
     join (lit ''/'')
       (filter (\<lambda>part. part \<noteq> [] \<and> part \<noteq> lit ''.'')
         (split_on 47 (replace_char 92 47 (trim path))))"

definition normalize_workspace_path_key :: "rstr \<Rightarrow> rstr" where
  "normalize_workspace_path_key path = to_ascii_lowercase (normalize_workspace_path_display path)"

definition required_path :: "'v arg_reader \<Rightarrow> 'v PendingToolCall \<Rightarrow> ToolConflictError + rstr" where
  "required_path arg_str c =
     (case arg_str (call_arguments c) (lit ''path'') of
        Some p \<Rightarrow> Inr (normalize_workspace_path_key p)
      | None \<Rightarrow> Inl (MissingPath (call_name c) (call_id c)))"

definition required_process_id ::
    "'v arg_reader \<Rightarrow> 'v PendingToolCall \<Rightarrow> ToolConflictError + rstr" where
  "required_process_id arg_str c =
     (case arg_str (call_arguments c) (lit ''processId'') of
        Some p \<Rightarrow> if trim p \<noteq> [] then Inr (trim p)
                  else Inl (MissingScope (call_name c) (call_id c))
      | None \<Rightarrow> Inl (MissingScope (call_name c) (call_id c)))"

definition memory_scope_key ::
    "'v arg_reader \<Rightarrow> 'v PendingToolCall \<Rightarrow> ToolConflictError + rstr" where
  "memory_scope_key arg_str c =
     (case arg_str (call_arguments c) (lit ''scope'') of
        None \<Rightarrow> Inl (MissingScope (call_name c) (call_id c))
      | Some s \<Rightarrow> (let scope = trim s in Inr (if scope = lit ''auto'' then lit ''all'' else scope)))"

section \<open>Markers of a patch document\<close>

definition push_apply_patch_marker_path :: "rstr list \<Rightarrow> rstr \<Rightarrow> rstr list option" where
  "push_apply_patch_marker_path paths raw_path =
     (let path = trim raw_path
      in if path = [] \<or> 0 \<in> set path then None
         else
           (let display_path = normalize_workspace_path_display path
            in if display_path = [] \<or> display_path = lit ''.'' then None
               else if list_ex (\<lambda>existing. existing = display_path) paths then Some paths
               else Some (paths @ [display_path])))"

text \<open>The loop over the lines after the first: the collected paths, whether an update is active,
  and on success whether the end marker was seen.\<close>

fun scan_markers :: "rstr list \<Rightarrow> rstr list \<Rightarrow> bool \<Rightarrow> (rstr list \<times> bool) option" where
  "scan_markers [] paths active = Some (paths, False)"
| "scan_markers (raw_line # rest) paths active =
     (let line = trim_end_matches CR raw_line
      in if line = lit ''*** End Patch'' then Some (paths, True)
         else case strip_prefix line (lit ''*** Add File: '') of
           Some path \<Rightarrow>
             (case push_apply_patch_marker_path paths path of
                None \<Rightarrow> None | Some paths' \<Rightarrow> scan_markers rest paths' False)
         | None \<Rightarrow>
         (case strip_prefix line (lit ''*** Delete File: '') of
           Some path \<Rightarrow>
             (case push_apply_patch_marker_path paths path of
                None \<Rightarrow> None | Some paths' \<Rightarrow> scan_markers rest paths' False)
         | None \<Rightarrow>
         (case strip_prefix line (lit ''*** Update File: '') of
           Some path \<Rightarrow>
             (case push_apply_patch_marker_path paths path of
                None \<Rightarrow> None | Some paths' \<Rightarrow> scan_markers rest paths' True)
         | None \<Rightarrow>
         (case strip_prefix line (lit ''*** Move to: '') of
           Some path \<Rightarrow>
             if \<not> active then None
             else (case push_apply_patch_marker_path paths path of
                None \<Rightarrow> None | Some paths' \<Rightarrow> scan_markers rest paths' active)
         | None \<Rightarrow>
             if starts_with line (lit ''*** '') then None
             else scan_markers rest paths active))))"

definition patch_marker_paths :: "rstr \<Rightarrow> rstr list option" where
  "patch_marker_paths patch =
     (case str_lines patch of
        [] \<Rightarrow> None
      | first # rest \<Rightarrow>
          if trim_end_matches CR first \<noteq> lit ''*** Begin Patch'' then None
          else (case scan_markers rest [] False of
                  None \<Rightarrow> None
                | Some (paths, ended) \<Rightarrow> if ended \<and> paths \<noteq> [] then Some paths else None))"

definition apply_patch_marker_paths ::
    "'v arg_reader \<Rightarrow> 'v PendingToolCall \<Rightarrow> rstr list option" where
  "apply_patch_marker_paths arg_str c =
     (case arg_str (call_arguments c) (lit ''patch'') of
        None \<Rightarrow> None
      | Some patch \<Rightarrow> patch_marker_paths patch)"

definition apply_patch_resource_locks ::
    "'v arg_reader \<Rightarrow> 'v PendingToolCall \<Rightarrow> ToolResourceLock list" where
  "apply_patch_resource_locks arg_str c =
     (case apply_patch_marker_paths arg_str c of
        Some paths \<Rightarrow>
          map (\<lambda>path. mk_lock (FileRes (normalize_workspace_path_key path)) AccessWrite) paths
      | None \<Rightarrow> [mk_lock WorkspaceFiles AccessWrite])"

section \<open>Locks of a call\<close>

text \<open>The match of \<open>tool_resource_locks\<close> on the tool name, before the mutation lease is
  added.\<close>

definition base_resource_locks ::
    "'v arg_reader \<Rightarrow> 'v PendingToolCall \<Rightarrow> ToolConflictError + ToolResourceLock list" where
  "base_resource_locks arg_str c =
     (let name = call_name c
      in if name = lit ''read_file'' then
           (case required_path arg_str c of
              Inl e \<Rightarrow> Inl e | Inr p \<Rightarrow> Inr [mk_lock (FileRes p) AccessRead])
         else if name = lit ''write_file'' \<or> name = lit ''edit_file'' then
           (case required_path arg_str c of
              Inl e \<Rightarrow> Inl e | Inr p \<Rightarrow> Inr [mk_lock (FileRes p) AccessWrite])
         else if name = lit ''apply_patch'' then Inr (apply_patch_resource_locks arg_str c)
         else if name \<in> set graph_and_search_tools then Inr [mk_lock WorkspaceFiles AccessRead]
         else if name = lit ''create_todo_graph'' \<or> name = lit ''update_todo_graph''
           then Inr [mk_lock TodoGraph AccessWrite]
         else if name = lit ''get_todo_graph'' then Inr [mk_lock TodoGraph AccessRead]
         else if name \<in> set (map lit [''create_plan'', ''update_plan'', ''update_plan_step'',
             ''delete_plan'']) then Inr [mk_lock PlanRes AccessWrite]
         else if name = lit ''get_plans'' then Inr [mk_lock PlanRes AccessRead]
         else if name = lit ''read_spec'' then Inr [mk_lock ProjectSpec AccessRead]
         else if name = lit ''update_spec'' then Inr [mk_lock ProjectSpec AccessWrite]
         else if name \<in> set agent_tools then Inr []
         else if name = lit ''memory_search'' then
           (case memory_scope_key arg_str c of
              Inl e \<Rightarrow> Inl e | Inr s \<Rightarrow> Inr [mk_lock (MemoryRes s) AccessRead])
         else if name = lit ''memory_write'' then
           (case memory_scope_key arg_str c of
              Inl e \<Rightarrow> Inl e | Inr s \<Rightarrow> Inr [mk_lock (MemoryRes s) AccessWrite])
         else if name = lit ''web_search'' \<or> name = lit ''web_fetch''
           then Inr [mk_lock (ExternalTool name) AccessRead]
         else if name = lit ''get_command_output'' then
           (case required_process_id arg_str c of
              Inl e \<Rightarrow> Inl e | Inr p \<Rightarrow> Inr [mk_lock (CommandProcess p) AccessRead])
         else if name = lit ''stop_command'' then
           (case required_process_id arg_str c of
              Inl e \<Rightarrow> Inl e | Inr p \<Rightarrow> Inr [mk_lock (CommandProcess p) AccessExclusive])
         else if name = lit ''ask_question'' \<or> name = lit ''sleep'' then Inr []
         else if starts_with name mcp_prefix then Inr [mk_lock (ExternalTool name) AccessExclusive]
         else Inr [])"

definition lease_locks :: "rstr \<Rightarrow> ToolResourceLock list" where
  "lease_locks name =
     (case tool_effect name of
        ReadOnly \<Rightarrow> []
      | WorkspaceMutation \<Rightarrow>
          if tool_requires_workspace_mutation_lease name
          then [mk_lock WorkspaceMutationLease AccessExclusive] else []
      | ExternalOrUnknown \<Rightarrow> [mk_lock WorkspaceMutationLease AccessExclusive])"

definition tool_resource_locks ::
    "'v arg_reader \<Rightarrow> 'v PendingToolCall \<Rightarrow> ToolConflictError + ToolResourceLock list" where
  "tool_resource_locks arg_str c =
     (case base_resource_locks arg_str c of
        Inl e \<Rightarrow> Inl e
      | Inr locks \<Rightarrow> Inr (locks @ lease_locks (call_name c)))"

section \<open>Conflicts\<close>

definition resources_overlap :: "ToolResource \<Rightarrow> ToolResource \<Rightarrow> bool" where
  "resources_overlap first second =
     (case first of
        WorkspaceMutationLease \<Rightarrow> second = WorkspaceMutationLease
      | WorkspaceFiles \<Rightarrow>
          (case second of WorkspaceFiles \<Rightarrow> True | FileRes _ \<Rightarrow> True | _ \<Rightarrow> False)
      | FileRes p \<Rightarrow>
          (case second of WorkspaceFiles \<Rightarrow> True | FileRes q \<Rightarrow> p = q | _ \<Rightarrow> False)
      | TodoGraph \<Rightarrow> second = TodoGraph
      | PlanRes \<Rightarrow> second = PlanRes
      | ProjectSpec \<Rightarrow> second = ProjectSpec
      | MemoryRes s \<Rightarrow>
          (case second of MemoryRes t \<Rightarrow> s = t \<or> s = lit ''all'' \<or> t = lit ''all'' | _ \<Rightarrow> False)
      | CommandProcess p \<Rightarrow> second = CommandProcess p
      | ExternalTool p \<Rightarrow> second = ExternalTool p)"

definition accesses_conflict :: "ToolResourceAccess \<Rightarrow> ToolResourceAccess \<Rightarrow> bool" where
  "accesses_conflict a b \<longleftrightarrow> \<not> (a = AccessRead \<and> b = AccessRead)"

definition tool_resource_locks_conflict :: "ToolResourceLock \<Rightarrow> ToolResourceLock \<Rightarrow> bool" where
  "tool_resource_locks_conflict l m \<longleftrightarrow>
     resources_overlap (lock_resource l) (lock_resource m)
     \<and> accesses_conflict (lock_access l) (lock_access m)"

section \<open>Lemmas\<close>

lemma resources_overlap_sym: "resources_overlap r s = resources_overlap s r"
  by (cases r; cases s) (auto simp: resources_overlap_def)

lemma resources_overlap_refl [simp]: "resources_overlap r r"
  by (cases r) (auto simp: resources_overlap_def)

lemma accesses_conflict_sym: "accesses_conflict a b = accesses_conflict b a"
  by (auto simp: accesses_conflict_def)

lemma tool_resource_locks_conflict_sym:
  "tool_resource_locks_conflict l m = tool_resource_locks_conflict m l"
  by (auto simp: tool_resource_locks_conflict_def resources_overlap_sym accesses_conflict_sym)

lemma no_conflict_reads:
  "lock_access l = AccessRead \<Longrightarrow> lock_access m = AccessRead \<Longrightarrow> \<not> tool_resource_locks_conflict l m"
  by (simp add: tool_resource_locks_conflict_def accesses_conflict_def)

lemma write_all_files_only_invalid_patch:
  assumes "tool_resource_locks arg_str c = Inr locks" and "l \<in> set locks"
    and "lock_resource l = WorkspaceFiles" and "lock_access l \<noteq> AccessRead"
  shows "call_name c = lit ''apply_patch'' \<and> apply_patch_marker_paths arg_str c = None"
proof -
  have "\<not> (\<exists>m \<in> set (lease_locks (call_name c)). lock_resource m = WorkspaceFiles)"
    by (auto simp: lease_locks_def split: ToolEffect.splits)
  with assms obtain base where "base_resource_locks arg_str c = Inr base" and "l \<in> set base"
    by (auto simp: tool_resource_locks_def split: sum.splits)
  with assms(3,4) show ?thesis
    by (auto simp: base_resource_locks_def Let_def apply_patch_resource_locks_def
        split: if_splits sum.splits option.splits)
qed

lemma read_only_tools_not_sequential:
  "list_all (\<lambda>name. \<not> tool_call_requires_sequential_execution name) read_only_tools"
  by (simp add: tool_call_requires_sequential_execution_def read_only_tools_def
      query_tools_def graph_and_search_tools_def sequential_tools_def mcp_prefix_def)

lemma read_only_not_sequential:
  "tool_effect name = ReadOnly \<Longrightarrow> \<not> tool_call_requires_sequential_execution name"
  using read_only_tools_not_sequential
  by (auto simp: tool_effect_def list_all_iff split: if_splits)

lemma list_set_cases:
  "x \<in> set (y # ys) \<Longrightarrow> (x = y \<Longrightarrow> P) \<Longrightarrow> (x \<in> set ys \<Longrightarrow> P) \<Longrightarrow> P"
  "x \<in> set [] \<Longrightarrow> P"
  by auto

lemma read_only_locks_read:
  assumes "tool_effect (call_name c) = ReadOnly" and "tool_resource_locks arg_str c = Inr locks"
  shows "\<forall>l \<in> set locks. lock_access l = AccessRead"
proof -
  from assms(1) have ro: "call_name c \<in> set read_only_tools"
    by (auto simp: tool_effect_def split: if_splits)
  have "lease_locks (call_name c) = []" using assms(1) by (simp add: lease_locks_def)
  with assms(2) have "base_resource_locks arg_str c = Inr locks"
    by (auto simp: tool_resource_locks_def split: sum.splits)
  moreover from ro consider "call_name c = lit ''read_file''"
    | "call_name c \<in> set graph_and_search_tools"
    | "call_name c \<in> set query_tools"
    by (auto simp: read_only_tools_def)
  then have "base_resource_locks arg_str c = Inr locks \<longrightarrow> ?thesis"
  proof cases
    case 1
    then show ?thesis by (auto simp: base_resource_locks_def split: sum.splits)
  next
    case 2
    then have "base_resource_locks arg_str c = Inr [mk_lock WorkspaceFiles AccessRead]"
      by (auto simp: base_resource_locks_def graph_and_search_tools_def)
    then show ?thesis by auto
  next
    case 3
    then show ?thesis unfolding query_tools_def list.map
      by (elim list_set_cases)
        (auto simp: base_resource_locks_def graph_and_search_tools_def agent_tools_def
          split: sum.splits)
  qed
  ultimately show ?thesis by simp
qed

end
