(* ===== verification/Tool_Planning.thy ===== *)
theory Tool_Planning
  imports Tool_Resources
begin

text \<open>
  Planning of one batch of tool calls (\<open>plan_tool_execution\<close> and its helpers in
  \<open>agent/lib.rs\<close>): every call is analysed, conflicting pairs are rejected, and the calls are
  cut into sequential and parallel groups. The properties say that a plan runs every call exactly
  once and in order, that two calls of one parallel group never hold conflicting locks other than
  the mutation lease (which the lock registry serialises), that rejection happens exactly for a
  pair that can be neither ordered nor run together, and that the rejection is always one the
  caller can recover from.
\<close>

section \<open>Analysis of a call\<close>

datatype FileWriteKind = ReplaceExact | PatchEdit | LineRangeOrFull

record AnalyzedToolCall =
  requires_sequential_execution :: bool
  locks :: "ToolResourceLock list"
  file_write_kind :: "FileWriteKind option"
  file_display_paths :: "rstr \<rightharpoonup> rstr"

definition file_write_kind_of :: "rstr \<Rightarrow> FileWriteKind option" where
  "file_write_kind_of tool_name =
     (if tool_name = lit ''edit_file'' then Some ReplaceExact
      else if tool_name = lit ''apply_patch'' then Some PatchEdit
      else if tool_name = lit ''write_file'' then Some LineRangeOrFull
      else None)"

definition file_display_paths_of ::
    "'v arg_reader \<Rightarrow> 'v PendingToolCall \<Rightarrow> (rstr \<rightharpoonup> rstr)" where
  "file_display_paths_of arg_str c =
     (let paths =
        (if call_name c = lit ''apply_patch'' then
           (case apply_patch_marker_paths arg_str c of Some ps \<Rightarrow> ps | None \<Rightarrow> [])
         else if call_name c \<in> set (map lit [''read_file'', ''write_file'', ''edit_file'']) then
           (case arg_str (call_arguments c) (lit ''path'') of
              Some p \<Rightarrow> [normalize_workspace_path_display p] | None \<Rightarrow> [])
         else [])
      in foldl (\<lambda>m path. m(normalize_workspace_path_key path \<mapsto> path)) Map.empty paths)"

definition display_path_for_resource :: "AnalyzedToolCall \<Rightarrow> ToolResource \<Rightarrow> rstr option" where
  "display_path_for_resource a r =
     (case r of FileRes path \<Rightarrow> file_display_paths a path | _ \<Rightarrow> None)"

definition analyze_tool_call ::
    "'v arg_reader \<Rightarrow> 'v PendingToolCall \<Rightarrow> ToolConflictError + AnalyzedToolCall" where
  "analyze_tool_call arg_str c =
     (let analyzed = (\<lambda>ls.
        \<lparr>requires_sequential_execution =
           tool_call_requires_sequential_execution (call_name c)
           \<or> (call_name c = lit ''apply_patch'' \<and> apply_patch_marker_paths arg_str c = None),
         locks = ls, file_write_kind = file_write_kind_of (call_name c),
         file_display_paths = file_display_paths_of arg_str c\<rparr>)
      in case tool_resource_locks arg_str c of
           Inr ls \<Rightarrow> Inr (analyzed ls)
         | Inl (MissingPath _ _) \<Rightarrow> Inr (analyzed [])
         | Inl (MissingScope _ _) \<Rightarrow> Inr (analyzed [])
         | Inl e \<Rightarrow> Inl e)"

fun analyze_tool_calls ::
    "'v arg_reader \<Rightarrow> 'v PendingToolCall list \<Rightarrow> ToolConflictError + AnalyzedToolCall list" where
  "analyze_tool_calls arg_str [] = Inr []"
| "analyze_tool_calls arg_str (c # cs) =
     (case analyze_tool_call arg_str c of
        Inl e \<Rightarrow> Inl e
      | Inr a \<Rightarrow> (case analyze_tool_calls arg_str cs of Inl e \<Rightarrow> Inl e | Inr as \<Rightarrow> Inr (a # as)))"

section \<open>Conflicts inside a batch\<close>

definition is_contextual_file_edit :: "FileWriteKind option \<Rightarrow> bool" where
  "is_contextual_file_edit kind \<longleftrightarrow> kind \<in> {Some ReplaceExact, Some PatchEdit}"

definition is_workspace_file_resource :: "ToolResource \<Rightarrow> bool" where
  "is_workspace_file_resource r =
     (case r of WorkspaceFiles \<Rightarrow> True | FileRes _ \<Rightarrow> True | _ \<Rightarrow> False)"

definition is_file_resource :: "ToolResource \<Rightarrow> bool" where
  "is_file_resource r = (case r of FileRes _ \<Rightarrow> True | _ \<Rightarrow> False)"

definition is_orderable_workspace_file_conflict ::
    "ToolResourceLock \<Rightarrow> AnalyzedToolCall \<Rightarrow> ToolResourceLock \<Rightarrow> AnalyzedToolCall \<Rightarrow> bool" where
  "is_orderable_workspace_file_conflict l a m b =
     (if \<not> tool_resource_locks_conflict l m \<or> \<not> is_workspace_file_resource (lock_resource l)
         \<or> \<not> is_workspace_file_resource (lock_resource m) then False
      else if (lock_access l, lock_access m)
              \<in> {(AccessRead, AccessWrite), (AccessWrite, AccessRead)} then True
      else is_file_resource (lock_resource l) \<and> is_file_resource (lock_resource m)
           \<and> is_contextual_file_edit (file_write_kind a)
           \<and> is_contextual_file_edit (file_write_kind b))"

definition same_file_write_error ::
    "'v PendingToolCall \<Rightarrow> AnalyzedToolCall \<Rightarrow> 'v PendingToolCall \<Rightarrow> AnalyzedToolCall \<Rightarrow> rstr
     \<Rightarrow> ToolConflictError" where
  "same_file_write_error c a d b display_path =
     (case (file_write_kind a, file_write_kind b) of
        (Some ka, Some kb) \<Rightarrow>
          if (ka = LineRangeOrFull \<and> is_contextual_file_edit (Some kb))
             \<or> (kb = LineRangeOrFull \<and> is_contextual_file_edit (Some ka))
          then MixedFileWriteMethods display_path (call_id c) (call_id d)
          else SameFileWrite display_path (call_id c) (call_id d)
      | _ \<Rightarrow> SameFileWrite display_path (call_id c) (call_id d))"

text \<open>One round of the two nested loops of \<open>reject_conflicting_parallel_tool_calls\<close>:
  \<open>None\<close> is \<open>continue\<close>.\<close>

definition lock_pair_error ::
    "'v PendingToolCall \<Rightarrow> AnalyzedToolCall \<Rightarrow> 'v PendingToolCall \<Rightarrow> AnalyzedToolCall
     \<Rightarrow> ToolResourceLock \<Rightarrow> ToolResourceLock \<Rightarrow> ToolConflictError option" where
  "lock_pair_error c a d b l m =
     (if \<not> tool_resource_locks_conflict l m then None
      else if lock_resource l = WorkspaceMutationLease \<and> lock_resource m = WorkspaceMutationLease
      then None
      else
        (let resource_conflict =
           (if is_orderable_workspace_file_conflict l a m b then None
            else Some (ResourceConflict (lock_resource l)
                   (display_path_for_resource a (lock_resource l))
                   (call_id c) (lock_access l) (call_id d) (lock_access m)))
         in if lock_access l = AccessWrite \<and> lock_access m = AccessWrite
            then (case lock_resource l of
                    FileRes path \<Rightarrow>
                      (let display_path =
                         (case display_path_for_resource a (lock_resource l) of
                            Some p \<Rightarrow> p | None \<Rightarrow> path)
                       in if is_contextual_file_edit (file_write_kind a)
                             \<and> is_contextual_file_edit (file_write_kind b) then None
                          else Some (same_file_write_error c a d b display_path))
                  | _ \<Rightarrow> resource_conflict)
            else resource_conflict))"

definition reject_conflicting_parallel_tool_calls ::
    "'v PendingToolCall \<Rightarrow> AnalyzedToolCall \<Rightarrow> 'v PendingToolCall \<Rightarrow> AnalyzedToolCall
     \<Rightarrow> ToolConflictError option" where
  "reject_conflicting_parallel_tool_calls c a d b =
     first_some (\<lambda>l. first_some (\<lambda>m. lock_pair_error c a d b l m) (locks b)) (locks a)"

definition index_pairs :: "nat \<Rightarrow> (nat \<times> nat) list" where
  "index_pairs n = concat (map (\<lambda>i. map (\<lambda>j. (i, j)) [Suc i..<n]) [0..<n])"

definition reject_conflicts ::
    "'v PendingToolCall list \<Rightarrow> AnalyzedToolCall list \<Rightarrow> ToolConflictError option" where
  "reject_conflicts calls analyzed =
     first_some (\<lambda>(i, j).
         if requires_sequential_execution (analyzed ! i)
            \<or> requires_sequential_execution (analyzed ! j) then None
         else reject_conflicting_parallel_tool_calls (calls ! i) (analyzed ! i)
                (calls ! j) (analyzed ! j))
       (index_pairs (length calls))"

section \<open>Groups\<close>

datatype ToolExecutionMode = Parallel | Sequential

record ToolExecutionGroup =
  mode :: ToolExecutionMode
  call_indices :: "nat list"

definition push_parallel_group ::
    "ToolExecutionGroup list \<times> nat list \<Rightarrow> ToolExecutionGroup list \<times> nat list" where
  "push_parallel_group st =
     (case st of (groups, indices) \<Rightarrow>
        if indices = [] then (groups, indices)
        else (groups @ [\<lparr>mode = Parallel, call_indices = indices\<rparr>], []))"

definition analyzed_calls_have_orderable_workspace_file_conflict ::
    "AnalyzedToolCall \<Rightarrow> AnalyzedToolCall \<Rightarrow> bool" where
  "analyzed_calls_have_orderable_workspace_file_conflict a b \<longleftrightarrow>
     list_ex (\<lambda>l. list_ex (\<lambda>m. is_orderable_workspace_file_conflict l a m b) (locks b)) (locks a)"

definition push_parallel_group_before_orderable_workspace_file_conflict ::
    "ToolExecutionGroup list \<times> nat list \<Rightarrow> AnalyzedToolCall list \<Rightarrow> AnalyzedToolCall
     \<Rightarrow> ToolExecutionGroup list \<times> nat list" where
  "push_parallel_group_before_orderable_workspace_file_conflict st analyzed current =
     (if list_ex (\<lambda>index. analyzed_calls_have_orderable_workspace_file_conflict
           (analyzed ! index) current) (snd st)
      then push_parallel_group st else st)"

definition plan_group_step ::
    "AnalyzedToolCall list \<Rightarrow> ToolExecutionGroup list \<times> nat list \<Rightarrow> nat
     \<Rightarrow> ToolExecutionGroup list \<times> nat list" where
  "plan_group_step analyzed st index =
     (if requires_sequential_execution (analyzed ! index) then
        (let (groups, indices) = push_parallel_group st
         in (groups @ [\<lparr>mode = Sequential, call_indices = [index]\<rparr>], indices))
      else
        (let (groups, indices) =
           push_parallel_group_before_orderable_workspace_file_conflict st analyzed
             (analyzed ! index)
         in (groups, indices @ [index])))"

definition plan_groups :: "AnalyzedToolCall list \<Rightarrow> ToolExecutionGroup list" where
  "plan_groups analyzed =
     fst (push_parallel_group (foldl (plan_group_step analyzed) ([], []) [0..<length analyzed]))"

definition plan_tool_execution ::
    "'v arg_reader \<Rightarrow> 'v PendingToolCall list \<Rightarrow> ToolConflictError + ToolExecutionGroup list" where
  "plan_tool_execution arg_str calls =
     (case analyze_tool_calls arg_str calls of
        Inl e \<Rightarrow> Inl e
      | Inr analyzed \<Rightarrow>
          (case reject_conflicts calls analyzed of
             Some e \<Rightarrow> Inl e
           | None \<Rightarrow> Inr (plan_groups analyzed)))"

section \<open>Rejected batches\<close>

definition is_recoverable_tool_conflict :: "ToolConflictError \<Rightarrow> bool" where
  "is_recoverable_tool_conflict e =
     (case e of SameFileWrite _ _ _ \<Rightarrow> True | MixedFileWriteMethods _ _ _ \<Rightarrow> True
      | ResourceConflict _ _ _ _ _ _ \<Rightarrow> True | _ \<Rightarrow> False)"

definition quoted :: "rstr \<Rightarrow> rstr" where
  "quoted s = [39] @ s @ [39]"

definition resource_display :: "ToolResource \<Rightarrow> rstr" where
  "resource_display r =
     (case r of
        WorkspaceMutationLease \<Rightarrow> lit ''workspace mutation lease''
      | WorkspaceFiles \<Rightarrow> lit ''workspace files''
      | FileRes path \<Rightarrow> lit ''file '' @ quoted path
      | TodoGraph \<Rightarrow> lit ''current chat todo graph''
      | PlanRes \<Rightarrow> lit ''workspace plans''
      | ProjectSpec \<Rightarrow> lit ''project spec''
      | MemoryRes scope \<Rightarrow> lit ''memory scope '' @ quoted scope
      | CommandProcess process_id \<Rightarrow> lit ''managed command '' @ quoted process_id
      | ExternalTool tool_name \<Rightarrow> lit ''external tool '' @ quoted tool_name)"

fun access_display :: "ToolResourceAccess \<Rightarrow> rstr" where
  "access_display AccessRead = lit ''read''"
| "access_display AccessWrite = lit ''write''"
| "access_display AccessExclusive = lit ''exclusive''"

fun conflict_display :: "ToolConflictError \<Rightarrow> rstr" where
  "conflict_display (MissingPath tool_name cid) = lit ''tool call '' @ quoted cid @ lit '' for ''
     @ quoted tool_name @ lit '' must include a string '' @ quoted (lit ''path'')
     @ lit '' argument''"
| "conflict_display (MissingScope tool_name cid) = lit ''tool call '' @ quoted cid @ lit '' for ''
     @ quoted tool_name @ lit '' must include a string '' @ quoted (lit ''scope'')
     @ lit '' argument''"
| "conflict_display (SameFileWrite path c d) = lit ''same-file write conflict for ''
     @ quoted path @ lit '' between tool calls '' @ quoted c @ lit '' and '' @ quoted d"
| "conflict_display (MixedFileWriteMethods path c d) =
     lit ''same-file edit_file/write_file conflict for '' @ quoted path
     @ lit '' between tool calls '' @ quoted c @ lit '' and '' @ quoted d
     @ lit ''; call multiple edit_file operations sequentially, but do not batch edit_file with write_file for the same file because edit_file can change line numbers used by write_file''"
| "conflict_display (ResourceConflict r dp c a d b) =
     lit ''tool resource conflict for ''
     @ (case (r, dp) of (FileRes _, Some path) \<Rightarrow> lit ''file '' @ quoted path
        | _ \<Rightarrow> resource_display r)
     @ lit '' between tool call '' @ quoted c @ lit '' ('' @ access_display a @ lit '') and ''
     @ quoted d @ lit '' ('' @ access_display b @ lit '')''"

record 'v RejectedToolCall =
  rejected_call_id :: rstr
  rejected_tool_name :: rstr
  rejected_arguments :: 'v
  rejected_message :: rstr

definition rejected_tool_batch ::
    "'v PendingToolCall list \<Rightarrow> ToolConflictError \<Rightarrow> 'v RejectedToolCall list option" where
  "rejected_tool_batch calls e =
     (if \<not> is_recoverable_tool_conflict e then None
      else Some (map (\<lambda>c. \<lparr>rejected_call_id = call_id c, rejected_tool_name = call_name c,
        rejected_arguments = call_arguments c,
        rejected_message = lit ''Tool call '' @ quoted (call_id c) @ lit '' ('' @ quoted (call_name c)
          @ lit '') was not executed because the entire tool batch was rejected: ''
          @ conflict_display e
          @ lit ''. No tool calls in this batch were executed. Retry with a non-conflicting batch. For same-file changes, use one write_file call or send ordered edit_file operations in separate tool-call rounds; do not mix write_file and edit_file for the same file. Do not repeat the unchanged batch.''\<rparr>) calls))"

section \<open>Lemmas\<close>

lemma base_resource_locks_error:
  "base_resource_locks arg_str c = Inl e \<Longrightarrow>
     required_path arg_str c = Inl e \<or> required_process_id arg_str c = Inl e
     \<or> memory_scope_key arg_str c = Inl e"
  by (simp only: base_resource_locks_def Let_def sum.distinct sum.inject
      split: if_split_asm sum.split_asm) simp_all

lemma tool_resource_locks_error:
  "tool_resource_locks arg_str c = Inl e \<Longrightarrow>
     (\<exists>t i. e = MissingPath t i) \<or> (\<exists>t i. e = MissingScope t i)"
  by (auto simp: tool_resource_locks_def required_path_def required_process_id_def
      memory_scope_key_def Let_def dest!: base_resource_locks_error
      split: sum.splits option.splits if_splits)

lemma analyze_tool_call_total: "\<exists>a. analyze_tool_call arg_str c = Inr a"
proof (cases "tool_resource_locks arg_str c")
  case (Inl e)
  then show ?thesis
    using tool_resource_locks_error [OF Inl] by (auto simp: analyze_tool_call_def)
next
  case (Inr ls)
  then show ?thesis by (simp add: analyze_tool_call_def)
qed

text \<open>The analysis of a batch always succeeds and analyses each call on its own.\<close>

lemma analyze_tool_calls_eq:
  "\<exists>as. analyze_tool_calls arg_str cs = Inr as \<and> length as = length cs
     \<and> (\<forall>i < length cs. analyze_tool_call arg_str (cs ! i) = Inr (as ! i))"
proof (induction cs)
  case Nil
  then show ?case by simp
next
  case (Cons c cs)
  then obtain as where "analyze_tool_calls arg_str cs = Inr as" "length as = length cs"
    "\<forall>i < length cs. analyze_tool_call arg_str (cs ! i) = Inr (as ! i)" by blast
  moreover obtain a where "analyze_tool_call arg_str c = Inr a"
    using analyze_tool_call_total by blast
  ultimately show ?case
    by (intro exI [of _ "a # as"]) (auto simp: nth_Cons split: nat.splits)
qed

lemma analyzed_locks:
  assumes "analyze_tool_call arg_str c = Inr a" and "l \<in> set (locks a)"
  obtains ls where "tool_resource_locks arg_str c = Inr ls" and "locks a = ls"
  using assms
  by (cases "tool_resource_locks arg_str c")
    (auto simp: analyze_tool_call_def dest!: tool_resource_locks_error)

lemma analyzed_locks_eq:
  "analyze_tool_call arg_str c = Inr a \<Longrightarrow> tool_resource_locks arg_str c = Inr ls \<Longrightarrow> locks a = ls"
  by (auto simp: analyze_tool_call_def)

lemma analyzed_sequential:
  "analyze_tool_call arg_str c = Inr a \<Longrightarrow> requires_sequential_execution a \<longleftrightarrow>
     tool_call_requires_sequential_execution (call_name c)
     \<or> (call_name c = lit ''apply_patch'' \<and> apply_patch_marker_paths arg_str c = None)"
  by (cases "tool_resource_locks arg_str c")
    (auto simp: analyze_tool_call_def dest!: tool_resource_locks_error)

text \<open>A call that may run in parallel never asks to write all workspace files at once.\<close>

lemma parallel_call_file_locks:
  assumes "analyze_tool_call arg_str c = Inr a" and "\<not> requires_sequential_execution a"
    and "l \<in> set (locks a)" and "lock_resource l = WorkspaceFiles"
  shows "lock_access l = AccessRead"
proof (rule ccontr)
  assume w: "lock_access l \<noteq> AccessRead"
  from assms(1,3) obtain ls where "tool_resource_locks arg_str c = Inr ls" and "locks a = ls"
    by (rule analyzed_locks)
  with write_all_files_only_invalid_patch [of arg_str c ls l] assms(3,4) w
  show False using analyzed_sequential [OF assms(1)] assms(2) by simp
qed

lemma set_index_pairs: "set (index_pairs n) = {(i, j). i < j \<and> j < n}"
  by (force simp: index_pairs_def)

lemma reject_conflicts_None_iff:
  "reject_conflicts calls as = None \<longleftrightarrow>
     (\<forall>i j. i < j \<and> j < length calls \<and> \<not> requires_sequential_execution (as ! i)
        \<and> \<not> requires_sequential_execution (as ! j) \<longrightarrow>
        (\<forall>l \<in> set (locks (as ! i)). \<forall>m \<in> set (locks (as ! j)).
           lock_pair_error (calls ! i) (as ! i) (calls ! j) (as ! j) l m = None))"
  by (auto simp: reject_conflicts_def first_some_None_iff set_index_pairs
      reject_conflicting_parallel_tool_calls_def)

text \<open>A pair of locks that is neither rejected nor orderable does not conflict, unless both are the
  mutation lease.\<close>

lemma lock_pair_not_rejected:
  assumes "lock_pair_error c a d b l m = None"
    and "lock_resource m = WorkspaceFiles \<Longrightarrow> lock_access m = AccessRead"
    and "tool_resource_locks_conflict l m"
    and "\<not> (lock_resource l = WorkspaceMutationLease \<and> lock_resource m = WorkspaceMutationLease)"
  shows "is_orderable_workspace_file_conflict l a m b"
proof (cases "\<exists>path. lock_access l = AccessWrite \<and> lock_access m = AccessWrite
    \<and> lock_resource l = FileRes path")
  case False
  then show ?thesis using assms
    by (auto simp: lock_pair_error_def Let_def split: if_splits ToolResource.splits)
next
  case True
  then obtain path where p: "lock_access l = AccessWrite" "lock_access m = AccessWrite"
    "lock_resource l = FileRes path" by blast
  with assms have ctx: "is_contextual_file_edit (file_write_kind a)"
    "is_contextual_file_edit (file_write_kind b)"
    by (auto simp: lock_pair_error_def Let_def split: if_splits)
  from p assms(2,3) have "lock_resource m = FileRes path"
    by (cases "lock_resource m")
      (auto simp: tool_resource_locks_conflict_def resources_overlap_def)
  with p ctx assms(3) show ?thesis
    by (simp add: is_orderable_workspace_file_conflict_def is_workspace_file_resource_def
        is_file_resource_def)
qed

lemma orderable_not_rejected:
  "is_orderable_workspace_file_conflict l a m b \<Longrightarrow> lock_pair_error c a d b l m = None"
  by (auto simp: lock_pair_error_def is_orderable_workspace_file_conflict_def Let_def
      is_workspace_file_resource_def is_file_resource_def
      split: if_splits ToolResource.splits)

lemma lock_pair_error_None_iff:
  assumes "lock_resource m = WorkspaceFiles \<Longrightarrow> lock_access m = AccessRead"
  shows "lock_pair_error c a d b l m = None \<longleftrightarrow>
     (tool_resource_locks_conflict l m \<longrightarrow>
       (lock_resource l = WorkspaceMutationLease \<and> lock_resource m = WorkspaceMutationLease)
       \<or> is_orderable_workspace_file_conflict l a m b)"
  using lock_pair_not_rejected [OF _ assms] orderable_not_rejected
  by (metis lock_pair_error_def)

lemma lock_pair_error_recoverable:
  "lock_pair_error c a d b l m = Some e \<Longrightarrow> is_recoverable_tool_conflict e"
  by (auto simp: lock_pair_error_def Let_def same_file_write_error_def
      is_recoverable_tool_conflict_def
      split: if_splits ToolResource.splits option.splits)

lemma reject_conflicts_recoverable:
  "reject_conflicts calls as = Some e \<Longrightarrow> is_recoverable_tool_conflict e"
  by (auto simp: reject_conflicts_def reject_conflicting_parallel_tool_calls_def
      dest!: first_some_SomeD split: if_splits intro: lock_pair_error_recoverable)

text \<open>The invariant of the grouping loop after the first \<open>n\<close> calls.\<close>

definition group_ok :: "AnalyzedToolCall list \<Rightarrow> ToolExecutionGroup \<Rightarrow> bool" where
  "group_ok as g \<longleftrightarrow>
     (case mode g of
        Sequential \<Rightarrow> \<exists>i. call_indices g = [i] \<and> requires_sequential_execution (as ! i)
      | Parallel \<Rightarrow> call_indices g \<noteq> [] \<and>
          (\<forall>i \<in> set (call_indices g). \<not> requires_sequential_execution (as ! i)) \<and>
          sorted_wrt (\<lambda>i j. \<not> analyzed_calls_have_orderable_workspace_file_conflict
            (as ! i) (as ! j)) (call_indices g))"

lemma group_ok_shape:
  "group_ok as g \<Longrightarrow>
     call_indices g \<noteq> [] \<and> (mode g = Sequential \<longrightarrow> length (call_indices g) = 1)"
  by (cases "mode g") (auto simp: group_ok_def)

definition plan_invariant ::
    "AnalyzedToolCall list \<Rightarrow> nat \<Rightarrow> ToolExecutionGroup list \<times> nat list \<Rightarrow> bool" where
  "plan_invariant as n st \<longleftrightarrow>
     concat (map call_indices (fst st)) @ snd st = [0..<n]
     \<and> (\<forall>g \<in> set (fst st). group_ok as g)
     \<and> (snd st \<noteq> [] \<longrightarrow> group_ok as \<lparr>mode = Parallel, call_indices = snd st\<rparr>)"

lemma push_parallel_group_invariant:
  "plan_invariant as n st \<Longrightarrow>
     plan_invariant as n (push_parallel_group st) \<and> snd (push_parallel_group st) = []"
  by (cases st) (auto simp: plan_invariant_def push_parallel_group_def)

lemma add_sequential_invariant:
  assumes "plan_invariant as n (groups, [])" and "requires_sequential_execution (as ! n)"
  shows "plan_invariant as (Suc n) (groups @ [\<lparr>mode = Sequential, call_indices = [n]\<rparr>], [])"
  using assms by (auto simp: plan_invariant_def group_ok_def)

lemma add_parallel_invariant:
  assumes "plan_invariant as n (groups, indices)" and "\<not> requires_sequential_execution (as ! n)"
    and "\<forall>i \<in> set indices. \<not> analyzed_calls_have_orderable_workspace_file_conflict
          (as ! i) (as ! n)"
  shows "plan_invariant as (Suc n) (groups, indices @ [n])"
  using assms by (auto simp: plan_invariant_def group_ok_def sorted_wrt_append)

lemma plan_group_step_invariant:
  assumes "plan_invariant as n st"
  shows "plan_invariant as (Suc n) (plan_group_step as st n)"
proof -
  obtain groups indices where push: "push_parallel_group st = (groups, indices)"
    by (cases "push_parallel_group st")
  with push_parallel_group_invariant [OF assms]
  have inv: "plan_invariant as n (groups, [])" and "indices = []" by auto
  show ?thesis
  proof (cases "requires_sequential_execution (as ! n)")
    case True
    with push \<open>indices = []\<close> add_sequential_invariant [OF inv True] show ?thesis
      by (simp add: plan_group_step_def)
  next
    case False
    show ?thesis
    proof (cases "list_ex (\<lambda>i. analyzed_calls_have_orderable_workspace_file_conflict
        (as ! i) (as ! n)) (snd st)")
      case True
      with False push \<open>indices = []\<close> add_parallel_invariant [OF inv False] show ?thesis
        by (simp add: plan_group_step_def
            push_parallel_group_before_orderable_workspace_file_conflict_def)
    next
      case no_conflict: False
      then show ?thesis
        using False assms add_parallel_invariant [of as n "fst st" "snd st"]
        by (auto simp: plan_group_step_def list_ex_iff split_def
            push_parallel_group_before_orderable_workspace_file_conflict_def)
    qed
  qed
qed

lemma plan_groups_invariant: "plan_invariant as (length as) (plan_groups as, [])"
proof -
  have "plan_invariant as n (foldl (plan_group_step as) ([], []) [0..<n])" for n
  proof (induction n)
    case 0
    then show ?case by (simp add: plan_invariant_def)
  next
    case (Suc n)
    then show ?case by (simp add: plan_group_step_invariant)
  qed
  from push_parallel_group_invariant [OF this [of "length as"]] show ?thesis
    by (cases "push_parallel_group (foldl (plan_group_step as) ([], []) [0..<length as])")
      (simp add: plan_groups_def)
qed

lemma sorted_wrt_nth_pair:
  "sorted_wrt P xs \<Longrightarrow> sorted_wrt (<) xs \<Longrightarrow> i \<in> set xs \<Longrightarrow> j \<in> set xs \<Longrightarrow> i < (j :: nat) \<Longrightarrow> P i j"
  by (induction xs) auto

lemma sorted_group:
  assumes "plan_invariant as n (gs, [])" and "g \<in> set gs"
  shows "sorted_wrt (<) (call_indices g) \<and> set (call_indices g) \<subseteq> {..<n}"
proof -
  from assms have all: "concat (map call_indices gs) = [0..<n]"
    by (simp add: plan_invariant_def)
  from assms(2) obtain us vs where "gs = us @ g # vs" by (meson split_list)
  with all have "concat (map call_indices us) @ call_indices g @ concat (map call_indices vs)
      = [0..<n]" by simp
  moreover have "sorted_wrt (<) [0..<n]" by simp
  ultimately show ?thesis
    by (metis (no_types, lifting) Un_iff atLeast0LessThan atLeastLessThan_upt set_append
        sorted_wrt_append subsetI)
qed

lemma plan_ok_cases:
  assumes "plan_tool_execution arg_str calls = Inr groups"
  obtains as where "analyze_tool_calls arg_str calls = Inr as" "length as = length calls"
    "\<forall>i < length calls. analyze_tool_call arg_str (calls ! i) = Inr (as ! i)"
    "reject_conflicts calls as = None" "groups = plan_groups as"
    "plan_invariant as (length calls) (groups, [])"
proof -
  obtain as where as: "analyze_tool_calls arg_str calls = Inr as" "length as = length calls"
    "\<forall>i < length calls. analyze_tool_call arg_str (calls ! i) = Inr (as ! i)"
    using analyze_tool_calls_eq by blast
  with assms have r: "reject_conflicts calls as = None" and g: "groups = plan_groups as"
    by (auto simp: plan_tool_execution_def split: option.splits)
  have "plan_invariant as (length calls) (groups, [])"
    using plan_groups_invariant [of as] as(2) g by simp
  from that [OF as r g this] show ?thesis .
qed

section \<open>Properties\<close>

text \<open>a plan runs every call of the batch exactly once and in the order of the batch: the
  groups concatenated are the indices from 0 to the number of calls. A sequential group holds a
  single call; no group is empty.\<close>

theorem plan_runs_every_call_once_in_order:
  assumes "plan_tool_execution arg_str calls = Inr groups"
  shows "concat (map call_indices groups) = [0..<length calls]
    \<and> (\<forall>g \<in> set groups. call_indices g \<noteq> []
         \<and> (mode g = Sequential \<longrightarrow> length (call_indices g) = 1))"
proof -
  from assms obtain as where inv: "plan_invariant as (length calls) (groups, [])"
    by (rule plan_ok_cases)
  then have "\<forall>g \<in> set groups. group_ok as g" by (simp add: plan_invariant_def)
  then have "\<forall>g \<in> set groups. call_indices g \<noteq> []
         \<and> (mode g = Sequential \<longrightarrow> length (call_indices g) = 1)"
    using group_ok_shape by blast
  with inv show ?thesis by (simp add: plan_invariant_def)
qed

definition example_batch :: "(rstr \<times> rstr) list PendingToolCall list" where
  "example_batch =
     [\<lparr>call_id = lit ''1'', call_name = lit ''read_file'',
       call_arguments = [(lit ''path'', lit ''a.rs'')]\<rparr>,
      \<lparr>call_id = lit ''2'', call_name = lit ''edit_file'',
       call_arguments = [(lit ''path'', lit ''./B.rs'')]\<rparr>,
      \<lparr>call_id = lit ''3'', call_name = lit ''write_file'',
       call_arguments = [(lit ''path'', lit ''c.rs'')]\<rparr>,
      \<lparr>call_id = lit ''4'', call_name = lit ''run_command'', call_arguments = []\<rparr>,
      \<lparr>call_id = lit ''5'', call_name = lit ''edit_file'',
       call_arguments = [(lit ''path'', lit ''b.rs'')]\<rparr>]"

lemmas batch_eval = tool_resource_locks_def base_resource_locks_def required_path_def
  lease_locks_def tool_effect_def read_only_tools_def query_tools_def graph_and_search_tools_def
  workspace_mutation_tools_def tool_requires_workspace_mutation_lease_def agent_tools_def
  mcp_prefix_def analyze_tool_call_def tool_call_requires_sequential_execution_def
  sequential_tools_def file_write_kind_of_def reject_conflicts_def index_pairs_def upt_rec
  reject_conflicting_parallel_tool_calls_def lock_pair_error_def tool_resource_locks_conflict_def
  resources_overlap_def accesses_conflict_def plan_groups_def plan_group_step_def
  push_parallel_group_def push_parallel_group_before_orderable_workspace_file_conflict_def
  analyzed_calls_have_orderable_workspace_file_conflict_def plan_tool_execution_def
  is_orderable_workspace_file_conflict_def is_workspace_file_resource_def
  is_contextual_file_edit_def is_file_resource_def

lemma example_display:
  "normalize_workspace_path_display (lit ''./B.rs'') = lit ''B.rs''"
  "normalize_workspace_path_display (lit ''a.rs'') = lit ''a.rs''"
  "normalize_workspace_path_display (lit ''b.rs'') = lit ''b.rs''"
  "normalize_workspace_path_display (lit ''B.rs'') = lit ''B.rs''"
  "normalize_workspace_path_display (lit ''c.rs'') = lit ''c.rs''"
  by (simp_all add: normalize_workspace_path_display_def replace_char_def is_whitespace_def
      rust_str)

lemma example_keys:
  "to_ascii_lowercase (lit ''a.rs'') = lit ''a.rs''"
  "to_ascii_lowercase (lit ''b.rs'') = lit ''b.rs''"
  "to_ascii_lowercase (lit ''B.rs'') = lit ''b.rs''"
  "to_ascii_lowercase (lit ''c.rs'') = lit ''c.rs''"
  by (simp_all add: to_ascii_lowercase_def lit_def)

lemmas batch_paths = normalize_workspace_path_key_def example_display example_keys

lemma example_batch_plan:
  "plan_tool_execution map_of example_batch
     = Inr [\<lparr>mode = Parallel, call_indices = [0, 1, 2]\<rparr>,
            \<lparr>mode = Sequential, call_indices = [3]\<rparr>,
            \<lparr>mode = Parallel, call_indices = [4]\<rparr>]"
  by (simp add: example_batch_def batch_eval batch_paths)

theorem plan_runs_every_call_once_in_order_witness:
  "concat (map call_indices [\<lparr>mode = Parallel, call_indices = [0, 1, 2]\<rparr>,
     \<lparr>mode = Sequential, call_indices = [3]\<rparr>, \<lparr>mode = Parallel, call_indices = [4]\<rparr>])
   = [0..<length example_batch]"
  using plan_runs_every_call_once_in_order [OF example_batch_plan] by blast

text \<open>C3: isolation inside a parallel group. If two different calls of one parallel group hold
  conflicting locks, both locks are the workspace mutation lease.\<close>

theorem parallel_group_isolation:
  assumes "plan_tool_execution arg_str calls = Inr groups"
    and "g \<in> set groups" and "mode g = Parallel"
    and "i \<in> set (call_indices g)" and "j \<in> set (call_indices g)" and "i < j"
    and "tool_resource_locks arg_str (calls ! i) = Inr ls" and "l \<in> set ls"
    and "tool_resource_locks arg_str (calls ! j) = Inr ms" and "m \<in> set ms"
    and "tool_resource_locks_conflict l m"
  shows "lock_resource l = WorkspaceMutationLease \<and> lock_resource m = WorkspaceMutationLease"
proof (rule ccontr)
  assume not_lease: "\<not> ?thesis"
  from assms(1) obtain as where len: "length as = length calls"
    and as: "\<forall>k < length calls. analyze_tool_call arg_str (calls ! k) = Inr (as ! k)"
    and rej: "reject_conflicts calls as = None"
    and inv: "plan_invariant as (length calls) (groups, [])"
    by (rule plan_ok_cases)
  from sorted_group [OF inv assms(2)] assms(4,5)
  have sorted: "sorted_wrt (<) (call_indices g)" and ij: "i < length calls" "j < length calls"
    by auto
  from inv assms(2) have "group_ok as g" by (simp add: plan_invariant_def)
  with assms(3-5) have seq: "\<not> requires_sequential_execution (as ! i)"
      "\<not> requires_sequential_execution (as ! j)"
    and ord: "sorted_wrt (\<lambda>i j. \<not> analyzed_calls_have_orderable_workspace_file_conflict
      (as ! i) (as ! j)) (call_indices g)"
    by (auto simp: group_ok_def)
  have l: "l \<in> set (locks (as ! i))" and m: "m \<in> set (locks (as ! j))"
    using as ij assms(7-10) analyzed_locks_eq by blast+
  have none: "lock_pair_error (calls ! i) (as ! i) (calls ! j) (as ! j) l m = None"
    using rej assms(6) ij seq l m by (auto simp: reject_conflicts_None_iff)
  have "lock_resource m = WorkspaceFiles \<Longrightarrow> lock_access m = AccessRead"
    using parallel_call_file_locks [of arg_str "calls ! j" "as ! j" m] as ij seq m by auto
  from lock_pair_not_rejected [OF none this assms(11) not_lease]
  have "analyzed_calls_have_orderable_workspace_file_conflict (as ! i) (as ! j)"
    using l m by (auto simp: analyzed_calls_have_orderable_workspace_file_conflict_def list_ex_iff)
  with sorted_wrt_nth_pair [OF ord sorted assms(4,5,6)] show False by simp
qed

theorem parallel_group_isolation_witness:
  "(\<exists>ls ms. tool_resource_locks map_of (example_batch ! 1) = Inr ls
      \<and> tool_resource_locks map_of (example_batch ! 2) = Inr ms
      \<and> (\<exists>l \<in> set ls. \<exists>m \<in> set ms. tool_resource_locks_conflict l m
           \<and> lock_resource l = WorkspaceMutationLease
           \<and> lock_resource m = WorkspaceMutationLease))"
proof -
  let ?lease = "mk_lock WorkspaceMutationLease AccessExclusive"
  have ls: "tool_resource_locks map_of (example_batch ! 1)
      = Inr [mk_lock (FileRes (lit ''b.rs'')) AccessWrite, ?lease]"
    and ms: "tool_resource_locks map_of (example_batch ! 2)
      = Inr [mk_lock (FileRes (lit ''c.rs'')) AccessWrite, ?lease]"
    by (simp_all add: example_batch_def batch_eval batch_paths)
  have conf: "tool_resource_locks_conflict ?lease ?lease"
    by (simp add: tool_resource_locks_conflict_def accesses_conflict_def)
  have "lock_resource ?lease = WorkspaceMutationLease \<and> lock_resource ?lease = WorkspaceMutationLease"
    by (rule parallel_group_isolation [OF example_batch_plan,
          where g = "\<lparr>mode = Parallel, call_indices = [0, 1, 2]\<rparr>" and i = 1 and j = 2,
          OF _ _ _ _ _ ls _ ms _ conf]) simp_all
  with ls ms conf show ?thesis by auto
qed

text \<open>A batch is rejected exactly when two calls that may run in parallel hold conflicting
  locks, not both the mutation lease, whose conflict cannot be resolved by running the calls one
  after the other; and the rejection is always a recoverable one, so the caller gets a refusal
  record for every call of the batch.\<close>

theorem plan_rejects_exactly_unorderable_conflicts:
  "(\<forall>e. plan_tool_execution arg_str calls = Inl e \<longrightarrow>
      (\<exists>rs. rejected_tool_batch calls e = Some rs
         \<and> map rejected_call_id rs = map call_id calls))
   \<and> (is_ok (plan_tool_execution arg_str calls) \<longleftrightarrow>
      (\<forall>as. analyze_tool_calls arg_str calls = Inr as \<longrightarrow>
        (\<forall>i j. i < j \<and> j < length calls
           \<and> \<not> requires_sequential_execution (as ! i)
           \<and> \<not> requires_sequential_execution (as ! j) \<longrightarrow>
           (\<forall>l \<in> set (locks (as ! i)). \<forall>m \<in> set (locks (as ! j)).
              tool_resource_locks_conflict l m \<longrightarrow>
                (lock_resource l = WorkspaceMutationLease
                 \<and> lock_resource m = WorkspaceMutationLease)
                \<or> is_orderable_workspace_file_conflict l (as ! i) m (as ! j)))))"
proof -
  obtain as where as: "analyze_tool_calls arg_str calls = Inr as"
    and an: "\<forall>i < length calls. analyze_tool_call arg_str (calls ! i) = Inr (as ! i)"
    using analyze_tool_calls_eq by blast
  have err: "plan_tool_execution arg_str calls = Inl e \<longleftrightarrow> reject_conflicts calls as = Some e"
    for e using as by (auto simp: plan_tool_execution_def split: option.splits)
  have ok: "is_ok (plan_tool_execution arg_str calls) \<longleftrightarrow> reject_conflicts calls as = None"
    using as by (auto simp: plan_tool_execution_def split: option.splits)
  have pair: "lock_pair_error c a d (as ! j) l m = None \<longleftrightarrow>
     (tool_resource_locks_conflict l m \<longrightarrow>
       (lock_resource l = WorkspaceMutationLease \<and> lock_resource m = WorkspaceMutationLease)
       \<or> is_orderable_workspace_file_conflict l a m (as ! j))"
    if "j < length calls" "\<not> requires_sequential_execution (as ! j)" "m \<in> set (locks (as ! j))"
    for c :: "'a PendingToolCall" and a d j l m
    by (rule lock_pair_error_None_iff)
      (use that an parallel_call_file_locks [of arg_str "calls ! j" "as ! j" m] in blast)
  have "\<exists>rs. rejected_tool_batch calls e = Some rs \<and> map rejected_call_id rs = map call_id calls"
    if "plan_tool_execution arg_str calls = Inl e" for e
    using that err reject_conflicts_recoverable by (auto simp: rejected_tool_batch_def)
  with ok as pair show ?thesis unfolding reject_conflicts_None_iff by auto
qed

theorem plan_rejects_exactly_unorderable_conflicts_witness:
  "is_ok (plan_tool_execution map_of example_batch)
   \<and> (\<exists>rs. rejected_tool_batch (take 3 example_batch)
         (SameFileWrite (lit ''a.rs'') (lit ''1'') (lit ''2'')) = Some rs)
   \<and> \<not> is_ok (plan_tool_execution map_of [example_batch ! 1, (example_batch ! 1)\<lparr>
        call_name := lit ''write_file''\<rparr>])"
proof -
  let ?bad = "[example_batch ! 1, (example_batch ! 1)\<lparr>call_name := lit ''write_file''\<rparr>]"
  have "plan_tool_execution map_of ?bad
      = Inl (MixedFileWriteMethods (lit ''B.rs'') (lit ''2'') (lit ''2''))"
    by (simp add: example_batch_def batch_eval batch_paths file_display_paths_of_def
        display_path_for_resource_def same_file_write_error_def)
  moreover from this obtain rs where "rejected_tool_batch ?bad
      (MixedFileWriteMethods (lit ''B.rs'') (lit ''2'') (lit ''2'')) = Some rs"
    using plan_rejects_exactly_unorderable_conflicts [of map_of ?bad] by blast
  ultimately show ?thesis
    by (simp add: example_batch_plan rejected_tool_batch_def is_recoverable_tool_conflict_def)
qed

end
