(* ===== verification/Tool_Lock_Registry.thy ===== *)
theory Tool_Lock_Registry
  imports Tool_Resources "HOL-Library.List_Lexorder" "HOL-Library.Product_Lexorder"
begin

text \<open>
  The process-wide registry of tool resource locks (\<open>app/runtime/tool_locks.rs\<close>). The registry
  is a state; the asynchronous \<open>acquire_with_owner\<close> is split where it gives up control: its
  prologue and one round of its loop (grant or park on the notification). Dropping a lease is two
  steps, since the code removes the locks under the mutex and notifies after it has given the mutex
  back; \<open>notifications\<close> counts the leases in between. The interleavings of any number of callers
  are the inductive step relation \<open>registry_step\<close>. \<open>Notify::notified\<close> is created while the
  mutex is held and \<open>notify_waiters\<close> wakes every future created before it, so a round of the loop
  is one step, and so is the notification.
\<close>

section \<open>State\<close>

record ToolResourceLockOwner =
  instance_id :: "rstr option"
  task_id :: "rstr option"
  tool_call_id :: "rstr option"
  tool_name :: "rstr option"

record ActiveToolResourceLock =
  lease_id :: u64
  workspace_id :: rstr
  lock :: ToolResourceLock
  owner :: ToolResourceLockOwner
  acquired_at :: nat
  wait_ms :: nat

record ToolResourceLockOwnerSnapshot =
  snapshot_owner :: ToolResourceLockOwner
  snapshot_active_ms :: nat
  snapshot_wait_ms :: nat

text \<open>The locals of a call of \<open>acquire_with_owner\<close> that has not returned; it is parked while
  it awaits the notification.\<close>

record PendingAcquire =
  pending_lease_id :: u64
  pending_workspace_id :: rstr
  pending_locks :: "ToolResourceLock list"
  pending_owner :: ToolResourceLockOwner
  wait_started :: nat
  parked :: bool

record ToolResourceLockRegistry =
  active :: "ActiveToolResourceLock list"
  next_lease_id :: u64
  pending :: "PendingAcquire list"
  notifications :: nat

definition registry_default :: ToolResourceLockRegistry where
  "registry_default = \<lparr>active = [], next_lease_id = 1, pending = [], notifications = 0\<rparr>"

section \<open>Normalising a lock set\<close>

definition strongest_tool_resource_access ::
    "ToolResourceAccess \<Rightarrow> ToolResourceAccess \<Rightarrow> ToolResourceAccess" where
  "strongest_tool_resource_access a b =
     (if a = AccessExclusive \<or> b = AccessExclusive then AccessExclusive
      else if a = AccessWrite \<or> b = AccessWrite then AccessWrite
      else AccessRead)"

definition tool_resource_sort_key :: "ToolResource \<Rightarrow> rstr" where
  "tool_resource_sort_key r =
     (case r of
        WorkspaceMutationLease \<Rightarrow> lit ''workspace-mutation-lease''
      | WorkspaceFiles \<Rightarrow> lit ''workspace-files''
      | FileRes path \<Rightarrow> lit ''file:'' @ path
      | TodoGraph \<Rightarrow> lit ''todo-graph''
      | PlanRes \<Rightarrow> lit ''plan''
      | ProjectSpec \<Rightarrow> lit ''project-spec''
      | MemoryRes scope \<Rightarrow> lit ''memory:'' @ scope
      | CommandProcess process_id \<Rightarrow> lit ''command-process:'' @ process_id
      | ExternalTool name \<Rightarrow> lit ''external:'' @ name)"

fun tool_resource_access_rank :: "ToolResourceAccess \<Rightarrow> nat" where
  "tool_resource_access_rank AccessRead = 0"
| "tool_resource_access_rank AccessWrite = 1"
| "tool_resource_access_rank AccessExclusive = 2"

fun merge_lock :: "ToolResourceLock list \<Rightarrow> ToolResourceLock \<Rightarrow> ToolResourceLock list" where
  "merge_lock [] l = [l]"
| "merge_lock (existing # rest) l =
     (if lock_resource existing = lock_resource l
      then existing\<lparr>lock_access :=
             strongest_tool_resource_access (lock_access existing) (lock_access l)\<rparr> # rest
      else existing # merge_lock rest l)"

definition normalize_tool_resource_locks ::
    "ToolResourceLock list \<Rightarrow> ToolResourceLock list" where
  "normalize_tool_resource_locks ls =
     sort_key (\<lambda>l. (str_bytes (tool_resource_sort_key (lock_resource l)),
         tool_resource_access_rank (lock_access l)))
       (foldl merge_lock [] ls)"

section \<open>Conflicts with the active locks\<close>

fun is_memory_resource :: "ToolResource \<Rightarrow> bool" where
  "is_memory_resource (MemoryRes _) = True"
| "is_memory_resource _ = False"

definition tool_locks_share_scope ::
    "rstr \<Rightarrow> ToolResourceLock \<Rightarrow> ActiveToolResourceLock \<Rightarrow> bool" where
  "tool_locks_share_scope ws p a \<longleftrightarrow>
     (is_memory_resource (lock_resource p) \<and> is_memory_resource (lock_resource (lock a)))
     \<or> workspace_id a = ws"

definition tool_locks_conflict_with_active ::
    "rstr \<Rightarrow> ToolResourceLock list \<Rightarrow> ActiveToolResourceLock list \<Rightarrow> bool" where
  "tool_locks_conflict_with_active ws ls act \<longleftrightarrow>
     list_ex (\<lambda>p. list_ex (\<lambda>a. tool_locks_share_scope ws p a
         \<and> tool_resource_locks_conflict p (lock a)) act) ls"

section \<open>Operations\<close>

text \<open>\<open>acquire_with_owner\<close> up to its loop.\<close>

definition acquire_begin ::
    "rstr \<Rightarrow> ToolResourceLock list \<Rightarrow> ToolResourceLockOwner \<Rightarrow> nat \<Rightarrow> ToolResourceLockRegistry
     \<Rightarrow> ToolResourceLockRegistry" where
  "acquire_begin ws ls own now r =
     r\<lparr>next_lease_id := next_lease_id r + 1,
       pending := pending r @ [\<lparr>pending_lease_id = next_lease_id r, pending_workspace_id = ws,
         pending_locks = normalize_tool_resource_locks ls, pending_owner = own,
         wait_started = now, parked = False\<rparr>]\<rparr>"

text \<open>One round of the loop for the pending call \<open>i\<close>: the lease identifier when the locks are
  granted.\<close>

definition acquire_poll ::
    "nat \<Rightarrow> nat \<Rightarrow> ToolResourceLockRegistry \<Rightarrow> u64 option \<times> ToolResourceLockRegistry" where
  "acquire_poll i now r =
     (let p = pending r ! i
      in if \<not> tool_locks_conflict_with_active (pending_workspace_id p) (pending_locks p) (active r)
         then (Some (pending_lease_id p),
               r\<lparr>active := active r @ map (\<lambda>l. \<lparr>lease_id = pending_lease_id p,
                    workspace_id = pending_workspace_id p, lock = l, owner = pending_owner p,
                    acquired_at = now, wait_ms = now - wait_started p\<rparr>) (pending_locks p),
                 pending := take i (pending r) @ drop (Suc i) (pending r)\<rparr>)
         else (None, r\<lparr>pending := (pending r)[i := p\<lparr>parked := True\<rparr>]\<rparr>))"

text \<open>Dropping a lease: the part under the mutex, which leaves a notification to be sent when it has
  removed a lock, and the notification, which wakes every parked call.\<close>

definition release_lease :: "u64 \<Rightarrow> ToolResourceLockRegistry \<Rightarrow> ToolResourceLockRegistry" where
  "release_lease lid r =
     (let remaining = filter (\<lambda>a. lease_id a \<noteq> lid) (active r);
          released = length remaining \<noteq> length (active r)
      in r\<lparr>active := remaining,
           notifications := (if released then notifications r + 1 else notifications r)\<rparr>)"

definition notify_waiters :: "ToolResourceLockRegistry \<Rightarrow> ToolResourceLockRegistry" where
  "notify_waiters r =
     r\<lparr>pending := map (\<lambda>p. p\<lparr>parked := False\<rparr>) (pending r), notifications := notifications r - 1\<rparr>"

text \<open>A pending call whose future is dropped leaves no trace in the shared state.\<close>

definition abandon_acquire :: "nat \<Rightarrow> ToolResourceLockRegistry \<Rightarrow> ToolResourceLockRegistry" where
  "abandon_acquire i r = r\<lparr>pending := take i (pending r) @ drop (Suc i) (pending r)\<rparr>"

fun blocking_owners_loop ::
    "rstr \<Rightarrow> ToolResourceLock list \<Rightarrow> nat \<Rightarrow> ActiveToolResourceLock list \<Rightarrow> u64 list
     \<Rightarrow> ToolResourceLockOwnerSnapshot list" where
  "blocking_owners_loop ws ls now [] seen = []"
| "blocking_owners_loop ws ls now (a # rest) seen =
     (if lease_id a \<in> set seen then blocking_owners_loop ws ls now rest seen
      else if list_ex (\<lambda>p. tool_locks_share_scope ws p a
               \<and> tool_resource_locks_conflict p (lock a)) ls
      then \<lparr>snapshot_owner = owner a, snapshot_active_ms = now - acquired_at a,
            snapshot_wait_ms = wait_ms a\<rparr> # blocking_owners_loop ws ls now rest (seen @ [lease_id a])
      else blocking_owners_loop ws ls now rest seen)"

definition blocking_owners ::
    "rstr \<Rightarrow> ToolResourceLock list \<Rightarrow> nat \<Rightarrow> ToolResourceLockRegistry
     \<Rightarrow> ToolResourceLockOwnerSnapshot list" where
  "blocking_owners ws ls now r =
     blocking_owners_loop ws (normalize_tool_resource_locks ls) now (active r) []"

inductive registry_step :: "ToolResourceLockRegistry \<Rightarrow> ToolResourceLockRegistry \<Rightarrow> bool" where
  step_begin: "registry_step r (acquire_begin ws ls own now r)"
| step_poll: "i < length (pending r) \<Longrightarrow> \<not> parked (pending r ! i) \<Longrightarrow>
     registry_step r (snd (acquire_poll i now r))"
| step_release: "registry_step r (release_lease lid r)"
| step_notify: "0 < notifications r \<Longrightarrow> registry_step r (notify_waiters r)"
| step_abandon: "i < length (pending r) \<Longrightarrow> registry_step r (abandon_acquire i r)"

inductive registry_reachable :: "ToolResourceLockRegistry \<Rightarrow> bool" where
  reach_default: "registry_reachable registry_default"
| reach_step: "registry_reachable r \<Longrightarrow> registry_step r s \<Longrightarrow> registry_reachable s"

section \<open>The interface of a lock table\<close>

text \<open>
  A table of entries that belong to holders, with a symmetric conflict relation. The client adds the
  entries of one holder when they conflict with none of the table, and removes entries.
\<close>

locale lock_table =
  fixes clash :: "'e \<Rightarrow> 'e \<Rightarrow> bool"
    and holder :: "'e \<Rightarrow> 'h"
  assumes clash_sym: "clash a b = clash b a"
begin

lemma exclusive_append:
  assumes "\<forall>a \<in> set xs. \<forall>b \<in> set xs. holder a \<noteq> holder b \<longrightarrow> \<not> clash a b"
    and "\<forall>a \<in> set ys. holder a = h" and "\<forall>a \<in> set ys. \<forall>b \<in> set xs. \<not> clash a b"
  shows "\<forall>a \<in> set (xs @ ys). \<forall>b \<in> set (xs @ ys). holder a \<noteq> holder b \<longrightarrow> \<not> clash a b"
  using assms clash_sym by (metis Un_iff set_append)

lemma exclusive_filter:
  assumes "\<forall>a \<in> set xs. \<forall>b \<in> set xs. holder a \<noteq> holder b \<longrightarrow> \<not> clash a b"
  shows "\<forall>a \<in> set (filter P xs). \<forall>b \<in> set (filter P xs). holder a \<noteq> holder b \<longrightarrow> \<not> clash a b"
  using assms by auto

end

definition active_clash :: "ActiveToolResourceLock \<Rightarrow> ActiveToolResourceLock \<Rightarrow> bool" where
  "active_clash a b \<longleftrightarrow>
     tool_locks_share_scope (workspace_id a) (lock a) b
     \<and> tool_resource_locks_conflict (lock a) (lock b)"

interpretation active_table: lock_table active_clash lease_id
  by unfold_locales
    (auto simp: active_clash_def tool_locks_share_scope_def tool_resource_locks_conflict_sym)

section \<open>Lemmas\<close>

definition registry_invariant :: "ToolResourceLockRegistry \<Rightarrow> bool" where
  "registry_invariant r \<longleftrightarrow>
     (\<forall>a \<in> set (active r). \<forall>b \<in> set (active r). lease_id a \<noteq> lease_id b \<longrightarrow> \<not> active_clash a b)
     \<and> (\<forall>p \<in> set (pending r). parked p \<longrightarrow> 0 < notifications r \<or>
          tool_locks_conflict_with_active (pending_workspace_id p) (pending_locks p) (active r))"

lemma conflict_with_active_mono:
  "tool_locks_conflict_with_active ws ls act \<Longrightarrow> tool_locks_conflict_with_active ws ls (act @ added)"
  by (auto simp: tool_locks_conflict_with_active_def list_ex_iff)

lemma acquire_begin_invariant:
  "registry_invariant r \<Longrightarrow> registry_invariant (acquire_begin ws ls own now r)"
  by (auto simp: registry_invariant_def acquire_begin_def)

lemma abandon_invariant: "registry_invariant r \<Longrightarrow> registry_invariant (abandon_acquire i r)"
  by (auto simp: registry_invariant_def abandon_acquire_def dest: in_set_takeD in_set_dropD)

lemma release_invariant: "registry_invariant r \<Longrightarrow> registry_invariant (release_lease lid r)"
proof -
  assume inv: "registry_invariant r"
  let ?f = "filter (\<lambda>a. lease_id a \<noteq> lid) (active r)"
  have "\<forall>p \<in> set (pending r). parked p \<longrightarrow> 0 < notifications (release_lease lid r) \<or>
      tool_locks_conflict_with_active (pending_workspace_id p) (pending_locks p) ?f"
  proof (cases "length ?f = length (active r)")
    case True
    then have "?f = active r"
      by (metis filter_id_conv length_filter_less less_irrefl)
    with inv show ?thesis by (simp add: release_lease_def registry_invariant_def)
  next
    case False
    then show ?thesis by (auto simp: release_lease_def Let_def)
  qed
  with inv active_table.exclusive_filter show ?thesis
    by (simp add: registry_invariant_def release_lease_def Let_def)
qed

lemma notify_invariant: "registry_invariant r \<Longrightarrow> registry_invariant (notify_waiters r)"
  by (auto simp: registry_invariant_def notify_waiters_def)

lemma poll_grants_exclusive:
  assumes "registry_invariant r"
    and "\<not> tool_locks_conflict_with_active (pending_workspace_id p) (pending_locks p) (active r)"
    and "new = map (\<lambda>l. \<lparr>lease_id = pending_lease_id p, workspace_id = pending_workspace_id p,
           lock = l, owner = own, acquired_at = now, wait_ms = w\<rparr>) (pending_locks p)"
  shows "\<forall>a \<in> set (active r @ new). \<forall>b \<in> set (active r @ new).
           lease_id a \<noteq> lease_id b \<longrightarrow> \<not> active_clash a b"
proof (rule active_table.exclusive_append)
  show "\<forall>a \<in> set (active r). \<forall>b \<in> set (active r). lease_id a \<noteq> lease_id b \<longrightarrow> \<not> active_clash a b"
    using assms(1) by (simp add: registry_invariant_def)
  show "\<forall>a \<in> set new. lease_id a = pending_lease_id p"
    using assms(3) by auto
  show "\<forall>a \<in> set new. \<forall>b \<in> set (active r). \<not> active_clash a b"
    using assms(2,3)
    by (auto simp: active_clash_def tool_locks_conflict_with_active_def list_ex_iff)
qed

lemma poll_invariant:
  assumes "registry_invariant r" and "i < length (pending r)"
  shows "registry_invariant (snd (acquire_poll i now r))"
proof -
  let ?p = "pending r ! i"
  show ?thesis
  proof (cases "tool_locks_conflict_with_active (pending_workspace_id ?p) (pending_locks ?p)
      (active r)")
    case True
    with assms show ?thesis
      by (auto simp: registry_invariant_def acquire_poll_def Let_def dest!: set_update_subset_insert
          [THEN subsetD])
  next
    case False
    from poll_grants_exclusive [OF assms(1) False refl] assms False show ?thesis
      by (auto simp: registry_invariant_def acquire_poll_def Let_def
          intro: conflict_with_active_mono dest: in_set_takeD in_set_dropD)
  qed
qed

lemma registry_step_invariant: "registry_step r s \<Longrightarrow> registry_invariant r \<Longrightarrow> registry_invariant s"
  by (induction rule: registry_step.induct)
    (simp_all add: acquire_begin_invariant poll_invariant release_invariant notify_invariant abandon_invariant)

lemma registry_reachable_invariant: "registry_reachable r \<Longrightarrow> registry_invariant r"
proof (induction rule: registry_reachable.induct)
  case reach_default
  then show ?case by (simp add: registry_invariant_def registry_default_def)
next
  case (reach_step r s)
  then show ?case by (blast intro: registry_step_invariant)
qed

text \<open>Merging keeps the resources apart and, for every other lock, whether some lock of the set
  conflicts with it.\<close>

lemma strongest_conflict:
  "accesses_conflict (strongest_tool_resource_access a b) c
     \<longleftrightarrow> accesses_conflict a c \<or> accesses_conflict b c"
  by (cases a; cases b; cases c)
    (simp_all add: accesses_conflict_def strongest_tool_resource_access_def)

lemma merge_lock_resources:
  "lock_resource ` set (merge_lock ls l) = insert (lock_resource l) (lock_resource ` set ls)"
  by (induction ls l rule: merge_lock.induct) auto

lemma merge_lock_distinct:
  "distinct (map lock_resource ls) \<Longrightarrow> distinct (map lock_resource (merge_lock ls l))"
proof (induction ls l rule: merge_lock.induct)
  case (1 l)
  then show ?case by simp
next
  case (2 e rest l)
  then show ?case
    using merge_lock_resources [of rest l] by (auto simp flip: set_map)
qed

lemma merge_lock_conflict:
  "(\<exists>k \<in> set (merge_lock ls l). P (lock_resource k) \<and> tool_resource_locks_conflict k m) \<longleftrightarrow>
     (\<exists>k \<in> insert l (set ls). P (lock_resource k) \<and> tool_resource_locks_conflict k m)"
  by (induction ls l rule: merge_lock.induct)
    (auto simp: tool_resource_locks_conflict_def strongest_conflict)

lemma foldl_merge_conflict:
  "(\<exists>k \<in> set (foldl merge_lock acc ls). P (lock_resource k) \<and> tool_resource_locks_conflict k m) \<longleftrightarrow>
     (\<exists>k \<in> set acc \<union> set ls. P (lock_resource k) \<and> tool_resource_locks_conflict k m)"
proof (induction ls arbitrary: acc)
  case Nil
  then show ?case by simp
next
  case (Cons l ls)
  show ?case
    unfolding foldl.simps Cons.IH using merge_lock_conflict [of acc l P m] by auto
qed

lemma foldl_merge_resources:
  "lock_resource ` set (foldl merge_lock acc ls) = lock_resource ` (set acc \<union> set ls)"
  by (induction ls arbitrary: acc) (simp_all add: image_Un merge_lock_resources)

lemma foldl_merge_distinct:
  "distinct (map lock_resource acc) \<Longrightarrow> distinct (map lock_resource (foldl merge_lock acc ls))"
  by (induction ls arbitrary: acc) (simp_all add: merge_lock_distinct)

lemma normalize_conflict:
  "tool_locks_conflict_with_active ws (normalize_tool_resource_locks ls) act
     \<longleftrightarrow> tool_locks_conflict_with_active ws ls act"
proof -
  have "(\<exists>p \<in> set (normalize_tool_resource_locks ls). tool_locks_share_scope ws p a
           \<and> tool_resource_locks_conflict p (lock a))
      \<longleftrightarrow> (\<exists>p \<in> set ls. tool_locks_share_scope ws p a \<and> tool_resource_locks_conflict p (lock a))" for a
    using foldl_merge_conflict [of "[]" ls "\<lambda>x. (is_memory_resource x
        \<and> is_memory_resource (lock_resource (lock a))) \<or> workspace_id a = ws" "lock a"]
    by (simp add: normalize_tool_resource_locks_def tool_locks_share_scope_def)
  then show ?thesis
    unfolding tool_locks_conflict_with_active_def list_ex_iff by blast
qed

lemma blocking_owners_loop_empty:
  assumes "blocking_owners_loop ws ls now act seen = []" and "a \<in> set act"
    and "lease_id a \<notin> set seen"
  shows "\<not> list_ex (\<lambda>p. tool_locks_share_scope ws p a \<and> tool_resource_locks_conflict p (lock a)) ls"
  using assms
proof (induction act)
  case Nil
  then show ?case by simp
next
  case (Cons b act)
  let ?blocks = "list_ex (\<lambda>p. tool_locks_share_scope ws p b \<and> tool_resource_locks_conflict p (lock b)) ls"
  have rest: "blocking_owners_loop ws ls now act seen = []" and "lease_id b \<in> set seen \<or> \<not> ?blocks"
    using Cons.prems(1) by (simp_all split: if_split_asm)
  with Cons show ?case by (cases "a = b") auto
qed

lemma blocking_owners_loop_none:
  assumes "\<not> tool_locks_conflict_with_active ws ls act"
  shows "blocking_owners_loop ws ls now act seen = []"
  using assms
proof (induction act)
  case Nil
  then show ?case by simp
next
  case (Cons b act)
  then have "\<not> tool_locks_conflict_with_active ws ls act"
    and "\<not> list_ex (\<lambda>p. tool_locks_share_scope ws p b \<and> tool_resource_locks_conflict p (lock b)) ls"
    by (auto simp: tool_locks_conflict_with_active_def list_ex_iff)
  with Cons.IH show ?case by simp
qed

section \<open>Properties\<close>

text \<open>C2: mutual exclusion. Whatever the interleaving of acquisitions, releases and abandoned
  calls, two active locks of different leases that share a scope (the same workspace, or memory,
  which is global) never conflict.\<close>

theorem registry_mutual_exclusion:
  assumes "registry_reachable r" and "a \<in> set (active r)" and "b \<in> set (active r)"
    and "lease_id a \<noteq> lease_id b"
    and "tool_locks_share_scope (workspace_id a) (lock a) b"
  shows "\<not> tool_resource_locks_conflict (lock a) (lock b)"
  using registry_reachable_invariant [OF assms(1)] assms(2-5)
  by (auto simp: registry_invariant_def active_clash_def)

definition no_owner :: ToolResourceLockOwner where
  "no_owner = \<lparr>instance_id = None, task_id = None, tool_call_id = None, tool_name = None\<rparr>"

definition example_active :: "u64 \<Rightarrow> string \<Rightarrow> ActiveToolResourceLock" where
  "example_active i f = \<lparr>lease_id = i, workspace_id = lit ''w'',
     lock = mk_lock (FileRes (lit f)) AccessWrite, owner = no_owner, acquired_at = 0, wait_ms = 0\<rparr>"

definition example_pending :: "u64 \<Rightarrow> string \<Rightarrow> PendingAcquire" where
  "example_pending i f = \<lparr>pending_lease_id = i, pending_workspace_id = lit ''w'',
     pending_locks = [mk_lock (FileRes (lit f)) AccessWrite], pending_owner = no_owner,
     wait_started = 0, parked = False\<rparr>"

lemma example_begin:
  assumes "registry_reachable \<lparr>active = as, next_lease_id = n, pending = [], notifications = 0\<rparr>"
  shows "registry_reachable \<lparr>active = as, next_lease_id = n + 1, pending = [example_pending n f], notifications = 0\<rparr>"
  using reach_step [OF assms step_begin [of _ "lit ''w''" "[mk_lock (FileRes (lit f)) AccessWrite]"
        no_owner 0]]
  by (simp add: acquire_begin_def normalize_tool_resource_locks_def example_pending_def)

lemma example_poll:
  assumes "registry_reachable \<lparr>active = as, next_lease_id = n, pending = [example_pending i f], notifications = 0\<rparr>"
    and "\<not> tool_locks_conflict_with_active (lit ''w'') [mk_lock (FileRes (lit f)) AccessWrite] as"
  shows "registry_reachable \<lparr>active = as @ [example_active i f], next_lease_id = n, pending = [], notifications = 0\<rparr>"
  using reach_step [OF assms(1) step_poll [of 0 _ 0]] assms(2)
  by (simp add: acquire_poll_def example_pending_def example_active_def)

lemma example_registry_reachable:
  "registry_reachable \<lparr>active = [example_active 1 ''a'', example_active 2 ''b''],
     next_lease_id = 3, pending = [], notifications = 0\<rparr>"
proof -
  have start: "registry_reachable \<lparr>active = [], next_lease_id = 1, pending = [], notifications = 0\<rparr>"
    using reach_default by (simp add: registry_default_def)
  have one: "registry_reachable \<lparr>active = [example_active 1 ''a''], next_lease_id = 2, pending = [], notifications = 0\<rparr>"
    using example_poll [OF example_begin [OF start, of "''a''"]]
    by (simp add: tool_locks_conflict_with_active_def)
  show ?thesis
    using example_poll [OF example_begin [OF one, of "''b''"]]
    by (simp add: tool_locks_conflict_with_active_def example_active_def
        tool_resource_locks_conflict_def resources_overlap_def)
qed

theorem registry_mutual_exclusion_witness:
  "tool_locks_share_scope (lit ''w'') (lock (example_active 1 ''a'')) (example_active 2 ''b'')
   \<and> \<not> tool_resource_locks_conflict (lock (example_active 1 ''a'')) (lock (example_active 2 ''b''))"
proof -
  have scope: "tool_locks_share_scope (workspace_id (example_active 1 ''a''))
      (lock (example_active 1 ''a'')) (example_active 2 ''b'')"
    by (simp add: tool_locks_share_scope_def example_active_def)
  have "lease_id (example_active 1 ''a'') \<noteq> lease_id (example_active 2 ''b'')"
    by (simp add: example_active_def)
  with registry_mutual_exclusion [OF example_registry_reachable _ _ _ scope]
  show ?thesis using scope by (simp add: example_active_def)
qed

text \<open>C29: no lost wake-up. A call whose locks could be granted is parked only while the notification
  of a released lease is outstanding, and that notification can be sent at once and wakes it. So the
  call needs nobody else to release anything: after the notification, if it is parked, its own next
  round is possible and grants it all its locks, under its lease.\<close>

theorem registry_no_lost_wakeup:
  assumes "registry_reachable r" and "i < length (pending r)" and "p = pending r ! i"
    and "\<not> tool_locks_conflict_with_active (pending_workspace_id p) (pending_locks p) (active r)"
  shows "(parked p \<longrightarrow> 0 < notifications r)
    \<and> (\<exists>r1 r2. (if parked p then registry_step r r1 \<and> r1 = notify_waiters r else r1 = r)
        \<and> registry_step r1 r2 \<and> r2 = snd (acquire_poll i now r1)
        \<and> fst (acquire_poll i now r1) = Some (pending_lease_id p)
        \<and> (\<forall>l \<in> set (pending_locks p). \<exists>a \<in> set (active r2). lock a = l
             \<and> lease_id a = pending_lease_id p \<and> workspace_id a = pending_workspace_id p))"
proof -
  have woken: "parked p \<Longrightarrow> 0 < notifications r"
    using registry_reachable_invariant [OF assms(1)] assms(2-4) by (auto simp: registry_invariant_def)
  define r1 where "r1 = (if parked p then notify_waiters r else r)"
  have same: "active r1 = active r" "i < length (pending r1)" "\<not> parked (pending r1 ! i)"
    and entry: "pending_lease_id (pending r1 ! i) = pending_lease_id p"
      "pending_workspace_id (pending r1 ! i) = pending_workspace_id p" "pending_locks (pending r1 ! i) = pending_locks p"
    using assms(2,3) by (simp_all add: r1_def notify_waiters_def)
  have step: "registry_step r1 (snd (acquire_poll i now r1))" using same by (intro step_poll)
  have grant: "fst (acquire_poll i now r1) = Some (pending_lease_id p)"
    "\<forall>l \<in> set (pending_locks p). \<exists>a \<in> set (active (snd (acquire_poll i now r1))). lock a = l
       \<and> lease_id a = pending_lease_id p \<and> workspace_id a = pending_workspace_id p"
    using assms(4) by (simp_all add: acquire_poll_def Let_def same(1) entry bex_Un)
  have first: "if parked p then registry_step r r1 \<and> r1 = notify_waiters r else r1 = r"
    using woken step_notify by (simp add: r1_def)
  with woken step grant show ?thesis by blast
qed

text \<open>A holder of file \<open>a\<close>, and a call that waits for it: the lease is dropped, the notification is
  outstanding, and the call is parked although nothing blocks it.\<close>

definition example_waiting :: ToolResourceLockRegistry where
  "example_waiting = \<lparr>active = [], next_lease_id = 3,
     pending = [(example_pending 2 ''a'')\<lparr>parked := True\<rparr>], notifications = 1\<rparr>"

lemma example_waiting_reachable: "registry_reachable example_waiting"
proof -
  have start: "registry_reachable \<lparr>active = [], next_lease_id = 1, pending = [], notifications = 0\<rparr>"
    using reach_default by (simp add: registry_default_def)
  have one: "registry_reachable \<lparr>active = [example_active 1 ''a''], next_lease_id = 2, pending = [], notifications = 0\<rparr>"
    using example_poll [OF example_begin [OF start, of "''a''"]]
    by (simp add: tool_locks_conflict_with_active_def)
  have two: "registry_reachable \<lparr>active = [example_active 1 ''a''], next_lease_id = 3,
      pending = [(example_pending 2 ''a'')\<lparr>parked := True\<rparr>], notifications = 0\<rparr>"
    using reach_step [OF example_begin [OF one, of "''a''"] step_poll [of 0 _ 0]]
    by (simp add: acquire_poll_def example_pending_def example_active_def tool_locks_conflict_with_active_def
        tool_locks_share_scope_def tool_resource_locks_conflict_def accesses_conflict_def Let_def)
  show ?thesis
    using reach_step [OF two step_release [of _ 1]]
    by (simp add: example_waiting_def release_lease_def example_active_def)
qed

theorem registry_no_lost_wakeup_witness:
  "parked (pending example_waiting ! 0) \<and> registry_step example_waiting (notify_waiters example_waiting)
   \<and> fst (acquire_poll 0 7 (notify_waiters example_waiting)) = Some 2"
proof -
  have free: "\<not> tool_locks_conflict_with_active (pending_workspace_id (pending example_waiting ! 0))
      (pending_locks (pending example_waiting ! 0)) (active example_waiting)"
    by (simp add: tool_locks_conflict_with_active_def example_waiting_def list_ex_iff)
  have parked: "parked (pending example_waiting ! 0)" and len: "0 < length (pending example_waiting)"
    and lid: "pending_lease_id (pending example_waiting ! 0) = 2"
    by (simp_all add: example_waiting_def example_pending_def)
  from registry_no_lost_wakeup [OF example_waiting_reachable len refl free, of 7] parked lid
  show ?thesis by auto
qed

text \<open>normalising a lock set changes nothing that matters: each resource occurs once, the
  resources are the same, the set still conflicts with exactly the same active locks, and the list
  is sorted by its key; and the diagnostic list of blocking owners is empty exactly when the
  request can be granted.\<close>

theorem normalize_locks_faithful:
  "distinct (map lock_resource (normalize_tool_resource_locks ls))
   \<and> lock_resource ` set (normalize_tool_resource_locks ls) = lock_resource ` set ls
   \<and> sorted (map (\<lambda>l. (str_bytes (tool_resource_sort_key (lock_resource l)),
         tool_resource_access_rank (lock_access l))) (normalize_tool_resource_locks ls))
   \<and> (tool_locks_conflict_with_active ws (normalize_tool_resource_locks ls) (active r)
        \<longleftrightarrow> tool_locks_conflict_with_active ws ls (active r))
   \<and> (blocking_owners ws ls now r = []
        \<longleftrightarrow> \<not> tool_locks_conflict_with_active ws ls (active r))"
proof (intro conjI)
  show "distinct (map lock_resource (normalize_tool_resource_locks ls))"
    using foldl_merge_distinct [of "[]" ls]
    by (simp add: normalize_tool_resource_locks_def distinct_map)
  show "lock_resource ` set (normalize_tool_resource_locks ls) = lock_resource ` set ls"
    by (simp add: normalize_tool_resource_locks_def foldl_merge_resources)
  show "blocking_owners ws ls now r = []
      \<longleftrightarrow> \<not> tool_locks_conflict_with_active ws ls (active r)"
    using blocking_owners_loop_empty [of ws "normalize_tool_resource_locks ls" now "active r"
        "[]"]
      blocking_owners_loop_none [of ws "normalize_tool_resource_locks ls" "active r" now "[]"]
      normalize_conflict [of ws ls "active r"]
    by (auto simp: blocking_owners_def tool_locks_conflict_with_active_def list_ex_iff)
  show "sorted (map (\<lambda>l. (str_bytes (tool_resource_sort_key (lock_resource l)),
      tool_resource_access_rank (lock_access l))) (normalize_tool_resource_locks ls))"
    by (simp add: normalize_tool_resource_locks_def)
qed (rule normalize_conflict)

end
