(* ===== verification/Workspace_Gate.thy ===== *)
theory Workspace_Gate
  imports Foco_Prelude
begin

text \<open>
  The per-workspace SQLite concurrency gate (\<open>store/workspace_gate.rs\<close>): a fair counting
  semaphore (\<open>CountingSemaphore\<close>), a gate of two of them (total capacity 3, ordinary
  capacity 2), a ledger of the holders, and the life of an opener from the request to the drop of
  its handle. Each critical section under a mutex is one operation; \<open>acquire_until\<close> is cut
  into its entry and one round of its loop, with the time waited so far as an input, and the
  interleavings of any number of openers are the step relation \<open>gate_step\<close>. Opening SQLite
  itself is outside the model: it succeeds or fails.
\<close>

section \<open>The semaphore\<close>

record CountingSemaphoreState =
  sem_available :: nat
  next_waiter_id :: u64
  queue :: "u64 list"

definition semaphore_new :: "nat \<Rightarrow> CountingSemaphoreState" where
  "semaphore_new capacity = \<lparr>sem_available = capacity, next_waiter_id = 0, queue = []\<rparr>"

definition available_permits :: "CountingSemaphoreState \<Rightarrow> nat" where
  "available_permits s = sem_available s"

definition queued_waiters :: "CountingSemaphoreState \<Rightarrow> nat" where
  "queued_waiters s = length (queue s)"

datatype AcquireEntry = EntryGranted | EntryQueued u64

text \<open>\<open>acquire_until\<close> before its loop.\<close>

definition acquire_enter :: "CountingSemaphoreState \<Rightarrow> AcquireEntry \<times> CountingSemaphoreState" where
  "acquire_enter s =
     (if queue s = [] \<and> sem_available s > 0
      then (EntryGranted, s\<lparr>sem_available := sem_available s - 1\<rparr>)
      else (EntryQueued (next_waiter_id s),
            s\<lparr>next_waiter_id := next_waiter_id s + 1, queue := queue s @ [next_waiter_id s]\<rparr>))"

definition WORKSPACE_DATABASE_GATE_POLL :: nat where
  "WORKSPACE_DATABASE_GATE_POLL = 10"

datatype AcquireRound = RoundGranted | RoundTimedOut | RoundWait nat

text \<open>One round of the loop of \<open>acquire_until\<close>; times are milliseconds.\<close>

definition acquire_round ::
    "u64 \<Rightarrow> nat \<Rightarrow> nat \<Rightarrow> CountingSemaphoreState \<Rightarrow> AcquireRound \<times> CountingSemaphoreState" where
  "acquire_round waiter_id waited timeout s =
     (if (queue s \<noteq> [] \<and> hd (queue s) = waiter_id) \<and> sem_available s > 0
      then (RoundGranted, s\<lparr>queue := tl (queue s), sem_available := sem_available s - 1\<rparr>)
      else if waited \<ge> timeout
      then (RoundTimedOut, s\<lparr>queue := filter (\<lambda>q. q \<noteq> waiter_id) (queue s)\<rparr>)
      else (RoundWait (min (timeout - waited) WORKSPACE_DATABASE_GATE_POLL), s))"

definition permit_drop :: "CountingSemaphoreState \<Rightarrow> CountingSemaphoreState" where
  "permit_drop s = s\<lparr>sem_available := sat_add_usize (sem_available s) 1\<rparr>"

section \<open>The gate\<close>

datatype WorkspaceDatabaseGateKind = Ordinary | Critical

fun gate_kind_str :: "WorkspaceDatabaseGateKind \<Rightarrow> rstr" where
  "gate_kind_str Ordinary = lit ''ordinary''"
| "gate_kind_str Critical = lit ''critical''"

definition WORKSPACE_DATABASE_TOTAL_CAPACITY :: nat where
  "WORKSPACE_DATABASE_TOTAL_CAPACITY = 3"
definition WORKSPACE_DATABASE_ORDINARY_CAPACITY :: nat where
  "WORKSPACE_DATABASE_ORDINARY_CAPACITY = 2"

fun gate_timeout :: "WorkspaceDatabaseGateKind \<Rightarrow> nat" where
  "gate_timeout Ordinary = 5000"
| "gate_timeout Critical = 15000"

record WorkspaceDatabaseHolder =
  holder_resource :: rstr
  holder_gate_kind :: WorkspaceDatabaseGateKind
  holder_acquired_at :: nat
  caller_file :: rstr
  caller_line :: nat

text \<open>The ledger's hash map is an association list with the newest binding of a key only.\<close>

record WorkspaceDatabaseHolderLedger =
  next_holder_id :: u64
  holders :: "(u64 \<times> WorkspaceDatabaseHolder) list"

definition ledger_default :: WorkspaceDatabaseHolderLedger where
  "ledger_default = \<lparr>next_holder_id = 0, holders = []\<rparr>"

definition register_holder ::
    "WorkspaceDatabaseHolder \<Rightarrow> WorkspaceDatabaseHolderLedger
     \<Rightarrow> u64 \<times> WorkspaceDatabaseHolderLedger" where
  "register_holder h l =
     (next_holder_id l,
      \<lparr>next_holder_id = next_holder_id l + 1,
       holders = (next_holder_id l, h) # filter (\<lambda>e. fst e \<noteq> next_holder_id l) (holders l)\<rparr>)"

definition registration_drop ::
    "u64 \<Rightarrow> WorkspaceDatabaseHolderLedger \<Rightarrow> WorkspaceDatabaseHolderLedger" where
  "registration_drop i l = l\<lparr>holders := filter (\<lambda>e. fst e \<noteq> i) (holders l)\<rparr>"

definition holder_entry :: "nat \<Rightarrow> WorkspaceDatabaseHolder \<Rightarrow> rstr" where
  "holder_entry now h =
     lit ''resource='' @ holder_resource h @ lit '',gate='' @ gate_kind_str (holder_gate_kind h)
     @ lit '',held_ms='' @ nat_display (now - holder_acquired_at h)
     @ lit '',source='' @ caller_file h @ lit '':'' @ nat_display (caller_line h)"

definition summary_holders ::
    "WorkspaceDatabaseHolderLedger \<Rightarrow> (u64 \<times> WorkspaceDatabaseHolder) list" where
  "summary_holders l = take WORKSPACE_DATABASE_TOTAL_CAPACITY (sort_key fst (holders l))"

definition active_holder_summary :: "nat \<Rightarrow> WorkspaceDatabaseHolderLedger \<Rightarrow> rstr" where
  "active_holder_summary now l =
     join (lit ''; '') (map (\<lambda>e. holder_entry now (snd e)) (summary_holders l))"

text \<open>Where one opener stands: waiting for the ordinary semaphore, holding its permit, waiting for
  the total semaphore, holding all permits, registered with an open handle, and the stages of the
  drop: holder removed, total permit released, closed.\<close>

datatype OpenerPhase =
  PhStart WorkspaceDatabaseGateKind
| PhWaitOrdinary u64
| PhHaveOrdinary
| PhWaitTotal WorkspaceDatabaseGateKind u64
| PhPermits WorkspaceDatabaseGateKind
| PhOpen WorkspaceDatabaseGateKind u64
| PhUnregistered WorkspaceDatabaseGateKind
| PhTotalReleased WorkspaceDatabaseGateKind
| PhFailed
| PhClosed

record WorkspaceDatabaseGate =
  total :: CountingSemaphoreState
  ordinary :: CountingSemaphoreState
  ledger :: WorkspaceDatabaseHolderLedger
  openers :: "OpenerPhase list"

definition gate_new :: WorkspaceDatabaseGate where
  "gate_new = \<lparr>total = semaphore_new WORKSPACE_DATABASE_TOTAL_CAPACITY,
     ordinary = semaphore_new WORKSPACE_DATABASE_ORDINARY_CAPACITY,
     ledger = ledger_default, openers = []\<rparr>"

text \<open>The \<open>ConcurrencyLimit\<close> message of \<open>acquire_workspace_database_gate_slot\<close>;
  \<open>now\<close> is the time of the snapshot.\<close>

definition concurrency_limit_message ::
    "rstr \<Rightarrow> WorkspaceDatabaseGateKind \<Rightarrow> rstr \<Rightarrow> nat \<Rightarrow> nat \<Rightarrow> WorkspaceDatabaseGate \<Rightarrow> rstr" where
  "concurrency_limit_message key gate_kind slot_kind waited now g =
     lit ''workspace database concurrency limit reached for '' @ key @ lit '' after ''
     @ nat_display waited @ lit '' ms (gate='' @ gate_kind_str gate_kind @ lit '', slot='' @ slot_kind
     @ lit '', total='' @ nat_display (available_permits (total g)) @ lit ''/''
     @ nat_display WORKSPACE_DATABASE_TOTAL_CAPACITY
     @ lit '', ordinary='' @ nat_display (available_permits (ordinary g)) @ lit ''/''
     @ nat_display WORKSPACE_DATABASE_ORDINARY_CAPACITY
     @ lit '', holders=['' @ active_holder_summary now (ledger g) @ lit ''])''"

section \<open>Operations of an opener\<close>

text \<open>\<open>acquire_workspace_database_permits\<close>, one critical section at a time, and what follows
  it in \<open>open_workspace_database_with_gate\<close> and in the drop of the handle. The results are
  the new gate state for the opener \<open>i\<close>.\<close>

definition opener_arrives ::
    "WorkspaceDatabaseGateKind \<Rightarrow> WorkspaceDatabaseGate \<Rightarrow> WorkspaceDatabaseGate" where
  "opener_arrives k g = g\<lparr>openers := openers g @ [PhStart k]\<rparr>"

definition enter_ordinary :: "nat \<Rightarrow> WorkspaceDatabaseGate \<Rightarrow> WorkspaceDatabaseGate" where
  "enter_ordinary i g =
     (case acquire_enter (ordinary g) of
        (EntryGranted, s) \<Rightarrow> g\<lparr>ordinary := s, openers := (openers g)[i := PhHaveOrdinary]\<rparr>
      | (EntryQueued w, s) \<Rightarrow> g\<lparr>ordinary := s, openers := (openers g)[i := PhWaitOrdinary w]\<rparr>)"

definition round_ordinary ::
    "nat \<Rightarrow> u64 \<Rightarrow> nat \<Rightarrow> WorkspaceDatabaseGate \<Rightarrow> WorkspaceDatabaseGate" where
  "round_ordinary i w waited g =
     (case acquire_round w waited (gate_timeout Ordinary) (ordinary g) of
        (RoundGranted, s) \<Rightarrow> g\<lparr>ordinary := s, openers := (openers g)[i := PhHaveOrdinary]\<rparr>
      | (RoundTimedOut, s) \<Rightarrow> g\<lparr>ordinary := s, openers := (openers g)[i := PhFailed]\<rparr>
      | (RoundWait _, s) \<Rightarrow> g\<lparr>ordinary := s\<rparr>)"

definition enter_total ::
    "nat \<Rightarrow> WorkspaceDatabaseGateKind \<Rightarrow> WorkspaceDatabaseGate \<Rightarrow> WorkspaceDatabaseGate" where
  "enter_total i k g =
     (case acquire_enter (total g) of
        (EntryGranted, s) \<Rightarrow> g\<lparr>total := s, openers := (openers g)[i := PhPermits k]\<rparr>
      | (EntryQueued w, s) \<Rightarrow> g\<lparr>total := s, openers := (openers g)[i := PhWaitTotal k w]\<rparr>)"

text \<open>When the total slot times out, the error return drops the ordinary permit.\<close>

definition round_total ::
    "nat \<Rightarrow> WorkspaceDatabaseGateKind \<Rightarrow> u64 \<Rightarrow> nat \<Rightarrow> WorkspaceDatabaseGate
     \<Rightarrow> WorkspaceDatabaseGate" where
  "round_total i k w waited g =
     (case acquire_round w waited (gate_timeout k) (total g) of
        (RoundGranted, s) \<Rightarrow> g\<lparr>total := s, openers := (openers g)[i := PhPermits k]\<rparr>
      | (RoundTimedOut, s) \<Rightarrow>
          g\<lparr>total := s,
            ordinary := (if k = Ordinary then permit_drop (ordinary g) else ordinary g),
            openers := (openers g)[i := PhFailed]\<rparr>
      | (RoundWait _, s) \<Rightarrow> g\<lparr>total := s\<rparr>)"

definition opener_registers ::
    "nat \<Rightarrow> WorkspaceDatabaseGateKind \<Rightarrow> WorkspaceDatabaseHolder \<Rightarrow> WorkspaceDatabaseGate
     \<Rightarrow> WorkspaceDatabaseGate" where
  "opener_registers i k h g =
     (case register_holder h (ledger g) of
        (hid, l) \<Rightarrow> g\<lparr>ledger := l, openers := (openers g)[i := PhOpen k hid]\<rparr>)"

text \<open>Dropping the handle, or the locals when opening SQLite fails: the holder goes first, then the
  permits in the order of their fields.\<close>

definition drop_registration ::
    "nat \<Rightarrow> WorkspaceDatabaseGateKind \<Rightarrow> u64 \<Rightarrow> WorkspaceDatabaseGate \<Rightarrow> WorkspaceDatabaseGate" where
  "drop_registration i k hid g =
     g\<lparr>ledger := registration_drop hid (ledger g),
       openers := (openers g)[i := PhUnregistered k]\<rparr>"

definition drop_total ::
    "nat \<Rightarrow> WorkspaceDatabaseGateKind \<Rightarrow> WorkspaceDatabaseGate \<Rightarrow> WorkspaceDatabaseGate" where
  "drop_total i k g =
     g\<lparr>total := permit_drop (total g), openers := (openers g)[i := PhTotalReleased k]\<rparr>"

definition drop_ordinary ::
    "nat \<Rightarrow> WorkspaceDatabaseGateKind \<Rightarrow> WorkspaceDatabaseGate \<Rightarrow> WorkspaceDatabaseGate" where
  "drop_ordinary i k g =
     g\<lparr>ordinary := (if k = Ordinary then permit_drop (ordinary g) else ordinary g),
       openers := (openers g)[i := PhClosed]\<rparr>"

inductive gate_step :: "WorkspaceDatabaseGate \<Rightarrow> WorkspaceDatabaseGate \<Rightarrow> bool" where
  arrive: "gate_step g (opener_arrives k g)"
| start_ordinary: "i < length (openers g) \<Longrightarrow> openers g ! i = PhStart Ordinary \<Longrightarrow>
     gate_step g (enter_ordinary i g)"
| wait_ordinary: "i < length (openers g) \<Longrightarrow> openers g ! i = PhWaitOrdinary w \<Longrightarrow>
     gate_step g (round_ordinary i w waited g)"
| start_critical: "i < length (openers g) \<Longrightarrow> openers g ! i = PhStart Critical \<Longrightarrow>
     gate_step g (enter_total i Critical g)"
| have_ordinary: "i < length (openers g) \<Longrightarrow> openers g ! i = PhHaveOrdinary \<Longrightarrow>
     gate_step g (enter_total i Ordinary g)"
| wait_total: "i < length (openers g) \<Longrightarrow> openers g ! i = PhWaitTotal k w \<Longrightarrow>
     gate_step g (round_total i k w waited g)"
| register: "i < length (openers g) \<Longrightarrow> openers g ! i = PhPermits k \<Longrightarrow>
     gate_step g (opener_registers i k h g)"
| unregister: "i < length (openers g) \<Longrightarrow> openers g ! i = PhOpen k hid \<Longrightarrow>
     gate_step g (drop_registration i k hid g)"
| release_total: "i < length (openers g) \<Longrightarrow> openers g ! i = PhUnregistered k \<Longrightarrow>
     gate_step g (drop_total i k g)"
| release_ordinary: "i < length (openers g) \<Longrightarrow> openers g ! i = PhTotalReleased k \<Longrightarrow>
     gate_step g (drop_ordinary i k g)"

inductive gate_reachable :: "WorkspaceDatabaseGate \<Rightarrow> bool" where
  gate_start: "gate_reachable gate_new"
| gate_next: "gate_reachable g \<Longrightarrow> gate_step g h \<Longrightarrow> gate_reachable h"

text \<open>A history of one semaphore: entries, rounds of any waiter at any time, and drops of permits;
  the result lists the queued waiters in the order in which they were granted.\<close>

datatype SemEvent = EvEnter | EvRound u64 nat nat | EvDrop

fun sem_run :: "SemEvent list \<Rightarrow> CountingSemaphoreState \<Rightarrow> u64 list \<times> CountingSemaphoreState" where
  "sem_run [] s = ([], s)"
| "sem_run (EvEnter # es) s = sem_run es (snd (acquire_enter s))"
| "sem_run (EvDrop # es) s = sem_run es (permit_drop s)"
| "sem_run (EvRound w waited timeout # es) s =
     (case acquire_round w waited timeout s of
        (RoundGranted, s') \<Rightarrow> (w # fst (sem_run es s'), snd (sem_run es s'))
      | (_, s') \<Rightarrow> sem_run es s')"

section \<open>The interface of a counting semaphore\<close>

text \<open>What the gate needs of a semaphore: how each operation changes the number of free permits.\<close>

locale counting_semaphore =
  fixes free :: "'s \<Rightarrow> nat"
    and enter :: "'s \<Rightarrow> AcquireEntry \<times> 's"
    and round :: "u64 \<Rightarrow> nat \<Rightarrow> nat \<Rightarrow> 's \<Rightarrow> AcquireRound \<times> 's"
    and give :: "'s \<Rightarrow> 's"
  assumes enter_granted: "enter s = (EntryGranted, s') \<Longrightarrow> free s = Suc (free s')"
    and enter_queued: "enter s = (EntryQueued w, s') \<Longrightarrow> free s' = free s"
    and round_granted: "round w t d s = (RoundGranted, s') \<Longrightarrow> free s = Suc (free s')"
    and round_timed_out: "round w t d s = (RoundTimedOut, s') \<Longrightarrow> free s' = free s"
    and round_wait: "round w t d s = (RoundWait n, s') \<Longrightarrow> free s' = free s"
    and give_back: "free s < usize_MAX \<Longrightarrow> free (give s) = Suc (free s)"
begin

definition balanced :: "nat \<Rightarrow> ('p \<Rightarrow> bool) \<Rightarrow> 's \<Rightarrow> 'p list \<Rightarrow> bool" where
  "balanced cap holds s ps \<longleftrightarrow> free s + length (filter holds ps) = cap"

lemma balanced_update:
  assumes "balanced cap holds s ps" and "i < length ps"
    and "free s + (if holds (ps ! i) then 1 else 0) = free s' + (if holds p then 1 else 0)"
  shows "balanced cap holds s' (ps[i := p])"
  using assms length_filter_list_update [OF assms(2), of holds p]
  by (simp add: balanced_def split: if_splits)

lemma balanced_enter_granted:
  "balanced cap holds s ps \<Longrightarrow> i < length ps \<Longrightarrow> \<not> holds (ps ! i) \<Longrightarrow> holds p \<Longrightarrow>
     enter s = (EntryGranted, s') \<Longrightarrow> balanced cap holds s' (ps[i := p])"
  by (rule balanced_update) (auto dest: enter_granted)

lemma balanced_enter_queued:
  "balanced cap holds s ps \<Longrightarrow> i < length ps \<Longrightarrow> \<not> holds (ps ! i) \<Longrightarrow> \<not> holds p \<Longrightarrow>
     enter s = (EntryQueued w, s') \<Longrightarrow> balanced cap holds s' (ps[i := p])"
  by (rule balanced_update) (simp_all add: enter_queued)

lemma balanced_round_granted:
  "balanced cap holds s ps \<Longrightarrow> i < length ps \<Longrightarrow> \<not> holds (ps ! i) \<Longrightarrow> holds p \<Longrightarrow>
     round w t d s = (RoundGranted, s') \<Longrightarrow> balanced cap holds s' (ps[i := p])"
  by (rule balanced_update) (auto dest: round_granted)

lemma balanced_round_timed_out:
  "balanced cap holds s ps \<Longrightarrow> i < length ps \<Longrightarrow> \<not> holds (ps ! i) \<Longrightarrow> \<not> holds p \<Longrightarrow>
     round w t d s = (RoundTimedOut, s') \<Longrightarrow> balanced cap holds s' (ps[i := p])"
  by (rule balanced_update) (simp_all add: round_timed_out)

lemma balanced_round_wait:
  "balanced cap holds s ps \<Longrightarrow> round w t d s = (RoundWait n, s') \<Longrightarrow> balanced cap holds s' ps"
  by (simp add: balanced_def round_wait)

lemma balanced_give:
  assumes "balanced cap holds s ps" and "i < length ps" and "holds (ps ! i)" and "\<not> holds p"
    and "cap < usize_MAX"
  shows "balanced cap holds (give s) (ps[i := p])"
proof -
  have "free s < usize_MAX" using assms(1,5) by (simp add: balanced_def)
  then have "free (give s) = Suc (free s)" by (rule give_back)
  then show ?thesis using assms by (intro balanced_update) auto
qed

lemma balanced_same:
  "balanced cap holds s ps \<Longrightarrow> i < length ps \<Longrightarrow> holds p = holds (ps ! i) \<Longrightarrow>
     balanced cap holds s (ps[i := p])"
  by (rule balanced_update) auto

end

interpretation sem: counting_semaphore sem_available acquire_enter acquire_round permit_drop
  by unfold_locales
    (auto simp: acquire_enter_def acquire_round_def permit_drop_def sat_add_usize_def
      split: if_splits)

section \<open>Lemmas\<close>

fun holds_ordinary :: "OpenerPhase \<Rightarrow> bool" where
  "holds_ordinary PhHaveOrdinary = True"
| "holds_ordinary (PhWaitTotal k w) = (k = Ordinary)"
| "holds_ordinary (PhPermits k) = (k = Ordinary)"
| "holds_ordinary (PhOpen k h) = (k = Ordinary)"
| "holds_ordinary (PhUnregistered k) = (k = Ordinary)"
| "holds_ordinary (PhTotalReleased k) = (k = Ordinary)"
| "holds_ordinary (PhStart k) = False"
| "holds_ordinary (PhWaitOrdinary w) = False"
| "holds_ordinary PhFailed = False"
| "holds_ordinary PhClosed = False"

fun holds_total :: "OpenerPhase \<Rightarrow> bool" where
  "holds_total (PhPermits k) = True"
| "holds_total (PhOpen k h) = True"
| "holds_total (PhUnregistered k) = True"
| "holds_total (PhStart k) = False"
| "holds_total (PhWaitOrdinary w) = False"
| "holds_total PhHaveOrdinary = False"
| "holds_total (PhWaitTotal k w) = False"
| "holds_total (PhTotalReleased k) = False"
| "holds_total PhFailed = False"
| "holds_total PhClosed = False"

fun is_open :: "OpenerPhase \<Rightarrow> bool" where
  "is_open (PhOpen k h) = True"
| "is_open _ = False"

fun holds_critical_total :: "OpenerPhase \<Rightarrow> bool" where
  "holds_critical_total (PhPermits k) = (k = Critical)"
| "holds_critical_total (PhOpen k h) = (k = Critical)"
| "holds_critical_total (PhUnregistered k) = (k = Critical)"
| "holds_critical_total _ = False"

abbreviation count_phases :: "(OpenerPhase \<Rightarrow> bool) \<Rightarrow> WorkspaceDatabaseGate \<Rightarrow> nat" where
  "count_phases P g \<equiv> length (filter P (openers g))"

definition permits_ok :: "WorkspaceDatabaseGate \<Rightarrow> bool" where
  "permits_ok g \<longleftrightarrow>
     sem.balanced 3 holds_total (total g) (openers g)
     \<and> sem.balanced 2 holds_ordinary (ordinary g) (openers g)"

definition ledger_ok :: "WorkspaceDatabaseGate \<Rightarrow> bool" where
  "ledger_ok g \<longleftrightarrow>
     distinct (map fst (holders (ledger g)))
     \<and> (\<forall>hid \<in> fst ` set (holders (ledger g)).
          \<exists>i < length (openers g). \<exists>k. openers g ! i = PhOpen k hid)"

lemmas gate_ops = opener_arrives_def enter_ordinary_def round_ordinary_def enter_total_def
  round_total_def opener_registers_def drop_registration_def drop_total_def drop_ordinary_def

lemmas gate_balances = sem.balanced_enter_granted sem.balanced_enter_queued
  sem.balanced_round_granted sem.balanced_round_timed_out sem.balanced_round_wait
  sem.balanced_give sem.balanced_same

lemma small_capacity [simp]: "2 < usize_MAX" "3 < usize_MAX"
  by (simp_all add: usize_MAX_def)

lemma gate_step_permits: "gate_step g h \<Longrightarrow> permits_ok g \<Longrightarrow> permits_ok h"
proof (induction rule: gate_step.induct)
  case (arrive g k)
  then show ?case by (simp add: permits_ok_def opener_arrives_def sem.balanced_def)
qed (auto simp: permits_ok_def gate_ops intro: gate_balances
      split: prod.splits AcquireEntry.splits AcquireRound.splits)

lemma gate_reachable_permits: "gate_reachable g \<Longrightarrow> permits_ok g"
proof (induction rule: gate_reachable.induct)
  case gate_start
  then show ?case
    by (simp add: permits_ok_def gate_new_def sem.balanced_def semaphore_new_def
        WORKSPACE_DATABASE_TOTAL_CAPACITY_def WORKSPACE_DATABASE_ORDINARY_CAPACITY_def)
next
  case (gate_next g h)
  then show ?case by (blast intro: gate_step_permits)
qed

text \<open>Steps that leave the ledger and the open handles alone keep the ledger's invariant.\<close>

lemma ledger_ok_update:
  assumes "ledger_ok g" and "\<not> is_open (openers g ! i)" and "ledger h = ledger g"
    and "openers h = (openers g)[i := p]"
  shows "ledger_ok h"
  unfolding ledger_ok_def
proof (intro conjI ballI)
  show "distinct (map fst (holders (ledger h)))"
    using assms by (simp add: ledger_ok_def)
  fix hid
  assume "hid \<in> fst ` set (holders (ledger h))"
  with assms obtain j k where "j < length (openers g)" "openers g ! j = PhOpen k hid"
    by (auto simp: ledger_ok_def)
  moreover from this assms(2) have "j \<noteq> i" by auto
  ultimately show "\<exists>j < length (openers h). \<exists>k. openers h ! j = PhOpen k hid"
    using assms(4) by (intro exI [of _ j]) auto
qed

lemma ledger_ok_same:
  "ledger_ok g \<Longrightarrow> ledger h = ledger g \<Longrightarrow> openers h = openers g \<Longrightarrow> ledger_ok h"
  by (simp add: ledger_ok_def)

lemma ledger_ok_register:
  assumes "ledger_ok g" and "i < length (openers g)" and "openers g ! i = PhPermits k"
  shows "ledger_ok (opener_registers i k h g)"
  unfolding ledger_ok_def
proof (intro conjI ballI)
  show "distinct (map fst (holders (ledger (opener_registers i k h g))))"
    using assms(1)
    by (auto simp: ledger_ok_def opener_registers_def register_holder_def distinct_map_filter)
  fix hid
  assume "hid \<in> fst ` set (holders (ledger (opener_registers i k h g)))"
  then consider "hid = next_holder_id (ledger g)"
    | "hid \<in> fst ` set (holders (ledger g))"
    by (auto simp: opener_registers_def register_holder_def)
  then show "\<exists>j < length (openers (opener_registers i k h g)).
      \<exists>k'. openers (opener_registers i k h g) ! j = PhOpen k' hid"
  proof cases
    case 1
    with assms(2) show ?thesis
      by (intro exI [of _ i]) (auto simp: opener_registers_def register_holder_def)
  next
    case 2
    with assms(1) obtain j k' where j: "j < length (openers g)" "openers g ! j = PhOpen k' hid"
      by (auto simp: ledger_ok_def)
    with assms(3) have "j \<noteq> i" by auto
    with j show ?thesis
      by (intro exI [of _ j]) (auto simp: opener_registers_def register_holder_def)
  qed
qed

lemma ledger_ok_unregister:
  assumes "ledger_ok g" and "openers g ! i = PhOpen k hid"
  shows "ledger_ok (drop_registration i k hid g)"
  unfolding ledger_ok_def
proof (intro conjI ballI)
  show "distinct (map fst (holders (ledger (drop_registration i k hid g))))"
    using assms(1)
    by (simp add: ledger_ok_def drop_registration_def registration_drop_def distinct_map_filter)
  fix x
  assume "x \<in> fst ` set (holders (ledger (drop_registration i k hid g)))"
  then have x: "x \<in> fst ` set (holders (ledger g))" "x \<noteq> hid"
    by (auto simp: drop_registration_def registration_drop_def)
  with assms(1) obtain j k' where j: "j < length (openers g)" "openers g ! j = PhOpen k' x"
    by (auto simp: ledger_ok_def)
  with x assms(2) have "j \<noteq> i" by auto
  with j show "\<exists>j < length (openers (drop_registration i k hid g)).
      \<exists>k'. openers (drop_registration i k hid g) ! j = PhOpen k' x"
    by (intro exI [of _ j]) (auto simp: drop_registration_def)
qed

lemma ledger_ok_arrive: "ledger_ok g \<Longrightarrow> ledger_ok (opener_arrives k g)"
proof -
  assume ok: "ledger_ok g"
  have "\<exists>j < length (openers g @ [PhStart k]). \<exists>k'. (openers g @ [PhStart k]) ! j = PhOpen k' hid"
    if "j < length (openers g)" "openers g ! j = PhOpen k' hid" for hid j k'
    using that by (intro exI [of _ j]) (auto simp: nth_append)
  with ok show ?thesis by (fastforce simp: ledger_ok_def opener_arrives_def)
qed

text \<open>The steps on the semaphores and the releases change at most the phase of one opener, which
  has no open handle before the step.\<close>

lemma ledger_frame_step:
  assumes "ledger_ok g" and "\<not> is_open (openers g ! i)"
  shows "ledger_ok (enter_ordinary i g)" "ledger_ok (round_ordinary i w waited g)"
    "ledger_ok (enter_total i k g)" "ledger_ok (round_total i k w waited g)"
    "ledger_ok (drop_total i k g)" "ledger_ok (drop_ordinary i k g)"
  using assms ledger_ok_update [OF assms] ledger_ok_same [OF assms(1)]
  by (simp_all add: gate_ops split: prod.split AcquireEntry.split AcquireRound.split)

lemma gate_step_ledger: "gate_step g h \<Longrightarrow> ledger_ok g \<Longrightarrow> ledger_ok h"
  by (induction rule: gate_step.induct)
    (simp_all add: ledger_frame_step ledger_ok_arrive ledger_ok_register ledger_ok_unregister)

lemma gate_reachable_ledger: "gate_reachable g \<Longrightarrow> ledger_ok g"
proof (induction rule: gate_reachable.induct)
  case gate_start
  then show ?case by (simp add: ledger_ok_def gate_new_def ledger_default_def)
next
  case (gate_next g h)
  then show ?case by (blast intro: gate_step_ledger)
qed

lemma ledger_ok_card: "ledger_ok g \<Longrightarrow> length (holders (ledger g)) \<le> count_phases is_open g"
proof -
  assume ok: "ledger_ok g"
  let ?ids = "fst ` set (holders (ledger g))"
  let ?open = "filter is_open (openers g)"
  have "?ids \<subseteq> set (map (\<lambda>p. case p of PhOpen k h \<Rightarrow> h | _ \<Rightarrow> 0) ?open)"
  proof
    fix hid
    assume "hid \<in> ?ids"
    with ok obtain i k where "i < length (openers g)" "openers g ! i = PhOpen k hid"
      by (auto simp: ledger_ok_def)
    then have "PhOpen k hid \<in> set ?open" by (auto simp: in_set_conv_nth)
    then show "hid \<in> set (map (\<lambda>p. case p of PhOpen k h \<Rightarrow> h | _ \<Rightarrow> 0) ?open)"
      by force
  qed
  then have "card ?ids \<le> length ?open"
    by (metis (no_types, lifting) List.finite_set card_length card_mono le_trans length_map)
  moreover have "card ?ids = length (holders (ledger g))"
    using ok by (metis distinct_card ledger_ok_def length_map list.set_map)
  ultimately show ?thesis by simp
qed

lemma count_mono: "(\<And>x. P x \<Longrightarrow> Q x) \<Longrightarrow> length (filter P xs) \<le> length (filter Q xs)"
  by (induction xs) auto

lemma total_split:
  "length (filter holds_total ps) \<le> length (filter holds_critical_total ps)
     + length (filter holds_ordinary ps)"
proof (induction ps)
  case Nil
  then show ?case by simp
next
  case (Cons p ps)
  have "holds_total p \<Longrightarrow> holds_critical_total p \<or> holds_ordinary p"
    by (cases p) (auto intro: WorkspaceDatabaseGateKind.exhaust)
  with Cons show ?case by auto
qed

text \<open>The order in which the queue serves.\<close>

definition queue_ok :: "CountingSemaphoreState \<Rightarrow> nat \<Rightarrow> bool" where
  "queue_ok s n \<longleftrightarrow>
     sorted_wrt (<) (map unat (queue s)) \<and> (\<forall>q \<in> set (queue s). q < next_waiter_id s)
     \<and> unat (next_waiter_id s) \<le> n"

lemma queue_ok_enter:
  assumes "queue_ok s n" and "Suc n < 2 ^ 64"
  shows "queue_ok (snd (acquire_enter s)) (Suc n)"
proof -
  have "unat (next_waiter_id s) < 2 ^ 64 - 1" using assms by (simp add: queue_ok_def)
  then have next_id: "unat (next_waiter_id s + 1) = Suc (unat (next_waiter_id s))"
    by (subst unat_word_ariths) simp
  with assms show ?thesis
    by (auto simp: queue_ok_def acquire_enter_def sorted_wrt_append word_less_nat_alt)
qed

lemma queue_ok_weaken: "queue_ok s n \<Longrightarrow> queue_ok s (Suc n)"
  by (simp add: queue_ok_def)

lemma queue_ok_round:
  assumes "queue_ok s n" and "acquire_round w t d s = (r, s')"
  shows "queue_ok s' n \<and> next_waiter_id s' = next_waiter_id s \<and> set (queue s') \<subseteq> set (queue s)
    \<and> (r = RoundGranted \<longrightarrow> w \<in> set (queue s) \<and> (\<forall>q \<in> set (queue s'). w < q))"
proof (cases "queue s")
  case Nil
  with assms show ?thesis
    by (auto simp: queue_ok_def acquire_round_def split: if_splits)
next
  case (Cons q qs)
  with assms show ?thesis
    by (auto simp: queue_ok_def acquire_round_def word_less_nat_alt sorted_wrt_filter
        filter_map [symmetric] sorted_wrt_map split: if_splits)
qed

text \<open>From a queue in order, the waiters granted later are all waiting now or not yet numbered, and
  they are granted in the order of their numbers.\<close>

lemma sem_run_fifo:
  assumes "queue_ok s n" and "n + length es < 2 ^ 64" and "sem_run es s = (gs, s')"
  shows "sorted_wrt (<) gs \<and> set gs \<subseteq> set (queue s) \<union> {q. next_waiter_id s \<le> q}"
  using assms
proof (induction es s arbitrary: n gs s' rule: sem_run.induct)
  case (1 s)
  then show ?case by simp
next
  case (2 es s)
  have n: "Suc n < 2 ^ 64" using "2.prems"(2) by simp
  have run: "sem_run es (snd (acquire_enter s)) = (gs, s')" using "2.prems"(3) by simp
  have IH: "sorted_wrt (<) gs \<and> set gs \<subseteq> set (queue (snd (acquire_enter s)))
      \<union> {q. next_waiter_id (snd (acquire_enter s)) \<le> q}"
    using "2.IH" [OF queue_ok_enter [OF "2.prems"(1) n] _ run] "2.prems"(2) by simp
  have "next_waiter_id s \<le> next_waiter_id (snd (acquire_enter s))"
  proof -
    have "unat (next_waiter_id s) < 2 ^ 64 - 1" using "2.prems" by (simp add: queue_ok_def)
    then show ?thesis
      by (auto simp: acquire_enter_def word_le_nat_alt unat_word_ariths)
  qed
  then have "set (queue (snd (acquire_enter s))) \<union> {q. next_waiter_id (snd (acquire_enter s)) \<le> q}
      \<subseteq> set (queue s) \<union> {q. next_waiter_id s \<le> q}"
    by (auto simp: acquire_enter_def split: if_splits)
  with IH show ?case by blast
next
  case (3 es s)
  have "queue_ok (permit_drop s) (Suc n)"
    using "3.prems"(1) by (simp add: queue_ok_def permit_drop_def)
  from "3.IH" [OF this, of gs s'] "3.prems" show ?case
    by (simp add: permit_drop_def)
next
  case (4 w t d es s)
  obtain r s1 where round: "acquire_round w t d s = (r, s1)" by (cases "acquire_round w t d s")
  note after = queue_ok_round [OF "4.prems"(1) round]
  obtain gs1 s2 where rest: "sem_run es s1 = (gs1, s2)" by (cases "sem_run es s1")
  have len: "Suc n + length es < 2 ^ 64" using "4.prems"(2) by simp
  have IH: "sorted_wrt (<) gs1 \<and> set gs1 \<subseteq> set (queue s1) \<union> {q. next_waiter_id s1 \<le> q}"
  proof -
    have ok: "queue_ok s1 (Suc n)" using after queue_ok_weaken by blast
    note go = "4.IH" [OF round [symmetric] _ ok len rest]
    show ?thesis by (cases r) (rule go; assumption)+
  qed
  show ?case
  proof (cases "r = RoundGranted")
    case True
    with "4.prems"(3) round rest have "gs = w # gs1" by simp
    moreover have "w < next_waiter_id s" using after True "4.prems"(1) by (simp add: queue_ok_def)
    ultimately show ?thesis using IH after True by (auto intro: less_le_trans)
  next
    case False
    with "4.prems"(3) round rest have "gs = gs1" by (cases r) auto
    with IH after show ?thesis by auto
  qed
qed

text \<open>A run for the examples: two ordinary openers and one critical one get their permits, the first
  and the last register, a third ordinary opener queues.\<close>

definition sample_holder :: "WorkspaceDatabaseGateKind \<Rightarrow> WorkspaceDatabaseHolder" where
  "sample_holder k = \<lparr>holder_resource = lit ''database'', holder_gate_kind = k,
     holder_acquired_at = 7, caller_file = lit ''lib.rs'', caller_line = 12\<rparr>"

definition sample_gate :: WorkspaceDatabaseGate where
  "sample_gate = enter_ordinary 3 (opener_arrives Ordinary
     (opener_registers 2 Critical (sample_holder Critical) (enter_total 2 Critical
       (opener_arrives Critical (enter_total 1 Ordinary (enter_ordinary 1 (opener_arrives Ordinary
         (opener_registers 0 Ordinary (sample_holder Ordinary) (enter_total 0 Ordinary
           (enter_ordinary 0 (opener_arrives Ordinary gate_new)))))))))))"

lemmas sample_gate_eval = sample_gate_def gate_ops gate_new_def semaphore_new_def acquire_enter_def
  register_holder_def ledger_default_def WORKSPACE_DATABASE_TOTAL_CAPACITY_def
  WORKSPACE_DATABASE_ORDINARY_CAPACITY_def

lemma sample_gate_reachable: "gate_reachable sample_gate"
  unfolding sample_gate_def
  by (rule gate_start gate_next [OF _ arrive] gate_next [OF _ start_ordinary]
      gate_next [OF _ have_ordinary] gate_next [OF _ start_critical] gate_next [OF _ register]
      | simp add: sample_gate_eval)+

lemma sample_gate_openers:
  "openers sample_gate = [PhOpen Ordinary 0, PhPermits Ordinary, PhOpen Critical 1, PhWaitOrdinary 0]"
  by (simp add: sample_gate_eval)

section \<open>Properties\<close>

text \<open>C8: the capacity limits hold under every interleaving. The free permits and the openers that
  hold one always add up to the capacity, so at most three handles are open on a workspace and at
  most two of them are ordinary; and ordinary openers alone never take the last total permit, so
  when no critical opener holds one, a total permit is free.\<close>

theorem gate_capacity:
  assumes "gate_reachable g"
  shows "sem_available (total g) + count_phases holds_total g = WORKSPACE_DATABASE_TOTAL_CAPACITY
    \<and> sem_available (ordinary g) + count_phases holds_ordinary g
        = WORKSPACE_DATABASE_ORDINARY_CAPACITY
    \<and> count_phases is_open g \<le> 3
    \<and> 1 \<le> sem_available (total g) + count_phases holds_critical_total g"
proof -
  have "permits_ok g" using assms by (rule gate_reachable_permits)
  then have tot: "sem_available (total g) + count_phases holds_total g = 3"
    and ord: "sem_available (ordinary g) + count_phases holds_ordinary g = 2"
    by (simp_all add: permits_ok_def sem.balanced_def)
  have "is_open p \<Longrightarrow> holds_total p" for p by (cases p) auto
  then have "count_phases is_open g \<le> count_phases holds_total g" by (rule count_mono)
  with tot ord total_split [of "openers g"] show ?thesis
    by (simp add: WORKSPACE_DATABASE_TOTAL_CAPACITY_def WORKSPACE_DATABASE_ORDINARY_CAPACITY_def)
qed

theorem gate_capacity_witness:
  "gate_reachable sample_gate \<and> count_phases holds_total sample_gate = 3
   \<and> sem_available (total sample_gate) = 0"
  using gate_capacity [OF sample_gate_reachable]
  by (simp add: sample_gate_reachable sample_gate_openers WORKSPACE_DATABASE_TOTAL_CAPACITY_def)

text \<open>The diagnostic summary is complete and honest. Every registered holder belongs to an
  opener whose handle is open (never to one that is being torn down), there are never more
  registered holders than the summary shows, so the summary lists all of them.\<close>

theorem gate_summary_complete:
  assumes "gate_reachable g"
  shows "(\<forall>hid \<in> fst ` set (holders (ledger g)).
            \<exists>i < length (openers g). \<exists>k. openers g ! i = PhOpen k hid)
    \<and> length (holders (ledger g)) \<le> WORKSPACE_DATABASE_TOTAL_CAPACITY
    \<and> set (summary_holders (ledger g)) = set (holders (ledger g))"
proof -
  have ok: "ledger_ok g" using assms by (rule gate_reachable_ledger)
  have "is_open p \<Longrightarrow> holds_total p" for p by (cases p) auto
  then have "count_phases is_open g \<le> count_phases holds_total g" by (rule count_mono)
  moreover have "count_phases holds_total g \<le> 3"
    using gate_reachable_permits [OF assms] by (simp add: permits_ok_def sem.balanced_def)
  ultimately have "length (holders (ledger g)) \<le> 3"
    using ledger_ok_card [OF ok] by linarith
  with ok show ?thesis
    by (simp add: ledger_ok_def summary_holders_def WORKSPACE_DATABASE_TOTAL_CAPACITY_def)
qed

theorem gate_summary_complete_witness:
  "gate_reachable sample_gate \<and> length (holders (ledger sample_gate)) = 2
   \<and> set (summary_holders (ledger sample_gate))
       = {(0, sample_holder Ordinary), (1, sample_holder Critical)}"
  using gate_summary_complete [OF sample_gate_reachable] sample_gate_reachable
  by (auto simp: sample_gate_eval)

text \<open>the semaphore is fair. In any history of fewer than \<open>2 ^ 64\<close> operations from a
  fresh semaphore, the queued waiters are granted their permits in the order in which they were
  queued (their numbers ascend), and nobody overtakes the queue: an entry is granted at once only
  when nobody waits.\<close>

theorem semaphore_fifo:
  assumes "length es < 2 ^ 64" and "sem_run es (semaphore_new cap) = (gs, s)"
  shows "sorted_wrt (<) gs \<and> (fst (acquire_enter s) = EntryGranted \<longrightarrow> queue s = [])"
proof -
  have "queue_ok (semaphore_new cap) 0" by (simp add: queue_ok_def semaphore_new_def)
  from sem_run_fifo [OF this _ assms(2)] assms(1) show ?thesis
    by (simp add: acquire_enter_def split: if_splits)
qed

theorem semaphore_fifo_witness:
  "sorted_wrt (<) [0 :: u64, 1]
   \<and> sem_run [EvEnter, EvEnter, EvEnter, EvRound 1 0 100, EvDrop, EvRound 0 5 100, EvDrop,
        EvRound 1 9 100] (semaphore_new 1)
      = ([0, 1], \<lparr>sem_available = 0, next_waiter_id = 2, queue = []\<rparr>)"
proof -
  have run: "sem_run [EvEnter, EvEnter, EvEnter, EvRound 1 0 100, EvDrop, EvRound 0 5 100, EvDrop,
        EvRound 1 9 100] (semaphore_new 1)
      = ([0, 1], \<lparr>sem_available = 0, next_waiter_id = 2, queue = []\<rparr>)"
    by (simp add: semaphore_new_def acquire_enter_def acquire_round_def permit_drop_def
        sat_add_usize_def usize_MAX_def)
  from semaphore_fifo [OF _ this] run show ?thesis by simp
qed

end
