(* ===== verification/Patch_Parse.thy ===== *)
theory Patch_Parse
  imports Foco_Prelude
begin

text \<open>
  The parser of the \<open>apply_patch\<close> tool (\<open>tools/apply_patch.rs\<close>, \<open>parse_patch\<close> and
  its helpers). The \<open>while\<close> loops of \<open>parse_patch\<close> walk an index over the lines between
  the begin and the end marker; here they are recursions over the list of the lines still ahead,
  which carry the index for the line numbers in the errors. One turn of the outer loop is
  \<open>parse_hunk\<close>, one turn of the loop over an update hunk is \<open>update_line\<close>. Below: a
  printer, and the round trip from a list of hunks to text and back.
\<close>

section \<open>Data\<close>

record UpdateFileChunk =
  change_context :: "rstr option"
  old_lines :: "rstr list"
  new_lines :: "rstr list"
  is_end_of_file :: bool

datatype PatchHunk =
  AddFile rstr rstr
| DeleteFile rstr
| UpdateFile rstr "rstr option" "UpdateFileChunk list"

datatype PatchParseError =
  InvalidPatch rstr
| InvalidHunk nat rstr

fun patch_parse_error_display :: "PatchParseError \<Rightarrow> rstr" where
  "patch_parse_error_display (InvalidPatch m) = lit ''invalid patch: '' @ m"
| "patch_parse_error_display (InvalidHunk n m) =
     lit ''invalid hunk at line '' @ nat_display n @ lit '': '' @ m"

type_synonym ChunkBuilder = UpdateFileChunk

definition chunk_builder_default :: ChunkBuilder where
  "chunk_builder_default =
     \<lparr>change_context = None, old_lines = [], new_lines = [], is_end_of_file = False\<rparr>"

definition into_chunk :: "ChunkBuilder \<Rightarrow> nat \<Rightarrow> PatchParseError + UpdateFileChunk" where
  "into_chunk b line_number =
     (if old_lines b = [] \<and> new_lines b = []
      then Inl (InvalidHunk line_number (lit ''update chunk is empty''))
      else Inr b)"

definition MAX_PATCH_BYTES :: nat where "MAX_PATCH_BYTES = 2 * 1024 * 1024"
definition BEGIN_PATCH_MARKER :: rstr where "BEGIN_PATCH_MARKER = lit ''*** Begin Patch''"
definition END_PATCH_MARKER :: rstr where "END_PATCH_MARKER = lit ''*** End Patch''"
definition ADD_FILE_MARKER :: rstr where "ADD_FILE_MARKER = lit ''*** Add File: ''"
definition DELETE_FILE_MARKER :: rstr where "DELETE_FILE_MARKER = lit ''*** Delete File: ''"
definition UPDATE_FILE_MARKER :: rstr where "UPDATE_FILE_MARKER = lit ''*** Update File: ''"
definition MOVE_TO_MARKER :: rstr where "MOVE_TO_MARKER = lit ''*** Move to: ''"
definition EOF_MARKER :: rstr where "EOF_MARKER = lit ''*** End of File''"

lemmas patch_markers = BEGIN_PATCH_MARKER_def END_PATCH_MARKER_def ADD_FILE_MARKER_def
  DELETE_FILE_MARKER_def UPDATE_FILE_MARKER_def MOVE_TO_MARKER_def EOF_MARKER_def

section \<open>The parser\<close>

definition matches_patch_boundaries :: "rstr list \<Rightarrow> bool" where
  "matches_patch_boundaries ls \<longleftrightarrow>
     ls \<noteq> [] \<and> trim (hd ls) = BEGIN_PATCH_MARKER \<and> trim (last ls) = END_PATCH_MARKER"

definition heredoc_openers :: "rstr list" where
  "heredoc_openers = [lit ''<<EOF'', lit ''<<'' @ [39] @ lit ''EOF'' @ [39],
     lit ''<<'' @ [34] @ lit ''EOF'' @ [34]]"

text \<open>The slice pattern \<open>[first, middle @ .., last]\<close> needs two lines.\<close>

definition unwrap_heredoc :: "rstr list \<Rightarrow> rstr list" where
  "unwrap_heredoc ls =
     (if matches_patch_boundaries ls then ls
      else if length ls \<ge> 2
        \<and> trim (hd ls) \<in> set heredoc_openers
        \<and> ends_with (trim_end (last ls)) (lit ''EOF'')
        \<and> length (butlast (tl ls)) \<ge> 2
      then butlast (tl ls)
      else ls)"

definition first_line_error :: PatchParseError where
  "first_line_error =
     InvalidPatch (lit ''The first line of the patch must be '' @ [39] @ BEGIN_PATCH_MARKER @ [39])"
definition last_line_error :: PatchParseError where
  "last_line_error =
     InvalidPatch (lit ''The last line of the patch must be '' @ [39] @ END_PATCH_MARKER @ [39])"

definition validate_patch_boundaries :: "rstr list \<Rightarrow> PatchParseError + unit" where
  "validate_patch_boundaries ls =
     (if ls = [] then Inl first_line_error
      else if trim (hd ls) \<noteq> BEGIN_PATCH_MARKER then Inl first_line_error
      else if trim (last ls) \<noteq> END_PATCH_MARKER then Inl last_line_error
      else Inr ())"

definition marker_path :: "rstr \<Rightarrow> rstr \<Rightarrow> nat \<Rightarrow> PatchParseError + (rstr \<times> nat)" where
  "marker_path line marker line_number =
     (case strip_prefix line marker of
        Some p \<Rightarrow>
          if trim p \<noteq> [] then Inr (trim p, line_number)
          else Inl (InvalidHunk line_number (marker @ lit '' requires a file path''))
      | None \<Rightarrow> Inl (InvalidHunk line_number (marker @ lit '' requires a file path'')))"

definition is_file_marker :: "rstr \<Rightarrow> bool" where
  "is_file_marker line \<longleftrightarrow>
     starts_with line ADD_FILE_MARKER \<or> starts_with line DELETE_FILE_MARKER
     \<or> starts_with line UPDATE_FILE_MARKER \<or> line = END_PATCH_MARKER"

text \<open>The content lines of an added file: the result is the contents, their number, and where the
  loop stopped.\<close>

fun add_file_lines :: "nat \<Rightarrow> rstr list \<Rightarrow> rstr \<Rightarrow> nat
    \<Rightarrow> PatchParseError + (rstr \<times> nat \<times> nat \<times> rstr list)" where
  "add_file_lines index [] contents count = Inr (contents, count, index, [])"
| "add_file_lines index (l # rest) contents count =
     (if is_file_marker (trim l) then Inr (contents, count, index, l # rest)
      else case strip_prefix l (lit ''+'') of
        None \<Rightarrow> Inl (InvalidHunk (index + 1)
                 (lit ''added file content must start with '' @ [39] @ lit ''+'' @ [39]))
      | Some c \<Rightarrow> add_file_lines (index + 1) rest (contents @ c @ [NL]) (count + 1))"

definition get_or_default :: "ChunkBuilder option \<Rightarrow> ChunkBuilder" where
  "get_or_default c = (case c of None \<Rightarrow> chunk_builder_default | Some b \<Rightarrow> b)"

text \<open>A change line that is no marker, added to the current chunk by its first character.\<close>

definition push_change_line :: "rstr \<Rightarrow> ChunkBuilder \<Rightarrow> ChunkBuilder" where
  "push_change_line l b =
     (if starts_with l (lit ''+'') then b\<lparr>new_lines := new_lines b @ [tl l]\<rparr>
      else if starts_with l (lit ''-'') then b\<lparr>old_lines := old_lines b @ [tl l]\<rparr>
      else if starts_with l (lit '' '')
        then b\<lparr>old_lines := old_lines b @ [tl l], new_lines := new_lines b @ [tl l]\<rparr>
      else b\<lparr>old_lines := old_lines b @ [l], new_lines := new_lines b @ [l]\<rparr>)"

definition is_chunk_header :: "rstr \<Rightarrow> bool" where
  "is_chunk_header t \<longleftrightarrow> t = lit ''@@'' \<or> starts_with t (lit ''@@ '')"

definition chunk_header_context :: "rstr \<Rightarrow> rstr option" where
  "chunk_header_context t =
     (case strip_prefix t (lit ''@@ '') of
        None \<Rightarrow> None | Some c \<Rightarrow> if c = [] then None else Some c)"

type_synonym update_state = "UpdateFileChunk list \<times> ChunkBuilder option \<times> bool"

definition update_line :: "nat \<Rightarrow> rstr \<Rightarrow> update_state \<Rightarrow> PatchParseError + update_state" where
  "update_line index l st =
     (case st of (chunks, current, eof_seen) \<Rightarrow>
        if starts_with (trim l) MOVE_TO_MARKER then
          Inl (InvalidHunk (index + 1) (lit ''Move to must appear directly after Update File''))
        else if trim l = EOF_MARKER then
          (case current of
             None \<Rightarrow> Inl (InvalidHunk (index + 1) (lit ''End of File must follow an update chunk''))
           | Some b \<Rightarrow> Inr (chunks, Some (b\<lparr>is_end_of_file := True\<rparr>), True))
        else if eof_seen then
          Inl (InvalidHunk (index + 1)
            (lit ''End of File must be the last line in an update hunk''))
        else if is_chunk_header (trim l) then
          (let next = chunk_builder_default\<lparr>change_context := chunk_header_context (trim l)\<rparr>
           in case current of
                None \<Rightarrow> Inr (chunks, Some next, eof_seen)
              | Some b \<Rightarrow> (case into_chunk b (index + 1) of
                             Inl e \<Rightarrow> Inl e
                           | Inr c \<Rightarrow> Inr (chunks @ [c], Some next, eof_seen)))
        else Inr (chunks, Some (push_change_line l (get_or_default current)), eof_seen))"

fun update_file_lines :: "nat \<Rightarrow> rstr list \<Rightarrow> update_state
    \<Rightarrow> PatchParseError + (update_state \<times> nat \<times> rstr list)" where
  "update_file_lines index [] st = Inr (st, index, [])"
| "update_file_lines index (l # rest) st =
     (if is_file_marker (trim l) then Inr (st, index, l # rest)
      else case update_line index l st of
        Inl e \<Rightarrow> Inl e
      | Inr st' \<Rightarrow> update_file_lines (index + 1) rest st')"

text \<open>The three kinds of hunk; \<open>index\<close> is the index of the header line, \<open>rest\<close> the lines
  after it.\<close>

definition parse_add_file ::
    "nat \<Rightarrow> rstr \<Rightarrow> rstr list \<Rightarrow> PatchParseError + (PatchHunk \<times> nat \<times> rstr list)" where
  "parse_add_file index header rest =
     (case marker_path header ADD_FILE_MARKER (index + 1) of
        Inl e \<Rightarrow> Inl e
      | Inr (path, header_line) \<Rightarrow>
          (case add_file_lines (index + 1) rest [] 0 of
             Inl e \<Rightarrow> Inl e
           | Inr (contents, count, index', rest') \<Rightarrow>
               if count = 0 then
                 Inl (InvalidHunk header_line (lit ''Add file hunk for path '' @ [39] @ path @ [39]
                   @ lit '' is empty''))
               else Inr (AddFile path contents, index', rest')))"

definition parse_delete_file ::
    "nat \<Rightarrow> rstr \<Rightarrow> rstr list \<Rightarrow> PatchParseError + (PatchHunk \<times> nat \<times> rstr list)" where
  "parse_delete_file index header rest =
     (case marker_path header DELETE_FILE_MARKER (index + 1) of
        Inl e \<Rightarrow> Inl e
      | Inr (path, _) \<Rightarrow>
          if rest \<noteq> [] \<and> \<not> is_file_marker (trim (hd rest)) then
            Inl (InvalidHunk (index + 2) (lit ''Delete file hunk must not contain change lines''))
          else Inr (DeleteFile path, index + 1, rest))"

definition parse_move_to ::
    "nat \<Rightarrow> rstr list \<Rightarrow> PatchParseError + (rstr option \<times> nat \<times> rstr list)" where
  "parse_move_to index rest =
     (if rest \<noteq> [] \<and> starts_with (trim (hd rest)) MOVE_TO_MARKER then
        (case marker_path (trim (hd rest)) MOVE_TO_MARKER (index + 1) of
           Inl e \<Rightarrow> Inl e
         | Inr (destination, _) \<Rightarrow> Inr (Some destination, index + 1, tl rest))
      else Inr (None, index, rest))"

definition finish_chunks :: "nat \<Rightarrow> update_state \<Rightarrow> PatchParseError + UpdateFileChunk list" where
  "finish_chunks index st =
     (case st of (chunks, current, _) \<Rightarrow>
        (case current of
           None \<Rightarrow> Inr chunks
         | Some b \<Rightarrow> (case into_chunk b (index + 1) of
                        Inl e \<Rightarrow> Inl e
                      | Inr c \<Rightarrow> Inr (chunks @ [c]))))"

definition parse_update_file ::
    "nat \<Rightarrow> rstr \<Rightarrow> rstr list \<Rightarrow> PatchParseError + (PatchHunk \<times> nat \<times> rstr list)" where
  "parse_update_file index header rest =
     (case marker_path header UPDATE_FILE_MARKER (index + 1) of
        Inl e \<Rightarrow> Inl e
      | Inr (path, header_line) \<Rightarrow>
          (case parse_move_to (index + 1) rest of
             Inl e \<Rightarrow> Inl e
           | Inr (move_path, index1, rest1) \<Rightarrow>
               (case update_file_lines index1 rest1 ([], None, False) of
                  Inl e \<Rightarrow> Inl e
                | Inr (st, index2, rest2) \<Rightarrow>
                    (case finish_chunks index2 st of
                       Inl e \<Rightarrow> Inl e
                     | Inr chunks \<Rightarrow>
                         if chunks = [] then
                           Inl (InvalidHunk header_line (lit ''Update file hunk for path '' @ [39]
                             @ path @ [39] @ lit '' is empty''))
                         else Inr (UpdateFile path move_path chunks, index2, rest2)))))"

definition parse_hunk ::
    "nat \<Rightarrow> rstr \<Rightarrow> rstr list \<Rightarrow> PatchParseError + (PatchHunk \<times> nat \<times> rstr list)" where
  "parse_hunk index line rest =
     (if starts_with (trim line) ADD_FILE_MARKER then parse_add_file index (trim line) rest
      else if starts_with (trim line) DELETE_FILE_MARKER
        then parse_delete_file index (trim line) rest
      else if starts_with (trim line) UPDATE_FILE_MARKER
        then parse_update_file index (trim line) rest
      else Inl (InvalidHunk (index + 1) (lit ''unexpected patch marker '' @ [39] @ line @ [39])))"

lemma add_file_lines_rest:
  "add_file_lines i ls c n = Inr (c', n', i', rest) \<Longrightarrow> length rest \<le> length ls"
  by (induction i ls c n rule: add_file_lines.induct) (auto split: if_splits option.splits)

lemma update_file_lines_rest:
  "update_file_lines i ls st = Inr (st', i', rest) \<Longrightarrow> length rest \<le> length ls"
  by (induction i ls st rule: update_file_lines.induct) (fastforce split: if_splits sum.splits)+

lemma parse_hunk_rest:
  "parse_hunk i l ls = Inr (h, i', rest) \<Longrightarrow> length rest \<le> length ls"
  by (auto simp: parse_hunk_def parse_add_file_def parse_delete_file_def parse_update_file_def
      parse_move_to_def split: if_splits sum.splits prod.splits
      dest!: add_file_lines_rest update_file_lines_rest)

function parse_hunks :: "nat \<Rightarrow> rstr list \<Rightarrow> PatchHunk list \<Rightarrow> PatchParseError + PatchHunk list" where
  "parse_hunks index [] hunks = Inr hunks"
| "parse_hunks index (line # rest) hunks =
     (case parse_hunk index line rest of
        Inl e \<Rightarrow> Inl e
      | Inr (h, index', rest') \<Rightarrow> parse_hunks index' rest' (hunks @ [h]))"
  by pat_completeness auto
termination
  by (relation "measure (\<lambda>(_, ls, _). length ls)") (auto dest!: parse_hunk_rest)

definition parse_patch :: "rstr \<Rightarrow> PatchParseError + PatchHunk list" where
  "parse_patch patch =
     (if patch = [] then Inl (InvalidPatch (lit ''patch must not be empty''))
      else if str_len patch > MAX_PATCH_BYTES then
        Inl (InvalidPatch (lit ''patch exceeds the '' @ nat_display MAX_PATCH_BYTES
          @ lit ''-byte input limit''))
      else
        (let ls = unwrap_heredoc (map drop_cr (str_lines (trim patch)))
         in case validate_patch_boundaries ls of
              Inl e \<Rightarrow> Inl e
            | Inr _ \<Rightarrow> parse_hunks 1 (butlast (tl ls)) []))"

section \<open>A printer and the hunks a patch can hold\<close>

definition line_ok :: "rstr \<Rightarrow> bool" where
  "line_ok l \<longleftrightarrow> NL \<notin> set l \<and> (l = [] \<or> last l \<noteq> CR)"

definition path_ok :: "rstr \<Rightarrow> bool" where
  "path_ok p \<longleftrightarrow> p \<noteq> [] \<and> trim p = p"

definition chunk_ok :: "UpdateFileChunk \<Rightarrow> bool" where
  "chunk_ok c \<longleftrightarrow>
     (old_lines c \<noteq> [] \<or> new_lines c \<noteq> [])
     \<and> (\<forall>x. change_context c = Some x \<longrightarrow> x \<noteq> [] \<and> trim_end x = x)"

fun hunk_ok :: "PatchHunk \<Rightarrow> bool" where
  "hunk_ok (AddFile p c) \<longleftrightarrow> path_ok p \<and> c \<noteq> [] \<and> last c = NL"
| "hunk_ok (DeleteFile p) \<longleftrightarrow> path_ok p"
| "hunk_ok (UpdateFile p m cs) \<longleftrightarrow>
     path_ok p \<and> (\<forall>d. m = Some d \<longrightarrow> path_ok d) \<and> cs \<noteq> [] \<and> list_all chunk_ok cs
     \<and> list_all (\<lambda>c. \<not> is_end_of_file c) (butlast cs)"

fun hunk_lines :: "PatchHunk \<Rightarrow> rstr list" where
  "hunk_lines (AddFile p c) = p # split_on NL (butlast c)"
| "hunk_lines (DeleteFile p) = [p]"
| "hunk_lines (UpdateFile p m cs) =
     p # (case m of None \<Rightarrow> [] | Some d \<Rightarrow> [d])
     @ concat (map (\<lambda>c. (case change_context c of None \<Rightarrow> [] | Some x \<Rightarrow> [x])
                        @ old_lines c @ new_lines c) cs)"

definition printable :: "PatchHunk \<Rightarrow> bool" where
  "printable h \<longleftrightarrow> hunk_ok h \<and> list_all line_ok (hunk_lines h)"

definition chunk_header :: "rstr option \<Rightarrow> rstr" where
  "chunk_header ctx = (case ctx of None \<Rightarrow> lit ''@@'' | Some x \<Rightarrow> lit ''@@ '' @ x)"

definition render_chunk :: "UpdateFileChunk \<Rightarrow> rstr list" where
  "render_chunk c =
     chunk_header (change_context c)
     # map (\<lambda>l. lit ''-'' @ l) (old_lines c) @ map (\<lambda>l. lit ''+'' @ l) (new_lines c)
     @ (if is_end_of_file c then [EOF_MARKER] else [])"

fun render_hunk :: "PatchHunk \<Rightarrow> rstr list" where
  "render_hunk (AddFile p c) =
     (ADD_FILE_MARKER @ p) # map (\<lambda>l. lit ''+'' @ l) (split_on NL (butlast c))"
| "render_hunk (DeleteFile p) = [DELETE_FILE_MARKER @ p]"
| "render_hunk (UpdateFile p m cs) =
     (UPDATE_FILE_MARKER @ p) # (case m of None \<Rightarrow> [] | Some d \<Rightarrow> [MOVE_TO_MARKER @ d])
     @ concat (map render_chunk cs)"

definition render_patch :: "PatchHunk list \<Rightarrow> rstr" where
  "render_patch hs =
     join [NL] (BEGIN_PATCH_MARKER # concat (map render_hunk hs) @ [END_PATCH_MARKER])"

section \<open>Trimmed lines and markers\<close>

lemma is_whitespace_markers [simp]:
  "\<not> is_whitespace 42" "\<not> is_whitespace 43" "\<not> is_whitespace 45" "\<not> is_whitespace 64"
  "\<not> is_whitespace 104" "\<not> is_whitespace 101"
  by (simp_all add: is_whitespace_def)

lemma trim_end_snoc: "\<not> is_whitespace c \<Longrightarrow> trim_end (s @ [c]) = s @ [c]"
  by (simp add: trim_end_def)

lemma trim_end_Cons: "\<not> is_whitespace c \<Longrightarrow> trim_end (c # s) = c # trim_end s"
  by (simp add: trim_end_def dropWhile_append3)

lemma trim_Cons: "\<not> is_whitespace c \<Longrightarrow> trim (c # s) = c # trim_end s"
  by (simp add: trim_def trim_start_def trim_end_Cons)

lemma trim_end_last: "trim_end s = s \<Longrightarrow> s \<noteq> [] \<Longrightarrow> \<not> is_whitespace (last s)"
  unfolding trim_end_def
  by (metis hd_dropWhile hd_rev rev_is_Nil_conv rev_rev_ident)

lemma trim_end_append_fixed: "b \<noteq> [] \<Longrightarrow> trim_end b = b \<Longrightarrow> trim_end (a @ b) = a @ b"
  using trim_end_last [of b] trim_end_snoc [of "last b" "a @ butlast b"] by simp

lemma trim_fixed_end: "trim s = s \<Longrightarrow> trim_end s = s"
proof -
  assume s: "trim s = s"
  have "length (trim_start s) \<le> length s" by (simp add: trim_start_def length_dropWhile_le)
  moreover have "length (trim_end t) \<le> length t" for t
    by (simp add: trim_end_def) (metis length_dropWhile_le length_rev)
  ultimately have "length (trim_start s) = length s"
    using s unfolding trim_def by (metis le_antisym)
  then have "trim_start s = s"
    unfolding trim_start_def by (metis append_self_conv2 length_append add_cancel_left_left
        length_0_conv takeWhile_dropWhile_id)
  with s show ?thesis by (simp add: trim_def)
qed

lemma trim_marker_path: "path_ok p \<Longrightarrow> trim (42 # m @ p) = 42 # m @ p"
  using trim_end_append_fixed [of p m]
  by (simp add: path_ok_def trim_Cons trim_fixed_end)

lemmas marker_eval = patch_markers starts_with_def lit_def is_file_marker_def is_chunk_header_def

lemma marker_not_change [simp]:
  "\<not> is_file_marker (43 # t)" "\<not> is_file_marker (45 # t)" "\<not> is_file_marker (64 # t)"
  "\<not> starts_with (43 # t) MOVE_TO_MARKER" "\<not> starts_with (45 # t) MOVE_TO_MARKER"
  "\<not> starts_with (64 # t) MOVE_TO_MARKER"
  "43 # t \<noteq> EOF_MARKER" "45 # t \<noteq> EOF_MARKER" "64 # t \<noteq> EOF_MARKER"
  "\<not> is_chunk_header (43 # t)" "\<not> is_chunk_header (45 # t)"
  by (simp_all add: marker_eval)

lemma lit_change [simp]: "lit ''+'' = [43]" "lit ''-'' = [45]" "lit '' '' = [32]" "lit ''@@'' = [64, 64]"
  "lit ''@@ '' = [64, 64, 32]"
  by (simp_all add: lit_def)

section \<open>Parsing what was printed\<close>

lemma append_singleton [simp]: "(@) [x] = (#) x"
  by (rule ext) simp

definition stops :: "rstr list \<Rightarrow> bool" where
  "stops tail \<longleftrightarrow> tail = [] \<or> is_file_marker (trim (hd tail))"

definition full_builder :: "ChunkBuilder option \<Rightarrow> bool" where
  "full_builder cur \<longleftrightarrow> (\<forall>b. cur = Some b \<longrightarrow> old_lines b \<noteq> [] \<or> new_lines b \<noteq> [])"

definition flush :: "UpdateFileChunk list \<Rightarrow> ChunkBuilder option \<Rightarrow> UpdateFileChunk list" where
  "flush cs cur = cs @ (case cur of None \<Rightarrow> [] | Some b \<Rightarrow> [b])"

lemma add_file_lines_render:
  "stops tail \<Longrightarrow> add_file_lines i (map (\<lambda>l. 43 # l) ls @ tail) c n
     = Inr (c @ concat (map (\<lambda>l. l @ [NL]) ls), n + length ls, i + length ls, tail)"
proof (induction ls arbitrary: i c n)
  case Nil
  then show ?case by (cases tail) (simp_all add: stops_def)
next
  case (Cons l ls)
  then show ?case by (simp add: trim_Cons strip_prefix_def starts_with_def)
qed

lemma concat_lines: "ps \<noteq> [] \<Longrightarrow> concat (map (\<lambda>l. l @ [c]) ps) = join [c] ps @ [c]"
  by (induction "[c]" ps rule: join.induct) auto

lemma concat_split_butlast:
  "c \<noteq> [] \<Longrightarrow> last c = NL \<Longrightarrow> concat (map (\<lambda>l. l @ [NL]) (split_on NL (butlast c))) = c"
  by (simp add: concat_lines join_split_on) (metis append_butlast_last_id)

lemma update_file_lines_stop: "stops tail \<Longrightarrow> update_file_lines i tail st = Inr (st, i, tail)"
  by (cases tail) (simp_all add: stops_def)

lemma push_change_line_simps [simp]:
  "push_change_line (45 # l) b = b\<lparr>old_lines := old_lines b @ [l]\<rparr>"
  "push_change_line (43 # l) b = b\<lparr>new_lines := new_lines b @ [l]\<rparr>"
  by (simp_all add: push_change_line_def starts_with_def)

lemma update_file_lines_old:
  "update_file_lines i (map (\<lambda>l. 45 # l) ls @ rest) (cs, Some b, False)
   = update_file_lines (i + length ls) rest (cs, Some (b\<lparr>old_lines := old_lines b @ ls\<rparr>), False)"
  by (induction ls arbitrary: i b)
    (simp_all add: trim_Cons update_line_def get_or_default_def)

lemma update_file_lines_new:
  "update_file_lines i (map (\<lambda>l. 43 # l) ls @ rest) (cs, Some b, False)
   = update_file_lines (i + length ls) rest (cs, Some (b\<lparr>new_lines := new_lines b @ ls\<rparr>), False)"
  by (induction ls arbitrary: i b)
    (simp_all add: trim_Cons update_line_def get_or_default_def)

lemma chunk_header_trim:
  assumes "chunk_ok c"
  shows "is_chunk_header (trim (chunk_header (change_context c)))
    \<and> chunk_header_context (trim (chunk_header (change_context c))) = change_context c"
proof (cases "change_context c")
  case None
  then show ?thesis
    by (simp add: chunk_header_def is_chunk_header_def chunk_header_context_def strip_prefix_def starts_with_def
        trim_Cons trim_end_def)
next
  case (Some x)
  with assms have "x \<noteq> []" "trim_end ([64, 32] @ x) = [64, 32] @ x"
    by (auto simp: chunk_ok_def simp del: append_Cons intro!: trim_end_append_fixed)
  with Some show ?thesis
    by (simp add: chunk_header_def is_chunk_header_def chunk_header_context_def strip_prefix_def starts_with_def
        trim_Cons)
qed

lemma trim_header_Cons:
  "\<exists>t. trim (chunk_header ctx) = 64 # t"
  by (cases ctx) (simp_all add: chunk_header_def trim_Cons)

lemma update_line_header:
  assumes "chunk_ok c" and "full_builder cur"
  shows "update_line i (chunk_header (change_context c))
      (cs, cur, False)
    = Inr (flush cs cur, Some (chunk_builder_default\<lparr>change_context := change_context c\<rparr>), False)"
proof -
  let ?h = "chunk_header (change_context c)"
  obtain t where t: "trim ?h = 64 # t" using trim_header_Cons by blast
  then have no: "\<not> starts_with (trim ?h) MOVE_TO_MARKER" "trim ?h \<noteq> EOF_MARKER" by simp_all
  show ?thesis
    using assms(2) no chunk_header_trim [OF assms(1)]
    by (auto simp: update_line_def flush_def full_builder_def into_chunk_def split: option.split)
qed

lemma trim_EOF_MARKER [simp]: "trim EOF_MARKER = EOF_MARKER" "\<not> is_file_marker EOF_MARKER"
  "\<not> starts_with EOF_MARKER MOVE_TO_MARKER"
  by (simp_all add: marker_eval trim_def trim_start_def trim_end_def)

lemma update_line_EOF: "update_line i EOF_MARKER (cs, Some b, False)
   = Inr (cs, Some (b\<lparr>is_end_of_file := True\<rparr>), True)"
  by (simp add: update_line_def)

lemma update_file_lines_chunk:
  assumes "chunk_ok c" and "full_builder cur"
  shows "update_file_lines i (render_chunk c @ rest) (cs, cur, False)
    = update_file_lines (i + length (render_chunk c)) rest
        (flush cs cur, Some c, is_end_of_file c)"
proof -
  let ?h = "chunk_header (change_context c)"
  obtain t where "trim ?h = 64 # t" using trim_header_Cons by blast
  then have "\<not> is_file_marker (trim ?h)" by simp
  with update_line_header [OF assms] show ?thesis
    by (cases c) (simp add: render_chunk_def update_file_lines_old update_file_lines_new
        chunk_builder_default_def update_line_EOF add.assoc)
qed

lemma full_builder_ok: "chunk_ok c \<Longrightarrow> full_builder (Some c)"
  by (simp add: full_builder_def chunk_ok_def)

lemma update_file_lines_chunks:
  assumes "xs \<noteq> []" and "list_all chunk_ok xs" and "list_all (\<lambda>c. \<not> is_end_of_file c) (butlast xs)"
    and "full_builder cur" and "stops tail"
  shows "update_file_lines i (concat (map render_chunk xs) @ tail) (cs, cur, False)
    = Inr ((flush cs cur @ butlast xs, Some (last xs), is_end_of_file (last xs)),
           i + length (concat (map render_chunk xs)), tail)"
  using assms
proof (induction xs arbitrary: i cs cur)
  case Nil
  then show ?case by simp
next
  case (Cons x xs)
  show ?case
  proof (cases "xs = []")
    case True
    with Cons.prems show ?thesis by (simp add: update_file_lines_chunk update_file_lines_stop)
  next
    case False
    with Cons.prems have "\<not> is_end_of_file x" "chunk_ok x" by simp_all
    moreover have "flush (flush cs cur) (Some x) = flush cs cur @ [x]" by (simp add: flush_def)
    ultimately show ?thesis
      using Cons False by (simp add: update_file_lines_chunk full_builder_ok add.assoc)
  qed
qed

lemma marker_Cons:
  "\<exists>m. ADD_FILE_MARKER = 42 # m" "\<exists>m. DELETE_FILE_MARKER = 42 # m" "\<exists>m. UPDATE_FILE_MARKER = 42 # m"
  "\<exists>m. MOVE_TO_MARKER = 42 # m"
  by (simp_all add: patch_markers lit_def)

lemma trim_marker: "path_ok p \<Longrightarrow> \<exists>m. k = 42 # m \<Longrightarrow> trim (k @ p) = k @ p"
  by (auto simp: trim_marker_path)

lemma trim_path_line:
  assumes "path_ok p"
  shows "trim (ADD_FILE_MARKER @ p) = ADD_FILE_MARKER @ p"
    "trim (DELETE_FILE_MARKER @ p) = DELETE_FILE_MARKER @ p"
    "trim (UPDATE_FILE_MARKER @ p) = UPDATE_FILE_MARKER @ p"
    "trim (MOVE_TO_MARKER @ p) = MOVE_TO_MARKER @ p"
  by (simp_all add: trim_marker assms marker_Cons)

lemma marker_path_line: "path_ok p \<Longrightarrow> marker_path (m @ p) m n = Inr (p, n)"
  by (simp add: marker_path_def path_ok_def)

lemma markers_disjoint [simp]:
  "\<not> starts_with (DELETE_FILE_MARKER @ p) ADD_FILE_MARKER"
  "\<not> starts_with (UPDATE_FILE_MARKER @ p) ADD_FILE_MARKER"
  "\<not> starts_with (UPDATE_FILE_MARKER @ p) DELETE_FILE_MARKER"
  by (simp_all add: marker_eval)

lemma chunks_not_move:
  assumes "cs \<noteq> []"
  shows "\<not> starts_with (trim (hd (concat (map render_chunk cs) @ tail))) MOVE_TO_MARKER"
proof -
  obtain c cs' where cs: "cs = c # cs'" using assms by (cases cs) auto
  obtain t where "trim (chunk_header (change_context c)) = 64 # t"
    using trim_header_Cons by blast
  then show ?thesis by (simp add: cs render_chunk_def)
qed

lemma parse_move_to_render:
  assumes "\<forall>d. m = Some d \<longrightarrow> path_ok d" and "cs \<noteq> []"
  shows "parse_move_to i ((case m of None \<Rightarrow> [] | Some d \<Rightarrow> [MOVE_TO_MARKER @ d])
      @ concat (map render_chunk cs) @ tail)
    = Inr (m, i + length (case m of None \<Rightarrow> [] | Some d \<Rightarrow> [MOVE_TO_MARKER @ d]),
           concat (map render_chunk cs) @ tail)"
proof (cases m)
  case None
  with chunks_not_move [OF assms(2), of tail] show ?thesis
    by (simp add: parse_move_to_def)
next
  case (Some d)
  with assms(1) show ?thesis
    by (simp add: parse_move_to_def trim_path_line marker_path_line)
qed

text \<open>One hunk, printed, is read back whatever follows it.\<close>

lemma parse_hunk_render:
  assumes "hunk_ok h" and "stops tail" and "render_hunk h = l # ls"
  shows "parse_hunk i l (ls @ tail) = Inr (h, i + length (render_hunk h), tail)"
proof (cases h)
  case (AddFile p c)
  with assms show ?thesis
    by (auto simp: parse_hunk_def parse_add_file_def trim_path_line marker_path_line
        add_file_lines_render concat_split_butlast)
next
  case (DeleteFile p)
  with assms show ?thesis
    by (auto simp: parse_hunk_def parse_delete_file_def trim_path_line marker_path_line stops_def)
next
  case (UpdateFile p m cs)
  with assms(1) have ok: "path_ok p" "\<forall>d. m = Some d \<longrightarrow> path_ok d" "cs \<noteq> []" "list_all chunk_ok cs"
    "list_all (\<lambda>c. \<not> is_end_of_file c) (butlast cs)"
    by simp_all
  have "full_builder None" by (simp add: full_builder_def)
  note chunks = update_file_lines_chunks [OF ok(3-5) this assms(2)]
  have "chunk_ok (last cs)" using ok(3,4) by (simp add: list_all_iff)
  then have "into_chunk (last cs) n = Inr (last cs)" for n
    by (auto simp: into_chunk_def chunk_ok_def)
  with UpdateFile assms(3) ok show ?thesis
    by (auto simp: parse_hunk_def parse_update_file_def trim_path_line marker_path_line
        parse_move_to_render chunks finish_chunks_def flush_def)
qed

lemma render_hunk_not_Nil: "render_hunk h \<noteq> []"
  by (cases h) simp_all

lemma stops_render: "list_all hunk_ok hs \<Longrightarrow> stops (concat (map render_hunk hs))"
proof (cases hs)
  case Nil
  then show ?thesis by (simp add: stops_def)
next
  case (Cons h hs')
  moreover assume "list_all hunk_ok hs"
  ultimately show ?thesis
    by (cases h) (simp_all add: stops_def trim_path_line is_file_marker_def)
qed

lemma parse_hunks_render:
  "list_all hunk_ok hs \<Longrightarrow> parse_hunks i (concat (map render_hunk hs)) acc = Inr (acc @ hs)"
proof (induction hs arbitrary: i acc)
  case Nil
  then show ?case by simp
next
  case (Cons h hs)
  obtain l ls where h: "render_hunk h = l # ls" using render_hunk_not_Nil by (cases "render_hunk h") auto
  with Cons show ?case
    using parse_hunk_render [OF _ stops_render h, of hs i] by simp
qed

lemma line_ok_drop_cr: "line_ok l \<Longrightarrow> drop_cr l = l"
  by (cases l rule: rev_cases)
    (auto simp: line_ok_def drop_cr_def strip_suffix_def ends_with_def)

lemma line_ok_append:
  "line_ok l \<Longrightarrow> m \<noteq> [] \<Longrightarrow> line_ok m \<Longrightarrow> line_ok (m @ l)"
  by (cases "l = []") (auto simp: line_ok_def)

lemma line_ok_marker [simp]: "line_ok ADD_FILE_MARKER" "line_ok DELETE_FILE_MARKER"
  "line_ok UPDATE_FILE_MARKER" "line_ok MOVE_TO_MARKER" "line_ok EOF_MARKER"
  "line_ok BEGIN_PATCH_MARKER" "line_ok END_PATCH_MARKER" "line_ok [64, 64, 32]" "line_ok [64, 64]"
  "line_ok [43]" "line_ok [45]"
  by (simp_all add: line_ok_def patch_markers lit_def NL_def CR_def)

lemma marker_not_Nil [simp]: "ADD_FILE_MARKER \<noteq> []" "DELETE_FILE_MARKER \<noteq> []"
  "UPDATE_FILE_MARKER \<noteq> []" "MOVE_TO_MARKER \<noteq> []"
  by (simp_all add: patch_markers)

lemma line_ok_sign: "line_ok l \<Longrightarrow> line_ok (45 # l)" "line_ok l \<Longrightarrow> line_ok (43 # l)"
  using line_ok_append [of l "[45]"] line_ok_append [of l "[43]"] by simp_all

lemma line_ok_chunk:
  assumes "list_all line_ok ((case change_context c of None \<Rightarrow> [] | Some x \<Rightarrow> [x])
      @ old_lines c @ new_lines c)"
  shows "list_all line_ok (render_chunk c)"
  using assms line_ok_append [of _ "[64, 64, 32]"]
  by (auto simp: render_chunk_def chunk_header_def list_all_iff line_ok_sign split: option.splits)

lemma line_ok_render: "printable h \<Longrightarrow> list_all line_ok (render_hunk h)"
proof (cases h)
  case (AddFile p c)
  moreover assume "printable h"
  ultimately show ?thesis
    by (auto simp: printable_def list_all_iff line_ok_sign line_ok_append)
next
  case (DeleteFile p)
  moreover assume "printable h"
  ultimately show ?thesis by (simp add: printable_def line_ok_append)
next
  case (UpdateFile p m cs)
  moreover assume "printable h"
  ultimately have "line_ok p" "\<forall>d. m = Some d \<longrightarrow> line_ok d"
    "list_all (\<lambda>c. list_all line_ok ((case change_context c of None \<Rightarrow> [] | Some x \<Rightarrow> [x])
      @ old_lines c @ new_lines c)) cs"
    by (auto simp: printable_def list_all_iff)
  then have "line_ok p" "\<forall>d. m = Some d \<longrightarrow> line_ok d" "list_all (\<lambda>c. list_all line_ok (render_chunk c)) cs"
    using line_ok_chunk by (auto intro: list.pred_mono_strong)
  then show ?thesis
    using UpdateFile by (auto simp: list_all_iff line_ok_append split: option.split)
qed

text \<open>The lines of a joined text are the lines that were joined.\<close>

lemma str_lines_join:
  assumes "ls \<noteq> []" and "list_all line_ok ls" and "last ls \<noteq> []"
  shows "map drop_cr (str_lines (join [NL] ls)) = ls"
proof -
  have split: "split_on NL (join [NL] ls) = ls"
    using assms by (intro split_on_join) (auto simp: list_all_iff line_ok_def)
  have same: "map drop_cr xs = xs" if "list_all line_ok xs" for xs
    using that by (simp add: list_all_iff line_ok_drop_cr map_idI)
  have "list_all line_ok (butlast ls)" "line_ok (last ls)"
    using assms by (auto simp: list_all_iff dest: in_set_butlastD)
  with assms show ?thesis
    by (simp add: str_lines_def split same)
qed

lemma join_snoc: "xs \<noteq> [] \<Longrightarrow> join sep (xs @ [x]) = join sep xs @ sep @ x"
  by (induction sep xs rule: join.induct) auto

lemma join_Cons_hd: "\<exists>u. join sep ((x # xs) # ls) = x # u"
  by (cases ls) auto

lemma join_Cons_not_Nil: "join sep ((x # xs) # ls) \<noteq> []"
  by (cases ls) auto

lemma trim_render_patch: "trim (render_patch hs) = render_patch hs"
proof -
  obtain b e where b: "BEGIN_PATCH_MARKER = 42 # b" and e: "END_PATCH_MARKER = e @ [104]"
    by (simp add: patch_markers lit_def)
  have "render_patch hs = join [NL] (BEGIN_PATCH_MARKER # concat (map render_hunk hs)) @ [NL] @ END_PATCH_MARKER"
    using join_snoc [of "BEGIN_PATCH_MARKER # concat (map render_hunk hs)" "[NL]"]
    by (simp add: render_patch_def)
  then obtain s where s: "render_patch hs = s @ [104]" by (simp add: e)
  have "\<exists>u. render_patch hs = 42 # u"
    by (simp add: render_patch_def b join_Cons_hd)
  then obtain u where u: "render_patch hs = 42 # u" by blast
  have "trim_start (render_patch hs) = render_patch hs" by (simp add: u trim_start_def)
  then show ?thesis by (simp add: trim_def s trim_end_snoc)
qed

section \<open>Every parsed hunk is well formed\<close>

lemma trim_end_idem [simp]: "trim_end (trim_end s) = trim_end s"
  by (simp add: trim_end_def)

lemma trim_end_trim [simp]: "trim_end (trim s) = trim s"
  by (simp add: trim_def)

lemma trim_idem [simp]: "trim (trim s) = trim s"
proof (cases "trim_start s")
  case Nil
  then have "trim s = []" by (simp add: trim_def trim_end_def)
  moreover have "trim [] = []" by (simp add: trim_def trim_start_def trim_end_def)
  ultimately show ?thesis by simp
next
  case (Cons c t)
  then have "\<not> is_whitespace c"
    unfolding trim_start_def by (metis hd_dropWhile list.distinct(1) list.sel(1))
  with Cons show ?thesis
    by (metis trim_Cons trim_def trim_end_Cons trim_end_idem)
qed

lemma trim_end_suffix: "trim_end (a @ b) = a @ b \<Longrightarrow> trim_end b = b"
  using trim_end_last [of "a @ b"] trim_end_snoc [of "last b" "butlast b"]
  by (cases "b = []") (auto simp: trim_end_def)

lemma marker_path_ok: "marker_path l m n = Inr (p, k) \<Longrightarrow> path_ok p"
  by (auto simp: marker_path_def path_ok_def split: option.splits if_splits)

lemma add_file_lines_contents:
  "add_file_lines i ls c n = Inr (c', n', i', rest) \<Longrightarrow> n = 0 \<or> (c \<noteq> [] \<and> last c = NL)
     \<Longrightarrow> n' = 0 \<or> (c' \<noteq> [] \<and> last c' = NL)"
  by (induction i ls c n rule: add_file_lines.induct) (auto split: if_splits option.splits)

definition update_state_ok :: "update_state \<Rightarrow> bool" where
  "update_state_ok st \<longleftrightarrow>
     (case st of (chunks, current, eof_seen) \<Rightarrow>
        list_all (\<lambda>c. chunk_ok c \<and> \<not> is_end_of_file c) chunks
        \<and> (\<forall>b. current = Some b \<longrightarrow>
             (\<forall>x. change_context b = Some x \<longrightarrow> x \<noteq> [] \<and> trim_end x = x)
             \<and> (is_end_of_file b \<longrightarrow> eof_seen)))"

lemma chunk_header_context_ok:
  assumes "chunk_header_context (trim l) = Some x"
  shows "x \<noteq> [] \<and> trim_end x = x"
proof -
  have x: "trim l = [64, 64, 32] @ x" "x \<noteq> []"
    using assms
    by (auto simp: chunk_header_context_def strip_prefix_Some_iff split: option.splits if_splits)
  then have "trim_end ([64, 64, 32] @ x) = [64, 64, 32] @ x" by (metis trim_end_trim)
  then show ?thesis using x(2) trim_end_suffix by blast
qed

lemma push_change_line_frame [simp]:
  "change_context (push_change_line l b) = change_context b"
  "is_end_of_file (push_change_line l b) = is_end_of_file b"
  by (simp_all add: push_change_line_def)

lemma into_chunk_Inr: "into_chunk b n = Inr c \<longleftrightarrow> c = b \<and> (old_lines b \<noteq> [] \<or> new_lines b \<noteq> [])"
  by (auto simp: into_chunk_def)

lemma update_line_ok:
  assumes "update_line i l st = Inr st'" and "update_state_ok st"
  shows "update_state_ok st'"
proof -
  obtain chunks current eof where st: "st = (chunks, current, eof)" by (cases st)
  show ?thesis
    using assms chunk_header_context_ok [of l]
    by (auto simp: st update_line_def update_state_ok_def chunk_builder_default_def Let_def
        get_or_default_def into_chunk_Inr chunk_ok_def
        split: if_splits option.splits sum.splits)
qed

lemma update_file_lines_ok:
  "update_file_lines i ls st = Inr (st', i', rest) \<Longrightarrow> update_state_ok st \<Longrightarrow> update_state_ok st'"
proof (induction i ls st rule: update_file_lines.induct)
  case (2 i l ls st)
  then show ?case by (auto split: if_splits sum.splits dest: update_line_ok)
qed simp

lemma finish_chunks_ok:
  "finish_chunks i st = Inr cs \<Longrightarrow> update_state_ok st \<Longrightarrow>
     list_all chunk_ok cs \<and> list_all (\<lambda>c. \<not> is_end_of_file c) (butlast cs)"
  by (auto simp: finish_chunks_def update_state_ok_def into_chunk_Inr chunk_ok_def list_all_iff
      split: prod.splits option.splits sum.splits dest: in_set_butlastD)

lemma parse_move_to_ok: "parse_move_to i ls = Inr (Some d, i', rest) \<Longrightarrow> path_ok d"
  by (auto simp: parse_move_to_def split: if_splits sum.splits dest: marker_path_ok)

lemma parse_update_file_ok:
  assumes "parse_update_file i l ls = Inr (h, i', rest)"
  shows "hunk_ok h"
proof -
  have "update_state_ok ([], None, False)" by (simp add: update_state_ok_def)
  with assms show ?thesis
    by (auto simp: parse_update_file_def split: sum.splits prod.splits if_splits
        dest!: marker_path_ok parse_move_to_ok update_file_lines_ok finish_chunks_ok)
qed

lemma parse_hunk_ok: "parse_hunk i l ls = Inr (h, i', rest) \<Longrightarrow> hunk_ok h"
  by (auto simp: parse_hunk_def parse_add_file_def parse_delete_file_def
      split: if_splits sum.splits prod.splits
      dest!: marker_path_ok add_file_lines_contents parse_update_file_ok)

lemma parse_hunks_ok:
  "parse_hunks i ls acc = Inr hs \<Longrightarrow> list_all hunk_ok acc \<Longrightarrow> list_all hunk_ok hs"
  by (induction i ls acc rule: parse_hunks.induct)
    (auto split: sum.splits prod.splits dest: parse_hunk_ok)

section \<open>Properties\<close>

text \<open>C30: printing and parsing are inverse. Every list of well-formed hunks whose lines hold no line
  feed and end in no carriage return, printed as a patch of at most the allowed size, is parsed back
  to exactly that list: paths, move targets, contexts, removed and added lines and the end-of-file
  flag.\<close>

theorem parse_render_roundtrip:
  assumes "list_all printable hs" and "str_len (render_patch hs) \<le> MAX_PATCH_BYTES"
  shows "parse_patch (render_patch hs) = Inr hs"
proof -
  let ?ls = "BEGIN_PATCH_MARKER # concat (map render_hunk hs) @ [END_PATCH_MARKER]"
  have "list_all line_ok (render_hunk h)" if "h \<in> set hs" for h
    using that assms(1) by (intro line_ok_render) (simp add: list_all_iff)
  then have "list_all line_ok ?ls" by (auto simp: list_all_iff)
  moreover have "END_PATCH_MARKER \<noteq> []" by (simp add: patch_markers)
  ultimately have lines: "map drop_cr (str_lines (trim (render_patch hs))) = ?ls"
    unfolding trim_render_patch unfolding render_patch_def by (intro str_lines_join) simp_all
  have trims: "trim BEGIN_PATCH_MARKER = BEGIN_PATCH_MARKER" "trim END_PATCH_MARKER = END_PATCH_MARKER"
    by (simp_all add: patch_markers lit_def trim_def trim_start_def trim_end_def)
  then have bound: "matches_patch_boundaries ?ls" by (simp add: matches_patch_boundaries_def)
  have "render_patch hs \<noteq> []"
    by (simp add: render_patch_def patch_markers lit_def join_Cons_not_Nil)
  moreover have "list_all hunk_ok hs" using assms(1) by (simp add: printable_def list_all_iff)
  ultimately show ?thesis
    using assms(2) bound
    by (simp add: parse_patch_def lines unwrap_heredoc_def validate_patch_boundaries_def trims
        parse_hunks_render)
qed

definition sample_hunks :: "PatchHunk list" where
  "sample_hunks =
     [AddFile (lit ''n.txt'') (lit ''hi'' @ [NL, NL]), DeleteFile (lit ''old.txt''),
      UpdateFile (lit ''a.rs'') (Some (lit ''b.rs''))
        [\<lparr>change_context = Some (lit ''fn f''), old_lines = [lit ''x'', []], new_lines = [lit ''*** End Patch''],
          is_end_of_file = False\<rparr>,
         \<lparr>change_context = None, old_lines = [], new_lines = [lit ''@@''], is_end_of_file = True\<rparr>]]"

theorem parse_render_roundtrip_witness:
  "parse_patch (render_patch sample_hunks) = Inr sample_hunks"
proof (rule parse_render_roundtrip)
  show "list_all printable sample_hunks"
    by (simp add: sample_hunks_def printable_def path_ok_def chunk_ok_def line_ok_def trim_def
        trim_start_def trim_end_def is_whitespace_def lit_def NL_def CR_def)
  show "str_len (render_patch sample_hunks) \<le> MAX_PATCH_BYTES"
    by (simp add: sample_hunks_def render_patch_def render_chunk_def chunk_header_def patch_markers
        lit_def NL_def str_len_def str_bytes_def utf8_char_def MAX_PATCH_BYTES_def)
qed

text \<open>whatever the text, what the parser accepts is well formed. Every path and move target is
  non-empty and trimmed, an added file has at least one line and ends in a line feed, an update has
  at least one chunk, every chunk has an old or a new line, contexts are non-empty and carry no
  trailing blanks, and only the last chunk of a file may be anchored at the end of the file.\<close>

theorem parse_patch_well_formed:
  assumes "parse_patch patch = Inr hs"
  shows "list_all hunk_ok hs"
  using assms parse_hunks_ok
  by (auto simp: parse_patch_def Let_def split: if_splits sum.splits)

definition sample_patch :: rstr where
  "sample_patch = lit ''*** Begin Patch'' @ [NL] @ lit ''  *** Update File:  a.rs '' @ [NL]
     @ lit ''@@ fn'' @ [NL] @ lit '' x'' @ [NL] @ lit ''-y'' @ [NL] @ lit ''+z'' @ [NL] @ lit ''*** End Patch''"

theorem parse_patch_well_formed_witness:
  "parse_patch sample_patch
     = Inr [UpdateFile (lit ''a.rs'') None
         [\<lparr>change_context = Some (lit ''fn''), old_lines = [lit ''x'', lit ''y''],
           new_lines = [lit ''x'', lit ''z''], is_end_of_file = False\<rparr>]]
   \<and> list_all hunk_ok [UpdateFile (lit ''a.rs'') None
         [\<lparr>change_context = Some (lit ''fn''), old_lines = [lit ''x'', lit ''y''],
           new_lines = [lit ''x'', lit ''z''], is_end_of_file = False\<rparr>]]"
    (is "?parse \<and> _")
proof
  have len: "str_len sample_patch \<le> MAX_PATCH_BYTES"
    by (simp add: sample_patch_def lit_def NL_def str_len_def str_bytes_def utf8_char_def
        MAX_PATCH_BYTES_def)
  have "trim sample_patch = sample_patch"
    by (simp add: sample_patch_def lit_def NL_def trim_def trim_start_def trim_end_def is_whitespace_def)
  then have "map drop_cr (str_lines (trim sample_patch)) = [lit ''*** Begin Patch'',
      lit ''  *** Update File:  a.rs '', lit ''@@ fn'', lit '' x'', lit ''-y'', lit ''+z'', lit ''*** End Patch'']"
    by (simp add: sample_patch_def str_lines_def lit_def NL_def drop_cr_def strip_suffix_def
        ends_with_def CR_def)
  then show parse: ?parse
    using len
    by (simp add: parse_patch_def unwrap_heredoc_def matches_patch_boundaries_def sample_patch_def
        validate_patch_boundaries_def parse_hunk_def parse_update_file_def parse_move_to_def
        finish_chunks_def marker_eval marker_path_def strip_prefix_def trim_def trim_start_def
        trim_end_def is_whitespace_def update_line_def push_change_line_def get_or_default_def
        chunk_builder_default_def chunk_header_context_def into_chunk_def)
  from parse_patch_well_formed [OF this] show "list_all hunk_ok [UpdateFile (lit ''a.rs'') None
         [\<lparr>change_context = Some (lit ''fn''), old_lines = [lit ''x'', lit ''y''],
           new_lines = [lit ''x'', lit ''z''], is_end_of_file = False\<rparr>]]" .
qed

end
