(* ===== verification/Patch_Apply.thy ===== *)
theory Patch_Apply
  imports Patch_Parse "HOL-Library.Multiset"
begin

text \<open>
  Applying the chunks of an update hunk to the text of a file (\<open>tools/apply_patch.rs\<close>,
  \<open>apply_update_chunks\<close> and its helpers). Line lists are as in the code; the loop over the four
  matchers and the loop over the start positions are searches in a list. \<open>Vec::splice\<close> panics
  when its range leaves the vector, so \<open>apply_replacements\<close> returns an option, with
  \<open>None\<close> for the panic.
\<close>

section \<open>Matching lines\<close>

definition normalize_char :: "rchar \<Rightarrow> rchar" where
  "normalize_char c =
     (if (8208 \<le> c \<and> c \<le> 8213) \<or> c = 8722 then 45
      else if 8216 \<le> c \<and> c \<le> 8219 then 39
      else if 8220 \<le> c \<and> c \<le> 8223 then 34
      else if c = 160 \<or> (8194 \<le> c \<and> c \<le> 8202) \<or> c = 8239 \<or> c = 8287 \<or> c = 12288 then 32
      else c)"

definition normalize_line :: "rstr \<Rightarrow> rstr" where
  "normalize_line input = map normalize_char (trim input)"

datatype LineMatch = Exact | TrimEnd | Trim | Normalized

fun line_matches :: "LineMatch \<Rightarrow> rstr \<Rightarrow> rstr \<Rightarrow> bool" where
  "line_matches Exact line expected \<longleftrightarrow> line = expected"
| "line_matches TrimEnd line expected \<longleftrightarrow> trim_end line = trim_end expected"
| "line_matches Trim line expected \<longleftrightarrow> trim line = trim expected"
| "line_matches Normalized line expected \<longleftrightarrow> normalize_line line = normalize_line expected"

definition all_matchers :: "LineMatch list" where
  "all_matchers = [Exact, TrimEnd, Trim, Normalized]"

text \<open>The lines at \<open>index\<close> match the pattern; \<open>zip\<close> stops at the shorter of the two.\<close>

definition matches_at :: "LineMatch \<Rightarrow> rstr list \<Rightarrow> rstr list \<Rightarrow> nat \<Rightarrow> bool" where
  "matches_at m ls pattern index \<longleftrightarrow>
     list_all (\<lambda>(line, expected). line_matches m line expected)
       (zip (take (length pattern) (drop index ls)) pattern)"

definition seek_sequence :: "rstr list \<Rightarrow> rstr list \<Rightarrow> nat \<Rightarrow> bool \<Rightarrow> nat option" where
  "seek_sequence ls pattern start eof =
     (if pattern = [] then Some start
      else if length pattern > length ls then None
      else
        (let last_start = length ls - length pattern
         in if \<not> eof \<and> start > last_start then None
            else
              (let search_start = (if eof then last_start else start)
               in first_some (\<lambda>m. find (matches_at m ls pattern) [search_start..<Suc last_start])
                    all_matchers)))"

section \<open>Replacements\<close>

type_synonym replacement = "nat \<times> nat \<times> rstr list"

definition context_error :: "rstr \<Rightarrow> rstr \<Rightarrow> rstr" where
  "context_error context path =
     lit ''Failed to find context '' @ [39] @ context @ [39] @ lit '' in '' @ path"

definition expected_lines_error :: "rstr \<Rightarrow> rstr list \<Rightarrow> rstr" where
  "expected_lines_error path old =
     lit ''Failed to find expected lines in '' @ path @ lit '':'' @ [NL] @ join [NL] old"

definition drop_empty_last :: "rstr list \<Rightarrow> rstr list" where
  "drop_empty_last ls = (if ls \<noteq> [] \<and> last ls = [] then butlast ls else ls)"

text \<open>The pattern, the replacement and where the pattern was found: the retry without a trailing
  empty line included.\<close>

definition locate_chunk ::
    "rstr list \<Rightarrow> UpdateFileChunk \<Rightarrow> nat \<Rightarrow> (nat \<times> nat \<times> rstr list) option" where
  "locate_chunk original chunk line_index =
     (case seek_sequence original (old_lines chunk) line_index (is_end_of_file chunk) of
        Some start \<Rightarrow> Some (start, length (old_lines chunk), new_lines chunk)
      | None \<Rightarrow>
          if old_lines chunk \<noteq> [] \<and> last (old_lines chunk) = [] then
            (case seek_sequence original (butlast (old_lines chunk)) line_index
                    (is_end_of_file chunk) of
               Some start \<Rightarrow>
                 Some (start, length (butlast (old_lines chunk)), drop_empty_last (new_lines chunk))
             | None \<Rightarrow> None)
          else None)"

text \<open>One turn of the loop of \<open>compute_replacements\<close>: the replacement and the next
  \<open>line_index\<close>.\<close>

definition seek_context ::
    "rstr list \<Rightarrow> rstr \<Rightarrow> UpdateFileChunk \<Rightarrow> nat \<Rightarrow> rstr + nat" where
  "seek_context original path chunk line_index =
     (case change_context chunk of
        None \<Rightarrow> Inr line_index
      | Some context \<Rightarrow>
          (case seek_sequence original [context] line_index False of
             None \<Rightarrow> Inl (context_error context path)
           | Some index \<Rightarrow> Inr (index + 1)))"

definition chunk_replacement ::
    "rstr list \<Rightarrow> rstr \<Rightarrow> UpdateFileChunk \<Rightarrow> nat \<Rightarrow> rstr + (replacement \<times> nat)" where
  "chunk_replacement original path chunk line_index =
     (case seek_context original path chunk line_index of
        Inl e \<Rightarrow> Inl e
      | Inr line_index' \<Rightarrow>
          if old_lines chunk = [] then Inr ((length original, 0, new_lines chunk), line_index')
          else (case locate_chunk original chunk line_index' of
                  None \<Rightarrow> Inl (expected_lines_error path (old_lines chunk))
                | Some (start, n, new) \<Rightarrow> Inr ((start, n, new), start + n)))"

fun replacements_loop ::
    "rstr list \<Rightarrow> rstr \<Rightarrow> UpdateFileChunk list \<Rightarrow> nat \<Rightarrow> rstr + replacement list" where
  "replacements_loop original path [] line_index = Inr []"
| "replacements_loop original path (chunk # chunks) line_index =
     (case chunk_replacement original path chunk line_index of
        Inl e \<Rightarrow> Inl e
      | Inr (r, line_index') \<Rightarrow>
          (case replacements_loop original path chunks line_index' of
             Inl e \<Rightarrow> Inl e
           | Inr rs \<Rightarrow> Inr (r # rs)))"

definition compute_replacements ::
    "rstr list \<Rightarrow> rstr \<Rightarrow> UpdateFileChunk list \<Rightarrow> rstr + replacement list" where
  "compute_replacements original path chunks =
     (case replacements_loop original path chunks 0 of
        Inl e \<Rightarrow> Inl e
      | Inr rs \<Rightarrow> Inr (sort_key fst rs))"

text \<open>\<open>Vec::splice\<close> with the range from \<open>a\<close> to \<open>b\<close>.\<close>

definition vec_splice :: "nat \<Rightarrow> nat \<Rightarrow> 'a list \<Rightarrow> 'a list \<Rightarrow> 'a list option" where
  "vec_splice a b new xs = (if a \<le> b \<and> b \<le> length xs then Some (take a xs @ new @ drop b xs) else None)"

fun splice_loop :: "replacement list \<Rightarrow> rstr list \<Rightarrow> rstr list option" where
  "splice_loop [] ls = Some ls"
| "splice_loop ((start, n, new) # rs) ls =
     (case vec_splice start (sat_add_usize start n) new ls of
        None \<Rightarrow> None
      | Some ls' \<Rightarrow> splice_loop rs ls')"

definition apply_replacements :: "rstr list \<Rightarrow> replacement list \<Rightarrow> rstr list option" where
  "apply_replacements ls rs = splice_loop (rev rs) ls"

definition file_lines :: "rstr \<Rightarrow> rstr list" where
  "file_lines contents = drop_empty_last (split_on NL contents)"

text \<open>The result distinguishes an error from a panic, which is \<open>None\<close>.\<close>

definition apply_update_chunks ::
    "rstr \<Rightarrow> rstr \<Rightarrow> UpdateFileChunk list \<Rightarrow> (rstr + rstr) option" where
  "apply_update_chunks original_contents path chunks =
     (case compute_replacements (file_lines original_contents) path chunks of
        Inl e \<Rightarrow> Some (Inl e)
      | Inr rs \<Rightarrow>
          (case apply_replacements (file_lines original_contents) rs of
             None \<Rightarrow> None
           | Some ls \<Rightarrow>
               Some (Inr (join [NL] (if ls \<noteq> [] \<and> last ls = [] then ls else ls @ [[]])))))"

section \<open>What the search finds\<close>

definition segment :: "rstr list \<Rightarrow> nat \<Rightarrow> nat \<Rightarrow> rstr list" where
  "segment ls i n = take n (drop i ls)"

definition seek_candidate :: "rstr list \<Rightarrow> rstr list \<Rightarrow> nat \<Rightarrow> bool \<Rightarrow> nat \<Rightarrow> bool" where
  "seek_candidate ls pattern start eof i \<longleftrightarrow>
     i + length pattern \<le> length ls
     \<and> (if eof then i + length pattern = length ls else start \<le> i)"

fun match_rank :: "LineMatch \<Rightarrow> nat" where
  "match_rank Exact = 0" | "match_rank TrimEnd = 1" | "match_rank Trim = 2" | "match_rank Normalized = 3"

lemma match_rank_inject: "match_rank m = match_rank m' \<longleftrightarrow> m = m'"
  by (cases m; cases m') simp_all

lemma trim_trim_end: "trim (trim_end s) = trim s"
proof (cases "trim_start s")
  case Nil
  then have ws: "\<forall>c \<in> set s. is_whitespace c" by (simp add: trim_start_def)
  then have "trim_end s = []" by (simp add: trim_end_def)
  with Nil show ?thesis by (simp add: trim_def) (simp add: trim_start_def)
next
  case (Cons c t)
  then have c: "\<not> is_whitespace c"
    unfolding trim_start_def by (metis hd_dropWhile list.distinct(1) list.sel(1))
  obtain w where w: "s = w @ c # t" "\<forall>x \<in> set w. is_whitespace x"
    using Cons unfolding trim_start_def
    by (metis set_takeWhileD takeWhile_dropWhile_id)
  have ws: "trim_start (w @ c # u) = c # u" for u
    using w(2) c by (simp add: trim_start_def dropWhile_append2)
  have "trim_end s = w @ c # trim_end t"
    using c by (simp add: w(1) trim_end_def dropWhile_append3)
  then show ?thesis using c Cons by (simp add: trim_def ws trim_end_Cons)
qed

lemma line_matches_weaken: "match_rank m \<le> match_rank m' \<Longrightarrow> line_matches m a b \<Longrightarrow> line_matches m' a b"
  by (cases m; cases m') (auto simp: normalize_line_def, (metis trim_trim_end)+)

lemma matches_at_iff:
  "i + length pattern \<le> length ls \<Longrightarrow>
     matches_at m ls pattern i \<longleftrightarrow> list_all2 (line_matches m) (segment ls i (length pattern)) pattern"
  by (auto simp: matches_at_def segment_def list_all2_iff list_all_iff)

lemma find_range_Some:
  "find P [a..<b] = Some i \<longleftrightarrow> a \<le> i \<and> i < b \<and> P i \<and> (\<forall>j. a \<le> j \<and> j < i \<longrightarrow> \<not> P j)"
proof -
  have "find P [a..<b] = Some i \<longleftrightarrow>
      (\<exists>k < b - a. P (a + k) \<and> i = a + k \<and> (\<forall>j < k. \<not> P (a + j)))"
    by (auto simp: find_Some_iff)
  also have "\<dots> \<longleftrightarrow> a \<le> i \<and> i < b \<and> P i \<and> (\<forall>j. a \<le> j \<and> j < i \<longrightarrow> \<not> P j)"
    (is "?l \<longleftrightarrow> ?r")
  proof
    assume ?l
    then obtain k where k: "k < b - a" "P (a + k)" "i = a + k" "\<forall>j < k. \<not> P (a + j)" by blast
    have "\<not> P j" if "a \<le> j" "j < i" for j
      using k(4) [rule_format, of "j - a"] that k(3) by simp
    with k show ?r by auto
  next
    assume ?r
    then show ?l by (intro exI [of _ "i - a"]) auto
  qed
  finally show ?thesis .
qed

lemma find_range_None: "find P [a..<b] = None \<longleftrightarrow> (\<forall>j. a \<le> j \<and> j < b \<longrightarrow> \<not> P j)"
  by (auto simp: find_None_iff)

lemma find_range_cong:
  assumes "\<And>i. a \<le> i \<and> i < b \<and> P i \<longleftrightarrow> c \<le> i \<and> i < d \<and> Q i"
  shows "find P [a..<b] = find Q [c..<d]"
proof (cases "find Q [c..<d]")
  case None
  then have "\<not> (c \<le> j \<and> j < d \<and> Q j)" for j by (simp add: find_range_None)
  with assms have "find P [a..<b] = None" by (auto simp: find_range_None)
  with None show ?thesis by simp
next
  case (Some i)
  then have i: "c \<le> i \<and> i < d \<and> Q i" "\<And>j. c \<le> j \<Longrightarrow> j < i \<Longrightarrow> \<not> Q j"
    by (auto simp: find_range_Some)
  with assms have "a \<le> i \<and> i < b \<and> P i" by blast
  moreover have "\<not> P j" if "a \<le> j" "j < i" for j
    using assms [of j] i that calculation by auto
  ultimately have "find P [a..<b] = Some i" by (simp add: find_range_Some)
  with Some show ?thesis by simp
qed

text \<open>The search as a whole, for a pattern that is not empty.\<close>

lemma seek_sequence_eq:
  assumes "pattern \<noteq> []"
  shows "seek_sequence ls pattern start eof =
    first_some (\<lambda>m. find (\<lambda>i. seek_candidate ls pattern start eof i
        \<and> list_all2 (line_matches m) (segment ls i (length pattern)) pattern)
      [0..<Suc (length ls)]) all_matchers"
    (is "_ = first_some ?f _")
proof -
  let ?P = "\<lambda>m i. seek_candidate ls pattern start eof i
        \<and> list_all2 (line_matches m) (segment ls i (length pattern)) pattern"
  let ?last = "length ls - length pattern"
  let ?lo = "if eof then ?last else start"
  have none: "?f m = None" if "length pattern > length ls \<or> (\<not> eof \<and> start > ?last)" for m
    using that by (auto simp: find_range_None seek_candidate_def simp del: upt_Suc)
  have same: "find (matches_at m ls pattern) [?lo..<Suc ?last] = ?f m"
    if "length pattern \<le> length ls" for m
    using that assms by (intro find_range_cong) (auto simp: seek_candidate_def matches_at_iff)
  show ?thesis
  proof (cases "length pattern > length ls \<or> (\<not> eof \<and> start > ?last)")
    case True
    then have "first_some ?f all_matchers = None" by (simp add: first_some_None_iff none del: upt_Suc)
    moreover have "seek_sequence ls pattern start eof = None"
      using True assms by (auto simp: seek_sequence_def)
    ultimately show ?thesis by (simp del: upt_Suc)
  next
    case False
    then have "(\<lambda>m. find (matches_at m ls pattern) [?lo..<Suc ?last]) = ?f"
      using same by (intro ext) simp
    moreover have "seek_sequence ls pattern start eof
        = first_some (\<lambda>m. find (matches_at m ls pattern) [?lo..<Suc ?last]) all_matchers"
      using False assms by (auto simp: seek_sequence_def Let_def simp del: upt_Suc)
    ultimately show ?thesis by (simp del: upt_Suc)
  qed
qed

lemma seek_candidate_range: "seek_candidate ls pattern start eof i \<Longrightarrow> i < Suc (length ls)"
  by (auto simp: seek_candidate_def)

lemma matchers_cover: "m \<in> set all_matchers"
  by (cases m) (simp_all add: all_matchers_def)

lemma all_LineMatch: "(\<forall>m. P m) \<longleftrightarrow> P Exact \<and> P TrimEnd \<and> P Trim \<and> P Normalized"
  by (metis LineMatch.exhaust)

lemma ex_LineMatch: "(\<exists>m. P m) \<longleftrightarrow> P Exact \<or> P TrimEnd \<or> P Trim \<or> P Normalized"
  by (metis LineMatch.exhaust)

lemma first_some_matchers:
  "first_some f all_matchers = Some i \<longleftrightarrow>
     (\<exists>m. f m = Some i \<and> (\<forall>m'. match_rank m' < match_rank m \<longrightarrow> f m' = None))"
  by (cases "f Exact"; cases "f TrimEnd"; cases "f Trim"; cases "f Normalized")
    (simp_all add: all_matchers_def all_LineMatch ex_LineMatch)

section \<open>Replacements in order\<close>

text \<open>The replacements as one pass from left to right: the lines between them are copied.\<close>

fun apply_forward :: "nat \<Rightarrow> replacement list \<Rightarrow> rstr list \<Rightarrow> rstr list" where
  "apply_forward pos [] ls = drop pos ls"
| "apply_forward pos ((s, n, new) # rs) ls =
     segment ls pos (s - pos) @ new @ apply_forward (s + n) rs ls"

fun ordered_from :: "nat \<Rightarrow> replacement list \<Rightarrow> nat \<Rightarrow> bool" where
  "ordered_from pos [] len \<longleftrightarrow> pos \<le> len"
| "ordered_from pos ((s, n, new) # rs) len \<longleftrightarrow> pos \<le> s \<and> ordered_from (s + n) rs len"

lemma ordered_from_le: "ordered_from pos rs len \<Longrightarrow> pos \<le> len"
  by (induction pos rs len rule: ordered_from.induct) auto

lemma ordered_from_mono: "ordered_from pos rs len \<Longrightarrow> pos' \<le> pos \<Longrightarrow> ordered_from pos' rs len"
  by (cases "(pos, rs, len)" rule: ordered_from.cases) auto

lemma ordered_from_starts: "ordered_from pos rs len \<Longrightarrow> r \<in> set rs \<Longrightarrow> pos \<le> fst r"
  by (induction pos rs len rule: ordered_from.induct) fastforce+

lemma ordered_insert_front:
  assumes "ordered_from (s + n) rs len" and "pos \<le> s"
  shows "insort_key fst (s, n, new) rs = (s, n, new) # rs
    \<and> ordered_from pos ((s, n, new) # rs) len"
proof -
  have "insort_key fst (s, n, new) rs = (s, n, new) # rs"
    using assms(1) ordered_from_starts [of "s + n" rs len]
    by (cases rs) (auto simp: insort_is_Cons)
  with assms show ?thesis by simp
qed

lemma ordered_insert_end:
  "ordered_from pos rs len \<Longrightarrow> ordered_from pos (insort_key fst (len, 0, new) rs) len"
proof (induction pos rs len rule: ordered_from.induct)
  case (2 pos s n new' rs len)
  then show ?case using ordered_from_le [of "s + n" rs len] by auto
qed simp

lemma splice_loop_snoc:
  "splice_loop (rs @ [(s, n, new)]) ls =
     (case splice_loop rs ls of None \<Rightarrow> None
      | Some ls' \<Rightarrow> vec_splice s (sat_add_usize s n) new ls')"
  by (induction rs ls rule: splice_loop.induct) (auto split: option.splits)

text \<open>Splicing from the last replacement to the first gives the same as one pass in order.\<close>

lemma splice_loop_forward:
  assumes "ordered_from pos rs (length ls)" and "length ls \<le> usize_MAX"
  shows "splice_loop (rev rs) ls = Some (take pos ls @ apply_forward pos rs ls)"
  using assms
proof (induction rs arbitrary: pos)
  case Nil
  then show ?case by simp
next
  case (Cons r rs)
  obtain s n new where r: "r = (s, n, new)" by (cases r)
  have ord: "ordered_from (s + n) rs (length ls)" and pos: "pos \<le> s" using Cons.prems(1) r by simp_all
  have le: "s + n \<le> length ls" using ordered_from_le [OF ord] .
  then have sat: "sat_add_usize s n = s + n" using Cons.prems(2) by (simp add: sat_add_usize_def)
  have "take s ls = take pos ls @ segment ls pos (s - pos)"
    using pos by (simp add: segment_def take_add [symmetric])
  then show ?case
    using Cons.IH [OF ord Cons.prems(2)] le
    by (simp add: r splice_loop_snoc sat vec_splice_def)
qed

section \<open>Where the chunks go\<close>

lemma seek_sequence_range:
  assumes "seek_sequence ls pattern start eof = Some i" and "pattern \<noteq> []"
  shows "seek_candidate ls pattern start eof i
    \<and> list_all2 (line_matches Normalized) (segment ls i (length pattern)) pattern"
proof -
  obtain m where "seek_candidate ls pattern start eof i"
    "list_all2 (line_matches m) (segment ls i (length pattern)) pattern"
    using assms by (auto simp: seek_sequence_eq first_some_matchers find_range_Some simp del: upt_Suc)
  moreover have "line_matches m a b \<Longrightarrow> line_matches Normalized a b" for a b
    by (rule line_matches_weaken [of m]) (cases m, simp_all)
  ultimately show ?thesis by (auto intro: list_all2_mono)
qed

text \<open>What justifies a replacement: it appends the new lines of a chunk that removes nothing, or it
  replaces lines that match the old lines of a chunk by its new lines, possibly both without a
  trailing empty line.\<close>

definition justified :: "rstr list \<Rightarrow> UpdateFileChunk \<Rightarrow> replacement \<Rightarrow> bool" where
  "justified ls c r \<longleftrightarrow>
     (case r of (s, n, new) \<Rightarrow>
        (old_lines c = [] \<and> s = length ls \<and> n = 0 \<and> new = new_lines c)
        \<or> (list_all2 (line_matches Normalized) (segment ls s n) (old_lines c) \<and> new = new_lines c)
        \<or> (list_all2 (line_matches Normalized) (segment ls s n) (butlast (old_lines c))
             \<and> last (old_lines c) = [] \<and> new = drop_empty_last (new_lines c)))"

lemma seek_context_bound:
  assumes "seek_context ls path c k = Inr k'" and "k \<le> length ls"
  shows "k \<le> k' \<and> k' \<le> length ls"
  using assms
  by (auto simp: seek_context_def seek_candidate_def split: option.splits
      dest!: seek_sequence_range)

lemma locate_chunk_spec:
  assumes "locate_chunk ls c k = Some (s, n, new)" and "old_lines c \<noteq> []" and "k \<le> length ls"
  shows "justified ls c (s, n, new) \<and> s + n \<le> length ls \<and> (\<not> is_end_of_file c \<longrightarrow> k \<le> s)"
proof (cases "seek_sequence ls (old_lines c) k (is_end_of_file c)")
  case (Some i)
  with assms seek_sequence_range [OF Some] show ?thesis
    by (auto simp: locate_chunk_def justified_def seek_candidate_def)
next
  case None
  with assms obtain last: "last (old_lines c) = []"
    and seek: "seek_sequence ls (butlast (old_lines c)) k (is_end_of_file c) = Some s"
    and n: "n = length (butlast (old_lines c))" and new: "new = drop_empty_last (new_lines c)"
    by (auto simp: locate_chunk_def split: if_splits option.splits)
  show ?thesis
  proof (cases "butlast (old_lines c) = []")
    case True
    with seek n new last assms(3) show ?thesis
      by (simp add: seek_sequence_def justified_def segment_def)
  next
    case False
    with seek_sequence_range [OF seek] n new last show ?thesis
      by (auto simp: justified_def seek_candidate_def)
  qed
qed

lemma chunk_replacement_spec:
  assumes "chunk_replacement ls path c k = Inr ((s, n, new), k')" and "k \<le> length ls"
  shows "justified ls c (s, n, new) \<and> s + n \<le> length ls \<and> k' \<le> length ls
    \<and> (\<not> is_end_of_file c \<longrightarrow>
        (k \<le> s \<and> k' = s + n) \<or> (s = length ls \<and> n = 0 \<and> k \<le> k'))"
proof -
  obtain k1 where k1: "seek_context ls path c k = Inr k1"
    using assms(1) by (auto simp: chunk_replacement_def split: sum.splits)
  note bound = seek_context_bound [OF this assms(2)]
  show ?thesis
  proof (cases "old_lines c = []")
    case True
    with assms(1) k1 bound show ?thesis by (auto simp: chunk_replacement_def justified_def)
  next
    case False
    with assms(1) k1 have "locate_chunk ls c k1 = Some (s, n, new)" "k' = s + n"
      by (auto simp: chunk_replacement_def split: option.splits)
    with locate_chunk_spec [of ls c k1 s n new] False bound show ?thesis by auto
  qed
qed

lemma replacements_loop_justified:
  "replacements_loop ls path chunks k = Inr rs \<Longrightarrow> k \<le> length ls \<Longrightarrow>
     list_all2 (justified ls) chunks rs"
proof (induction chunks arbitrary: k rs)
  case Nil
  then show ?case by simp
next
  case (Cons c chunks)
  then obtain r k' rs' where r: "chunk_replacement ls path c k = Inr (r, k')"
    and rest: "replacements_loop ls path chunks k' = Inr rs'" and rs: "rs = r # rs'"
    by (auto split: sum.splits)
  obtain s n new where "r = (s, n, new)" by (cases r)
  with chunk_replacement_spec [of ls path c k s n new k'] r Cons.prems(2)
  have "justified ls c r" "k' \<le> length ls" by auto
  with Cons.IH [OF rest] rs show ?case by simp
qed

lemma replacements_loop_ordered:
  "replacements_loop ls path chunks k = Inr rs \<Longrightarrow> k \<le> length ls \<Longrightarrow>
     list_all (\<lambda>c. \<not> is_end_of_file c) chunks \<Longrightarrow>
     ordered_from k (sort_key fst rs) (length ls)"
proof (induction chunks arbitrary: k rs)
  case Nil
  then show ?case by simp
next
  case (Cons c chunks)
  then obtain r k' rs' where r: "chunk_replacement ls path c k = Inr (r, k')"
    and rest: "replacements_loop ls path chunks k' = Inr rs'" and rs: "rs = r # rs'"
    by (auto split: sum.splits)
  obtain s n new where r': "r = (s, n, new)" by (cases r)
  note spec = chunk_replacement_spec [OF r [unfolded r'] Cons.prems(2)]
  have IH: "ordered_from k' (sort_key fst rs') (length ls)"
    using Cons.IH [OF rest] spec Cons.prems(3) by simp
  consider "k \<le> s" "k' = s + n" | "s = length ls" "n = 0" "k \<le> k'"
    using spec Cons.prems(3) by auto
  then show ?case
  proof cases
    case 1
    with IH show ?thesis
      using ordered_insert_front [of s n "sort_key fst rs'" "length ls" k new] by (simp add: rs r')
  next
    case 2
    have "ordered_from k' (sort_key fst rs) (length ls)"
      using ordered_insert_end [OF IH, of new] 2 by (simp add: rs r')
    with 2 show ?thesis by (rule_tac ordered_from_mono)
  qed
qed

text \<open>The first chunk may be anchored at the end of the file: only later ones may look behind.\<close>

lemma replacements_ordered:
  assumes "replacements_loop ls path chunks 0 = Inr rs"
    and "list_all (\<lambda>c. \<not> is_end_of_file c) (tl chunks)"
  shows "ordered_from 0 (sort_key fst rs) (length ls)"
proof (cases chunks)
  case Nil
  with assms(1) show ?thesis by simp
next
  case (Cons c cs)
  with assms(1) obtain r k' rs' where r: "chunk_replacement ls path c 0 = Inr (r, k')"
    and rest: "replacements_loop ls path cs k' = Inr rs'" and rs: "rs = r # rs'"
    by (auto split: sum.splits)
  obtain s n new where r': "r = (s, n, new)" by (cases r)
  note spec = chunk_replacement_spec [OF r [unfolded r'], simplified]
  have IH: "ordered_from k' (sort_key fst rs') (length ls)"
    using replacements_loop_ordered [OF rest] spec assms(2) Cons by simp
  have "k' = s + n \<or> (s = length ls \<and> n = 0)"
    using r by (auto simp: r' chunk_replacement_def split: sum.splits option.splits if_splits)
  then show ?thesis
  proof
    assume "k' = s + n"
    with IH show ?thesis
      using ordered_insert_front [of s n "sort_key fst rs'" "length ls" 0 new] by (simp add: rs r')
  next
    assume at_end: "s = length ls \<and> n = 0"
    have "ordered_from k' (sort_key fst rs) (length ls)"
      using ordered_insert_end [OF IH, of new] at_end by (simp add: rs r')
    then show ?thesis by (rule ordered_from_mono) simp
  qed
qed

lemma replacements_loop_within:
  "replacements_loop ls path chunks k = Inr rs \<Longrightarrow> k \<le> length ls \<Longrightarrow>
     list_all (\<lambda>(s, n, new). s + n \<le> length ls) rs"
proof (induction chunks arbitrary: k rs)
  case Nil
  then show ?case by simp
next
  case (Cons c chunks)
  then obtain r k' rs' where r: "chunk_replacement ls path c k = Inr (r, k')"
    and rest: "replacements_loop ls path chunks k' = Inr rs'" and rs: "rs = r # rs'"
    by (auto split: sum.splits)
  obtain s n new where r': "r = (s, n, new)" by (cases r)
  with chunk_replacement_spec [OF r [unfolded r'] Cons.prems(2)] Cons.IH [OF rest] rs
  show ?case by simp
qed

text \<open>The replacements of two chunks, in the order in which they are spliced.\<close>

lemma two_replacements_panic:
  assumes "s + n \<le> length ls" and "length ls \<le> usize_MAX" and "t + m \<le> length ls"
  shows "apply_replacements ls [(s, n, new), (t, m, new')] = None \<longleftrightarrow>
    length ls - m + length new' < s + n"
proof -
  have "sat_add_usize s n = s + n" "sat_add_usize t m = t + m"
    using assms by (simp_all add: sat_add_usize_def)
  with assms show ?thesis
    by (auto simp: apply_replacements_def vec_splice_def)
qed

section \<open>Properties\<close>

text \<open>the search for a block of lines is complete and prefers the strictest and earliest match.
  It fails exactly when no admissible position matches even with all white space and punctuation
  normalised; a position it returns is admissible (not before the start, or at the very end of the
  file for an end-of-file block), the lines there match at some level, no admissible position
  matches at a stricter level, and none matches earlier at the same level.\<close>

theorem seek_sequence_strictest_first:
  assumes "pattern \<noteq> []"
  shows "(seek_sequence ls pattern start eof = None \<longleftrightarrow>
      (\<forall>i. seek_candidate ls pattern start eof i \<longrightarrow>
         \<not> list_all2 (line_matches Normalized) (segment ls i (length pattern)) pattern))
    \<and> (\<forall>i. seek_sequence ls pattern start eof = Some i \<longrightarrow>
        seek_candidate ls pattern start eof i
        \<and> (\<exists>m. list_all2 (line_matches m) (segment ls i (length pattern)) pattern
             \<and> (\<forall>j m'. seek_candidate ls pattern start eof j
                  \<and> list_all2 (line_matches m') (segment ls j (length pattern)) pattern
                  \<longrightarrow> match_rank m < match_rank m' \<or> (m' = m \<and> i \<le> j))))"
proof (intro conjI allI impI)
  let ?hit = "\<lambda>m i. seek_candidate ls pattern start eof i
    \<and> list_all2 (line_matches m) (segment ls i (length pattern)) pattern"
  note eq = seek_sequence_eq [OF assms, of ls start eof]
  have weaken: "list_all2 (line_matches m) a b \<Longrightarrow> list_all2 (line_matches Normalized) a b" for m a b
    by (erule list_all2_mono) (rule line_matches_weaken [of m], cases m, simp_all)
  show "seek_sequence ls pattern start eof = None \<longleftrightarrow>
      (\<forall>i. seek_candidate ls pattern start eof i \<longrightarrow>
         \<not> list_all2 (line_matches Normalized) (segment ls i (length pattern)) pattern)"
    unfolding eq first_some_None_iff find_range_None
    using matchers_cover weaken seek_candidate_range by (metis le0)
  fix i
  assume seek: "seek_sequence ls pattern start eof = Some i"
  then obtain m where m: "?hit m i" "\<And>j. j < i \<Longrightarrow> \<not> ?hit m j"
    and stricter: "\<And>m' j. match_rank m' < match_rank m \<Longrightarrow> j < Suc (length ls) \<Longrightarrow> \<not> ?hit m' j"
    unfolding eq first_some_matchers find_range_Some find_range_None by auto
  then show "seek_candidate ls pattern start eof i" by simp
  have "match_rank m < match_rank m' \<or> (m' = m \<and> i \<le> j)" if "?hit m' j" for j m'
    using that m(2) [of j] stricter [of m' j] seek_candidate_range [of ls pattern start eof j]
      match_rank_inject [of m m'] by (cases "m' = m") force+
  with m(1) show "\<exists>m. list_all2 (line_matches m) (segment ls i (length pattern)) pattern
      \<and> (\<forall>j m'. ?hit m' j \<longrightarrow> match_rank m < match_rank m' \<or> (m' = m \<and> i \<le> j))"
    by blast
qed

theorem seek_sequence_strictest_first_witness:
  "seek_sequence [lit ''a '', lit ''a''] [lit ''a''] 0 False = Some 1
   \<and> seek_candidate [lit ''a '', lit ''a''] [lit ''a''] 0 False 1"
proof -
  have run: "seek_sequence [lit ''a '', lit ''a''] [lit ''a''] 0 False = Some 1"
    by (simp add: seek_sequence_def all_matchers_def matches_at_def upt_rec)
  with seek_sequence_strictest_first [of "[lit ''a'']" "[lit ''a '', lit ''a'']" 0 False]
  show ?thesis by blast
qed

text \<open>C7: applying the replacements that the chunks of an update hunk lead to. There is one
  replacement per chunk, which appends its new lines or puts them in the place of lines of the
  original file that match its old lines; they are sorted by position and lie inside the file. When
  no chunk but possibly the first is anchored at the end of the file, they do not overlap. And
  whenever they do not overlap, splicing them from the last to the first does not panic and gives
  the same text as one pass from the top that copies every line outside the replaced blocks. (Two
  chunks that overlap because the later one is anchored at the end of the file are the subject of
  \<open>end_of_file_chunk_panics\<close>.)\<close>

theorem update_chunks_splice:
  assumes "compute_replacements ls path chunks = Inr rs"
    and "length ls \<le> usize_MAX"
  shows "(\<exists>rs'. mset rs = mset rs' \<and> list_all2 (justified ls) chunks rs')
    \<and> sorted (map fst rs) \<and> list_all (\<lambda>(s, n, new). s + n \<le> length ls) rs
    \<and> (list_all (\<lambda>c. \<not> is_end_of_file c) (tl chunks) \<longrightarrow> ordered_from 0 rs (length ls))
    \<and> (ordered_from 0 rs (length ls) \<longrightarrow>
        apply_replacements ls rs = Some (apply_forward 0 rs ls))"
proof -
  obtain rs' where loop: "replacements_loop ls path chunks 0 = Inr rs'" and rs: "rs = sort_key fst rs'"
    using assms(1) by (auto simp: compute_replacements_def split: sum.splits)
  have "list_all2 (justified ls) chunks rs'"
    using replacements_loop_justified [OF loop] by simp
  then have "\<exists>rs'. mset rs = mset rs' \<and> list_all2 (justified ls) chunks rs'"
    by (metis rs mset_sort)
  moreover have "list_all (\<lambda>(s, n, new). s + n \<le> length ls) rs"
    using replacements_loop_within [OF loop] by (simp add: rs list_all_iff)
  moreover have "ordered_from 0 rs (length ls) \<Longrightarrow>
      apply_replacements ls rs = Some (apply_forward 0 rs ls)"
    using splice_loop_forward [OF _ assms(2), of 0 rs] by (simp add: apply_replacements_def)
  ultimately show ?thesis
    using replacements_ordered [OF loop] by (simp add: rs)
qed

theorem update_chunks_splice_witness:
  "compute_replacements [lit ''a'', lit ''b'', lit ''c''] (lit ''f'')
      [\<lparr>change_context = None, old_lines = [], new_lines = [lit ''z''], is_end_of_file = False\<rparr>,
       \<lparr>change_context = Some (lit ''a''), old_lines = [lit ''b''], new_lines = [lit ''x'', lit ''y''],
         is_end_of_file = False\<rparr>]
     = Inr [(1, 1, [lit ''x'', lit ''y'']), (3, 0, [lit ''z''])]
   \<and> apply_replacements [lit ''a'', lit ''b'', lit ''c''] [(1, 1, [lit ''x'', lit ''y'']), (3, 0, [lit ''z''])]
      = Some [lit ''a'', lit ''x'', lit ''y'', lit ''c'', lit ''z'']"
    (is "?run \<and> _")
proof
  show run: ?run
    by (simp add: compute_replacements_def chunk_replacement_def seek_context_def locate_chunk_def
        seek_sequence_def all_matchers_def matches_at_def upt_rec)
  show "apply_replacements [lit ''a'', lit ''b'', lit ''c''] [(1, 1, [lit ''x'', lit ''y'']), (3, 0, [lit ''z''])]
      = Some [lit ''a'', lit ''x'', lit ''y'', lit ''c'', lit ''z'']"
    using update_chunks_splice [OF run] by (simp add: segment_def usize_MAX_def)
qed

text \<open>C31: an end-of-file chunk after another chunk can crash the tool. Its search starts at the end
  of the file and not where the chunk before it stopped, so the two may claim the same lines; the
  block further down is spliced first, and when that leaves the file shorter than the end of the
  other block, the splice of the other block panics. For two chunks on any file whose lines are
  found, this is exactly when the tool panics: the second chunk is anchored at the end of the file
  and the block that is spliced second ends beyond the lines that are left.\<close>

theorem end_of_file_chunk_panics:
  assumes "ls = file_lines contents" and "length ls \<le> usize_MAX"
    and "chunk_replacement ls path c1 0 = Inr ((p, n1, new1), k)"
    and "chunk_replacement ls path c2 k = Inr ((q, n2, new2), k')"
  shows "apply_update_chunks contents path [c1, c2] = None \<longleftrightarrow>
    is_end_of_file c2
    \<and> (if p \<le> q then length ls - n2 + length new2 < p + n1
       else length ls - n1 + length new1 < q + n2)"
proof -
  let ?r1 = "(p, n1, new1)" and ?r2 = "(q, n2, new2)"
  let ?rs = "if p \<le> q then [?r1, ?r2] else [?r2, ?r1]"
  have loop: "replacements_loop ls path [c1, c2] 0 = Inr [?r1, ?r2]"
    using assms(3,4) by simp
  then have run: "compute_replacements ls path [c1, c2] = Inr ?rs"
    by (simp add: compute_replacements_def)
  have "p + n1 \<le> length ls" "q + n2 \<le> length ls"
    using replacements_loop_within [OF loop] by simp_all
  then have none: "apply_replacements ls ?rs = None \<longleftrightarrow>
      (if p \<le> q then length ls - n2 + length new2 < p + n1
       else length ls - n1 + length new1 < q + n2)"
    using assms(2) by (simp add: two_replacements_panic)
  have "apply_replacements ls ?rs \<noteq> None" if "\<not> is_end_of_file c2"
  proof -
    have "ordered_from 0 ?rs (length ls)"
      using replacements_ordered [OF loop] that by (simp split: if_splits)
    then show ?thesis
      using splice_loop_forward [OF _ assms(2), of 0 ?rs] by (simp add: apply_replacements_def)
  qed
  with none run assms(1) show ?thesis
    by (auto simp: apply_update_chunks_def split: option.splits)
qed

text \<open>The two chunks of the example form a well-formed hunk.\<close>

definition overlap_chunks :: "UpdateFileChunk list" where
  "overlap_chunks =
     [\<lparr>change_context = None, old_lines = [lit ''a'', lit ''b''], new_lines = [], is_end_of_file = False\<rparr>,
      \<lparr>change_context = None, old_lines = [lit ''b''], new_lines = [], is_end_of_file = True\<rparr>]"

theorem end_of_file_chunk_panics_witness:
  "hunk_ok (UpdateFile (lit ''f'') None overlap_chunks)
   \<and> apply_update_chunks (lit ''a'' @ [NL] @ lit ''b'' @ [NL]) (lit ''f'') overlap_chunks = None"
proof
  show "hunk_ok (UpdateFile (lit ''f'') None overlap_chunks)"
    by (simp add: overlap_chunks_def path_ok_def chunk_ok_def lit_def trim_def trim_start_def
        trim_end_def is_whitespace_def)
  let ?c1 = "hd overlap_chunks" and ?c2 = "last overlap_chunks" and ?ls = "[lit ''a'', lit ''b'']"
  have ls: "?ls = file_lines (lit ''a'' @ [NL] @ lit ''b'' @ [NL])"
    by (simp add: file_lines_def drop_empty_last_def lit_def NL_def)
  have "chunk_replacement ?ls (lit ''f'') ?c1 0 = Inr ((0, 2, []), 2)"
    "chunk_replacement ?ls (lit ''f'') ?c2 2 = Inr ((1, 1, []), 2)"
    by (simp_all add: overlap_chunks_def chunk_replacement_def seek_context_def locate_chunk_def
        seek_sequence_def all_matchers_def matches_at_def upt_rec)
  from end_of_file_chunk_panics [OF ls _ this]
  show "apply_update_chunks (lit ''a'' @ [NL] @ lit ''b'' @ [NL]) (lit ''f'') overlap_chunks = None"
    by (simp add: overlap_chunks_def usize_MAX_def)
qed

end
