(* ===== verification/Text_Encoding.thy ===== *)
theory Text_Encoding
  imports Foco_Prelude
begin

text \<open>
  Reading and writing text files (\<open>tools/lib.rs\<close>, \<open>decode_text_file\<close> and
  \<open>encode_text_file\<close>). Bytes and UTF-16 units are numbers. \<open>utf8_next\<close> is the validity
  table of \<open>std::str::from_utf8\<close>, \<open>utf16_next\<close> the pairing of \<open>String::from_utf16\<close>;
  both are codes in the sense of the locale \<open>char_code\<close>: reading the first character is the
  inverse of writing one. What decoding and encoding have to do with each other is proved once for
  such a code.
\<close>

section \<open>Decoding by characters\<close>

definition is_scalar :: "rchar \<Rightarrow> bool" where
  "is_scalar c \<longleftrightarrow> c < 55296 \<or> (57344 \<le> c \<and> c < 1114112)"

function decode_with :: "(nat list \<Rightarrow> (rchar \<times> nat list) option) \<Rightarrow> nat list \<Rightarrow> rstr option" where
  "decode_with nxt us =
     (if us = [] then Some []
      else case nxt us of
        None \<Rightarrow> None
      | Some (c, rest) \<Rightarrow>
          if length rest < length us then map_option (\<lambda>s. c # s) (decode_with nxt rest) else None)"
  by pat_completeness auto
termination
  by (relation "measure (\<lambda>(_, us). length us)") auto

declare decode_with.simps [simp del]

definition is_cont :: "nat \<Rightarrow> bool" where
  "is_cont b \<longleftrightarrow> 128 \<le> b \<and> b \<le> 191"

definition utf8_next :: "nat list \<Rightarrow> (rchar \<times> nat list) option" where
  "utf8_next us =
     (case us of
        [] \<Rightarrow> None
      | a # r1 \<Rightarrow>
          if a < 128 then Some (a, r1)
          else if 194 \<le> a \<and> a \<le> 223 then
            (case r1 of
               b # r2 \<Rightarrow> if is_cont b then Some ((a - 192) * 64 + (b - 128), r2) else None
             | _ \<Rightarrow> None)
          else if 224 \<le> a \<and> a \<le> 239 then
            (case r1 of
               b # c # r3 \<Rightarrow>
                 if is_cont b \<and> is_cont c \<and> (a = 224 \<longrightarrow> 160 \<le> b) \<and> (a = 237 \<longrightarrow> b \<le> 159)
                 then Some ((a - 224) * 4096 + (b - 128) * 64 + (c - 128), r3) else None
             | _ \<Rightarrow> None)
          else if 240 \<le> a \<and> a \<le> 244 then
            (case r1 of
               b # c # d # r4 \<Rightarrow>
                 if is_cont b \<and> is_cont c \<and> is_cont d \<and> (a = 240 \<longrightarrow> 144 \<le> b) \<and> (a = 244 \<longrightarrow> b \<le> 143)
                 then Some ((a - 240) * 262144 + (b - 128) * 4096 + (c - 128) * 64 + (d - 128), r4)
                 else None
             | _ \<Rightarrow> None)
          else None)"

definition from_utf8 :: "nat list \<Rightarrow> rstr option" where
  "from_utf8 bytes = decode_with utf8_next bytes"

definition utf16_char :: "rchar \<Rightarrow> nat list" where
  "utf16_char c =
     (if c < 65536 then [c] else [55296 + (c - 65536) div 1024, 56320 + (c - 65536) mod 1024])"

definition encode_utf16 :: "rstr \<Rightarrow> nat list" where
  "encode_utf16 s = concat (map utf16_char s)"

definition utf16_next :: "nat list \<Rightarrow> (rchar \<times> nat list) option" where
  "utf16_next us =
     (case us of
        [] \<Rightarrow> None
      | u # r1 \<Rightarrow>
          if u < 55296 \<or> (57344 \<le> u \<and> u < 65536) then Some (u, r1)
          else if 55296 \<le> u \<and> u < 56320 then
            (case r1 of
               v # r2 \<Rightarrow>
                 if 56320 \<le> v \<and> v < 57344
                 then Some (65536 + (u - 55296) * 1024 + (v - 56320), r2) else None
             | _ \<Rightarrow> None)
          else None)"

definition from_utf16 :: "nat list \<Rightarrow> rstr option" where
  "from_utf16 units = decode_with utf16_next units"

section \<open>Text files\<close>

datatype TextEncoding = Utf8 | Utf8Bom | Utf16LeBom | Utf16BeBom

text \<open>The error names the file, by whatever stands for its path.\<close>

datatype 'p encoding_error = UnsupportedEncoding 'p

text \<open>\<open>chunks_exact(2)\<close> with \<open>from_le_bytes\<close> or \<open>from_be_bytes\<close>.\<close>

fun u16_units :: "TextEncoding \<Rightarrow> nat list \<Rightarrow> nat list" where
  "u16_units e (a # b # r) = (if e = Utf16LeBom then a + 256 * b else 256 * a + b) # u16_units e r"
| "u16_units e _ = []"

definition decode_utf16_file ::
    "'p \<Rightarrow> nat list \<Rightarrow> TextEncoding \<Rightarrow> 'p encoding_error + (rstr \<times> TextEncoding)" where
  "decode_utf16_file path bytes e =
     (if length bytes mod 2 \<noteq> 0 then Inl (UnsupportedEncoding path)
      else case from_utf16 (u16_units e bytes) of
        None \<Rightarrow> Inl (UnsupportedEncoding path)
      | Some content \<Rightarrow> Inr (content, e))"

definition decode_text_file :: "'p \<Rightarrow> nat list \<Rightarrow> 'p encoding_error + (rstr \<times> TextEncoding)" where
  "decode_text_file path bytes =
     (case strip_prefix bytes [239, 187, 191] of
        Some content \<Rightarrow>
          (case from_utf8 content of
             None \<Rightarrow> Inl (UnsupportedEncoding path)
           | Some s \<Rightarrow> Inr (s, Utf8Bom))
      | None \<Rightarrow>
     (case strip_prefix bytes [255, 254] of
        Some content \<Rightarrow> decode_utf16_file path content Utf16LeBom
      | None \<Rightarrow>
     (case strip_prefix bytes [254, 255] of
        Some content \<Rightarrow> decode_utf16_file path content Utf16BeBom
      | None \<Rightarrow>
     (case from_utf8 bytes of
        None \<Rightarrow> Inl (UnsupportedEncoding path)
      | Some s \<Rightarrow> Inr (s, Utf8)))))"

definition to_le_bytes :: "nat \<Rightarrow> nat list" where "to_le_bytes u = [u mod 256, u div 256]"
definition to_be_bytes :: "nat \<Rightarrow> nat list" where "to_be_bytes u = [u div 256, u mod 256]"

fun encode_text_file :: "rstr \<Rightarrow> TextEncoding \<Rightarrow> nat list" where
  "encode_text_file s Utf8 = str_bytes s"
| "encode_text_file s Utf8Bom = [239, 187, 191] @ str_bytes s"
| "encode_text_file s Utf16LeBom = [255, 254] @ concat (map to_le_bytes (encode_utf16 s))"
| "encode_text_file s Utf16BeBom = [254, 255] @ concat (map to_be_bytes (encode_utf16 s))"

section \<open>Codes\<close>

text \<open>A code writes a character as a non-empty list of units, and reading the first character of a
  list of units succeeds exactly when the list starts with the code of a scalar value.\<close>

locale char_code =
  fixes enc :: "rchar \<Rightarrow> nat list"
    and nxt :: "nat list \<Rightarrow> (rchar \<times> nat list) option"
  assumes enc_not_Nil: "enc c \<noteq> []"
    and nxt_iff: "nxt us = Some (c, rest) \<longleftrightarrow> is_scalar c \<and> us = enc c @ rest"
begin

lemma decode_with_enc: "list_all is_scalar s \<Longrightarrow> decode_with nxt (concat (map enc s)) = Some s"
proof (induction s)
  case Nil
  then show ?case by (simp add: decode_with.simps)
next
  case (Cons c s)
  then have "nxt (enc c @ concat (map enc s)) = Some (c, concat (map enc s))"
    by (simp add: nxt_iff)
  with Cons show ?case
    by (subst decode_with.simps) (simp add: enc_not_Nil)
qed

lemma decode_with_iff:
  "decode_with nxt us = Some s \<longleftrightarrow> list_all is_scalar s \<and> us = concat (map enc s)"
proof
  show "decode_with nxt us = Some s \<Longrightarrow> list_all is_scalar s \<and> us = concat (map enc s)"
  proof (induction "length us" arbitrary: us s rule: less_induct)
    case less
    show ?case
    proof (cases "us = []")
      case True
      with less.prems show ?thesis by (simp add: decode_with.simps)
    next
      case False
      with less.prems obtain c rest s' where "nxt us = Some (c, rest)" "length rest < length us"
        and s: "decode_with nxt rest = Some s'" "s = c # s'"
        by (subst (asm) decode_with.simps) (auto split: option.splits if_splits)
      with less.hyps [OF this(2) s(1)] show ?thesis by (simp add: nxt_iff)
    qed
  qed
qed (simp add: decode_with_enc)

end

lemma utf8_char_not_Nil: "utf8_char c \<noteq> []"
  by (simp add: utf8_char_def)

lemma utf8_next_write: "is_scalar c \<Longrightarrow> utf8_next (utf8_char c @ rest) = Some (c, rest)"
proof -
  assume c: "is_scalar c"
  consider "c < 128" | "128 \<le> c" "c < 2048" | "2048 \<le> c" "c < 65536" | "65536 \<le> c" by linarith
  then show ?thesis
  proof cases
    case 1
    then show ?thesis by (simp add: utf8_next_def utf8_char_def)
  next
    case 2
    then have "2 \<le> c div 64" "c div 64 < 32" by (simp_all add: less_mult_imp_div_less)
    moreover have "c div 64 * 64 + c mod 64 = c" "c mod 64 < 64" by simp_all
    ultimately show ?thesis using 2 by (auto simp: utf8_next_def utf8_char_def is_cont_def)
  next
    case 3
    have q: "c div 64 div 64 = c div 4096" by (simp add: div_mult2_eq [symmetric])
    have "c div 4096 < 16" using 3 by (simp add: less_mult_imp_div_less)
    moreover have "c div 4096 * 4096 + c div 64 mod 64 * 64 + c mod 64 = c"
      using div_mult_mod_eq [of c 64] div_mult_mod_eq [of "c div 64" 64] q by linarith
    moreover have "c div 64 mod 64 < 64" "c mod 64 < 64" by simp_all
    moreover have "c div 4096 = 0 \<Longrightarrow> 32 \<le> c div 64 mod 64"
      using 3 calculation by linarith
    moreover have "c div 4096 = 13 \<Longrightarrow> c div 64 mod 64 < 32"
      using c 3 calculation by (auto simp: is_scalar_def)
    ultimately show ?thesis using 3 by (auto simp: utf8_next_def utf8_char_def is_cont_def)
  next
    case 4
    have q: "c div 64 div 64 = c div 4096" "c div 4096 div 64 = c div 262144"
      by (simp_all add: div_mult2_eq [symmetric])
    have "c div 262144 < 5" using c 4 by (simp add: is_scalar_def less_mult_imp_div_less)
    moreover have "c div 262144 * 262144 + c div 4096 mod 64 * 4096 + c div 64 mod 64 * 64 + c mod 64 = c"
      using div_mult_mod_eq [of c 64] div_mult_mod_eq [of "c div 64" 64]
        div_mult_mod_eq [of "c div 4096" 64] q by linarith
    moreover have "c div 4096 mod 64 < 64" "c div 64 mod 64 < 64" "c mod 64 < 64" by simp_all
    moreover have "c div 262144 = 0 \<Longrightarrow> 16 \<le> c div 4096 mod 64"
      using 4 calculation by linarith
    moreover have "c div 262144 = 4 \<Longrightarrow> c div 4096 mod 64 < 16"
      using c 4 calculation by (auto simp: is_scalar_def)
    ultimately show ?thesis using 4 by (auto simp: utf8_next_def utf8_char_def is_cont_def)
  qed
qed

text \<open>The bytes of a character of two, three and four bytes, from the numbers in them.\<close>

lemma utf8_char_two: "2 \<le> x \<Longrightarrow> x < 32 \<Longrightarrow> y < 64 \<Longrightarrow> utf8_char (x * 64 + y) = [192 + x, 128 + y]"
  by (simp add: utf8_char_def)

lemma utf8_char_three:
  assumes "x < 16" "y < 64" "z < 64" "x = 0 \<Longrightarrow> 32 \<le> y"
  shows "utf8_char (x * 4096 + y * 64 + z) = [224 + x, 128 + y, 128 + z]"
proof -
  let ?c = "x * 4096 + y * 64 + z"
  have "?c = (x * 64 + y) * 64 + z" by simp
  then have d: "?c div 64 = x * 64 + y" "?c mod 64 = z" using assms(3) by (metis div_mult_self3 div_less
      add_0_right mod_mult_self3 mod_less add.commute zero_neq_numeral)+
  have "?c div 4096 = ?c div 64 div 64" by (simp add: div_mult2_eq [symmetric])
  then have "?c div 4096 = x" "?c div 64 mod 64 = y" using d assms(2) by simp_all
  moreover have "2048 \<le> ?c" "?c < 65536" using assms by (cases "x = 0"; simp)+
  ultimately show ?thesis using d by (simp add: utf8_char_def)
qed

lemma utf8_char_four:
  assumes "x < 5" "y < 64" "z < 64" "w < 64" "x = 0 \<Longrightarrow> 16 \<le> y"
  shows "utf8_char (x * 262144 + y * 4096 + z * 64 + w) = [240 + x, 128 + y, 128 + z, 128 + w]"
proof -
  let ?c = "x * 262144 + y * 4096 + z * 64 + w"
  have "?c = (x * 4096 + y * 64 + z) * 64 + w" by simp
  then have d: "?c div 64 = x * 4096 + y * 64 + z" "?c mod 64 = w" using assms(4) by (metis div_mult_self3 div_less
      add_0_right mod_mult_self3 mod_less add.commute zero_neq_numeral)+
  have "x * 4096 + y * 64 + z = (x * 64 + y) * 64 + z" by simp
  then have e: "?c div 64 div 64 = x * 64 + y" "?c div 64 mod 64 = z"
    using assms(3) d by (metis div_mult_self3 div_less
      add_0_right mod_mult_self3 mod_less add.commute zero_neq_numeral)+
  have "?c div 4096 = ?c div 64 div 64" "?c div 262144 = ?c div 64 div 64 div 64"
    by (simp_all add: div_mult2_eq [symmetric])
  then have "?c div 4096 mod 64 = y" "?c div 262144 = x" using e assms(2) by simp_all
  moreover have "65536 \<le> ?c" using assms by (cases "x = 0") simp_all
  ultimately show ?thesis using d e by (simp add: utf8_char_def)
qed

lemma utf8_next_read:
  assumes "utf8_next us = Some (c, rest)"
  shows "is_scalar c \<and> us = utf8_char c @ rest"
proof -
  obtain a r1 where us: "us = a # r1" using assms by (cases us) (simp_all add: utf8_next_def)
  consider "a < 128" | "194 \<le> a" "a \<le> 223" | "224 \<le> a" "a \<le> 239" | "240 \<le> a" "a \<le> 244"
    using assms by (auto simp: us utf8_next_def split: if_splits)
  then show ?thesis
  proof cases
    case 1
    then show ?thesis using assms by (simp add: us utf8_next_def utf8_char_def is_scalar_def)
  next
    case 2
    with assms obtain b where r1: "r1 = b # rest" and c: "c = (a - 192) * 64 + (b - 128)" "is_cont b"
      by (auto simp: us utf8_next_def split: list.splits if_splits)
    then show ?thesis using 2 utf8_char_two [of "a - 192" "b - 128"]
      by (auto simp: us is_cont_def is_scalar_def)
  next
    case 3
    with assms obtain b d where r1: "r1 = b # d # rest" "is_cont b" "is_cont d"
      and side: "a = 224 \<longrightarrow> 160 \<le> b" "a = 237 \<longrightarrow> b \<le> 159"
      and c: "c = (a - 224) * 4096 + (b - 128) * 64 + (d - 128)"
      by (auto simp: us utf8_next_def split: list.splits if_splits)
    define x y z where xyz: "x = a - 224" "y = b - 128" "z = d - 128"
    have abd: "a = 224 + x" "b = 128 + y" "d = 128 + z" "x < 16" "y < 64" "z < 64"
      using 3 r1 by (auto simp: xyz is_cont_def)
    have "x = 0 \<Longrightarrow> 32 \<le> y" "x = 13 \<Longrightarrow> y < 32" using side abd by auto
    moreover from this have "is_scalar c"
      using abd c by (cases "x < 13"; cases "x = 13") (auto simp: is_scalar_def)
    ultimately show ?thesis
      using utf8_char_three [of x y z] abd c r1(1) by (simp add: us)
  next
    case 4
    with assms obtain b d e where r1: "r1 = b # d # e # rest" "is_cont b" "is_cont d" "is_cont e"
      and side: "a = 240 \<longrightarrow> 144 \<le> b" "a = 244 \<longrightarrow> b \<le> 143"
      and c: "c = (a - 240) * 262144 + (b - 128) * 4096 + (d - 128) * 64 + (e - 128)"
      by (auto simp: us utf8_next_def split: list.splits if_splits)
    define x y z w where xyz: "x = a - 240" "y = b - 128" "z = d - 128" "w = e - 128"
    have abd: "a = 240 + x" "b = 128 + y" "d = 128 + z" "e = 128 + w" "x < 5" "y < 64" "z < 64" "w < 64"
      using 4 r1 by (auto simp: xyz is_cont_def)
    have "x = 0 \<Longrightarrow> 16 \<le> y" "x = 4 \<Longrightarrow> y < 16" using side abd by auto
    moreover from this have "is_scalar c"
      using abd c by (cases "x = 0"; cases "x = 4") (auto simp: is_scalar_def)
    ultimately show ?thesis
      using utf8_char_four [of x y z w] abd c r1(1) by (simp add: us)
  qed
qed

interpretation utf8: char_code utf8_char utf8_next
  using utf8_next_read utf8_next_write by unfold_locales (auto simp: utf8_char_not_Nil)

lemma utf16_next_write:
  assumes "is_scalar c"
  shows "utf16_next (utf16_char c @ rest) = Some (c, rest)"
proof (cases "c < 65536")
  case True
  with assms show ?thesis by (auto simp: utf16_next_def utf16_char_def is_scalar_def)
next
  case False
  then have "(c - 65536) div 1024 < 1024" using assms
    by (simp add: is_scalar_def less_mult_imp_div_less)
  moreover have "65536 + (c - 65536) div 1024 * 1024 + (c - 65536) mod 1024 = c"
    using False by simp
  moreover have "(c - 65536) mod 1024 < 1024" by simp
  ultimately show ?thesis using False by (auto simp: utf16_next_def utf16_char_def)
qed

lemma utf16_next_read:
  assumes "utf16_next us = Some (c, rest)"
  shows "is_scalar c \<and> us = utf16_char c @ rest"
proof -
  obtain u r1 where us: "us = u # r1" using assms by (cases us) (simp_all add: utf16_next_def)
  consider "u < 55296 \<or> (57344 \<le> u \<and> u < 65536)" | "55296 \<le> u" "u < 56320"
    using assms by (auto simp: us utf16_next_def split: if_splits)
  then show ?thesis
  proof cases
    case 1
    then show ?thesis using assms by (auto simp: us utf16_next_def utf16_char_def is_scalar_def)
  next
    case 2
    with assms obtain v where r1: "r1 = v # rest" and v: "56320 \<le> v" "v < 57344"
      and c: "c = 65536 + (u - 55296) * 1024 + (v - 56320)"
      by (auto simp: us utf16_next_def split: list.splits if_splits)
    define x y where xy: "x = u - 55296" "y = v - 56320"
    have uv: "u = 55296 + x" "v = 56320 + y" "x < 1024" "y < 1024" using 2 v by (auto simp: xy)
    have "c = 65536 + (x * 1024 + y)" using c xy by simp
    moreover have "(x * 1024 + y) div 1024 = x" "(x * 1024 + y) mod 1024 = y" using uv by simp_all
    ultimately show ?thesis using uv r1 by (simp add: us utf16_char_def is_scalar_def)
  qed
qed

lemma utf16_char_not_Nil: "utf16_char c \<noteq> []"
  by (simp add: utf16_char_def)

interpretation utf16: char_code utf16_char utf16_next
  using utf16_next_read utf16_next_write by unfold_locales (auto simp: utf16_char_not_Nil)

lemma from_utf8_iff: "from_utf8 bs = Some s \<longleftrightarrow> list_all is_scalar s \<and> bs = str_bytes s"
  by (simp add: from_utf8_def str_bytes_def utf8.decode_with_iff)

lemma from_utf16_iff: "from_utf16 us = Some s \<longleftrightarrow> list_all is_scalar s \<and> us = encode_utf16 s"
  by (simp add: from_utf16_def encode_utf16_def utf16.decode_with_iff)

lemma u16_units_bytes [simp]:
  "u16_units Utf16LeBom (concat (map to_le_bytes us)) = us"
  "u16_units Utf16BeBom (concat (map to_be_bytes us)) = us"
  by (induction us) (simp_all add: to_le_bytes_def to_be_bytes_def)

lemma even_length_bytes [simp]:
  "even (length (concat (map to_le_bytes us)))" "even (length (concat (map to_be_bytes us)))"
  by (induction us) (simp_all add: to_le_bytes_def to_be_bytes_def)

lemma bytes_u16_units:
  "even (length bs) \<Longrightarrow> list_all (\<lambda>b. b < 256) bs \<Longrightarrow>
     concat (map to_le_bytes (u16_units Utf16LeBom bs)) = bs
     \<and> concat (map to_be_bytes (u16_units Utf16BeBom bs)) = bs"
  by (induction Utf16LeBom bs rule: u16_units.induct) (auto simp: to_le_bytes_def to_be_bytes_def)

lemma str_bytes_first:
  assumes "list_all is_scalar s" and "str_bytes s = us" and "us \<noteq> []"
  shows "utf8_next us = Some (hd s, str_bytes (tl s))"
proof -
  obtain c t where s: "s = c # t" using assms(2,3) by (cases s) (auto simp: str_bytes_def)
  with assms show ?thesis by (auto simp: str_bytes_def utf8_next_write)
qed

text \<open>A file without mark does not look like one that has a mark.\<close>

lemma str_bytes_no_mark:
  assumes "list_all is_scalar s" and "s = [] \<or> hd s \<noteq> 65279"
  shows "strip_prefix (str_bytes s) [239, 187, 191] = None"
    "strip_prefix (str_bytes s) [255, 254] = None" "strip_prefix (str_bytes s) [254, 255] = None"
proof -
  note first = str_bytes_first [OF assms(1) refl]
  show "strip_prefix (str_bytes s) [255, 254] = None" "strip_prefix (str_bytes s) [254, 255] = None"
    using first
    by (auto simp: strip_prefix_None_iff starts_with_iff utf8_next_def split: if_splits)
  show "strip_prefix (str_bytes s) [239, 187, 191] = None"
  proof (rule ccontr)
    assume "strip_prefix (str_bytes s) [239, 187, 191] \<noteq> None"
    then obtain t where t: "str_bytes s = 239 # 187 # 191 # t"
      by (auto simp: strip_prefix_None_iff starts_with_iff)
    then have "hd s = 65279" "s \<noteq> []"
      using first by (auto simp: utf8_next_def is_cont_def str_bytes_def)
    with assms(2) show False by simp
  qed
qed

section \<open>Properties\<close>

text \<open>C32: a text file survives decoding and encoding byte for byte. Whatever bytes are decoded,
  encoding the text with the encoding that was detected gives the same bytes, and the text consists
  of Unicode scalar values; and decoding what was encoded gives the text and the encoding back,
  for every text of scalar values that, when it is stored without a mark, does not itself begin with
  the mark character.\<close>

theorem text_file_roundtrip:
  "(list_all (\<lambda>b. b < 256) bytes \<and> decode_text_file path bytes = Inr (s, e) \<longrightarrow>
      list_all is_scalar s \<and> encode_text_file s e = bytes)
   \<and> (list_all is_scalar t \<and> (f = Utf8 \<longrightarrow> t = [] \<or> hd t \<noteq> 65279) \<longrightarrow>
      decode_text_file path (encode_text_file t f) = Inr (t, f))"
proof (intro conjI impI; elim conjE)
  assume bytes: "list_all (\<lambda>b. b < 256) bytes" and dec: "decode_text_file path bytes = Inr (s, e)"
  have utf16: "list_all is_scalar s \<and> e = e' \<and> encode_text_file s e = m @ content"
    if "decode_utf16_file path content e' = Inr (s, e)" "bytes = m @ content"
      "(m, e') \<in> {([255, 254], Utf16LeBom), ([254, 255], Utf16BeBom)}" for content e' m
    using that bytes bytes_u16_units [of content]
    by (auto simp: decode_utf16_file_def from_utf16_iff even_iff_mod_2_eq_zero
        split: if_splits option.splits)
  show "list_all is_scalar s" "encode_text_file s e = bytes"
    using dec utf16
    by (auto simp: decode_text_file_def strip_prefix_Some_iff from_utf8_iff split: option.splits)
next
  assume t: "list_all is_scalar t" and "f = Utf8 \<longrightarrow> t = [] \<or> hd t \<noteq> 65279"
  moreover from t have "from_utf8 (str_bytes t) = Some t" "from_utf16 (encode_utf16 t) = Some t"
    by (simp_all add: from_utf8_iff from_utf16_iff)
  moreover have "strip_prefix (255 # x) [239, 187, 191] = None"
    "strip_prefix (254 # x) [239, 187, 191] = None" "strip_prefix (254 # x) [255, 254] = None" for x
    by (simp_all add: strip_prefix_def starts_with_def)
  ultimately show "decode_text_file path (encode_text_file t f) = Inr (t, f)"
    using str_bytes_no_mark [of t] strip_prefix_append [of "[239, 187, 191]" "str_bytes t"]
      strip_prefix_append [of "[255, 254]"] strip_prefix_append [of "[254, 255]"]
    by (cases f) (simp_all add: decode_text_file_def decode_utf16_file_def
        even_iff_mod_2_eq_zero [symmetric])
qed

theorem text_file_roundtrip_witness:
  "decode_text_file (lit ''f'') [255, 254, 61, 216, 0, 222, 65, 0] = Inr ([128512, 65], Utf16LeBom)
   \<and> encode_text_file [128512, 65] Utf16LeBom = [255, 254, 61, 216, 0, 222, 65, 0]
   \<and> decode_text_file (lit ''f'') (encode_text_file [8364] Utf8) = Inr ([8364], Utf8)"
proof -
  have d: "decode_text_file (lit ''f'') [255, 254, 61, 216, 0, 222, 65, 0]
      = Inr ([128512, 65], Utf16LeBom)"
    by (simp add: decode_text_file_def strip_prefix_def starts_with_def decode_utf16_file_def
        from_utf16_def decode_with.simps utf16_next_def)
  with text_file_roundtrip [of "[255, 254, 61, 216, 0, 222, 65, 0]" "lit ''f''" "[128512, 65]" Utf16LeBom
      "[8364]" Utf8]
  show ?thesis by (simp add: is_scalar_def)
qed

end
