(* ===== verification/Patch_Files.thy ===== *)
theory Patch_Files
  imports Patch_Apply Text_Encoding
begin

text \<open>
  Applying a parsed patch to the files of a workspace (\<open>tools/apply_patch.rs\<close>, from
  \<open>apply_patch_with_cancellation\<close> down to the path checks), on a POSIX file system. A path is
  the list of its components from the root, the file system a partial map from paths to nodes, and
  \<open>walk\<close> the resolution of a path by the kernel, which follows symbolic links, at most 40 of
  them; \<open>std::fs\<close> is written with it. Every operation returns the file system it leaves behind
  also when it fails, because earlier effects stay. Permissions and faults of the device are outside
  the model, and so are other processes. The counts of changed lines come from a diff library, a
  parameter; the panic of \<open>apply_update_chunks\<close> is the outcome \<open>Panicked\<close>.
\<close>

section \<open>The file system\<close>

type_synonym fpath = "rstr list"

datatype fnode = FFile "nat list" | FDir | FLink bool "rstr list"

type_synonym fsys = "fpath \<Rightarrow> fnode option"

datatype io_kind = NotFound | NotADirectory | IsADirectory | AlreadyExists | FilesystemLoop

definition DOTDOT :: rstr where "DOTDOT = lit ''..''"

text \<open>\<open>walk fuel fs follow create cur cs\<close> resolves \<open>cs\<close> from the directory
  \<open>cur\<close>; \<open>follow\<close> follows a link in the last place, \<open>create\<close> accepts a missing
  last component.\<close>

fun walk :: "nat \<Rightarrow> fsys \<Rightarrow> bool \<Rightarrow> bool \<Rightarrow> fpath \<Rightarrow> rstr list \<Rightarrow> io_kind + fpath" where
  "walk fuel fs follow create cur [] = Inr cur"
| "walk fuel fs follow create cur (c # cs) =
     (case fs cur of
        Some FDir \<Rightarrow>
          if c = DOTDOT then walk fuel fs follow create (butlast cur) cs
          else
            (case fs (cur @ [c]) of
               None \<Rightarrow> if create \<and> cs = [] then Inr (cur @ [c]) else Inl NotFound
             | Some (FLink absolute target) \<Rightarrow>
                 if cs = [] \<and> \<not> follow then Inr (cur @ [c])
                 else
                   (case fuel of
                      0 \<Rightarrow> Inl FilesystemLoop
                    | Suc n \<Rightarrow> walk n fs follow create (if absolute then [] else cur) (target @ cs))
             | Some _ \<Rightarrow> walk fuel fs follow create (cur @ [c]) cs)
      | None \<Rightarrow> Inl NotFound
      | Some _ \<Rightarrow> Inl NotADirectory)"

definition SYMLINK_MAX :: nat where "SYMLINK_MAX = 40"

definition fs_canonicalize :: "fsys \<Rightarrow> fpath \<Rightarrow> io_kind + fpath" where
  "fs_canonicalize fs p = walk SYMLINK_MAX fs True False [] p"

definition fs_symlink_metadata :: "fsys \<Rightarrow> fpath \<Rightarrow> io_kind + fnode" where
  "fs_symlink_metadata fs p =
     (case walk SYMLINK_MAX fs False False [] p of
        Inl e \<Rightarrow> Inl e
      | Inr q \<Rightarrow> (case fs q of None \<Rightarrow> Inl NotFound | Some n \<Rightarrow> Inr n))"

definition fs_read :: "fsys \<Rightarrow> fpath \<Rightarrow> io_kind + nat list" where
  "fs_read fs p =
     (case walk SYMLINK_MAX fs True False [] p of
        Inl e \<Rightarrow> Inl e
      | Inr q \<Rightarrow> (case fs q of Some (FFile b) \<Rightarrow> Inr b | None \<Rightarrow> Inl NotFound | _ \<Rightarrow> Inl IsADirectory))"

definition fs_write :: "fsys \<Rightarrow> fpath \<Rightarrow> nat list \<Rightarrow> io_kind + fsys" where
  "fs_write fs p bytes =
     (case walk SYMLINK_MAX fs True True [] p of
        Inl e \<Rightarrow> Inl e
      | Inr q \<Rightarrow> if fs q = Some FDir then Inl IsADirectory else Inr (fs(q \<mapsto> FFile bytes)))"

definition fs_remove_file :: "fsys \<Rightarrow> fpath \<Rightarrow> io_kind + fsys" where
  "fs_remove_file fs p =
     (case walk SYMLINK_MAX fs False False [] p of
        Inl e \<Rightarrow> Inl e
      | Inr q \<Rightarrow> if fs q = Some FDir then Inl IsADirectory else Inr (fs(q := None)))"

definition fs_create_dir :: "fsys \<Rightarrow> fpath \<Rightarrow> io_kind + fsys" where
  "fs_create_dir fs p =
     (case walk SYMLINK_MAX fs False True [] p of
        Inl e \<Rightarrow> Inl e
      | Inr q \<Rightarrow> if fs q \<noteq> None then Inl AlreadyExists else Inr (fs(q \<mapsto> FDir)))"

section \<open>Errors and results\<close>

datatype ToolRuntimeError =
  Cancelled
| InvalidArguments rstr
| InvalidPath rstr
| IoError fpath io_kind
| NotFile fpath
| NotDirectory fpath
| FileTooLarge fpath nat nat
| UnsupportedEncodingError fpath
| WorkspaceDatabaseError rstr

datatype patch_failure = ToolFailure ToolRuntimeError | Panicked

abbreviation tool_err :: "ToolRuntimeError \<Rightarrow> patch_failure + 'a" where
  "tool_err e \<equiv> Inl (ToolFailure e)"

record AffectedPaths =
  added :: "rstr list"
  modified :: "rstr list"
  deleted :: "rstr list"
  lines_added :: nat
  lines_removed :: nat

definition affected_default :: AffectedPaths where
  "affected_default = \<lparr>added = [], modified = [], deleted = [], lines_added = 0, lines_removed = 0\<rparr>"

definition affected_summary :: "AffectedPaths \<Rightarrow> rstr" where
  "affected_summary a =
     lit ''Success. Updated the following files:'' @ [NL]
     @ concat (map (\<lambda>p. lit ''A '' @ p @ [NL]) (added a))
     @ concat (map (\<lambda>p. lit ''M '' @ p @ [NL]) (modified a))
     @ concat (map (\<lambda>p. lit ''D '' @ p @ [NL]) (deleted a))"

text \<open>The diff library gives the lines added and removed, or fails, which counts as none.\<close>

type_synonym text_stats = "rstr \<Rightarrow> rstr \<Rightarrow> (nat \<times> nat) option"

definition record_text_change :: "text_stats \<Rightarrow> rstr \<Rightarrow> rstr \<Rightarrow> AffectedPaths \<Rightarrow> AffectedPaths" where
  "record_text_change stats old new a =
     (case (case stats old new of None \<Rightarrow> (0, 0) | Some s \<Rightarrow> s) of
        (up, down) \<Rightarrow>
          a\<lparr>lines_added := lines_added a + up, lines_removed := lines_removed a + down\<rparr>)"

definition display_patch_path :: "rstr \<Rightarrow> rstr" where
  "display_patch_path path = replace_char 92 47 (trim path)"

section \<open>Checking paths\<close>

definition is_absolute :: "rstr \<Rightarrow> bool" where
  "is_absolute p \<longleftrightarrow> starts_with p (lit ''/'')"

text \<open>\<open>Path::components\<close> without the root and the current directory.\<close>

definition path_components :: "rstr \<Rightarrow> rstr list" where
  "path_components p = filter (\<lambda>c. c \<noteq> [] \<and> c \<noteq> lit ''.'') (split_on 47 p)"

definition escapes_error :: "rstr \<Rightarrow> ToolRuntimeError" where
  "escapes_error p = InvalidPath (lit ''apply_patch path escapes the workspace: '' @ p)"

definition file_name_error :: "rstr \<Rightarrow> ToolRuntimeError" where
  "file_name_error p = InvalidPath (lit ''apply_patch path must include a file name: '' @ p)"

definition symlink_error :: "rstr \<Rightarrow> ToolRuntimeError" where
  "symlink_error p = InvalidPath (lit ''apply_patch rejects symlink paths: '' @ p)"

text \<open>The loop of \<open>canonicalize_absolute_target\<close>: \<open>unresolved\<close> holds the components
  below \<open>ancestor\<close> in the order of the path.\<close>

function canonicalize_loop ::
    "fsys \<Rightarrow> rstr \<Rightarrow> fpath \<Rightarrow> rstr list \<Rightarrow> ToolRuntimeError + fpath" where
  "canonicalize_loop fs requested ancestor unresolved =
     (case fs_canonicalize fs ancestor of
        Inr canonical \<Rightarrow> Inr (canonical @ unresolved)
      | Inl e \<Rightarrow>
          if e = NotFound then
            (if ancestor = [] then Inl (file_name_error requested)
             else canonicalize_loop fs requested (butlast ancestor) (last ancestor # unresolved))
          else Inl (IoError ancestor e))"
  by pat_completeness auto
termination
  by (relation "measure (\<lambda>(_, _, a, _). length a)") auto

declare canonicalize_loop.simps [simp del]

definition canonicalize_absolute_target :: "fsys \<Rightarrow> rstr \<Rightarrow> ToolRuntimeError + fpath" where
  "canonicalize_absolute_target fs requested =
     canonicalize_loop fs requested (path_components requested) []"

definition resolve_patch_target :: "fsys \<Rightarrow> fpath \<Rightarrow> rstr \<Rightarrow> ToolRuntimeError + fpath" where
  "resolve_patch_target fs workspace raw_path =
     (let path_text = trim raw_path; cs = path_components path_text
      in if path_text = [] then Inl (InvalidPath (lit ''apply_patch path must not be empty''))
         else if cs = [] \<or> last cs = DOTDOT then Inl (file_name_error path_text)
         else if DOTDOT \<in> set cs then Inl (escapes_error path_text)
         else
           (case (if is_absolute path_text then canonicalize_absolute_target fs path_text
                  else Inr (workspace @ cs)) of
              Inl e \<Rightarrow> Inl e
            | Inr target \<Rightarrow>
                if take (length workspace) target \<noteq> workspace then Inl (escapes_error path_text)
                else
                  (let relative = drop (length workspace) target
                   in if relative = [] \<or> DOTDOT \<in> set relative then Inl (escapes_error path_text)
                      else Inr target)))"

definition is_link :: "fnode \<Rightarrow> bool" where
  "is_link n \<longleftrightarrow> (case n of FLink _ _ \<Rightarrow> True | _ \<Rightarrow> False)"

definition is_file :: "fnode \<Rightarrow> bool" where
  "is_file n \<longleftrightarrow> (case n of FFile _ \<Rightarrow> True | _ \<Rightarrow> False)"

definition validate_directory_component ::
    "fsys \<Rightarrow> fpath \<Rightarrow> fpath \<Rightarrow> fnode \<Rightarrow> rstr \<Rightarrow> ToolRuntimeError + unit" where
  "validate_directory_component fs workspace path node raw_path =
     (if is_link node then Inl (symlink_error raw_path)
      else if node \<noteq> FDir then
        Inl (InvalidPath (lit ''apply_patch parent is not a directory: '' @ raw_path))
      else
        (case fs_canonicalize fs path of
           Inl e \<Rightarrow> Inl (IoError path e)
         | Inr canonical \<Rightarrow>
             if take (length workspace) canonical \<noteq> workspace then Inl (escapes_error raw_path)
             else Inr ()))"

text \<open>The loop of \<open>validate_existing_components\<close>; the last component must be a file.\<close>

fun validate_loop :: "fsys \<Rightarrow> fpath \<Rightarrow> fpath \<Rightarrow> rstr list \<Rightarrow> rstr \<Rightarrow> ToolRuntimeError + unit" where
  "validate_loop fs workspace current [] raw_path = Inr ()"
| "validate_loop fs workspace current (c # cs) raw_path =
     (if c = DOTDOT then Inl (escapes_error raw_path)
      else
        (case fs_symlink_metadata fs (current @ [c]) of
           Inl e \<Rightarrow> Inl (IoError (current @ [c]) e)
         | Inr node \<Rightarrow>
             if is_link node then Inl (symlink_error raw_path)
             else if cs = [] then
               (if \<not> is_file node then Inl (NotFile (current @ [c])) else Inr ())
             else
               (case validate_directory_component fs workspace (current @ [c]) node raw_path of
                  Inl e \<Rightarrow> Inl e
                | Inr _ \<Rightarrow> validate_loop fs workspace (current @ [c]) cs raw_path)))"

definition validate_existing_regular_file ::
    "fsys \<Rightarrow> fpath \<Rightarrow> fpath \<Rightarrow> rstr \<Rightarrow> ToolRuntimeError + unit" where
  "validate_existing_regular_file fs workspace target raw_path =
     (if take (length workspace) target \<noteq> workspace then Inl (escapes_error raw_path)
      else validate_loop fs workspace workspace (drop (length workspace) target) raw_path)"

definition resolve_existing_patch_file :: "fsys \<Rightarrow> fpath \<Rightarrow> rstr \<Rightarrow> ToolRuntimeError + fpath" where
  "resolve_existing_patch_file fs workspace raw_path =
     (case resolve_patch_target fs workspace raw_path of
        Inl e \<Rightarrow> Inl e
      | Inr target \<Rightarrow>
          (case validate_existing_regular_file fs workspace target raw_path of
             Inl e \<Rightarrow> Inl e
           | Inr _ \<Rightarrow> Inr target))"

section \<open>Changing files\<close>

text \<open>The loop of \<open>ensure_safe_parent_dirs\<close>.\<close>

fun parent_dirs_loop :: "fsys \<Rightarrow> fpath \<Rightarrow> fpath \<Rightarrow> rstr list \<Rightarrow> rstr \<Rightarrow> fsys \<times> (ToolRuntimeError + unit)" where
  "parent_dirs_loop fs workspace current [] raw_path = (fs, Inr ())"
| "parent_dirs_loop fs workspace current (c # cs) raw_path =
     (if c = DOTDOT then (fs, Inl (escapes_error raw_path))
      else
        (case fs_symlink_metadata fs (current @ [c]) of
           Inr node \<Rightarrow>
             (case validate_directory_component fs workspace (current @ [c]) node raw_path of
                Inl e \<Rightarrow> (fs, Inl e)
              | Inr _ \<Rightarrow> parent_dirs_loop fs workspace (current @ [c]) cs raw_path)
         | Inl e \<Rightarrow>
             if e = NotFound then
               (case fs_create_dir fs (current @ [c]) of
                  Inl e \<Rightarrow> (fs, Inl (IoError (current @ [c]) e))
                | Inr fs' \<Rightarrow>
                    (case fs_symlink_metadata fs' (current @ [c]) of
                       Inl e \<Rightarrow> (fs', Inl (IoError (current @ [c]) e))
                     | Inr node \<Rightarrow>
                         (case validate_directory_component fs' workspace (current @ [c]) node raw_path of
                            Inl e \<Rightarrow> (fs', Inl e)
                          | Inr _ \<Rightarrow> parent_dirs_loop fs' workspace (current @ [c]) cs raw_path)))
             else (fs, Inl (IoError (current @ [c]) e))))"

definition ensure_safe_parent_dirs ::
    "fsys \<Rightarrow> fpath \<Rightarrow> fpath \<Rightarrow> rstr \<Rightarrow> fsys \<times> (ToolRuntimeError + unit)" where
  "ensure_safe_parent_dirs fs workspace target raw_path =
     (if target = [] then (fs, Inl (file_name_error raw_path))
      else if take (length workspace) (butlast target) \<noteq> workspace
      then (fs, Inl (escapes_error raw_path))
      else parent_dirs_loop fs workspace workspace (drop (length workspace) (butlast target)) raw_path)"

definition prepare_write_target ::
    "fsys \<Rightarrow> fpath \<Rightarrow> fpath \<Rightarrow> rstr \<Rightarrow> fsys \<times> (ToolRuntimeError + unit)" where
  "prepare_write_target fs workspace target raw_path =
     (case fs_symlink_metadata fs target of
        Inr _ \<Rightarrow> (fs, validate_existing_regular_file fs workspace target raw_path)
      | Inl e \<Rightarrow>
          if e = NotFound \<or> e = NotADirectory
          then ensure_safe_parent_dirs fs workspace target raw_path
          else (fs, Inl (IoError target e)))"

definition apply_add_file :: "text_stats \<Rightarrow> fsys \<Rightarrow> fpath \<Rightarrow> rstr \<Rightarrow> rstr \<Rightarrow> AffectedPaths
    \<Rightarrow> fsys \<times> (patch_failure + AffectedPaths)" where
  "apply_add_file stats fs workspace path contents affected =
     (case resolve_patch_target fs workspace path of
        Inl e \<Rightarrow> (fs, tool_err e)
      | Inr target \<Rightarrow>
          (case prepare_write_target fs workspace target path of
             (fs1, Inl e) \<Rightarrow> (fs1, tool_err e)
           | (fs1, Inr _) \<Rightarrow>
               (case fs_write fs1 target (str_bytes contents) of
                  Inl e \<Rightarrow> (fs1, tool_err (IoError target e))
                | Inr fs2 \<Rightarrow>
                    (fs2, Inr (record_text_change stats [] contents
                       (affected\<lparr>added := added affected @ [display_patch_path path]\<rparr>))))))"

definition apply_delete_file :: "text_stats \<Rightarrow> fsys \<Rightarrow> fpath \<Rightarrow> rstr \<Rightarrow> AffectedPaths
    \<Rightarrow> fsys \<times> (patch_failure + AffectedPaths)" where
  "apply_delete_file stats fs workspace path affected =
     (case resolve_existing_patch_file fs workspace path of
        Inl e \<Rightarrow> (fs, tool_err e)
      | Inr target \<Rightarrow>
          (let original =
             (case fs_read fs target of
                Inl _ \<Rightarrow> None
              | Inr bytes \<Rightarrow>
                  (case decode_text_file target bytes of Inl _ \<Rightarrow> None | Inr (content, _) \<Rightarrow> Some content))
           in case fs_remove_file fs target of
                Inl e \<Rightarrow> (fs, tool_err (IoError target e))
              | Inr fs' \<Rightarrow>
                  (let affected' = affected\<lparr>deleted := deleted affected @ [display_patch_path path]\<rparr>
                   in (fs', Inr (case original of
                                   None \<Rightarrow> affected'
                                 | Some t \<Rightarrow> record_text_change stats t [] affected')))))"

text \<open>An update after its new contents are known: in place, or to the destination of the move.\<close>

definition write_updated :: "fsys \<Rightarrow> fpath \<Rightarrow> fpath \<Rightarrow> rstr option \<Rightarrow> nat list
    \<Rightarrow> fsys \<times> (patch_failure + unit)" where
  "write_updated fs workspace source move_path encoded =
     (case move_path of
        None \<Rightarrow>
          (case fs_write fs source encoded of
             Inl e \<Rightarrow> (fs, tool_err (IoError source e))
           | Inr fs' \<Rightarrow> (fs', Inr ()))
      | Some move_path \<Rightarrow>
          (case resolve_patch_target fs workspace move_path of
             Inl e \<Rightarrow> (fs, tool_err e)
           | Inr destination \<Rightarrow>
               if destination = source then
                 (fs, tool_err (InvalidArguments
                    (lit ''invalid patch: Move destination must differ from source: '' @ move_path)))
               else
                 (case prepare_write_target fs workspace destination move_path of
                    (fs1, Inl e) \<Rightarrow> (fs1, tool_err e)
                  | (fs1, Inr _) \<Rightarrow>
                      (case fs_write fs1 destination encoded of
                         Inl e \<Rightarrow> (fs1, tool_err (IoError destination e))
                       | Inr fs2 \<Rightarrow>
                           (case fs_remove_file fs2 source of
                              Inl e \<Rightarrow> (fs2, tool_err (IoError source e))
                            | Inr fs3 \<Rightarrow> (fs3, Inr ()))))))"

definition apply_update_file :: "text_stats \<Rightarrow> fsys \<Rightarrow> fpath \<Rightarrow> rstr \<Rightarrow> rstr option
    \<Rightarrow> UpdateFileChunk list \<Rightarrow> AffectedPaths \<Rightarrow> fsys \<times> (patch_failure + AffectedPaths)" where
  "apply_update_file stats fs workspace path move_path chunks affected =
     (case resolve_existing_patch_file fs workspace path of
        Inl e \<Rightarrow> (fs, tool_err e)
      | Inr source \<Rightarrow>
     (case fs_read fs source of
        Inl e \<Rightarrow> (fs, tool_err (IoError source e))
      | Inr bytes \<Rightarrow>
     (case decode_text_file source bytes of
        Inl (UnsupportedEncoding p) \<Rightarrow> (fs, tool_err (UnsupportedEncodingError p))
      | Inr (original, encoding) \<Rightarrow>
     (case apply_update_chunks original path chunks of
        None \<Rightarrow> (fs, Inl Panicked)
      | Some (Inl message) \<Rightarrow> (fs, tool_err (InvalidArguments message))
      | Some (Inr updated) \<Rightarrow>
     (case write_updated fs workspace source move_path (encode_text_file updated encoding) of
        (fs', Inl e) \<Rightarrow> (fs', Inl e)
      | (fs', Inr _) \<Rightarrow>
          (fs', Inr (record_text_change stats original updated
             (affected\<lparr>modified := modified affected
                @ [display_patch_path (case move_path of None \<Rightarrow> path | Some d \<Rightarrow> d)]\<rparr>))))))))"

definition apply_hunk :: "text_stats \<Rightarrow> fsys \<Rightarrow> fpath \<Rightarrow> PatchHunk \<Rightarrow> AffectedPaths
    \<Rightarrow> fsys \<times> (patch_failure + AffectedPaths)" where
  "apply_hunk stats fs workspace h affected =
     (case h of
        AddFile path contents \<Rightarrow> apply_add_file stats fs workspace path contents affected
      | DeleteFile path \<Rightarrow> apply_delete_file stats fs workspace path affected
      | UpdateFile path move_path chunks \<Rightarrow>
          apply_update_file stats fs workspace path move_path chunks affected)"

section \<open>The tool call\<close>

definition DEFAULT_APPLY_PATCH_TIMEOUT_MS :: nat where "DEFAULT_APPLY_PATCH_TIMEOUT_MS = 10000"
definition MAX_TOOL_TIMEOUT_MS :: nat where "MAX_TOOL_TIMEOUT_MS = 600000"

definition tool_timeout_ms :: "nat option \<Rightarrow> nat \<Rightarrow> ToolRuntimeError + nat" where
  "tool_timeout_ms timeout_ms default_timeout_ms =
     (let t = (case timeout_ms of None \<Rightarrow> default_timeout_ms | Some t \<Rightarrow> t)
      in if t = 0 \<or> t > MAX_TOOL_TIMEOUT_MS
         then Inl (InvalidArguments (lit ''timeoutMs must be between 1 and ''
                @ nat_display MAX_TOOL_TIMEOUT_MS @ lit '' milliseconds''))
         else Inr t)"

text \<open>What a check of the cancellation token and of the clock sees: cancelled, and the deadline
  passed.\<close>

type_synonym activity = "bool \<times> bool"

definition ensure_apply_patch_active :: "activity \<Rightarrow> nat \<Rightarrow> ToolRuntimeError + unit" where
  "ensure_apply_patch_active seen timeout_ms =
     (if fst seen then Inl Cancelled
      else if snd seen then
        Inl (InvalidArguments (lit ''apply_patch timed out after '' @ nat_display timeout_ms @ lit '' ms''))
      else Inr ())"

text \<open>\<open>clock n\<close> is what the n-th check sees.\<close>

fun apply_hunks :: "text_stats \<Rightarrow> (nat \<Rightarrow> activity) \<Rightarrow> nat \<Rightarrow> nat \<Rightarrow> fsys \<Rightarrow> fpath \<Rightarrow> PatchHunk list
    \<Rightarrow> AffectedPaths \<Rightarrow> fsys \<times> (patch_failure + AffectedPaths)" where
  "apply_hunks stats clock n timeout_ms fs workspace [] affected = (fs, Inr affected)"
| "apply_hunks stats clock n timeout_ms fs workspace (h # hs) affected =
     (case ensure_apply_patch_active (clock n) timeout_ms of
        Inl e \<Rightarrow> (fs, tool_err e)
      | Inr _ \<Rightarrow>
          (case apply_hunk stats fs workspace h affected of
             (fs', Inl e) \<Rightarrow> (fs', Inl e)
           | (fs', Inr affected') \<Rightarrow>
               apply_hunks stats clock (Suc n) timeout_ms fs' workspace hs affected'))"

record ApplyPatchInput =
  patch_text :: rstr
  requested_timeout_ms :: "nat option"

definition apply_patch_with_cancellation :: "text_stats \<Rightarrow> (nat \<Rightarrow> activity) \<Rightarrow> fsys \<Rightarrow> fpath
    \<Rightarrow> ApplyPatchInput \<Rightarrow> fsys \<times> (patch_failure + AffectedPaths)" where
  "apply_patch_with_cancellation stats clock fs workspace_path request =
     (case tool_timeout_ms (requested_timeout_ms request) DEFAULT_APPLY_PATCH_TIMEOUT_MS of
        Inl e \<Rightarrow> (fs, tool_err e)
      | Inr timeout_ms \<Rightarrow>
     (case ensure_apply_patch_active (clock 0) timeout_ms of
        Inl e \<Rightarrow> (fs, tool_err e)
      | Inr _ \<Rightarrow>
     (case parse_patch (patch_text request) of
        Inl e \<Rightarrow> (fs, tool_err (InvalidArguments (patch_parse_error_display e)))
      | Inr hunks \<Rightarrow>
          if hunks = [] then
            (fs, tool_err (InvalidArguments (lit ''invalid patch: No files were modified.'')))
          else
            (case fs_canonicalize fs workspace_path of
               Inl e \<Rightarrow> (fs, tool_err (IoError workspace_path e))
             | Inr workspace \<Rightarrow>
                 apply_hunks stats clock 1 timeout_ms fs workspace hunks affected_default))))"

section \<open>Trees and real directories\<close>

definition fs_tree :: "fsys \<Rightarrow> bool" where
  "fs_tree fs \<longleftrightarrow> fs [] = Some FDir \<and> (\<forall>p c. fs (p @ [c]) \<noteq> None \<longrightarrow> fs p = Some FDir)"

text \<open>All proper prefixes of the path are directories, none of them behind a link, and no component
  goes up.\<close>

definition real_parents :: "fsys \<Rightarrow> fpath \<Rightarrow> bool" where
  "real_parents fs p \<longleftrightarrow>
     DOTDOT \<notin> set p \<and> (\<forall>n < length p. fs (take n p) = Some FDir)"

definition real_dir :: "fsys \<Rightarrow> fpath \<Rightarrow> bool" where
  "real_dir fs p \<longleftrightarrow> real_parents fs p \<and> fs p = Some FDir"

lemma real_parents_snoc: "real_parents fs (p @ [c]) \<longleftrightarrow> real_dir fs p \<and> c \<noteq> DOTDOT"
  by (auto simp: real_parents_def real_dir_def less_Suc_eq)

lemma real_dir_Nil: "fs_tree fs \<Longrightarrow> real_dir fs []"
  by (simp add: real_dir_def real_parents_def fs_tree_def)

lemma real_dir_butlast: "fs_tree fs \<Longrightarrow> real_dir fs p \<Longrightarrow> real_dir fs (butlast p)"
  by (cases p rule: rev_cases) (simp_all add: real_dir_def [of fs "_ @ _"] real_parents_snoc)

text \<open>In a tree, walking along real directories goes straight to the path itself.\<close>

lemma walk_straight:
  "real_dir fs cur \<Longrightarrow> real_parents fs (cur @ cs) \<Longrightarrow> cs \<noteq> [] \<Longrightarrow>
     walk fuel fs follow create cur cs =
       (case fs (cur @ cs) of
          None \<Rightarrow> if create then Inr (cur @ cs) else Inl NotFound
        | Some (FLink absolute target) \<Rightarrow>
            if \<not> follow then Inr (cur @ cs)
            else (case fuel of
                    0 \<Rightarrow> Inl FilesystemLoop
                  | Suc n \<Rightarrow> walk n fs follow create
                      (if absolute then [] else butlast (cur @ cs)) target)
        | Some _ \<Rightarrow> Inr (cur @ cs))"
proof (induction cs arbitrary: cur)
  case Nil
  then show ?case by simp
next
  case (Cons c cs)
  have c: "c \<noteq> DOTDOT" and cur: "fs cur = Some FDir"
    using Cons.prems by (auto simp: real_parents_def real_dir_def)
  show ?case
  proof (cases "cs = []")
    case True
    with c cur show ?thesis by (auto split: option.split fnode.split nat.split)
  next
    case False
    have parents: "real_parents fs ((cur @ [c]) @ cs)" using Cons.prems(2) by simp
    have "fs (take (Suc (length cur)) (cur @ c # cs)) = Some FDir"
      using Cons.prems(2) False by (simp add: real_parents_def del: take_append)
    then have next_dir: "fs (cur @ [c]) = Some FDir" by simp
    have "real_dir fs (cur @ [c])"
      using Cons.prems(1) c next_dir by (simp add: real_dir_def [of fs "_ @ _"] real_parents_snoc)
    note step = Cons.IH [OF this parents False]
    have flat: "(cur @ [c]) @ cs = cur @ c # cs" by simp
    have "walk fuel fs follow create cur (c # cs) = walk fuel fs follow create (cur @ [c]) cs"
      using next_dir cur c False by simp
    with step show ?thesis unfolding flat by (rule trans [rotated])
  qed
qed

lemma tree_prefix: "fs_tree fs \<Longrightarrow> fs p \<noteq> None \<Longrightarrow> n < length p \<Longrightarrow> fs (take n p) = Some FDir"
proof (induction p rule: rev_induct)
  case Nil
  then show ?case by simp
next
  case (snoc c p)
  then have p: "fs p = Some FDir" by (auto simp: fs_tree_def)
  show ?case
  proof (cases "n < length p")
    case True
    with snoc p show ?thesis by simp
  next
    case False
    with snoc.prems(3) p show ?thesis by simp
  qed
qed

lemma tree_real_parents: "fs_tree fs \<Longrightarrow> fs p \<noteq> None \<Longrightarrow> DOTDOT \<notin> set p \<Longrightarrow> real_parents fs p"
  by (simp add: real_parents_def tree_prefix)

section \<open>Operations at a path with real parents\<close>

lemma walk_root:
  assumes "fs_tree fs" "real_parents fs p" "p \<noteq> []"
  shows "walk fuel fs follow create [] p =
       (case fs p of
          None \<Rightarrow> if create then Inr p else Inl NotFound
        | Some (FLink absolute target) \<Rightarrow>
            if \<not> follow then Inr p
            else (case fuel of
                    0 \<Rightarrow> Inl FilesystemLoop
                  | Suc n \<Rightarrow> walk n fs follow create (if absolute then [] else butlast p) target)
        | Some _ \<Rightarrow> Inr p)"
  using walk_straight [OF real_dir_Nil [OF assms(1)], of p] assms
  unfolding append_Nil by blast

lemma metadata_real:
  "fs_tree fs \<Longrightarrow> real_parents fs p \<Longrightarrow> p \<noteq> [] \<Longrightarrow>
     fs_symlink_metadata fs p = (case fs p of None \<Rightarrow> Inl NotFound | Some n \<Rightarrow> Inr n)"
  by (simp add: fs_symlink_metadata_def walk_root split: option.split fnode.split)

lemma read_real:
  "fs_tree fs \<Longrightarrow> real_parents fs p \<Longrightarrow> p \<noteq> [] \<Longrightarrow> fs p = Some (FFile b) \<Longrightarrow> fs_read fs p = Inr b"
  by (simp add: fs_read_def walk_root)

lemma write_real:
  "fs_tree fs \<Longrightarrow> real_parents fs p \<Longrightarrow> p \<noteq> [] \<Longrightarrow> \<forall>n. fs p = Some n \<longrightarrow> is_file n \<Longrightarrow>
     fs_write fs p b = Inr (fs(p \<mapsto> FFile b))"
  by (auto simp: fs_write_def walk_root is_file_def split: option.split fnode.split)

lemma remove_real:
  "fs_tree fs \<Longrightarrow> real_parents fs p \<Longrightarrow> p \<noteq> [] \<Longrightarrow> fs p = Some n \<Longrightarrow> is_file n \<Longrightarrow>
     fs_remove_file fs p = Inr (fs(p := None))"
  by (auto simp: fs_remove_file_def walk_root is_file_def split: option.split fnode.split)

lemma create_dir_real:
  "fs_tree fs \<Longrightarrow> real_parents fs p \<Longrightarrow> p \<noteq> [] \<Longrightarrow> fs p = None \<Longrightarrow>
     fs_create_dir fs p = Inr (fs(p \<mapsto> FDir))"
  by (simp add: fs_create_dir_def walk_root)

text \<open>Whatever a path is resolved to is a real place: nothing on the way to it is a link.\<close>

lemma walk_real:
  "walk fuel fs True False cur cs = Inr q \<Longrightarrow> fs_tree fs \<Longrightarrow> real_parents fs cur \<Longrightarrow>
     (\<exists>n. fs cur = Some n \<and> \<not> is_link n) \<Longrightarrow>
     real_parents fs q \<and> (\<exists>n. fs q = Some n \<and> \<not> is_link n)"
proof (induction fuel fs True False cur cs rule: walk.induct)
  case (1 fuel fs cur)
  then show ?case by simp
next
  case (2 fuel fs cur c cs)
  have cur: "fs cur = Some FDir" using "2.prems"(1) by (auto split: option.splits fnode.splits)
  then have dir: "real_dir fs cur" using "2.prems"(3) by (simp add: real_dir_def)
  note up = real_dir_butlast [OF "2.prems"(2) dir]
  have root: "real_parents fs []" "\<exists>n. fs [] = Some n \<and> \<not> is_link n"
    using "2.prems"(2) by (auto simp: real_parents_def fs_tree_def is_link_def)
  show ?case
  proof (cases "c = DOTDOT")
    case True
    with "2.prems"(1) cur have "walk fuel fs True False (butlast cur) cs = Inr q" by simp
    with "2.hyps"(1) [OF cur _ True] "2.prems"(2) up show ?thesis
      by (auto simp: real_dir_def is_link_def)
  next
    case False
    then obtain n where n: "fs (cur @ [c]) = Some n"
      using "2.prems"(1) cur by (auto split: option.splits)
    have "real_parents fs (cur @ [c])" using dir False by (simp add: real_parents_snoc)
    with 2 n cur False root dir show ?thesis
      by (cases n) (auto simp: is_link_def real_dir_def split: nat.splits)
  qed
qed

lemma canonicalize_real:
  assumes "fs_canonicalize fs p = Inr q" and "fs_tree fs"
  shows "real_parents fs q \<and> (\<exists>n. fs q = Some n \<and> \<not> is_link n)"
  using walk_real [of SYMLINK_MAX fs "[]" p q] assms
  by (auto simp: fs_canonicalize_def real_parents_def fs_tree_def is_link_def)

section \<open>Changes stay below the workspace\<close>

text \<open>\<open>good ws fs\<close>: the file system is a tree and the workspace a real directory of it;
  \<open>confined ws fs fs'\<close>: it still is, and only paths strictly below the workspace changed.\<close>

definition good :: "fpath \<Rightarrow> fsys \<Rightarrow> bool" where
  "good ws fs \<longleftrightarrow> fs_tree fs \<and> real_dir fs ws"

definition confined :: "fpath \<Rightarrow> fsys \<Rightarrow> fsys \<Rightarrow> bool" where
  "confined ws fs fs' \<longleftrightarrow> good ws fs' \<and> (\<forall>p. fs' p \<noteq> fs p \<longrightarrow> (\<exists>s. s \<noteq> [] \<and> p = ws @ s))"

lemma confined_refl: "good ws fs \<Longrightarrow> confined ws fs fs"
  by (simp add: confined_def)

lemma confined_trans: "confined ws fs fs1 \<Longrightarrow> confined ws fs1 fs2 \<Longrightarrow> confined ws fs fs2"
  unfolding confined_def by metis

lemma real_dir_update:
  assumes "real_dir fs ws" and "s \<noteq> []"
  shows "real_dir (fs(ws @ s := x)) ws"
proof -
  have "take n ws \<noteq> ws @ s" for n using assms(2)
    by (metis append_is_Nil_conv append_take_drop_id append_assoc append_self_conv)
  moreover have "ws \<noteq> ws @ s" using assms(2) by simp
  ultimately show ?thesis using assms(1) by (simp add: real_dir_def real_parents_def)
qed

lemma tree_insert:
  "fs_tree fs \<Longrightarrow> real_parents fs p \<Longrightarrow> p \<noteq> [] \<Longrightarrow> fs p \<noteq> Some FDir \<or> n = FDir \<Longrightarrow>
     fs_tree (fs(p \<mapsto> n))"
  unfolding fs_tree_def
  by (cases p rule: rev_cases) (auto simp: real_parents_snoc real_dir_def)

lemma tree_delete: "fs_tree fs \<Longrightarrow> p \<noteq> [] \<Longrightarrow> fs p \<noteq> Some FDir \<Longrightarrow> fs_tree (fs(p := None))"
  unfolding fs_tree_def by (auto, metis option.distinct(1) not_None_eq)

lemma confined_insert:
  "good ws fs \<Longrightarrow> real_parents fs (ws @ s) \<Longrightarrow> s \<noteq> [] \<Longrightarrow> fs (ws @ s) \<noteq> Some FDir \<or> n = FDir \<Longrightarrow>
     confined ws fs (fs(ws @ s \<mapsto> n))"
  by (auto simp: confined_def good_def tree_insert real_dir_update)

lemma confined_delete:
  "good ws fs \<Longrightarrow> s \<noteq> [] \<Longrightarrow> fs (ws @ s) \<noteq> Some FDir \<Longrightarrow> confined ws fs (fs(ws @ s := None))"
  by (auto simp: confined_def good_def tree_delete real_dir_update)

text \<open>A validated path is a regular file behind real directories.\<close>

lemma validate_directory_dir:
  "validate_directory_component fs ws p node raw = Inr u \<Longrightarrow> node = FDir"
  by (auto simp: validate_directory_component_def split: if_splits)

lemma validate_loop_real:
  "validate_loop fs ws cur cs raw = Inr u \<Longrightarrow> fs_tree fs \<Longrightarrow> real_dir fs cur \<Longrightarrow> cs \<noteq> [] \<Longrightarrow>
     real_parents fs (cur @ cs) \<and> (\<exists>b. fs (cur @ cs) = Some (FFile b))"
proof (induction cs arbitrary: cur)
  case Nil
  then show ?case by simp
next
  case (Cons c cs)
  have c: "c \<noteq> DOTDOT" using Cons.prems(1) by (auto split: if_splits)
  then have parents: "real_parents fs (cur @ [c])" using Cons.prems(3) by (simp add: real_parents_snoc)
  note meta = metadata_real [OF Cons.prems(2) parents]
  then obtain node where node: "fs (cur @ [c]) = Some node" "\<not> is_link node"
    using Cons.prems(1) c by (auto split: option.splits if_splits)
  show ?case
  proof (cases "cs = []")
    case True
    with Cons.prems(1) c meta node parents show ?thesis
      by (cases node) (auto simp: is_file_def split: if_splits)
  next
    case False
    then have "validate_loop fs ws (cur @ [c]) cs raw = Inr u" "node = FDir"
      using Cons.prems(1) c meta node by (auto split: sum.splits dest: validate_directory_dir)
    with Cons.IH [of "cur @ [c]"] Cons.prems(2) parents node False show ?thesis
      by (simp add: real_dir_def)
  qed
qed

lemma resolve_target_below:
  "resolve_patch_target fs ws raw = Inr target \<Longrightarrow>
     \<exists>s. target = ws @ s \<and> s \<noteq> [] \<and> DOTDOT \<notin> set s"
  by (rule exI [of _ "drop (length ws) target"])
    (auto simp: resolve_patch_target_def Let_def split: if_splits sum.splits,
      metis append_take_drop_id)

lemma validate_existing_real:
  assumes "validate_existing_regular_file fs ws (ws @ s) raw = Inr u" and "good ws fs" and "s \<noteq> []"
  shows "real_parents fs (ws @ s) \<and> (\<exists>b. fs (ws @ s) = Some (FFile b))"
  using assms validate_loop_real [of fs ws ws s raw u]
  by (simp add: validate_existing_regular_file_def good_def)

lemma resolve_existing_real:
  assumes "resolve_existing_patch_file fs ws raw = Inr target" and "good ws fs"
  shows "\<exists>s b. target = ws @ s \<and> s \<noteq> [] \<and> real_parents fs target \<and> fs target = Some (FFile b)"
proof -
  obtain s where s: "target = ws @ s" "s \<noteq> []"
    and v: "validate_existing_regular_file fs ws target raw = Inr ()"
    using assms(1) resolve_target_below
    by (fastforce simp: resolve_existing_patch_file_def split: sum.splits)
  with validate_existing_real [of fs ws s raw] assms(2) show ?thesis by auto
qed

text \<open>Creating the missing parents of a target.\<close>

lemma real_dir_created: "real_parents fs p \<Longrightarrow> real_dir (fs(p \<mapsto> FDir)) p"
proof -
  have "take n p \<noteq> p" if "n < length p" for n using that
    by (auto dest: arg_cong [of _ _ length])
  then show "real_parents fs p \<Longrightarrow> ?thesis" by (simp add: real_dir_def real_parents_def)
qed

text \<open>One component of the loop: it fails and leaves at most one new directory, or goes on from a
  real directory.\<close>

lemma parent_dirs_step:
  assumes "parent_dirs_loop fs ws cur (c # cs) raw = (fs', r)" and "good ws fs" and "real_dir fs cur"
    and "cur = ws @ s"
  obtains fs1 where "confined ws fs fs1 \<and> fs \<subseteq>\<^sub>m fs1" and "\<forall>q. q \<noteq> cur @ [c] \<longrightarrow> fs1 q = fs q"
    and "(fs' = fs1 \<and> r \<noteq> Inr ())
      \<or> (real_dir fs1 (cur @ [c]) \<and> parent_dirs_loop fs1 ws (cur @ [c]) cs raw = (fs', r))"
proof (cases "c = DOTDOT")
  case True
  with assms that [of fs] show ?thesis by (auto simp: confined_refl)
next
  case False
  let ?p = "cur @ [c]"
  have tree: "fs_tree fs" using assms(2) by (simp add: good_def)
  have parents: "real_parents fs ?p" using assms(3) False by (simp add: real_parents_snoc)
  have meta: "fs_symlink_metadata fs ?p = (case fs ?p of None \<Rightarrow> Inl NotFound | Some n \<Rightarrow> Inr n)"
    using metadata_real [OF tree parents] by simp
  show ?thesis
  proof (cases "fs ?p")
    case (Some n)
    then have "real_dir fs ?p" if "validate_directory_component fs ws ?p n raw = Inr u" for u
      using that parents by (auto simp: real_dir_def dest: validate_directory_dir)
    with assms(1,2) meta Some False show ?thesis
      by (intro that [of fs]) (auto simp: confined_refl split: sum.splits)
  next
    case None
    let ?fs1 = "fs(?p \<mapsto> FDir)"
    have "fs \<subseteq>\<^sub>m ?fs1" using None by (auto simp: map_le_def)
    moreover have conf: "confined ws fs ?fs1"
      using confined_insert [of ws fs "s @ [c]" FDir] assms(2,4) parents by simp
    moreover have dir: "real_dir ?fs1 ?p" using parents by (rule real_dir_created)
    moreover have "fs_create_dir fs ?p = Inr ?fs1" using create_dir_real [OF tree parents] None by simp
    moreover have "fs_symlink_metadata ?fs1 ?p = Inr FDir"
      using metadata_real [of ?fs1 ?p] conf dir by (simp add: confined_def good_def real_dir_def)
    ultimately show ?thesis
      using assms(1) meta None False conf dir
      by (intro that [of ?fs1]) (auto split: sum.splits)
  qed
qed

lemma parent_dirs_loop_spec:
  assumes "parent_dirs_loop fs ws cur cs raw = (fs', r)" and "good ws fs" and "real_dir fs cur"
    and "cur = ws @ s"
  shows "confined ws fs fs' \<and> fs \<subseteq>\<^sub>m fs' \<and> (r = Inr () \<longrightarrow> real_dir fs' (cur @ cs))
    \<and> (\<forall>p. length p > length (cur @ cs) \<longrightarrow> fs' p = fs p)"
  using assms
proof (induction cs arbitrary: fs cur s)
  case Nil
  then show ?case by (auto simp: confined_refl)
next
  case (Cons c cs)
  obtain fs1 where conf: "confined ws fs fs1 \<and> fs \<subseteq>\<^sub>m fs1" and same: "\<forall>q. q \<noteq> cur @ [c] \<longrightarrow> fs1 q = fs q"
    and outcome: "(fs' = fs1 \<and> r \<noteq> Inr ())
      \<or> (real_dir fs1 (cur @ [c]) \<and> parent_dirs_loop fs1 ws (cur @ [c]) cs raw = (fs', r))"
    by (rule parent_dirs_step [OF Cons.prems]) blast
  have long: "fs1 p = fs p" if "length p > length (cur @ c # cs)" for p
  proof -
    have "p \<noteq> cur @ [c]" using that by auto
    with same show ?thesis by simp
  qed
  from outcome show ?case
  proof
    assume "fs' = fs1 \<and> r \<noteq> Inr ()"
    with conf long show ?thesis by simp
  next
    assume "real_dir fs1 (cur @ [c]) \<and> parent_dirs_loop fs1 ws (cur @ [c]) cs raw = (fs', r)"
    with Cons.IH [of fs1 "cur @ [c]" "s @ [c]"] Cons.prems(4) conf
    have "confined ws fs1 fs' \<and> fs1 \<subseteq>\<^sub>m fs' \<and> (r = Inr () \<longrightarrow> real_dir fs' (cur @ c # cs))
        \<and> (\<forall>p. length p > length (cur @ c # cs) \<longrightarrow> fs' p = fs1 p)"
      by (simp add: confined_def)
    with conf long confined_trans map_le_trans show ?thesis by metis
  qed
qed

text \<open>After preparation, writing to the target cannot leave the workspace: its parents are real
  directories and it is absent or a regular file.\<close>

lemma prepare_write_spec:
  assumes "prepare_write_target fs ws (ws @ s) raw = (fs1, r)" and "good ws fs"
    and "s \<noteq> []" and "DOTDOT \<notin> set s"
  shows "confined ws fs fs1 \<and> fs \<subseteq>\<^sub>m fs1
    \<and> (r = Inr () \<longrightarrow> real_parents fs1 (ws @ s) \<and> (\<forall>n. fs1 (ws @ s) = Some n \<longrightarrow> is_file n))"
proof (cases "fs (ws @ s)")
  case (Some n)
  have "DOTDOT \<notin> set (ws @ s)" using assms(2,4) by (simp add: good_def real_dir_def real_parents_def)
  then have "real_parents fs (ws @ s)" using tree_real_parents assms(2) Some by (auto simp: good_def)
  then have "fs_symlink_metadata fs (ws @ s) = Inr n"
    using metadata_real assms(2,3) Some by (simp add: good_def)
  with assms validate_existing_real [of fs ws s raw] show ?thesis
    by (auto simp: prepare_write_target_def confined_refl is_file_def split: fnode.splits)
next
  case None
  have s: "butlast (ws @ s) = ws @ butlast s" using assms(3) by (simp add: butlast_append)
  show ?thesis
  proof (cases "ensure_safe_parent_dirs fs ws (ws @ s) raw = (fs1, r)")
    case True
    then have loop: "parent_dirs_loop fs ws ws (butlast s) raw = (fs1, r)"
      using assms(3) by (simp add: ensure_safe_parent_dirs_def s)
    have "real_dir fs ws" using assms(2) by (simp add: good_def)
    note spec = parent_dirs_loop_spec [OF loop assms(2) this, of "[]"]
    have "fs1 (ws @ s) = None" using spec None assms(3) by simp
    moreover have "last s \<noteq> DOTDOT" using assms(3,4) last_in_set by metis
    then have "real_parents fs1 (ws @ s)" if "r = Inr ()"
      using spec that assms(3) real_parents_snoc [of fs1 "ws @ butlast s" "last s"] by simp
    ultimately show ?thesis using spec by simp
  next
    case False
    with assms(1) None have "fs1 = fs \<and> r \<noteq> Inr ()"
      using validate_existing_real [OF _ assms(2,3), of raw]
      by (auto simp: prepare_write_target_def split: sum.splits if_splits)
    with assms(2) show ?thesis by (simp add: confined_refl)
  qed
qed

lemma is_file_not_dir: "\<forall>n. x = Some n \<longrightarrow> is_file n \<Longrightarrow> x \<noteq> Some FDir"
  by (auto simp: is_file_def)

lemma apply_add_file_confined:
  assumes "good ws fs"
  shows "confined ws fs (fst (apply_add_file stats fs ws path contents a))"
proof (cases "resolve_patch_target fs ws path")
  case (Inl e)
  with assms show ?thesis by (simp add: apply_add_file_def confined_refl)
next
  case (Inr target)
  then obtain s where s: "target = ws @ s" "s \<noteq> []" "DOTDOT \<notin> set s"
    using resolve_target_below by blast
  obtain fs1 r where prep: "prepare_write_target fs ws target path = (fs1, r)" by fastforce
  note spec = prepare_write_spec [OF prep [unfolded s(1)] assms s(2,3)]
  show ?thesis
  proof (cases r)
    case (Inl e)
    with Inr prep spec show ?thesis by (simp add: apply_add_file_def)
  next
    case r: (Inr u)
    with spec have ready: "real_parents fs1 target" "\<forall>n. fs1 target = Some n \<longrightarrow> is_file n" "good ws fs1"
      by (simp_all add: s confined_def)
    then have "fs_write fs1 target b = Inr (fs1(target \<mapsto> FFile b))" for b
      using write_real s(1,2) by (simp add: good_def)
    moreover have "confined ws fs1 (fs1(target \<mapsto> FFile b))" for b
      using confined_insert [of ws fs1 s] ready s is_file_not_dir by auto
    ultimately show ?thesis using Inr prep r spec confined_trans
      by (auto simp: apply_add_file_def)
  qed
qed

lemma remove_confined:
  assumes "good ws fs" "source = ws @ s" "s \<noteq> []" "fs source = Some (FFile b)" "DOTDOT \<notin> set source"
  shows "fs_remove_file fs source = Inr (fs(source := None))" "confined ws fs (fs(source := None))"
proof -
  have "real_parents fs source" using assms by (intro tree_real_parents) (simp_all add: good_def)
  with assms show "fs_remove_file fs source = Inr (fs(source := None))"
    using remove_real [of fs source "FFile b"] by (simp add: good_def is_file_def)
  show "confined ws fs (fs(source := None))" using confined_delete [of ws fs s] assms by simp
qed

lemma apply_delete_file_confined:
  assumes "good ws fs"
  shows "confined ws fs (fst (apply_delete_file stats fs ws path a))"
proof (cases "resolve_existing_patch_file fs ws path")
  case (Inl e)
  with assms show ?thesis by (simp add: apply_delete_file_def confined_refl)
next
  case (Inr target)
  then obtain s b where s: "target = ws @ s" "s \<noteq> []" "real_parents fs target" "fs target = Some (FFile b)"
    using resolve_existing_real assms by blast
  with remove_confined [of ws fs target s b] assms Inr show ?thesis
    by (simp add: apply_delete_file_def Let_def real_parents_def)
qed

lemma write_updated_confined:
  assumes "good ws fs" and src: "source = ws @ s" "s \<noteq> []" "real_parents fs source" "fs source = Some (FFile b)"
  shows "confined ws fs (fst (write_updated fs ws source move_path bytes))"
proof (cases move_path)
  case None
  have "fs_write fs source bytes = Inr (fs(source \<mapsto> FFile bytes))"
    using write_real assms by (simp add: good_def is_file_def)
  with None confined_insert [of ws fs s] assms show ?thesis by (simp add: write_updated_def)
next
  case (Some d)
  show ?thesis
  proof (cases "resolve_patch_target fs ws d")
    case (Inl e)
    with Some assms(1) show ?thesis by (simp add: write_updated_def confined_refl)
  next
    case (Inr dest)
    then obtain t where t: "dest = ws @ t" "t \<noteq> []" "DOTDOT \<notin> set t" using resolve_target_below by blast
    obtain fs1 r where prep: "prepare_write_target fs ws dest d = (fs1, r)" by fastforce
    note spec = prepare_write_spec [OF prep [unfolded t(1)] assms(1) t(2,3)]
    show ?thesis
    proof (cases "dest = source \<or> r \<noteq> Inr ()")
      case True
      with Some Inr prep spec assms(1) show ?thesis
        by (auto simp: write_updated_def confined_refl split: sum.splits)
    next
      case False
      with spec have ready: "real_parents fs1 dest" "\<forall>n. fs1 dest = Some n \<longrightarrow> is_file n" "good ws fs1"
        by (simp_all add: t confined_def)
      let ?fs2 = "fs1(dest \<mapsto> FFile bytes)"
      have w: "fs_write fs1 dest bytes = Inr ?fs2"
        using write_real ready t(1,2) by (simp add: good_def)
      have "confined ws fs1 ?fs2"
        using confined_insert [of ws fs1 t] ready t is_file_not_dir by auto
      with spec have two: "confined ws fs ?fs2" using confined_trans by blast
      then have "confined ws ?fs2 fs3" if "fs_remove_file ?fs2 source = Inr fs3" for fs3
      proof -
        have "?fs2 source = Some (FFile b)"
          using spec src(4) False by (auto simp: map_le_def dom_def)
        moreover have "good ws ?fs2" using two unfolding confined_def by blast
        moreover have "DOTDOT \<notin> set source" using src(3) by (simp add: real_parents_def)
        ultimately show ?thesis
          using remove_confined [of ws ?fs2 source s b] src that by simp
      qed
      with Some Inr prep False w two show ?thesis
        using confined_trans by (auto simp: write_updated_def split: sum.splits)
    qed
  qed
qed

lemma apply_update_file_confined:
  assumes "good ws fs"
  shows "confined ws fs (fst (apply_update_file stats fs ws path m chunks a))"
proof (cases "resolve_existing_patch_file fs ws path")
  case (Inl e)
  with assms show ?thesis by (simp add: apply_update_file_def confined_refl)
next
  case (Inr source)
  then obtain s b where s: "source = ws @ s" "s \<noteq> []" "real_parents fs source" "fs source = Some (FFile b)"
    using resolve_existing_real assms by blast
  show ?thesis
    using assms Inr write_updated_confined [OF assms s]
    by (auto simp: apply_update_file_def confined_refl
        split: sum.split encoding_error.split prod.split option.split)
      (metis fst_conv)+
qed

lemma apply_hunk_confined: "good ws fs \<Longrightarrow> confined ws fs (fst (apply_hunk stats fs ws h a))"
  by (simp add: apply_hunk_def apply_add_file_confined apply_delete_file_confined
      apply_update_file_confined split: PatchHunk.split)

lemma apply_hunks_confined:
  "good ws fs \<Longrightarrow> confined ws fs (fst (apply_hunks stats clock n t fs ws hs a))"
proof (induction hs arbitrary: n fs a)
  case Nil
  then show ?case by (simp add: confined_refl)
next
  case (Cons h hs)
  obtain fs1 r where step: "apply_hunk stats fs ws h a = (fs1, r)" by fastforce
  then have one: "confined ws fs fs1" using apply_hunk_confined [OF Cons.prems, of stats h a] by simp
  then have "good ws fs1" by (simp add: confined_def)
  from Cons.IH [OF this] one confined_trans
  have "confined ws fs (fst (apply_hunks stats clock n' t fs1 ws hs a'))" for n' a' by blast
  with Cons.prems step one show ?case
    by (auto simp: confined_refl split: sum.split)
qed

section \<open>Properties\<close>

text \<open>C4: a patch cannot touch anything outside the workspace. Whatever the patch text, the symbolic
  links in the file system, the timeouts and cancellations, and whether the call succeeds or fails
  half way: every path whose node differs afterwards lies strictly below the canonical path of the
  workspace directory, and the file system is still a tree.\<close>

theorem apply_patch_sandboxed:
  assumes "fs_tree fs" and "\<forall>ws. fs_canonicalize fs workspace_path = Inr ws \<longrightarrow> fs ws = Some FDir"
    and "apply_patch_with_cancellation stats clock fs workspace_path request = (fs', r)"
  shows "fs_tree fs' \<and> (\<forall>p. fs' p \<noteq> fs p \<longrightarrow>
    (\<exists>ws s. fs_canonicalize fs workspace_path = Inr ws \<and> s \<noteq> [] \<and> p = ws @ s))"
proof (cases "fs' = fs")
  case True
  with assms(1) show ?thesis by simp
next
  case False
  with assms(3) obtain ws hs t where ws: "fs_canonicalize fs workspace_path = Inr ws"
    and run: "apply_hunks stats clock 1 t fs ws hs affected_default = (fs', r)"
    by (auto simp: apply_patch_with_cancellation_def split: sum.splits if_splits)
  have "good ws fs"
    using canonicalize_real [OF ws assms(1)] assms(1,2) ws by (simp add: good_def real_dir_def)
  from apply_hunks_confined [OF this, of stats clock 1 t hs affected_default] run
  have "confined ws fs fs'" by simp
  with ws show ?thesis by (auto simp: confined_def good_def)
qed

text \<open>A workspace \<open>/w\<close> with a file \<open>a\<close> and a link \<open>l\<close> to \<open>/etc\<close>.\<close>

definition sample_fs :: fsys where
  "sample_fs = [[] \<mapsto> FDir, [lit ''etc''] \<mapsto> FDir, [lit ''w''] \<mapsto> FDir,
     [lit ''w'', lit ''a''] \<mapsto> FFile (lit ''x'' @ [NL]), [lit ''w'', lit ''l''] \<mapsto> FLink True [lit ''etc'']]"

lemma sample_fs_tree: "fs_tree sample_fs"
  unfolding fs_tree_def sample_fs_def
  by (auto simp: Cons_eq_append_conv append_eq_Cons_conv split: if_splits)

definition sample_request :: ApplyPatchInput where
  "sample_request = \<lparr>patch_text = lit ''*** Begin Patch'' @ [NL] @ lit ''*** Delete File: a'' @ [NL]
     @ lit ''*** Add File: l/p'' @ [NL] @ lit ''+x'' @ [NL] @ lit ''*** End Patch'',
     requested_timeout_ms = None\<rparr>"

lemma sample_request_parse:
  "parse_patch (patch_text sample_request)
     = Inr [DeleteFile (lit ''a''), AddFile (lit ''l/p'') (lit ''x'' @ [NL])]"
proof -
  let ?t = "patch_text sample_request"
  have len: "str_len ?t \<le> MAX_PATCH_BYTES"
    by (simp add: sample_request_def lit_def NL_def str_len_def str_bytes_def utf8_char_def
        MAX_PATCH_BYTES_def)
  have "trim ?t = ?t"
    by (simp add: sample_request_def lit_def NL_def trim_def trim_start_def trim_end_def is_whitespace_def)
  then have "map drop_cr (str_lines (trim ?t)) = [lit ''*** Begin Patch'', lit ''*** Delete File: a'',
      lit ''*** Add File: l/p'', lit ''+x'', lit ''*** End Patch'']"
    by (simp add: sample_request_def str_lines_def lit_def NL_def drop_cr_def strip_suffix_def
        ends_with_def CR_def)
  then show ?thesis
    using len
    by (simp add: parse_patch_def unwrap_heredoc_def matches_patch_boundaries_def sample_request_def
        validate_patch_boundaries_def parse_hunk_def parse_delete_file_def parse_add_file_def
        marker_eval marker_path_def strip_prefix_def trim_def trim_start_def trim_end_def
        is_whitespace_def)
qed

lemma sample_request_timeout: "requested_timeout_ms sample_request = None"
  by (simp add: sample_request_def)

lemmas fs_eval = sample_fs_def lit_def DOTDOT_def SYMLINK_MAX_def fs_canonicalize_def
  fs_symlink_metadata_def path_components_def is_absolute_def starts_with_def is_link_def is_file_def
  trim_def trim_start_def trim_end_def is_whitespace_def

theorem apply_patch_sandboxed_witness:
  "\<exists>fs'. apply_patch_with_cancellation (\<lambda>_ _. None) (\<lambda>_. (False, False)) sample_fs [lit ''w''] sample_request
        = (fs', Inl (ToolFailure (symlink_error (lit ''l/p''))))
     \<and> fs' [lit ''w'', lit ''a''] = None \<and> fs' [lit ''etc'', lit ''p''] = None"
proof -
  let ?run = "apply_patch_with_cancellation (\<lambda>_ _. None) (\<lambda>_. (False, False)) sample_fs [lit ''w''] sample_request"
  let ?fs1 = "sample_fs([lit ''w'', lit ''a''] := None)"
  have ws: "fs_canonicalize sample_fs [lit ''w''] = Inr [lit ''w'']"
    by (simp add: fs_eval)
  have "resolve_existing_patch_file sample_fs [lit ''w''] (lit ''a'') = Inr [lit ''w'', lit ''a'']"
    by (simp add: resolve_existing_patch_file_def resolve_patch_target_def
        validate_existing_regular_file_def fs_eval)
  moreover have "fs_remove_file sample_fs [lit ''w'', lit ''a''] = Inr ?fs1"
    by (simp add: fs_remove_file_def fs_eval)
  ultimately have del: "\<exists>a. apply_hunk (\<lambda>_ _. None) sample_fs [lit ''w''] (DeleteFile (lit ''a'')) affected_default
      = (?fs1, Inr a)"
    by (simp add: apply_hunk_def apply_delete_file_def Let_def)
  have "resolve_patch_target ?fs1 [lit ''w''] (lit ''l/p'') = Inr [lit ''w'', lit ''l'', lit ''p'']"
    by (simp add: resolve_patch_target_def fs_eval)
  moreover have "prepare_write_target ?fs1 [lit ''w''] [lit ''w'', lit ''l'', lit ''p''] (lit ''l/p'')
      = (?fs1, Inl (symlink_error (lit ''l/p'')))"
    by (simp add: prepare_write_target_def ensure_safe_parent_dirs_def validate_directory_component_def
        fs_eval eval_nat_numeral)
  ultimately have run: "?run = (?fs1, Inl (ToolFailure (symlink_error (lit ''l/p''))))"
    using del ws
    by (auto simp: apply_patch_with_cancellation_def sample_request_parse sample_request_timeout tool_timeout_ms_def
        ensure_apply_patch_active_def apply_hunk_def [of _ _ _ "AddFile _ _"] apply_add_file_def
        MAX_TOOL_TIMEOUT_MS_def DEFAULT_APPLY_PATCH_TIMEOUT_MS_def)
  have dir: "\<forall>ws. fs_canonicalize sample_fs [lit ''w''] = Inr ws \<longrightarrow> sample_fs ws = Some FDir"
    by (simp add: ws) (simp add: fs_eval)
  have out: "?fs1 [lit ''etc'', lit ''p''] = sample_fs [lit ''etc'', lit ''p'']"
    using apply_patch_sandboxed [OF sample_fs_tree dir run] ws by auto
  show ?thesis using run out by (intro exI [of _ ?fs1]) (simp add: sample_fs_def)
qed

text \<open>An update in place is all or nothing. If it fails, for whatever reason, the file system is
  as before; if it succeeds, exactly one file changed, and its new bytes are the updated text in the
  encoding in which the old text was found.\<close>

theorem update_in_place_atomic:
  assumes "good ws fs" and "apply_hunk stats fs ws (UpdateFile path None chunks) a = (fs', r)"
  shows "(\<forall>f. r = Inl f \<longrightarrow> fs' = fs)
    \<and> (\<forall>a'. r = Inr a' \<longrightarrow>
        (\<exists>p b s e u. fs p = Some (FFile b) \<and> decode_text_file p b = Inr (s, e)
           \<and> apply_update_chunks s path chunks = Some (Inr u)
           \<and> fs' = fs(p \<mapsto> FFile (encode_text_file u e))))"
proof (cases "resolve_existing_patch_file fs ws path")
  case (Inl e)
  with assms(2) show ?thesis by (auto simp: apply_hunk_def apply_update_file_def)
next
  case (Inr p)
  then obtain s b where p: "p = ws @ s" "s \<noteq> []" "real_parents fs p" "fs p = Some (FFile b)"
    using resolve_existing_real assms(1) by blast
  have tree: "fs_tree fs" using assms(1) by (simp add: good_def)
  have "fs_read fs p = Inr b" using read_real [OF tree p(3)] p by simp
  moreover have "fs_write fs p x = Inr (fs(p \<mapsto> FFile x))" for x
    using write_real [OF tree p(3)] p by (simp add: is_file_def)
  ultimately show ?thesis
    using assms(2) Inr p(4)
    by (auto simp: apply_hunk_def apply_update_file_def write_updated_def
        split: sum.splits encoding_error.splits prod.splits option.splits, metis)
qed

theorem update_in_place_atomic_witness:
  "fst (apply_hunk (\<lambda>_ _. None) sample_fs [lit ''w''] (UpdateFile (lit ''a'') None
      [\<lparr>change_context = None, old_lines = [lit ''x''], new_lines = [lit ''y''], is_end_of_file = False\<rparr>])
      affected_default) [lit ''w'', lit ''a''] = Some (FFile [121, 10])"
proof -
  let ?c = "[\<lparr>change_context = None, old_lines = [lit ''x''], new_lines = [lit ''y''], is_end_of_file = False\<rparr>]"
  let ?run = "apply_hunk (\<lambda>_ _. None) sample_fs [lit ''w''] (UpdateFile (lit ''a'') None ?c) affected_default"
  have "real_dir sample_fs [lit ''w'']"
    by (simp add: real_dir_def real_parents_def DOTDOT_def) (simp add: sample_fs_def less_Suc_eq)
  then have good: "good [lit ''w''] sample_fs" using sample_fs_tree by (simp add: good_def)
  have res: "resolve_existing_patch_file sample_fs [lit ''w''] (lit ''a'') = Inr [lit ''w'', lit ''a'']"
    by (simp add: resolve_existing_patch_file_def resolve_patch_target_def
        validate_existing_regular_file_def fs_eval)
  have rd: "fs_read sample_fs [lit ''w'', lit ''a''] = Inr [120, 10]"
    by (simp add: fs_read_def fs_eval NL_def)
  have dec: "decode_text_file q [120, 10] = Inr ([120, 10], Utf8)" for q :: fpath
    by (simp add: decode_text_file_def strip_prefix_def starts_with_def from_utf8_def
        decode_with.simps utf8_next_def)
  have "file_lines [120, 10] = [lit ''x'']"
    by (simp add: file_lines_def drop_empty_last_def lit_def NL_def)
  then have upd: "apply_update_chunks [120, 10] (lit ''a'') ?c = Some (Inr [121, 10])"
    by (simp add: apply_update_chunks_def compute_replacements_def chunk_replacement_def
        seek_context_def locate_chunk_def seek_sequence_def all_matchers_def matches_at_def
        apply_replacements_def vec_splice_def sat_add_usize_def usize_MAX_def lit_def NL_def)
  have wr: "fs_write sample_fs [lit ''w'', lit ''a''] x
      = Inr (sample_fs([lit ''w'', lit ''a''] \<mapsto> FFile x))" for x
    by (simp add: fs_write_def fs_eval)
  obtain fs' a' where run: "?run = (fs', Inr a')"
    by (simp add: apply_hunk_def apply_update_file_def res rd dec upd write_updated_def wr)
  then obtain p b s e u where old: "sample_fs p = Some (FFile b)" "decode_text_file p b = Inr (s, e)"
    "apply_update_chunks s (lit ''a'') ?c = Some (Inr u)" "fs' = sample_fs(p \<mapsto> FFile (encode_text_file u e))"
    using update_in_place_atomic [OF good run] by blast
  from old(1) have "p = [lit ''w'', lit ''a'']" "b = [120, 10]"
    by (auto simp: sample_fs_def lit_def NL_def split: if_splits)
  with old run show ?thesis by (auto simp: dec upd str_bytes_def utf8_char_def)
qed

end
