(* ===== verification/Line_Budget.thy ===== *)
theory Line_Budget
  imports Foco_Prelude
begin

text \<open>
  Cutting text at complete lines and at character boundaries under byte and line budgets
  (\<open>tools/output_budget.rs\<close>, from \<open>for_each_complete_line\<close> to
  \<open>complete_line_prefix_note\<close>, and \<open>bounded_utf8_prefix\<close>). Byte offsets into a string
  are byte counts of its UTF-8 encoding; \<open>byte_prefix\<close> is the slice up to such an offset.
  The visitor closures are functions on an explicit state, with the continue flag as their result.
\<close>

section \<open>Slices and complete lines\<close>

fun byte_prefix :: "nat \<Rightarrow> rstr \<Rightarrow> rstr" where
  "byte_prefix n [] = []"
| "byte_prefix n (c # s) =
     (if length (utf8_char c) \<le> n then c # byte_prefix (n - length (utf8_char c)) s else [])"

definition is_char_boundary :: "rstr \<Rightarrow> nat \<Rightarrow> bool" where
  "is_char_boundary text n \<longleftrightarrow> n \<in> set (map (\<lambda>k. str_len (take k text)) [0..<Suc (length text)])"

fun boundary_below :: "rstr \<Rightarrow> nat \<Rightarrow> nat" where
  "boundary_below text 0 = 0"
| "boundary_below text (Suc n) = (if is_char_boundary text (Suc n) then Suc n else boundary_below text n)"

definition bounded_utf8_prefix :: "rstr \<Rightarrow> nat \<Rightarrow> rstr \<times> bool" where
  "bounded_utf8_prefix text max_bytes =
     (if str_len text \<le> max_bytes then (text, False)
      else (byte_prefix (boundary_below text max_bytes) text, True))"

text \<open>The scan of \<open>for_each_complete_line\<close>; \<open>acc\<close> is the line so far.\<close>

fun scan_lines :: "rstr \<Rightarrow> rstr \<Rightarrow> rstr list" where
  "scan_lines acc [] = (if acc = [] then [] else [acc])"
| "scan_lines acc [c] = [acc @ [c]]"
| "scan_lines acc (c # d # r) =
     (if c = CR \<and> d = NL then (acc @ [c, d]) # scan_lines [] r
      else if c = CR \<or> c = NL then (acc @ [c]) # scan_lines [] (d # r)
      else scan_lines (acc @ [c]) (d # r))"

definition complete_lines :: "rstr \<Rightarrow> rstr list" where
  "complete_lines content = scan_lines [] content"

fun visit_lines :: "('s \<Rightarrow> nat \<Rightarrow> rstr \<Rightarrow> bool \<times> 's) \<Rightarrow> nat \<Rightarrow> rstr list \<Rightarrow> 's \<Rightarrow> 's" where
  "visit_lines visit offset [] s = s"
| "visit_lines visit offset (l # ls) s =
     (case visit s offset l of
        (True, s') \<Rightarrow> visit_lines visit (sat_add_usize offset 1) ls s'
      | (False, s') \<Rightarrow> s')"

definition for_each_complete_line :: "rstr \<Rightarrow> ('s \<Rightarrow> nat \<Rightarrow> rstr \<Rightarrow> bool \<times> 's) \<Rightarrow> 's \<Rightarrow> 's" where
  "for_each_complete_line content visit s =
     (if content = [] then s else visit_lines visit 0 (complete_lines content) s)"

definition complete_line_count :: "rstr \<Rightarrow> nat" where
  "complete_line_count text =
     for_each_complete_line text (\<lambda>count _ _. (True, sat_add_usize count 1)) 0"

text \<open>The state of the visitor is \<open>prev_end\<close>, \<open>end\<close> and \<open>count\<close>.\<close>

definition peel_last_complete_line :: "rstr \<Rightarrow> rstr option" where
  "peel_last_complete_line prefix_text =
     (if prefix_text = [] then None
      else
        (case for_each_complete_line prefix_text
                (\<lambda>(prev_end, end_byte, count) _ line.
                   (True, (end_byte, sat_add_usize end_byte (str_len line), sat_add_usize count 1)))
                (0, 0, 0) of
           (prev_end, end_byte, count) \<Rightarrow>
             if count = (0 :: nat) then None
             else if count = 1 then Some []
             else Some (byte_prefix prev_end prefix_text)))"

section \<open>Truncation\<close>

definition TOOL_OUTPUT_SOFT_BYTE_LIMIT :: nat where "TOOL_OUTPUT_SOFT_BYTE_LIMIT = 50 * 1024"
definition TOOL_OUTPUT_SOFT_LINE_LIMIT :: nat where "TOOL_OUTPUT_SOFT_LINE_LIMIT = 2000"
definition TOOL_EXECUTION_HARD_BYTE_LIMIT :: nat where "TOOL_EXECUTION_HARD_BYTE_LIMIT = 128 * 1024"
definition TOOL_EXECUTION_ENVELOPE_RESERVE_BYTES :: nat where
  "TOOL_EXECUTION_ENVELOPE_RESERVE_BYTES = 8 * 1024"
definition TOOL_EXECUTION_PAYLOAD_HARD_BYTE_LIMIT :: nat where
  "TOOL_EXECUTION_PAYLOAD_HARD_BYTE_LIMIT =
     TOOL_EXECUTION_HARD_BYTE_LIMIT - TOOL_EXECUTION_ENVELOPE_RESERVE_BYTES"

record CompleteLineTruncateOptions =
  soft_byte_limit :: nat
  soft_line_limit :: nat
  hard_byte_limit :: nat
  content_start_line :: nat

definition shared_defaults :: CompleteLineTruncateOptions where
  "shared_defaults = \<lparr>soft_byte_limit = TOOL_OUTPUT_SOFT_BYTE_LIMIT,
     soft_line_limit = TOOL_OUTPUT_SOFT_LINE_LIMIT,
     hard_byte_limit = TOOL_EXECUTION_PAYLOAD_HARD_BYTE_LIMIT, content_start_line = 1\<rparr>"

definition with_content_start_line ::
    "nat \<Rightarrow> CompleteLineTruncateOptions \<Rightarrow> CompleteLineTruncateOptions" where
  "with_content_start_line n opts = opts\<lparr>content_start_line := (if n = 0 then 1 else n)\<rparr>"

record CompleteLinePrefix =
  prefix_text :: rstr
  returned_lines :: nat
  last_returned_line :: nat
  next_start_line :: "nat option"
  truncated :: bool
  soft_budget_exceeded :: bool

datatype CompleteLineTruncateOutcome =
  Full CompleteLinePrefix
| Truncated CompleteLinePrefix
| SingleLineExceedsHardLimit nat nat nat

definition as_prefix :: "CompleteLineTruncateOutcome \<Rightarrow> CompleteLinePrefix option" where
  "as_prefix r = (case r of Full p \<Rightarrow> Some p | Truncated p \<Rightarrow> Some p
     | SingleLineExceedsHardLimit _ _ _ \<Rightarrow> None)"

text \<open>The notes that go with an outcome.\<close>

definition complete_line_prefix_note :: "CompleteLinePrefix \<Rightarrow> rstr" where
  "complete_line_prefix_note p =
     (if truncated p then
        (let next = (case next_start_line p of Some n \<Rightarrow> n | None \<Rightarrow> sat_add_usize (last_returned_line p) 1)
         in lit ''Result truncated at a complete line boundary under the shared soft output budget (max ''
            @ nat_display TOOL_OUTPUT_SOFT_BYTE_LIMIT @ lit '' bytes or ''
            @ nat_display TOOL_OUTPUT_SOFT_LINE_LIMIT @ lit '' lines): returned ''
            @ nat_display (returned_lines p) @ lit '' line(s) through line ''
            @ nat_display (last_returned_line p) @ lit ''. Continue with nextStartLine='' @ nat_display next
            @ lit ''. This is an explicit truncated success (is_error=false), not hidden data loss.'')
      else if soft_budget_exceeded p then
        lit ''Returned '' @ nat_display (returned_lines p) @ lit '' complete line(s) through line ''
        @ nat_display (last_returned_line p)
        @ lit '' under the single complete-line soft-budget exception (line exceeds soft ~''
        @ nat_display TOOL_OUTPUT_SOFT_BYTE_LIMIT
        @ lit '' bytes but fits the hard envelope). Full content returned; no continuation is needed (truncated=false, softBudgetExceeded=true).''
      else
        lit ''Returned '' @ nat_display (returned_lines p) @ lit '' complete line(s) through line ''
        @ nat_display (last_returned_line p) @ lit '' under the shared output budget.'')"

definition model_note :: "CompleteLineTruncateOutcome \<Rightarrow> rstr option" where
  "model_note r =
     (case r of
        Full p \<Rightarrow> if \<not> truncated p \<and> \<not> soft_budget_exceeded p then None
                  else Some (complete_line_prefix_note p)
      | Truncated p \<Rightarrow> Some (complete_line_prefix_note p)
      | SingleLineExceedsHardLimit line_number line_bytes hard_limit_bytes \<Rightarrow>
          Some (lit ''Line '' @ nat_display line_number @ lit '' is '' @ nat_display line_bytes
            @ lit '' UTF-8 bytes and exceeds the hard output ceiling ('' @ nat_display hard_limit_bytes
            @ lit '' bytes). Cannot return it without splitting a line; refine the source or request a different range.''))"

definition single_line_hard_limit_error :: "CompleteLineTruncateOutcome \<Rightarrow> rstr option" where
  "single_line_hard_limit_error r =
     (case r of
        SingleLineExceedsHardLimit line_number line_bytes hard_limit_bytes \<Rightarrow>
          Some (lit ''A single complete line (line '' @ nat_display line_number @ lit '', ''
            @ nat_display line_bytes @ lit '' UTF-8 bytes) exceeds the hard output ceiling (''
            @ nat_display hard_limit_bytes
            @ lit '' bytes) and cannot be returned without splitting the line. Refine the source content or use a tool path that does not require this line intact.'')
      | _ \<Rightarrow> None)"

record TruncateState =
  end_byte :: nat
  sum_bytes :: nat
  line_total :: nat
  last_line :: nat
  remaining_after_prefix :: bool
  soft_over_single_line :: bool
  hard_limit_failure :: "(nat \<times> nat) option"

definition checked_add_usize :: "nat \<Rightarrow> nat \<Rightarrow> nat option" where
  "checked_add_usize a b = (if a + b \<le> usize_MAX then Some (a + b) else None)"

text \<open>The visitor of \<open>truncate_to_complete_lines_with_measure\<close>.\<close>

definition truncate_visit :: "CompleteLineTruncateOptions \<Rightarrow> (nat \<Rightarrow> rstr \<Rightarrow> nat) \<Rightarrow> nat
    \<Rightarrow> TruncateState \<Rightarrow> nat \<Rightarrow> rstr \<Rightarrow> bool \<times> TruncateState" where
  "truncate_visit opts measure_line content_len s offset line =
     (if hard_limit_failure s \<noteq> None then (False, s)
      else
        (let line_no = sat_add_usize (max (content_start_line opts) 1) offset;
             line_bytes = measure_line line_no line
         in if line_total s = 0 \<and> line_bytes > hard_byte_limit opts
            then (False, s\<lparr>hard_limit_failure := Some (line_no, line_bytes)\<rparr>)
            else if line_total s = 0 \<and> line_bytes > soft_byte_limit opts
            then (False, s\<lparr>end_byte := str_len line, line_total := 1, last_line := line_no,
                   remaining_after_prefix := (str_len line < content_len),
                   soft_over_single_line := True\<rparr>)
            else
              (case checked_add_usize (sum_bytes s) line_bytes of
                 None \<Rightarrow> (False, s\<lparr>remaining_after_prefix := True\<rparr>)
               | Some next_bytes \<Rightarrow>
                   (let next_lines = sat_add_usize (line_total s) 1
                    in if next_bytes > soft_byte_limit opts \<or> next_lines > soft_line_limit opts
                       then (False, s\<lparr>remaining_after_prefix := True\<rparr>)
                       else (True, s\<lparr>end_byte := sat_add_usize (end_byte s) (str_len line),
                              sum_bytes := next_bytes, line_total := next_lines,
                              last_line := line_no\<rparr>)))))"

definition truncate_to_complete_lines_with_measure ::
    "rstr \<Rightarrow> CompleteLineTruncateOptions \<Rightarrow> (nat \<Rightarrow> rstr \<Rightarrow> nat) \<Rightarrow> CompleteLineTruncateOutcome" where
  "truncate_to_complete_lines_with_measure content opts measure_line =
     (let start = max (content_start_line opts) 1
      in if content = [] then
           Full \<lparr>prefix_text = [], returned_lines = 0, last_returned_line = start,
             next_start_line = None, truncated = False, soft_budget_exceeded = False\<rparr>
         else
           (let s = for_each_complete_line content (truncate_visit opts measure_line (str_len content))
                      \<lparr>end_byte = 0, sum_bytes = 0, line_total = 0, last_line = start,
                       remaining_after_prefix = False, soft_over_single_line = False,
                       hard_limit_failure = None\<rparr>
            in case hard_limit_failure s of
                 Some (line_number, line_bytes) \<Rightarrow>
                   SingleLineExceedsHardLimit line_number line_bytes (hard_byte_limit opts)
               | None \<Rightarrow>
                   (let cut = remaining_after_prefix s \<and> end_byte s < str_len content;
                        p = \<lparr>prefix_text = byte_prefix (end_byte s) content,
                          returned_lines = line_total s, last_returned_line = last_line s,
                          next_start_line = (if cut then Some (sat_add_usize (last_line s) 1) else None),
                          truncated = cut, soft_budget_exceeded = soft_over_single_line s\<rparr>
                    in if cut then Truncated p else Full p)))"

definition truncate_to_complete_lines ::
    "rstr \<Rightarrow> CompleteLineTruncateOptions \<Rightarrow> CompleteLineTruncateOutcome" where
  "truncate_to_complete_lines content opts =
     truncate_to_complete_lines_with_measure content opts (\<lambda>_ line. str_len line)"

definition suggest_read_file_line_range :: "rstr \<Rightarrow> nat \<Rightarrow> nat \<times> nat" where
  "suggest_read_file_line_range content first_line =
     (let start = max first_line 1
      in if content = [] then (start, start)
         else
           (case truncate_to_complete_lines_with_measure content
                   (shared_defaults\<lparr>content_start_line := start\<rparr>)
                   (\<lambda>line_no line. sat_add_usize (str_len line) (str_len (nat_display line_no) + 1)) of
              Full p \<Rightarrow> if returned_lines p = 0 then (start, start) else (start, last_returned_line p)
            | Truncated p \<Rightarrow>
                if returned_lines p = 0 then (start, start) else (start, last_returned_line p)
            | SingleLineExceedsHardLimit line_number _ _ \<Rightarrow> (line_number, line_number)))"

section \<open>Records of an array\<close>

text \<open>\<open>stable_json_array_prefix_len\<close>; the size of a serialised record is the serialiser's, which
  may fail.\<close>

fun array_prefix_loop :: "('r \<Rightarrow> 'e + nat) \<Rightarrow> nat \<Rightarrow> 'r list \<Rightarrow> nat \<Rightarrow> nat \<Rightarrow> 'e + nat" where
  "array_prefix_loop size_of max_serialized_bytes [] bytes count = Inr count"
| "array_prefix_loop size_of max_serialized_bytes (r # rs) bytes count =
     (case size_of r of
        Inl e \<Rightarrow> Inl e
      | Inr record_bytes \<Rightarrow>
          (case checked_add_usize bytes (if count > 0 then 1 else 0) of
             None \<Rightarrow> Inr count
           | Some current \<Rightarrow>
               (case checked_add_usize current record_bytes of
                  None \<Rightarrow> Inr count
                | Some next_bytes \<Rightarrow>
                    if next_bytes > max_serialized_bytes then Inr count
                    else array_prefix_loop size_of max_serialized_bytes rs next_bytes (count + 1))))"

definition stable_json_array_prefix_len :: "('r \<Rightarrow> 'e + nat) \<Rightarrow> 'r list \<Rightarrow> nat \<Rightarrow> 'e + nat" where
  "stable_json_array_prefix_len size_of records max_serialized_bytes =
     (if max_serialized_bytes < 2 then Inr 0
      else array_prefix_loop size_of max_serialized_bytes records 2 0)"

section \<open>Slices and lines fit together\<close>

lemma utf8_char_nonempty [simp]: "utf8_char c \<noteq> []"
  by (simp add: utf8_char_def)

lemma utf8_char_pos: "0 < length (utf8_char c)"
  by simp

lemma str_len_Nil [simp]: "str_len [] = 0"
  by (simp add: str_len_def str_bytes_def)

lemma str_len_Cons: "str_len (c # s) = length (utf8_char c) + str_len s"
  by (simp add: str_len_def str_bytes_def)

lemma str_len_append [simp]: "str_len (a @ b) = str_len a + str_len b"
  by (simp add: str_len_def str_bytes_def)

lemma str_len_eq_0 [simp]: "str_len s = 0 \<longleftrightarrow> s = []"
  by (cases s) (simp_all add: str_len_Cons)

lemma length_le_str_len: "length s \<le> str_len s"
proof (induction s)
  case (Cons c s)
  have "Suc 0 \<le> length (utf8_char c)" using utf8_char_pos [of c] by linarith
  with Cons show ?case by (simp add: str_len_Cons)
qed simp

lemma byte_prefix_append [simp]: "byte_prefix (str_len a) (a @ b) = a"
proof (induction a)
  case Nil
  have "\<not> length (utf8_char c) \<le> 0" for c using utf8_char_pos [of c] by linarith
  then show ?case by (cases b) simp_all
qed (simp add: str_len_Cons)

lemma concat_scan_lines: "concat (scan_lines acc s) = acc @ s"
  by (induction acc s rule: scan_lines.induct) auto

lemma concat_complete_lines [simp]: "concat (complete_lines s) = s"
  by (simp add: complete_lines_def concat_scan_lines)

lemma scan_lines_not_Nil: "l \<in> set (scan_lines acc s) \<Longrightarrow> l \<noteq> []"
  by (induction acc s rule: scan_lines.induct) (auto split: if_splits)

lemma complete_lines_not_Nil: "l \<in> set (complete_lines s) \<Longrightarrow> l \<noteq> []"
  unfolding complete_lines_def by (rule scan_lines_not_Nil)

lemma length_le_concat: "\<forall>l \<in> set ls. l \<noteq> [] \<Longrightarrow> length ls \<le> length (concat ls)"
proof (induction ls)
  case (Cons l ls)
  then have "Suc 0 \<le> length l" by (cases l) simp_all
  moreover have "length ls \<le> length (concat ls)" using Cons by simp
  ultimately show ?case by simp
qed simp

lemma complete_lines_few: "length (complete_lines s) \<le> str_len s"
  using length_le_concat [of "complete_lines s"] complete_lines_not_Nil [of _ s]
    length_le_str_len [of s] by force

section \<open>The truncation loop\<close>

fun measure_sum :: "(nat \<Rightarrow> rstr \<Rightarrow> nat) \<Rightarrow> nat \<Rightarrow> rstr list \<Rightarrow> nat" where
  "measure_sum m n [] = 0"
| "measure_sum m n (l # ls) = m n l + measure_sum m (Suc n) ls"

lemma measure_sum_snoc: "measure_sum m n (ls @ [l]) = measure_sum m n ls + m (n + length ls) l"
  by (induction ls arbitrary: n) simp_all

abbreviation first_line :: "CompleteLineTruncateOptions \<Rightarrow> nat" where
  "first_line opts \<equiv> max (content_start_line opts) 1"

definition fits :: "CompleteLineTruncateOptions \<Rightarrow> (nat \<Rightarrow> rstr \<Rightarrow> nat) \<Rightarrow> rstr list \<Rightarrow> bool" where
  "fits opts m ls \<longleftrightarrow>
     measure_sum m (first_line opts) ls \<le> soft_byte_limit opts \<and> length ls \<le> soft_line_limit opts"

lemma fits_Nil: "fits opts m []"
  by (simp add: fits_def)

text \<open>The visitor's state after the lines \<open>ls\<close> have been taken.\<close>

definition taken :: "CompleteLineTruncateOptions \<Rightarrow> (nat \<Rightarrow> rstr \<Rightarrow> nat) \<Rightarrow> rstr list \<Rightarrow> TruncateState" where
  "taken opts m ls =
     \<lparr>end_byte = str_len (concat ls), sum_bytes = measure_sum m (first_line opts) ls,
      line_total = length ls,
      last_line = (if ls = [] then first_line opts else first_line opts + length ls - 1),
      remaining_after_prefix = False, soft_over_single_line = False, hard_limit_failure = None\<rparr>"

lemma visit_takes:
  assumes "fits opts m (ls @ [l])" and "soft_byte_limit opts \<le> usize_MAX"
    and "first_line opts + length ls < usize_MAX" and "str_len (concat ls) + str_len l \<le> usize_MAX"
    and "ls = [] \<Longrightarrow> m (first_line opts) l \<le> hard_byte_limit opts"
  shows "truncate_visit opts m n (taken opts m ls) (length ls) l = (True, taken opts m (ls @ [l]))"
proof -
  have sum: "measure_sum m (first_line opts) ls + m (first_line opts + length ls) l
      \<le> soft_byte_limit opts" "Suc (length ls) \<le> soft_line_limit opts"
    using assms(1) by (simp_all add: fits_def measure_sum_snoc)
  moreover have "sat_add_usize (first_line opts) (length ls) = first_line opts + length ls"
    "sat_add_usize (length ls) 1 = Suc (length ls)"
    "sat_add_usize (str_len (concat ls)) (str_len l) = str_len (concat ls) + str_len l"
    using assms(3,4) by (simp_all add: sat_add_usize_def)
  ultimately show ?thesis
    using assms(2,5)
    by (auto simp: truncate_visit_def taken_def Let_def checked_add_usize_def measure_sum_snoc)
qed

lemma visit_stops:
  assumes "\<not> fits opts m (ls @ [l])" and "fits opts m ls" and "soft_byte_limit opts \<le> usize_MAX"
    and "first_line opts + length ls < usize_MAX"
    and "ls \<noteq> [] \<or> m (first_line opts) l \<le> hard_byte_limit opts \<and> m (first_line opts) l \<le> soft_byte_limit opts"
  shows "truncate_visit opts m n (taken opts m ls) (length ls) l
    = (False, (taken opts m ls)\<lparr>remaining_after_prefix := True\<rparr>)"
proof -
  have sum: "soft_byte_limit opts < measure_sum m (first_line opts) ls + m (first_line opts + length ls) l
      \<or> soft_line_limit opts < Suc (length ls)"
    using assms(1) by (auto simp: fits_def measure_sum_snoc)
  moreover have "sat_add_usize (first_line opts) (length ls) = first_line opts + length ls"
    "sat_add_usize (length ls) 1 = Suc (length ls)"
    using assms(4) by (simp_all add: sat_add_usize_def)
  ultimately show ?thesis
    using assms(3,5)
    by (auto simp: truncate_visit_def taken_def Let_def checked_add_usize_def)
qed

lemma visit_lines_taken:
  assumes "fits opts m ls" and "soft_byte_limit opts \<le> usize_MAX"
    and "first_line opts + str_len (concat (ls @ rs)) < usize_MAX"
    and "\<forall>l \<in> set (ls @ rs). l \<noteq> []"
    and "ls \<noteq> [] \<or> rs = [] \<or> m (first_line opts) (hd rs) \<le> hard_byte_limit opts
           \<and> m (first_line opts) (hd rs) \<le> soft_byte_limit opts"
  shows "\<exists>k \<le> length rs. fits opts m (ls @ take k rs)
    \<and> (k < length rs \<longrightarrow> \<not> fits opts m (ls @ take (Suc k) rs))
    \<and> visit_lines (truncate_visit opts m n) (length ls) rs (taken opts m ls)
        = (taken opts m (ls @ take k rs))\<lparr>remaining_after_prefix := (k < length rs)\<rparr>"
  using assms
proof (induction rs arbitrary: ls)
  case Nil
  then show ?case by (simp add: taken_def)
next
  case (Cons l rs)
  have few: "length ls + str_len l \<le> str_len (concat (ls @ l # rs))"
    using length_le_concat [of ls] length_le_str_len [of "concat ls"] Cons.prems(4) by simp
  show ?case
  proof (cases "fits opts m (ls @ [l])")
    case True
    have step: "truncate_visit opts m n (taken opts m ls) (length ls) l = (True, taken opts m (ls @ [l]))"
      using Cons.prems few by (intro visit_takes [OF True]) auto
    have "sat_add_usize (length ls) 1 = length (ls @ [l])"
      using Cons.prems(3) few by (simp add: sat_add_usize_def)
    moreover obtain k where k: "k \<le> length rs" "fits opts m ((ls @ [l]) @ take k rs)"
      "k < length rs \<longrightarrow> \<not> fits opts m ((ls @ [l]) @ take (Suc k) rs)"
      "visit_lines (truncate_visit opts m n) (length (ls @ [l])) rs (taken opts m (ls @ [l]))
        = (taken opts m ((ls @ [l]) @ take k rs))\<lparr>remaining_after_prefix := (k < length rs)\<rparr>"
      using Cons.IH [OF True Cons.prems(2)] Cons.prems(3,4) by auto
    ultimately show ?thesis using step by (intro exI [of _ "Suc k"]) simp
  next
    case False
    have "truncate_visit opts m n (taken opts m ls) (length ls) l
        = (False, (taken opts m ls)\<lparr>remaining_after_prefix := True\<rparr>)"
      using Cons.prems few by (intro visit_stops [OF False]) auto
    with False Cons.prems(1) show ?thesis by (intro exI [of _ 0]) simp
  qed
qed

lemma complete_lines_Nil [simp]: "complete_lines [] = []"
  by (simp add: complete_lines_def)

lemma visit_count:
  "c + length ls \<le> usize_MAX \<Longrightarrow>
     visit_lines (\<lambda>count _ _. (True, sat_add_usize count 1)) off ls c = c + length ls"
  by (induction ls arbitrary: off c) (simp_all add: sat_add_usize_def)

lemma complete_line_count_eq:
  "str_len content \<le> usize_MAX \<Longrightarrow> complete_line_count content = length (complete_lines content)"
  using complete_lines_few [of content] visit_count [of 0 "complete_lines content" 0]
  by (simp add: complete_line_count_def for_each_complete_line_def)

text \<open>Lines are split off from the front: what follows a line does not change it, and a text that
  starts with whole lines is split at them.\<close>

lemma scan_lines_tail: "scan_lines acc s = l # ls \<Longrightarrow> scan_lines [] (concat ls) = ls"
  by (induction acc s arbitrary: l ls rule: scan_lines.induct)
    (auto simp: concat_scan_lines split: if_splits)

lemma complete_lines_drop: "complete_lines (concat (drop k (complete_lines s))) = drop k (complete_lines s)"
proof (induction k)
  case (Suc k)
  let ?ls = "complete_lines s"
  show ?case
  proof (cases "drop k ?ls")
    case (Cons l ls)
    then have "drop (Suc k) ?ls = ls" by (metis drop_Suc list.sel(3) tl_drop)
    with Suc Cons scan_lines_tail [of "[]" "concat (l # ls)" l ls] show ?thesis
      by (simp add: complete_lines_def)
  qed simp
qed simp

lemma scan_lines_take:
  "1 \<le> k \<Longrightarrow> s \<noteq> [] \<Longrightarrow> \<exists>t. t \<noteq> [] \<and> hd t = hd s \<and> concat (take k (scan_lines acc s)) = acc @ t
     \<and> scan_lines acc t = take k (scan_lines acc s)"
proof (induction acc s arbitrary: k rule: scan_lines.induct)
  case (2 acc c)
  then show ?case by (intro exI [of _ "[c]"]) (cases k, simp_all)
next
  case (3 acc c d r)
  obtain n where k: "k = Suc n" using "3.prems"(1) by (cases k) auto
  consider (crlf) "c = CR \<and> d = NL" | (ending) "\<not> (c = CR \<and> d = NL)" "c = CR \<or> c = NL"
    | (ordinary) "c \<noteq> CR" "c \<noteq> NL" by blast
  then show ?case
  proof cases
    case crlf
    show ?thesis
    proof (cases "n = 0 \<or> r = []")
      case True
      with crlf k show ?thesis by (intro exI [of _ "[c, d]"]) auto
    next
      case False
      then obtain t where "t \<noteq> []" "hd t = hd r" "concat (take n (scan_lines [] r)) = t"
        "scan_lines [] t = take n (scan_lines [] r)"
        using "3.IH"(1) [OF crlf, of n] by (metis append_Nil less_one linorder_not_less)
      with crlf k show ?thesis by (intro exI [of _ "c # d # t"]) auto
    qed
  next
    case ending
    show ?thesis
    proof (cases "n = 0")
      case True
      with ending k show ?thesis by (intro exI [of _ "[c]"]) auto
    next
      case False
      then obtain t where "t \<noteq> []" "hd t = d" "concat (take n (scan_lines [] (d # r))) = t"
        "scan_lines [] t = take n (scan_lines [] (d # r))"
        using "3.IH"(2) [OF ending, of n]
        by (metis append_Nil less_one linorder_not_less list.distinct(1) list.sel(1))
      with ending k show ?thesis by (intro exI [of _ "c # t"], cases t) auto
    qed
  next
    case ordinary
    then obtain t where "t \<noteq> []" "hd t = d" "concat (take k (scan_lines (acc @ [c]) (d # r))) = acc @ c # t"
      "scan_lines (acc @ [c]) t = take k (scan_lines (acc @ [c]) (d # r))"
      using "3.IH"(3) [of k] k by auto
    with ordinary show ?thesis by (intro exI [of _ "c # t"], cases t) auto
  qed
qed simp

lemma complete_lines_take: "complete_lines (concat (take k (complete_lines s))) = take k (complete_lines s)"
proof (cases "k = 0 \<or> s = []")
  case False
  then show ?thesis using scan_lines_take [of k s "[]"] by (auto simp: complete_lines_def Suc_le_eq)
qed auto

lemma concat_take_less:
  "\<forall>l \<in> set ls. l \<noteq> [] \<Longrightarrow> k \<le> length ls \<Longrightarrow>
     str_len (concat (take k ls)) < str_len (concat ls) \<longleftrightarrow> k < length ls"
proof -
  assume ne: "\<forall>l \<in> set ls. l \<noteq> []" and k: "k \<le> length ls"
  have "str_len (concat ls) = str_len (concat (take k ls)) + str_len (concat (drop k ls))"
    by (metis append_take_drop_id concat_append str_len_append)
  moreover have "concat (drop k ls) = [] \<longleftrightarrow> length ls \<le> k"
    using ne by (auto dest: in_set_dropD) (metis in_set_dropD last_in_set drop_eq_Nil2)
  ultimately show ?thesis using k by (metis add_cancel_left_right le_add1 le_antisym linorder_not_le
        nat_less_le str_len_eq_0)
qed

lemma byte_prefix_lines: "byte_prefix (str_len (concat (take k ls))) (concat ls) = concat (take k ls)"
  by (metis append_take_drop_id byte_prefix_append concat_append)

text \<open>What a prefix that is returned has to be.\<close>

definition sound_prefix :: "CompleteLineTruncateOptions \<Rightarrow> (nat \<Rightarrow> rstr \<Rightarrow> nat) \<Rightarrow> rstr
    \<Rightarrow> CompleteLinePrefix \<Rightarrow> bool" where
  "sound_prefix opts m content p \<longleftrightarrow>
     (let ls = complete_lines content; k = returned_lines p; rest = (k < length ls)
      in k \<le> length ls \<and> prefix_text p = concat (take k ls) \<and> (content \<noteq> [] \<longrightarrow> 1 \<le> k)
         \<and> truncated p = rest
         \<and> next_start_line p = (if rest then Some (first_line opts + k) else None)
         \<and> (content \<noteq> [] \<longrightarrow> last_returned_line p = first_line opts + k - 1)
         \<and> (if soft_budget_exceeded p
            then k = 1 \<and> soft_byte_limit opts < m (first_line opts) (hd ls)
              \<and> m (first_line opts) (hd ls) \<le> hard_byte_limit opts
            else fits opts m (take k ls) \<and> (rest \<longrightarrow> \<not> fits opts m (take (Suc k) ls))))"

lemma truncate_from_state:
  assumes "content \<noteq> []" and "complete_lines content = ls" and "k \<le> length ls" and "1 \<le> k"
    and "first_line opts + str_len content < usize_MAX"
    and "visit_lines (truncate_visit opts m (str_len content)) 0 ls (taken opts m [])
      = s\<lparr>remaining_after_prefix := (k < length ls), hard_limit_failure := None\<rparr>"
    and "end_byte s = str_len (concat (take k ls))" "line_total s = k" "last_line s = first_line opts + k - 1"
    and "if soft_over_single_line s
      then k = 1 \<and> soft_byte_limit opts < m (first_line opts) (hd ls)
        \<and> m (first_line opts) (hd ls) \<le> hard_byte_limit opts
      else fits opts m (take k ls) \<and> (k < length ls \<longrightarrow> \<not> fits opts m (take (Suc k) ls))"
  shows "\<exists>p. as_prefix (truncate_to_complete_lines_with_measure content opts m) = Some p
    \<and> sound_prefix opts m content p"
proof -
  have c: "concat ls = content" using assms(2) concat_complete_lines by blast
  have less: "str_len (concat (take k ls)) < str_len content \<longleftrightarrow> k < length ls"
    using concat_take_less [of ls k] complete_lines_not_Nil [of _ content] assms(2,3) c by simp
  have slice: "byte_prefix (str_len (concat (take k ls))) content = concat (take k ls)"
    using byte_prefix_lines [of k ls] c by simp
  have "k \<le> str_len content" using complete_lines_few [of content] assms(2,3) by simp
  then have num: "sat_add_usize (first_line opts + k - 1) 1 = first_line opts + k"
    using assms(4,5) by (simp add: sat_add_usize_def)
  let ?p = "\<lparr>prefix_text = concat (take k ls), returned_lines = k, last_returned_line = last_line s,
      next_start_line = (if k < length ls then Some (first_line opts + k) else None),
      truncated = (k < length ls), soft_budget_exceeded = soft_over_single_line s\<rparr>"
  have init: "\<lparr>end_byte = 0, sum_bytes = 0, line_total = 0, last_line = first_line opts,
      remaining_after_prefix = False, soft_over_single_line = False, hard_limit_failure = None\<rparr>
      = taken opts m []" by (simp add: taken_def)
  have "as_prefix (truncate_to_complete_lines_with_measure content opts m) = Some ?p"
    using assms(1) less slice num
    unfolding truncate_to_complete_lines_with_measure_def for_each_complete_line_def Let_def init
      assms(2) assms(6)
    by (cases "k < length ls") (simp_all add: as_prefix_def assms(7-9))
  moreover have "sound_prefix opts m content ?p"
    using assms(3,4,9,10) by (simp add: sound_prefix_def Let_def assms(2))
  ultimately show ?thesis by blast
qed

section \<open>Boundaries and arrays\<close>

lemma is_char_boundary_iff: "is_char_boundary t n \<longleftrightarrow> (\<exists>k \<le> length t. n = str_len (take k t))"
  by (auto simp: is_char_boundary_def less_Suc_eq_le simp del: upt_Suc)

lemma boundary_below_spec:
  "is_char_boundary text (boundary_below text n) \<and> boundary_below text n \<le> n
   \<and> (\<forall>b \<le> n. is_char_boundary text b \<longrightarrow> b \<le> boundary_below text n)"
proof (induction n)
  case 0
  have "str_len (take 0 text) = 0" by simp
  then have "is_char_boundary text 0" by (force simp: is_char_boundary_iff)
  then show ?case by simp
next
  case (Suc n)
  then show ?case by (auto simp: le_Suc_eq)
qed

text \<open>The length of a serialised array of records whose own lengths are \<open>sizes\<close>: two brackets
  and the commas between them.\<close>

definition array_bytes :: "nat list \<Rightarrow> nat" where
  "array_bytes sizes = 2 + sum_list sizes + (length sizes - 1)"

lemma array_bytes_snoc:
  "array_bytes (xs @ [x]) = array_bytes xs + (if 0 < length xs then 1 else 0) + x"
  by (cases xs) (simp_all add: array_bytes_def)

lemma array_bytes_ge: "2 \<le> array_bytes xs"
  by (simp add: array_bytes_def)

lemma array_bytes_mono: "i \<le> j \<Longrightarrow> array_bytes (take i xs) \<le> array_bytes (take j xs)"
proof -
  assume "i \<le> j"
  then obtain d where "take j xs = take i xs @ take d (drop i xs)"
    using le_Suc_ex take_add by metis
  then show ?thesis by (simp add: array_bytes_def)
qed

lemma array_prefix_loop_spec:
  assumes "\<forall>r \<in> set rs. size_of r = Inr (sz r)" and "max_bytes \<le> usize_MAX"
    and "array_bytes (map sz done) \<le> max_bytes"
  shows "\<exists>k \<le> length rs. array_prefix_loop size_of max_bytes rs (array_bytes (map sz done)) (length done)
      = Inr (length done + k)
    \<and> array_bytes (map sz (done @ take k rs)) \<le> max_bytes
    \<and> (k < length rs \<longrightarrow> max_bytes < array_bytes (map sz (done @ take (Suc k) rs)))"
  using assms
proof (induction rs arbitrary: "done")
  case Nil
  then show ?case by simp
next
  case (Cons r rs)
  let ?next = "array_bytes (map sz (done @ [r]))"
  have n: "?next = array_bytes (map sz done) + (if 0 < length done then 1 else 0) + sz r"
    by (simp add: array_bytes_snoc)
  show ?case
  proof (cases "?next \<le> max_bytes")
    case True
    then obtain k where k: "k \<le> length rs"
      "array_prefix_loop size_of max_bytes rs ?next (length (done @ [r])) = Inr (length (done @ [r]) + k)"
      "array_bytes (map sz ((done @ [r]) @ take k rs)) \<le> max_bytes"
      "k < length rs \<longrightarrow> max_bytes < array_bytes (map sz ((done @ [r]) @ take (Suc k) rs))"
      using Cons.IH [of "done @ [r]"] Cons.prems(1,2) by auto
    have "array_prefix_loop size_of max_bytes (r # rs) (array_bytes (map sz done)) (length done)
        = array_prefix_loop size_of max_bytes rs ?next (length (done @ [r]))"
      using True Cons.prems(1,2) n by (auto simp: checked_add_usize_def)
    with k show ?thesis by (intro exI [of _ "Suc k"]) simp
  next
    case False
    then have "array_prefix_loop size_of max_bytes (r # rs) (array_bytes (map sz done)) (length done)
        = Inr (length done)"
      using Cons.prems(1) n by (auto simp: checked_add_usize_def)
    with False Cons.prems(3) show ?thesis by (intro exI [of _ 0]) simp
  qed
qed

lemma array_prefix_maximal:
  assumes "\<forall>r \<in> set records. size_of r = Inr (sz r)" and "max_bytes \<le> usize_MAX"
  shows "\<exists>k \<le> length records. stable_json_array_prefix_len size_of records max_bytes = Inr k
    \<and> (if max_bytes < 2 then k = 0
       else array_bytes (map sz (take k records)) \<le> max_bytes
         \<and> (k < length records \<longrightarrow> max_bytes < array_bytes (map sz (take (Suc k) records))))"
proof (cases "max_bytes < 2")
  case True
  then show ?thesis by (simp add: stable_json_array_prefix_len_def)
next
  case False
  with array_prefix_loop_spec [OF assms, of "[]"] show ?thesis
    by (simp add: stable_json_array_prefix_len_def array_bytes_def)
qed

lemma truncate_sound:
  assumes "1 \<le> soft_line_limit opts" and "soft_byte_limit opts \<le> usize_MAX"
    and "max (content_start_line opts) 1 + str_len content < usize_MAX"
  shows "(\<forall>p. as_prefix (truncate_to_complete_lines_with_measure content opts m) = Some p
      \<longrightarrow> sound_prefix opts m content p)
    \<and> (as_prefix (truncate_to_complete_lines_with_measure content opts m) = None \<longleftrightarrow>
        content \<noteq> [] \<and> hard_byte_limit opts < m (max (content_start_line opts) 1) (hd (complete_lines content)))"
proof (cases "content = []")
  case True
  then show ?thesis
    by (simp add: truncate_to_complete_lines_with_measure_def as_prefix_def sound_prefix_def
        complete_lines_def fits_def)
next
  case False
  let ?r = "truncate_to_complete_lines_with_measure content opts m"
  obtain l ls where ls: "complete_lines content = l # ls"
    using concat_complete_lines [of content] False by (cases "complete_lines content") auto
  have start: "sat_add_usize (first_line opts) 0 = first_line opts"
    using assms(3) by (simp add: sat_add_usize_def)
  consider "hard_byte_limit opts < m (first_line opts) l"
    | "m (first_line opts) l \<le> hard_byte_limit opts" "soft_byte_limit opts < m (first_line opts) l"
    | "m (first_line opts) l \<le> hard_byte_limit opts" "m (first_line opts) l \<le> soft_byte_limit opts"
    by linarith
  then show ?thesis
  proof cases
    case 1
    then show ?thesis using False ls start
      by (simp add: truncate_to_complete_lines_with_measure_def Let_def for_each_complete_line_def
          truncate_visit_def as_prefix_def)
  next
    case 2
    have "str_len content = str_len (concat (l # ls))"
      using concat_complete_lines [of content] unfolding ls by simp
    then have less: "str_len l < str_len content \<longleftrightarrow> 1 < length (l # ls)"
      using concat_take_less [of "l # ls" 1] complete_lines_not_Nil [of _ content] ls by simp
    have "\<exists>p. as_prefix ?r = Some p \<and> sound_prefix opts m content p"
      by (rule truncate_from_state [OF False ls, of 1 _ _ "(taken opts m [])\<lparr>end_byte := str_len l,
            line_total := 1, last_line := first_line opts, soft_over_single_line := True\<rparr>"])
        (use assms(3) 2 start less in \<open>simp_all add: truncate_visit_def taken_def\<close>)
    with 2 ls show ?thesis by auto
  next
    case 3
    have "first_line opts + str_len (concat ([] @ l # ls)) < usize_MAX"
      using assms(3) concat_complete_lines [of content] unfolding ls by simp
    moreover have "\<forall>x \<in> set ([] @ l # ls). x \<noteq> []" using complete_lines_not_Nil [of _ content] ls by simp
    moreover have "[] \<noteq> [] \<or> l # ls = [] \<or> m (first_line opts) (hd (l # ls)) \<le> hard_byte_limit opts
        \<and> m (first_line opts) (hd (l # ls)) \<le> soft_byte_limit opts" using 3 by simp
    ultimately obtain k where k: "k \<le> length (l # ls)" "fits opts m (take k (l # ls))"
      "k < length (l # ls) \<longrightarrow> \<not> fits opts m (take (Suc k) (l # ls))"
      "visit_lines (truncate_visit opts m (str_len content)) 0 (l # ls) (taken opts m [])
        = (taken opts m (take k (l # ls)))\<lparr>remaining_after_prefix := (k < length (l # ls))\<rparr>"
      using visit_lines_taken [OF fits_Nil assms(2), of "l # ls" m "str_len content"]
      unfolding append_Nil list.size(3) by blast
    have "1 \<le> k" using k(3) 3 assms(1) by (cases k) (simp_all add: fits_def)
    with k have "\<exists>p. as_prefix ?r = Some p \<and> sound_prefix opts m content p"
      by (intro truncate_from_state [OF False ls, of k _ _ "taken opts m (take k (l # ls))"])
        (use assms(3) in \<open>simp_all add: taken_def\<close>)
    with 3 ls show ?thesis by auto
  qed
qed

section \<open>Properties\<close>

text \<open>C33: cutting a text at complete lines loses nothing, makes progress and respects the budget.
  Whatever the measure of a line, an outcome with text returns the first \<open>k\<close> complete lines, at
  least one of a text that is not empty; it is marked truncated exactly when lines remain, and then
  the next line to ask for is the first one that was not returned; the returned lines fit the soft
  budgets and one more would not, or there is a single line that is over the soft byte budget and
  not over the hard one. The other outcome is returned exactly when the first line is over the hard
  limit.\<close>

theorem truncate_complete_lines_sound:
  assumes "1 \<le> soft_line_limit opts" and "soft_byte_limit opts \<le> usize_MAX"
    and "max (content_start_line opts) 1 + str_len content < usize_MAX"
  shows "(\<forall>p. as_prefix (truncate_to_complete_lines_with_measure content opts m) = Some p
      \<longrightarrow> sound_prefix opts m content p)
    \<and> (as_prefix (truncate_to_complete_lines_with_measure content opts m) = None \<longleftrightarrow>
        content \<noteq> [] \<and> hard_byte_limit opts < m (max (content_start_line opts) 1) (hd (complete_lines content)))"
  by (rule truncate_sound [OF assms])

theorem truncate_complete_lines_sound_witness:
  "\<exists>p. truncate_to_complete_lines ([97, CR, NL] @ lit ''bb'' @ [NL] @ lit ''c'')
        \<lparr>soft_byte_limit = 4, soft_line_limit = 9, hard_byte_limit = 9, content_start_line = 5\<rparr> = Truncated p
     \<and> sound_prefix \<lparr>soft_byte_limit = 4, soft_line_limit = 9, hard_byte_limit = 9, content_start_line = 5\<rparr>
         (\<lambda>_. str_len) ([97, CR, NL] @ lit ''bb'' @ [NL] @ lit ''c'') p
     \<and> prefix_text p = [97, CR, NL] \<and> next_start_line p = Some 6"
proof -
  let ?c = "[97, CR, NL] @ lit ''bb'' @ [NL] @ lit ''c''"
  let ?o = "\<lparr>soft_byte_limit = 4, soft_line_limit = 9, hard_byte_limit = 9, content_start_line = 5\<rparr>"
  have len: "str_len ?c = 7" "str_len [97, CR, NL] = 3"
    by (simp_all add: str_len_def str_bytes_def utf8_char_def lit_def CR_def NL_def)
  have "complete_lines ?c = [[97, CR, NL], [98, 98, NL], [99]]"
    by (simp add: complete_lines_def lit_def CR_def NL_def)
  then obtain p where p: "truncate_to_complete_lines ?c ?o = Truncated p" "prefix_text p = [97, CR, NL]"
    "next_start_line p = Some 6"
    using byte_prefix_append [of "[97, CR, NL]"] len
    by (simp add: truncate_to_complete_lines_def truncate_to_complete_lines_with_measure_def
        for_each_complete_line_def truncate_visit_def sat_add_usize_def usize_MAX_def
        checked_add_usize_def str_len_def str_bytes_def utf8_char_def lit_def CR_def NL_def)
  then have "as_prefix (truncate_to_complete_lines_with_measure ?c ?o (\<lambda>_. str_len)) = Some p"
    by (simp add: truncate_to_complete_lines_def as_prefix_def)
  with truncate_complete_lines_sound [of ?o ?c "\<lambda>_. str_len"] len
  have "sound_prefix ?o (\<lambda>_. str_len) ?c p" by (simp add: usize_MAX_def)
  with p show ?thesis by blast
qed

text \<open>A bounded prefix is the longest one that fits. The result is a prefix of whole characters
  within the byte limit; it is flagged as cut exactly when something is missing, and then the next
  character would not have fitted.\<close>

theorem bounded_utf8_prefix_longest:
  assumes "bounded_utf8_prefix t n = (p, trunc)"
  shows "\<exists>rest. t = p @ rest \<and> str_len p \<le> n \<and> (trunc \<longleftrightarrow> rest \<noteq> [])
    \<and> (trunc \<longrightarrow> n < str_len (p @ [hd rest]))"
proof (cases "str_len t \<le> n")
  case True
  with assms show ?thesis by (auto simp: bounded_utf8_prefix_def)
next
  case False
  let ?b = "boundary_below t n"
  obtain k where k: "k \<le> length t" "?b = str_len (take k t)" "?b \<le> n"
    using boundary_below_spec [of t n] by (auto simp: is_char_boundary_iff)
  have p: "p = take k t" "trunc"
    using assms False k(2) byte_prefix_append [of "take k t" "drop k t"]
    by (auto simp: bounded_utf8_prefix_def)
  have less: "k < length t" using False k by (cases "k = length t") auto
  then have split: "take (Suc k) t = p @ [hd (drop k t)]"
    using p by (simp add: take_Suc_conv_app_nth hd_drop_conv_nth)
  have "n < str_len (take (Suc k) t)"
  proof (rule ccontr)
    assume "\<not> n < str_len (take (Suc k) t)"
    moreover have "is_char_boundary t (str_len (take (Suc k) t))"
      using less unfolding is_char_boundary_iff by (intro exI [of _ "Suc k"]) simp
    ultimately have "str_len (take (Suc k) t) \<le> str_len (take k t)"
      using boundary_below_spec [of t n] k(2) by (metis not_less)
    with split p show False by simp
  qed
  with p k less split show ?thesis by (intro exI [of _ "drop k t"]) auto
qed

theorem bounded_utf8_prefix_longest_witness:
  "bounded_utf8_prefix [8364, 97] 2 = ([], True)
   \<and> (\<exists>rest. [8364, 97] = [] @ rest \<and> rest \<noteq> [] \<and> 2 < str_len ([] @ [hd rest]))"
proof -
  have run: "bounded_utf8_prefix [8364, 97] 2 = ([], True)"
    by (simp add: bounded_utf8_prefix_def is_char_boundary_def str_len_def str_bytes_def
        utf8_char_def numeral_2_eq_2)
  with bounded_utf8_prefix_longest [OF this] show ?thesis by blast
qed

end
