(* ===== verification/Output_Budget.thy ===== *)
theory Output_Budget
  imports Line_Budget
begin

text \<open>
  The output budget of tool executions (\<open>tools/output_budget.rs\<close>, from the types of the budget
  to \<open>minimal_hard_limit_fallback\<close>). JSON values are a datatype, an object an association
  list whose order carries no meaning. The size of the record that will carry an execution is a
  parameter (\<open>measure_envelope\<close>, the serialiser with the envelope of the caller), which may
  fail with a message.
\<close>

section \<open>JSON values\<close>

datatype json =
  JNull
| JBool bool
| JInt int
| JFloat rstr
| JStr rstr
| JArr "json list"
| JObj "(rstr \<times> json) list"

definition json_get :: "json \<Rightarrow> rstr \<Rightarrow> json option" where
  "json_get v key = (case v of JObj kvs \<Rightarrow> map_of kvs key | _ \<Rightarrow> None)"

definition as_u64 :: "json option \<Rightarrow> nat option" where
  "as_u64 v = (case v of Some (JInt n) \<Rightarrow> if 0 \<le> n \<and> n < 2 ^ 64 then Some (nat n) else None | _ \<Rightarrow> None)"

definition as_str :: "json option \<Rightarrow> rstr option" where
  "as_str v = (case v of Some (JStr s) \<Rightarrow> Some s | _ \<Rightarrow> None)"

definition json_opt_str :: "rstr option \<Rightarrow> json" where
  "json_opt_str v = (case v of None \<Rightarrow> JNull | Some s \<Rightarrow> JStr s)"

definition json_nat :: "nat \<Rightarrow> json" where "json_nat n = JInt (int n)"

text \<open>\<open>output[key] = value\<close> on an object.\<close>

definition json_set :: "rstr \<Rightarrow> json \<Rightarrow> json \<Rightarrow> json" where
  "json_set key v obj =
     (case obj of JObj kvs \<Rightarrow> JObj (filter (\<lambda>e. fst e \<noteq> key) kvs @ [(key, v)]) | _ \<Rightarrow> obj)"

fun value_text_lines :: "json \<Rightarrow> nat" and array_text_lines :: "json list \<Rightarrow> nat \<Rightarrow> nat"
    and object_text_lines :: "(rstr \<times> json) list \<Rightarrow> nat \<Rightarrow> nat" where
  "value_text_lines (JStr t) = complete_line_count t"
| "value_text_lines (JArr vs) = array_text_lines vs 0"
| "value_text_lines (JObj kvs) = object_text_lines kvs 0"
| "value_text_lines _ = 0"
| "array_text_lines [] acc = acc"
| "array_text_lines (v # vs) acc = array_text_lines vs (sat_add_usize acc (value_text_lines v))"
| "object_text_lines [] acc = acc"
| "object_text_lines ((k, v) # fs) acc = object_text_lines fs (sat_add_usize acc (value_text_lines v))"

section \<open>Types of the budget\<close>

datatype ToolOutputBudgetState =
  WithinBudget | SoftLimitPreview | ReadOnlyRecoverableFailure | RetryUnsafeOutputOmitted
| HardLimitFallback

fun budget_state_name :: "ToolOutputBudgetState \<Rightarrow> rstr" where
  "budget_state_name WithinBudget = lit ''withinBudget''"
| "budget_state_name SoftLimitPreview = lit ''softLimitPreview''"
| "budget_state_name ReadOnlyRecoverableFailure = lit ''readOnlyRecoverableFailure''"
| "budget_state_name RetryUnsafeOutputOmitted = lit ''retryUnsafeOutputOmitted''"
| "budget_state_name HardLimitFallback = lit ''hardLimitFallback''"

datatype ToolOutputBudgetReason = SoftByteLimit | SoftLineLimit | HardByteLimit | SerializationFailure

fun budget_reason_name :: "ToolOutputBudgetReason \<Rightarrow> rstr" where
  "budget_reason_name SoftByteLimit = lit ''softByteLimit''"
| "budget_reason_name SoftLineLimit = lit ''softLineLimit''"
| "budget_reason_name HardByteLimit = lit ''hardByteLimit''"
| "budget_reason_name SerializationFailure = lit ''serializationFailure''"

datatype ToolOutputSemantics = ReadOnly | RetryUnsafe

record ToolOutputMeasurement =
  serialized_bytes :: nat
  text_lines :: nat

record ToolExecution =
  tool_output :: json
  is_error :: bool

record BudgetedToolExecution =
  execution :: ToolExecution
  budget_state :: ToolOutputBudgetState
  original_measurement :: "ToolOutputMeasurement option"

type_synonym envelope_measure = "ToolExecution \<Rightarrow> rstr + nat"

definition measure_tool_execution :: "envelope_measure \<Rightarrow> ToolExecution \<Rightarrow> rstr + ToolOutputMeasurement" where
  "measure_tool_execution size_of ex =
     (case size_of ex of
        Inl e \<Rightarrow> Inl e
      | Inr n \<Rightarrow> Inr \<lparr>serialized_bytes = n, text_lines = value_text_lines (tool_output ex)\<rparr>)"

definition budget_reason :: "ToolOutputMeasurement \<Rightarrow> nat \<Rightarrow> ToolOutputBudgetReason option" where
  "budget_reason m hard_limit =
     (if serialized_bytes m > hard_limit then Some HardByteLimit
      else if serialized_bytes m > TOOL_OUTPUT_SOFT_BYTE_LIMIT then Some SoftByteLimit
      else if text_lines m > TOOL_OUTPUT_SOFT_LINE_LIMIT then Some SoftLineLimit
      else None)"

section \<open>Results that already respect the budget\<close>

definition is_true :: "json option \<Rightarrow> bool" where "is_true v \<longleftrightarrow> v = Some (JBool True)"
definition is_false :: "json option \<Rightarrow> bool" where "is_false v \<longleftrightarrow> v = Some (JBool False)"

definition at_least :: "nat \<Rightarrow> nat option \<Rightarrow> bool" where
  "at_least k v \<longleftrightarrow> (case v of None \<Rightarrow> False | Some n \<Rightarrow> k \<le> n)"

definition non_empty :: "rstr option \<Rightarrow> bool" where
  "non_empty v \<longleftrightarrow> (case v of None \<Rightarrow> False | Some s \<Rightarrow> s \<noteq> [])"

definition is_object :: "json \<Rightarrow> bool" where
  "is_object v \<longleftrightarrow> (case v of JObj _ \<Rightarrow> True | _ \<Rightarrow> False)"

definition is_line_bounded_budget_success :: "ToolExecution \<Rightarrow> bool" where
  "is_line_bounded_budget_success ex \<longleftrightarrow>
     \<not> is_error ex \<and> is_object (tool_output ex)
     \<and> ((is_true (json_get (tool_output ex) (lit ''truncated''))
           \<and> at_least 1 (as_u64 (json_get (tool_output ex) (lit ''nextStartLine''))))
        \<or> (is_true (json_get (tool_output ex) (lit ''softBudgetExceeded''))
           \<and> is_false (json_get (tool_output ex) (lit ''truncated''))))"

definition is_command_output_cursor_pagination :: "rstr \<Rightarrow> ToolExecution \<Rightarrow> bool" where
  "is_command_output_cursor_pagination tool_name ex \<longleftrightarrow>
     tool_name = lit ''get_command_output'' \<and> \<not> is_error ex \<and> is_object (tool_output ex)
     \<and> is_true (json_get (tool_output ex) (lit ''truncated''))
     \<and> is_true (json_get (tool_output ex) (lit ''hasMore''))
     \<and> at_least 1 (as_u64 (json_get (tool_output ex) (lit ''nextCursor'')))
     \<and> non_empty (as_str (json_get (tool_output ex) (lit ''processId'')))
     \<and> as_str (json_get (tool_output ex) (lit ''note'')) \<noteq> None"

definition is_get_plans_offset_pagination :: "rstr \<Rightarrow> ToolExecution \<Rightarrow> bool" where
  "is_get_plans_offset_pagination tool_name ex \<longleftrightarrow>
     tool_name = lit ''get_plans'' \<and> \<not> is_error ex \<and> is_object (tool_output ex)
     \<and> is_true (json_get (tool_output ex) (lit ''truncated''))
     \<and> is_true (json_get (tool_output ex) (lit ''hasMore''))
     \<and> at_least 1 (as_u64 (json_get (tool_output ex) (lit ''returnedCount'')))
     \<and> at_least 1 (as_u64 (json_get (tool_output ex) (lit ''nextOffset'')))"

definition is_update_spec_content_omitted_success :: "rstr \<Rightarrow> ToolExecution \<Rightarrow> bool" where
  "is_update_spec_content_omitted_success tool_name ex \<longleftrightarrow>
     tool_name = lit ''update_spec'' \<and> \<not> is_error ex \<and> is_object (tool_output ex)
     \<and> is_true (json_get (tool_output ex) (lit ''contentOmitted''))
     \<and> as_u64 (json_get (tool_output ex) (lit ''revision'')) \<noteq> None
     \<and> non_empty (as_str (json_get (tool_output ex) (lit ''updateMode'')))
     \<and> json_get (tool_output ex) (lit ''contentMarkdown'') = None"

text \<open>\<open>Path::file_name\<close> on POSIX: the last component that is a name.\<close>

definition path_file_name :: "rstr \<Rightarrow> rstr option" where
  "path_file_name p =
     (let cs = filter (\<lambda>c. c \<noteq> [] \<and> c \<noteq> lit ''.'') (split_on 47 p)
      in if cs = [] \<or> last cs = lit ''..'' then None else Some (last cs))"

definition path_is_skill_md :: "rstr \<Rightarrow> bool" where
  "path_is_skill_md p \<longleftrightarrow> path_file_name p = Some (lit ''SKILL.md'')"

definition read_file_output_is_skill_md :: "json \<Rightarrow> bool" where
  "read_file_output_is_skill_md out \<longleftrightarrow>
     (case as_str (json_get out (lit ''path'')) of
        None \<Rightarrow> False
      | Some p \<Rightarrow> path_is_skill_md p \<and> as_u64 (json_get out (lit ''bytes'')) \<noteq> None)"

section \<open>Replacement outputs\<close>

definition MAX_ENVELOPE_TOOL_NAME_BYTES :: nat where "MAX_ENVELOPE_TOOL_NAME_BYTES = 256"
definition MAX_OUTPUT_PREVIEW_BYTES :: nat where "MAX_OUTPUT_PREVIEW_BYTES = 4 * 1024"

definition bounded_tool_name :: "rstr \<Rightarrow> rstr \<times> bool" where
  "bounded_tool_name tool_name =
     (if str_len tool_name \<le> MAX_ENVELOPE_TOOL_NAME_BYTES then (tool_name, False)
      else (byte_prefix (boundary_below tool_name MAX_ENVELOPE_TOOL_NAME_BYTES) tool_name, True))"

definition common_budget_fields ::
    "rstr \<Rightarrow> ToolOutputBudgetState \<Rightarrow> ToolOutputMeasurement \<Rightarrow> ToolOutputBudgetReason \<Rightarrow> json" where
  "common_budget_fields tool_name state m reason =
     JObj [(lit ''budgetState'', JStr (budget_state_name state)),
       (lit ''toolName'', JStr (fst (bounded_tool_name tool_name))),
       (lit ''toolNameTruncated'', JBool (snd (bounded_tool_name tool_name))),
       (lit ''originalBytes'', JInt (int (serialized_bytes m))),
       (lit ''originalLines'', JInt (int (text_lines m))),
       (lit ''reason'', JStr (budget_reason_name reason)),
       (lit ''softLimitBytes'', JInt (int TOOL_OUTPUT_SOFT_BYTE_LIMIT)),
       (lit ''softLimitLines'', JInt (int TOOL_OUTPUT_SOFT_LINE_LIMIT)),
       (lit ''hardLimitBytes'', JInt (int TOOL_EXECUTION_HARD_BYTE_LIMIT)),
       (lit ''envelopeReserveBytes'', JInt (int TOOL_EXECUTION_ENVELOPE_RESERVE_BYTES))]"

definition READ_ONLY_RETRY_GUIDANCE :: rstr where
  "READ_ONLY_RETRY_GUIDANCE = lit ''Retry with a narrower path, query, range, or limit, or use the tool'' @ [39]
     @ lit ''s continuation mechanism when available.''"

definition read_only_failure ::
    "rstr \<Rightarrow> ToolOutputMeasurement \<Rightarrow> ToolOutputBudgetReason \<Rightarrow> ToolExecution" where
  "read_only_failure tool_name m reason =
     \<lparr>tool_output = json_set (lit ''guidance'') (JStr READ_ONLY_RETRY_GUIDANCE)
        (json_set (lit ''retryable'') (JBool True)
          (json_set (lit ''error'') (JStr (lit ''Tool completed, but its read-only result exceeded the shared output budget and was omitted.''))
            (common_budget_fields tool_name ReadOnlyRecoverableFailure m reason))),
      is_error = True\<rparr>"

definition preview_fields :: "rstr list" where
  "preview_fields = [lit ''error'', lit ''message'', lit ''summary'', lit ''status'', lit ''path'',
     lit ''stderr'', lit ''stdout'', lit ''result'']"

definition output_text_preview :: "json \<Rightarrow> (rstr \<times> rstr \<times> bool) option" where
  "output_text_preview v =
     (case (case v of
              JStr t \<Rightarrow> Some (lit ''output'', t)
            | JObj kvs \<Rightarrow>
                first_some (\<lambda>f. map_option (\<lambda>t. (f, t)) (as_str (map_of kvs f))) preview_fields
            | _ \<Rightarrow> None) of
        None \<Rightarrow> None
      | Some (source, t) \<Rightarrow>
          Some (source, fst (bounded_utf8_prefix t MAX_OUTPUT_PREVIEW_BYTES),
                snd (bounded_utf8_prefix t MAX_OUTPUT_PREVIEW_BYTES)))"

definition attach_output_preview :: "json \<Rightarrow> json \<Rightarrow> json" where
  "attach_output_preview out original =
     (case output_text_preview original of
        None \<Rightarrow> out
      | Some (source, preview, was_cut) \<Rightarrow>
          json_set (lit ''outputPreviewTruncated'') (JBool was_cut)
            (json_set (lit ''outputPreviewSource'') (JStr source)
              (json_set (lit ''outputPreview'') (JStr preview) out)))"

definition retry_unsafe_omission ::
    "rstr \<Rightarrow> json \<Rightarrow> ToolOutputMeasurement \<Rightarrow> ToolOutputBudgetReason \<Rightarrow> ToolExecution" where
  "retry_unsafe_omission tool_name original m reason =
     \<lparr>tool_output = attach_output_preview
        (json_set (lit ''retryUnsafe'') (JBool True)
          (json_set (lit ''outputOmitted'') (JBool True)
            (json_set (lit ''summary'') (JStr (lit ''Tool completed successfully, but its output exceeded the shared output budget and was omitted.''))
              (common_budget_fields tool_name RetryUnsafeOutputOmitted m reason)))) original,
      is_error = False\<rparr>"

definition original_failure_omission :: "rstr \<Rightarrow> json \<Rightarrow> ToolOutputMeasurement
    \<Rightarrow> ToolOutputBudgetReason \<Rightarrow> ToolOutputBudgetState \<Rightarrow> ToolExecution" where
  "original_failure_omission tool_name original m reason state =
     \<lparr>tool_output = attach_output_preview
        (json_set (lit ''outputOmitted'') (JBool True)
          (json_set (lit ''error'') (JStr (lit ''Tool failed, and its oversized error output was explicitly omitted by the shared output budget.''))
            (common_budget_fields tool_name state m reason))) original,
      is_error = True\<rparr>"

definition serialization_fallback ::
    "rstr \<Rightarrow> ToolOutputSemantics \<Rightarrow> bool \<Rightarrow> rstr \<Rightarrow> ToolExecution" where
  "serialization_fallback tool_name semantics original_is_error message =
     \<lparr>tool_output = JObj [(lit ''budgetState'', JStr (budget_state_name HardLimitFallback)),
        (lit ''toolName'', JStr (fst (bounded_tool_name tool_name))),
        (lit ''toolNameTruncated'', JBool (snd (bounded_tool_name tool_name))),
        (lit ''reason'', JStr (budget_reason_name SerializationFailure)),
        (lit ''error'', JStr (lit ''Tool result could not be measured for safe serialization: '' @ message)),
        (lit ''outputOmitted'', JBool True),
        (lit ''retryUnsafe'', JBool (\<not> original_is_error \<and> semantics = RetryUnsafe)),
        (lit ''hardLimitBytes'', JInt (int TOOL_EXECUTION_HARD_BYTE_LIMIT)),
        (lit ''envelopeReserveBytes'', JInt (int TOOL_EXECUTION_ENVELOPE_RESERVE_BYTES))],
      is_error = (original_is_error \<or> semantics = ReadOnly)\<rparr>"

definition minimal_hard_limit_fallback ::
    "rstr \<Rightarrow> ToolOutputSemantics \<Rightarrow> ToolOutputMeasurement \<Rightarrow> bool \<Rightarrow> ToolExecution" where
  "minimal_hard_limit_fallback tool_name semantics m failed =
     \<lparr>tool_output = JObj [(lit ''budgetState'', JStr (budget_state_name HardLimitFallback)),
        (lit ''toolName'', JStr (fst (bounded_tool_name tool_name))),
        (lit ''originalBytes'', JInt (int (serialized_bytes m))),
        (lit ''reason'', JStr (budget_reason_name HardByteLimit)),
        (lit ''outputOmitted'', JBool True),
        (lit ''retryUnsafe'', JBool (\<not> failed \<and> semantics = RetryUnsafe)),
        (lit ''hardLimitBytes'', JInt (int TOOL_EXECUTION_HARD_BYTE_LIMIT)),
        (lit ''envelopeReserveBytes'', JInt (int TOOL_EXECUTION_ENVELOPE_RESERVE_BYTES))],
      is_error = failed\<rparr>"

section \<open>Normalisation\<close>

definition finalize_budgeted_execution :: "rstr \<Rightarrow> ToolOutputSemantics \<Rightarrow> ToolExecution
    \<Rightarrow> ToolOutputBudgetState \<Rightarrow> ToolOutputMeasurement \<Rightarrow> nat \<Rightarrow> envelope_measure \<Rightarrow> BudgetedToolExecution" where
  "finalize_budgeted_execution tool_name semantics ex state m hard_limit measure_envelope =
     (if (case measure_envelope ex of Inl _ \<Rightarrow> False | Inr n \<Rightarrow> n \<le> hard_limit)
      then \<lparr>execution = ex, budget_state = state, original_measurement = Some m\<rparr>
      else \<lparr>execution = minimal_hard_limit_fallback tool_name semantics m (is_error ex),
            budget_state = HardLimitFallback, original_measurement = Some m\<rparr>)"

text \<open>The exceptions to the soft limits.\<close>

definition keeps_full_result ::
    "rstr \<Rightarrow> ToolOutputSemantics \<Rightarrow> ToolExecution \<Rightarrow> ToolOutputBudgetReason \<Rightarrow> bool" where
  "keeps_full_result tool_name semantics ex reason \<longleftrightarrow>
     (semantics = ReadOnly \<and> tool_name = lit ''read_file'' \<and> \<not> is_error ex \<and> reason \<noteq> HardByteLimit
        \<and> read_file_output_is_skill_md (tool_output ex))
     \<or> (\<not> is_error ex \<and> reason \<noteq> HardByteLimit
        \<and> (is_line_bounded_budget_success ex \<or> is_command_output_cursor_pagination tool_name ex
           \<or> is_get_plans_offset_pagination tool_name ex
           \<or> is_update_spec_content_omitted_success tool_name ex))"

definition normalize_tool_execution_with_measurement :: "rstr \<Rightarrow> ToolOutputSemantics \<Rightarrow> ToolExecution
    \<Rightarrow> nat \<Rightarrow> envelope_measure \<Rightarrow> BudgetedToolExecution" where
  "normalize_tool_execution_with_measurement tool_name semantics ex hard_limit measure_envelope =
     (case measure_tool_execution measure_envelope ex of
        Inl e \<Rightarrow> \<lparr>execution = serialization_fallback tool_name semantics (is_error ex) e,
                 budget_state = HardLimitFallback, original_measurement = None\<rparr>
      | Inr m \<Rightarrow>
          (case budget_reason m hard_limit of
             None \<Rightarrow> \<lparr>execution = ex, budget_state = WithinBudget, original_measurement = Some m\<rparr>
           | Some reason \<Rightarrow>
               if keeps_full_result tool_name semantics ex reason then
                 \<lparr>execution = ex, budget_state = WithinBudget, original_measurement = Some m\<rparr>
               else if is_error ex then
                 (let state = (if reason = HardByteLimit then HardLimitFallback else SoftLimitPreview)
                  in finalize_budgeted_execution tool_name semantics
                       (original_failure_omission tool_name (tool_output ex) m reason state) state m
                       hard_limit measure_envelope)
               else
                 (case semantics of
                    ReadOnly \<Rightarrow>
                      finalize_budgeted_execution tool_name semantics
                        (read_only_failure tool_name m reason) ReadOnlyRecoverableFailure m
                        hard_limit measure_envelope
                  | RetryUnsafe \<Rightarrow>
                      finalize_budgeted_execution tool_name semantics
                        (retry_unsafe_omission tool_name (tool_output ex) m reason)
                        RetryUnsafeOutputOmitted m hard_limit measure_envelope)))"

definition normalize_tool_execution ::
    "envelope_measure \<Rightarrow> rstr \<Rightarrow> ToolOutputSemantics \<Rightarrow> ToolExecution \<Rightarrow> BudgetedToolExecution" where
  "normalize_tool_execution serialized_json_size tool_name semantics ex =
     normalize_tool_execution_with_measurement tool_name semantics ex
       TOOL_EXECUTION_PAYLOAD_HARD_BYTE_LIMIT serialized_json_size"

definition normalize_tool_execution_for_envelope ::
    "rstr \<Rightarrow> ToolOutputSemantics \<Rightarrow> ToolExecution \<Rightarrow> envelope_measure \<Rightarrow> BudgetedToolExecution" where
  "normalize_tool_execution_for_envelope tool_name semantics ex measure_envelope =
     normalize_tool_execution_with_measurement tool_name semantics ex
       TOOL_EXECUTION_HARD_BYTE_LIMIT measure_envelope"

fun soft_line_loop :: "json list \<Rightarrow> nat \<Rightarrow> nat \<Rightarrow> nat" where
  "soft_line_loop [] ls line_count = line_count"
| "soft_line_loop (r # rs) ls line_count =
     (case checked_add_usize ls (max (value_text_lines r) 1) of
        None \<Rightarrow> line_count
      | Some next_lines \<Rightarrow>
          if next_lines > TOOL_OUTPUT_SOFT_LINE_LIMIT then line_count
          else soft_line_loop rs next_lines (line_count + 1))"

definition soft_limit_array_prefix_len_with_overhead ::
    "(json \<Rightarrow> 'e + nat) \<Rightarrow> json list \<Rightarrow> nat \<Rightarrow> 'e + nat" where
  "soft_limit_array_prefix_len_with_overhead size_of records metadata_overhead_bytes =
     (case stable_json_array_prefix_len size_of records
             (TOOL_OUTPUT_SOFT_BYTE_LIMIT - metadata_overhead_bytes) of
        Inl e \<Rightarrow> Inl e
      | Inr byte_count \<Rightarrow>
          Inr (min (soft_line_loop (take byte_count records) 0 0) byte_count))"

definition soft_limit_array_prefix_len :: "(json \<Rightarrow> 'e + nat) \<Rightarrow> json list \<Rightarrow> 'e + nat" where
  "soft_limit_array_prefix_len size_of records =
     soft_limit_array_prefix_len_with_overhead size_of records 0"

section \<open>Lemmas\<close>

lemma json_get_set_same: "is_object obj \<Longrightarrow> json_get (json_set k v obj) k = Some v"
proof (cases obj)
  case (JObj kvs)
  have "map_of (filter (\<lambda>e. fst e \<noteq> k) kvs) k = None"
    by (auto simp: map_of_eq_None_iff)
  with JObj show ?thesis by (simp add: json_get_def json_set_def map_add_def)
qed (simp_all add: is_object_def)

lemma map_of_filter_other: "k' \<noteq> k \<Longrightarrow> map_of (filter (\<lambda>e. fst e \<noteq> k) kvs) k' = map_of kvs k'"
  by (induction kvs) auto

lemma json_get_set_other: "k' \<noteq> k \<Longrightarrow> json_get (json_set k v obj) k' = json_get obj k'"
  by (cases obj) (simp_all add: json_get_def json_set_def map_add_def map_of_filter_other split: option.split)

lemma is_object_set [simp]: "is_object (json_set k v obj) = is_object obj"
  by (cases obj) (simp_all add: is_object_def json_set_def)

lemma is_object_common [simp]: "is_object (common_budget_fields t st m r)"
  by (simp add: is_object_def common_budget_fields_def)

lemma json_get_preview:
  "k \<notin> {lit ''outputPreviewTruncated'', lit ''outputPreviewSource'', lit ''outputPreview''} \<Longrightarrow>
     json_get (attach_output_preview out original) k = json_get out k"
  by (auto simp: attach_output_preview_def json_get_set_other split: option.split)

lemma retry_unsafe_marked:
  "json_get (tool_output (retry_unsafe_omission t original m r)) (lit ''retryUnsafe'') = Some (JBool True)"
  by (simp add: retry_unsafe_omission_def json_get_preview json_get_set_same)

lemma fallback_marked:
  "json_get (tool_output (minimal_hard_limit_fallback t RetryUnsafe m False)) (lit ''retryUnsafe'')
     = Some (JBool True)"
  "json_get (tool_output (serialization_fallback t RetryUnsafe False e)) (lit ''retryUnsafe'')
     = Some (JBool True)"
  by (simp_all add: minimal_hard_limit_fallback_def serialization_fallback_def json_get_def)

lemma is_error_replacements [simp]:
  "is_error (read_only_failure t m r)" "\<not> is_error (retry_unsafe_omission t original m r)"
  "is_error (original_failure_omission t original m r st)"
  "is_error (minimal_hard_limit_fallback t sem m failed) = failed"
  "is_error (serialization_fallback t sem failed e) = (failed \<or> sem = ReadOnly)"
  by (simp_all add: read_only_failure_def retry_unsafe_omission_def original_failure_omission_def
      minimal_hard_limit_fallback_def serialization_fallback_def)

lemma finalize_cases:
  obtains (kept) n where "finalize_budgeted_execution t sem ex st m hard me
      = \<lparr>execution = ex, budget_state = st, original_measurement = Some m\<rparr>" "me ex = Inr n" "n \<le> hard"
    | (fallback) "finalize_budgeted_execution t sem ex st m hard me
      = \<lparr>execution = minimal_hard_limit_fallback t sem m (is_error ex),
         budget_state = HardLimitFallback, original_measurement = Some m\<rparr>"
proof (cases "case me ex of Inl _ \<Rightarrow> False | Inr n \<Rightarrow> n \<le> hard")
  case True
  then obtain n where "me ex = Inr n" "n \<le> hard" by (auto split: sum.splits)
  with kept show thesis by (simp add: finalize_budgeted_execution_def)
next
  case False
  then show thesis by (intro fallback) (simp add: finalize_budgeted_execution_def)
qed

lemma measure_Inr: "measure_tool_execution me ex = Inr m \<Longrightarrow> me ex = Inr (serialized_bytes m)"
  by (auto simp: measure_tool_execution_def split: sum.splits)

text \<open>The lines a record counts for.\<close>

definition record_lines :: "json \<Rightarrow> nat" where
  "record_lines r = max (value_text_lines r) 1"

lemma soft_line_loop_spec:
  assumes "n \<le> TOOL_OUTPUT_SOFT_LINE_LIMIT"
  shows "\<exists>k \<le> length rs. soft_line_loop rs n c = c + k
    \<and> n + sum_list (map record_lines (take k rs)) \<le> TOOL_OUTPUT_SOFT_LINE_LIMIT
    \<and> (k < length rs \<longrightarrow>
        TOOL_OUTPUT_SOFT_LINE_LIMIT < n + sum_list (map record_lines (take (Suc k) rs)))"
  using assms
proof (induction rs arbitrary: n c)
  case Nil
  then show ?case by simp
next
  case (Cons r rs)
  show ?case
  proof (cases "n + record_lines r \<le> TOOL_OUTPUT_SOFT_LINE_LIMIT")
    case True
    then have step: "soft_line_loop (r # rs) n c = soft_line_loop rs (n + record_lines r) (c + 1)"
      by (simp add: checked_add_usize_def record_lines_def usize_MAX_def TOOL_OUTPUT_SOFT_LINE_LIMIT_def)
    from Cons.IH [OF True, of "c + 1"] obtain k where "k \<le> length rs"
      "soft_line_loop rs (n + record_lines r) (c + 1) = c + 1 + k"
      "n + record_lines r + sum_list (map record_lines (take k rs)) \<le> TOOL_OUTPUT_SOFT_LINE_LIMIT"
      "k < length rs \<longrightarrow> TOOL_OUTPUT_SOFT_LINE_LIMIT
         < n + record_lines r + sum_list (map record_lines (take (Suc k) rs))" by blast
    then show ?thesis unfolding step by (intro exI [of _ "Suc k"]) (simp add: add.assoc)
  next
    case False
    then have "soft_line_loop (r # rs) n c = c"
      by (auto simp: checked_add_usize_def record_lines_def)
    with False Cons.prems show ?thesis by (intro exI [of _ 0]) simp
  qed
qed

section \<open>Properties\<close>

text \<open>the number of records returned under the soft budget is the largest that fits. When every
  record can be serialised, the first \<open>k\<close> records as one array, brackets and commas included,
  are within the soft byte limit less the bytes reserved for the other fields, and their lines are
  within the soft line limit; one record more would break one of the two limits.\<close>

theorem soft_limit_prefix_maximal:
  assumes ser: "\<forall>r \<in> set records. size_of r = Inr (sz r)"
  shows "\<exists>k \<le> length records.
      soft_limit_array_prefix_len_with_overhead size_of records overhead = Inr k
    \<and> (0 < k \<longrightarrow> array_bytes (map sz (take k records)) \<le> TOOL_OUTPUT_SOFT_BYTE_LIMIT - overhead)
    \<and> sum_list (map record_lines (take k records)) \<le> TOOL_OUTPUT_SOFT_LINE_LIMIT
    \<and> (k < length records \<longrightarrow>
         TOOL_OUTPUT_SOFT_BYTE_LIMIT - overhead < array_bytes (map sz (take (Suc k) records))
       \<or> TOOL_OUTPUT_SOFT_LINE_LIMIT < sum_list (map record_lines (take (Suc k) records)))"
proof -
  let ?max = "TOOL_OUTPUT_SOFT_BYTE_LIMIT - overhead"
  have "?max \<le> usize_MAX" by (simp add: TOOL_OUTPUT_SOFT_BYTE_LIMIT_def usize_MAX_def)
  then obtain b where b: "b \<le> length records" "stable_json_array_prefix_len size_of records ?max = Inr b"
    "0 < b \<longrightarrow> array_bytes (map sz (take b records)) \<le> ?max"
    "b < length records \<longrightarrow> ?max < array_bytes (map sz (take (Suc b) records))"
    using array_prefix_maximal [OF ser, of ?max] array_bytes_ge [of "map sz (take 1 records)"]
    by (auto split: if_splits)
  obtain k where k: "k \<le> b" "soft_line_loop (take b records) 0 0 = k"
    "sum_list (map record_lines (take k records)) \<le> TOOL_OUTPUT_SOFT_LINE_LIMIT"
    "k < b \<longrightarrow> TOOL_OUTPUT_SOFT_LINE_LIMIT < sum_list (map record_lines (take (Suc k) records))"
    using soft_line_loop_spec [of 0 "take b records" 0] b(1)
    by (auto simp: min_absorb2 min_absorb1 Suc_le_eq)
  have "array_bytes (map sz (take k records)) \<le> array_bytes (map sz (take b records))"
    using k(1) array_bytes_mono [of k b "map sz records"] by (simp add: take_map)
  with b k show ?thesis
    by (intro exI [of _ k]) (auto simp: soft_limit_array_prefix_len_with_overhead_def)
qed

theorem soft_limit_prefix_maximal_witness:
  "\<exists>k \<le> 2. soft_limit_array_prefix_len (\<lambda>_. Inr 30000 :: unit + nat) [JNull, JNull] = Inr k \<and> k = 1"
proof -
  have run: "soft_limit_array_prefix_len (\<lambda>_. Inr 30000 :: unit + nat) [JNull, JNull] = Inr 1"
    by (simp add: soft_limit_array_prefix_len_def soft_limit_array_prefix_len_with_overhead_def
        stable_json_array_prefix_len_def checked_add_usize_def usize_MAX_def
        TOOL_OUTPUT_SOFT_BYTE_LIMIT_def TOOL_OUTPUT_SOFT_LINE_LIMIT_def)
  with soft_limit_prefix_maximal [of "[JNull, JNull]" "\<lambda>_. Inr 30000 :: unit + nat" "\<lambda>_. 30000" 0]
  show ?thesis by (simp add: soft_limit_array_prefix_len_def)
qed

text \<open>the output budget never changes what happened. A failed execution stays a failure; a
  success of a tool that must not be repeated stays a success, and when its output is replaced the
  replacement says that repeating it is unsafe; a read-only result is replaced by an error only. A
  result reported as within the budget is the unchanged execution; and unless the state is the hard
  fallback, what is returned was measured and is within the hard limit.\<close>

theorem normalize_preserves_outcome:
  assumes "b = normalize_tool_execution_with_measurement tool_name semantics ex hard_limit measure_envelope"
  shows "(is_error ex \<longrightarrow> is_error (execution b))
    \<and> (semantics = RetryUnsafe \<and> \<not> is_error ex \<longrightarrow> \<not> is_error (execution b)
        \<and> (budget_state b \<noteq> WithinBudget \<longrightarrow>
             json_get (tool_output (execution b)) (lit ''retryUnsafe'') = Some (JBool True)))
    \<and> (semantics = ReadOnly \<and> budget_state b \<noteq> WithinBudget \<longrightarrow> is_error (execution b))
    \<and> (budget_state b = WithinBudget \<longrightarrow> execution b = ex)
    \<and> (budget_state b \<noteq> HardLimitFallback \<longrightarrow>
        (\<exists>n \<le> hard_limit. measure_envelope (execution b) = Inr n))"
proof (cases "measure_tool_execution measure_envelope ex")
  case (Inl e)
  then show ?thesis
    by (cases semantics) (auto simp: assms normalize_tool_execution_with_measurement_def fallback_marked)
next
  case (Inr m)
  note size = measure_Inr [OF Inr]
  show ?thesis
  proof (cases "budget_reason m hard_limit")
    case None
    with Inr size show ?thesis
      by (auto simp: assms normalize_tool_execution_with_measurement_def budget_reason_def
          split: if_splits)
  next
    case (Some reason)
    show ?thesis
    proof (cases "keeps_full_result tool_name semantics ex reason")
      case True
      then have "reason \<noteq> HardByteLimit" by (auto simp: keeps_full_result_def)
      with True Some Inr size show ?thesis
        by (auto simp: assms normalize_tool_execution_with_measurement_def budget_reason_def
            split: if_splits)
    next
      case False
      define rep where "rep =
        (if is_error ex then original_failure_omission tool_name (tool_output ex) m reason
             (if reason = HardByteLimit then HardLimitFallback else SoftLimitPreview)
         else if semantics = ReadOnly then read_only_failure tool_name m reason
         else retry_unsafe_omission tool_name (tool_output ex) m reason)"
      define st where "st = (if is_error ex then (if reason = HardByteLimit then HardLimitFallback
          else SoftLimitPreview) else if semantics = ReadOnly then ReadOnlyRecoverableFailure
          else RetryUnsafeOutputOmitted)"
      have b: "b = finalize_budgeted_execution tool_name semantics rep st m hard_limit measure_envelope"
        using False Some Inr
        by (cases semantics) (simp_all add: assms normalize_tool_execution_with_measurement_def rep_def st_def)
      have st: "st \<noteq> WithinBudget" by (simp add: st_def)
      have err: "is_error rep \<longleftrightarrow> is_error ex \<or> semantics = ReadOnly" by (simp add: rep_def)
      show ?thesis
      proof (cases rule: finalize_cases [of tool_name semantics rep st m hard_limit measure_envelope])
        case (kept n)
        with st err show ?thesis
          by (cases semantics) (auto simp: b rep_def retry_unsafe_marked)
      next
        case fallback
        with err show ?thesis by (cases semantics) (auto simp: b fallback_marked)
      qed
    qed
  qed
qed

theorem normalize_preserves_outcome_witness:
  "\<not> is_error (execution (normalize_tool_execution (\<lambda>_. Inr 60000) (lit ''run_command'') RetryUnsafe
       \<lparr>tool_output = JNull, is_error = False\<rparr>))
   \<and> budget_state (normalize_tool_execution (\<lambda>_. Inr 60000) (lit ''run_command'') RetryUnsafe
       \<lparr>tool_output = JNull, is_error = False\<rparr>) = RetryUnsafeOutputOmitted"
proof -
  let ?b = "normalize_tool_execution (\<lambda>_. Inr 60000) (lit ''run_command'') RetryUnsafe
       \<lparr>tool_output = JNull, is_error = False\<rparr>"
  have "budget_state ?b = RetryUnsafeOutputOmitted"
    by (simp add: normalize_tool_execution_def normalize_tool_execution_with_measurement_def
        measure_tool_execution_def budget_reason_def keeps_full_result_def
        is_line_bounded_budget_success_def is_command_output_cursor_pagination_def
        is_get_plans_offset_pagination_def is_update_spec_content_omitted_success_def is_object_def
        finalize_budgeted_execution_def TOOL_OUTPUT_SOFT_BYTE_LIMIT_def
        TOOL_EXECUTION_PAYLOAD_HARD_BYTE_LIMIT_def TOOL_EXECUTION_HARD_BYTE_LIMIT_def
        TOOL_EXECUTION_ENVELOPE_RESERVE_BYTES_def)
  moreover have "\<not> is_error (execution ?b)"
    using normalize_preserves_outcome [where semantics = RetryUnsafe
        and ex = "\<lparr>tool_output = JNull, is_error = False\<rparr>" and tool_name = "lit ''run_command''"
        and hard_limit = TOOL_EXECUTION_PAYLOAD_HARD_BYTE_LIMIT
        and measure_envelope = "\<lambda>_. Inr 60000", OF refl]
    by (simp add: normalize_tool_execution_def)
  ultimately show ?thesis by simp
qed

end
