(* ===== verification/Reasoning_Loop.thy ===== *)
theory Reasoning_Loop
  imports Foco_Prelude
begin

text \<open>
  The detector of repeated reasoning (\<open>app/runtime/reasoning_loop_detector.rs\<close>): a stream of
  text deltas is normalised (runs of white space become one blank), a bounded tail is kept, and at
  fixed character counts the tail is searched for a periodic suffix. The reference at the end of the
  theory speaks of the whole normalised text and of words repeated at the end of it.
\<close>

section \<open>Model\<close>

definition MAX_NORMALIZED_TAIL_CHARS :: nat where "MAX_NORMALIZED_TAIL_CHARS = 8192"
definition MIN_OBSERVED_CHARS :: nat where "MIN_OBSERVED_CHARS = 768"
definition MIN_PERIOD_CHARS :: nat where "MIN_PERIOD_CHARS = 16"
definition MAX_PERIOD_CHARS :: nat where "MAX_PERIOD_CHARS = 1024"
definition MIN_REPEAT_COUNT :: nat where "MIN_REPEAT_COUNT = 4"
definition DETECTION_STRIDE_CHARS :: nat where "DETECTION_STRIDE_CHARS = 32"

lemmas loop_limits = MAX_NORMALIZED_TAIL_CHARS_def MIN_OBSERVED_CHARS_def MIN_PERIOD_CHARS_def
  MAX_PERIOD_CHARS_def MIN_REPEAT_COUNT_def DETECTION_STRIDE_CHARS_def

record ReasoningLoopDetection =
  period_char_count :: nat
  repeat_count :: nat
  observed_char_count :: nat

definition reasoning_loop_guard_message :: "ReasoningLoopDetection \<Rightarrow> rstr" where
  "reasoning_loop_guard_message d =
     lit ''Runtime progress guard stopped the provider stream after detecting a repeated reasoning loop (period ''
     @ nat_display (period_char_count d) @ lit '' characters, repeated ''
     @ nat_display (repeat_count d) @ lit '' times across ''
     @ nat_display (observed_char_count d)
     @ lit '' observed characters). Partial reasoning was preserved.''"

record ReasoningLoopDetector =
  normalized_tail :: rstr
  normalized_char_count :: nat
  previous_was_whitespace :: bool
  detection :: "ReasoningLoopDetection option"

definition new_reasoning_loop_detector :: ReasoningLoopDetector where
  "new_reasoning_loop_detector = \<lparr>normalized_tail = [], normalized_char_count = 0,
     previous_was_whitespace = False, detection = None\<rparr>"

definition blocks_match :: "rstr \<Rightarrow> nat \<Rightarrow> nat \<Rightarrow> bool" where
  "blocks_match tail period previous_block_offset =
     (let latest_start = length tail - period;
          previous_start = length tail - period * (previous_block_offset + 1)
      in list_all (\<lambda>offset. tail ! (latest_start + offset) = tail ! (previous_start + offset)) [0..<period])"

text \<open>The inner \<open>while\<close> loop of \<open>detect_repeated_suffix\<close>.\<close>

function count_repeats :: "rstr \<Rightarrow> nat \<Rightarrow> nat \<Rightarrow> nat \<Rightarrow> nat" where
  "count_repeats tail period max_repeat_count repeats =
     (if repeats < max_repeat_count \<and> blocks_match tail period repeats
      then count_repeats tail period max_repeat_count (repeats + 1)
      else repeats)"
  by pat_completeness auto
termination
  by (relation "measure (\<lambda>(_, _, m, r). m - r)") auto

declare count_repeats.simps [simp del]

definition detect_period :: "rstr \<Rightarrow> nat \<Rightarrow> ReasoningLoopDetection option" where
  "detect_period tail period =
     (let repeats = count_repeats tail period (length tail div period) 1;
          observed = period * repeats
      in if repeats \<ge> MIN_REPEAT_COUNT \<and> observed \<ge> MIN_OBSERVED_CHARS
         then Some \<lparr>period_char_count = period, repeat_count = repeats, observed_char_count = observed\<rparr>
         else None)"

definition detect_repeated_suffix :: "rstr \<Rightarrow> ReasoningLoopDetection option" where
  "detect_repeated_suffix tail =
     first_some (detect_period tail)
       [MIN_PERIOD_CHARS..<Suc (min MAX_PERIOD_CHARS (length tail div MIN_REPEAT_COUNT))]"

definition push_normalized :: "rchar \<Rightarrow> ReasoningLoopDetector \<Rightarrow> ReasoningLoopDetector" where
  "push_normalized c d =
     (let grown = normalized_tail d @ [c];
          tail = (if length grown > MAX_NORMALIZED_TAIL_CHARS then tl grown else grown);
          count = sat_add_usize (normalized_char_count d) 1
      in d\<lparr>normalized_tail := tail, normalized_char_count := count,
           detection := (if count \<ge> MIN_OBSERVED_CHARS \<and> count mod DETECTION_STRIDE_CHARS = 0
                         then detect_repeated_suffix tail else None)\<rparr>)"

fun push_chars :: "rstr \<Rightarrow> ReasoningLoopDetector \<Rightarrow> ReasoningLoopDetector" where
  "push_chars [] d = d"
| "push_chars (c # cs) d =
     (if is_whitespace c \<and> previous_was_whitespace d then push_chars cs d
      else (let d' = push_normalized (if is_whitespace c then 32 else c)
                       (d\<lparr>previous_was_whitespace := is_whitespace c\<rparr>)
            in if detection d' \<noteq> None then d' else push_chars cs d'))"

definition push_delta ::
    "rstr \<Rightarrow> ReasoningLoopDetector \<Rightarrow> ReasoningLoopDetection option \<times> ReasoningLoopDetector" where
  "push_delta delta d =
     (if detection d \<noteq> None then (detection d, d)
      else (let d' = push_chars delta d in (detection d', d')))"

text \<open>A stream is a sequence of deltas.\<close>

definition push_stream :: "rstr list \<Rightarrow> ReasoningLoopDetector" where
  "push_stream deltas = fold (\<lambda>delta d. snd (push_delta delta d)) deltas new_reasoning_loop_detector"

section \<open>Reference\<close>

fun normalize_ws :: "bool \<Rightarrow> rstr \<Rightarrow> rstr" where
  "normalize_ws prev [] = []"
| "normalize_ws prev (c # cs) =
     (if is_whitespace c then (if prev then [] else [32]) @ normalize_ws True cs
      else c # normalize_ws False cs)"

definition last_chars :: "nat \<Rightarrow> rstr \<Rightarrow> rstr" where
  "last_chars n s = drop (length s - n) s"

text \<open>A text ends in \<open>r\<close> copies of one word of length \<open>p\<close>.\<close>

definition ends_in_repeats :: "rstr \<Rightarrow> nat \<Rightarrow> nat \<Rightarrow> bool" where
  "ends_in_repeats t p r \<longleftrightarrow> (\<exists>w u. length u = p \<and> t = w @ concat (replicate r u))"

definition loop_evidence :: "rstr \<Rightarrow> nat \<Rightarrow> nat \<Rightarrow> bool" where
  "loop_evidence t p r \<longleftrightarrow> MIN_PERIOD_CHARS \<le> p \<and> p \<le> MAX_PERIOD_CHARS \<and> MIN_REPEAT_COUNT \<le> r
     \<and> MIN_OBSERVED_CHARS \<le> p * r \<and> ends_in_repeats t p r"

definition checked_at :: "rstr \<Rightarrow> nat \<Rightarrow> rstr" where
  "checked_at N n = last_chars MAX_NORMALIZED_TAIL_CHARS (take n N)"

definition looping_at :: "rstr \<Rightarrow> nat \<Rightarrow> bool" where
  "looping_at N n \<longleftrightarrow> n \<le> length N \<and> MIN_OBSERVED_CHARS \<le> n \<and> DETECTION_STRIDE_CHARS dvd n
     \<and> (\<exists>p r. loop_evidence (checked_at N n) p r)"

text \<open>A report names the shortest word and its greatest number of copies.\<close>

definition best_report :: "rstr \<Rightarrow> ReasoningLoopDetection \<Rightarrow> bool" where
  "best_report t d \<longleftrightarrow> loop_evidence t (period_char_count d) (repeat_count d)
     \<and> observed_char_count d = period_char_count d * repeat_count d
     \<and> (\<forall>p r. loop_evidence t p r \<longrightarrow> period_char_count d \<le> p
          \<and> (p = period_char_count d \<longrightarrow> r \<le> repeat_count d))"

section \<open>Blocks and repetitions\<close>

lemma blocks_match_iff:
  assumes "0 < p" and "p * (k + 1) \<le> length t"
  shows "blocks_match t p k \<longleftrightarrow> take p (drop (length t - p * (k + 1)) t) = drop (length t - p) t"
proof -
  have p: "p \<le> length t" using assms le_trans [of p "p * (k + 1)"] by simp
  have len: "length (take p (drop (length t - p * (k + 1)) t)) = p" "length (drop (length t - p) t) = p"
    using assms p by auto
  have "take p (drop (length t - p * (k + 1)) t) = drop (length t - p) t \<longleftrightarrow>
      (\<forall>i < p. t ! (length t - p + i) = t ! (length t - p * (k + 1) + i))"
    unfolding list_eq_iff_nth_eq using len assms p by auto
  then show ?thesis by (auto simp: blocks_match_def Let_def list_all_iff)
qed

lemma ends_in_repeats_drop:
  assumes "ends_in_repeats t p r"
  shows "\<exists>u. length u = p \<and> p * r \<le> length t \<and> (\<forall>k \<le> r. drop (length t - p * k) t = concat (replicate k u))"
proof -
  obtain w u where t: "length u = p" "t = w @ concat (replicate r u)"
    using assms by (auto simp: ends_in_repeats_def)
  have len: "length (concat (replicate n u)) = p * n" for n
    using t(1) by (induction n) auto
  have "drop (length t - p * k) t = concat (replicate k u)" if "k \<le> r" for k
  proof -
    from that obtain j where r: "r = j + k" by (metis add.commute le_Suc_ex)
    then have "t = (w @ concat (replicate j u)) @ concat (replicate k u)"
      using t(2) by (simp add: replicate_add)
    then show ?thesis using len by (simp add: t(1))
  qed
  with t len show ?thesis by (intro exI [of _ u]) simp
qed

lemma repeats_if_blocks:
  assumes "0 < p" and "p * r \<le> length t" and "0 < r" and "\<forall>k. 1 \<le> k \<and> k < r \<longrightarrow> blocks_match t p k"
  shows "drop (length t - p * r) t = concat (replicate r (drop (length t - p) t))"
  using assms(2-4)
proof (induction r)
  case 0
  then show ?case by simp
next
  case (Suc r)
  show ?case
  proof (cases "r = 0")
    case False
    let ?u = "drop (length t - p) t"
    have IH: "drop (length t - p * r) t = concat (replicate r ?u)"
      using Suc False by simp
    have "take p (drop (length t - p * Suc r) t) = ?u"
      using blocks_match_iff [of p r t] Suc.prems False assms(1) by simp
    moreover have "drop p (drop (length t - p * Suc r) t) = drop (length t - p * r) t"
      using Suc.prems(1) by (simp add: algebra_simps)
    ultimately have "drop (length t - p * Suc r) t = ?u @ drop (length t - p * r) t"
      by (metis append_take_drop_id)
    with IH show ?thesis by simp
  qed simp
qed

lemma ends_in_repeats_iff:
  assumes "0 < p" and "0 < r"
  shows "ends_in_repeats t p r \<longleftrightarrow>
    p * r \<le> length t \<and> (\<forall>k. 1 \<le> k \<and> k < r \<longrightarrow> blocks_match t p k)"
proof
  assume "ends_in_repeats t p r"
  then obtain u where u: "length u = p" "p * r \<le> length t"
    "\<forall>k \<le> r. drop (length t - p * k) t = concat (replicate k u)"
    using ends_in_repeats_drop by blast
  have "blocks_match t p k" if "1 \<le> k \<and> k < r" for k
  proof -
    have le: "p * (k + 1) \<le> length t"
      using that u(2) by (metis Suc_eq_plus1 Suc_leI le_trans mult_le_mono2)
    have "drop (length t - p) t = u" using u(3) assms(2) by (metis concat.simps(1,2) append_Nil2 Suc_leI
        One_nat_def mult.right_neutral replicate_0 replicate_Suc)
    moreover have "drop (length t - p * (k + 1)) t = u @ concat (replicate k u)"
      using u(3) that by (metis Suc_eq_plus1 Suc_leI concat.simps(2) replicate_Suc)
    ultimately show ?thesis using blocks_match_iff [OF assms(1) le] u(1) by simp
  qed
  with u(2) show "p * r \<le> length t \<and> (\<forall>k. 1 \<le> k \<and> k < r \<longrightarrow> blocks_match t p k)" by blast
next
  assume h: "p * r \<le> length t \<and> (\<forall>k. 1 \<le> k \<and> k < r \<longrightarrow> blocks_match t p k)"
  then have "t = take (length t - p * r) t @ concat (replicate r (drop (length t - p) t))"
    using repeats_if_blocks [OF assms(1) _ assms(2)] by (metis append_take_drop_id)
  moreover have "p \<le> length t" using h assms(2) le_trans [of p "p * r"] by simp
  ultimately show "ends_in_repeats t p r"
    unfolding ends_in_repeats_def by (metis diff_diff_cancel length_drop)
qed

lemma count_repeats_spec:
  assumes "r \<le> m"
  shows "r \<le> count_repeats t p m r \<and> count_repeats t p m r \<le> m
    \<and> (\<forall>k. r \<le> k \<and> k < count_repeats t p m r \<longrightarrow> blocks_match t p k)
    \<and> (count_repeats t p m r < m \<longrightarrow> \<not> blocks_match t p (count_repeats t p m r))"
  using assms
proof (induction t p m r rule: count_repeats.induct)
  case (1 t p m r)
  show ?case
  proof (cases "r < m \<and> blocks_match t p r")
    case True
    then have step: "count_repeats t p m r = count_repeats t p m (r + 1)"
      by (simp add: count_repeats.simps [of t p m r])
    have "k = r \<or> r + 1 \<le> k" if "r \<le> k" for k using that by linarith
    then show ?thesis using "1.IH" [OF True] True unfolding step by auto
  next
    case False
    then have "count_repeats t p m r = r" by (subst count_repeats.simps) auto
    with 1 False show ?thesis by auto
  qed
qed

text \<open>The counted number of copies is the greatest one.\<close>

lemma count_repeats_greatest:
  assumes "0 < p" and "p \<le> length t"
  defines "c \<equiv> count_repeats t p (length t div p) 1"
  shows "ends_in_repeats t p r \<and> 0 < r \<longleftrightarrow> 0 < r \<and> r \<le> c"
proof (cases "0 < r")
  case True
  have m: "1 \<le> length t div p" using assms(1,2) by (simp add: Suc_leI div_greater_zero_iff)
  note c = count_repeats_spec [OF m, of t p, folded c_def]
  have le: "p * k \<le> length t \<longleftrightarrow> k \<le> length t div p" for k
    using assms(1) by (simp add: less_eq_div_iff_mult_less_eq mult.commute)
  show ?thesis
    using c True unfolding ends_in_repeats_iff [OF assms(1) True] le
    by (metis le_eq_less_or_eq le_trans less_le_not_le not_le_imp_less)
qed simp

lemma detect_period_spec:
  assumes "MIN_PERIOD_CHARS \<le> p" and "p \<le> MAX_PERIOD_CHARS" and "p \<le> length t"
  shows "(detect_period t p = None \<longleftrightarrow> (\<forall>r. \<not> loop_evidence t p r))
    \<and> (\<forall>d. detect_period t p = Some d \<longrightarrow> period_char_count d = p
         \<and> observed_char_count d = p * repeat_count d \<and> loop_evidence t p (repeat_count d)
         \<and> (\<forall>r. loop_evidence t p r \<longrightarrow> r \<le> repeat_count d))"
proof -
  let ?c = "count_repeats t p (length t div p) 1"
  have p: "0 < p" using assms(1) by (simp add: loop_limits)
  note c = count_repeats_greatest [OF p assms(3)]
  have ev: "loop_evidence t p r \<longleftrightarrow> MIN_REPEAT_COUNT \<le> r \<and> MIN_OBSERVED_CHARS \<le> p * r \<and> r \<le> ?c" for r
    using c [of r] assms by (auto simp: loop_evidence_def loop_limits)
  have mono: "MIN_OBSERVED_CHARS \<le> p * r \<Longrightarrow> r \<le> ?c \<Longrightarrow> MIN_OBSERVED_CHARS \<le> p * ?c" for r
    by (meson le_trans mult_le_mono2)
  show ?thesis
    unfolding ev detect_period_def Let_def using mono by (auto intro: le_trans)
qed

lemma period_range:
  "p \<in> set [MIN_PERIOD_CHARS..<Suc (min MAX_PERIOD_CHARS (n div MIN_REPEAT_COUNT))] \<longleftrightarrow>
     MIN_PERIOD_CHARS \<le> p \<and> p \<le> MAX_PERIOD_CHARS \<and> p * MIN_REPEAT_COUNT \<le> n"
  by (simp only: set_upt atLeastLessThan_iff less_Suc_eq_le min.bounded_iff)
    (auto simp: loop_limits less_eq_div_iff_mult_less_eq)

lemma loop_evidence_bound:
  "loop_evidence t p r \<Longrightarrow>
     p \<in> set [MIN_PERIOD_CHARS..<Suc (min MAX_PERIOD_CHARS (length t div MIN_REPEAT_COUNT))]"
proof -
  assume h: "loop_evidence t p r"
  then have "0 < p" "0 < r" "MIN_REPEAT_COUNT \<le> r" by (auto simp: loop_evidence_def loop_limits)
  moreover have "p * r \<le> length t"
    using h calculation ends_in_repeats_iff [of p r t] by (simp add: loop_evidence_def)
  ultimately have "p * MIN_REPEAT_COUNT \<le> length t" by (meson le_trans mult_le_mono2)
  with h show ?thesis unfolding period_range by (simp add: loop_evidence_def)
qed

lemma detect_spec:
  "(detect_repeated_suffix t = None \<longleftrightarrow> (\<forall>p r. \<not> loop_evidence t p r))
   \<and> (\<forall>d. detect_repeated_suffix t = Some d \<longrightarrow> best_report t d)"
proof -
  let ?b = "Suc (min MAX_PERIOD_CHARS (length t div MIN_REPEAT_COUNT))"
  have sp: "(detect_period t p = None \<longleftrightarrow> (\<forall>r. \<not> loop_evidence t p r))
    \<and> (\<forall>d. detect_period t p = Some d \<longrightarrow> period_char_count d = p
         \<and> observed_char_count d = p * repeat_count d \<and> loop_evidence t p (repeat_count d)
         \<and> (\<forall>r. loop_evidence t p r \<longrightarrow> r \<le> repeat_count d))"
    if "p \<in> set [MIN_PERIOD_CHARS..<?b]" for p
    using that detect_period_spec [of p t] unfolding period_range by (simp add: loop_limits)
  have "best_report t d" if d: "detect_repeated_suffix t = Some d" for d
  proof -
    from d obtain p where p: "p \<in> set [MIN_PERIOD_CHARS..<?b]" "detect_period t p = Some d"
      "\<forall>z. MIN_PERIOD_CHARS \<le> z \<and> z < p \<longrightarrow> detect_period t z = None"
      using first_some_upt [OF d [unfolded detect_repeated_suffix_def]]
      unfolding set_upt atLeastLessThan_iff by blast
    have "p \<le> q" if ev: "loop_evidence t q r" for q r
    proof (rule ccontr)
      assume "\<not> p \<le> q"
      with ev p(3) have "detect_period t q = None" by (simp add: loop_evidence_def)
      with sp [OF loop_evidence_bound [OF ev]] ev show False by blast
    qed
    with sp [OF p(1)] p(2) show ?thesis by (simp add: best_report_def)
  qed
  moreover have "detect_repeated_suffix t = None \<longleftrightarrow> (\<forall>p r. \<not> loop_evidence t p r)"
    unfolding detect_repeated_suffix_def first_some_None_iff using sp loop_evidence_bound by blast
  ultimately show ?thesis by blast
qed

section \<open>The stream\<close>

lemma last_chars_snoc:
  "0 < n \<Longrightarrow> last_chars n (s @ [c]) =
     (if length (last_chars n s @ [c]) > n then tl (last_chars n s @ [c]) else last_chars n s @ [c])"
  by (cases "n \<le> length s") (auto simp: last_chars_def drop_Suc tl_drop Suc_diff_le)

text \<open>What the detector reports when \<open>n\<close> characters of the normalised text are read.\<close>

definition check_at :: "rstr \<Rightarrow> nat \<Rightarrow> ReasoningLoopDetection option" where
  "check_at N n = (if MIN_OBSERVED_CHARS \<le> n \<and> n mod DETECTION_STRIDE_CHARS = 0
                   then detect_repeated_suffix (checked_at N n) else None)"

definition reads :: "ReasoningLoopDetector \<Rightarrow> rstr \<Rightarrow> bool" where
  "reads d M \<longleftrightarrow> normalized_tail d = last_chars MAX_NORMALIZED_TAIL_CHARS M
     \<and> normalized_char_count d = length M \<and> detection d = None"

lemma push_normalized_whitespace [simp]:
  "previous_was_whitespace (push_normalized c d) = previous_was_whitespace d"
  by (simp add: push_normalized_def Let_def)

lemma push_normalized_reads:
  assumes "reads d M" and "Suc (length M) \<le> usize_MAX"
  shows "detection (push_normalized c d) = check_at (M @ c # R) (Suc (length M))"
    and "check_at (M @ c # R) (Suc (length M)) = None \<Longrightarrow> reads (push_normalized c d) (M @ [c])"
proof -
  have tail: "normalized_tail (push_normalized c d) = last_chars MAX_NORMALIZED_TAIL_CHARS (M @ [c])"
    using assms(1) by (simp add: push_normalized_def Let_def reads_def last_chars_snoc loop_limits)
  have count: "sat_add_usize (length M) 1 = Suc (length M)"
    using assms(2) by (simp add: sat_add_usize_def)
  then have cnt: "normalized_char_count (push_normalized c d) = Suc (length M)"
    using assms(1) by (simp add: push_normalized_def Let_def reads_def)
  show det: "detection (push_normalized c d) = check_at (M @ c # R) (Suc (length M))"
    using assms(1) tail count by (simp add: push_normalized_def Let_def reads_def check_at_def checked_at_def)
  show "reads (push_normalized c d) (M @ [c])" if "check_at (M @ c # R) (Suc (length M)) = None"
    using that cnt by (simp add: reads_def tail det)
qed

lemma push_chars_reads:
  assumes "reads d M" and "length M + length cs \<le> usize_MAX"
  defines "N \<equiv> M @ normalize_ws (previous_was_whitespace d) cs"
  shows "detection (push_chars cs d) = first_some (check_at N) [Suc (length M)..<Suc (length N)]
    \<and> (detection (push_chars cs d) = None \<longrightarrow> reads (push_chars cs d) N
         \<and> previous_was_whitespace (push_chars cs d)
             = (if cs = [] then previous_was_whitespace d else is_whitespace (last cs)))"
  using assms(1,2) unfolding N_def
proof (induction cs arbitrary: d M)
  case Nil
  then show ?case by (simp add: reads_def)
next
  case (Cons c cs)
  show ?case
  proof (cases "is_whitespace c \<and> previous_was_whitespace d")
    case True
    then show ?thesis using Cons.IH [of d M] Cons.prems by simp
  next
    case False
    let ?x = "if is_whitespace c then 32 else c" and ?d = "d\<lparr>previous_was_whitespace := is_whitespace c\<rparr>"
    let ?d' = "push_normalized ?x ?d" and ?R = "normalize_ws (is_whitespace c) cs"
    have N: "M @ normalize_ws (previous_was_whitespace d) (c # cs) = M @ ?x # ?R" using False by auto
    have rd: "reads ?d M" using Cons.prems(1) by (simp add: reads_def)
    have len: "Suc (length M) \<le> usize_MAX" using Cons.prems(2) by simp
    note step = push_normalized_reads [OF rd len, of ?x ?R]
    have first: "first_some (check_at (M @ ?x # ?R)) [Suc (length M)..<Suc (length (M @ ?x # ?R))]
        = (case check_at (M @ ?x # ?R) (Suc (length M)) of Some y \<Rightarrow> Some y
           | None \<Rightarrow> first_some (check_at (M @ ?x # ?R)) [Suc (Suc (length M))..<Suc (length (M @ ?x # ?R))])"
      by (rule first_some_upt_Cons) simp
    show ?thesis
    proof (cases "check_at (M @ ?x # ?R) (Suc (length M))")
      case None
      have push: "push_chars (c # cs) d = push_chars cs ?d'"
        using False step(1) None by (auto simp: Let_def)
      have "reads ?d' (M @ [?x])" using step(2) None by blast
      with Cons.IH [of ?d' "M @ [?x]"] Cons.prems(2) show ?thesis
        unfolding N push first None by (auto split: if_splits simp del: upt_Suc)
    next
      case (Some y)
      with False step(1) have push: "push_chars (c # cs) d = ?d'" by (auto simp: Let_def)
      show ?thesis unfolding N push first using Some step(1) by (auto simp del: upt_Suc)
    qed
  qed
qed

lemma normalize_ws_append:
  "normalize_ws prev (s @ t) =
     normalize_ws prev s @ normalize_ws (if s = [] then prev else is_whitespace (last s)) t"
  by (induction s arbitrary: prev) auto

lemma push_chars_append:
  "push_chars (s @ t) d =
     (if detection d = None \<and> detection (push_chars s d) = None then push_chars t (push_chars s d)
      else push_chars s d)" if "detection d = None"
  using that
proof (induction s arbitrary: d)
  case Nil
  then show ?case by simp
next
  case (Cons c s)
  then show ?case by (auto simp: Let_def)
qed

lemma push_stream_concat: "push_stream deltas = snd (push_delta (concat deltas) new_reasoning_loop_detector)"
proof -
  have stuck: "fold (\<lambda>delta d. snd (push_delta delta d)) ds d = d" if "detection d \<noteq> None" for ds d
    using that by (induction ds) (simp_all add: push_delta_def)
  have "fold (\<lambda>delta d. snd (push_delta delta d)) ds d = push_chars (concat ds) d"
    if "detection d = None" for ds d
    using that
  proof (induction ds arbitrary: d)
    case Nil
    then show ?case by simp
  next
    case (Cons x ds)
    then show ?case using stuck [of "push_chars x d" ds]
      by (auto simp: push_delta_def Let_def push_chars_append)
  qed
  then show ?thesis
    by (simp add: push_stream_def push_delta_def Let_def new_reasoning_loop_detector_def)
qed

lemma check_at_None: "n \<le> length N \<Longrightarrow> check_at N n = None \<longleftrightarrow> \<not> looping_at N n"
  using detect_spec [of "checked_at N n"] by (auto simp: check_at_def looping_at_def mod_eq_0_iff_dvd)

lemma check_at_Some: "check_at N n = Some d \<Longrightarrow> best_report (checked_at N n) d"
  using detect_spec [of "checked_at N n"] by (auto simp: check_at_def split: if_splits)

section \<open>Properties\<close>

text \<open>C37: the detector reports exactly the periodic suffixes. However a text is cut into deltas,
  nothing is reported when at no checkpoint (a multiple of 32 normalised characters from 768 on)
  the last 8192 normalised characters end in at least four copies of a word of 16 to 1024
  characters that span at least 768; otherwise the report is made at the first such checkpoint and
  names the shortest such word with its greatest number of copies.\<close>

theorem reasoning_loop_detected_exactly:
  assumes "length (concat deltas) \<le> usize_MAX"
  defines "N \<equiv> normalize_ws False (concat deltas)"
  shows "(detection (push_stream deltas) = None \<longleftrightarrow> (\<forall>n. \<not> looping_at N n))
    \<and> (\<forall>d. detection (push_stream deltas) = Some d \<longrightarrow>
         (\<exists>n. looping_at N n \<and> (\<forall>m < n. \<not> looping_at N m) \<and> best_report (checked_at N n) d))"
proof -
  have init: "reads new_reasoning_loop_detector []" "\<not> previous_was_whitespace new_reasoning_loop_detector"
    by (simp_all add: reads_def new_reasoning_loop_detector_def last_chars_def)
  have det: "detection (push_stream deltas) = first_some (check_at N) [1..<Suc (length N)]"
    using push_chars_reads [OF init(1), of "concat deltas"] assms(1) init
    by (simp add: push_stream_concat push_delta_def Let_def reads_def N_def del: upt_Suc)
  have low: "\<not> looping_at N 0" by (simp add: looping_at_def loop_limits)
  have none: "check_at N n = None \<longleftrightarrow> \<not> looping_at N n" if "n \<in> set [1..<Suc (length N)]" for n
    using that check_at_None [of n N] by (simp add: less_Suc_eq_le del: upt_Suc)
  have "\<exists>n. looping_at N n \<and> (\<forall>m < n. \<not> looping_at N m) \<and> best_report (checked_at N n) d"
    if d: "detection (push_stream deltas) = Some d" for d
  proof -
    obtain n where n: "1 \<le> n" "n < Suc (length N)" "check_at N n = Some d"
      "\<forall>m. 1 \<le> m \<and> m < n \<longrightarrow> check_at N m = None"
      using first_some_upt [OF d [unfolded det]] by blast
    have "\<not> looping_at N m" if "m < n" for m
      using that low n(2,4) none [of m] by (cases m) (auto simp del: upt_Suc)
    moreover have "looping_at N n" using n(1-3) none [of n] by (auto simp del: upt_Suc)
    ultimately show ?thesis using check_at_Some [OF n(3)] by blast
  qed
  moreover have "detection (push_stream deltas) = None \<longleftrightarrow> (\<forall>n. \<not> looping_at N n)"
    unfolding det first_some_None_iff using none low
    by (metis One_nat_def Suc_leI atLeastLessThan_iff le_imp_less_Suc looping_at_def neq0_conv set_upt)
  ultimately show ?thesis by blast
qed

lemma normalize_replicate: "\<not> is_whitespace c \<Longrightarrow> normalize_ws prev (replicate n c) = replicate n c"
  by (induction n arbitrary: prev) auto

theorem reasoning_loop_detected_exactly_witness:
  "detection (push_stream [replicate 300 97, replicate 468 97]) \<noteq> None"
proof -
  let ?ds = "[replicate 300 97, replicate 468 97] :: rstr list"
  have cat: "concat ?ds = replicate 768 97" by (simp add: replicate_add [symmetric])
  have N: "normalize_ws False (concat ?ds) = replicate 768 97"
    unfolding cat by (rule normalize_replicate) (simp add: is_whitespace_def)
  have "ends_in_repeats (replicate 768 97) 16 48"
    unfolding ends_in_repeats_def
    by (intro exI [of _ "[]"] exI [of _ "replicate 16 97"]) (simp add: concat_replicate_trivial numeral_eq_Suc)
  then have "loop_evidence (checked_at (replicate 768 97) 768) 16 48"
    by (simp add: loop_evidence_def checked_at_def last_chars_def loop_limits)
  then have "looping_at (normalize_ws False (concat ?ds)) 768"
    unfolding N looping_at_def by (auto simp: loop_limits)
  with reasoning_loop_detected_exactly [of ?ds] show ?thesis
    by (auto simp: cat usize_MAX_def)
qed

end
