(* ===== verification/Tool_Loop.thy ===== *)
theory Tool_Loop
  imports Tool_Planning Output_Budget
begin

text \<open>
  The guards of the tool loop of a chat run: the detectors of repeated and of read-only tool batches
  (\<open>app/runtime/tool_execution.rs\<close>), \<open>ToolLoopGuard\<close> and the records of blocked calls
  (\<open>app/runtime/tool_loop.rs\<close>), and the part of the run that handles one batch of tool calls
  (\<open>app/main.rs\<close>): the round cap, the allow list, the repeated-batch guard, the planner of
  \<open>Tool_Planning\<close> and the output budget of \<open>Output_Budget\<close>, in the order of the code. What
  the rest of the program contributes to a turn (the recovery at the cap, which compresses the
  context, and the outcome of running the planned calls) is an input of the turn; the events, the
  audit records and the messages a turn appends are not modelled. Argument values are of any type
  with equality, as only equality of \<open>serde_json::Value\<close> is used.
\<close>

section \<open>Detectors\<close>

definition MAX_AGENT_TOOL_ROUNDS :: nat where "MAX_AGENT_TOOL_ROUNDS = 128"
definition MAX_REPEATED_TOOL_CALL_BATCHES :: nat where "MAX_REPEATED_TOOL_CALL_BATCHES = 3"
definition READ_ONLY_TOOL_BATCH_WARNING_THRESHOLD :: nat where
  "READ_ONLY_TOOL_BATCH_WARNING_THRESHOLD = 16"
definition MAX_TOOL_CALL_LOOP_RECOVERIES_PER_RUN :: nat where
  "MAX_TOOL_CALL_LOOP_RECOVERIES_PER_RUN = 3"
definition TOOL_TRANSPORT_DYNAMIC_FIELD_BYTE_LIMIT :: nat where
  "TOOL_TRANSPORT_DYNAMIC_FIELD_BYTE_LIMIT = 512"
definition TOOL_CALL_LOOP_GUARD_SOURCE :: rstr where
  "TOOL_CALL_LOOP_GUARD_SOURCE = lit ''toolCallLoopGuard''"

record 'v NeutralToolCall =
  nc_call_id :: rstr
  nc_name :: rstr
  nc_arguments :: 'v
  nc_thought_signatures :: "rstr list option"

record 'v ToolCallLoopSignature =
  sig_name :: rstr
  sig_arguments :: 'v

datatype ToolLoopBeforeExecutionAction = BeforeContinue | RecoverRepeatedBatch rstr rstr

record 'v RepeatedToolCallDetector =
  previous_batch :: "'v ToolCallLoopSignature list option"
  consecutive_count :: nat

definition new_repeated_detector :: "'v RepeatedToolCallDetector" where
  "new_repeated_detector = \<lparr>previous_batch = None, consecutive_count = 0\<rparr>"

definition validate_tool_call_transport_fields :: "'v NeutralToolCall list \<Rightarrow> rstr + unit" where
  "validate_tool_call_transport_fields tool_calls =
     (let limit = TOOL_TRANSPORT_DYNAMIC_FIELD_BYTE_LIMIT
      in case find (\<lambda>c. str_len (nc_call_id c) > limit) tool_calls of
           Some c \<Rightarrow> Inl (lit ''provider tool call id for '' @ quoted (fst (bounded_utf8_prefix (nc_name c) limit))
             @ lit '' exceeds the '' @ nat_display limit @ lit ''-byte transport limit'')
         | None \<Rightarrow> Inr ())"

definition tool_call_loop_signatures :: "'v NeutralToolCall list \<Rightarrow> 'v ToolCallLoopSignature list" where
  "tool_call_loop_signatures = map (\<lambda>c. \<lparr>sig_name = nc_name c, sig_arguments = nc_arguments c\<rparr>)"

definition repeated_check :: "'v NeutralToolCall list \<Rightarrow> 'v RepeatedToolCallDetector
    \<Rightarrow> (rstr + ToolLoopBeforeExecutionAction) \<times> 'v RepeatedToolCallDetector" where
  "repeated_check tool_calls d =
     (case validate_tool_call_transport_fields tool_calls of
        Inl e \<Rightarrow> (Inl e, d)
      | Inr _ \<Rightarrow>
          (let batch = tool_call_loop_signatures tool_calls;
               d' = (if previous_batch d = Some batch
                     then d\<lparr>consecutive_count := consecutive_count d + 1\<rparr>
                     else \<lparr>previous_batch = Some batch, consecutive_count = 1\<rparr>)
           in if consecutive_count d' < MAX_REPEATED_TOOL_CALL_BATCHES then (Inr BeforeContinue, d')
              else (let tool_names = (case previous_batch d' of
                          None \<Rightarrow> [] | Some b \<Rightarrow> join (lit '', '') (map sig_name b))
                    in (Inr (RecoverRepeatedBatch
                          (lit ''agent run repeated the same tool call batch ''
                           @ nat_display MAX_REPEATED_TOOL_CALL_BATCHES @ lit '' times ('' @ tool_names
                           @ lit ''); possible tool-call loop'') tool_names), d'))))"

datatype ReadOnlyToolProgressAction = ProgressContinue | ProgressWarn rstr

record ReadOnlyToolProgressDetector =
  consecutive_read_only_batches :: nat
  warned :: bool

definition new_read_only_detector :: ReadOnlyToolProgressDetector where
  "new_read_only_detector = \<lparr>consecutive_read_only_batches = 0, warned = False\<rparr>"

definition is_code_graph_tool_name :: "rstr \<Rightarrow> bool" where
  "is_code_graph_tool_name tool_name \<longleftrightarrow> tool_name \<in> set (map lit [''graph_find_symbols'',
     ''graph_find_callers'', ''graph_find_callees'', ''graph_find_children'', ''graph_find_references'',
     ''graph_find_imports'', ''graph_find_importers'', ''graph_related_files'', ''graph_explore''])"

definition is_read_only_tool :: "rstr \<Rightarrow> bool" where
  "is_read_only_tool tool_name \<longleftrightarrow>
     tool_name \<in> set (map lit [''read_file'', ''find_files'', ''search_text'', ''get_todo_graph'',
       ''read_spec'', ''memory_search'']) \<or> is_code_graph_tool_name tool_name"

definition read_only_batch :: "'v NeutralToolCall list \<Rightarrow> bool" where
  "read_only_batch tool_calls \<longleftrightarrow>
     \<not> (tool_calls = [] \<or> \<not> list_all (\<lambda>c. is_read_only_tool (nc_name c)) tool_calls)"

definition progress_check :: "'v NeutralToolCall list \<Rightarrow> ReadOnlyToolProgressDetector
    \<Rightarrow> ReadOnlyToolProgressAction \<times> ReadOnlyToolProgressDetector" where
  "progress_check tool_calls d =
     (if \<not> read_only_batch tool_calls
      then (ProgressContinue, \<lparr>consecutive_read_only_batches = 0, warned = False\<rparr>)
      else (let d' = d\<lparr>consecutive_read_only_batches := sat_add_usize (consecutive_read_only_batches d) 1\<rparr>
            in if \<not> warned d' \<and> consecutive_read_only_batches d' \<ge> READ_ONLY_TOOL_BATCH_WARNING_THRESHOLD
               then (ProgressWarn (lit ''Runtime progress guard: you have made ''
                       @ nat_display (consecutive_read_only_batches d')
                       @ lit '' consecutive read-only exploration tool batches without editing, asking a question, or finishing. Do not call more read-only exploration tools now. Either make the needed edit, ask one blocking question, or provide the final diagnosis/answer using the evidence already gathered.''),
                     d'\<lparr>warned := True\<rparr>)
               else (ProgressContinue, d')))"

section \<open>The guard and the blocked calls\<close>

record 'v ToolLoopGuard =
  tool_rounds :: nat
  repeated_tool_call_detector :: "'v RepeatedToolCallDetector"
  read_only_tool_progress_detector :: ReadOnlyToolProgressDetector

definition new_tool_loop_guard :: "'v ToolLoopGuard" where
  "new_tool_loop_guard = \<lparr>tool_rounds = 0, repeated_tool_call_detector = new_repeated_detector,
     read_only_tool_progress_detector = new_read_only_detector\<rparr>"

definition check_before_execution :: "'v NeutralToolCall list \<Rightarrow> 'v ToolLoopGuard
    \<Rightarrow> (rstr + ToolLoopBeforeExecutionAction) \<times> 'v ToolLoopGuard" where
  "check_before_execution tool_calls g =
     (let (r, d) = repeated_check tool_calls (repeated_tool_call_detector g)
      in (r, g\<lparr>repeated_tool_call_detector := d\<rparr>))"

definition reached_round_cap :: "nat \<Rightarrow> 'v ToolLoopGuard \<Rightarrow> bool" where
  "reached_round_cap max_tool_rounds g \<longleftrightarrow> tool_rounds g \<ge> max_tool_rounds"

definition record_executed_round :: "'v ToolLoopGuard \<Rightarrow> 'v ToolLoopGuard" where
  "record_executed_round g = g\<lparr>tool_rounds := sat_add_usize (tool_rounds g) 1\<rparr>"

definition reset_after_compression :: "'v ToolLoopGuard \<Rightarrow> 'v ToolLoopGuard" where
  "reset_after_compression g = g\<lparr>tool_rounds := 0\<rparr>"

definition check_after_execution :: "'v NeutralToolCall list \<Rightarrow> 'v ToolLoopGuard
    \<Rightarrow> ReadOnlyToolProgressAction \<times> 'v ToolLoopGuard" where
  "check_after_execution tool_calls g =
     (let (r, d) = progress_check tool_calls (read_only_tool_progress_detector g)
      in (r, g\<lparr>read_only_tool_progress_detector := d\<rparr>))"

record 'v BlockedToolCall =
  display_id :: rstr
  provider_call_id :: rstr
  blocked_name :: rstr
  blocked_input :: 'v
  blocked_output :: json

definition blocked_reason :: "nat \<Rightarrow> nat \<Rightarrow> bool \<Rightarrow> rstr" where
  "blocked_reason blocked_batch_index recovery_limit recovery_available =
     (if recovery_available
      then lit ''Repeated tool-call batch was blocked and not executed; automatic recovery ''
        @ nat_display blocked_batch_index @ lit ''/'' @ nat_display recovery_limit @ lit '' will continue.''
      else lit ''Repeated tool-call batch was blocked and not executed; automatic recovery limit ''
        @ nat_display recovery_limit @ lit '' is exhausted and the run will stop.'')"

definition blocked_display_id :: "rstr \<Rightarrow> rstr \<Rightarrow> nat \<Rightarrow> nat \<Rightarrow> rstr \<Rightarrow> rstr" where
  "blocked_display_id run_id assistant_message_id blocked_batch_index batch_index cid =
     lit ''blocked-tool-call:'' @ run_id @ lit '':'' @ assistant_message_id @ lit '':''
     @ nat_display blocked_batch_index @ lit '':'' @ nat_display batch_index @ lit '':'' @ cid"

definition blocked_tool_call :: "rstr \<Rightarrow> rstr \<Rightarrow> nat \<Rightarrow> nat \<Rightarrow> bool \<Rightarrow> nat \<Rightarrow> 'v NeutralToolCall
    \<Rightarrow> 'v BlockedToolCall" where
  "blocked_tool_call run_id assistant_message_id blocked_batch_index recovery_limit recovery_available
      batch_index c =
     \<lparr>display_id = blocked_display_id run_id assistant_message_id blocked_batch_index batch_index (nc_call_id c),
      provider_call_id = nc_call_id c, blocked_name = nc_name c, blocked_input = nc_arguments c,
      blocked_output = JObj [(lit ''source'', JStr TOOL_CALL_LOOP_GUARD_SOURCE),
        (lit ''executed'', JBool False), (lit ''originalCallId'', JStr (nc_call_id c)),
        (lit ''blockedBatchIndex'', JInt (int blocked_batch_index)),
        (lit ''recoveryIndex'', JInt (int (min blocked_batch_index recovery_limit))),
        (lit ''recoveryLimit'', JInt (int recovery_limit)),
        (lit ''recoveryAvailable'', JBool recovery_available),
        (lit ''reason'', JStr (blocked_reason blocked_batch_index recovery_limit recovery_available))]\<rparr>"

definition blocked_tool_calls :: "rstr \<Rightarrow> rstr \<Rightarrow> 'v NeutralToolCall list \<Rightarrow> nat \<Rightarrow> nat \<Rightarrow> bool
    \<Rightarrow> 'v BlockedToolCall list" where
  "blocked_tool_calls run_id assistant_message_id tool_calls blocked_batch_index recovery_limit
      recovery_available =
     map (\<lambda>(batch_index, c). blocked_tool_call run_id assistant_message_id blocked_batch_index
            recovery_limit recovery_available batch_index c)
       (enumerate 0 tool_calls)"

section \<open>Budget of an execution\<close>

definition tool_output_semantics :: "rstr \<Rightarrow> ToolOutputSemantics" where
  "tool_output_semantics tool_name =
     (case retry_safety (tool_effect tool_name) of
        RetrySafe \<Rightarrow> ToolOutputSemantics.ReadOnly
      | ToolRetrySafety.RetryUnsafe \<Rightarrow> ToolOutputSemantics.RetryUnsafe)"

definition budget_tool_execution ::
    "envelope_measure \<Rightarrow> rstr \<Rightarrow> ToolExecution \<Rightarrow> BudgetedToolExecution" where
  "budget_tool_execution serialized_json_size tool_name ex =
     normalize_tool_execution serialized_json_size tool_name (tool_output_semantics tool_name) ex"

definition pending_tool_calls :: "'v NeutralToolCall list \<Rightarrow> 'v PendingToolCall list" where
  "pending_tool_calls = map (\<lambda>c. \<lparr>call_id = nc_call_id c, call_name = nc_name c,
     call_arguments = nc_arguments c\<rparr>)"

record 'v ExecutedToolCall =
  ex_id :: rstr
  ex_name :: rstr
  ex_input :: 'v
  ex_output :: json
  ex_is_error :: bool

definition rejected_tool_batch_results :: "envelope_measure \<Rightarrow> 'v NeutralToolCall list
    \<Rightarrow> ToolConflictError \<Rightarrow> 'v ExecutedToolCall list option" where
  "rejected_tool_batch_results serialized_json_size tool_calls e =
     map_option (map (\<lambda>r.
         let x = execution (budget_tool_execution serialized_json_size (rejected_tool_name r)
                   \<lparr>tool_output = JObj [(lit ''error'', JStr (rejected_message r))], is_error = True\<rparr>)
         in \<lparr>ex_id = rejected_call_id r, ex_name = rejected_tool_name r, ex_input = rejected_arguments r,
             ex_output = tool_output x, ex_is_error = is_error x\<rparr>))
       (rejected_tool_batch (pending_tool_calls tool_calls) e)"

section \<open>One turn\<close>

text \<open>What the rest of the program contributes to a turn.\<close>

record 'v TurnInput =
  tool_calls :: "'v NeutralToolCall list"
  recovered_after_cap :: "rstr + bool"
  blocked_persisted :: "rstr + unit"
  plan_executed :: "ToolExecutionGroup list \<Rightarrow> rstr + 'v ExecutedToolCall list"

record 'v RunSettings =
  run_llm_request_id :: rstr
  run_assistant_message_id :: rstr
  agent_allowed_tools :: "rstr list option"
  read_argument :: "'v arg_reader"
  execution_size :: envelope_measure

record 'v RunState =
  tool_loop_guard :: "'v ToolLoopGuard"
  tool_call_loop_recovery_count :: nat
  executed_tool_calls :: "'v ExecutedToolCall list"

definition new_run :: "'v RunState" where
  "new_run = \<lparr>tool_loop_guard = new_tool_loop_guard, tool_call_loop_recovery_count = 0,
     executed_tool_calls = []\<rparr>"

datatype 'v TurnOutcome =
  RunFailed rstr
| CapRecovered
| LoopRecovered "'v BlockedToolCall list" rstr
| BatchDone "'v ExecutedToolCall list" ReadOnlyToolProgressAction

definition is_agent_tool_name :: "rstr \<Rightarrow> bool" where
  "is_agent_tool_name tool_name \<longleftrightarrow> tool_name \<in> set agent_tools"

definition disallowed_tool :: "rstr list option \<Rightarrow> 'v NeutralToolCall list \<Rightarrow> 'v NeutralToolCall option" where
  "disallowed_tool allowed calls =
     (case allowed of
        None \<Rightarrow> None
      | Some allowed_tools \<Rightarrow>
          find (\<lambda>c. nc_name c \<notin> set allowed_tools \<and> \<not> is_agent_tool_name (nc_name c)) calls)"

definition cap_turn :: "'v TurnInput \<Rightarrow> 'v RunState \<Rightarrow> 'v TurnOutcome \<times> 'v RunState" where
  "cap_turn inp st =
     (case recovered_after_cap inp of
        Inl message \<Rightarrow> (RunFailed message, st)
      | Inr True \<Rightarrow> (CapRecovered, st\<lparr>tool_loop_guard := reset_after_compression (tool_loop_guard st)\<rparr>)
      | Inr False \<Rightarrow> (RunFailed (lit ''agent run exceeded '' @ nat_display MAX_AGENT_TOOL_ROUNDS
          @ lit '' tool continuation rounds and had no runtime tool state to compress''), st))"

definition repeated_turn ::
    "'v RunSettings \<Rightarrow> 'v TurnInput \<Rightarrow> rstr \<Rightarrow> 'v RunState \<Rightarrow> 'v TurnOutcome \<times> 'v RunState" where
  "repeated_turn cfg inp message st =
     (let recoveries = tool_call_loop_recovery_count st;
          available = (recoveries < MAX_TOOL_CALL_LOOP_RECOVERIES_PER_RUN);
          blocked_calls = blocked_tool_calls (run_llm_request_id cfg) (run_assistant_message_id cfg)
            (tool_calls inp) (sat_add_usize recoveries 1) MAX_TOOL_CALL_LOOP_RECOVERIES_PER_RUN available
      in case blocked_persisted inp of
           Inl e \<Rightarrow> (RunFailed e, st)
         | Inr _ \<Rightarrow>
             if available
             then (LoopRecovered blocked_calls message,
                   st\<lparr>tool_call_loop_recovery_count := sat_add_usize recoveries 1\<rparr>)
             else (RunFailed message, st))"

definition finish_batch :: "'v NeutralToolCall list \<Rightarrow> 'v ExecutedToolCall list \<Rightarrow> 'v RunState
    \<Rightarrow> 'v TurnOutcome \<times> 'v RunState" where
  "finish_batch calls results st =
     (let (action, g) = check_after_execution calls (tool_loop_guard st)
      in (BatchDone results action,
          st\<lparr>tool_loop_guard := record_executed_round g,
             executed_tool_calls := executed_tool_calls st @ results\<rparr>))"

definition execute_turn ::
    "'v RunSettings \<Rightarrow> 'v TurnInput \<Rightarrow> 'v RunState \<Rightarrow> 'v TurnOutcome \<times> 'v RunState" where
  "execute_turn cfg inp st =
     (case plan_tool_execution (read_argument cfg) (pending_tool_calls (tool_calls inp)) of
        Inl e \<Rightarrow>
          (case rejected_tool_batch_results (execution_size cfg) (tool_calls inp) e of
             None \<Rightarrow> (RunFailed (conflict_display e), st)
           | Some results \<Rightarrow> finish_batch (tool_calls inp) results st)
      | Inr execution_plan \<Rightarrow>
          (case plan_executed inp execution_plan of
             Inl message \<Rightarrow> (RunFailed message, st)
           | Inr results \<Rightarrow> finish_batch (tool_calls inp) results st))"

definition tool_call_turn ::
    "'v RunSettings \<Rightarrow> 'v TurnInput \<Rightarrow> 'v RunState \<Rightarrow> 'v TurnOutcome \<times> 'v RunState" where
  "tool_call_turn cfg inp st =
     (if reached_round_cap MAX_AGENT_TOOL_ROUNDS (tool_loop_guard st) then cap_turn inp st
      else case disallowed_tool (agent_allowed_tools cfg) (tool_calls inp) of
        Some c \<Rightarrow> (RunFailed (lit ''Agent definition does not allow tool '' @ quoted (nc_name c)), st)
      | None \<Rightarrow>
          (let (r, g) = check_before_execution (tool_calls inp) (tool_loop_guard st);
               st' = st\<lparr>tool_loop_guard := g\<rparr>
           in case r of
                Inl message \<Rightarrow> (RunFailed message, st')
              | Inr (RecoverRepeatedBatch message _) \<Rightarrow> repeated_turn cfg inp message st'
              | Inr BeforeContinue \<Rightarrow> execute_turn cfg inp st'))"

text \<open>A run handles one batch after the other until it fails.\<close>

definition run_failed :: "'v TurnOutcome \<Rightarrow> bool" where
  "run_failed r \<longleftrightarrow> (case r of RunFailed _ \<Rightarrow> True | _ \<Rightarrow> False)"

fun run_turns :: "'v RunSettings \<Rightarrow> 'v TurnInput list \<Rightarrow> 'v RunState \<Rightarrow> 'v TurnOutcome list \<times> 'v RunState" where
  "run_turns cfg [] st = ([], st)"
| "run_turns cfg (inp # inps) st =
     (let (r, st') = tool_call_turn cfg inp st
      in if run_failed r then ([r], st')
         else (let (rs, st'') = run_turns cfg inps st' in (r # rs, st'')))"

section \<open>The detectors see runs of batches\<close>

definition transportable :: "'v NeutralToolCall list \<Rightarrow> bool" where
  "transportable calls \<longleftrightarrow> (\<forall>c \<in> set calls. str_len (nc_call_id c) \<le> TOOL_TRANSPORT_DYNAMIC_FIELD_BYTE_LIMIT)"

text \<open>How many batches at the end of a history have the signatures of \<open>b\<close>; the history is given
  newest first.\<close>

definition same_run :: "'v NeutralToolCall list \<Rightarrow> 'v NeutralToolCall list list \<Rightarrow> nat" where
  "same_run b bs = length (takeWhile (\<lambda>x. tool_call_loop_signatures x = tool_call_loop_signatures b) bs)"

definition read_only_run :: "'v NeutralToolCall list list \<Rightarrow> nat" where
  "read_only_run bs = length (takeWhile read_only_batch bs)"

fun repeated_after :: "'v NeutralToolCall list list \<Rightarrow> 'v RepeatedToolCallDetector" where
  "repeated_after [] = new_repeated_detector"
| "repeated_after (b # bs) = snd (repeated_check b (repeated_after bs))"

fun progress_after :: "'v NeutralToolCall list list \<Rightarrow> ReadOnlyToolProgressDetector" where
  "progress_after [] = new_read_only_detector"
| "progress_after (b # bs) = snd (progress_check b (progress_after bs))"

lemma validate_transport: "validate_tool_call_transport_fields calls = Inr () \<longleftrightarrow> transportable calls"
proof -
  have "validate_tool_call_transport_fields calls = Inr () \<longleftrightarrow>
      find (\<lambda>c. str_len (nc_call_id c) > TOOL_TRANSPORT_DYNAMIC_FIELD_BYTE_LIMIT) calls = None"
    by (simp add: validate_tool_call_transport_fields_def Let_def split: option.split)
  then show ?thesis by (auto simp: find_None_iff transportable_def not_less)
qed

lemma validate_transport_cases:
  "validate_tool_call_transport_fields calls = (if transportable calls then Inr ()
     else Inl (projl (validate_tool_call_transport_fields calls)))"
  using validate_transport [of calls] by (cases "validate_tool_call_transport_fields calls") auto

text \<open>The number of checks of \<open>b\<close> that the detector counts before it sees \<open>b\<close> again.\<close>

definition seen_count :: "'v NeutralToolCall list \<Rightarrow> 'v RepeatedToolCallDetector \<Rightarrow> nat" where
  "seen_count b d = (if previous_batch d = Some (tool_call_loop_signatures b) then consecutive_count d else 0)"

lemma repeated_check_spec:
  assumes "transportable b"
  shows "seen_count b (snd (repeated_check b d)) = Suc (seen_count b d)"
    and "fst (repeated_check b d) = Inr BeforeContinue \<longleftrightarrow> Suc (seen_count b d) < MAX_REPEATED_TOOL_CALL_BATCHES"
    and "\<not> Suc (seen_count b d) < MAX_REPEATED_TOOL_CALL_BATCHES \<Longrightarrow>
      \<exists>msg names. fst (repeated_check b d) = Inr (RecoverRepeatedBatch msg names)"
    and "previous_batch (snd (repeated_check b d)) = Some (tool_call_loop_signatures b)"
  using validate_transport [of b] assms
  by (auto simp: repeated_check_def seen_count_def Let_def)

lemma repeated_check_invalid:
  "\<not> transportable b \<Longrightarrow> snd (repeated_check b d) = d \<and> (\<exists>e. fst (repeated_check b d) = Inl e)"
  by (subst (1 2) repeated_check_def, subst (1 2) validate_transport_cases) simp

lemma seen_count_other:
  "previous_batch d \<noteq> Some (tool_call_loop_signatures b) \<Longrightarrow> seen_count b d = 0"
  by (simp add: seen_count_def)

lemma repeated_after_spec:
  "seen_count b (repeated_after bs) = same_run b (filter transportable bs)"
proof (induction bs)
  case Nil
  then show ?case by (simp add: seen_count_def new_repeated_detector_def same_run_def)
next
  case (Cons x bs)
  show ?case
  proof (cases "transportable x")
    case True
    note sp = repeated_check_spec [OF True, of "repeated_after bs"]
    show ?thesis
    proof (cases "tool_call_loop_signatures x = tool_call_loop_signatures b")
      case eq: True
      then have "seen_count b d = seen_count x d" for d :: "'a RepeatedToolCallDetector"
        by (simp add: seen_count_def)
      with True eq sp(1) Cons.IH show ?thesis by (simp add: same_run_def)
    next
      case False
      with True sp(4) show ?thesis by (simp add: same_run_def seen_count_other)
    qed
  next
    case False
    with repeated_check_invalid [OF False] Cons.IH show ?thesis by simp
  qed
qed

lemma progress_after_spec:
  "consecutive_read_only_batches (progress_after bs) = min usize_MAX (read_only_run bs)
   \<and> (warned (progress_after bs) \<longleftrightarrow> READ_ONLY_TOOL_BATCH_WARNING_THRESHOLD \<le> read_only_run bs)"
proof (induction bs)
  case Nil
  then show ?case
    by (simp add: new_read_only_detector_def read_only_run_def READ_ONLY_TOOL_BATCH_WARNING_THRESHOLD_def)
next
  case (Cons b bs)
  then show ?case
    by (auto simp: progress_check_def Let_def read_only_run_def sat_add_usize_def min_def usize_MAX_def
        READ_ONLY_TOOL_BATCH_WARNING_THRESHOLD_def)
qed

section \<open>Properties\<close>

text \<open>the detectors of the tool loop are exact. Whatever the history of batches, a batch whose
  call identifiers fit the transport is stopped exactly when the two batches checked before it had
  the same names and arguments, one whose identifiers do not fit is refused without a trace, and the
  warning about read-only work is given exactly at the sixteenth read-only batch in a row.\<close>

theorem tool_loop_detectors_exact:
  "(transportable b \<longrightarrow>
      (\<exists>msg names. fst (repeated_check b (repeated_after bs)) = Inr (RecoverRepeatedBatch msg names))
        = (2 \<le> same_run b (filter transportable bs)))
   \<and> (\<not> transportable b \<longrightarrow> (\<exists>e. fst (repeated_check b (repeated_after bs)) = Inl e)
        \<and> repeated_after (b # bs) = repeated_after bs)
   \<and> (\<exists>msg. fst (progress_check b (progress_after bs)) = ProgressWarn msg)
       = (read_only_batch b \<and> read_only_run bs = 15)"
proof -
  have "(\<exists>msg names. fst (repeated_check b (repeated_after bs)) = Inr (RecoverRepeatedBatch msg names))
        = (2 \<le> same_run b (filter transportable bs))" if "transportable b"
    using repeated_check_spec(2,3) [OF that, of "repeated_after bs"]
    unfolding repeated_after_spec MAX_REPEATED_TOOL_CALL_BATCHES_def by fastforce
  moreover have "(\<exists>msg. fst (progress_check b (progress_after bs)) = ProgressWarn msg)
       = (read_only_batch b \<and> read_only_run bs = 15)"
    using progress_after_spec [of bs]
    by (auto simp: progress_check_def Let_def sat_add_usize_def min_def usize_MAX_def
        READ_ONLY_TOOL_BATCH_WARNING_THRESHOLD_def split: if_splits)
  ultimately show ?thesis using repeated_check_invalid [of b "repeated_after bs"] by simp
qed

theorem tool_loop_detectors_exact_witness:
  "\<exists>b :: unit NeutralToolCall list. \<exists>msg names. transportable b
     \<and> fst (repeated_check b (repeated_after [b, b])) = Inr (RecoverRepeatedBatch msg names)"
proof -
  let ?b = "[\<lparr>nc_call_id = lit ''c'', nc_name = lit ''sleep'', nc_arguments = (), nc_thought_signatures = None\<rparr>]"
  have t: "transportable ?b"
    by (simp add: transportable_def str_len_def str_bytes_def utf8_char_def lit_def
        TOOL_TRANSPORT_DYNAMIC_FIELD_BYTE_LIMIT_def)
  then have "2 \<le> same_run ?b (filter transportable [?b, ?b])" by (simp add: same_run_def)
  with t tool_loop_detectors_exact [of ?b "[?b, ?b]"] show ?thesis by blast
qed

lemma normalize_success_kept:
  assumes "\<not> is_error ex"
  shows "\<not> is_error (execution (normalize_tool_execution_with_measurement t ToolOutputSemantics.RetryUnsafe
    ex hard me))"
  using assms
  by (simp add: normalize_tool_execution_with_measurement_def finalize_budgeted_execution_def
      split: sum.split option.split)

text \<open>an effect that happened is never reported as a failure. When the planner gives a tool call
  a lock that is not a read lock, a successful execution of that tool stays a success under the
  output budget, however large its output and whatever the serialiser answers.\<close>

theorem budgeted_effect_stays_success:
  assumes "tool_resource_locks arg_str c = Inr held" and "l \<in> set held" and "lock_access l \<noteq> AccessRead"
    and "\<not> is_error ex"
  shows "\<not> is_error (execution (budget_tool_execution serialized_json_size (call_name c) ex))"
proof -
  have "tool_effect (call_name c) \<noteq> ToolEffect.ReadOnly"
    using read_only_locks_read [OF _ assms(1)] assms(2,3) by blast
  then have "tool_output_semantics (call_name c) = ToolOutputSemantics.RetryUnsafe"
    by (cases "tool_effect (call_name c)") (simp_all add: tool_output_semantics_def)
  then show ?thesis
    using normalize_success_kept [OF assms(4)]
    by (simp add: budget_tool_execution_def normalize_tool_execution_def)
qed

theorem budgeted_effect_stays_success_witness:
  "\<not> is_error (execution (budget_tool_execution (\<lambda>_. Inl [])  (lit ''update_spec'')
     \<lparr>tool_output = JNull, is_error = False\<rparr>))"
proof -
  let ?c = "\<lparr>call_id = lit ''c1'', call_name = lit ''update_spec'', call_arguments = ()\<rparr>"
  have "tool_resource_locks (\<lambda>_ _. None) ?c = Inr [mk_lock ProjectSpec AccessWrite]"
    by (simp add: tool_resource_locks_def base_resource_locks_def lease_locks_def tool_effect_def
        read_only_tools_def graph_and_search_tools_def query_tools_def workspace_mutation_tools_def
        agent_tools_def tool_requires_workspace_mutation_lease_def)
  from budgeted_effect_stays_success [OF this, of "mk_lock ProjectSpec AccessWrite"
      "\<lparr>tool_output = JNull, is_error = False\<rparr>" "\<lambda>_. Inl []"]
  show ?thesis by simp
qed

text \<open>The turns that are left for a batch that is submitted again and again.\<close>

definition turns_left :: "'v NeutralToolCall list \<Rightarrow> 'v RunState \<Rightarrow> nat" where
  "turns_left b st = (2 - seen_count b (repeated_tool_call_detector (tool_loop_guard st)))
     + (MAX_TOOL_CALL_LOOP_RECOVERIES_PER_RUN - tool_call_loop_recovery_count st)"

definition below_cap :: "'v NeutralToolCall list \<Rightarrow> 'v RunState \<Rightarrow> bool" where
  "below_cap b st \<longleftrightarrow> tool_rounds (tool_loop_guard st)
     + (2 - seen_count b (repeated_tool_call_detector (tool_loop_guard st))) < MAX_AGENT_TOOL_ROUNDS"

lemma finish_batch_spec:
  assumes "finish_batch calls rs st = (r, st')"
  shows "repeated_tool_call_detector (tool_loop_guard st') = repeated_tool_call_detector (tool_loop_guard st)
    \<and> tool_call_loop_recovery_count st' = tool_call_loop_recovery_count st
    \<and> tool_rounds (tool_loop_guard st') \<le> Suc (tool_rounds (tool_loop_guard st))"
  using assms
  by (auto simp: finish_batch_def check_after_execution_def record_executed_round_def sat_add_usize_def
      split_def Let_def)

lemma execute_turn_spec:
  assumes "execute_turn cfg inp st = (r, st')"
  shows "repeated_tool_call_detector (tool_loop_guard st') = repeated_tool_call_detector (tool_loop_guard st)
    \<and> tool_call_loop_recovery_count st' = tool_call_loop_recovery_count st
    \<and> tool_rounds (tool_loop_guard st') \<le> Suc (tool_rounds (tool_loop_guard st))"
proof -
  have "st' = st \<or> (\<exists>rs. finish_batch (tool_calls inp) rs st = (r, st'))"
    using assms by (auto simp: execute_turn_def split: sum.splits option.splits)
  then show ?thesis by (auto dest: finish_batch_spec)
qed

lemma repeated_turn_spec:
  assumes "repeated_turn cfg inp message st = (r, st')" and "\<not> run_failed r"
  shows "tool_loop_guard st' = tool_loop_guard st
    \<and> tool_call_loop_recovery_count st < MAX_TOOL_CALL_LOOP_RECOVERIES_PER_RUN
    \<and> tool_call_loop_recovery_count st' = Suc (tool_call_loop_recovery_count st)"
  using assms
  by (auto simp: repeated_turn_def Let_def run_failed_def sat_add_usize_def usize_MAX_def
      MAX_TOOL_CALL_LOOP_RECOVERIES_PER_RUN_def split: sum.splits if_splits)

lemma repeated_submission_turn:
  assumes same: "tool_call_loop_signatures (tool_calls inp) = tool_call_loop_signatures b"
    and cap: "below_cap b st" and turn: "tool_call_turn cfg inp st = (r, st')" and ok: "\<not> run_failed r"
  shows "below_cap b st' \<and> turns_left b st' < turns_left b st"
proof -
  let ?d = "repeated_tool_call_detector (tool_loop_guard st)" and ?b = "tool_calls inp"
  let ?mid = "st\<lparr>tool_loop_guard := snd (check_before_execution ?b (tool_loop_guard st))\<rparr>"
  have seen: "seen_count b d = seen_count ?b d" for d :: "'a RepeatedToolCallDetector"
    using same by (simp add: seen_count_def)
  have "\<not> reached_round_cap MAX_AGENT_TOOL_ROUNDS (tool_loop_guard st)"
    using cap by (simp add: below_cap_def reached_round_cap_def)
  then have body: "(case fst (repeated_check ?b ?d) of
      Inl m \<Rightarrow> (RunFailed m, ?mid)
    | Inr (RecoverRepeatedBatch m _) \<Rightarrow> repeated_turn cfg inp m ?mid
    | Inr BeforeContinue \<Rightarrow> execute_turn cfg inp ?mid) = (r, st')"
    using turn ok unfolding tool_call_turn_def check_before_execution_def split_def Let_def
    by (auto simp: run_failed_def split: option.splits)
  have tr: "transportable ?b"
    using body ok repeated_check_invalid [of ?b ?d] by (cases "transportable ?b") (auto simp: run_failed_def)
  note sp = repeated_check_spec [OF tr, of ?d]
  have mid: "repeated_tool_call_detector (snd (check_before_execution ?b (tool_loop_guard st)))
      = snd (repeated_check ?b ?d)"
    "tool_rounds (snd (check_before_execution ?b (tool_loop_guard st))) = tool_rounds (tool_loop_guard st)"
    by (simp_all add: check_before_execution_def split_def Let_def)
  show ?thesis
  proof (cases "Suc (seen_count ?b ?d) < MAX_REPEATED_TOOL_CALL_BATCHES")
    case True
    with sp(2) body have "execute_turn cfg inp ?mid = (r, st')" by simp
    from execute_turn_spec [OF this] True sp(1) cap show ?thesis
      by (simp add: below_cap_def turns_left_def seen mid MAX_REPEATED_TOOL_CALL_BATCHES_def) arith
  next
    case False
    then obtain m where "repeated_turn cfg inp m ?mid = (r, st')" using sp(3) body by auto
    from repeated_turn_spec [OF this ok] False sp(1) cap show ?thesis
      by (simp add: below_cap_def turns_left_def seen mid MAX_REPEATED_TOOL_CALL_BATCHES_def) arith
  qed
qed

lemma repeated_submission_run:
  assumes "\<forall>inp \<in> set inps. tool_call_loop_signatures (tool_calls inp) = tool_call_loop_signatures b"
    and "below_cap b st" and "turns_left b st < length inps"
  shows "\<exists>rs msg st'. run_turns cfg inps st = (rs @ [RunFailed msg], st') \<and> length rs \<le> turns_left b st"
  using assms
proof (induction inps arbitrary: st)
  case Nil
  then show ?case by simp
next
  case (Cons inp inps)
  obtain r st1 where t: "tool_call_turn cfg inp st = (r, st1)" by (cases "tool_call_turn cfg inp st")
  show ?case
  proof (cases "run_failed r")
    case True
    then obtain msg where "r = RunFailed msg" by (cases r) (auto simp: run_failed_def)
    with True t have "run_turns cfg (inp # inps) st = ([] @ [RunFailed msg], st1)" by simp
    then show ?thesis by (metis le0 list.size(3))
  next
    case False
    have step: "below_cap b st1" "turns_left b st1 < turns_left b st"
      using repeated_submission_turn [OF _ Cons.prems(2) t False] Cons.prems(1) by auto
    with Cons.IH [of st1] Cons.prems obtain rs msg st' where
      "run_turns cfg inps st1 = (rs @ [RunFailed msg], st')" "length rs \<le> turns_left b st1" by auto
    with False t step(2) show ?thesis by (intro exI [of _ "r # rs"]) auto
  qed
qed

text \<open>C6: a model that submits the same batch forever cannot keep a run alive. From every state of a
  run with room for two more rounds, at most five turns with the same tool names and arguments
  (two executions and three recoveries) go by before a turn ends the run, whatever the other code
  answers.\<close>

theorem identical_batches_end_run:
  assumes "\<forall>inp \<in> set inps. tool_call_loop_signatures (tool_calls inp) = tool_call_loop_signatures b"
    and "tool_rounds (tool_loop_guard st) + 2 < MAX_AGENT_TOOL_ROUNDS" and "6 \<le> length inps"
  shows "\<exists>rs msg st'. run_turns cfg inps st = (rs @ [RunFailed msg], st') \<and> length rs \<le> 5"
proof -
  have five: "turns_left b st \<le> 5"
    by (simp add: turns_left_def MAX_TOOL_CALL_LOOP_RECOVERIES_PER_RUN_def)
  have cap: "below_cap b st" using assms(2) by (auto simp: below_cap_def)
  obtain rs msg st' where "run_turns cfg inps st = (rs @ [RunFailed msg], st')" "length rs \<le> turns_left b st"
    using repeated_submission_run [OF assms(1) cap, of cfg] assms(3) five by auto
  with five show ?thesis by (metis le_trans)
qed

theorem identical_batches_end_run_witness:
  "\<exists>rs msg st'. run_turns \<lparr>run_llm_request_id = [], run_assistant_message_id = [],
       agent_allowed_tools = None, read_argument = (\<lambda>_ _. None), execution_size = (\<lambda>_. Inr 0)\<rparr>
     (replicate 6 \<lparr>tool_calls = [\<lparr>nc_call_id = lit ''c'', nc_name = lit ''sleep'', nc_arguments = (),
          nc_thought_signatures = None\<rparr>], recovered_after_cap = Inr True, blocked_persisted = Inr (),
        plan_executed = (\<lambda>_. Inr [])\<rparr>) new_run = (rs @ [RunFailed msg], st') \<and> length rs \<le> 5"
  by (rule identical_batches_end_run
      [where b = "[\<lparr>nc_call_id = lit ''c'', nc_name = lit ''sleep'', nc_arguments = (), nc_thought_signatures = None\<rparr>]"])
    (simp_all add: new_run_def new_tool_loop_guard_def MAX_AGENT_TOOL_ROUNDS_def)

section \<open>Identifiers of blocked calls\<close>

lemma append_sep_inject:
  "a @ c # r = a' @ c # r' \<Longrightarrow> c \<notin> set a \<Longrightarrow> c \<notin> set a' \<Longrightarrow> a = a' \<and> r = r'"
proof (induction a arbitrary: a')
  case Nil
  then show ?case by (cases a') auto
next
  case (Cons x a)
  then show ?case by (cases a') auto
qed

text \<open>A blocked call has an identifier of its own. Within one assistant message the identifiers
  shown for blocked calls are equal only for the same position of the same blocked batch, even when
  the provider uses one call identifier again and again.\<close>

theorem blocked_display_id_unique:
  assumes "blocked_display_id run msg i j cid = blocked_display_id run msg i' j' cid'"
  shows "i = i' \<and> j = j' \<and> cid = cid'"
proof -
  have colon: "58 \<notin> set (nat_display n)" for n using nat_display_digit [of 58 n] by auto
  note split = append_sep_inject [where c = 58]
  have col: "lit '':'' @ r = 58 # r" for r by (simp add: lit_def)
  from assms have "nat_display i @ 58 # nat_display j @ 58 # cid
      = nat_display i' @ 58 # nat_display j' @ 58 # cid'"
    by (simp add: blocked_display_id_def col)
  from split [OF this colon colon] have "nat_display i = nat_display i'"
    and rest: "nat_display j @ 58 # cid = nat_display j' @ 58 # cid'" by auto
  with split [OF rest colon colon] show ?thesis by (auto dest: nat_display_inject)
qed

theorem blocked_display_id_unique_witness:
  "blocked_display_id (lit ''r'') (lit ''m'') 1 11 (lit ''c'')
     \<noteq> blocked_display_id (lit ''r'') (lit ''m'') 11 1 (lit ''c'')"
  using blocked_display_id_unique [of "lit ''r''" "lit ''m''" 1 11 "lit ''c''" 11 1 "lit ''c''"] by auto

end
