(* ===== verification/Provider_Retry.thy ===== *)
theory Provider_Retry
  imports Foco_Prelude Complex_Main
begin

text \<open>
  Retries of provider requests: the classification of failures (\<open>providers/lib.rs\<close>), the retry
  classes and waiting times (\<open>app/provider_retry.rs\<close>), the policy of context compression
  (\<open>app/context_compression_policy.rs\<close>) and its loop of attempts
  (\<open>app/prompt/compression.rs\<close>). A \<open>Duration\<close> is its number of nanoseconds. The jitter
  is computed with real numbers, where the code uses \<open>f64\<close>, so rounding and NaN are absent. An attempt of
  the loop stands for one run of \<open>llm_context_compression_summary\<close>, which may send several requests; the random sample, the clock, the
  answers of the provider and the shutdown signal are inputs.
\<close>

section \<open>Failure kinds\<close>

datatype ProviderStreamFailureKind =
  Capacity | RateLimit | ServerError | Auth | Permission | InvalidRequest | ContextLength
| ProtocolParse | Other

fun failure_kind_as_str :: "ProviderStreamFailureKind \<Rightarrow> rstr" where
  "failure_kind_as_str Capacity = lit ''capacity''"
| "failure_kind_as_str RateLimit = lit ''rate_limit''"
| "failure_kind_as_str ServerError = lit ''server_error''"
| "failure_kind_as_str Auth = lit ''auth''"
| "failure_kind_as_str Permission = lit ''permission''"
| "failure_kind_as_str InvalidRequest = lit ''invalid_request''"
| "failure_kind_as_str ContextLength = lit ''context_length''"
| "failure_kind_as_str ProtocolParse = lit ''protocol_parse''"
| "failure_kind_as_str Other = lit ''other''"

fun failure_kind_is_retryable :: "ProviderStreamFailureKind \<Rightarrow> bool" where
  "failure_kind_is_retryable Capacity = True"
| "failure_kind_is_retryable RateLimit = True"
| "failure_kind_is_retryable ServerError = True"
| "failure_kind_is_retryable _ = False"

text \<open>\<open>str::contains\<close> with a string pattern.\<close>

fun str_contains :: "rstr \<Rightarrow> rstr \<Rightarrow> bool" where
  "str_contains [] needle = (needle = [])"
| "str_contains (c # cs) needle = (starts_with (c # cs) needle \<or> str_contains cs needle)"

definition contains_any :: "rstr \<Rightarrow> string list \<Rightarrow> bool" where
  "contains_any haystack needles \<longleftrightarrow> list_ex (\<lambda>needle. str_contains haystack (lit needle)) needles"

definition auth_words :: "string list" where
  "auth_words = [''invalid_api_key'', ''authentication'', ''unauthorized'', ''invalid auth'',
     ''incorrect api key'', ''invalid api key'']"
definition permission_words :: "string list" where
  "permission_words = [''permission'', ''forbidden'', ''access_denied'', ''not allowed'']"
definition context_words :: "string list" where
  "context_words = [''context_length'', ''context length'', ''maximum context'', ''max context'',
     ''context window'', ''too many tokens'', ''token limit'', ''max_tokens'']"
definition parse_words :: "string list" where
  "parse_words = [''failed to parse stream'', ''invalid_json'', ''invalid json'', ''parse stream'',
     ''protocol parse'']"
definition rate_words :: "string list" where
  "rate_words = [''rate_limit'', ''rate limit'', ''too many requests'', ''rate_limited'', ''requests per'']"
definition quota_words :: "string list" where
  "quota_words = [''insufficient_quota'', ''insufficient quota'', ''billing'', ''payment required'',
     ''quota exceeded'', ''exceeded your current quota'']"
definition capacity_words :: "string list" where
  "capacity_words = [''capacity'', ''overloaded'', ''model_capacity'', ''no capacity'',
     ''out of capacity'', ''resource_exhausted'', ''server is busy'', ''high demand'']"
definition server_words :: "string list" where
  "server_words = [''server_error'', ''internal_error'', ''internal server'', ''service_unavailable'',
     ''bad_gateway'', ''gateway_timeout'', ''temporarily unavailable'']"
definition request_words :: "string list" where
  "request_words = [''invalid_request'', ''invalid request'', ''bad request'', ''not found'',
     ''validation_error'']"

definition str_or_empty :: "rstr option \<Rightarrow> rstr" where
  "str_or_empty v = (case v of None \<Rightarrow> [] | Some s \<Rightarrow> s)"

definition classify_provider_stream_failure_kind ::
    "rstr option \<Rightarrow> rstr option \<Rightarrow> rstr \<Rightarrow> nat option \<Rightarrow> ProviderStreamFailureKind" where
  "classify_provider_stream_failure_kind code error_type message status_code =
     (let haystack = to_ascii_lowercase (str_or_empty code) @ lit '' ''
            @ to_ascii_lowercase (str_or_empty error_type) @ lit '' '' @ to_ascii_lowercase message
      in if status_code = Some 401 \<or> contains_any haystack auth_words then Auth
         else if status_code = Some 403 \<or> contains_any haystack permission_words then Permission
         else if contains_any haystack context_words then ContextLength
         else if contains_any haystack parse_words then ProtocolParse
         else if status_code = Some 429 \<or> contains_any haystack rate_words then RateLimit
         else if contains_any haystack quota_words then InvalidRequest
         else if contains_any haystack capacity_words then Capacity
         else if (\<exists>c \<in> set_option status_code. 500 \<le> c \<and> c \<le> 599) \<or> contains_any haystack server_words
              then ServerError
         else if status_code \<in> {Some 400, Some 404, Some 422} \<or> contains_any haystack request_words
              then InvalidRequest
         else Other)"

record ProviderStreamErrorDetail =
  detail_message :: rstr
  detail_status_code :: "nat option"
  detail_kind :: ProviderStreamFailureKind
  detail_code :: "rstr option"
  detail_error_type :: "rstr option"
  detail_param :: "rstr option"
  detail_event_type :: "rstr option"
  detail_diagnostic_kind :: "rstr option"
  detail_model_id :: "rstr option"
  detail_adapter :: "rstr option"

datatype ProviderConfigError =
  Connection rstr "nat option"
| ProviderStream ProviderStreamErrorDetail
| EmptyBaseUrl
| EmptyProxyUrl
| InvalidBaseUrl rstr rstr
| InvalidProxyUrl rstr rstr
| InvalidRequestError rstr
| MissingRequiredField rstr
| MissingApiKey
| UnsupportedKind rstr
| UnsupportedProxyKind rstr
| UnsupportedProxyForWebSocket rstr

definition error_status_code :: "ProviderConfigError \<Rightarrow> nat option" where
  "error_status_code e =
     (case e of Connection _ status \<Rightarrow> status | ProviderStream d \<Rightarrow> detail_status_code d | _ \<Rightarrow> None)"

section \<open>Retry classes\<close>

datatype ProviderRetryClass =
  RetryCapacity | RetryRateLimit | RetryTransientServer | RetryNetwork | RetryNonRetryable

fun retry_class_as_str :: "ProviderRetryClass \<Rightarrow> rstr" where
  "retry_class_as_str RetryCapacity = lit ''capacity''"
| "retry_class_as_str RetryRateLimit = lit ''rate_limit''"
| "retry_class_as_str RetryTransientServer = lit ''transient_server''"
| "retry_class_as_str RetryNetwork = lit ''network''"
| "retry_class_as_str RetryNonRetryable = lit ''non_retryable''"

definition class_is_retryable :: "ProviderRetryClass \<Rightarrow> bool" where
  "class_is_retryable c \<longleftrightarrow> c \<noteq> RetryNonRetryable"

record ProviderRetryDecision =
  decision_class :: ProviderRetryClass
  decision_retryable :: bool

definition is_retryable_provider_status :: "nat \<Rightarrow> bool" where
  "is_retryable_provider_status code \<longleftrightarrow> code \<in> {408, 409, 429} \<or> (500 \<le> code \<and> code \<le> 599)"

text \<open>The class of an HTTP status, used by the local and by the remote classification.\<close>

definition retry_class_of_status :: "nat option \<Rightarrow> ProviderRetryClass" where
  "retry_class_of_status status =
     (case status of
        None \<Rightarrow> RetryNetwork
      | Some code \<Rightarrow>
          if is_retryable_provider_status code then
            (if code = 429 then RetryRateLimit
             else if 500 \<le> code \<and> code \<le> 599 then RetryTransientServer else RetryNetwork)
          else RetryNonRetryable)"

definition retry_class_of_kind :: "ProviderStreamFailureKind \<Rightarrow> ProviderRetryClass" where
  "retry_class_of_kind kind =
     (case kind of
        Capacity \<Rightarrow> RetryCapacity
      | RateLimit \<Rightarrow> RetryRateLimit
      | ServerError \<Rightarrow> RetryTransientServer
      | _ \<Rightarrow> RetryNonRetryable)"

definition classify_provider_retry_class :: "ProviderConfigError \<Rightarrow> ProviderRetryClass" where
  "classify_provider_retry_class e =
     (case e of
        ProviderStream detail \<Rightarrow> retry_class_of_kind (detail_kind detail)
      | Connection _ status_code \<Rightarrow> retry_class_of_status status_code
      | _ \<Rightarrow> RetryNonRetryable)"

definition is_retryable_provider_stream_error :: "ProviderConfigError \<Rightarrow> bool" where
  "is_retryable_provider_stream_error e = class_is_retryable (classify_provider_retry_class e)"

definition should_retry_provider_stream_error :: "ProviderConfigError \<Rightarrow> u32 \<Rightarrow> u32 \<Rightarrow> bool" where
  "should_retry_provider_stream_error e attempt_count max_attempts \<longleftrightarrow>
     attempt_count < max_attempts \<and> is_retryable_provider_stream_error e"

definition provider_retry_decision :: "ProviderConfigError \<Rightarrow> u32 \<Rightarrow> u32 \<Rightarrow> ProviderRetryDecision" where
  "provider_retry_decision e attempt_count max_attempts =
     (let c = classify_provider_retry_class e
      in \<lparr>decision_class = c,
          decision_retryable = (attempt_count < max_attempts \<and> class_is_retryable c)\<rparr>)"

definition broker_retry_codes :: "rstr list" where
  "broker_retry_codes = map lit [''provider_error'', ''provider_stream_error'', ''stream_error'',
     ''stream_interrupted'', ''stream_incomplete'', ''empty_completion'']"

definition should_retry_remote_broker_failure :: "rstr \<Rightarrow> bool \<Rightarrow> u32 \<Rightarrow> u32 \<Rightarrow> bool" where
  "should_retry_remote_broker_failure code retryable attempt_count max_attempts \<longleftrightarrow>
     attempt_count < max_attempts \<and> retryable \<and> code \<in> set broker_retry_codes"

text \<open>\<open>u16::try_from\<close> on an \<open>i64\<close>.\<close>

definition u16_of_i64 :: "int \<Rightarrow> nat option" where
  "u16_of_i64 n = (if 0 \<le> n \<and> n < 2 ^ 16 then Some (nat n) else None)"

definition classify_remote_broker_retry_class :: "rstr \<Rightarrow> bool \<Rightarrow> int option \<Rightarrow> rstr option
    \<Rightarrow> rstr option \<Rightarrow> rstr option \<Rightarrow> rstr \<Rightarrow> ProviderRetryClass" where
  "classify_remote_broker_retry_class code retryable_flag status_code failure_kind provider_code
      provider_type message =
     (case failure_kind of
        Some kind \<Rightarrow>
          if kind = lit ''capacity'' then RetryCapacity
          else if kind = lit ''rate_limit'' then RetryRateLimit
          else if kind = lit ''server_error'' \<or> kind = lit ''transient_server'' then RetryTransientServer
          else if kind = lit ''network'' then RetryNetwork
          else RetryNonRetryable
      | None \<Rightarrow>
          (let status = Option.bind status_code u16_of_i64;
               structured = classify_provider_stream_failure_kind provider_code provider_type message status
           in if structured \<noteq> Other then retry_class_of_kind structured
              else if \<not> retryable_flag then RetryNonRetryable
              else if code \<notin> set broker_retry_codes then RetryNonRetryable
              else retry_class_of_status status))"

section \<open>Waiting times\<close>

definition nanos_per_sec :: nat where "nanos_per_sec = 1000000000"

definition PROVIDER_RETRY_BACKOFF_CAP :: nat where
  "PROVIDER_RETRY_BACKOFF_CAP = 30 * nanos_per_sec"

definition PROVIDER_RETRY_BACKOFF_BASE_SECS :: u64 where "PROVIDER_RETRY_BACKOFF_BASE_SECS = 1"

text \<open>\<open>u64::checked_shl\<close>.\<close>

definition checked_shl64 :: "u64 \<Rightarrow> nat \<Rightarrow> u64 option" where
  "checked_shl64 x n = (if n < 64 then Some (push_bit n x) else None)"

definition sat_sub_u32 :: "u32 \<Rightarrow> u32 \<Rightarrow> u32" where
  "sat_sub_u32 a b = (if b \<le> a then a - b else 0)"

definition provider_retry_backoff_base :: "ProviderRetryClass \<Rightarrow> u32 \<Rightarrow> nat option" where
  "provider_retry_backoff_base c retry_ordinal =
     (if \<not> class_is_retryable c \<or> retry_ordinal = 0 then None
      else (let shift = min (unat (sat_sub_u32 retry_ordinal 1)) 63;
                shifted = (case checked_shl64 PROVIDER_RETRY_BACKOFF_BASE_SECS shift of
                             Some n \<Rightarrow> n | None \<Rightarrow> u64_MAX);
                secs = min (unat shifted) (PROVIDER_RETRY_BACKOFF_CAP div nanos_per_sec)
            in Some (secs * nanos_per_sec)))"

definition apply_full_jitter :: "nat \<Rightarrow> real \<Rightarrow> nat" where
  "apply_full_jitter base unit_sample =
     (if base = 0 then 0
      else (let sample = max 0 (min 1 unit_sample);
                nanos = nat (round (real base / 1000000000 * sample * 1000000000))
            in min nanos (2 ^ 64 - 1)))"

definition provider_retry_backoff ::
    "ProviderRetryClass \<Rightarrow> u32 \<Rightarrow> nat option \<Rightarrow> nat option \<Rightarrow> real \<Rightarrow> nat option" where
  "provider_retry_backoff c retry_ordinal retry_after remaining_deadline unit_sample =
     (if \<not> class_is_retryable c \<or> retry_ordinal = 0 then None
      else (case (case retry_after of
                    Some after \<Rightarrow> Some (min after PROVIDER_RETRY_BACKOFF_CAP)
                  | None \<Rightarrow> map_option (\<lambda>base. apply_full_jitter base unit_sample)
                      (provider_retry_backoff_base c retry_ordinal)) of
              None \<Rightarrow> None
            | Some wait \<Rightarrow>
                (case remaining_deadline of
                   None \<Rightarrow> Some wait
                 | Some remaining \<Rightarrow> if remaining = 0 then None else Some (min wait remaining))))"

definition provider_429_retry_backoff :: "nat option \<Rightarrow> u32 \<Rightarrow> nat option" where
  "provider_429_retry_backoff status_code retry_ordinal =
     (if status_code \<noteq> Some 429 then None else provider_retry_backoff_base RetryRateLimit retry_ordinal)"

definition provider_429_retry_backoff_i64 :: "int option \<Rightarrow> u32 \<Rightarrow> nat option" where
  "provider_429_retry_backoff_i64 status_code retry_ordinal =
     provider_429_retry_backoff (Option.bind status_code u16_of_i64) retry_ordinal"

text \<open>The sample that \<open>random_unit_sample\<close> makes of the bits of its hash.\<close>

definition unit_sample_of_bits :: "u64 \<Rightarrow> real" where
  "unit_sample_of_bits bits = (real (unat bits mod 10000) + 1) / 10001"

definition provider_retry_backoff_for_class_with_retry_after ::
    "u64 \<Rightarrow> ProviderRetryClass \<Rightarrow> u32 \<Rightarrow> nat option \<Rightarrow> nat option \<Rightarrow> nat option" where
  "provider_retry_backoff_for_class_with_retry_after bits c retry_ordinal retry_after remaining_deadline =
     provider_retry_backoff c retry_ordinal retry_after remaining_deadline (unit_sample_of_bits bits)"

definition provider_retry_backoff_for_class ::
    "u64 \<Rightarrow> ProviderRetryClass \<Rightarrow> u32 \<Rightarrow> nat option \<Rightarrow> nat option" where
  "provider_retry_backoff_for_class bits c retry_ordinal remaining_deadline =
     provider_retry_backoff_for_class_with_retry_after bits c retry_ordinal None remaining_deadline"

section \<open>Context compression\<close>

definition CONTEXT_COMPRESSION_MAX_RETRIES :: u32 where "CONTEXT_COMPRESSION_MAX_RETRIES = 2"

datatype ContextCompressionMode = ModeNormal | RequiredOverflow

datatype ContextCompressionFailureAction =
  ActionRetry | ContinueWithoutCompression | FailRequiredOverflow | ActionStop

record ContextCompressionRetryBudget =
  max_retries :: u32
  attempt_timeout :: nat

definition from_configured_retry_count :: "nat \<Rightarrow> u32 \<Rightarrow> ContextCompressionRetryBudget" where
  "from_configured_retry_count llm_request_timeout_ms configured_retry_count =
     \<lparr>max_retries = min configured_retry_count CONTEXT_COMPRESSION_MAX_RETRIES,
      attempt_timeout = llm_request_timeout_ms * 1000000\<rparr>"

text \<open>\<open>remaining\<close> and \<open>remaining_millis\<close> of an attempt's deadline after \<open>elapsed\<close>
  nanoseconds.\<close>

definition deadline_remaining :: "nat \<Rightarrow> nat \<Rightarrow> nat option" where
  "deadline_remaining limit elapsed = (if elapsed < limit then Some (limit - elapsed) else None)"

definition deadline_remaining_millis :: "nat \<Rightarrow> nat \<Rightarrow> nat option" where
  "deadline_remaining_millis limit elapsed =
     map_option (\<lambda>remaining. max (min (remaining div 1000000) (2 ^ 64 - 1)) 1) (deadline_remaining limit elapsed)"

definition sat_add_u32 :: "u32 \<Rightarrow> u32 \<Rightarrow> u32" where
  "sat_add_u32 a b = (if unat a + unat b < 2 ^ 32 then a + b else - 1)"

definition compression_retry_backoff :: "u64 \<Rightarrow> ProviderRetryClass \<Rightarrow> u32 \<Rightarrow> nat option \<Rightarrow> nat option" where
  "compression_retry_backoff bits c retries_used retry_after =
     provider_retry_backoff_for_class_with_retry_after bits c (sat_add_u32 retries_used 1) retry_after None"

definition context_compression_failure_action :: "ContextCompressionMode \<Rightarrow> ProviderRetryClass \<Rightarrow> u32
    \<Rightarrow> ContextCompressionRetryBudget \<Rightarrow> bool \<Rightarrow> ContextCompressionFailureAction" where
  "context_compression_failure_action mode retry_class retries_used budget stop_requested =
     (if stop_requested then ActionStop
      else if class_is_retryable retry_class \<and> retries_used < max_retries budget then ActionRetry
      else (case mode of ModeNormal \<Rightarrow> ContinueWithoutCompression | RequiredOverflow \<Rightarrow> FailRequiredOverflow))"

text \<open>What the world answers to an attempt: the provider's summary or failure, whether a shutdown is
  requested then, the bits of the jitter, and whether the wait after it is cancelled.\<close>

record 's CompressionAttempt =
  attempt_result :: "(ProviderRetryClass \<times> nat option) + 's"
  shutdown_requested :: bool
  jitter_bits :: u64
  wait_cancelled :: bool

datatype 's CompressionOutcome = CompressionSummary 's | NotCompressed | CompressionFailed rstr

text \<open>The loop of \<open>ensure_llm_context_compression\<close>; it returns its outcome and the waits it
  made, one between two attempts.\<close>

function compression_loop :: "ContextCompressionMode \<Rightarrow> ContextCompressionRetryBudget
    \<Rightarrow> (nat \<Rightarrow> 's CompressionAttempt) \<Rightarrow> u32 \<Rightarrow> 's CompressionOutcome \<times> nat list" where
  "compression_loop mode budget att retries_used =
     (let a = att (unat retries_used)
      in case attempt_result a of
           Inr summary \<Rightarrow> (CompressionSummary summary, [])
         | Inl (retry_class, retry_after) \<Rightarrow>
             (let action = context_compression_failure_action mode retry_class retries_used budget
                    (shutdown_requested a);
                  retry_delay = (if action = ActionRetry
                    then compression_retry_backoff (jitter_bits a) retry_class retries_used retry_after
                    else None)
              in if action = ActionRetry \<and> retry_delay \<noteq> None then
                   (if wait_cancelled a
                    then (CompressionFailed (lit ''context compression summary was cancelled''), [])
                    else (let (r, waits) = compression_loop mode budget att (sat_add_u32 retries_used 1)
                          in (r, the retry_delay # waits)))
                 else if action = ContinueWithoutCompression then (NotCompressed, [])
                 else (CompressionFailed (lit ''context compression is required to fit the next provider request; the compression provider could not produce a checkpoint. Start a new chat or reduce the conversation before retrying.''), [])))"
  by pat_completeness auto

lemma failure_action_retry:
  "context_compression_failure_action mode c used budget stop = ActionRetry \<Longrightarrow>
     \<not> stop \<and> class_is_retryable c \<and> used < max_retries budget"
  by (auto simp: context_compression_failure_action_def split: if_splits ContextCompressionMode.splits)

lemma unat_sat_add_u32_less: "used < (m :: u32) \<Longrightarrow> unat (sat_add_u32 used 1) = Suc (unat used)"
proof -
  assume h: "used < m"
  then have "unat used < unat m" by (simp add: word_less_nat_alt)
  moreover have "unat m < 2 ^ 32" using unsigned_less [of m] by simp
  ultimately have lt: "unat used + 1 < 2 ^ 32" by simp
  then have "unat (used + 1) = unat used + 1" by (subst unat_word_ariths) simp
  with lt show ?thesis by (simp add: sat_add_u32_def)
qed

termination compression_loop
proof (relation "measure (\<lambda>(_, budget, _, used). unat (max_retries budget) - unat used)", goal_cases)
  case 1
  then show ?case by simp
next
  case (2 mode budget att used)
  then have lt: "used < max_retries budget"
    using failure_action_retry by (metis (no_types, lifting))
  then have "unat used < unat (max_retries budget)" by (simp add: word_less_nat_alt)
  with unat_sat_add_u32_less [OF lt] show ?case by simp
qed

declare compression_loop.simps [simp del]

section \<open>Lemmas\<close>

lemma unat_power64: "n < 64 \<Longrightarrow> unat (2 ^ n :: u64) = 2 ^ n"
proof -
  assume "n < 64"
  then have lt: "(2 :: nat) ^ n < 2 ^ 64" by (rule power_strict_increasing) simp
  have eq: "(2 ^ n :: u64) = of_nat (2 ^ n)" by simp
  show ?thesis unfolding eq unat_of_nat using lt by simp
qed

lemma backoff_base_eq:
  assumes "class_is_retryable c" and "n \<noteq> 0"
  shows "provider_retry_backoff_base c n = Some (min (2 ^ min (unat n - 1) 63) 30 * nanos_per_sec)"
proof -
  have "unat n \<noteq> 0" using assms(2) by (simp add: unat_eq_zero)
  then have one: "1 \<le> n" by (simp add: word_le_nat_alt)
  then have "unat (sat_sub_u32 n 1) = unat n - 1"
    by (simp add: sat_sub_u32_def unat_sub_if' word_le_nat_alt)
  moreover have "min (unat n - 1) 63 < 64" by simp
  ultimately show ?thesis using assms
    by (simp add: provider_retry_backoff_base_def Let_def checked_shl64_def unat_power64
        PROVIDER_RETRY_BACKOFF_BASE_SECS_def PROVIDER_RETRY_BACKOFF_CAP_def nanos_per_sec_def)
qed

lemma apply_full_jitter_le: "apply_full_jitter base x \<le> base"
proof (cases "base = 0")
  case False
  let ?s = "max 0 (min 1 x)"
  have "real base / 1000000000 * ?s * 1000000000 \<le> real base"
    by (simp add: mult_left_le)
  then have "round (real base / 1000000000 * ?s * 1000000000) \<le> round (real base)"
    by (rule round_mono)
  with False show ?thesis by (simp add: apply_full_jitter_def Let_def nat_le_iff min.coboundedI1)
qed (simp add: apply_full_jitter_def)

text \<open>The wait before it is cut to the remaining time.\<close>

definition raw_wait :: "u32 \<Rightarrow> nat option \<Rightarrow> real \<Rightarrow> nat" where
  "raw_wait n after x = (case after of Some a \<Rightarrow> min a PROVIDER_RETRY_BACKOFF_CAP
     | None \<Rightarrow> apply_full_jitter (min (2 ^ min (unat n - 1) 63) 30 * nanos_per_sec) x)"

lemma retry_backoff_cases:
  assumes "class_is_retryable c" and "n \<noteq> 0"
  shows "provider_retry_backoff c n after remaining x =
    (case remaining of None \<Rightarrow> Some (raw_wait n after x)
     | Some r \<Rightarrow> if r = 0 then None else Some (min (raw_wait n after x) r))"
  using assms by (simp add: provider_retry_backoff_def backoff_base_eq raw_wait_def split: option.split)

lemma unscheduled_iff:
  "provider_retry_backoff c n after remaining x = None \<longleftrightarrow>
     \<not> class_is_retryable c \<or> n = 0 \<or> remaining = Some 0"
proof (cases "class_is_retryable c \<and> n \<noteq> 0")
  case True
  then show ?thesis by (simp add: retry_backoff_cases split: option.split)
qed (auto simp: provider_retry_backoff_def)

lemma scheduled:
  assumes "provider_retry_backoff c n after remaining x = Some w"
  shows "w = (case remaining of None \<Rightarrow> raw_wait n after x | Some r \<Rightarrow> min (raw_wait n after x) r)"
proof -
  have "class_is_retryable c" "n \<noteq> 0" using assms unscheduled_iff by (metis option.distinct(1))+
  with assms show ?thesis by (simp add: retry_backoff_cases split: option.splits if_splits)
qed

lemma raw_wait_le_cap: "raw_wait n after x \<le> PROVIDER_RETRY_BACKOFF_CAP"
proof (cases after)
  case None
  have "min (2 ^ min (unat n - 1) 63) 30 * nanos_per_sec \<le> PROVIDER_RETRY_BACKOFF_CAP"
    by (simp add: PROVIDER_RETRY_BACKOFF_CAP_def)
  with None apply_full_jitter_le show ?thesis unfolding raw_wait_def by (auto intro: le_trans)
qed (simp add: raw_wait_def)

lemma raw_wait_doubles: "raw_wait n None x \<le> 2 ^ (unat n - 1) * nanos_per_sec"
proof -
  have "(2 :: nat) ^ min (unat n - 1) 63 \<le> 2 ^ (unat n - 1)" by (rule power_increasing) simp_all
  then have "min (2 ^ min (unat n - 1) 63) 30 * nanos_per_sec \<le> 2 ^ (unat n - 1) * nanos_per_sec"
    by (intro mult_le_mono1) (rule min.coboundedI1)
  from le_trans [OF apply_full_jitter_le this] show ?thesis unfolding raw_wait_def by simp
qed

lemma retry_backoff_le_cap:
  "provider_retry_backoff c n after remaining x = Some w \<Longrightarrow> w \<le> PROVIDER_RETRY_BACKOFF_CAP"
  using scheduled raw_wait_le_cap by (metis min.coboundedI1 option.case_eq_if)

section \<open>Properties\<close>

text \<open>C39: the wait before a retry is bounded and honours the provider and the deadline. A wait is
  scheduled exactly for a retryable class, a retry ordinal from one on and a deadline that has not
  passed; it is never longer than thirty seconds nor than the time that remains; a delay demanded
  by the provider is kept up to those bounds; without one the wait is at most one second doubled at
  every retry, and the shift never overflows.\<close>

theorem retry_backoff_bounds:
  "(provider_retry_backoff c n after remaining x = None \<longleftrightarrow>
      \<not> class_is_retryable c \<or> n = 0 \<or> remaining = Some 0)
   \<and> (\<forall>w. provider_retry_backoff c n after remaining x = Some w \<longrightarrow>
        w \<le> PROVIDER_RETRY_BACKOFF_CAP
      \<and> (\<forall>r. remaining = Some r \<longrightarrow> w \<le> r)
      \<and> (\<forall>a. after = Some a \<longrightarrow> w = min (min a PROVIDER_RETRY_BACKOFF_CAP)
            (case remaining of None \<Rightarrow> PROVIDER_RETRY_BACKOFF_CAP | Some r \<Rightarrow> r))
      \<and> (after = None \<longrightarrow> w \<le> 2 ^ (unat n - 1) * nanos_per_sec))"
proof -
  have "w = min (min a PROVIDER_RETRY_BACKOFF_CAP)
        (case remaining of None \<Rightarrow> PROVIDER_RETRY_BACKOFF_CAP | Some r \<Rightarrow> r)"
    if "provider_retry_backoff c n (Some a) remaining x = Some w" for a w
    using scheduled [OF that] by (simp add: raw_wait_def split: option.split)
  moreover have "w \<le> 2 ^ (unat n - 1) * nanos_per_sec"
    if "provider_retry_backoff c n None remaining x = Some w" for w
    using scheduled [OF that] raw_wait_doubles [of n x] by (auto intro: le_trans split: option.splits)
  moreover have "w \<le> r" if "provider_retry_backoff c n after (Some r) x = Some w" for w r
    using scheduled [OF that] by simp
  ultimately show ?thesis
    using unscheduled_iff [of c n after remaining x] retry_backoff_le_cap [of c n after remaining x] by blast
qed

theorem retry_backoff_bounds_witness:
  "provider_retry_backoff RetryRateLimit 3 (Some (40 * nanos_per_sec)) (Some (10 * nanos_per_sec)) 1
     = Some (10 * nanos_per_sec)"
proof -
  have "provider_retry_backoff RetryRateLimit 3 (Some (40 * nanos_per_sec)) (Some (10 * nanos_per_sec)) 1 \<noteq> None"
    by (simp add: unscheduled_iff class_is_retryable_def nanos_per_sec_def)
  with retry_backoff_bounds [of RetryRateLimit 3 "Some (40 * nanos_per_sec)" "Some (10 * nanos_per_sec)" 1]
  show ?thesis by (auto simp: PROVIDER_RETRY_BACKOFF_CAP_def nanos_per_sec_def)
qed

text \<open>the local host and the remote broker decide alike. A failure whose kind or whose retry
  class was sent by name over the wire is classified by the receiver as the sender would have
  classified it, whatever the other fields say; and a failure without a kind that the structured
  fields do not explain, but that the sender marks as retryable, is classified by its status like a
  local connection error.\<close>

theorem remote_retry_class_agrees:
  "classify_remote_broker_retry_class code flag status (Some (failure_kind_as_str (detail_kind d))) pc pt msg
     = classify_provider_retry_class (ProviderStream d)
   \<and> classify_remote_broker_retry_class code flag status (Some (retry_class_as_str cls)) pc pt msg = cls
   \<and> classify_remote_broker_retry_class code flag (map_option int st) None pc pt msg
     = (if classify_provider_stream_failure_kind pc pt msg (Option.bind (map_option int st) u16_of_i64) = Other
        then (if flag \<and> code \<in> set broker_retry_codes
              then classify_provider_retry_class
                     (Connection msg (Option.bind (map_option int st) u16_of_i64))
              else RetryNonRetryable)
        else classify_provider_retry_class (ProviderStream (d\<lparr>detail_kind :=
          classify_provider_stream_failure_kind pc pt msg (Option.bind (map_option int st) u16_of_i64)\<rparr>)))"
proof (intro conjI)
  show "classify_remote_broker_retry_class code flag status (Some (failure_kind_as_str (detail_kind d))) pc pt msg
     = classify_provider_retry_class (ProviderStream d)"
    by (cases "detail_kind d")
      (simp_all add: classify_remote_broker_retry_class_def classify_provider_retry_class_def
        retry_class_of_kind_def)
  show "classify_remote_broker_retry_class code flag status (Some (retry_class_as_str cls)) pc pt msg = cls"
    by (cases cls) (simp_all add: classify_remote_broker_retry_class_def)
qed (simp add: classify_remote_broker_retry_class_def classify_provider_retry_class_def Let_def)

text \<open>What the last attempt of a loop means for its outcome.\<close>

definition outcome_of_last :: "ContextCompressionMode \<Rightarrow> 's CompressionAttempt \<Rightarrow> 's CompressionOutcome \<Rightarrow> bool" where
  "outcome_of_last mode a out \<longleftrightarrow>
     (case attempt_result a of
        Inr s \<Rightarrow> out = CompressionSummary s
      | Inl _ \<Rightarrow> (\<nexists>s. out = CompressionSummary s)
          \<and> (mode = RequiredOverflow \<longrightarrow> out \<noteq> NotCompressed)
          \<and> (mode = ModeNormal \<and> \<not> shutdown_requested a \<and> \<not> wait_cancelled a \<longrightarrow> out = NotCompressed))"

text \<open>An attempt that is followed by another one.\<close>

definition retried :: "'s CompressionAttempt \<Rightarrow> bool" where
  "retried a \<longleftrightarrow> (\<exists>c after. attempt_result a = Inl (c, after) \<and> class_is_retryable c)
     \<and> \<not> shutdown_requested a \<and> \<not> wait_cancelled a"

lemma compression_loop_spec:
  assumes "compression_loop mode budget att used = (out, waits)" and "used \<le> max_retries budget"
  shows "unat used + length waits \<le> unat (max_retries budget)
    \<and> (\<forall>w \<in> set waits. w \<le> PROVIDER_RETRY_BACKOFF_CAP)
    \<and> (\<forall>i < length waits. retried (att (unat used + i)))
    \<and> outcome_of_last mode (att (unat used + length waits)) out"
  using assms
proof (induction mode budget att used arbitrary: out waits rule: compression_loop.induct)
  case (1 mode budget att used)
  let ?a = "att (unat used)"
  show ?case
  proof (cases "attempt_result ?a")
    case (Inr s)
    with "1.prems" have "out = CompressionSummary s \<and> waits = []"
      by (subst (asm) compression_loop.simps) simp
    with Inr "1.prems"(2) show ?thesis by (simp add: word_le_nat_alt outcome_of_last_def)
  next
    case (Inl e)
    obtain c after where e: "e = (c, after)" by (cases e)
    let ?act = "context_compression_failure_action mode c used budget (shutdown_requested ?a)"
    show ?thesis
    proof (cases "?act = ActionRetry")
      case False
      then have "out = (if ?act = ContinueWithoutCompression then NotCompressed else out) \<and> waits = []
          \<and> (\<nexists>s. out = CompressionSummary s) \<and> (?act \<noteq> ContinueWithoutCompression \<longrightarrow> out \<noteq> NotCompressed)"
        using "1.prems"(1) Inl e by (subst (asm) compression_loop.simps) (auto split: if_splits)
      with False Inl e "1.prems"(2) show ?thesis
        by (auto simp: context_compression_failure_action_def word_le_nat_alt outcome_of_last_def
            split: if_splits ContextCompressionMode.splits)
    next
      case True
      note r = failure_action_retry [OF True]
      have nz: "sat_add_u32 used 1 \<noteq> 0"
        using unat_sat_add_u32_less [of used "max_retries budget"] r by (metis nat.distinct(1) unat_0)
      then obtain w where w: "compression_retry_backoff (jitter_bits ?a) c used after = Some w"
        using unscheduled_iff r
        by (metis compression_retry_backoff_def option.exhaust option.simps(3)
            provider_retry_backoff_for_class_with_retry_after_def)
      show ?thesis
      proof (cases "wait_cancelled ?a")
        case True
        with \<open>?act = ActionRetry\<close> have "out = CompressionFailed (lit ''context compression summary was cancelled'')"
          "waits = []" using "1.prems"(1) Inl e w by (subst (asm) compression_loop.simps, simp)+
        with Inl e True "1.prems"(2) show ?thesis by (auto simp: word_le_nat_alt outcome_of_last_def)
      next
        case False
        obtain out' waits' where rec: "compression_loop mode budget att (sat_add_u32 used 1) = (out', waits')"
          by fastforce
        have "out = out'" "waits = w # waits'"
          using "1.prems"(1) Inl e w False \<open>?act = ActionRetry\<close> rec
          by (subst (asm) compression_loop.simps, simp)+
        moreover have used: "unat (sat_add_u32 used 1) = Suc (unat used)"
          using unat_sat_add_u32_less r by blast
        moreover have "sat_add_u32 used 1 \<le> max_retries budget"
          using r used by (simp add: word_le_nat_alt word_less_nat_alt)
        moreover have "w \<le> PROVIDER_RETRY_BACKOFF_CAP"
          using w retry_backoff_le_cap
          by (auto simp: compression_retry_backoff_def provider_retry_backoff_for_class_with_retry_after_def)
        ultimately show ?thesis
          using "1.IH" [OF refl Inl e [symmetric] refl refl _ False rec] True w r Inl e False
          by (auto simp: less_Suc_eq_0_disj retried_def)
      qed
    qed
  qed
qed

text \<open>The loop looks at one attempt more than it waits, and at no other.\<close>

lemma compression_loop_local:
  assumes "compression_loop mode budget att used = (out, waits)"
    and "\<forall>i \<le> length waits. att' (unat used + i) = att (unat used + i)"
  shows "compression_loop mode budget att' used = (out, waits)"
  using assms
proof (induction mode budget att used arbitrary: out waits rule: compression_loop.induct)
  case (1 mode budget att used)
  let ?a = "att (unat used)"
  have a: "att' (unat used) = ?a" using "1.prems"(2) by (metis add.right_neutral le0)
  show ?case
  proof (cases "attempt_result ?a")
    case (Inr s)
    with "1.prems"(1) show ?thesis
      by (subst compression_loop.simps, subst (asm) compression_loop.simps) (simp add: a)
  next
    case (Inl e)
    obtain c after where e: "e = (c, after)" by (cases e)
    let ?act = "context_compression_failure_action mode c used budget (shutdown_requested ?a)"
    let ?delay = "compression_retry_backoff (jitter_bits ?a) c used after"
    show ?thesis
    proof (cases "?act = ActionRetry \<and> ?delay \<noteq> None \<and> \<not> wait_cancelled ?a")
      case False
      with "1.prems"(1) Inl e show ?thesis
        by (subst compression_loop.simps, subst (asm) compression_loop.simps) (auto simp: a Let_def split: if_splits)
    next
      case True
      then obtain w where w: "?delay = Some w" by blast
      obtain out' waits' where rec: "compression_loop mode budget att (sat_add_u32 used 1) = (out', waits')" by fastforce
      have result: "out = out'" "waits = w # waits'"
        using "1.prems"(1) Inl e w True rec by (subst (asm) compression_loop.simps, simp)+
      have used: "unat (sat_add_u32 used 1) = Suc (unat used)"
        using unat_sat_add_u32_less failure_action_retry True by blast
      have "\<forall>i \<le> length waits'. att' (unat (sat_add_u32 used 1) + i) = att (unat (sat_add_u32 used 1) + i)"
        using "1.prems"(2) by (auto simp: result used dest: spec [where x = "Suc _"])
      with "1.IH" [OF refl Inl e [symmetric] refl refl _ _ rec] True
      have "compression_loop mode budget att' (sat_add_u32 used 1) = (out', waits')" by simp
      with Inl e w True result show ?thesis by (subst compression_loop.simps) (simp add: a)
    qed
  qed
qed

text \<open>C38: the loop of compression attempts ends after at most two waits and three attempts. Whatever
  the provider answers, the loop makes one attempt more than it waits (its result depends on these
  attempts and on no later one) and waits at most as often as configured and never more than twice,
  each time at most thirty seconds; it retries only failures of a retryable class while no shutdown is
  requested; its outcome is that of the last attempt: the summary when there is one, otherwise the
  unchanged context when compression was optional and never when it was required. An attempt is one run
  of \<open>llm_context_compression_summary\<close>, which may send several requests; their number is not
  bounded here.\<close>

theorem compression_attempts_bounded:
  assumes "compression_loop mode (from_configured_retry_count timeout configured) att 0 = (out, waits)"
  shows "length waits \<le> min (unat configured) 2 \<and> (\<forall>w \<in> set waits. w \<le> PROVIDER_RETRY_BACKOFF_CAP)
    \<and> (\<forall>i < length waits. retried (att i)) \<and> outcome_of_last mode (att (length waits)) out
    \<and> (\<forall>att'. (\<forall>i \<le> length waits. att' i = att i) \<longrightarrow>
         compression_loop mode (from_configured_retry_count timeout configured) att' 0 = (out, waits))"
proof -
  have "unat (max_retries (from_configured_retry_count timeout configured)) = min (unat configured) 2"
    by (simp add: from_configured_retry_count_def CONTEXT_COMPRESSION_MAX_RETRIES_def min_def word_le_nat_alt)
  then show ?thesis using compression_loop_spec [OF assms] compression_loop_local [OF assms] by simp
qed

theorem compression_attempts_bounded_witness:
  "\<exists>out waits. compression_loop ModeNormal (from_configured_retry_count 1000 9)
      (\<lambda>_. \<lparr>attempt_result = Inl (RetryNetwork, None), shutdown_requested = False, jitter_bits = 0,
            wait_cancelled = False\<rparr> :: unit CompressionAttempt) 0 = (out, waits)
    \<and> length waits \<le> 2 \<and> out = NotCompressed"
proof -
  let ?att = "\<lambda>_ :: nat. \<lparr>attempt_result = Inl (RetryNetwork, None), shutdown_requested = False,
    jitter_bits = 0, wait_cancelled = False\<rparr> :: unit CompressionAttempt"
  obtain out waits where run: "compression_loop ModeNormal (from_configured_retry_count 1000 9) ?att 0 = (out, waits)"
    by fastforce
  from compression_attempts_bounded [OF run] have "length waits \<le> 2" "out = NotCompressed"
    by (simp_all add: outcome_of_last_def)
  with run show ?thesis by blast
qed

text \<open>An exhausted quota that is reported with status 429 is retried, although the classification
  means to exclude it.\<close>

lemma quota_exhaustion_with_429_retried:
  "should_retry_provider_stream_error (ProviderStream \<lparr>detail_message = lit ''You exceeded your current quota'',
       detail_status_code = Some 429,
       detail_kind = classify_provider_stream_failure_kind (Some (lit ''insufficient_quota'')) None
         (lit ''You exceeded your current quota'') (Some 429),
       detail_code = None, detail_error_type = None, detail_param = None, detail_event_type = None,
       detail_diagnostic_kind = None, detail_model_id = None, detail_adapter = None\<rparr>) 0 1"
  by (simp add: should_retry_provider_stream_error_def is_retryable_provider_stream_error_def
      classify_provider_retry_class_def classify_provider_stream_failure_kind_def contains_any_def
      retry_class_of_kind_def class_is_retryable_def auth_words_def permission_words_def
      context_words_def parse_words_def str_or_empty_def to_ascii_lowercase_def lit_def starts_with_def)

end
