(* ===== verification/Spec_Patch.thy ===== *)
theory Spec_Patch
  imports Foco_Prelude
begin

text \<open>
  Ordered exact-text edits of the Project Spec (\<open>tools/spec_patch.rs\<close>). The matches are found at
  character positions, one per character of the content. The reference speaks of decompositions of
  the text around the only occurrence of the searched text.
\<close>

record SpecTextEdit =
  old_text :: rstr
  new_text :: rstr

datatype SpecPatchError =
  EmptyEdits | EmptyOldText nat | NotFound nat | AmbiguousMatch nat | NoChange

fun spec_patch_error_message :: "SpecPatchError \<Rightarrow> rstr" where
  "spec_patch_error_message EmptyEdits = lit ''edits must contain at least one edit''"
| "spec_patch_error_message (EmptyOldText i) =
     lit ''edits['' @ nat_display i @ lit ''].oldText must not be empty''"
| "spec_patch_error_message (NotFound i) =
     lit ''edits['' @ nat_display i @ lit ''].oldText was not found in the current Project Spec''"
| "spec_patch_error_message (AmbiguousMatch i) =
     lit ''edits['' @ nat_display i @ lit ''].oldText matched more than once in the current Project Spec''"
| "spec_patch_error_message NoChange = lit ''edits must change the Project Spec content''"

definition match_starts :: "rstr \<Rightarrow> rstr \<Rightarrow> nat list" where
  "match_starts content old = filter (\<lambda>i. starts_with (drop i content) old) [0..<length content]"

fun edits_loop :: "rstr \<Rightarrow> nat \<Rightarrow> SpecTextEdit list \<Rightarrow> SpecPatchError + rstr" where
  "edits_loop content index [] = Inr content"
| "edits_loop content index (e # es) =
     (if old_text e = [] then Inl (EmptyOldText index)
      else (case match_starts content (old_text e) of
              [] \<Rightarrow> Inl (NotFound index)
            | [match_start] \<Rightarrow>
                edits_loop (take match_start content @ new_text e
                    @ drop (match_start + length (old_text e)) content) (Suc index) es
            | _ \<Rightarrow> Inl (AmbiguousMatch index)))"

definition apply_spec_text_edits :: "rstr \<Rightarrow> SpecTextEdit list \<Rightarrow> SpecPatchError + rstr" where
  "apply_spec_text_edits current_content edits =
     (if edits = [] then Inl EmptyEdits
      else (case edits_loop current_content 0 edits of
              Inl e \<Rightarrow> Inl e
            | Inr content \<Rightarrow> if content = current_content then Inl NoChange else Inr content))"

section \<open>Reference\<close>

text \<open>The positions at which a text occurs, and an edit that replaces the only occurrence.\<close>

definition occurrences :: "rstr \<Rightarrow> rstr \<Rightarrow> nat set" where
  "occurrences content old = {length a | a. \<exists>b. content = a @ old @ b}"

inductive edited :: "rstr \<Rightarrow> SpecTextEdit list \<Rightarrow> rstr \<Rightarrow> bool" where
  edited_Nil: "edited s [] s"
| edited_Cons: "old_text e \<noteq> [] \<Longrightarrow> occurrences (a @ old_text e @ b) (old_text e) = {length a} \<Longrightarrow>
     edited (a @ new_text e @ b) es s \<Longrightarrow> edited (a @ old_text e @ b) (e # es) s"

inductive_cases edited_NilE: "edited s [] t"
inductive_cases edited_ConsE: "edited s (e # es) t"

section \<open>Lemmas\<close>

lemma occurrences_iff: "i \<in> occurrences content old \<longleftrightarrow> i \<le> length content \<and> starts_with (drop i content) old"
proof
  assume "i \<in> occurrences content old"
  then show "i \<le> length content \<and> starts_with (drop i content) old"
    by (auto simp: occurrences_def starts_with_iff)
next
  assume h: "i \<le> length content \<and> starts_with (drop i content) old"
  then obtain b where "drop i content = old @ b" by (auto simp: starts_with_iff)
  then have "content = take i content @ old @ b" by (metis append_take_drop_id)
  moreover have "length (take i content) = i" using h by simp
  ultimately show "i \<in> occurrences content old" unfolding occurrences_def mem_Collect_eq by metis
qed

lemma set_match_starts: "old \<noteq> [] \<Longrightarrow> set (match_starts content old) = occurrences content old"
proof -
  assume ne: "old \<noteq> []"
  have "starts_with (drop (length content) content) old = False" using ne by (simp add: starts_with_def)
  then show ?thesis by (auto simp: match_starts_def occurrences_iff less_le)
qed

lemma distinct_match_starts: "distinct (match_starts content old)"
  by (simp add: match_starts_def)

lemma match_starts_single:
  assumes "old \<noteq> []"
  shows "match_starts content old = [i] \<longleftrightarrow> occurrences content old = {i}"
proof
  assume "occurrences content old = {i}"
  with set_match_starts [OF assms, of content] have s: "set (match_starts content old) = {i}" by simp
  have "length (match_starts content old) = 1"
    using distinct_card [OF distinct_match_starts, of content old] unfolding s by simp
  with s show "match_starts content old = [i]" by (cases "match_starts content old") auto
qed (use set_match_starts [OF assms, of content] in auto)

lemma single_occurrence:
  assumes "occurrences content old = {i}"
  shows "content = take i content @ old @ drop (i + length old) content" and "length (take i content) = i"
proof -
  have "i \<in> occurrences content old" using assms by simp
  then obtain b where b: "i \<le> length content" "drop i content = old @ b"
    by (auto simp: occurrences_iff starts_with_iff)
  then have "drop (i + length old) content = b" by (metis add.commute append_eq_conv_conj drop_drop)
  with b show "content = take i content @ old @ drop (i + length old) content"
    by (metis append_take_drop_id)
  show "length (take i content) = i" using b by simp
qed

lemma edited_step:
  assumes "old_text e \<noteq> []" and "occurrences content (old_text e) = {i}"
  shows "edited content (e # es) s \<longleftrightarrow>
    edited (take i content @ new_text e @ drop (i + length (old_text e)) content) es s"
proof
  note c = single_occurrence [OF assms(2)]
  show "edited content (e # es) s"
    if "edited (take i content @ new_text e @ drop (i + length (old_text e)) content) es s"
    using edited_Cons [OF assms(1) _ that] assms(2) c by metis
  assume "edited content (e # es) s"
  then obtain a b where ab: "content = a @ old_text e @ b" "edited (a @ new_text e @ b) es s"
    "occurrences content (old_text e) = {length a}" by (auto elim: edited_ConsE)
  with assms(2) have "i = length a" by simp
  with ab show "edited (take i content @ new_text e @ drop (i + length (old_text e)) content) es s" by simp
qed

text \<open>Why an edit of a content is refused.\<close>

definition refuses :: "rstr \<Rightarrow> SpecTextEdit \<Rightarrow> nat \<Rightarrow> SpecPatchError \<Rightarrow> bool" where
  "refuses s e i err \<longleftrightarrow>
     (err = EmptyOldText i \<and> old_text e = [])
   \<or> (err = NotFound i \<and> old_text e \<noteq> [] \<and> occurrences s (old_text e) = {})
   \<or> (err = AmbiguousMatch i \<and> old_text e \<noteq> [] \<and> 2 \<le> card (occurrences s (old_text e)))"

lemma edits_loop_cases:
  assumes "old_text e \<noteq> []"
  shows "occurrences content (old_text e) = {} \<Longrightarrow> edits_loop content i (e # es) = Inl (NotFound i)"
    and "2 \<le> card (occurrences content (old_text e)) \<Longrightarrow> edits_loop content i (e # es) = Inl (AmbiguousMatch i)"
    and "occurrences content (old_text e) = {k} \<Longrightarrow> edits_loop content i (e # es) =
      edits_loop (take k content @ new_text e @ drop (k + length (old_text e)) content) (Suc i) es"
proof -
  note ms = set_match_starts [OF assms, of content]
  show "edits_loop content i (e # es) = Inl (NotFound i)" if "occurrences content (old_text e) = {}"
    using that assms ms by simp
  show "edits_loop content i (e # es) = Inl (AmbiguousMatch i)" if "2 \<le> card (occurrences content (old_text e))"
  proof -
    have "2 \<le> length (match_starts content (old_text e))"
      using that ms distinct_card [OF distinct_match_starts, of content "old_text e"] by simp
    then show ?thesis using assms
      by (cases "match_starts content (old_text e)" rule: remdups_adj.cases) simp_all
  qed
  show "edits_loop content i (e # es) =
      edits_loop (take k content @ new_text e @ drop (k + length (old_text e)) content) (Suc i) es"
    if "occurrences content (old_text e) = {k}"
    using that assms match_starts_single [OF assms, of content k] by simp
qed

lemma occurrences_finite: "finite (occurrences content old)"
  by (rule finite_subset [of _ "{..length content}"]) (auto simp: occurrences_iff)

lemma occurrences_number:
  "occurrences content old = {} \<or> (\<exists>k. occurrences content old = {k}) \<or> 2 \<le> card (occurrences content old)"
proof (cases "card (occurrences content old)")
  case 0
  then show ?thesis using occurrences_finite by simp
next
  case (Suc n)
  then show ?thesis by (cases n) (auto simp: card_1_singleton_iff)
qed

lemma edits_loop_Inr: "edits_loop content i es = Inr s \<longleftrightarrow> edited content es s"
proof (induction es arbitrary: content i)
  case Nil
  then show ?case by (auto intro: edited_Nil elim: edited_NilE)
next
  case (Cons e es)
  show ?case
  proof (cases "old_text e \<noteq> [] \<and> (\<exists>k. occurrences content (old_text e) = {k})")
    case True
    then show ?thesis using edits_loop_cases(3) [of e content] edited_step [of e content] Cons.IH by auto
  next
    case False
    then have "\<not> edited content (e # es) s" by (auto elim!: edited_ConsE)
    moreover have "edits_loop content i (e # es) \<noteq> Inr s"
      using False occurrences_number [of content "old_text e"] edits_loop_cases(1,2) [of e content i es]
      by (cases "old_text e = []") auto
    ultimately show ?thesis by simp
  qed
qed

lemma edits_loop_Inl:
  "edits_loop content i es = Inl err \<Longrightarrow>
     \<exists>pre e post s. es = pre @ e # post \<and> edited content pre s \<and> refuses s e (i + length pre) err"
proof (induction es arbitrary: content i)
  case Nil
  then show ?case by simp
next
  case (Cons e es)
  show ?case
  proof (cases "old_text e \<noteq> [] \<and> (\<exists>k. occurrences content (old_text e) = {k})")
    case True
    then obtain k where k: "old_text e \<noteq> []" "occurrences content (old_text e) = {k}" by blast
    with Cons obtain pre e' post s where "es = pre @ e' # post"
      "edited (take k content @ new_text e @ drop (k + length (old_text e)) content) pre s"
      "refuses s e' (Suc i + length pre) err"
      using edits_loop_cases(3) [OF k, of i es] by metis
    with edited_step [OF k] show ?thesis
      by (intro exI [of _ "e # pre"] exI [of _ e'] exI [of _ post] exI [of _ s]) simp
  next
    case False
    then have "refuses content e i err"
      using Cons.prems occurrences_number [of content "old_text e"] edits_loop_cases(1,2) [of e content i es]
      by (cases "old_text e = []") (auto simp: refuses_def)
    then show ?thesis using edited_Nil by (metis add.right_neutral append_Nil list.size(3))
  qed
qed

section \<open>Properties\<close>

text \<open>C40: edits are applied exactly or not at all. A result is returned exactly when there is an edit,
  each edit in turn finds its text exactly once in the content left by the edits before it, and the
  outcome differs from the content at the start; the result is that outcome. Every refusal names its
  cause: no edits, no change, or the first edit that is empty, not found or ambiguous.\<close>

theorem spec_edits_exact:
  "(apply_spec_text_edits cur edits = Inr s \<longleftrightarrow> edits \<noteq> [] \<and> edited cur edits s \<and> s \<noteq> cur)
   \<and> (\<forall>err. apply_spec_text_edits cur edits = Inl err \<longrightarrow>
        (err = EmptyEdits \<and> edits = []) \<or> (err = NoChange \<and> edited cur edits cur)
      \<or> (\<exists>pre e post t. edits = pre @ e # post \<and> edited cur pre t \<and> refuses t e (length pre) err))"
proof (cases "edits = []")
  case True
  then show ?thesis by (simp add: apply_spec_text_edits_def)
next
  case False
  show ?thesis
  proof (cases "edits_loop cur 0 edits")
    case (Inl err)
    have "\<not> edited cur edits x" for x using edits_loop_Inr [of cur 0 edits x] Inl by simp
    moreover have "apply_spec_text_edits cur edits = Inl err"
      using False Inl by (simp add: apply_spec_text_edits_def)
    ultimately show ?thesis using edits_loop_Inl [OF Inl] by simp
  next
    case (Inr t)
    have ed: "edited cur edits x \<longleftrightarrow> t = x" for x using edits_loop_Inr [of cur 0 edits x] Inr by simp
    have "apply_spec_text_edits cur edits = (if t = cur then Inl NoChange else Inr t)"
      using False Inr by (simp add: apply_spec_text_edits_def)
    then show ?thesis using False by (cases "t = cur") (auto simp: ed)
  qed
qed

theorem spec_edits_exact_witness:
  "apply_spec_text_edits (lit ''aXb'') [\<lparr>old_text = lit ''X'', new_text = lit ''YY''\<rparr>] = Inr (lit ''aYYb'')
   \<and> edited (lit ''aXb'') [\<lparr>old_text = lit ''X'', new_text = lit ''YY''\<rparr>] (lit ''aYYb'')"
proof -
  have "apply_spec_text_edits (lit ''aXb'') [\<lparr>old_text = lit ''X'', new_text = lit ''YY''\<rparr>] = Inr (lit ''aYYb'')"
    by (simp add: apply_spec_text_edits_def match_starts_def starts_with_def lit_def upt_rec)
  with spec_edits_exact [of "lit ''aXb''" "[\<lparr>old_text = lit ''X'', new_text = lit ''YY''\<rparr>]"]
  show ?thesis by blast
qed

end
