(* ===== verification/Project_Spec.thy ===== *)
theory Project_Spec
  imports Spec_Patch Patch_Files Output_Budget
begin

text \<open>
  The Project Spec of a workspace: its row in the workspace database with the compare-and-set update
  (\<open>store/workspace.rs\<close>) and the tools \<open>read_spec\<close> and \<open>update_spec\<close>
  (\<open>tools/spec_tools.rs\<close>). The table holds at most one row; a transaction is one atomic step on
  it, and faults of SQLite are outside the model. A revision is stored as an \<open>i64\<close> that is never
  negative, here a natural number with the bound written out. The arguments are those that serde has
  parsed; the source reads the row once more after the commit to return it, and the model returns the row
  that the transaction wrote, so that a write in between shows in the source's answer and not here (the
  row itself is the same); the size of a serialised execution is a parameter, which may fail; times are inputs.
\<close>

section \<open>The row and its update\<close>

definition WORKSPACE_SPEC_MAX_MARKDOWN_BYTES :: nat where
  "WORKSPACE_SPEC_MAX_MARKDOWN_BYTES = 64 * 1024"

definition i64_MAX :: nat where "i64_MAX = 2 ^ 63 - 1"

record WorkspaceSpecRecord =
  spec_enabled :: bool
  spec_inject_enabled :: bool
  content_markdown :: rstr
  spec_revision :: nat
  generated_at :: "rstr option"
  updated_at :: rstr

type_synonym spec_db = "WorkspaceSpecRecord option"

definition invalid_workspace_spec :: "rstr \<Rightarrow> ToolRuntimeError" where
  "invalid_workspace_spec message = WorkspaceDatabaseError (lit ''invalid workspace spec: '' @ message)"

definition validate_markdown_size :: "rstr \<Rightarrow> ToolRuntimeError + unit" where
  "validate_markdown_size content =
     (if str_len content > WORKSPACE_SPEC_MAX_MARKDOWN_BYTES
      then Inl (invalid_workspace_spec (lit ''workspace spec Markdown is '' @ nat_display (str_len content)
             @ lit '' bytes, limit is '' @ nat_display WORKSPACE_SPEC_MAX_MARKDOWN_BYTES))
      else Inr ())"

definition upsert_workspace_spec_settings ::
    "rstr \<Rightarrow> bool \<Rightarrow> bool \<Rightarrow> spec_db \<Rightarrow> WorkspaceSpecRecord \<times> spec_db" where
  "upsert_workspace_spec_settings now enabled inject_enabled db =
     (let row = (case db of
         None \<Rightarrow> \<lparr>spec_enabled = enabled, spec_inject_enabled = inject_enabled, content_markdown = [],
                  spec_revision = 0, generated_at = None, updated_at = now\<rparr>
       | Some r \<Rightarrow> r\<lparr>spec_enabled := enabled, spec_inject_enabled := inject_enabled, updated_at := now\<rparr>)
      in (row, Some row))"

definition update_workspace_spec_content_inner ::
    "rstr \<Rightarrow> nat \<Rightarrow> rstr \<Rightarrow> bool \<Rightarrow> spec_db \<Rightarrow> (ToolRuntimeError + WorkspaceSpecRecord option) \<times> spec_db" where
  "update_workspace_spec_content_inner now expected_revision content generated db =
     (case validate_markdown_size content of
        Inl e \<Rightarrow> (Inl e, db)
      | Inr _ \<Rightarrow>
          if expected_revision > i64_MAX
          then (Inl (invalid_workspace_spec (lit ''revision is too large'')), db)
          else
            (case db of
               Some row \<Rightarrow>
                 if spec_revision row \<noteq> expected_revision then (Inr None, db)
                 else if spec_revision row + 1 > i64_MAX
                 then (Inl (invalid_workspace_spec (lit ''workspace spec revision is too large'')), db)
                 else (let row' = row\<lparr>content_markdown := content, spec_revision := spec_revision row + 1,
                             generated_at := (if generated then Some now else generated_at row),
                             updated_at := now\<rparr>
                       in (Inr (Some row'), Some row'))
             | None \<Rightarrow>
                 if expected_revision \<noteq> 0 then (Inr None, db)
                 else (let row' = \<lparr>spec_enabled = False, spec_inject_enabled = False,
                             content_markdown = content, spec_revision = 1,
                             generated_at = (if generated then Some now else None), updated_at = now\<rparr>
                       in (Inr (Some row'), Some row'))))"

definition update_workspace_spec_content ::
    "rstr \<Rightarrow> nat \<Rightarrow> rstr \<Rightarrow> spec_db \<Rightarrow> (ToolRuntimeError + WorkspaceSpecRecord option) \<times> spec_db" where
  "update_workspace_spec_content now expected_revision content db =
     update_workspace_spec_content_inner now expected_revision content False db"

definition update_workspace_spec_generated_content ::
    "rstr \<Rightarrow> nat \<Rightarrow> rstr \<Rightarrow> spec_db \<Rightarrow> (ToolRuntimeError + WorkspaceSpecRecord option) \<times> spec_db" where
  "update_workspace_spec_generated_content now expected_revision content db =
     update_workspace_spec_content_inner now expected_revision content True db"

section \<open>Responses\<close>

definition DEFAULT_SPEC_TOOL_TIMEOUT_MS :: nat where "DEFAULT_SPEC_TOOL_TIMEOUT_MS = 10000"

record ReadSpecInput =
  read_start_line :: "nat option"
  read_expected_revision :: "nat option"
  read_timeout_ms :: "nat option"

record UpdateSpecInput =
  upd_expected_revision :: nat
  upd_content_markdown :: "rstr option"
  upd_edits :: "SpecTextEdit list option"
  upd_timeout_ms :: "nat option"

definition base_spec_fields :: "WorkspaceSpecRecord \<Rightarrow> nat \<Rightarrow> json" where
  "base_spec_fields spec timeout_ms = JObj [(lit ''enabled'', JBool (spec_enabled spec)),
     (lit ''injectEnabled'', JBool (spec_inject_enabled spec)),
     (lit ''revision'', json_nat (spec_revision spec)),
     (lit ''generatedAt'', json_opt_str (generated_at spec)), (lit ''updatedAt'', JStr (updated_at spec)),
     (lit ''timeoutMs'', json_nat timeout_ms)]"

definition default_spec_fields :: "nat \<Rightarrow> json" where
  "default_spec_fields timeout_ms = JObj [(lit ''enabled'', JBool False), (lit ''injectEnabled'', JBool False),
     (lit ''revision'', json_nat 0), (lit ''generatedAt'', JNull), (lit ''updatedAt'', JNull),
     (lit ''timeoutMs'', json_nat timeout_ms)]"

definition revision_conflict :: ToolRuntimeError where
  "revision_conflict = InvalidArguments
     (lit ''workspace spec revision changed; call read_spec again before update_spec'')"

definition read_revision_conflict :: "nat \<Rightarrow> nat \<Rightarrow> ToolRuntimeError" where
  "read_revision_conflict expected current = InvalidArguments
     (lit ''workspace spec revision changed during read_spec continuation (expectedRevision='' @ nat_display expected
      @ lit '', currentRevision='' @ nat_display current
      @ lit ''); restart from the first page without startLine'')"

section \<open>Pages of the content\<close>

definition byte_suffix :: "nat \<Rightarrow> rstr \<Rightarrow> rstr" where
  "byte_suffix n s = drop (length (byte_prefix n s)) s"

text \<open>The visitor's state is \<open>start_byte\<close> and \<open>cursor\<close>.\<close>

definition slice_visit :: "nat \<Rightarrow> nat option \<times> nat \<Rightarrow> nat \<Rightarrow> rstr \<Rightarrow> bool \<times> nat option \<times> nat" where
  "slice_visit start_line st offset line =
     (if sat_add_usize offset 1 = start_line then (False, (Some (snd st), snd st))
      else (True, (fst st, sat_add_usize (snd st) (str_len line))))"

definition slice_content_from_line :: "rstr \<Rightarrow> nat \<Rightarrow> nat \<Rightarrow> ToolRuntimeError + rstr" where
  "slice_content_from_line content start_line total_lines =
     (if content = [] \<or> start_line > total_lines then Inr []
      else if start_line = 1 then Inr content
      else (case fst (for_each_complete_line content (slice_visit start_line) (None, 0)) of
              Some byte \<Rightarrow>
                if byte \<le> str_len content \<and> is_char_boundary content byte then Inr (byte_suffix byte content)
                else Inl (InvalidArguments
                       (lit ''read_spec startLine does not land on a UTF-8 character boundary''))
            | None \<Rightarrow> Inr []))"

definition json_byte_len :: "nat \<Rightarrow> nat" where
  "json_byte_len b = (if b \<in> {34, 92, 10, 13, 9} then 2 else if b \<le> 31 then 6 else 1)"

definition json_string_body_len :: "rstr \<Rightarrow> nat" where
  "json_string_body_len s = foldl (\<lambda>len b. sat_add_usize len (json_byte_len b)) 0 (str_bytes s)"

definition content_markdown_line_measure :: "nat \<Rightarrow> rstr \<Rightarrow> nat" where
  "content_markdown_line_measure line_no line = json_string_body_len line"

definition overhead_skeleton :: "json \<Rightarrow> nat \<Rightarrow> json" where
  "overhead_skeleton skeleton_base start_line =
     (let last_line_no = max (sat_add_usize start_line TOOL_OUTPUT_SOFT_LINE_LIMIT - 1) 1;
          next = sat_add_usize last_line_no 1;
          note = complete_line_prefix_note \<lparr>prefix_text = [], returned_lines = TOOL_OUTPUT_SOFT_LINE_LIMIT,
            last_returned_line = last_line_no, next_start_line = Some next, truncated = True,
            soft_budget_exceeded = False\<rparr>
      in json_set (lit ''note'') (JStr note)
           (json_set (lit ''nextStartLine'') (json_nat next)
             (json_set (lit ''lastReturnedLine'') (json_nat last_line_no)
               (json_set (lit ''returnedLines'') (json_nat TOOL_OUTPUT_SOFT_LINE_LIMIT)
                 (json_set (lit ''truncated'') (JBool True)
                   (json_set (lit ''contentMarkdown'') (JStr []) skeleton_base))))))"

definition measure_read_spec_response_overhead ::
    "envelope_measure \<Rightarrow> json \<Rightarrow> nat \<Rightarrow> ToolRuntimeError + nat" where
  "measure_read_spec_response_overhead serialized_json_size skeleton_base start_line =
     (case serialized_json_size \<lparr>tool_output = overhead_skeleton skeleton_base start_line,
             is_error = False\<rparr> of
        Inl e \<Rightarrow> Inl (InvalidArguments (lit ''read_spec: failed to measure response budget ('' @ e @ lit '')''))
      | Inr n \<Rightarrow> Inr n)"

definition page_note :: "CompleteLinePrefix \<Rightarrow> rstr" where
  "page_note p = complete_line_prefix_note p
     @ (if truncated p
        then lit '' Continue with the same expectedRevision as this page'' @ [39]
          @ lit ''s revision and startLine=nextStartLine.''
        else [])"

definition assemble_read_spec_response :: "json \<Rightarrow> rstr \<Rightarrow> CompleteLinePrefix \<Rightarrow> nat \<Rightarrow> json" where
  "assemble_read_spec_response base content p start_line =
     (let j1 = json_set (lit ''nextStartLine'')
                 (case next_start_line p of Some n \<Rightarrow> json_nat n | None \<Rightarrow> JNull)
                 (json_set (lit ''lastReturnedLine'') (json_nat (last_returned_line p))
                   (json_set (lit ''returnedLines'') (json_nat (returned_lines p))
                     (json_set (lit ''truncated'') (JBool (truncated p))
                       (json_set (lit ''startLine'') (json_nat start_line)
                         (json_set (lit ''contentMarkdown'') (JStr content) base)))));
          j2 = (if soft_budget_exceeded p then json_set (lit ''softBudgetExceeded'') (JBool True) j1 else j1)
      in if truncated p \<or> soft_budget_exceeded p then json_set (lit ''note'') (JStr (page_note p)) j2 else j2)"

definition peeled_prefix :: "nat \<Rightarrow> rstr \<Rightarrow> CompleteLinePrefix \<Rightarrow> CompleteLinePrefix" where
  "peeled_prefix start_line peeled p =
     (let last_line_no = max (last_returned_line p - 1) start_line
      in p\<lparr>prefix_text := peeled, returned_lines := returned_lines p - 1, last_returned_line := last_line_no,
           truncated := True, soft_budget_exceeded := False,
           next_start_line := Some (sat_add_usize last_line_no 1)\<rparr>)"

text \<open>The loop of \<open>fit_read_spec_response_to_envelope\<close> with the number of rounds that are left.\<close>

fun fit_loop :: "envelope_measure \<Rightarrow> json \<Rightarrow> nat \<Rightarrow> nat \<Rightarrow> CompleteLinePrefix \<Rightarrow> ToolRuntimeError + json" where
  "fit_loop serialized_json_size base start_line 0 p = Inl (InvalidArguments
     (lit ''read_spec: unable to fit response under the shared soft output budget''))"
| "fit_loop serialized_json_size base start_line (Suc rounds) p =
     (let response = assemble_read_spec_response base (prefix_text p) p start_line
      in case measure_tool_execution serialized_json_size \<lparr>tool_output = response, is_error = False\<rparr> of
           Inl e \<Rightarrow> Inl (InvalidArguments (lit ''read_spec: failed to measure response ('' @ e @ lit '')''))
         | Inr m \<Rightarrow>
             if serialized_bytes m \<le> TOOL_OUTPUT_SOFT_BYTE_LIMIT - TOOL_EXECUTION_ENVELOPE_RESERVE_BYTES
                \<and> text_lines m \<le> TOOL_OUTPUT_SOFT_LINE_LIMIT
             then Inr response
             else if serialized_bytes m > TOOL_EXECUTION_PAYLOAD_HARD_BYTE_LIMIT \<and> returned_lines p \<le> 1
             then Inl (InvalidArguments (lit ''read_spec: a single complete line exceeds the hard output ceiling (''
                    @ nat_display (serialized_bytes m) @ lit '' bytes measured; max ''
                    @ nat_display TOOL_EXECUTION_PAYLOAD_HARD_BYTE_LIMIT
                    @ lit '') and cannot be returned without splitting the line''))
             else if serialized_bytes m \<le> TOOL_EXECUTION_PAYLOAD_HARD_BYTE_LIMIT \<and> returned_lines p \<le> 1
             then (if truncated p then Inr response
                   else if \<not> soft_budget_exceeded p
                   then fit_loop serialized_json_size base start_line rounds
                          (p\<lparr>soft_budget_exceeded := True, next_start_line := None\<rparr>)
                   else Inr response)
             else (case peel_last_complete_line (prefix_text p) of
                     None \<Rightarrow> Inr response
                   | Some peeled \<Rightarrow>
                       if str_len peeled = str_len (prefix_text p) then Inr response
                       else (let p' = peeled_prefix start_line peeled p
                             in if returned_lines p' = 0
                                then Inl (InvalidArguments (lit ''read_spec: unable to fit any complete line under the shared soft output budget after accounting for metadata''))
                                else fit_loop serialized_json_size base start_line rounds p')))"

definition fit_read_spec_response_to_envelope ::
    "envelope_measure \<Rightarrow> json \<Rightarrow> nat \<Rightarrow> CompleteLinePrefix \<Rightarrow> ToolRuntimeError + json" where
  "fit_read_spec_response_to_envelope serialized_json_size base start_line p =
     fit_loop serialized_json_size base start_line
       (sat_add_usize TOOL_OUTPUT_SOFT_LINE_LIMIT 2 + 1) p"

definition read_spec_options :: "nat \<Rightarrow> nat \<Rightarrow> CompleteLineTruncateOptions" where
  "read_spec_options overhead start_line =
     \<lparr>soft_byte_limit = TOOL_OUTPUT_SOFT_BYTE_LIMIT - overhead - TOOL_EXECUTION_ENVELOPE_RESERVE_BYTES,
      soft_line_limit = max (TOOL_OUTPUT_SOFT_LINE_LIMIT - 4) 1,
      hard_byte_limit = max (TOOL_EXECUTION_PAYLOAD_HARD_BYTE_LIMIT - overhead) 1,
      content_start_line = start_line\<rparr>"

definition build_read_spec_page_response ::
    "envelope_measure \<Rightarrow> json \<Rightarrow> rstr \<Rightarrow> nat \<Rightarrow> ToolRuntimeError + json" where
  "build_read_spec_page_response serialized_json_size base page_content start =
     (if page_content = [] then
        Inr (assemble_read_spec_response base [] \<lparr>prefix_text = [], returned_lines = 0,
          last_returned_line = start, next_start_line = None, truncated = False,
          soft_budget_exceeded = False\<rparr> start)
      else
        (case measure_read_spec_response_overhead serialized_json_size base start of
           Inl e \<Rightarrow> Inl e
         | Inr overhead \<Rightarrow>
             (case truncate_to_complete_lines_with_measure page_content (read_spec_options overhead start)
                     content_markdown_line_measure of
                SingleLineExceedsHardLimit line_number line_bytes hard_limit_bytes \<Rightarrow>
                  Inl (InvalidArguments (lit ''read_spec: a single complete line (line '' @ nat_display line_number
                    @ lit '', '' @ nat_display line_bytes @ lit '' UTF-8 bytes in JSON string body) exceeds the hard output ceiling (''
                    @ nat_display hard_limit_bytes @ lit '' bytes) and cannot be returned without splitting the line''))
              | Full p \<Rightarrow> fit_read_spec_response_to_envelope serialized_json_size base start p
              | Truncated p \<Rightarrow> fit_read_spec_response_to_envelope serialized_json_size base start p)))"

section \<open>The tools\<close>

definition check_read_revision :: "ReadSpecInput \<Rightarrow> nat \<Rightarrow> ToolRuntimeError option" where
  "check_read_revision request revision =
     (case read_start_line request of
        Some start \<Rightarrow>
          (case read_expected_revision request of
             None \<Rightarrow> Some (InvalidArguments (lit ''read_spec continuation requires expectedRevision from the first page; startLine is set but expectedRevision is null''))
           | Some expected \<Rightarrow>
               if expected \<noteq> revision then Some (read_revision_conflict expected revision)
               else if start = 0
               then Some (InvalidArguments (lit ''startLine must be a positive 1-based line number''))
               else None)
      | None \<Rightarrow>
          (case read_expected_revision request of
             Some expected \<Rightarrow>
               if expected \<noteq> revision then Some (read_revision_conflict expected revision) else None
           | None \<Rightarrow> None))"

definition spec_content :: "spec_db \<Rightarrow> rstr" where
  "spec_content db = (case db of Some r \<Rightarrow> content_markdown r | None \<Rightarrow> [])"

definition db_revision :: "spec_db \<Rightarrow> nat" where
  "db_revision db = (case db of Some r \<Rightarrow> spec_revision r | None \<Rightarrow> 0)"

definition read_spec :: "envelope_measure \<Rightarrow> ReadSpecInput \<Rightarrow> spec_db \<Rightarrow> ToolRuntimeError + json" where
  "read_spec serialized_json_size request db =
     (case tool_timeout_ms (read_timeout_ms request) DEFAULT_SPEC_TOOL_TIMEOUT_MS of
        Inl e \<Rightarrow> Inl e
      | Inr timeout_ms \<Rightarrow>
          (case check_read_revision request (db_revision db) of
             Some e \<Rightarrow> Inl e
           | None \<Rightarrow>
               (let content = spec_content db;
                    start = max (case read_start_line request of Some n \<Rightarrow> n | None \<Rightarrow> 1) 1;
                    total_lines = complete_line_count content
                in case slice_content_from_line content start total_lines of
                     Inl e \<Rightarrow> Inl e
                   | Inr page_content \<Rightarrow>
                       (let response = (case db of Some r \<Rightarrow> base_spec_fields r timeout_ms
                                         | None \<Rightarrow> default_spec_fields timeout_ms)
                        in build_read_spec_page_response serialized_json_size
                             (json_set (lit ''startLine'') (json_nat start)
                               (json_set (lit ''totalBytes'') (json_nat (str_len content))
                                 (json_set (lit ''totalLines'') (json_nat total_lines) response)))
                             page_content start))))"

text \<open>\<open>object.remove(key)\<close>.\<close>

definition json_remove :: "rstr \<Rightarrow> json \<Rightarrow> json" where
  "json_remove key obj = (case obj of JObj kvs \<Rightarrow> JObj (filter (\<lambda>e. fst e \<noteq> key) kvs) | _ \<Rightarrow> obj)"

definition OMITTED_NOTE :: rstr where
  "OMITTED_NOTE = lit ''update_spec succeeded; contentMarkdown was omitted because the full body exceeds the shared soft output budget (~50KiB / 2,000 lines). Use read_spec with this revision (and startLine continuation when truncated) to load the stored markdown. Do not retry the same update_spec call.''"

definition omitted_response :: "json \<Rightarrow> json" where
  "omitted_response out = json_set (lit ''truncated'') (JBool False)
     (json_set (lit ''note'') (JStr OMITTED_NOTE)
       (json_set (lit ''contentOmitted'') (JBool True) (json_remove (lit ''contentMarkdown'') out)))"

definition fit_update_spec_success_response :: "envelope_measure \<Rightarrow> json \<Rightarrow> ToolRuntimeError + json" where
  "fit_update_spec_success_response serialized_json_size out =
     (case measure_tool_execution serialized_json_size \<lparr>tool_output = out, is_error = False\<rparr> of
        Inl e \<Rightarrow> Inl (InvalidArguments (lit ''update_spec: failed to measure response ('' @ e @ lit '')''))
      | Inr m \<Rightarrow>
          if serialized_bytes m \<le> TOOL_OUTPUT_SOFT_BYTE_LIMIT - TOOL_EXECUTION_ENVELOPE_RESERVE_BYTES
             \<and> text_lines m \<le> TOOL_OUTPUT_SOFT_LINE_LIMIT
          then Inr out
          else
            (case measure_tool_execution serialized_json_size
                    \<lparr>tool_output = omitted_response out, is_error = False\<rparr> of
               Inl e \<Rightarrow> Inl (InvalidArguments
                 (lit ''update_spec: failed to measure omitted response ('' @ e @ lit '')''))
             | Inr m' \<Rightarrow>
                 if serialized_bytes m' > TOOL_EXECUTION_PAYLOAD_HARD_BYTE_LIMIT
                 then Inl (InvalidArguments (lit ''update_spec: success metadata exceeds the hard output ceiling (''
                        @ nat_display (serialized_bytes m') @ lit '' bytes; max ''
                        @ nat_display TOOL_EXECUTION_PAYLOAD_HARD_BYTE_LIMIT @ lit '')''))
                 else Inr (omitted_response out)))"

definition new_spec_content ::
    "UpdateSpecInput \<Rightarrow> rstr \<Rightarrow> ToolRuntimeError + (rstr \<times> rstr \<times> nat)" where
  "new_spec_content request current_content =
     (let replacement = (case upd_content_markdown request of
            Some c \<Rightarrow> if trim c = [] then None else Some c | None \<Rightarrow> None)
      in case (upd_edits request, replacement) of
           (Some edits, None) \<Rightarrow>
             (case apply_spec_text_edits current_content edits of
                Inl e \<Rightarrow> Inl (InvalidArguments (spec_patch_error_message e))
              | Inr c \<Rightarrow> Inr (c, lit ''patch'', length edits))
         | (None, Some c) \<Rightarrow> Inr (c, lit ''fullReplacement'', 0)
         | (Some _, Some _) \<Rightarrow> Inl (InvalidArguments
             (lit ''provide exactly one of edits or contentMarkdown; both were provided''))
         | (None, None) \<Rightarrow> Inl (InvalidArguments
             (lit ''provide exactly one of edits or contentMarkdown; neither was provided'')))"

definition update_success_output ::
    "WorkspaceSpecRecord \<Rightarrow> nat \<Rightarrow> rstr \<Rightarrow> rstr \<Rightarrow> rstr \<Rightarrow> nat \<Rightarrow> json" where
  "update_success_output spec timeout_ms before content update_mode edit_count =
     json_set (lit ''contentOmitted'') (JBool False)
       (json_set (lit ''totalBytes'') (json_nat (str_len content))
         (json_set (lit ''totalLines'') (json_nat (complete_line_count content))
           (json_set (lit ''lineCountAfter'') (json_nat (complete_line_count content))
             (json_set (lit ''lineCountBefore'') (json_nat (complete_line_count before))
               (json_set (lit ''editCount'') (json_nat edit_count)
                 (json_set (lit ''updateMode'') (JStr update_mode)
                   (json_set (lit ''contentMarkdown'') (JStr content) (base_spec_fields spec timeout_ms))))))))"

text \<open>The tool reads the row, computes the new content and updates the row in a transaction of its
  own: \<open>update_spec_prepare\<close> is the part before the transaction, \<open>update_spec_commit\<close>
  the transaction and the response.\<close>

definition update_spec_prepare ::
    "UpdateSpecInput \<Rightarrow> spec_db \<Rightarrow> ToolRuntimeError + (nat \<times> rstr \<times> rstr \<times> rstr \<times> nat)" where
  "update_spec_prepare request db =
     (case tool_timeout_ms (upd_timeout_ms request) DEFAULT_SPEC_TOOL_TIMEOUT_MS of
        Inl e \<Rightarrow> Inl e
      | Inr timeout_ms \<Rightarrow>
          if db_revision db \<noteq> upd_expected_revision request then Inl revision_conflict
          else (case new_spec_content request (spec_content db) of
                  Inl e \<Rightarrow> Inl e
                | Inr (content, update_mode, edit_count) \<Rightarrow>
                    Inr (timeout_ms, spec_content db, content, update_mode, edit_count)))"

definition update_spec_commit :: "envelope_measure \<Rightarrow> rstr \<Rightarrow> nat \<Rightarrow> nat \<times> rstr \<times> rstr \<times> rstr \<times> nat
    \<Rightarrow> spec_db \<Rightarrow> (ToolRuntimeError + json) \<times> spec_db" where
  "update_spec_commit serialized_json_size now expected prepared db =
     (case prepared of (timeout_ms, before, content, update_mode, edit_count) \<Rightarrow>
        (case update_workspace_spec_content now expected content db of
           (Inl e, db') \<Rightarrow> (Inl e, db')
         | (Inr None, db') \<Rightarrow> (Inl revision_conflict, db')
         | (Inr (Some spec), db') \<Rightarrow>
             (fit_update_spec_success_response serialized_json_size
                (update_success_output spec timeout_ms before content update_mode edit_count), db')))"

definition update_spec ::
    "envelope_measure \<Rightarrow> rstr \<Rightarrow> UpdateSpecInput \<Rightarrow> spec_db \<Rightarrow> (ToolRuntimeError + json) \<times> spec_db" where
  "update_spec serialized_json_size now request db =
     (case update_spec_prepare request db of
        Inl e \<Rightarrow> (Inl e, db)
      | Inr prepared \<Rightarrow> update_spec_commit serialized_json_size now (upd_expected_revision request) prepared db)"

section \<open>Visitors of lines\<close>

lemma visit_slice:
  assumes "off < start" and "start \<le> off + length ls" and "cur + str_len (concat ls) \<le> usize_MAX"
    and "off + length ls \<le> usize_MAX"
  shows "fst (visit_lines (slice_visit start) off ls (None, cur))
    = Some (cur + str_len (concat (take (start - 1 - off) ls)))"
  using assms
proof (induction ls arbitrary: off cur)
  case Nil
  then show ?case by simp
next
  case (Cons l ls)
  have off: "sat_add_usize off (Suc 0) = Suc off" using Cons.prems(4) by (simp add: sat_add_usize_def)
  show ?case
  proof (cases "Suc off = start")
    case True
    then show ?thesis by (simp add: slice_visit_def off)
  next
    case False
    have cur: "sat_add_usize cur (str_len l) = cur + str_len l" using Cons.prems(3) by (simp add: sat_add_usize_def)
    have "start - 1 - off = Suc (start - 1 - Suc off)" using False Cons.prems(1) by simp
    with Cons.IH [of "Suc off" "cur + str_len l"] Cons.prems False show ?thesis
      by (simp add: slice_visit_def off cur add.assoc)
  qed
qed

lemma slice_content_eq:
  assumes "str_len content < usize_MAX" and "1 \<le> start"
  shows "slice_content_from_line content start (complete_line_count content)
    = Inr (concat (drop (start - 1) (complete_lines content)))"
proof -
  let ?ls = "complete_lines content"
  have count: "complete_line_count content = length ?ls" using complete_line_count_eq assms(1) by simp
  consider "content = [] \<or> length ?ls < start" | "content \<noteq> []" "start = 1"
    | "content \<noteq> []" "1 < start" "start \<le> length ?ls" using assms(2) by linarith
  then show ?thesis
  proof cases
    case 1
    then show ?thesis using count by (auto simp: slice_content_from_line_def)
  next
    case 2
    then have "?ls \<noteq> []" by (metis concat.simps(1) concat_complete_lines)
    with 2 show ?thesis using count by (simp add: slice_content_from_line_def)
  next
    case 3
    let ?k = "start - 1" and ?b = "str_len (concat (take (start - 1) ?ls))"
    have split: "content = concat (take ?k ?ls) @ concat (drop ?k ?ls)"
      by (metis append_take_drop_id concat_append concat_complete_lines)
    have "fst (for_each_complete_line content (slice_visit start) (None, 0)) = Some ?b"
      using visit_slice [of 0 start ?ls 0] 3 assms(1) complete_lines_few [of content]
      by (simp add: for_each_complete_line_def)
    moreover have "is_char_boundary content ?b"
      unfolding is_char_boundary_iff by (subst (1 3) split) (intro exI [of _ "length (concat (take ?k ?ls))"], simp)
    moreover have "?b \<le> str_len content" by (subst (2) split) simp
    moreover have "byte_suffix ?b content = concat (drop ?k ?ls)"
      by (subst (2) split) (simp add: byte_suffix_def)
    ultimately show ?thesis using 3 count by (simp add: slice_content_from_line_def)
  qed
qed

lemma visit_peel:
  assumes "prev \<le> e" and "e + str_len (concat ls) \<le> usize_MAX" and "c + length ls \<le> usize_MAX" and "ls \<noteq> []"
  shows "visit_lines (\<lambda>(prev_end, end_byte, count) _ line.
       (True, (end_byte, sat_add_usize end_byte (str_len line), sat_add_usize count 1))) off ls (prev, e, c)
     = (e + str_len (concat (butlast ls)), e + str_len (concat ls), c + length ls)"
  using assms
proof (induction ls arbitrary: off prev e c)
  case Nil
  then show ?case by simp
next
  case (Cons l ls)
  have n: "sat_add_usize e (str_len l) = e + str_len l" "sat_add_usize c (Suc 0) = Suc c"
    using Cons.prems(2,3) by (simp_all add: sat_add_usize_def)
  show ?case
  proof (cases "ls = []")
    case True
    then show ?thesis by (simp add: n)
  next
    case False
    with Cons.IH [of e "e + str_len l" "Suc c"] Cons.prems(2,3) show ?thesis by (simp add: n add.assoc)
  qed
qed

lemma peel_lines:
  assumes "ls = complete_lines s" and "str_len s < usize_MAX" and "2 \<le> length ls"
  shows "peel_last_complete_line s = Some (concat (butlast ls))"
proof -
  have s: "s = concat ls" "s \<noteq> []" "ls \<noteq> []" using assms by auto
  have few: "length ls \<le> usize_MAX" using complete_lines_few [of s] assms(1,2) by simp
  have "ls = butlast ls @ [last ls]" using s(3) by simp
  then have "concat ls = concat (butlast ls) @ last ls"
    by (metis append_Nil2 concat.simps concat_append)
  then have "byte_prefix (str_len (concat (butlast ls))) s = concat (butlast ls)"
    using byte_prefix_append [of "concat (butlast ls)" "last ls"] s(1) by simp
  moreover have "str_len (concat ls) \<le> usize_MAX" using assms(2) by (simp add: s(1) [symmetric])
  ultimately show ?thesis
    using visit_peel [of 0 0 ls 0 0, OF _ _ _ s(3)] s(2,3) assms(3) few
    by (simp add: peel_last_complete_line_def for_each_complete_line_def assms(1) [symmetric])
qed

section \<open>A page is a range of lines\<close>

text \<open>A prefix that describes the first lines of a page that starts at line \<open>start\<close>.\<close>

definition page_ok :: "nat \<Rightarrow> rstr list \<Rightarrow> CompleteLinePrefix \<Rightarrow> bool" where
  "page_ok start L p \<longleftrightarrow>
     (let k = returned_lines p
      in 1 \<le> k \<and> k \<le> length L \<and> prefix_text p = concat (take k L) \<and> last_returned_line p = start + k - 1
         \<and> truncated p = (k < length L) \<and> next_start_line p = (if k < length L then Some (start + k) else None))"

lemma page_ok_soft: "page_ok start L p \<Longrightarrow> \<not> truncated p \<Longrightarrow>
    page_ok start L (p\<lparr>soft_budget_exceeded := True, next_start_line := None\<rparr>)"
  by (auto simp: page_ok_def Let_def)

lemma page_ok_peel:
  assumes "page_ok start L p" and "2 \<le> returned_lines p" and "L = complete_lines page"
    and "str_len page < usize_MAX" and "1 \<le> start" and "start + length L < usize_MAX"
  shows "peel_last_complete_line (prefix_text p) = Some (concat (take (returned_lines p - 1) L))"
    and "page_ok start L (peeled_prefix start (concat (take (returned_lines p - 1) L)) p)"
proof -
  let ?k = "returned_lines p"
  have k: "?k \<le> length L" "prefix_text p = concat (take ?k L)" using assms(1) by (simp_all add: page_ok_def Let_def)
  have "str_len (concat (take ?k L)) \<le> str_len page"
    using concat_complete_lines [of page] assms(3)
    by (metis append_take_drop_id concat_append le_add1 str_len_append)
  then have "peel_last_complete_line (prefix_text p) = Some (concat (butlast (take ?k L)))"
    using peel_lines [of "take ?k L" "concat (take ?k L)"] complete_lines_take [of ?k page] assms(2-4) k by simp
  then show "peel_last_complete_line (prefix_text p) = Some (concat (take (?k - 1) L))"
    using k(1) by (simp add: butlast_take)
  show "page_ok start L (peeled_prefix start (concat (take (?k - 1) L)) p)"
    using assms(1,2,5,6) k by (auto simp: page_ok_def peeled_prefix_def Let_def sat_add_usize_def)
qed

lemma fit_loop_page:
  assumes "fit_loop sz base start rounds p = Inr out" and "page_ok start L p" and "L = complete_lines page"
    and "str_len page < usize_MAX" and "1 \<le> start" and "start + length L < usize_MAX"
  shows "\<exists>p'. page_ok start L p' \<and> out = assemble_read_spec_response base (prefix_text p') p' start"
  using assms(1,2)
proof (induction rounds arbitrary: p)
  case 0
  then show ?case by simp
next
  case (Suc rounds)
  let ?r = "assemble_read_spec_response base (prefix_text p) p start"
  show ?case
  proof (cases "out = ?r")
    case True
    with Suc.prems(2) show ?thesis by blast
  next
    case False
    show ?thesis
    proof (cases "returned_lines p \<le> 1")
      case True
      with False Suc.prems have "\<not> truncated p"
        "fit_loop sz base start rounds (p\<lparr>soft_budget_exceeded := True, next_start_line := None\<rparr>) = Inr out"
        by (auto simp: Let_def split: sum.splits if_splits)
      with Suc.IH page_ok_soft [OF Suc.prems(2)] show ?thesis by blast
    next
      case False
      then have two: "2 \<le> returned_lines p" by simp
      note peel = page_ok_peel [OF Suc.prems(2) two assms(3-6)]
      have "fit_loop sz base start rounds (peeled_prefix start (concat (take (returned_lines p - 1) L)) p) = Inr out"
        using Suc.prems(1) \<open>out \<noteq> ?r\<close> two peel(1)
        by (auto simp: Let_def split: sum.splits if_splits)
      with Suc.IH peel(2) show ?thesis by blast
    qed
  qed
qed


lemma truncate_page_ok:
  assumes "as_prefix (truncate_to_complete_lines_with_measure page (read_spec_options overhead start) m) = Some p"
    and "page \<noteq> []" and "1 \<le> start" and "start + str_len page < usize_MAX"
  shows "page_ok start (complete_lines page) p"
proof -
  let ?o = "read_spec_options overhead start"
  have "1 \<le> soft_line_limit ?o" "soft_byte_limit ?o \<le> usize_MAX" "max (content_start_line ?o) 1 = start"
    using assms(3) by (simp_all add: read_spec_options_def TOOL_OUTPUT_SOFT_BYTE_LIMIT_def usize_MAX_def)
  with truncate_sound [of ?o page m] assms show ?thesis
    by (auto simp: sound_prefix_def page_ok_def Let_def)
qed

lemma build_page:
  assumes "build_read_spec_page_response sz base page start = Inr out" and "1 \<le> start"
    and "start + str_len page < usize_MAX" and "L = complete_lines page"
  shows "\<exists>p. out = assemble_read_spec_response base (prefix_text p) p start
     \<and> prefix_text p = concat (take (returned_lines p) L) \<and> (L \<noteq> [] \<longrightarrow> 1 \<le> returned_lines p)
     \<and> next_start_line p = (if returned_lines p < length L then Some (start + returned_lines p) else None)"
proof (cases "page = []")
  case True
  let ?p = "\<lparr>prefix_text = [], returned_lines = 0, last_returned_line = start, next_start_line = None,
    truncated = False, soft_budget_exceeded = False\<rparr>"
  show ?thesis using assms True by (intro exI [of _ ?p]) (simp add: build_read_spec_page_response_def)
next
  case False
  let ?r = "\<lambda>overhead. truncate_to_complete_lines_with_measure page (read_spec_options overhead start)
    content_markdown_line_measure"
  obtain p overhead where full: "?r overhead = Full p \<or> ?r overhead = Truncated p"
    and fit: "fit_read_spec_response_to_envelope sz base start p = Inr out"
    using assms(1) False
    by (auto simp: build_read_spec_page_response_def split: sum.splits CompleteLineTruncateOutcome.splits)
  then have p: "as_prefix (?r overhead) = Some p" by (auto simp: as_prefix_def)
  have few: "start + length L < usize_MAX" using assms(3,4) complete_lines_few [of page] by simp
  have ok: "page_ok start L p" using truncate_page_ok [OF p False assms(2,3)] assms(4) by simp
  obtain p' where "page_ok start L p'" "out = assemble_read_spec_response base (prefix_text p') p' start"
    using fit_loop_page [OF fit [unfolded fit_read_spec_response_to_envelope_def] ok assms(4) _ assms(2) few] assms(3)
    by auto
  then show ?thesis by (intro exI [of _ p']) (auto simp: page_ok_def Let_def)
qed

text \<open>The fields of a page that a client reads.\<close>

definition page_text :: "json \<Rightarrow> rstr" where
  "page_text page = (case json_get page (lit ''contentMarkdown'') of Some (JStr t) \<Rightarrow> t | _ \<Rightarrow> [])"

definition page_next :: "json \<Rightarrow> nat option" where
  "page_next page = as_u64 (json_get page (lit ''nextStartLine''))"

definition page_revision :: "json \<Rightarrow> nat option" where
  "page_revision page = as_u64 (json_get page (lit ''revision''))"

lemma assemble_fields:
  assumes "is_object base"
  shows "page_text (assemble_read_spec_response base content p start) = content"
    and "page_next (assemble_read_spec_response base content p start)
       = as_u64 (Some (case next_start_line p of Some n \<Rightarrow> json_nat n | None \<Rightarrow> JNull))"
    and "page_revision (assemble_read_spec_response base content p start) = page_revision base"
  using assms
  by (simp_all add: assemble_read_spec_response_def page_text_def page_next_def page_revision_def Let_def
      json_get_set_same json_get_set_other)

text \<open>A page of the content holds the lines from the requested one on, at least one unless there is
  none, and names the line after them when there is one.\<close>

lemma check_read_revision_None:
  "check_read_revision \<lparr>read_start_line = req, read_expected_revision = expected, read_timeout_ms = t\<rparr> revision = None
   \<longleftrightarrow> (req \<noteq> None \<longrightarrow> expected \<noteq> None) \<and> req \<noteq> Some 0 \<and> (\<forall>r. expected = Some r \<longrightarrow> r = revision)"
  by (auto simp: check_read_revision_def split: option.splits)

lemma read_spec_cases:
  assumes "read_spec sz \<lparr>read_start_line = req, read_expected_revision = expected, read_timeout_ms = None\<rparr> db = Inr page"
    and "start = (case req of Some n \<Rightarrow> n | None \<Rightarrow> 1)" and "str_len (spec_content db) < usize_MAX"
  shows "1 \<le> start" and "\<forall>r. expected = Some r \<longrightarrow> db_revision db = r"
    and "\<exists>base. is_object base \<and> json_get base (lit ''revision'') = Some (json_nat (db_revision db))
      \<and> build_read_spec_page_response sz base (concat (drop (start - 1) (complete_lines (spec_content db)))) start
          = Inr page"
proof -
  let ?rq = "\<lparr>read_start_line = req, read_expected_revision = expected, read_timeout_ms = None\<rparr>"
  let ?c = "spec_content db"
  have t: "tool_timeout_ms None DEFAULT_SPEC_TOOL_TIMEOUT_MS = Inr DEFAULT_SPEC_TOOL_TIMEOUT_MS"
    by (simp add: tool_timeout_ms_def DEFAULT_SPEC_TOOL_TIMEOUT_MS_def MAX_TOOL_TIMEOUT_MS_def)
  then have check: "check_read_revision ?rq (db_revision db) = None"
    using assms(1) by (auto simp: read_spec_def split: option.splits)
  then show start: "1 \<le> start" and "\<forall>r. expected = Some r \<longrightarrow> db_revision db = r"
    using assms(2) by (auto simp: check_read_revision_None split: option.splits)
  let ?r = "case db of Some r \<Rightarrow> base_spec_fields r DEFAULT_SPEC_TOOL_TIMEOUT_MS
    | None \<Rightarrow> default_spec_fields DEFAULT_SPEC_TOOL_TIMEOUT_MS"
  let ?b = "json_set (lit ''startLine'') (json_nat start) (json_set (lit ''totalBytes'') (json_nat (str_len ?c))
    (json_set (lit ''totalLines'') (json_nat (complete_line_count ?c)) ?r))"
  have "is_object ?r" "json_get ?r (lit ''revision'') = Some (json_nat (db_revision db))"
    by (simp_all add: base_spec_fields_def default_spec_fields_def is_object_def json_get_def db_revision_def
        split: option.split)
  moreover have "max (case req of Some n \<Rightarrow> n | None \<Rightarrow> 1) 1 = start" using start assms(2) by simp
  ultimately show "\<exists>base. is_object base \<and> json_get base (lit ''revision'') = Some (json_nat (db_revision db))
      \<and> build_read_spec_page_response sz base (concat (drop (start - 1) (complete_lines ?c))) start = Inr page"
    using assms(1) check t slice_content_eq [OF assms(3) start]
    by (intro exI [of _ ?b]) (simp add: read_spec_def Let_def json_get_set_other)
qed

lemma read_spec_page:
  assumes "read_spec sz \<lparr>read_start_line = req, read_expected_revision = expected, read_timeout_ms = None\<rparr> db = Inr page"
    and "start = (case req of Some n \<Rightarrow> n | None \<Rightarrow> 1)"
    and "start + str_len (spec_content db) < usize_MAX" and "db_revision db \<le> i64_MAX"
    and "ls = complete_lines (spec_content db)"
  shows "page_revision page = Some (db_revision db)"
    and "\<exists>k. page_text page = concat (take k (drop (start - 1) ls))
     \<and> (start \<le> length ls \<longrightarrow> 1 \<le> k)
     \<and> page_next page = (if start + k \<le> length ls then Some (start + k) else None)"
proof -
  have small: "str_len (spec_content db) < usize_MAX" using assms(3) by simp
  note c = read_spec_cases [OF assms(1,2) small]
  let ?L = "drop (start - 1) ls"
  have "str_len (concat ?L) \<le> str_len (spec_content db)"
    by (metis assms(5) append_take_drop_id concat_append concat_complete_lines le_add2 str_len_append)
  then have fits: "start + str_len (concat ?L) < usize_MAX" using assms(3) by simp
  have lines: "?L = complete_lines (concat ?L)" using complete_lines_drop assms(5) by simp
  obtain base where b: "is_object base" "json_get base (lit ''revision'') = Some (json_nat (db_revision db))"
    "build_read_spec_page_response sz base (concat ?L) start = Inr page" using c(3) assms(5) by blast
  obtain p where p: "page = assemble_read_spec_response base (prefix_text p) p start"
    "prefix_text p = concat (take (returned_lines p) ?L)" "?L \<noteq> [] \<longrightarrow> 1 \<le> returned_lines p"
    "next_start_line p = (if returned_lines p < length ?L then Some (start + returned_lines p) else None)"
    using build_page [OF b(3) c(1) fits lines] by blast
  show "page_revision page = Some (db_revision db)"
    using b(2) assms(4) by (simp add: p(1) assemble_fields(3) [OF b(1)])
      (simp add: page_revision_def as_u64_def json_nat_def i64_MAX_def)
  have less: "returned_lines p < length ?L \<longleftrightarrow> start + returned_lines p \<le> length ls" using c(1) by auto
  have "length ls \<le> str_len (spec_content db)" using complete_lines_few assms(5) by simp
  then have "length ls < 2 ^ 64" using assms(3) by (simp add: usize_MAX_def)
  then have "page_next page = (if start + returned_lines p \<le> length ls then Some (start + returned_lines p) else None)"
    unfolding p(1) assemble_fields(2) [OF b(1)] p(4) less
    by (simp add: as_u64_def json_nat_def nat_add_distrib)
  moreover have "page_text page = concat (take (returned_lines p) ?L)"
    using p(2) by (simp add: p(1) assemble_fields(1) [OF b(1)])
  ultimately show "\<exists>k. page_text page = concat (take k ?L) \<and> (start \<le> length ls \<longrightarrow> 1 \<le> k)
     \<and> page_next page = (if start + k \<le> length ls then Some (start + k) else None)"
    using p(3) c(1) by (intro exI [of _ "returned_lines p"]) auto
qed

section \<open>The store as a versioned register\<close>

text \<open>Between the calls of a client the row changes by the three updates of the store alone.\<close>

inductive spec_writes :: "spec_db \<Rightarrow> spec_db \<Rightarrow> bool" where
  spec_settings: "spec_writes db (snd (upsert_workspace_spec_settings now enabled inject_enabled db))"
| spec_edit: "spec_writes db (snd (update_workspace_spec_content now expected content db))"
| spec_generate: "spec_writes db (snd (update_workspace_spec_generated_content now expected content db))"

text \<open>A register whose version never falls, and whose content is fixed by its version.\<close>

locale versioned_store =
  fixes writes :: "'s \<Rightarrow> 's \<Rightarrow> bool" and version :: "'s \<Rightarrow> nat" and contents :: "'s \<Rightarrow> 'c"
    and valid :: "'s \<Rightarrow> bool"
  assumes version_grows: "writes s t \<Longrightarrow> version s \<le> version t"
    and same_version: "writes s t \<Longrightarrow> version s = version t \<Longrightarrow> contents s = contents t"
    and valid_kept: "writes s t \<Longrightarrow> valid s \<Longrightarrow> valid t"
begin

lemma later:
  assumes "writes\<^sup>*\<^sup>* s t"
  shows "version s \<le> version t \<and> (version s = version t \<longrightarrow> contents s = contents t) \<and> (valid s \<longrightarrow> valid t)"
  using assms
proof (induction rule: rtranclp_induct)
  case (step t u)
  with version_grows [OF step.hyps(2)] same_version [OF step.hyps(2)] valid_kept [OF step.hyps(2)]
  show ?case by (metis le_antisym le_trans)
qed simp

lemma history:
  assumes "successively writes\<^sup>*\<^sup>* (s # ss)" and "t \<in> set ss"
  shows "writes\<^sup>*\<^sup>* s t"
  using assms
proof (induction ss arbitrary: s)
  case (Cons u ss)
  then have "writes\<^sup>*\<^sup>* s u" "t = u \<or> writes\<^sup>*\<^sup>* u t" by auto
  then show ?case by (auto intro: rtranclp_trans)
qed simp

lemmas history_later = later [OF history]

end

definition spec_db_ok :: "spec_db \<Rightarrow> bool" where
  "spec_db_ok db \<longleftrightarrow> str_len (spec_content db) \<le> WORKSPACE_SPEC_MAX_MARKDOWN_BYTES \<and> db_revision db \<le> i64_MAX"

lemma i64_MAX_ge: "Suc 0 \<le> i64_MAX" by (simp add: i64_MAX_def)

lemma update_inner_cases:
  assumes u: "update_workspace_spec_content_inner now expected content gen db = (r, db')"
  obtains (stays) "db' = db" "\<forall>row. r \<noteq> Inr (Some row)"
    | (changes) row where "r = Inr (Some row)" "db' = Some row" "db_revision db = expected"
        "db_revision db' = Suc expected" "spec_content db' = content"
        "str_len content \<le> WORKSPACE_SPEC_MAX_MARKDOWN_BYTES" "Suc expected \<le> i64_MAX"
proof (cases "str_len content > WORKSPACE_SPEC_MAX_MARKDOWN_BYTES \<or> expected > i64_MAX")
  case True
  with u show thesis
    by (intro stays) (auto simp: update_workspace_spec_content_inner_def validate_markdown_size_def split: if_splits)
next
  case False
  then have u': "validate_markdown_size content = Inr ()" "\<not> expected > i64_MAX"
    "str_len content \<le> WORKSPACE_SPEC_MAX_MARKDOWN_BYTES" by (auto simp: validate_markdown_size_def)
  note defs = update_workspace_spec_content_inner_def Let_def db_revision_def spec_content_def
  consider "db_revision db \<noteq> expected \<or> Suc expected > i64_MAX"
    | "db = None" "expected = 0" "Suc expected \<le> i64_MAX"
    | row where "db = Some row" "spec_revision row = expected" "Suc expected \<le> i64_MAX"
  proof -
    have "db_revision db \<noteq> expected \<or> Suc expected > i64_MAX \<or> (db = None \<and> expected = 0 \<and> Suc expected \<le> i64_MAX)
        \<or> (\<exists>row. db = Some row \<and> spec_revision row = expected \<and> Suc expected \<le> i64_MAX)"
      by (cases db) (auto simp: db_revision_def not_le)
    then show ?thesis by (metis that)
  qed
  then show thesis
  proof cases
    case 1
    with u u' i64_MAX_ge show thesis
      by (intro stays) (auto simp: defs split: if_splits option.splits)
  next
    case 2
    with u u' show thesis by (intro changes) (auto simp: defs)
  next
    case 3
    with u u' show thesis by (intro changes) (auto simp: defs)
  qed
qed

lemma update_inner_snd:
  "snd (update_workspace_spec_content_inner now expected content gen db) = db
   \<or> db_revision (snd (update_workspace_spec_content_inner now expected content gen db)) = Suc (db_revision db)
     \<and> spec_db_ok (snd (update_workspace_spec_content_inner now expected content gen db))"
proof -
  obtain r db' where u: "update_workspace_spec_content_inner now expected content gen db = (r, db')" by fastforce
  from u show ?thesis by (cases rule: update_inner_cases) (simp_all add: u spec_db_ok_def)
qed

lemma spec_writes_cases:
  assumes "spec_writes db db'"
  shows "db_revision db' = db_revision db \<and> spec_content db' = spec_content db
   \<or> db_revision db' = Suc (db_revision db) \<and> spec_db_ok db'"
  using assms
proof cases
  case (spec_settings now enabled inject_enabled)
  then show ?thesis
    by (simp add: upsert_workspace_spec_settings_def Let_def db_revision_def spec_content_def split: option.split)
next
  case (spec_edit now expected content)
  with update_inner_snd [of now expected content False db] show ?thesis
    by (auto simp: update_workspace_spec_content_def)
next
  case (spec_generate now expected content)
  with update_inner_snd [of now expected content True db] show ?thesis
    by (auto simp: update_workspace_spec_generated_content_def)
qed

interpretation spec_store: versioned_store spec_writes db_revision spec_content spec_db_ok
proof
  fix db db' :: spec_db
  assume w: "spec_writes db db'"
  from spec_writes_cases [OF w] show "db_revision db \<le> db_revision db'" by auto
  from spec_writes_cases [OF w] show "db_revision db = db_revision db' \<Longrightarrow> spec_content db = spec_content db'" by auto
  from spec_writes_cases [OF w] show "spec_db_ok db \<Longrightarrow> spec_db_ok db'" by (auto simp: spec_db_ok_def)
qed

lemma spec_db_ok_empty: "spec_db_ok None"
  by (simp add: spec_db_ok_def spec_content_def db_revision_def)

section \<open>Paging through a changing spec\<close>

text \<open>A client that asks for one page after the other, as the responses tell it to: the next request
  carries the line that follows and the revision of the page. The list holds the state of the row at
  each request; when it is used up the result is \<open>None\<close>.\<close>

fun read_pages :: "envelope_measure \<Rightarrow> nat option \<Rightarrow> nat option \<Rightarrow> spec_db list
    \<Rightarrow> (ToolRuntimeError + rstr) option" where
  "read_pages sz expected start [] = None"
| "read_pages sz expected start (db # dbs) =
     (case read_spec sz \<lparr>read_start_line = start, read_expected_revision = expected, read_timeout_ms = None\<rparr> db of
        Inl e \<Rightarrow> Some (Inl e)
      | Inr page \<Rightarrow>
          (case page_next page of
             None \<Rightarrow> Some (Inr (page_text page))
           | Some n \<Rightarrow>
               (case read_pages sz (page_revision page) (Some n) dbs of
                  Some (Inr rest) \<Rightarrow> Some (Inr (page_text page @ rest))
                | r \<Rightarrow> r)))"

lemma read_pages_tail:
  assumes "\<forall>db \<in> set dbs. spec_db_ok db \<and> (db_revision db = r \<longrightarrow> complete_lines (spec_content db) = ls)"
    and "start \<le> length ls" and "length ls \<le> WORKSPACE_SPEC_MAX_MARKDOWN_BYTES"
  shows "(\<forall>s. read_pages sz (Some r) (Some start) dbs = Some (Inr s) \<longrightarrow> s = concat (drop (start - 1) ls))
    \<and> (length ls < length dbs + start \<longrightarrow> read_pages sz (Some r) (Some start) dbs \<noteq> None)"
  using assms(1,2)
proof (induction dbs arbitrary: start)
  case Nil
  then show ?case by simp
next
  case (Cons db dbs)
  let ?rd = "read_spec sz \<lparr>read_start_line = Some start, read_expected_revision = Some r, read_timeout_ms = None\<rparr> db"
  show ?case
  proof (cases ?rd)
    case (Inl e)
    then show ?thesis by simp
  next
    case (Inr page)
    have ok: "start + str_len (spec_content db) < usize_MAX" "str_len (spec_content db) < usize_MAX"
      "db_revision db \<le> i64_MAX"
      using Cons.prems assms(3) by (auto simp: spec_db_ok_def WORKSPACE_SPEC_MAX_MARKDOWN_BYTES_def usize_MAX_def)
    have c: "1 \<le> start" "db_revision db = r" using read_spec_cases(1,2) [OF Inr _ ok(2)] by simp_all
    have ls: "ls = complete_lines (spec_content db)" using c(2) Cons.prems(1) by simp
    note pg = read_spec_page [OF Inr _ ok(1,3) ls, simplified]
    obtain k where k: "page_text page = concat (take k (drop (start - 1) ls))" "1 \<le> k"
      "page_next page = (if start + k \<le> length ls then Some (start + k) else None)"
      using pg(2) Cons.prems(2) by auto
    show ?thesis
    proof (cases "start + k \<le> length ls")
      case False
      then show ?thesis using Inr k c(1) by simp
    next
      case True
      have glue: "page_text page @ concat (drop (start + k - 1) ls) = concat (drop (start - 1) ls)"
      proof -
        have "drop (start + k - 1) ls = drop k (drop (start - 1) ls)" using c(1) by (simp add: add.commute)
        then show ?thesis using k(1) by (metis append_take_drop_id concat_append)
      qed
      have "(\<forall>s. read_pages sz (Some r) (Some (start + k)) dbs = Some (Inr s) \<longrightarrow> s = concat (drop (start + k - 1) ls))
          \<and> (length ls < length dbs + (start + k) \<longrightarrow> read_pages sz (Some r) (Some (start + k)) dbs \<noteq> None)"
        using Cons.IH [of "start + k"] Cons.prems(1) True by simp
      with Inr True k(2,3) pg(1) c glue show ?thesis
        by (auto split: option.splits sum.splits)
    qed
  qed
qed

text \<open>the pages that a client reads one after the other make up the content, whatever happens
  to the spec in between. The row starts empty and changes by the store's updates, also between two
  requests; if the reads end without an error then their texts put together are the content at the
  first request, and the reads end after at most as many requests as the content has lines.\<close>

theorem read_spec_pages_complete:
  assumes "spec_writes\<^sup>*\<^sup>* None db" and "successively spec_writes\<^sup>*\<^sup>* (db # dbs)"
  shows "(\<forall>s. read_pages sz None None (db # dbs) = Some (Inr s) \<longrightarrow> s = spec_content db)
    \<and> (length (complete_lines (spec_content db)) \<le> length (db # dbs) \<longrightarrow> read_pages sz None None (db # dbs) \<noteq> None)"
proof -
  let ?ls = "complete_lines (spec_content db)"
  have valid: "spec_db_ok db" using spec_store.later [OF assms(1)] spec_db_ok_empty by simp
  then have ok: "1 + str_len (spec_content db) < usize_MAX" "db_revision db \<le> i64_MAX"
    "length ?ls \<le> WORKSPACE_SPEC_MAX_MARKDOWN_BYTES"
    using complete_lines_few [of "spec_content db"]
    by (simp_all add: spec_db_ok_def WORKSPACE_SPEC_MAX_MARKDOWN_BYTES_def usize_MAX_def)
  have same: "\<forall>d \<in> set dbs. spec_db_ok d \<and> (db_revision d = db_revision db \<longrightarrow> complete_lines (spec_content d) = ?ls)"
    using spec_store.history_later [OF assms(2)] valid by metis
  show ?thesis
  proof (cases "read_spec sz \<lparr>read_start_line = None, read_expected_revision = None, read_timeout_ms = None\<rparr> db")
    case (Inl e)
    then show ?thesis by simp
  next
    case (Inr page)
    note pg = read_spec_page [OF Inr _ ok(1,2) refl, simplified]
    obtain k where k: "page_text page = concat (take k ?ls)" "?ls \<noteq> [] \<longrightarrow> 1 \<le> k"
      "page_next page = (if 1 + k \<le> length ?ls then Some (1 + k) else None)"
      using pg(2) by (auto simp: Suc_le_eq)
    have glue: "concat (take k ?ls) @ concat (drop k ?ls) = spec_content db"
      by (metis append_take_drop_id concat_append concat_complete_lines)
    show ?thesis
    proof (cases "1 + k \<le> length ?ls")
      case True
      with read_pages_tail [OF same True ok(3), of sz] Inr k pg(1) glue show ?thesis
        by (auto split: option.splits sum.splits)
    next
      case False
      then show ?thesis using Inr k(1,3) by simp
    qed
  qed
qed

text \<open>The row after the first edit, and a measure that counts nothing.\<close>

definition sample_row :: WorkspaceSpecRecord where
  "sample_row = \<lparr>spec_enabled = False, spec_inject_enabled = False, content_markdown = [97], spec_revision = 1,
     generated_at = None, updated_at = lit ''t''\<rparr>"

lemma sample_row_update: "update_workspace_spec_content (lit ''t'') 0 [97] None = (Inr (Some sample_row), Some sample_row)"
  by (simp add: update_workspace_spec_content_def update_workspace_spec_content_inner_def Let_def sample_row_def
      validate_markdown_size_def WORKSPACE_SPEC_MAX_MARKDOWN_BYTES_def str_len_def str_bytes_def utf8_char_def)

lemma sample_row_reached: "spec_writes\<^sup>*\<^sup>* None (Some sample_row)"
  using spec_edit [of None "lit ''t''" 0 "[97]"] sample_row_update by (simp add: r_into_rtranclp)

lemmas line_eval = complete_line_count_def for_each_complete_line_def complete_lines_def sat_add_usize_def
  usize_MAX_def NL_def

lemma sample_truncate:
  "truncate_to_complete_lines_with_measure [97] (read_spec_options 0 1) content_markdown_line_measure
   = Full \<lparr>prefix_text = [97], returned_lines = 1, last_returned_line = 1, next_start_line = None,
       truncated = False, soft_budget_exceeded = False\<rparr>"
  by (simp add: truncate_to_complete_lines_with_measure_def line_eval read_spec_options_def truncate_visit_def Let_def
    TOOL_OUTPUT_SOFT_BYTE_LIMIT_def TOOL_EXECUTION_ENVELOPE_RESERVE_BYTES_def TOOL_OUTPUT_SOFT_LINE_LIMIT_def
    TOOL_EXECUTION_PAYLOAD_HARD_BYTE_LIMIT_def content_markdown_line_measure_def json_string_body_len_def json_byte_len_def
    str_bytes_def utf8_char_def str_len_def checked_add_usize_def TOOL_EXECUTION_HARD_BYTE_LIMIT_def)

text \<open>A response that is within the limits is returned in the first round.\<close>

lemma fit_first_round:
  assumes "sz \<lparr>tool_output = assemble_read_spec_response base (prefix_text p) p start, is_error = False\<rparr> = Inr 0"
    and "value_text_lines (assemble_read_spec_response base (prefix_text p) p start) \<le> TOOL_OUTPUT_SOFT_LINE_LIMIT"
  shows "fit_read_spec_response_to_envelope sz base start p = Inr (assemble_read_spec_response base (prefix_text p) p start)"
  using assms by (simp add: fit_read_spec_response_to_envelope_def measure_tool_execution_def Let_def)

lemma sample_read:
  "\<exists>page. read_spec (\<lambda>_. Inr 0) \<lparr>read_start_line = None, read_expected_revision = None, read_timeout_ms = None\<rparr>
     (Some sample_row) = Inr page"
proof -
  let ?p = "\<lparr>prefix_text = [97], returned_lines = 1, last_returned_line = 1, next_start_line = None,
    truncated = False, soft_budget_exceeded = False\<rparr>"
  have "value_text_lines (assemble_read_spec_response (json_set (lit ''startLine'') (json_nat 1)
      (json_set (lit ''totalBytes'') (json_nat (str_len [97])) (json_set (lit ''totalLines'') (json_nat 1)
        (base_spec_fields sample_row 10000)))) [97] ?p 1) \<le> TOOL_OUTPUT_SOFT_LINE_LIMIT"
    by (simp add: line_eval TOOL_OUTPUT_SOFT_LINE_LIMIT_def assemble_read_spec_response_def json_set_def
        base_spec_fields_def sample_row_def json_nat_def json_opt_str_def lit_def)
  note fit = fit_first_round [where sz = "\<lambda>_. Inr 0" and p = ?p, simplified, OF this [simplified]]
  have count: "complete_line_count [97] = Suc 0" by (simp add: line_eval)
  have content: "spec_content (Some sample_row) = [97]" by (simp add: spec_content_def sample_row_def)
  show ?thesis
    using fit sample_truncate
    by (simp add: read_spec_def tool_timeout_ms_def DEFAULT_SPEC_TOOL_TIMEOUT_MS_def MAX_TOOL_TIMEOUT_MS_def
        check_read_revision_def Let_def content count slice_content_from_line_def build_read_spec_page_response_def
        measure_read_spec_response_overhead_def)
qed

theorem read_spec_pages_complete_witness:
  "spec_writes\<^sup>*\<^sup>* None (Some sample_row)
   \<and> read_pages (\<lambda>_. Inr 0) None None [Some sample_row] = Some (Inr [97])"
proof -
  have content: "spec_content (Some sample_row) = [97]" by (simp add: spec_content_def sample_row_def)
  obtain page where page: "read_spec (\<lambda>_. Inr 0)
      \<lparr>read_start_line = None, read_expected_revision = None, read_timeout_ms = None\<rparr> (Some sample_row) = Inr page"
    using sample_read by blast
  have lines: "length (complete_lines [97]) = 1" by (simp add: complete_lines_def NL_def)
  have pages: "(\<forall>s. read_pages (\<lambda>_. Inr 0) None None [Some sample_row] = Some (Inr s) \<longrightarrow> s = [97])
      \<and> read_pages (\<lambda>_. Inr 0) None None [Some sample_row] \<noteq> None"
    using read_spec_pages_complete [where dbs = "[]" and sz = "\<lambda>_. Inr 0", OF sample_row_reached] content lines
    by simp
  have "\<exists>s. read_pages (\<lambda>_. Inr 0) None None [Some sample_row] = Some (Inr s)"
    using pages page by (auto split: option.splits)
  with pages sample_row_reached show ?thesis by blast
qed

section \<open>Concurrent updates\<close>

text \<open>Several runs may update the spec: each reads the row and prepares its update, and commits it in a
  later transaction. The state is the row and the updates that are prepared.\<close>

type_synonym prepared_update = "UpdateSpecInput \<times> nat \<times> rstr \<times> rstr \<times> rstr \<times> nat"

inductive spec_system :: "spec_db \<times> prepared_update list \<Rightarrow> spec_db \<times> prepared_update list \<Rightarrow> bool" where
  sys_prepare: "update_spec_prepare request db = Inr prepared \<Longrightarrow>
     spec_system (db, P) (db, (request, prepared) # P)"
| sys_commit: "(request, prepared) \<in> set P \<Longrightarrow>
     spec_system (db, P) (snd (update_spec_commit sz now (upd_expected_revision request) prepared db), P)"
| sys_write: "spec_writes db db' \<Longrightarrow> spec_system (db, P) (db', P)"

lemma commit_cases:
  assumes "update_spec_commit sz now expected (t, before, content, mode, n) db = (r, db')"
  shows "db' = db \<and> (\<exists>e. r = Inl e)
    \<or> db_revision db = expected \<and> db_revision db' = Suc expected \<and> spec_content db' = content
      \<and> (\<exists>row. db' = Some row \<and> r = fit_update_spec_success_response sz
            (update_success_output row t before content mode n))"
proof -
  obtain u d where u: "update_workspace_spec_content_inner now expected content False db = (u, d)" by fastforce
  have c: "update_workspace_spec_content now expected content db = (u, d)"
    using u by (simp add: update_workspace_spec_content_def)
  from u show ?thesis
  proof (cases rule: update_inner_cases)
    case stays
    then show ?thesis using assms c by (auto simp: update_spec_commit_def split: sum.splits option.splits)
  next
    case (changes row)
    then show ?thesis using assms c by (auto simp: update_spec_commit_def)
  qed
qed

lemma commit_writes: "spec_writes db (snd (update_spec_commit sz now expected prepared db))"
proof -
  have "snd (update_spec_commit sz now expected prepared db)
     = snd (update_workspace_spec_content now expected (fst (snd (snd prepared))) db)"
    by (auto simp: update_spec_commit_def split: prod.splits sum.splits option.splits)
  then show ?thesis using spec_edit [of db now expected "fst (snd (snd prepared))"] by simp
qed

text \<open>What is known of an update that is prepared: its content was computed from the content that the
  row has, unless the row has moved on to a later revision.\<close>

definition prepared_ok :: "spec_db \<Rightarrow> prepared_update \<Rightarrow> bool" where
  "prepared_ok db u \<longleftrightarrow> (case u of (request, _, before, content, mode, n) \<Rightarrow>
     new_spec_content request before = Inr (content, mode, n)
     \<and> upd_expected_revision request \<le> db_revision db
     \<and> (upd_expected_revision request = db_revision db \<longrightarrow> before = spec_content db))"

lemma prepared_ok_later:
  assumes "spec_writes db db'" and "prepared_ok db u"
  shows "prepared_ok db' u"
  using assms spec_store.version_grows [OF assms(1)] spec_store.same_version [OF assms(1)]
  by (auto simp: prepared_ok_def split: prod.splits)

lemma prepare_ok:
  assumes "update_spec_prepare request db = Inr prepared"
  shows "prepared_ok db (request, prepared)"
  using assms by (auto simp: update_spec_prepare_def prepared_ok_def split: sum.splits if_splits)

lemma spec_system_inv:
  assumes "spec_system\<^sup>*\<^sup>* (db0, []) (db, P)"
  shows "\<forall>u \<in> set P. prepared_ok db u"
  using assms
proof (induction "(db, P)" arbitrary: db P rule: rtranclp_induct)
  case base
  then show ?case by simp
next
  case (step st)
  obtain d Q where st: "st = (d, Q)" by fastforce
  have inv: "\<forall>u \<in> set Q. prepared_ok d u" using step.hyps(3) st by blast
  from step.hyps(2) [unfolded st] show ?case
  proof cases
    case (sys_prepare request prepared)
    then show ?thesis using inv prepare_ok by auto
  next
    case (sys_commit request prepared sz now)
    then show ?thesis using inv prepared_ok_later [OF commit_writes] by auto
  next
    case sys_write
    then show ?thesis using inv prepared_ok_later by auto
  qed
qed

text \<open>C5: no update of the spec is lost. Whatever other runs did between the two steps of an update,
  its commit either fails and changes nothing, or the row still has the revision that the update was
  asked for, the new content is what the request makes of the content that the row has, the revision
  rises by one, and the response is the one for the new row.\<close>

theorem spec_no_lost_update:
  assumes "spec_system\<^sup>*\<^sup>* (db0, []) (db, P)" and "(request, prepared) \<in> set P"
    and "update_spec_commit sz now (upd_expected_revision request) prepared db = (r, db')"
  shows "db' = db \<and> (\<exists>e. r = Inl e)
    \<or> db_revision db = upd_expected_revision request \<and> db_revision db' = Suc (db_revision db)
      \<and> (\<exists>mode n t row. new_spec_content request (spec_content db) = Inr (spec_content db', mode, n)
          \<and> db' = Some row \<and> r = fit_update_spec_success_response sz
              (update_success_output row t (spec_content db) (spec_content db') mode n))"
proof -
  obtain t before content mode n where p: "prepared = (t, before, content, mode, n)" by (metis prod_cases5)
  have "prepared_ok db (request, prepared)" using spec_system_inv assms(1,2) by blast
  then have "new_spec_content request before = Inr (content, mode, n)"
    "upd_expected_revision request = db_revision db \<longrightarrow> before = spec_content db"
    by (simp_all add: prepared_ok_def p)
  with commit_cases [OF assms(3) [unfolded p]] show ?thesis by metis
qed

definition sample_update :: UpdateSpecInput where
  "sample_update = \<lparr>upd_expected_revision = 0, upd_content_markdown = Some [97], upd_edits = None,
     upd_timeout_ms = None\<rparr>"

definition sample_prepared :: "nat \<times> rstr \<times> rstr \<times> rstr \<times> nat" where
  "sample_prepared = (DEFAULT_SPEC_TOOL_TIMEOUT_MS, [], [97], lit ''fullReplacement'', 0)"

lemma sample_new_content: "new_spec_content sample_update [] = Inr ([97], lit ''fullReplacement'', 0)"
  by (simp add: new_spec_content_def sample_update_def trim_def trim_start_def trim_end_def is_whitespace_def Let_def)

lemma sample_prepare: "update_spec_prepare sample_update None = Inr sample_prepared"
proof -
  have "tool_timeout_ms (upd_timeout_ms sample_update) DEFAULT_SPEC_TOOL_TIMEOUT_MS = Inr DEFAULT_SPEC_TOOL_TIMEOUT_MS"
    by (simp add: sample_update_def tool_timeout_ms_def DEFAULT_SPEC_TOOL_TIMEOUT_MS_def MAX_TOOL_TIMEOUT_MS_def)
  moreover have "spec_content None = []" "db_revision None = upd_expected_revision sample_update"
    by (simp_all add: spec_content_def db_revision_def sample_update_def)
  ultimately show ?thesis
    using sample_new_content by (simp add: update_spec_prepare_def sample_prepared_def)
qed

theorem spec_no_lost_update_witness:
  "\<exists>r. spec_system\<^sup>*\<^sup>* (None, []) (None, [(sample_update, sample_prepared)])
    \<and> update_spec_commit (\<lambda>_. Inr 0) (lit ''t'') (upd_expected_revision sample_update) sample_prepared None
        = (r, Some sample_row)
    \<and> db_revision (Some sample_row) = Suc (db_revision None) \<and> db_revision None = upd_expected_revision sample_update"
proof -
  have sys: "spec_system\<^sup>*\<^sup>* (None, []) (None, [(sample_update, sample_prepared)])"
    using sys_prepare [OF sample_prepare, of "[]"] by (rule r_into_rtranclp)
  have "snd (update_spec_commit (\<lambda>_. Inr 0) (lit ''t'') (upd_expected_revision sample_update) sample_prepared None)
      = Some sample_row"
    by (simp add: update_spec_commit_def sample_prepared_def) (simp add: sample_update_def sample_row_update)
  then obtain r where run: "update_spec_commit (\<lambda>_. Inr 0) (lit ''t'') (upd_expected_revision sample_update)
      sample_prepared None = (r, Some sample_row)" by (metis prod.collapse)
  have "db_revision None = upd_expected_revision sample_update \<and> db_revision (Some sample_row) = Suc (db_revision None)"
    using spec_no_lost_update [OF sys _ run] by auto
  with sys run show ?thesis by blast
qed

end
