(* ===== verification/Command_Ring.thy ===== *)
theory Command_Ring
  imports Foco_Prelude "HOL-Library.Sublist"
begin

text \<open>
  The output ring buffer of a managed background command (\<open>OutputRingBuffer\<close> and
  \<open>output_chunk_end\<close> of \<open>tools/background_command.rs\<close>). Output is cut into chunks with
  strictly increasing cursors; old chunks are evicted when the limit of bytes is reached. Bytes are
  numbers, a cursor is a natural number with the bound of \<open>u64\<close> written out. The reference is an
  append-only log of all chunks: the buffer is shown to hold the longest end of that log that fits.
\<close>

section \<open>The buffer\<close>

definition MAX_OUTPUT_CHUNK_BYTES :: nat where "MAX_OUTPUT_CHUNK_BYTES = 4 * 1024"
definition MAX_OUTPUT_CHUNK_NEWLINES :: nat where "MAX_OUTPUT_CHUNK_NEWLINES = 1999"
definition u64_max_nat :: nat where "u64_max_nat = 2 ^ 64 - 1"

datatype BackgroundCommandOutputStream = Stdout | Stderr

record BackgroundCommandOutputChunk =
  chunk_cursor :: nat
  chunk_stream :: BackgroundCommandOutputStream
  chunk_bytes :: "nat list"

record OutputRingBuffer =
  ring_chunks :: "BackgroundCommandOutputChunk list"
  ring_retained :: nat
  ring_dropped :: nat
  ring_next_cursor :: nat

record BackgroundCommandOutput =
  out_command_id :: rstr
  out_chunks :: "BackgroundCommandOutputChunk list"
  out_next_cursor :: nat
  out_earliest_cursor :: "nat option"
  out_cursor_expired :: bool
  out_truncated :: bool

definition new_ring :: OutputRingBuffer where
  "new_ring = \<lparr>ring_chunks = [], ring_retained = 0, ring_dropped = 0, ring_next_cursor = 0\<rparr>"

fun chunk_end_loop :: "nat list \<Rightarrow> nat \<Rightarrow> nat \<Rightarrow> nat option" where
  "chunk_end_loop [] index newlines = None"
| "chunk_end_loop (b # bs) index newlines =
     (if b = NL then
        (if sat_add_usize newlines 1 > MAX_OUTPUT_CHUNK_NEWLINES then Some index
         else chunk_end_loop bs (Suc index) (sat_add_usize newlines 1))
      else chunk_end_loop bs (Suc index) newlines)"

definition output_chunk_end :: "nat list \<Rightarrow> nat" where
  "output_chunk_end bytes =
     (let byte_limit = min (length bytes) MAX_OUTPUT_CHUNK_BYTES
      in case chunk_end_loop (take byte_limit bytes) 0 0 of Some index \<Rightarrow> index | None \<Rightarrow> byte_limit)"

text \<open>The inner loop of \<open>append\<close>: it evicts the oldest chunks until \<open>n\<close> more bytes fit.\<close>

fun evict_chunks :: "nat \<Rightarrow> nat \<Rightarrow> BackgroundCommandOutputChunk list \<Rightarrow> nat \<Rightarrow> nat
    \<Rightarrow> BackgroundCommandOutputChunk list \<times> nat \<times> nat" where
  "evict_chunks max_bytes n [] retained dropped = ([], retained, dropped)"
| "evict_chunks max_bytes n (c # cs) retained dropped =
     (if sat_add_usize retained n > max_bytes
      then evict_chunks max_bytes n cs (retained - length (chunk_bytes c))
             (sat_add_usize dropped (length (chunk_bytes c)))
      else (c # cs, retained, dropped))"

text \<open>One round of the outer loop; \<open>None\<close> is \<open>CursorExhausted\<close>, and the buffer is what is
  left then.\<close>

definition push_chunk :: "BackgroundCommandOutputStream \<Rightarrow> nat \<Rightarrow> nat list \<Rightarrow> OutputRingBuffer
    \<Rightarrow> unit option \<times> OutputRingBuffer" where
  "push_chunk stream max_bytes bytes r =
     (case evict_chunks max_bytes (length bytes) (ring_chunks r) (ring_retained r) (ring_dropped r) of
        (chunks, retained, dropped) \<Rightarrow>
          if ring_next_cursor r + 1 > u64_max_nat
          then (None, r\<lparr>ring_chunks := chunks, ring_retained := retained, ring_dropped := dropped\<rparr>)
          else (Some (),
            \<lparr>ring_chunks = chunks @ [\<lparr>chunk_cursor = ring_next_cursor r + 1, chunk_stream = stream,
                chunk_bytes = bytes\<rparr>],
             ring_retained = sat_add_usize retained (length bytes), ring_dropped = dropped,
             ring_next_cursor = ring_next_cursor r + 1\<rparr>))"

lemma chunk_end_loop_pos:
  "chunk_end_loop bs i n = Some j \<Longrightarrow> n + (if i = 0 then 1 else 0) \<le> MAX_OUTPUT_CHUNK_NEWLINES \<Longrightarrow> 0 < j"
proof (induction bs i n rule: chunk_end_loop.induct)
  case (2 b bs i n)
  then show ?case
    by (cases "i = 0") (auto simp: sat_add_usize_def MAX_OUTPUT_CHUNK_NEWLINES_def usize_MAX_def split: if_splits)
qed simp

lemma output_chunk_end_pos: "bytes \<noteq> [] \<Longrightarrow> 0 < output_chunk_end bytes"
proof -
  assume ne: "bytes \<noteq> []"
  show ?thesis
  proof (cases "chunk_end_loop (take (min (length bytes) MAX_OUTPUT_CHUNK_BYTES) bytes) 0 0")
    case None
    then show ?thesis using ne by (simp add: output_chunk_end_def Let_def MAX_OUTPUT_CHUNK_BYTES_def)
  next
    case (Some j)
    with chunk_end_loop_pos [OF Some] show ?thesis
      by (simp add: output_chunk_end_def Let_def MAX_OUTPUT_CHUNK_NEWLINES_def)
  qed
qed

function append_loop :: "BackgroundCommandOutputStream \<Rightarrow> nat \<Rightarrow> nat list \<Rightarrow> OutputRingBuffer
    \<Rightarrow> unit option \<times> OutputRingBuffer" where
  "append_loop stream max_bytes remaining r =
     (if remaining = [] then (Some (), r)
      else (let chunk_end = output_chunk_end remaining
            in case push_chunk stream max_bytes (take chunk_end remaining) r of
                 (None, r') \<Rightarrow> (None, r')
               | (Some _, r') \<Rightarrow> append_loop stream max_bytes (drop chunk_end remaining) r'))"
  by pat_completeness auto
termination
  by (relation "measure (\<lambda>(_, _, remaining, _). length remaining)") (auto simp: output_chunk_end_pos)

declare append_loop.simps [simp del]

definition ring_append :: "BackgroundCommandOutputStream \<Rightarrow> nat list \<Rightarrow> nat \<Rightarrow> OutputRingBuffer
    \<Rightarrow> unit option \<times> OutputRingBuffer" where
  "ring_append stream bytes max_bytes r =
     (if bytes = [] then (Some (), r)
      else if length bytes > max_bytes
      then append_loop stream max_bytes (drop (length bytes - max_bytes) bytes)
             (r\<lparr>ring_dropped := sat_add_usize (ring_dropped r) (length bytes - max_bytes)\<rparr>)
      else append_loop stream max_bytes bytes r)"

definition read_after :: "rstr \<Rightarrow> nat option \<Rightarrow> OutputRingBuffer \<Rightarrow> BackgroundCommandOutput" where
  "read_after command_id after_cursor r =
     (let earliest_cursor = (case ring_chunks r of [] \<Rightarrow> None | c # _ \<Rightarrow> Some (chunk_cursor c));
          cursor_expired = (case after_cursor of
              None \<Rightarrow> False
            | Some cursor \<Rightarrow> ring_dropped r > 0
                \<and> (case earliest_cursor of None \<Rightarrow> False | Some earliest \<Rightarrow> cursor < earliest - 1))
      in \<lparr>out_command_id = command_id,
          out_chunks = filter (\<lambda>c. case after_cursor of None \<Rightarrow> True | Some cursor \<Rightarrow> chunk_cursor c > cursor)
            (ring_chunks r),
          out_next_cursor = ring_next_cursor r, out_earliest_cursor = earliest_cursor,
          out_cursor_expired = cursor_expired, out_truncated = (ring_dropped r > 0)\<rparr>)"

section \<open>The log of all chunks\<close>

function chunk_split :: "nat list \<Rightarrow> nat list list" where
  "chunk_split bytes = (if bytes = [] then []
     else take (output_chunk_end bytes) bytes # chunk_split (drop (output_chunk_end bytes) bytes))"
  by pat_completeness auto
termination
  by (relation "measure length") (auto simp: output_chunk_end_pos)

declare chunk_split.simps [simp del]

fun number_chunks :: "BackgroundCommandOutputStream \<Rightarrow> nat \<Rightarrow> nat list list
    \<Rightarrow> BackgroundCommandOutputChunk list" where
  "number_chunks stream n [] = []"
| "number_chunks stream n (b # bs) =
     \<lparr>chunk_cursor = Suc n, chunk_stream = stream, chunk_bytes = b\<rparr> # number_chunks stream (Suc n) bs"

definition log_write :: "BackgroundCommandOutputStream \<Rightarrow> nat list \<Rightarrow> BackgroundCommandOutputChunk list
    \<Rightarrow> BackgroundCommandOutputChunk list" where
  "log_write stream bytes log = log @ number_chunks stream (length log) (chunk_split bytes)"

abbreviation chunk_len :: "BackgroundCommandOutputChunk \<Rightarrow> nat" where
  "chunk_len c \<equiv> length (chunk_bytes c)"

definition bytes_held :: "BackgroundCommandOutputChunk list \<Rightarrow> nat" where
  "bytes_held cs = sum_list (map chunk_len cs)"

text \<open>How many chunks have to go from the front of a list until the rest holds at most
  \<open>max_bytes\<close> bytes.\<close>

fun surplus :: "nat \<Rightarrow> BackgroundCommandOutputChunk list \<Rightarrow> nat" where
  "surplus max_bytes [] = 0"
| "surplus max_bytes (c # cs) = (if bytes_held (c # cs) \<le> max_bytes then 0 else Suc (surplus max_bytes cs))"

lemma bytes_held_simps [simp]:
  "bytes_held [] = 0" "bytes_held (c # cs) = chunk_len c + bytes_held cs"
  "bytes_held (cs @ ds) = bytes_held cs + bytes_held ds"
  by (simp_all add: bytes_held_def)

lemma surplus_le: "surplus m cs \<le> length cs"
  by (induction cs) auto

lemma surplus_fits: "bytes_held (drop (surplus m cs) cs) \<le> m"
  by (induction cs) auto

lemma surplus_least: "i < surplus m cs \<Longrightarrow> m < bytes_held (drop i cs)"
proof (induction cs arbitrary: i)
  case (Cons c cs)
  then show ?case by (cases i) (auto split: if_splits)
qed simp

lemma surplus_snoc: "chunk_len c \<le> m \<Longrightarrow> surplus m (cs @ [c]) = surplus (m - chunk_len c) cs"
  by (induction cs) auto

lemma surplus_drop: "m' \<le> m \<Longrightarrow> surplus m' cs = surplus m cs + surplus m' (drop (surplus m cs) cs)"
  by (induction cs) auto

lemma evict_chunks_eq:
  assumes "n \<le> m" and "bytes_held cs + n \<le> usize_MAX" and "\<forall>c \<in> set cs. chunk_bytes c \<noteq> []"
  shows "\<exists>d'. evict_chunks m n cs (bytes_held cs) d
      = (drop (surplus (m - n) cs) cs, bytes_held (drop (surplus (m - n) cs) cs), d')
    \<and> (0 < d' \<longleftrightarrow> 0 < d \<or> 0 < surplus (m - n) cs)"
  using assms(2,3)
proof (induction cs arbitrary: d)
  case Nil
  then show ?case by simp
next
  case (Cons c cs)
  have sum: "sat_add_usize (bytes_held (c # cs)) n = bytes_held (c # cs) + n"
    using Cons.prems(1) by (simp add: sat_add_usize_def)
  have pos: "0 < sat_add_usize d (chunk_len c)" using Cons.prems(2) by (simp add: sat_add_usize_def usize_MAX_def)
  show ?case
  proof (cases "bytes_held (c # cs) + n > m")
    case True
    then have "\<not> bytes_held (c # cs) \<le> m - n" using assms(1) by simp
    with Cons.IH [of "sat_add_usize d (chunk_len c)"] Cons.prems True sum pos show ?thesis by auto
  next
    case False
    then have "bytes_held (c # cs) \<le> m - n" using assms(1) by simp
    with False sum show ?thesis by simp
  qed
qed

text \<open>The buffer that belongs to a log: the longest end of the log that fits, and the numbers that go
  with it.\<close>

definition log_ok :: "nat \<Rightarrow> BackgroundCommandOutputChunk list \<Rightarrow> bool" where
  "log_ok m log \<longleftrightarrow> (\<forall>i < length log. chunk_cursor (log ! i) = Suc i)
     \<and> (\<forall>c \<in> set log. chunk_bytes c \<noteq> [] \<and> chunk_len c \<le> min m MAX_OUTPUT_CHUNK_BYTES)
     \<and> length log \<le> u64_max_nat"

definition ring_of :: "nat \<Rightarrow> BackgroundCommandOutputChunk list \<Rightarrow> OutputRingBuffer \<Rightarrow> bool" where
  "ring_of m log r \<longleftrightarrow> log_ok m log \<and> ring_chunks r = drop (surplus m log) log
     \<and> ring_retained r = bytes_held (ring_chunks r) \<and> ring_next_cursor r = length log
     \<and> (0 < ring_dropped r \<longleftrightarrow> 0 < surplus m log)"

lemma ring_of_new: "ring_of m [] new_ring"
  by (simp add: ring_of_def log_ok_def new_ring_def)

lemma push_chunk_of:
  assumes "ring_of m log r" and "b \<noteq> []" and "length b \<le> min m MAX_OUTPUT_CHUNK_BYTES"
    and "m + MAX_OUTPUT_CHUNK_BYTES \<le> usize_MAX" and "length log < u64_max_nat"
  shows "\<exists>r'. push_chunk stream m b r = (Some (), r')
    \<and> ring_of m (log @ [\<lparr>chunk_cursor = Suc (length log), chunk_stream = stream, chunk_bytes = b\<rparr>]) r'"
proof -
  let ?c = "\<lparr>chunk_cursor = Suc (length log), chunk_stream = stream, chunk_bytes = b\<rparr>"
  let ?e = "surplus m log" and ?n = "length b"
  let ?kept = "drop (surplus (m - ?n) (drop ?e log)) (drop ?e log)"
  have ok: "log_ok m log" and ring: "ring_chunks r = drop ?e log" "ring_retained r = bytes_held (drop ?e log)"
    "ring_next_cursor r = length log" "0 < ring_dropped r \<longleftrightarrow> 0 < ?e"
    using assms(1) by (simp_all add: ring_of_def)
  have ne: "\<forall>c \<in> set (drop ?e log). chunk_bytes c \<noteq> []" using ok in_set_dropD by (fastforce simp: log_ok_def)
  have room: "bytes_held (drop ?e log) + ?n \<le> usize_MAX" and n: "?n \<le> m"
    using surplus_fits [of m log] assms(3,4) by simp_all
  obtain d where d: "evict_chunks m ?n (drop ?e log) (bytes_held (drop ?e log)) (ring_dropped r)
      = (?kept, bytes_held ?kept, d)" "0 < d \<longleftrightarrow> 0 < ring_dropped r \<or> 0 < surplus (m - ?n) (drop ?e log)"
    using evict_chunks_eq [OF n room ne] by blast
  have e': "surplus m (log @ [?c]) = ?e + surplus (m - ?n) (drop ?e log)"
    using surplus_snoc [of ?c m log] surplus_drop [of "m - ?n" m log] assms(3) by simp
  moreover have "surplus (m - ?n) (drop ?e log) \<le> length log - ?e" using surplus_le [of "m - ?n" "drop ?e log"] by simp
  ultimately have kept: "drop (surplus m (log @ [?c])) (log @ [?c]) = ?kept @ [?c]"
    using surplus_le [of m log] by (simp add: add.commute)
  have "bytes_held ?kept \<le> m - ?n" by (rule surplus_fits)
  then have "bytes_held ?kept + ?n \<le> usize_MAX" using n assms(4) by linarith
  then have sum: "sat_add_usize (bytes_held ?kept) ?n = bytes_held ?kept + ?n"
    unfolding sat_add_usize_def by (rule min.absorb2)
  have log': "log_ok m (log @ [?c])"
    using ok assms(2,3,5) by (auto simp: log_ok_def nth_append less_Suc_eq)
  show ?thesis
    using d e' kept sum log' ring assms(5) by (auto simp: push_chunk_def ring_of_def)
qed

lemma chunk_end_loop_less: "chunk_end_loop bs i n = Some j \<Longrightarrow> j < i + length bs"
  by (induction bs i n rule: chunk_end_loop.induct) (auto split: if_splits)

lemma output_chunk_end_le: "output_chunk_end bytes \<le> min (length bytes) MAX_OUTPUT_CHUNK_BYTES"
proof (cases "chunk_end_loop (take (min (length bytes) MAX_OUTPUT_CHUNK_BYTES) bytes) 0 0")
  case None
  then show ?thesis by (simp add: output_chunk_end_def Let_def)
next
  case (Some j)
  with chunk_end_loop_less [OF Some] show ?thesis by (simp add: output_chunk_end_def Let_def)
qed

lemma chunk_split_Nil [simp]: "chunk_split [] = []"
  by (simp add: chunk_split.simps)

lemma concat_chunk_split [simp]: "concat (chunk_split bytes) = bytes"
proof (induction bytes rule: chunk_split.induct)
  case (1 bytes)
  then show ?case by (subst chunk_split.simps) (simp del: chunk_split.simps)
qed

lemma append_loop_of:
  assumes "ring_of m log r" and "length bytes \<le> m" and "m + MAX_OUTPUT_CHUNK_BYTES \<le> usize_MAX"
    and "length log + length (chunk_split bytes) \<le> u64_max_nat"
  shows "\<exists>r'. append_loop stream m bytes r = (Some (), r') \<and> ring_of m (log_write stream bytes log) r'"
  using assms(1,2,4)
proof (induction bytes arbitrary: log r rule: chunk_split.induct)
  case (1 bytes)
  show ?case
  proof (cases "bytes = []")
    case True
    then show ?thesis using "1.prems"(1) by (simp add: append_loop.simps log_write_def)
  next
    case False
    let ?k = "output_chunk_end bytes"
    let ?c = "\<lparr>chunk_cursor = Suc (length log), chunk_stream = stream, chunk_bytes = take ?k bytes\<rparr>"
    have split: "chunk_split bytes = take ?k bytes # chunk_split (drop ?k bytes)"
      using False by (subst chunk_split.simps) simp
    have "take ?k bytes \<noteq> []" "length (take ?k bytes) \<le> min m MAX_OUTPUT_CHUNK_BYTES"
      using False output_chunk_end_pos [OF False] output_chunk_end_le [of bytes] "1.prems"(2) by auto
    moreover have "length log < u64_max_nat" using "1.prems"(3) split by simp
    ultimately obtain r1 where r1: "push_chunk stream m (take ?k bytes) r = (Some (), r1)"
      "ring_of m (log @ [?c]) r1"
      using push_chunk_of [OF "1.prems"(1) _ _ assms(3)] by blast
    have "length (drop ?k bytes) \<le> m" "length (log @ [?c]) + length (chunk_split (drop ?k bytes)) \<le> u64_max_nat"
      using "1.prems"(2,3) split by auto
    with "1.IH" [OF False r1(2)] obtain r' where
      r': "append_loop stream m (drop ?k bytes) r1 = (Some (), r')"
        "ring_of m (log_write stream (drop ?k bytes) (log @ [?c])) r'" by blast
    have "log_write stream (drop ?k bytes) (log @ [?c]) = log_write stream bytes log"
      by (simp add: log_write_def split)
    with r' r1(1) False show ?thesis by (subst append_loop.simps) (simp add: Let_def)
  qed
qed

lemma ring_append_of:
  assumes "ring_of m log r" and "length bytes \<le> m" and "m + MAX_OUTPUT_CHUNK_BYTES \<le> usize_MAX"
    and "length log + length (chunk_split bytes) \<le> u64_max_nat"
  shows "\<exists>r'. ring_append stream bytes m r = (Some (), r') \<and> ring_of m (log_write stream bytes log) r'"
  using append_loop_of [OF assms, of stream] assms(1,2) by (simp add: ring_append_def log_write_def)

section \<open>Reading\<close>

lemma filter_after:
  assumes "\<forall>i < length log. chunk_cursor (log ! i) = Suc i"
  shows "filter (\<lambda>c. chunk_cursor c > a) (drop e log) = drop (max a e) log"
proof -
  have "filter (\<lambda>c. chunk_cursor c > a) (drop k log) = drop (max a k) log" if "k \<le> length log" for k
    using that
  proof (induction "length log - k" arbitrary: k)
    case 0
    then show ?case by simp
  next
    case (Suc n)
    then have k: "k < length log" by simp
    then have d: "drop k log = log ! k # drop (Suc k) log" by (simp add: Cons_nth_drop_Suc)
    have "filter (\<lambda>c. chunk_cursor c > a) (drop (Suc k) log) = drop (max a (Suc k)) log"
      using Suc.hyps(1) [of "Suc k"] Suc.hyps(2) k by simp
    then show ?case using assms k d by (cases "a \<le> k"; cases "a = Suc k") (simp_all add: max_def)
  qed
  then show ?thesis by (cases "e \<le> length log") simp_all
qed

lemma surplus_less: "\<forall>c \<in> set log. chunk_len c \<le> m \<Longrightarrow> log \<noteq> [] \<Longrightarrow> surplus m log < length log"
proof (induction log)
  case (Cons c cs)
  then show ?case by (cases "cs = []") auto
qed simp

text \<open>A read after cursor \<open>a\<close> returns the chunks after the first \<open>a\<close> that are still kept, and
  says that the cursor is expired exactly when one of them is gone.\<close>

lemma read_after_of:
  assumes "ring_of m log r"
  shows "out_chunks (read_after cid (Some a) r) = drop (max a (surplus m log)) log"
    and "out_cursor_expired (read_after cid (Some a) r) \<longleftrightarrow> a < surplus m log"
    and "out_chunks (read_after cid None r) = drop (surplus m log) log"
    and "out_next_cursor (read_after cid b r) = length log"
    and "out_earliest_cursor (read_after cid b r) = (if log = [] then None else Some (Suc (surplus m log)))"
    and "out_truncated (read_after cid b r) \<longleftrightarrow> 0 < surplus m log"
proof -
  let ?e = "surplus m log"
  have ok: "\<forall>i < length log. chunk_cursor (log ! i) = Suc i" and ch: "ring_chunks r = drop ?e log"
    and dr: "0 < ring_dropped r \<longleftrightarrow> 0 < ?e" and nx: "ring_next_cursor r = length log"
    and le: "\<forall>c \<in> set log. chunk_len c \<le> m"
    using assms by (auto simp: ring_of_def log_ok_def)
  note some = surplus_less [OF le]
  show "out_chunks (read_after cid (Some a) r) = drop (max a ?e) log"
    using filter_after [OF ok] by (simp add: read_after_def Let_def ch)
  show "out_chunks (read_after cid None r) = drop ?e log" by (simp add: read_after_def Let_def ch)
  show "out_next_cursor (read_after cid b r) = length log" by (simp add: read_after_def Let_def nx)
  show "out_truncated (read_after cid b r) \<longleftrightarrow> 0 < ?e" by (simp add: read_after_def Let_def dr)
  have first: "(case ring_chunks r of [] \<Rightarrow> None | c # _ \<Rightarrow> Some (chunk_cursor c))
      = (if log = [] then None else Some (Suc ?e))"
    using some ok ch by (cases "log = []") (auto simp: Cons_nth_drop_Suc [symmetric])
  show "out_earliest_cursor (read_after cid b r) = (if log = [] then None else Some (Suc ?e))"
    using first by (simp add: read_after_def Let_def)
  show "out_cursor_expired (read_after cid (Some a) r) \<longleftrightarrow> a < ?e"
    using first dr by (auto simp: read_after_def Let_def)
qed

section \<open>A sequence of writes\<close>

text \<open>The two reader threads append what they read in the order in which they get the lock; a reader
  stops when an append fails.\<close>

fun ring_writes :: "nat \<Rightarrow> (BackgroundCommandOutputStream \<times> nat list) list \<Rightarrow> OutputRingBuffer
    \<Rightarrow> unit option \<times> OutputRingBuffer" where
  "ring_writes m [] r = (Some (), r)"
| "ring_writes m ((stream, bytes) # ws) r =
     (case ring_append stream bytes m r of (None, r') \<Rightarrow> (None, r') | (Some _, r') \<Rightarrow> ring_writes m ws r')"

fun log_writes :: "(BackgroundCommandOutputStream \<times> nat list) list \<Rightarrow> BackgroundCommandOutputChunk list
    \<Rightarrow> BackgroundCommandOutputChunk list" where
  "log_writes [] log = log"
| "log_writes ((stream, bytes) # ws) log = log_writes ws (log_write stream bytes log)"

definition stream_bytes :: "BackgroundCommandOutputStream \<Rightarrow> BackgroundCommandOutputChunk list \<Rightarrow> nat list" where
  "stream_bytes s cs = concat (map chunk_bytes (filter (\<lambda>c. chunk_stream c = s) cs))"

definition written :: "BackgroundCommandOutputStream \<Rightarrow> (BackgroundCommandOutputStream \<times> nat list) list \<Rightarrow> nat list" where
  "written s ws = concat (map snd (filter (\<lambda>w. fst w = s) ws))"

lemma length_number_chunks [simp]: "length (number_chunks s n bs) = length bs"
  by (induction bs arbitrary: n) auto

lemma stream_bytes_number: "stream_bytes s (number_chunks t n bs) = (if s = t then concat bs else [])"
  by (induction bs arbitrary: n) (auto simp: stream_bytes_def)

lemma stream_bytes_log_writes: "stream_bytes s (log_writes ws log) = stream_bytes s log @ written s ws"
proof (induction ws log rule: log_writes.induct)
  case (2 t bytes ws log)
  have "stream_bytes s (log_write t bytes log) = stream_bytes s log @ (if s = t then bytes else [])"
    using stream_bytes_number [of s t "length log" "chunk_split bytes"]
    by (simp add: log_write_def stream_bytes_def)
  with 2 show ?case by (auto simp: written_def)
qed (simp add: written_def)

lemma length_chunk_split: "length (chunk_split bytes) \<le> length bytes"
proof (induction bytes rule: chunk_split.induct)
  case (1 bytes)
  show ?case
  proof (cases "bytes = []")
    case False
    then have "length (drop (output_chunk_end bytes) bytes) < length bytes" using output_chunk_end_pos by simp
    with 1 [OF False] False show ?thesis by (subst chunk_split.simps) simp
  qed simp
qed

lemma ring_writes_of:
  assumes "ring_of m log r" and "\<forall>w \<in> set ws. length (snd w) \<le> m" and "m + MAX_OUTPUT_CHUNK_BYTES \<le> usize_MAX"
    and "length log + sum_list (map (\<lambda>w. length (snd w)) ws) \<le> u64_max_nat"
  shows "\<exists>r'. ring_writes m ws r = (Some (), r') \<and> ring_of m (log_writes ws log) r'"
  using assms(1,2,4)
proof (induction ws arbitrary: log r)
  case (Cons w ws)
  obtain s b where w: "w = (s, b)" by fastforce
  have "length log + length (chunk_split b) \<le> u64_max_nat"
    using Cons.prems(3) length_chunk_split [of b] w by simp
  with Cons.prems(1,2) w obtain r1 where r1: "ring_append s b m r = (Some (), r1)" "ring_of m (log_write s b log) r1"
    using ring_append_of [OF Cons.prems(1) _ assms(3), of b s] by auto
  have "length (log_write s b log) + sum_list (map (\<lambda>w. length (snd w)) ws) \<le> u64_max_nat"
    using Cons.prems(3) length_chunk_split [of b] w by (simp add: log_write_def)
  with Cons.IH [OF r1(2)] Cons.prems(2) obtain r' where
    "ring_writes m ws r1 = (Some (), r')" "ring_of m (log_writes ws (log_write s b log)) r'" by auto
  with r1(1) w show ?case by simp
qed simp

text \<open>C34: the output buffer of a command refines an append-only log of all its output. However the
  output of the two streams arrives, the log holds the bytes of each stream in order, cut into
  chunks numbered from one; the buffer is the longest end of the log that fits the limit; and a read
  after a cursor returns everything that followed it unless the response says that the cursor is
  expired, which it says exactly when something is missing.\<close>

theorem ring_refines_log:
  assumes "\<forall>w \<in> set ws. length (snd w) \<le> m" and "m + MAX_OUTPUT_CHUNK_BYTES \<le> usize_MAX"
    and "sum_list (map (\<lambda>w. length (snd w)) ws) \<le> u64_max_nat"
  shows "\<exists>r log. ring_writes m ws new_ring = (Some (), r)
    \<and> (\<forall>s. stream_bytes s log = written s ws)
    \<and> (\<forall>i < length log. chunk_cursor (log ! i) = Suc i)
    \<and> (\<exists>e \<le> length log. ring_chunks r = drop e log \<and> bytes_held (drop e log) \<le> m
         \<and> (\<forall>i < e. m < bytes_held (drop i log)))
    \<and> (\<forall>a cid. out_cursor_expired (read_after cid (Some a) r) \<longleftrightarrow> out_chunks (read_after cid (Some a) r) \<noteq> drop a log)"
proof -
  let ?log = "log_writes ws []" and ?e = "surplus m (log_writes ws [])"
  obtain r where run: "ring_writes m ws new_ring = (Some (), r)" and r: "ring_of m ?log r"
    using ring_writes_of [OF ring_of_new assms(1,2)] assms(3) by auto
  have streams: "\<forall>s. stream_bytes s ?log = written s ws"
    using stream_bytes_log_writes [of _ ws "[]"] by (simp add: stream_bytes_def)
  have expired: "out_cursor_expired (read_after cid (Some a) r) \<longleftrightarrow> out_chunks (read_after cid (Some a) r) \<noteq> drop a ?log"
    for a cid
  proof -
    have "drop (max a ?e) ?log = drop a ?log \<longleftrightarrow> \<not> a < ?e"
    proof (cases "a < ?e")
      case True
      then have "length (drop (max a ?e) ?log) \<noteq> length (drop a ?log)" using surplus_le [of m ?log] by simp
      with True show ?thesis by metis
    qed simp
    with read_after_of(1,2) [OF r] show ?thesis by simp
  qed
  have "ring_chunks r = drop ?e ?log" "\<forall>i < length ?log. chunk_cursor (?log ! i) = Suc i"
    using r by (simp_all add: ring_of_def log_ok_def)
  with run streams expired surplus_le [of m ?log] surplus_fits [of m ?log] surplus_least [of _ m ?log]
  show ?thesis by blast
qed

theorem ring_refines_log_witness:
  "\<exists>r log. ring_writes 3 [(Stdout, [104, 105]), (Stderr, [33, 33])] new_ring = (Some (), r)
    \<and> stream_bytes Stdout log = [104, 105] \<and> stream_bytes Stderr log = [33, 33]
    \<and> (\<exists>e \<le> length log. ring_chunks r = drop e log \<and> bytes_held (drop e log) \<le> 3
         \<and> (\<forall>i < e. 3 < bytes_held (drop i log)))"
proof -
  let ?ws = "[(Stdout, [104, 105]), (Stderr, [33, 33])] :: (BackgroundCommandOutputStream \<times> nat list) list"
  obtain r log where "ring_writes 3 ?ws new_ring = (Some (), r)" "\<forall>s. stream_bytes s log = written s ?ws"
    "\<exists>e \<le> length log. ring_chunks r = drop e log \<and> bytes_held (drop e log) \<le> 3
      \<and> (\<forall>i < e. 3 < bytes_held (drop i log))"
    using ring_refines_log [where m = 3 and ws = ?ws]
    by (auto simp: MAX_OUTPUT_CHUNK_BYTES_def usize_MAX_def u64_max_nat_def)
  then show ?thesis by (intro exI [of _ r] exI [of _ log]) (simp add: written_def)
qed

end
