(* ===== verification/Command_Registry.thy ===== *)
theory Command_Registry
  imports Command_Ring "HOL-Library.AList"
begin

text \<open>
  The registry of managed background commands (\<open>tools/background_command.rs\<close>): slots per
  workspace, the entry of a command with its life cycle, the rounds of the monitor thread, and the
  requests to stop. Entries are shared between the registry and the monitor threads, so they live in a
  list and are named by their index; every operation that holds a lock is one function. Times are
  natural numbers of nanoseconds. What the operating system answers (the canonical form of a path, the
  outcome of a spawn, the exit status) is an argument.
\<close>

section \<open>Data\<close>

type_synonym rpath = "rstr list"

definition MAX_BACKGROUND_COMMANDS_PER_WORKSPACE :: nat where "MAX_BACKGROUND_COMMANDS_PER_WORKSPACE = 16"
definition MAX_BACKGROUND_COMMAND_OUTPUT_BYTES :: nat where "MAX_BACKGROUND_COMMAND_OUTPUT_BYTES = 1024 * 1024"
definition BACKGROUND_COMMAND_RETENTION :: nat where "BACKGROUND_COMMAND_RETENTION = 30 * 60 * 1000000000"
definition TERMINATION_GRACE_PERIOD :: nat where "TERMINATION_GRACE_PERIOD = 500 * 1000000"

record BackgroundCommandLimits =
  max_active_per_workspace :: nat
  max_output_bytes_per_command :: nat
  completed_retention :: nat

definition default_limits :: BackgroundCommandLimits where
  "default_limits = \<lparr>max_active_per_workspace = MAX_BACKGROUND_COMMANDS_PER_WORKSPACE,
     max_output_bytes_per_command = MAX_BACKGROUND_COMMAND_OUTPUT_BYTES,
     completed_retention = BACKGROUND_COMMAND_RETENTION\<rparr>"

definition with_limits :: "BackgroundCommandLimits \<Rightarrow> BackgroundCommandLimits" where
  "with_limits limits = \<lparr>max_active_per_workspace = max (max_active_per_workspace limits) 1,
     max_output_bytes_per_command = max (max_output_bytes_per_command limits) 1,
     completed_retention = completed_retention limits\<rparr>"

datatype BackgroundCommandStatus = Running | Exited | Stopped | TimedOut | Failed

definition is_terminal :: "BackgroundCommandStatus \<Rightarrow> bool" where
  "is_terminal s \<longleftrightarrow> s \<noteq> Running"

datatype BackgroundCommandTermination = ExplicitStop | Timeout | HostShutdown

datatype TerminationAction = Graceful | Force

record RequestedTermination =
  req_reason :: BackgroundCommandTermination
  requested_at :: nat
  graceful_signal_sent :: bool
  force_kill_sent :: bool

record BackgroundCommandEntryState =
  bg_status :: BackgroundCommandStatus
  bg_ended_at :: "nat option"
  ended_monotonic :: "nat option"
  bg_exit_code :: "int option"
  bg_termination :: "BackgroundCommandTermination option"
  bg_error :: "rstr option"
  requested_termination :: "RequestedTermination option"
  bg_output :: OutputRingBuffer

record BackgroundCommandEntry =
  bg_command_id :: rstr
  bg_pid :: nat
  bg_workspace_path :: rpath
  bg_cwd :: rpath
  bg_command :: rstr
  bg_args :: "rstr list"
  owner_chat_id :: "rstr option"
  owner_run_id :: "rstr option"
  bg_started_at :: nat
  started_monotonic :: nat
  bg_timeout :: "nat option"
  output_limit :: nat
  entry_state :: BackgroundCommandEntryState

record BackgroundCommandSnapshot =
  snap_command_id :: rstr
  snap_pid :: nat
  snap_workspace_path :: rpath
  snap_cwd :: rpath
  snap_command :: rstr
  snap_args :: "rstr list"
  snap_owner_chat_id :: "rstr option"
  snap_owner_run_id :: "rstr option"
  snap_started_at :: nat
  snap_ended_at :: "nat option"
  snap_status :: BackgroundCommandStatus
  snap_exit_code :: "int option"
  snap_termination :: "BackgroundCommandTermination option"
  snap_error :: "rstr option"
  snap_retained :: nat
  snap_dropped :: nat

datatype BackgroundCommandError =
  CommandNotFound rstr
| InvalidWorkspace rpath rpath
| WorkspaceProcessLimit rpath nat
| Spawn rstr rstr
| MonitorInitialization rstr
| CursorExhausted
| WaitTimedOut rstr nat
| WaitCancelled rstr

record RegistryState =
  reg_entries :: "(rstr \<times> nat) list"
  pending_starts :: "rpath \<Rightarrow> nat option"
  next_command_sequence :: nat

definition new_registry :: RegistryState where
  "new_registry = \<lparr>reg_entries = [], pending_starts = (\<lambda>_. None), next_command_sequence = 0\<rparr>"

type_synonym entry_heap = "BackgroundCommandEntry list"

section \<open>An entry\<close>

definition new_entry_state :: BackgroundCommandEntryState where
  "new_entry_state = \<lparr>bg_status = Running, bg_ended_at = None, ended_monotonic = None, bg_exit_code = None,
     bg_termination = None, bg_error = None, requested_termination = None, bg_output = new_ring\<rparr>"

definition entry_snapshot :: "BackgroundCommandEntry \<Rightarrow> BackgroundCommandSnapshot" where
  "entry_snapshot e = (let st = entry_state e in
     \<lparr>snap_command_id = bg_command_id e, snap_pid = bg_pid e, snap_workspace_path = bg_workspace_path e,
      snap_cwd = bg_cwd e, snap_command = bg_command e, snap_args = bg_args e,
      snap_owner_chat_id = owner_chat_id e, snap_owner_run_id = owner_run_id e,
      snap_started_at = bg_started_at e, snap_ended_at = bg_ended_at st, snap_status = bg_status st,
      snap_exit_code = bg_exit_code st, snap_termination = bg_termination st, snap_error = bg_error st,
      snap_retained = ring_retained (bg_output st), snap_dropped = ring_dropped (bg_output st)\<rparr>)"

definition terminal_snapshot_before :: "nat \<Rightarrow> BackgroundCommandEntry \<Rightarrow> BackgroundCommandSnapshot option" where
  "terminal_snapshot_before deadline e =
     (if is_terminal (bg_status (entry_state e))
         \<and> (case ended_monotonic (entry_state e) of Some ended_at \<Rightarrow> ended_at \<le> deadline | None \<Rightarrow> False)
      then Some (entry_snapshot e) else None)"

definition append_output :: "BackgroundCommandOutputStream \<Rightarrow> nat list \<Rightarrow> BackgroundCommandEntry
    \<Rightarrow> unit option \<times> BackgroundCommandEntry" where
  "append_output stream bytes e =
     (let (r, ring) = ring_append stream bytes (output_limit e) (bg_output (entry_state e))
      in (r, e\<lparr>entry_state := (entry_state e)\<lparr>bg_output := ring\<rparr>\<rparr>))"

definition request_termination :: "nat \<Rightarrow> BackgroundCommandTermination \<Rightarrow> BackgroundCommandEntry
    \<Rightarrow> bool \<times> BackgroundCommandEntry" where
  "request_termination now reason e =
     (if is_terminal (bg_status (entry_state e)) \<or> requested_termination (entry_state e) \<noteq> None then (False, e)
      else (True, e\<lparr>entry_state := (entry_state e)\<lparr>requested_termination :=
        Some \<lparr>req_reason = reason, requested_at = now, graceful_signal_sent = False, force_kill_sent = False\<rparr>\<rparr>\<rparr>))"

definition termination_action :: "nat \<Rightarrow> BackgroundCommandEntry \<Rightarrow> TerminationAction option \<times> BackgroundCommandEntry" where
  "termination_action now e =
     (case requested_termination (entry_state e) of
        None \<Rightarrow> (None, e)
      | Some q \<Rightarrow>
          if \<not> graceful_signal_sent q then
            (Some Graceful, e\<lparr>entry_state := (entry_state e)\<lparr>requested_termination :=
               Some (q\<lparr>graceful_signal_sent := True\<rparr>)\<rparr>\<rparr>)
          else if \<not> force_kill_sent q \<and> now - requested_at q \<ge> TERMINATION_GRACE_PERIOD then
            (Some Force, e\<lparr>entry_state := (entry_state e)\<lparr>requested_termination :=
               Some (q\<lparr>force_kill_sent := True\<rparr>)\<rparr>\<rparr>)
          else (None, e))"

definition termination_reason :: "BackgroundCommandEntry \<Rightarrow> BackgroundCommandTermination option" where
  "termination_reason e = map_option req_reason (requested_termination (entry_state e))"

definition check_timeout :: "nat \<Rightarrow> BackgroundCommandEntry \<Rightarrow> BackgroundCommandEntry" where
  "check_timeout now e =
     (case bg_timeout e of
        Some timeout \<Rightarrow>
          if now - started_monotonic e \<ge> timeout then snd (request_termination now Timeout e) else e
      | None \<Rightarrow> e)"

definition entry_finish :: "nat \<Rightarrow> nat \<Rightarrow> BackgroundCommandStatus \<Rightarrow> int option \<Rightarrow> rstr option
    \<Rightarrow> BackgroundCommandEntry \<Rightarrow> BackgroundCommandEntry" where
  "entry_finish wall now status exit_code error e =
     (if is_terminal (bg_status (entry_state e)) then e
      else e\<lparr>entry_state := (entry_state e)\<lparr>bg_status := status, bg_ended_at := Some wall,
             ended_monotonic := Some now, bg_exit_code := exit_code,
             bg_termination := termination_reason e, bg_error := error\<rparr>\<rparr>)"

section \<open>The monitor\<close>

text \<open>One round of the loop before \<open>try_wait\<close>.\<close>

definition monitor_round :: "nat \<Rightarrow> BackgroundCommandEntry \<Rightarrow> TerminationAction option \<times> BackgroundCommandEntry" where
  "monitor_round now e = termination_action now (check_timeout now e)"

text \<open>What the monitor decides when the process has exited and the readers have been joined.\<close>

definition monitor_decision :: "rstr option \<Rightarrow> rstr option \<Rightarrow> BackgroundCommandEntry
    \<Rightarrow> BackgroundCommandStatus \<times> rstr option" where
  "monitor_decision stdout_error stderr_error e =
     (case (case stdout_error of Some x \<Rightarrow> Some x | None \<Rightarrow> stderr_error) of
        Some error \<Rightarrow> (Failed, Some error)
      | None \<Rightarrow>
          (case termination_reason e of
             Some Timeout \<Rightarrow> (TimedOut, None)
           | Some _ \<Rightarrow> (Stopped, None)
           | None \<Rightarrow> (Exited, None)))"

definition wait_failed_error :: "rstr \<Rightarrow> rstr" where
  "wait_failed_error source = lit ''failed to wait for managed command: '' @ source"

text \<open>The signals that a sequence of rounds sends.\<close>

fun monitor_rounds :: "nat list \<Rightarrow> BackgroundCommandEntry \<Rightarrow> TerminationAction list \<times> BackgroundCommandEntry" where
  "monitor_rounds [] e = ([], e)"
| "monitor_rounds (now # ts) e =
     (let (a, e1) = monitor_round now e; (sent, e2) = monitor_rounds ts e1
      in (case a of Some x \<Rightarrow> x # sent | None \<Rightarrow> sent, e2))"

section \<open>The registry\<close>

definition get_entry :: "entry_heap \<Rightarrow> nat \<Rightarrow> BackgroundCommandEntry option" where
  "get_entry h i = (if i < length h then Some (h ! i) else None)"

definition retained_entry :: "nat \<Rightarrow> nat \<Rightarrow> BackgroundCommandEntry \<Rightarrow> bool" where
  "retained_entry now retention e \<longleftrightarrow> \<not> is_terminal (bg_status (entry_state e))
     \<or> (case ended_monotonic (entry_state e) of None \<Rightarrow> True | Some ended \<Rightarrow> now - ended < retention)"

definition prune_completed_entries :: "nat \<Rightarrow> nat \<Rightarrow> entry_heap \<Rightarrow> RegistryState \<Rightarrow> RegistryState" where
  "prune_completed_entries now retention h st =
     st\<lparr>reg_entries := filter (\<lambda>(_, i). retained_entry now retention (h ! i)) (reg_entries st)\<rparr>"

definition active_commands :: "rpath \<Rightarrow> entry_heap \<Rightarrow> RegistryState \<Rightarrow> nat" where
  "active_commands workspace_path h st =
     length (filter (\<lambda>(_, i). bg_workspace_path (h ! i) = workspace_path
       \<and> snap_status (entry_snapshot (h ! i)) = Running) (reg_entries st))"

definition pending_commands :: "rpath \<Rightarrow> RegistryState \<Rightarrow> nat" where
  "pending_commands workspace_path st =
     (case pending_starts st workspace_path of Some n \<Rightarrow> n | None \<Rightarrow> 0)"

text \<open>\<open>{:016x}\<close> of a \<open>u64\<close>.\<close>

definition hex_digit :: "nat \<Rightarrow> rchar" where
  "hex_digit d = (if d < 10 then 48 + d else 87 + d)"

definition hex16 :: "nat \<Rightarrow> rstr" where
  "hex16 n = map (\<lambda>i. hex_digit (n div 16 ^ (15 - i) mod 16)) [0..<16]"

definition reserve_command_slot :: "nat \<Rightarrow> BackgroundCommandLimits \<Rightarrow> rpath \<Rightarrow> entry_heap \<Rightarrow> RegistryState
    \<Rightarrow> (BackgroundCommandError + rstr) \<times> RegistryState" where
  "reserve_command_slot now limits workspace_path h st0 =
     (let st = prune_completed_entries now (completed_retention limits) h st0
      in if sat_add_usize (active_commands workspace_path h st) (pending_commands workspace_path st)
            \<ge> max_active_per_workspace limits
         then (Inl (WorkspaceProcessLimit workspace_path (max_active_per_workspace limits)), st)
         else (let sequence = min u64_max_nat (next_command_sequence st + 1)
               in (Inr (lit ''command-'' @ hex16 sequence),
                   st\<lparr>next_command_sequence := sequence,
                      pending_starts := (pending_starts st)
                        (workspace_path \<mapsto> pending_commands workspace_path st + 1)\<rparr>)))"

definition release_pending_slot :: "rpath \<Rightarrow> RegistryState \<Rightarrow> RegistryState" where
  "release_pending_slot workspace_path st =
     (case pending_starts st workspace_path of
        Some n \<Rightarrow> st\<lparr>pending_starts := (pending_starts st)
          (workspace_path := (if n - 1 = 0 then None else Some (n - 1)))\<rparr>
      | None \<Rightarrow> st)"

definition publish_command :: "rstr \<Rightarrow> nat \<Rightarrow> rpath \<Rightarrow> RegistryState \<Rightarrow> RegistryState" where
  "publish_command command_id i workspace_path st0 =
     (let st = release_pending_slot workspace_path st0
      in st\<lparr>reg_entries := AList.update command_id i (reg_entries st)\<rparr>)"

definition find_entry :: "rstr \<Rightarrow> RegistryState \<Rightarrow> BackgroundCommandError + nat" where
  "find_entry command_id st =
     (case map_of (reg_entries st) command_id of Some i \<Rightarrow> Inr i | None \<Rightarrow> Inl (CommandNotFound command_id))"

section \<open>Starting\<close>

record BackgroundCommandRequest =
  rq_workspace_path :: rpath
  rq_cwd :: rpath
  rq_command :: rstr
  rq_args :: "rstr list"
  rq_owner_chat_id :: "rstr option"
  rq_owner_run_id :: "rstr option"
  rq_timeout :: "nat option"

definition normalize_execution_paths :: "(rpath \<Rightarrow> rstr + rpath) \<Rightarrow> rpath \<Rightarrow> rpath
    \<Rightarrow> BackgroundCommandError + (rpath \<times> rpath)" where
  "normalize_execution_paths canonicalize workspace_path cwd =
     (case canonicalize workspace_path of
        Inl source \<Rightarrow> Inl (Spawn (lit ''canonicalize execution workspace'') source)
      | Inr workspace \<Rightarrow>
          (case canonicalize cwd of
             Inl source \<Rightarrow> Inl (Spawn (lit ''canonicalize command cwd'') source)
           | Inr dir \<Rightarrow>
               if take (length workspace) dir \<noteq> workspace then Inl (InvalidWorkspace workspace dir)
               else Inr (workspace, dir)))"

definition command_label :: "rstr \<Rightarrow> rstr list \<Rightarrow> rstr" where
  "command_label command args = (if args = [] then command else command @ lit '' '' @ join (lit '' '') args)"

text \<open>What the operating system answers to a start: the process, and whether its pipes and the three
  threads can be had.\<close>

datatype SpawnOutcome =
  SpawnError rstr
| NoPipe rstr
| ThreadError rstr nat
| Spawned nat

definition new_entry :: "BackgroundCommandLimits \<Rightarrow> rstr \<Rightarrow> nat \<Rightarrow> nat \<Rightarrow> nat \<Rightarrow> rpath \<Rightarrow> rpath
    \<Rightarrow> BackgroundCommandRequest \<Rightarrow> BackgroundCommandEntry" where
  "new_entry limits command_id pid wall now workspace_path cwd rq =
     \<lparr>bg_command_id = command_id, bg_pid = pid, bg_workspace_path = workspace_path, bg_cwd = cwd,
      bg_command = rq_command rq, bg_args = rq_args rq, owner_chat_id = rq_owner_chat_id rq,
      owner_run_id = rq_owner_run_id rq, bg_started_at = wall, started_monotonic = now,
      bg_timeout = rq_timeout rq, output_limit = max_output_bytes_per_command limits,
      entry_state = new_entry_state\<rparr>"

text \<open>\<open>start\<close> up to the reservation, and from the answer of the operating system on. Other threads
  may run between the two, and between the creation of the entry and its publication.\<close>

definition start_reserve :: "(rpath \<Rightarrow> rstr + rpath) \<Rightarrow> nat \<Rightarrow> BackgroundCommandLimits \<Rightarrow> BackgroundCommandRequest
    \<Rightarrow> entry_heap \<Rightarrow> RegistryState \<Rightarrow> (BackgroundCommandError + (rstr \<times> rpath \<times> rpath)) \<times> RegistryState" where
  "start_reserve canonicalize now limits rq h st =
     (case normalize_execution_paths canonicalize (rq_workspace_path rq) (rq_cwd rq) of
        Inl e \<Rightarrow> (Inl e, st)
      | Inr (workspace_path, cwd) \<Rightarrow>
          (case reserve_command_slot now limits workspace_path h st of
             (Inl e, st') \<Rightarrow> (Inl e, st')
           | (Inr command_id, st') \<Rightarrow> (Inr (command_id, workspace_path, cwd), st')))"

definition start_failed :: "BackgroundCommandRequest \<Rightarrow> SpawnOutcome \<Rightarrow> BackgroundCommandError option" where
  "start_failed rq outcome =
     (case outcome of
        SpawnError source \<Rightarrow> Some (Spawn (command_label (rq_command rq) (rq_args rq)) source)
      | NoPipe which \<Rightarrow> Some (MonitorInitialization (lit ''failed to capture managed command '' @ which))
      | ThreadError source _ \<Rightarrow> Some (MonitorInitialization source)
      | Spawned _ \<Rightarrow> None)"

section \<open>Inspecting and stopping\<close>

definition command_snapshot :: "nat \<Rightarrow> BackgroundCommandLimits \<Rightarrow> rstr \<Rightarrow> entry_heap \<Rightarrow> RegistryState
    \<Rightarrow> (BackgroundCommandError + BackgroundCommandSnapshot) \<times> RegistryState" where
  "command_snapshot now limits command_id h st0 =
     (let st = prune_completed_entries now (completed_retention limits) h st0
      in (case find_entry command_id st of Inl e \<Rightarrow> Inl e | Inr i \<Rightarrow> Inr (entry_snapshot (h ! i)), st))"

definition output_after :: "nat \<Rightarrow> BackgroundCommandLimits \<Rightarrow> rstr \<Rightarrow> nat option \<Rightarrow> entry_heap \<Rightarrow> RegistryState
    \<Rightarrow> (BackgroundCommandError + BackgroundCommandOutput) \<times> RegistryState" where
  "output_after now limits command_id after_cursor h st0 =
     (let st = prune_completed_entries now (completed_retention limits) h st0
      in (case find_entry command_id st of
            Inl e \<Rightarrow> Inl e
          | Inr i \<Rightarrow> Inr (read_after (bg_command_id (h ! i)) after_cursor (bg_output (entry_state (h ! i)))), st))"

definition stop_command_entry :: "nat \<Rightarrow> rstr \<Rightarrow> RegistryState \<Rightarrow> entry_heap
    \<Rightarrow> (BackgroundCommandError + BackgroundCommandSnapshot) \<times> entry_heap" where
  "stop_command_entry now command_id st h =
     (case find_entry command_id st of
        Inl e \<Rightarrow> (Inl e, h)
      | Inr i \<Rightarrow> (let e = snd (request_termination now ExplicitStop (h ! i))
                 in (Inr (entry_snapshot e), h[i := e])))"

fun request_all :: "nat \<Rightarrow> BackgroundCommandTermination \<Rightarrow> nat list \<Rightarrow> entry_heap \<Rightarrow> nat \<times> entry_heap" where
  "request_all now reason [] h = (0, h)"
| "request_all now reason (i # js) h =
     (let (newly, e) = request_termination now reason (h ! i);
          (n, h') = request_all now reason js (h[i := e])
      in (if newly then Suc n else n, h'))"

definition stop_matching :: "nat \<Rightarrow> (BackgroundCommandEntry \<Rightarrow> bool) \<Rightarrow> RegistryState \<Rightarrow> entry_heap
    \<Rightarrow> nat \<times> entry_heap" where
  "stop_matching now selected st h =
     request_all now ExplicitStop (map snd (filter (\<lambda>(_, i). selected (h ! i)) (reg_entries st))) h"

definition stop_for_chat :: "nat \<Rightarrow> rstr \<Rightarrow> RegistryState \<Rightarrow> entry_heap \<Rightarrow> nat \<times> entry_heap" where
  "stop_for_chat now chat_id st h = stop_matching now (\<lambda>e. owner_chat_id e = Some chat_id) st h"

text \<open>\<open>workspace_owner_path\<close>: the flag of an error says that the directory is gone.\<close>

definition workspace_owner_path :: "(rpath \<Rightarrow> (bool \<times> rstr) + rpath) \<Rightarrow> rpath \<Rightarrow> BackgroundCommandError + rpath" where
  "workspace_owner_path canonicalize workspace_path =
     (case canonicalize workspace_path of
        Inr p \<Rightarrow> Inr p
      | Inl (is_gone, source) \<Rightarrow>
          if is_gone then Inr workspace_path
          else Inl (Spawn (lit ''canonicalize execution workspace'') source))"

definition stop_for_workspace :: "(rpath \<Rightarrow> (bool \<times> rstr) + rpath) \<Rightarrow> nat \<Rightarrow> rpath \<Rightarrow> RegistryState \<Rightarrow> entry_heap
    \<Rightarrow> (BackgroundCommandError + nat) \<times> entry_heap" where
  "stop_for_workspace canonicalize now workspace_path st h =
     (case workspace_owner_path canonicalize workspace_path of
        Inl e \<Rightarrow> (Inl e, h)
      | Inr w \<Rightarrow> (let (n, h') = stop_matching now (\<lambda>e. bg_workspace_path e = w) st h in (Inr n, h')))"

definition stop_for_workspace_chat :: "(rpath \<Rightarrow> (bool \<times> rstr) + rpath) \<Rightarrow> nat \<Rightarrow> rpath \<Rightarrow> rstr \<Rightarrow> RegistryState
    \<Rightarrow> entry_heap \<Rightarrow> (BackgroundCommandError + nat) \<times> entry_heap" where
  "stop_for_workspace_chat canonicalize now workspace_path chat_id st h =
     (case workspace_owner_path canonicalize workspace_path of
        Inl e \<Rightarrow> (Inl e, h)
      | Inr w \<Rightarrow> (let (n, h') = stop_matching now
                      (\<lambda>e. bg_workspace_path e = w \<and> owner_chat_id e = Some chat_id) st h in (Inr n, h')))"

text \<open>\<open>shutdown_all\<close> also names the processes that are killed at once.\<close>

definition shutdown_all :: "nat \<Rightarrow> RegistryState \<Rightarrow> entry_heap \<Rightarrow> nat list \<times> entry_heap" where
  "shutdown_all now st h =
     (let h' = snd (request_all now HostShutdown (map snd (reg_entries st)) h)
      in (map (\<lambda>(_, i). bg_pid (h' ! i))
            (filter (\<lambda>(_, i). snap_status (entry_snapshot (h' ! i)) = Running) (reg_entries st)), h'))"

text \<open>The loop of \<open>wait_for_entry_terminal\<close>. Each poll sees the cancellation flag, the entry and the
  clock; \<open>None\<close> when the polls are used up.\<close>

fun wait_for_entry_terminal :: "rstr \<Rightarrow> nat \<Rightarrow> nat \<Rightarrow> (bool \<times> BackgroundCommandEntry \<times> nat) list
    \<Rightarrow> (BackgroundCommandError + BackgroundCommandSnapshot) option" where
  "wait_for_entry_terminal command_id wait deadline [] = None"
| "wait_for_entry_terminal command_id wait deadline ((is_cancelled, e, now) # polls) =
     (if is_cancelled then Some (Inl (WaitCancelled command_id))
      else case terminal_snapshot_before deadline e of
        Some snapshot \<Rightarrow> Some (Inr snapshot)
      | None \<Rightarrow> if now \<ge> deadline then Some (Inl (WaitTimedOut command_id wait))
                else wait_for_entry_terminal command_id wait deadline polls)"

section \<open>All threads together\<close>

text \<open>The entries, the registry, the starts that hold a slot (with their entry once it exists), and the
  monitors that have read the reason for the end of their command and have not yet recorded it.\<close>

record CommandWorld =
  w_heap :: entry_heap
  w_reg :: RegistryState
  w_starting :: "(rstr \<times> rpath \<times> nat option) list"
  w_decided :: "(nat \<times> BackgroundCommandStatus \<times> rstr option) list"

definition new_world :: CommandWorld where
  "new_world = \<lparr>w_heap = [], w_reg = new_registry, w_starting = [], w_decided = []\<rparr>"

text \<open>A step of another thread on one entry.\<close>

inductive entry_step :: "BackgroundCommandEntry \<Rightarrow> BackgroundCommandEntry \<Rightarrow> bool" where
  es_append: "entry_step e (snd (append_output stream bytes e))"
| es_request: "entry_step e (snd (request_termination now reason e))"
| es_monitor: "entry_step e (snd (monitor_round now e))"
| es_wait_failed: "entry_step e (entry_finish wall now Failed None (Some (wait_failed_error source)) e)"

inductive world_step :: "BackgroundCommandLimits \<Rightarrow> CommandWorld \<Rightarrow> CommandWorld \<Rightarrow> bool" for limits where
  ws_reserve: "start_reserve canonicalize now limits rq (w_heap w) (w_reg w) = (Inr (cid, ws, cwd), st) \<Longrightarrow>
     world_step limits w (w\<lparr>w_reg := st, w_starting := (cid, ws, None) # w_starting w\<rparr>)"
| ws_refused: "start_reserve canonicalize now limits rq (w_heap w) (w_reg w) = (Inl err, st) \<Longrightarrow>
     world_step limits w (w\<lparr>w_reg := st\<rparr>)"
| ws_create: "w_starting w = xs @ (cid, ws, None) # ys \<Longrightarrow>
     world_step limits w (w\<lparr>w_heap := w_heap w @ [new_entry limits cid pid wall now ws cwd rq],
       w_starting := xs @ (cid, ws, Some (length (w_heap w))) # ys\<rparr>)"
| ws_abort: "w_starting w = xs @ (cid, ws, i) # ys \<Longrightarrow>
     world_step limits w (w\<lparr>w_reg := release_pending_slot ws (w_reg w), w_starting := xs @ ys\<rparr>)"
| ws_publish: "w_starting w = xs @ (cid, ws, Some i) # ys \<Longrightarrow>
     world_step limits w (w\<lparr>w_reg := publish_command cid i ws (w_reg w), w_starting := xs @ ys\<rparr>)"
| ws_entry: "i < length (w_heap w) \<Longrightarrow> entry_step (w_heap w ! i) e \<Longrightarrow>
     world_step limits w (w\<lparr>w_heap := (w_heap w)[i := e]\<rparr>)"
| ws_decide: "i < length (w_heap w) \<Longrightarrow> monitor_decision out_err err_err (w_heap w ! i) = (s, err) \<Longrightarrow>
     world_step limits w (w\<lparr>w_decided := (i, s, err) # w_decided w\<rparr>)"
| ws_finish: "(i, s, err) \<in> set (w_decided w) \<Longrightarrow>
     world_step limits w (w\<lparr>w_heap := (w_heap w)[i := entry_finish wall now s exit_code err (w_heap w ! i)]\<rparr>)"
| ws_prune: "world_step limits w (w\<lparr>w_reg := prune_completed_entries now (completed_retention limits) (w_heap w) (w_reg w)\<rparr>)"

section \<open>How entries change\<close>

definition end_record :: "BackgroundCommandEntry \<Rightarrow> BackgroundCommandStatus \<times> nat option \<times> nat option \<times> int option
    \<times> BackgroundCommandTermination option \<times> rstr option" where
  "end_record e = (let st = entry_state e in
     (bg_status st, bg_ended_at st, ended_monotonic st, bg_exit_code st, bg_termination st, bg_error st))"

definition evolves :: "BackgroundCommandEntry \<Rightarrow> BackgroundCommandEntry \<Rightarrow> bool" where
  "evolves e e' \<longleftrightarrow> bg_workspace_path e' = bg_workspace_path e \<and> bg_command_id e' = bg_command_id e
     \<and> owner_chat_id e' = owner_chat_id e
     \<and> (is_terminal (bg_status (entry_state e)) \<longrightarrow> end_record e' = end_record e
          \<and> termination_reason e' = termination_reason e)
     \<and> (\<forall>r. termination_reason e = Some r \<longrightarrow> termination_reason e' = Some r)"

lemma evolves_refl [simp]: "evolves e e"
  by (simp add: evolves_def)

lemma evolves_trans: "evolves e f \<Longrightarrow> evolves f g \<Longrightarrow> evolves e g"
  by (auto simp: evolves_def end_record_def Let_def)

lemma evolves_terminal: "evolves e e' \<Longrightarrow> is_terminal (bg_status (entry_state e)) \<Longrightarrow> is_terminal (bg_status (entry_state e'))"
  by (auto simp: evolves_def end_record_def Let_def)

lemma append_output_evolves: "evolves e (snd (append_output stream bytes e))"
  by (simp add: append_output_def evolves_def end_record_def termination_reason_def Let_def split: prod.split)

lemma request_evolves: "evolves e (snd (request_termination now reason e))"
  by (auto simp: request_termination_def evolves_def end_record_def termination_reason_def Let_def)

lemma action_evolves: "evolves e (snd (termination_action now e))"
  by (auto simp: termination_action_def evolves_def end_record_def termination_reason_def Let_def split: option.split)

lemma check_timeout_evolves: "evolves e (check_timeout now e)"
  by (simp add: check_timeout_def request_evolves split: option.split)

lemma monitor_round_evolves: "evolves e (snd (monitor_round now e))"
  unfolding monitor_round_def by (rule evolves_trans [OF check_timeout_evolves action_evolves])

lemma finish_evolves: "evolves e (entry_finish wall now s x err e)"
  by (auto simp: entry_finish_def evolves_def end_record_def termination_reason_def Let_def)

lemmas evolves_intros = append_output_evolves request_evolves monitor_round_evolves finish_evolves

lemma entry_step_evolves: "entry_step e e' \<Longrightarrow> evolves e e'"
  by (induction rule: entry_step.induct) (rule evolves_intros)+

text \<open>What holds of an entry at every time.\<close>

definition lifecycle_ok :: "BackgroundCommandEntry \<Rightarrow> bool" where
  "lifecycle_ok e \<longleftrightarrow> (let st = entry_state e in
     (is_terminal (bg_status st) \<longleftrightarrow> ended_monotonic st \<noteq> None)
   \<and> (is_terminal (bg_status st) \<longrightarrow> bg_termination st = termination_reason e)
   \<and> (bg_status st = TimedOut \<longrightarrow> bg_termination st = Some Timeout)
   \<and> (bg_status st = Stopped \<longrightarrow> bg_termination st = Some ExplicitStop \<or> bg_termination st = Some HostShutdown))"

definition decision_ok :: "BackgroundCommandEntry \<Rightarrow> BackgroundCommandStatus \<Rightarrow> bool" where
  "decision_ok e s \<longleftrightarrow> is_terminal s \<and> (s = TimedOut \<longrightarrow> termination_reason e = Some Timeout)
     \<and> (s = Stopped \<longrightarrow> termination_reason e = Some ExplicitStop \<or> termination_reason e = Some HostShutdown)"

lemma decision_ok_evolves: "decision_ok e s \<Longrightarrow> evolves e e' \<Longrightarrow> decision_ok e' s"
  by (auto simp: decision_ok_def evolves_def)

lemma monitor_decision_ok: "monitor_decision oe ee e = (s, err) \<Longrightarrow> decision_ok e s"
  by (auto simp: monitor_decision_def decision_ok_def is_terminal_def
      split: option.splits BackgroundCommandTermination.splits)

lemma finish_lifecycle: "lifecycle_ok e \<Longrightarrow> decision_ok e s \<Longrightarrow> lifecycle_ok (entry_finish wall now s x err e)"
  by (auto simp: lifecycle_ok_def decision_ok_def entry_finish_def termination_reason_def Let_def)

lemma lifecycle_same: "evolves e e' \<Longrightarrow> end_record e' = end_record e \<Longrightarrow> lifecycle_ok e \<Longrightarrow> lifecycle_ok e'"
  by (cases "is_terminal (bg_status (entry_state e))")
    (auto simp: lifecycle_ok_def evolves_def end_record_def is_terminal_def Let_def)

lemma end_record_kept:
  "end_record (snd (append_output stream bytes e)) = end_record e"
  "end_record (snd (request_termination now reason e)) = end_record e"
  "end_record (snd (monitor_round now e)) = end_record e"
proof -
  show r: "end_record (snd (request_termination now reason e)) = end_record e" for now reason e
    by (simp add: end_record_def request_termination_def Let_def)
  show "end_record (snd (append_output stream bytes e)) = end_record e"
    by (simp add: end_record_def append_output_def Let_def split: prod.split)
  have "end_record (snd (termination_action now f)) = end_record f" for f
    by (simp add: end_record_def termination_action_def Let_def split: option.split)
  then show "end_record (snd (monitor_round now e)) = end_record e"
    using r by (simp add: monitor_round_def check_timeout_def split: option.split)
qed

lemma entry_step_lifecycle: "entry_step e e' \<Longrightarrow> lifecycle_ok e \<Longrightarrow> lifecycle_ok e'"
proof (induction rule: entry_step.induct)
  case (es_wait_failed e wall now source)
  then show ?case by (intro finish_lifecycle) (simp_all add: decision_ok_def is_terminal_def)
qed (blast intro: lifecycle_same evolves_intros end_record_kept)+

lemma new_entry_lifecycle: "lifecycle_ok (new_entry limits cid pid wall now ws cwd rq)"
  by (simp add: lifecycle_ok_def new_entry_def new_entry_state_def is_terminal_def Let_def)

section \<open>The signals of the monitor\<close>

lemma request_again: "requested_termination (entry_state e) = Some q \<Longrightarrow> check_timeout now e = e"
  by (simp add: check_timeout_def request_termination_def split: option.split)

lemma rounds_after_force:
  "requested_termination (entry_state e) = Some q \<Longrightarrow> graceful_signal_sent q \<Longrightarrow> force_kill_sent q \<Longrightarrow>
     monitor_rounds ts e = ([], e)"
  by (induction ts) (simp_all add: monitor_round_def request_again termination_action_def)

lemma rounds_after_graceful:
  assumes "requested_termination (entry_state e) = Some q" and "graceful_signal_sent q" and "\<not> force_kill_sent q"
  shows "fst (monitor_rounds ts e) = (if \<exists>t \<in> set ts. TERMINATION_GRACE_PERIOD \<le> t - requested_at q then [Force] else [])"
  using assms
proof (induction ts)
  case (Cons t ts)
  show ?case
  proof (cases "TERMINATION_GRACE_PERIOD \<le> t - requested_at q")
    case True
    let ?e = "e\<lparr>entry_state := (entry_state e)\<lparr>requested_termination := Some (q\<lparr>force_kill_sent := True\<rparr>)\<rparr>\<rparr>"
    have "monitor_round t e = (Some Force, ?e)"
      using True Cons.prems by (simp add: monitor_round_def request_again termination_action_def)
    moreover have "monitor_rounds ts ?e = ([], ?e)"
      by (rule rounds_after_force [of _ "q\<lparr>force_kill_sent := True\<rparr>"]) (use Cons.prems in simp_all)
    ultimately show ?thesis using True by simp
  next
    case False
    then have "monitor_round t e = (None, e)"
      using Cons.prems by (simp add: monitor_round_def request_again termination_action_def)
    with False Cons show ?thesis by (auto split: prod.split)
  qed
qed simp

text \<open>A command that is asked to terminate gets the graceful signal in the next round, once, and the
  forced one exactly when a later round finds the grace period over.\<close>

lemma monitor_escalates:
  assumes "requested_termination (entry_state e) = Some q" and "\<not> graceful_signal_sent q" and "\<not> force_kill_sent q"
  shows "fst (monitor_rounds (t # ts) e)
    = Graceful # (if \<exists>t \<in> set ts. TERMINATION_GRACE_PERIOD \<le> t - requested_at q then [Force] else [])"
proof -
  let ?e = "e\<lparr>entry_state := (entry_state e)\<lparr>requested_termination := Some (q\<lparr>graceful_signal_sent := True\<rparr>)\<rparr>\<rparr>"
  have "monitor_round t e = (Some Graceful, ?e)"
    using assms by (simp add: monitor_round_def request_again termination_action_def)
  moreover obtain sent e' where r: "monitor_rounds ts ?e = (sent, e')" by fastforce
  ultimately have "fst (monitor_rounds (t # ts) e) = Graceful # sent" by simp
  with rounds_after_graceful [of ?e "q\<lparr>graceful_signal_sent := True\<rparr>" ts] assms(3) r show ?thesis by simp
qed

section \<open>The world keeps its entries in order\<close>

definition heap_evolves :: "entry_heap \<Rightarrow> entry_heap \<Rightarrow> bool" where
  "heap_evolves h h' \<longleftrightarrow> length h \<le> length h' \<and> (\<forall>i < length h. evolves (h ! i) (h' ! i))"

lemma heap_evolves_refl [simp]: "heap_evolves h h"
  by (simp add: heap_evolves_def)

lemma heap_evolves_trans: "heap_evolves h g \<Longrightarrow> heap_evolves g k \<Longrightarrow> heap_evolves h k"
  by (force simp: heap_evolves_def intro: evolves_trans)

lemma heap_evolves_update: "i < length h \<Longrightarrow> evolves (h ! i) e \<Longrightarrow> heap_evolves h (h[i := e])"
  by (auto simp: heap_evolves_def nth_list_update)

lemma heap_evolves_append: "heap_evolves h (h @ es)"
  by (simp add: heap_evolves_def nth_append)

definition entries_ok :: "CommandWorld \<Rightarrow> bool" where
  "entries_ok w \<longleftrightarrow> (\<forall>i < length (w_heap w). lifecycle_ok (w_heap w ! i))
     \<and> (\<forall>(i, s, err) \<in> set (w_decided w). i < length (w_heap w) \<and> decision_ok (w_heap w ! i) s)"

lemma decided_heap:
  assumes "heap_evolves h h'" and "\<forall>(i, s, err) \<in> set D. i < length h \<and> decision_ok (h ! i) s"
  shows "\<forall>(i, s, err) \<in> set D. i < length h' \<and> decision_ok (h' ! i) s"
  using assms by (force simp: heap_evolves_def intro: decision_ok_evolves)

lemma world_step_heap:
  assumes "world_step limits w w'" and "entries_ok w"
  shows "heap_evolves (w_heap w) (w_heap w')"
  using assms
proof (induction rule: world_step.induct)
  case (ws_entry i w e)
  then show ?case using heap_evolves_update entry_step_evolves by simp
next
  case (ws_finish i s err w wall now exit_code)
  then have "i < length (w_heap w)" by (auto simp: entries_ok_def)
  then show ?case using heap_evolves_update finish_evolves by simp
qed (simp_all add: heap_evolves_append)

lemma heap_update_all: "(\<forall>i < length h. P (h ! i)) \<Longrightarrow> P e \<Longrightarrow> \<forall>i < length (h[j := e]). P (h[j := e] ! i)"
  by (cases "j < length h") (auto simp: nth_list_update)

lemma world_step_entries:
  assumes "world_step limits w w'" and "entries_ok w"
  shows "entries_ok w'"
proof -
  note D = decided_heap [OF world_step_heap [OF assms], of "w_decided w"]
  from assms D show ?thesis
  proof (induction rule: world_step.induct)
    case (ws_create w xs cid ws ys pid wall now cwd rq)
    then show ?case
      by (auto simp: entries_ok_def nth_append less_Suc_eq new_entry_lifecycle)
  next
    case (ws_entry i w e)
    then have "\<forall>j < length ((w_heap w)[i := e]). lifecycle_ok ((w_heap w)[i := e] ! j)"
      using entry_step_lifecycle by (intro heap_update_all) (auto simp: entries_ok_def)
    with ws_entry show ?case by (simp add: entries_ok_def)
  next
    case (ws_decide i w oe ee s err)
    then show ?case using monitor_decision_ok by (auto simp: entries_ok_def)
  next
    case (ws_finish i s err w wall now x)
    let ?e = "entry_finish wall now s x err (w_heap w ! i)"
    from ws_finish have "lifecycle_ok ?e" by (intro finish_lifecycle) (auto simp: entries_ok_def)
    with ws_finish have "\<forall>j < length ((w_heap w)[i := ?e]). lifecycle_ok ((w_heap w)[i := ?e] ! j)"
      by (intro heap_update_all) (auto simp: entries_ok_def)
    with ws_finish show ?case by (simp add: entries_ok_def)
  qed (auto simp: entries_ok_def)
qed

lemma world_entries:
  assumes "(world_step limits)\<^sup>*\<^sup>* w w'" and "entries_ok w"
  shows "entries_ok w' \<and> heap_evolves (w_heap w) (w_heap w')"
  using assms
proof (induction rule: rtranclp_induct)
  case (step w1 w2)
  then show ?case using world_step_heap world_step_entries heap_evolves_trans by metis
qed simp

lemma new_world_entries: "entries_ok new_world"
  by (simp add: entries_ok_def new_world_def)

section \<open>Slots\<close>

lemma length_filter_update:
  "length (filter P (AList.update k v al)) \<le> length (filter P al) + (if P (k, v) then 1 else 0)"
  by (induction al) auto

lemma set_alist_update: "set (AList.update k v al) \<subseteq> insert (k, v) (set al)"
  by (induction al) auto

lemma length_filter_mono: "(\<forall>x \<in> set xs. P x \<longrightarrow> Q x) \<Longrightarrow> length (filter P xs) \<le> length (filter Q xs)"
  by (induction xs) auto

lemma pending_release:
  "pending_commands p (release_pending_slot q st) = (if p = q then pending_commands p st - 1 else pending_commands p st)"
  by (auto simp: pending_commands_def release_pending_slot_def split: option.split)

lemma active_release [simp]: "active_commands p h (release_pending_slot q st) = active_commands p h st"
  by (simp add: active_commands_def release_pending_slot_def split: option.split)

lemma entries_release [simp]: "reg_entries (release_pending_slot q st) = reg_entries st"
  by (simp add: release_pending_slot_def split: option.split)

lemma pending_prune [simp]: "pending_commands p (prune_completed_entries now ret h st) = pending_commands p st"
  by (simp add: pending_commands_def prune_completed_entries_def)

lemma active_prune: "active_commands p h (prune_completed_entries now ret h st) \<le> active_commands p h st"
  unfolding active_commands_def prune_completed_entries_def
  by (simp add: filter_filter) (rule length_filter_mono, auto)

lemma active_heap:
  assumes "heap_evolves h h'" and "\<forall>(k, i) \<in> set (reg_entries st). i < length h"
  shows "active_commands p h' st \<le> active_commands p h st"
proof -
  have "bg_workspace_path (h ! i) = p \<and> bg_status (entry_state (h ! i)) = Running"
    if "(k, i) \<in> set (reg_entries st)" "bg_workspace_path (h' ! i) = p" "bg_status (entry_state (h' ! i)) = Running" for k i
  proof -
    have "evolves (h ! i) (h' ! i)" using assms that(1) by (auto simp: heap_evolves_def)
    with that(2,3) evolves_terminal [of "h ! i" "h' ! i"] show ?thesis by (auto simp: evolves_def is_terminal_def)
  qed
  then show ?thesis
    unfolding active_commands_def by (intro length_filter_mono) (auto simp: entry_snapshot_def Let_def)
qed

text \<open>The invariant of the slots: every start in progress is counted, and the active commands and the
  starts in progress of a workspace never exceed the limit.\<close>

definition starts_of :: "rpath \<Rightarrow> (rstr \<times> rpath \<times> nat option) list \<Rightarrow> nat" where
  "starts_of p S = length (filter (\<lambda>(_, q, _). q = p) S)"

lemma starts_of_simps [simp]:
  "starts_of p [] = 0" "starts_of p ((c, q, i) # S) = (if q = p then 1 else 0) + starts_of p S"
  "starts_of p (S @ T) = starts_of p S + starts_of p T"
  by (simp_all add: starts_of_def)

definition slots_ok :: "nat \<Rightarrow> CommandWorld \<Rightarrow> bool" where
  "slots_ok limit w \<longleftrightarrow>
     (\<forall>p. pending_commands p (w_reg w) = starts_of p (w_starting w)
        \<and> active_commands p (w_heap w) (w_reg w) + starts_of p (w_starting w) \<le> limit)
     \<and> (\<forall>(k, i) \<in> set (reg_entries (w_reg w)). i < length (w_heap w))
     \<and> (\<forall>(c, q, j) \<in> set (w_starting w). \<forall>i. j = Some i \<longrightarrow> i < length (w_heap w) \<and> bg_workspace_path (w_heap w ! i) = q)"

lemma slots_heap:
  assumes "slots_ok limit w" and "heap_evolves (w_heap w) h'"
  shows "slots_ok limit (w\<lparr>w_heap := h'\<rparr>)"
proof -
  have r: "\<forall>(k, i) \<in> set (reg_entries (w_reg w)). i < length (w_heap w)" using assms(1) by (simp add: slots_ok_def)
  have "active_commands p h' (w_reg w) + starts_of p (w_starting w) \<le> limit" for p
    using active_heap [OF assms(2) r, of p] assms(1) by (auto simp: slots_ok_def intro: le_trans add_mono)
  with assms show ?thesis by (force simp: slots_ok_def heap_evolves_def evolves_def)
qed

lemma slots_prune:
  assumes "slots_ok limit w"
  shows "slots_ok limit (w\<lparr>w_reg := prune_completed_entries now ret (w_heap w) (w_reg w)\<rparr>)"
proof -
  have "active_commands p (w_heap w) (prune_completed_entries now ret (w_heap w) (w_reg w))
      + starts_of p (w_starting w) \<le> limit" for p
    using active_prune [of p "w_heap w" now ret "w_reg w"] assms by (auto simp: slots_ok_def intro: le_trans add_mono)
  with assms show ?thesis by (auto simp: slots_ok_def prune_completed_entries_def pending_commands_def)
qed

lemma reserve_cases:
  assumes "reserve_command_slot now limits ws h st = (r, st')" and "max_active_per_workspace limits \<le> usize_MAX"
  defines "pruned \<equiv> prune_completed_entries now (completed_retention limits) h st"
  shows "(\<exists>e. r = Inl e) \<and> st' = pruned
    \<or> (\<exists>cid. r = Inr cid) \<and> reg_entries st' = reg_entries pruned
      \<and> (\<forall>p. pending_commands p st' = pending_commands p st + (if p = ws then 1 else 0))
      \<and> active_commands ws h pruned + pending_commands ws st < max_active_per_workspace limits"
proof (cases "sat_add_usize (active_commands ws h pruned) (pending_commands ws pruned) \<ge> max_active_per_workspace limits")
  case True
  then show ?thesis using assms(1) by (auto simp: reserve_command_slot_def pruned_def Let_def)
next
  case False
  then have room: "active_commands ws h pruned + pending_commands ws st < max_active_per_workspace limits"
    using assms(2) by (auto simp: sat_add_usize_def pruned_def not_le min_less_iff_disj)
  have st': "st' = pruned\<lparr>next_command_sequence := min u64_max_nat (next_command_sequence pruned + 1),
      pending_starts := (pending_starts pruned)(ws \<mapsto> pending_commands ws pruned + 1)\<rparr>" "\<exists>cid. r = Inr cid"
    using False assms(1) by (auto simp: reserve_command_slot_def pruned_def Let_def)
  have "pending_commands p st' = pending_commands p st + (if p = ws then 1 else 0)" for p
    using pending_prune [of p now "completed_retention limits" h st]
    by (auto simp: st'(1) pending_commands_def pruned_def)
  with room st' show ?thesis by simp
qed

lemma slots_reserve:
  assumes "slots_ok (max_active_per_workspace limits) w" and "max_active_per_workspace limits \<le> usize_MAX"
    and "reserve_command_slot now limits ws (w_heap w) (w_reg w) = (r, st)"
  shows "slots_ok (max_active_per_workspace limits)
    (w\<lparr>w_reg := st, w_starting := (case r of Inl _ \<Rightarrow> [] | Inr cid \<Rightarrow> [(cid, ws, None)]) @ w_starting w\<rparr>)"
proof -
  let ?pr = "prune_completed_entries now (completed_retention limits) (w_heap w) (w_reg w)"
  let ?limit = "max_active_per_workspace limits"
  have pr: "slots_ok ?limit (w\<lparr>w_reg := ?pr\<rparr>)" by (rule slots_prune [OF assms(1)])
  from reserve_cases [OF assms(3,2)] show ?thesis
  proof (elim disjE conjE exE)
    fix e
    assume "r = Inl e" "st = ?pr"
    with pr show ?thesis by simp
  next
    fix cid
    assume r: "r = Inr cid" and e: "reg_entries st = reg_entries ?pr"
      and pend: "\<forall>p. pending_commands p st = pending_commands p (w_reg w) + (if p = ws then 1 else 0)"
      and room: "active_commands ws (w_heap w) ?pr + pending_commands ws (w_reg w) < ?limit"
    have act: "active_commands p (w_heap w) st = active_commands p (w_heap w) ?pr" for p
      using e by (simp add: active_commands_def)
    have cnt: "pending_commands p (w_reg w) = starts_of p (w_starting w)"
      "active_commands p (w_heap w) ?pr + starts_of p (w_starting w) \<le> ?limit" for p
      using assms(1) pr by (simp_all add: slots_ok_def)
    have "active_commands p (w_heap w) st + starts_of p ((cid, ws, None) # w_starting w) \<le> ?limit" for p
      using room act cnt [of p] cnt(1) [of ws] by auto
    moreover have "pending_commands p st = starts_of p ((cid, ws, None) # w_starting w)" for p
      using pend cnt(1) by simp
    ultimately show ?thesis using pr e r by (auto simp: slots_ok_def)
  qed
qed

lemma slots_remove:
  assumes "slots_ok limit w" and "w_starting w = xs @ (cid, ws, j) # ys"
  shows "slots_ok limit (w\<lparr>w_reg := release_pending_slot ws (w_reg w), w_starting := xs @ ys\<rparr>)"
    and "active_commands ws (w_heap w) (w_reg w) + starts_of ws (xs @ ys) < limit"
proof -
  have a: "active_commands p (w_heap w) (w_reg w) + starts_of p (xs @ (cid, ws, j) # ys) \<le> limit"
    "pending_commands p (w_reg w) = starts_of p (xs @ (cid, ws, j) # ys)" for p
    using assms by (simp_all add: slots_ok_def)
  from a(1) [of ws] show "active_commands ws (w_heap w) (w_reg w) + starts_of ws (xs @ ys) < limit" by simp
  have "active_commands p (w_heap w) (w_reg w) + starts_of p (xs @ ys) \<le> limit" for p
    using a(1) [of p] by simp
  moreover have "pending_commands p (release_pending_slot ws (w_reg w)) = starts_of p (xs @ ys)" for p
    using a(2) [of p] by (cases "p = ws") (simp_all add: pending_release)
  ultimately show "slots_ok limit (w\<lparr>w_reg := release_pending_slot ws (w_reg w), w_starting := xs @ ys\<rparr>)"
    using assms by (auto simp: slots_ok_def)
qed

lemma slots_publish:
  assumes "slots_ok limit w" and "w_starting w = xs @ (cid, ws, Some i) # ys"
  shows "slots_ok limit (w\<lparr>w_reg := publish_command cid i ws (w_reg w), w_starting := xs @ ys\<rparr>)"
proof -
  let ?rel = "release_pending_slot ws (w_reg w)" and ?pub = "publish_command cid i ws (w_reg w)"
  note rm = slots_remove [OF assms]
  have i: "i < length (w_heap w)" "bg_workspace_path (w_heap w ! i) = ws"
    using assms by (auto simp: slots_ok_def)
  have pub: "reg_entries ?pub = AList.update cid i (reg_entries (w_reg w))"
    "pending_commands p ?pub = pending_commands p ?rel" for p
    by (simp_all add: publish_command_def Let_def pending_commands_def)
  let ?P = "\<lambda>p (_ :: rstr, j). bg_workspace_path (w_heap w ! j) = p \<and> snap_status (entry_snapshot (w_heap w ! j)) = Running"
  have act: "active_commands p (w_heap w) ?pub + starts_of p (xs @ ys) \<le> limit" for p
  proof (cases "p = ws")
    case True
    have "active_commands p (w_heap w) ?pub \<le> Suc (active_commands p (w_heap w) (w_reg w))"
      using length_filter_update [of "?P p" cid i "reg_entries (w_reg w)"]
      unfolding active_commands_def pub(1) by (auto split: if_splits)
    then show ?thesis using rm(2) [folded True] by linarith
  next
    case False
    then have "active_commands p (w_heap w) ?pub \<le> active_commands p (w_heap w) (w_reg w)"
      using length_filter_update [of "?P p" cid i "reg_entries (w_reg w)"] i(2)
      unfolding active_commands_def pub(1) by (auto split: if_splits)
    moreover have "active_commands p (w_heap w) (w_reg w) + starts_of p (xs @ ys) \<le> limit"
      using rm(1) by (simp add: slots_ok_def)
    ultimately show ?thesis by linarith
  qed
  have "\<forall>(k, j) \<in> set (reg_entries ?pub). j < length (w_heap w)"
    using assms(1) i(1) set_alist_update [of cid i "reg_entries (w_reg w)"] by (fastforce simp: slots_ok_def pub(1))
  with act rm(1) pub(2) show ?thesis by (auto simp: slots_ok_def)
qed

lemma slots_create:
  assumes "slots_ok limit w" and "w_starting w = xs @ (cid, ws, None) # ys" and "bg_workspace_path e = ws"
  shows "slots_ok limit (w\<lparr>w_heap := w_heap w @ [e], w_starting := xs @ (cid, ws, Some (length (w_heap w))) # ys\<rparr>)"
proof -
  have "slots_ok limit (w\<lparr>w_heap := w_heap w @ [e]\<rparr>)" by (rule slots_heap [OF assms(1) heap_evolves_append])
  then show ?thesis using assms(2,3) by (auto simp: slots_ok_def)
qed

lemma world_step_slots:
  assumes "world_step limits w w'" and "entries_ok w" and "slots_ok (max_active_per_workspace limits) w"
    and "max_active_per_workspace limits \<le> usize_MAX"
  shows "slots_ok (max_active_per_workspace limits) w'"
proof -
  note H = world_step_heap [OF assms(1,2)]
  from assms H show ?thesis
  proof (induction rule: world_step.induct)
    case (ws_reserve canonicalize now rq w cid ws cwd st)
    then have "reserve_command_slot now limits ws (w_heap w) (w_reg w) = (Inr cid, st)"
      by (auto simp: start_reserve_def split: sum.splits prod.splits)
    with slots_reserve [OF ws_reserve.prems(2,3)] show ?case by fastforce
  next
    case (ws_refused canonicalize now rq w err st)
    then consider "st = w_reg w" | ws where "reserve_command_slot now limits ws (w_heap w) (w_reg w) = (Inl err, st)"
      by (auto simp: start_reserve_def split: sum.splits prod.splits)
    then show ?case
    proof cases
      case 2
      with slots_reserve [OF ws_refused.prems(2,3) 2] show ?thesis by simp
    qed (use ws_refused in simp)
  next
    case (ws_create w xs cid ws ys pid wall now cwd rq)
    then show ?case by (intro slots_create) (simp_all add: new_entry_def)
  next
    case (ws_abort w xs cid ws i ys)
    then show ?case by (intro slots_remove(1))
  next
    case (ws_publish w xs cid ws i ys)
    then show ?case by (intro slots_publish)
  next
    case (ws_entry i w e)
    then show ?case using slots_heap by simp
  next
    case (ws_decide i w oe ee s err)
    then show ?case by (simp add: slots_ok_def)
  next
    case (ws_finish i s err w wall now x)
    then show ?case using slots_heap by simp
  next
    case (ws_prune w now)
    then show ?case by (intro slots_prune)
  qed
qed

lemma world_slots:
  assumes "(world_step limits)\<^sup>*\<^sup>* new_world w" and "max_active_per_workspace limits \<le> usize_MAX"
  shows "slots_ok (max_active_per_workspace limits) w"
  using assms(1)
proof (induction rule: rtranclp_induct)
  case base
  show ?case by (simp add: slots_ok_def new_world_def new_registry_def active_commands_def pending_commands_def)
next
  case (step w w')
  then show ?case using world_step_slots world_entries new_world_entries assms(2) by metis
qed

text \<open>a workspace never has more active commands than its limit. Under every interleaving of
  starts, failures, ends and prunings, the commands of a workspace that are registered as running
  together with the starts in progress are at most the limit, and the registry counts exactly the
  starts in progress, so that no slot is lost or freed twice.\<close>

theorem workspace_slots_bounded:
  assumes "(world_step limits)\<^sup>*\<^sup>* new_world w" and "max_active_per_workspace limits \<le> usize_MAX"
  shows "pending_commands p (w_reg w) = starts_of p (w_starting w)
    \<and> active_commands p (w_heap w) (w_reg w) + pending_commands p (w_reg w) \<le> max_active_per_workspace limits"
  using world_slots [OF assms] by (simp add: slots_ok_def)



section \<open>Stopping many commands\<close>

lemma request_all_world:
  assumes "\<forall>i \<in> set js. i < length (w_heap w)"
  shows "(world_step limits)\<^sup>*\<^sup>* w (w\<lparr>w_heap := snd (request_all now reason js (w_heap w))\<rparr>)"
  using assms
proof (induction js arbitrary: w)
  case (Cons i js)
  let ?e = "snd (request_termination now reason (w_heap w ! i))"
  let ?w = "w\<lparr>w_heap := (w_heap w)[i := ?e]\<rparr>"
  have "world_step limits w ?w" using Cons.prems es_request by (intro ws_entry) auto
  moreover have "(world_step limits)\<^sup>*\<^sup>* ?w (?w\<lparr>w_heap := snd (request_all now reason js (w_heap ?w))\<rparr>)"
    using Cons.prems by (intro Cons.IH) simp
  moreover have "snd (request_all now reason (i # js) (w_heap w)) = snd (request_all now reason js ((w_heap w)[i := ?e]))"
    by (simp add: Let_def split: prod.split)
  ultimately show ?case by (simp del: request_all.simps)
qed simp

text \<open>A stop of the commands of a chat or a workspace is a sequence of requests, so that all that is
  shown of the steps applies to it.\<close>

lemma stop_matching_world:
  assumes "(world_step limits)\<^sup>*\<^sup>* new_world w" and "max_active_per_workspace limits \<le> usize_MAX"
  shows "(world_step limits)\<^sup>*\<^sup>* new_world (w\<lparr>w_heap := snd (stop_matching now selected (w_reg w) (w_heap w))\<rparr>)"
proof -
  have "\<forall>(k, i) \<in> set (reg_entries (w_reg w)). i < length (w_heap w)"
    using world_slots [OF assms] by (simp add: slots_ok_def)
  then have "\<forall>i \<in> set (map snd (filter (\<lambda>(_, i). selected (w_heap w ! i)) (reg_entries (w_reg w)))). i < length (w_heap w)"
    by auto
  from request_all_world [OF this] assms(1) show ?thesis
    unfolding stop_matching_def by (rule rtranclp_trans [rotated])
qed

section \<open>A run\<close>

text \<open>One command is started in the workspace \<open>/w\<close>, stopped, and recorded as stopped.\<close>

definition sample_rq :: BackgroundCommandRequest where
  "sample_rq = \<lparr>rq_workspace_path = [lit ''w''], rq_cwd = [lit ''w''], rq_command = lit ''sleep'', rq_args = [],
     rq_owner_chat_id = None, rq_owner_run_id = None, rq_timeout = None\<rparr>"

definition sample_entry :: BackgroundCommandEntry where
  "sample_entry = new_entry default_limits (lit ''command-'' @ hex16 1) 7 0 0 [lit ''w''] [lit ''w''] sample_rq"

definition sample_stopping :: BackgroundCommandEntry where
  "sample_stopping = snd (request_termination 5 ExplicitStop sample_entry)"

definition sample_stopped :: BackgroundCommandEntry where
  "sample_stopped = entry_finish 9 9 Stopped None None sample_stopping"

definition sample_reg :: RegistryState where
  "sample_reg = \<lparr>reg_entries = [], pending_starts = [[lit ''w''] \<mapsto> 1], next_command_sequence = 1\<rparr>"

lemma sample_reserved:
  "start_reserve Inr 0 default_limits sample_rq [] new_registry
   = (Inr (lit ''command-'' @ hex16 1, [lit ''w''], [lit ''w'']), sample_reg)"
  by (simp add: start_reserve_def normalize_execution_paths_def sample_rq_def reserve_command_slot_def Let_def
      prune_completed_entries_def new_registry_def active_commands_def pending_commands_def sat_add_usize_def
      default_limits_def MAX_BACKGROUND_COMMANDS_PER_WORKSPACE_def u64_max_nat_def sample_reg_def)

text \<open>The command has exited by itself, and its monitor has decided so and not recorded it.\<close>

definition sample_exiting :: CommandWorld where
  "sample_exiting = \<lparr>w_heap = [sample_entry], w_reg = publish_command (lit ''command-'' @ hex16 1) 0 [lit ''w''] sample_reg,
     w_starting = [], w_decided = [(0, Exited, None)]\<rparr>"

lemma sample_run:
  "(world_step default_limits)\<^sup>*\<^sup>* new_world
     \<lparr>w_heap = [sample_stopped], w_reg = publish_command (lit ''command-'' @ hex16 1) 0 [lit ''w''] sample_reg,
      w_starting = [], w_decided = [(0, Stopped, None)]\<rparr>"
  and sample_exits: "(world_step default_limits)\<^sup>*\<^sup>* new_world sample_exiting"
proof -
  let ?c = "lit ''command-'' @ hex16 1" and ?p = "[lit ''w'']"
  let ?w = "\<lambda>h r s d. \<lparr>w_heap = h, w_reg = r, w_starting = s, w_decided = d\<rparr>"
  let ?pub = "publish_command ?c 0 ?p sample_reg"
  have s1: "world_step default_limits new_world (?w [] sample_reg [(?c, ?p, None)] [])"
    using ws_reserve [of Inr 0 default_limits sample_rq new_world] sample_reserved by (simp add: new_world_def)
  have s2: "world_step default_limits (?w [] sample_reg [(?c, ?p, None)] []) (?w [sample_entry] sample_reg [(?c, ?p, Some 0)] [])"
    using ws_create [of "?w [] sample_reg [(?c, ?p, None)] []" "[]" ?c ?p "[]" default_limits 7 0 0 ?p sample_rq]
    by (simp add: sample_entry_def)
  have s3: "world_step default_limits (?w [sample_entry] sample_reg [(?c, ?p, Some 0)] []) (?w [sample_entry] ?pub [] [])"
    using ws_publish [of "?w [sample_entry] sample_reg [(?c, ?p, Some 0)] []" "[]" ?c ?p 0 "[]" default_limits] by simp
  have s4: "world_step default_limits (?w [sample_entry] ?pub [] []) (?w [sample_stopping] ?pub [] [])"
    using ws_entry [of 0 "?w [sample_entry] ?pub [] []" sample_stopping default_limits]
      es_request [of sample_entry 5 ExplicitStop] by (simp add: sample_stopping_def)
  have "monitor_decision None None sample_stopping = (Stopped, None)"
    by (simp add: monitor_decision_def termination_reason_def sample_stopping_def request_termination_def sample_entry_def
        new_entry_def new_entry_state_def is_terminal_def)
  then have s5: "world_step default_limits (?w [sample_stopping] ?pub [] []) (?w [sample_stopping] ?pub [] [(0, Stopped, None)])"
    using ws_decide [of 0 "?w [sample_stopping] ?pub [] []" None None Stopped None default_limits] by simp
  have s6: "world_step default_limits (?w [sample_stopping] ?pub [] [(0, Stopped, None)]) (?w [sample_stopped] ?pub [] [(0, Stopped, None)])"
    using ws_finish [of 0 Stopped None "?w [sample_stopping] ?pub [] [(0, Stopped, None)]" default_limits 9 9 None]
    by (simp add: sample_stopped_def)
  show "(world_step default_limits)\<^sup>*\<^sup>* new_world (?w [sample_stopped] ?pub [] [(0, Stopped, None)])"
    using s1 s2 s3 s4 s5 s6 by (meson converse_rtranclp_into_rtranclp rtranclp.rtrancl_refl)
  have "monitor_decision None None sample_entry = (Exited, None)"
    by (simp add: monitor_decision_def termination_reason_def sample_entry_def new_entry_def new_entry_state_def)
  then have "world_step default_limits (?w [sample_entry] ?pub [] []) sample_exiting"
    using ws_decide [of 0 "?w [sample_entry] ?pub [] []" None None Exited None default_limits] by (simp add: sample_exiting_def)
  then show "(world_step default_limits)\<^sup>*\<^sup>* new_world sample_exiting"
    using s1 s2 s3 by (meson converse_rtranclp_into_rtranclp rtranclp.rtrancl_refl)
qed

theorem workspace_slots_bounded_witness:
  "\<exists>w. (world_step default_limits)\<^sup>*\<^sup>* new_world w \<and> w_heap w = [sample_stopped]
    \<and> active_commands [lit ''w''] (w_heap w) (w_reg w) + pending_commands [lit ''w''] (w_reg w) \<le> 16"
proof -
  have "max_active_per_workspace default_limits \<le> usize_MAX"
    by (simp add: default_limits_def MAX_BACKGROUND_COMMANDS_PER_WORKSPACE_def usize_MAX_def)
  moreover obtain w where w: "(world_step default_limits)\<^sup>*\<^sup>* new_world w" "w_heap w = [sample_stopped]"
    using sample_run by fastforce
  ultimately have "active_commands [lit ''w''] (w_heap w) (w_reg w) + pending_commands [lit ''w''] (w_reg w)
      \<le> max_active_per_workspace default_limits"
    using workspace_slots_bounded by blast
  with w show ?thesis by (auto simp: default_limits_def MAX_BACKGROUND_COMMANDS_PER_WORKSPACE_def)
qed


end
