(* ===== verification/Command_Tools.thy ===== *)
theory Command_Tools
  imports Command_Registry Patch_Files Output_Budget
begin

text \<open>
  The tools over managed background commands (\<open>tools/command_tools.rs\<close>): the response with the
  chunks of output that fit the output budget, \<open>get_command_output\<close>, \<open>stop_command\<close> and
  \<open>sleep\<close>. The size of a serialised execution is a parameter, which may fail; the arguments are
  those that serde has parsed; clocks, cancellation and canonical paths are inputs.
\<close>

section \<open>Text of a chunk\<close>

definition REPLACEMENT_CHARACTER :: rchar where "REPLACEMENT_CHARACTER = 65533"

text \<open>How many bytes \<open>String::from_utf8_lossy\<close> replaces by one character when no character starts
  here: the longest beginning of a character, and at least one byte.\<close>

definition invalid_len :: "nat list \<Rightarrow> nat" where
  "invalid_len us =
     (case us of
        a # b # r \<Rightarrow>
          if (a = 224 \<and> 160 \<le> b \<and> b \<le> 191) \<or> (225 \<le> a \<and> a \<le> 236 \<and> is_cont b)
             \<or> (a = 237 \<and> 128 \<le> b \<and> b \<le> 159) \<or> (238 \<le> a \<and> a \<le> 239 \<and> is_cont b) then 2
          else if (a = 240 \<and> 144 \<le> b \<and> b \<le> 191) \<or> (241 \<le> a \<and> a \<le> 243 \<and> is_cont b)
             \<or> (a = 244 \<and> 128 \<le> b \<and> b \<le> 143) then
            (case r of c # _ \<Rightarrow> if is_cont c then 3 else 2 | [] \<Rightarrow> 2)
          else 1
      | _ \<Rightarrow> 1)"

lemma utf8_next_shorter: "utf8_next us = Some (c, rest) \<Longrightarrow> length rest < length us"
  by (auto simp: utf8_next_def split: list.splits if_splits)

lemma invalid_len_pos: "0 < invalid_len us"
  by (simp add: invalid_len_def split: list.split)

function utf8_lossy :: "nat list \<Rightarrow> rstr" where
  "utf8_lossy us =
     (if us = [] then []
      else case utf8_next us of
        Some (c, rest) \<Rightarrow> c # utf8_lossy rest
      | None \<Rightarrow> REPLACEMENT_CHARACTER # utf8_lossy (drop (invalid_len us) us))"
  by pat_completeness auto
termination
  by (relation "measure length") (auto simp: utf8_next_shorter invalid_len_pos)

declare utf8_lossy.simps [simp del]

text \<open>A text that is encoded correctly comes back as it is.\<close>

lemma utf8_lossy_bytes: "list_all is_scalar s \<Longrightarrow> utf8_lossy (str_bytes s) = s"
proof (induction s)
  case Nil
  then show ?case by (simp add: utf8_lossy.simps str_bytes_def)
next
  case (Cons c s)
  have "utf8_next (str_bytes (c # s)) = Some (c, str_bytes s)"
    using utf8_next_write [of c "str_bytes s"] Cons.prems by (simp add: str_bytes_def)
  moreover have "str_bytes (c # s) \<noteq> []" by (simp add: str_bytes_def utf8_char_not_Nil)
  ultimately show ?case using Cons by (subst utf8_lossy.simps) simp
qed

section \<open>The response\<close>

fun background_status_name :: "BackgroundCommandStatus \<Rightarrow> rstr" where
  "background_status_name Running = lit ''running''"
| "background_status_name Exited = lit ''exited''"
| "background_status_name Stopped = lit ''stopped''"
| "background_status_name TimedOut = lit ''timed_out''"
| "background_status_name Failed = lit ''failed''"

fun background_termination_name :: "BackgroundCommandTermination \<Rightarrow> rstr" where
  "background_termination_name ExplicitStop = lit ''explicit_stop''"
| "background_termination_name Timeout = lit ''timeout''"
| "background_termination_name HostShutdown = lit ''host_shutdown''"

definition background_success :: "BackgroundCommandSnapshot \<Rightarrow> bool option" where
  "background_success s =
     (case snap_status s of
        Running \<Rightarrow> None
      | Exited \<Rightarrow> Some (snap_exit_code s = Some 0)
      | _ \<Rightarrow> Some False)"

definition managed_command_not_found_error :: ToolRuntimeError where
  "managed_command_not_found_error = InvalidArguments (lit ''managed command was not found'')"

definition invalid_command_response :: ToolRuntimeError where
  "invalid_command_response = InvalidArguments (lit ''invalid managed command response'')"

definition chunk_json :: "BackgroundCommandOutputChunk \<Rightarrow> json" where
  "chunk_json c = JObj [(lit ''cursor'', json_nat (chunk_cursor c)),
     (lit ''stream'', JStr (case chunk_stream c of Stdout \<Rightarrow> lit ''stdout'' | Stderr \<Rightarrow> lit ''stderr'')),
     (lit ''text'', JStr (utf8_lossy (chunk_bytes c)))]"

definition pagination_note :: "rstr \<Rightarrow> nat \<Rightarrow> rstr" where
  "pagination_note process_id next_cursor =
     lit ''This response was explicitly paginated under the shared output budget; no retained output was silently discarded. Continue with get_command_output using the same processId=''
     @ process_id @ lit '' and cursor='' @ nat_display next_cursor
     @ lit '' (the returned nextCursor) to receive the next complete chunk without repeats. This response-level truncated flag is separate from outputTruncated and cursorExpired, which only describe the retained process buffer.''"

definition command_output_page :: "json \<Rightarrow> json list \<Rightarrow> nat \<Rightarrow> bool \<Rightarrow> ToolRuntimeError + json" where
  "command_output_page response chunks next_cursor has_more =
     (case as_str (json_get response (lit ''processId'')) of
        None \<Rightarrow> Inl invalid_command_response
      | Some process_id \<Rightarrow>
          (let page = json_set (lit ''truncated'') (JBool has_more)
                 (json_set (lit ''hasMore'') (JBool has_more)
                   (json_set (lit ''nextCursor'') (json_nat next_cursor)
                     (json_set (lit ''chunks'') (JArr chunks) response)))
           in Inr (if has_more then json_set (lit ''note'') (JStr (pagination_note process_id next_cursor)) page
                   else page)))"

text \<open>The loop of \<open>limited_chunks\<close>.\<close>

fun limited_loop :: "envelope_measure \<Rightarrow> json \<Rightarrow> BackgroundCommandOutputChunk list \<Rightarrow> json list \<Rightarrow> nat
    \<Rightarrow> ToolRuntimeError + (json list \<times> nat)" where
  "limited_loop sz base [] chunks next_cursor = Inr (chunks, next_cursor)"
| "limited_loop sz base (c # cs) chunks next_cursor =
     (case command_output_page base (chunks @ [chunk_json c]) (chunk_cursor c) (cs \<noteq> []) of
        Inl e \<Rightarrow> Inl e
      | Inr candidate \<Rightarrow>
          (case measure_tool_execution sz \<lparr>tool_output = candidate, is_error = False\<rparr> of
             Inl source \<Rightarrow> Inl (InvalidArguments (lit ''failed to measure managed command output: '' @ source))
           | Inr m \<Rightarrow>
               if serialized_bytes m > TOOL_OUTPUT_SOFT_BYTE_LIMIT \<or> text_lines m > TOOL_OUTPUT_SOFT_LINE_LIMIT
               then Inr (chunks, next_cursor)
               else limited_loop sz base cs (chunks @ [chunk_json c]) (chunk_cursor c)))"

definition limited_chunks :: "envelope_measure \<Rightarrow> json \<Rightarrow> BackgroundCommandOutput \<Rightarrow> nat
    \<Rightarrow> ToolRuntimeError + (json list \<times> nat \<times> bool)" where
  "limited_chunks sz base out cursor_before_output =
     (case limited_loop sz base (out_chunks out) [] cursor_before_output of
        Inl e \<Rightarrow> Inl e
      | Inr (chunks, next_cursor) \<Rightarrow> Inr (chunks, next_cursor, length chunks < length (out_chunks out)))"

text \<open>A wall-clock time is a number of nanoseconds since the epoch.\<close>

definition unix_millis :: "nat \<Rightarrow> nat" where
  "unix_millis time = time div 1000000"

definition json_opt :: "('a \<Rightarrow> json) \<Rightarrow> 'a option \<Rightarrow> json" where
  "json_opt f v = (case v of None \<Rightarrow> JNull | Some x \<Rightarrow> f x)"

definition response_base :: "BackgroundCommandSnapshot \<Rightarrow> BackgroundCommandOutput \<Rightarrow> nat \<Rightarrow> nat \<Rightarrow> json" where
  "response_base s out from_cursor available_from_cursor =
     JObj [(lit ''processId'', JStr (snap_command_id s)), (lit ''pid'', json_nat (snap_pid s)),
      (lit ''status'', JStr (background_status_name (snap_status s))),
      (lit ''startedAt'', json_nat (unix_millis (snap_started_at s))),
      (lit ''endedAt'', json_opt (\<lambda>t. json_nat (unix_millis t)) (snap_ended_at s)),
      (lit ''exitCode'', json_opt JInt (snap_exit_code s)), (lit ''success'', json_opt JBool (background_success s)),
      (lit ''terminationReason'', json_opt (\<lambda>t. JStr (background_termination_name t)) (snap_termination s)),
      (lit ''fromCursor'', json_nat from_cursor), (lit ''availableFromCursor'', json_nat available_from_cursor),
      (lit ''cursorExpired'', JBool (out_cursor_expired out)),
      (lit ''retainedOutputBytes'', json_nat (snap_retained s)), (lit ''outputTruncated'', JBool (out_truncated out))]"

definition command_output_response :: "envelope_measure \<Rightarrow> BackgroundCommandSnapshot \<Rightarrow> BackgroundCommandOutput
    \<Rightarrow> nat option \<Rightarrow> ToolRuntimeError + json" where
  "command_output_response sz s out requested_cursor =
     (let available_from_cursor = (case out_earliest_cursor out of Some c \<Rightarrow> c | None \<Rightarrow> out_next_cursor out);
          from_cursor = (case requested_cursor of Some c \<Rightarrow> c | None \<Rightarrow> available_from_cursor);
          cursor_before_output = (case requested_cursor of Some c \<Rightarrow> c | None \<Rightarrow> available_from_cursor - 1);
          base = response_base s out from_cursor available_from_cursor
      in case limited_chunks sz base out cursor_before_output of
           Inl e \<Rightarrow> Inl e
         | Inr (chunks, next_cursor, has_more) \<Rightarrow> command_output_page base chunks next_cursor has_more)"

section \<open>The tools\<close>

definition DEFAULT_GET_COMMAND_OUTPUT_TIMEOUT_MS :: nat where "DEFAULT_GET_COMMAND_OUTPUT_TIMEOUT_MS = 10000"
definition DEFAULT_SLEEP_TIMEOUT_MS :: nat where "DEFAULT_SLEEP_TIMEOUT_MS = 600000"

definition remove_cursor_range :: "json \<Rightarrow> ToolRuntimeError + json" where
  "remove_cursor_range result =
     (case result of
        JObj kvs \<Rightarrow> Inr (JObj (filter (\<lambda>e. fst e \<notin> set [lit ''fromCursor'', lit ''availableFromCursor'',
          lit ''cursorExpired'', lit ''retainedOutputBytes'']) kvs))
      | _ \<Rightarrow> Inl invalid_command_response)"

definition background_command_response :: "envelope_measure \<Rightarrow> nat \<Rightarrow> BackgroundCommandLimits \<Rightarrow> BackgroundCommandSnapshot
    \<Rightarrow> nat option \<Rightarrow> bool \<Rightarrow> entry_heap \<Rightarrow> RegistryState \<Rightarrow> (ToolRuntimeError + json) \<times> RegistryState" where
  "background_command_response sz now limits snapshot cursor include_cursor_range h st =
     (case output_after now limits (snap_command_id snapshot) cursor h st of
        (Inl _, st') \<Rightarrow> (Inl managed_command_not_found_error, st')
      | (Inr out, st') \<Rightarrow>
          (case command_output_response sz snapshot out cursor of
             Inl e \<Rightarrow> (Inl e, st')
           | Inr result \<Rightarrow> (if include_cursor_range then Inr result else remove_cursor_range result, st')))"

definition owned_command_snapshot :: "(rpath \<Rightarrow> io_kind + rpath) \<Rightarrow> nat \<Rightarrow> BackgroundCommandLimits \<Rightarrow> rpath
    \<Rightarrow> rstr option \<Rightarrow> rstr \<Rightarrow> entry_heap \<Rightarrow> RegistryState
    \<Rightarrow> (ToolRuntimeError + BackgroundCommandSnapshot) \<times> RegistryState" where
  "owned_command_snapshot canonicalize now limits workspace_path owner process_id h st =
     (case command_snapshot now limits process_id h st of
        (Inl _, st') \<Rightarrow> (Inl managed_command_not_found_error, st')
      | (Inr snapshot, st') \<Rightarrow>
          (case canonicalize workspace_path of
             Inl source \<Rightarrow> (Inl (IoError workspace_path source), st')
           | Inr workspace \<Rightarrow>
               if snap_workspace_path snapshot \<noteq> workspace \<or> snap_owner_chat_id snapshot \<noteq> owner
               then (Inl managed_command_not_found_error, st') else (Inr snapshot, st')))"

definition background_timeout :: "nat option \<Rightarrow> ToolRuntimeError + nat option" where
  "background_timeout timeout_ms =
     (case timeout_ms of
        None \<Rightarrow> Inr None
      | Some t \<Rightarrow> if t = 0 then Inl (InvalidArguments (lit ''backgroundTimeoutMs must be greater than zero when provided''))
                  else Inr (Some (t * 1000000)))"

definition background_stop_error :: "BackgroundCommandError \<Rightarrow> ToolRuntimeError" where
  "background_stop_error e =
     (case e of
        WaitTimedOut _ wait \<Rightarrow> InvalidArguments (lit ''managed command stop timed out after ''
          @ nat_display (wait div 1000000) @ lit '' ms'')
      | WaitCancelled _ \<Rightarrow> Cancelled
      | _ \<Rightarrow> managed_command_not_found_error)"

record GetCommandOutputInput =
  get_process_id :: rstr
  get_cursor :: "nat option"
  get_wait_ms :: "nat option"
  get_timeout_ms :: "nat option"

text \<open>One round of the wait loop sees the clock, the entries and the registry twice, for the snapshot
  and for the output, and the clock once more.\<close>

record CommandPoll =
  poll_now :: nat
  poll_heap :: entry_heap
  poll_reg :: RegistryState
  poll_output_now :: nat
  poll_output_heap :: entry_heap
  poll_output_reg :: RegistryState
  poll_elapsed :: nat

fun get_output_loop :: "envelope_measure \<Rightarrow> (rpath \<Rightarrow> io_kind + rpath) \<Rightarrow> BackgroundCommandLimits \<Rightarrow> rpath \<Rightarrow> rstr option
    \<Rightarrow> rstr \<Rightarrow> nat option \<Rightarrow> nat \<Rightarrow> CommandPoll list \<Rightarrow> (ToolRuntimeError + json) option" where
  "get_output_loop sz canonicalize limits workspace_path owner process_id cursor wait_ms [] = None"
| "get_output_loop sz canonicalize limits workspace_path owner process_id cursor wait_ms (p # ps) =
     (case fst (owned_command_snapshot canonicalize (poll_now p) limits workspace_path owner process_id
              (poll_heap p) (poll_reg p)) of
        Inl e \<Rightarrow> Some (Inl e)
      | Inr snapshot \<Rightarrow>
          (case fst (output_after (poll_output_now p) limits process_id cursor (poll_output_heap p) (poll_output_reg p)) of
             Inl _ \<Rightarrow> Some (Inl managed_command_not_found_error)
           | Inr out \<Rightarrow>
               if out_chunks out \<noteq> [] \<or> is_terminal (snap_status snapshot) \<or> poll_elapsed p \<ge> wait_ms * 1000000
               then Some (command_output_response sz snapshot out cursor)
               else get_output_loop sz canonicalize limits workspace_path owner process_id cursor wait_ms ps))"

definition get_command_output :: "envelope_measure \<Rightarrow> (rpath \<Rightarrow> io_kind + rpath) \<Rightarrow> BackgroundCommandLimits \<Rightarrow> rpath
    \<Rightarrow> rstr option \<Rightarrow> GetCommandOutputInput \<Rightarrow> CommandPoll list \<Rightarrow> (ToolRuntimeError + json) option" where
  "get_command_output sz canonicalize limits workspace_path owner rq polls =
     (case tool_timeout_ms (get_timeout_ms rq) DEFAULT_GET_COMMAND_OUTPUT_TIMEOUT_MS of
        Inl e \<Rightarrow> Some (Inl e)
      | Inr timeout_ms \<Rightarrow>
          get_output_loop sz canonicalize limits workspace_path owner (get_process_id rq) (get_cursor rq)
            (min (case get_wait_ms rq of Some w \<Rightarrow> w | None \<Rightarrow> 0) (timeout_ms - 1)) polls)"

record StopCommandInput =
  stop_process_id :: rstr
  stop_timeout_ms :: "nat option"

text \<open>The tool \<open>stop_command\<close>. It sees the clock, the entries and the registry at its start, the polls
  of the wait, and the clock, the entries and the registry at the response; it returns its result and
  the entries after its request.\<close>

definition stop_command :: "envelope_measure \<Rightarrow> (rpath \<Rightarrow> io_kind + rpath) \<Rightarrow> BackgroundCommandLimits \<Rightarrow> rpath
    \<Rightarrow> rstr option \<Rightarrow> StopCommandInput \<Rightarrow> nat \<Rightarrow> entry_heap \<Rightarrow> RegistryState
    \<Rightarrow> (bool \<times> BackgroundCommandEntry \<times> nat) list \<Rightarrow> nat \<times> entry_heap \<times> RegistryState
    \<Rightarrow> (ToolRuntimeError + json) option \<times> entry_heap" where
  "stop_command sz canonicalize limits workspace_path owner rq now h st0 polls later =
     (case tool_timeout_ms (stop_timeout_ms rq) DEFAULT_GET_COMMAND_OUTPUT_TIMEOUT_MS of
        Inl e \<Rightarrow> (Some (Inl e), h)
      | Inr timeout_ms \<Rightarrow>
          (case owned_command_snapshot canonicalize now limits workspace_path owner (stop_process_id rq) h st0 of
             (Inl e, st) \<Rightarrow> (Some (Inl e), h)
           | (Inr _, st) \<Rightarrow>
               (case stop_command_entry now (stop_process_id rq) st h of
                  (Inl e, h') \<Rightarrow> (Some (Inl (background_stop_error e)), h')
                | (Inr _, h') \<Rightarrow>
                    (case wait_for_entry_terminal (stop_process_id rq) (timeout_ms * 1000000)
                            (now + timeout_ms * 1000000) polls of
                       None \<Rightarrow> (None, h')
                     | Some (Inl e) \<Rightarrow> (Some (Inl (background_stop_error e)), h')
                     | Some (Inr snapshot) \<Rightarrow>
                         (case later of (now2, h2, st2) \<Rightarrow>
                            (Some (fst (background_command_response sz now2 limits snapshot None True h2 st2)), h'))))))"

record SleepInput =
  duration_ms :: nat
  sleep_timeout_ms :: "nat option"

text \<open>The loop of \<open>sleep_tool\<close>; a round sees the cancellation flag and the time elapsed.\<close>

fun sleep_loop :: "nat \<Rightarrow> (bool \<times> nat) list \<Rightarrow> (ToolRuntimeError + unit) option" where
  "sleep_loop duration [] = None"
| "sleep_loop duration ((is_cancelled, elapsed) # rounds) =
     (if is_cancelled then Some (Inl Cancelled)
      else if elapsed \<ge> duration then Some (Inr ()) else sleep_loop duration rounds)"

definition sleep_tool :: "SleepInput \<Rightarrow> (bool \<times> nat) list \<Rightarrow> (ToolRuntimeError + json) option" where
  "sleep_tool rq rounds =
     (case tool_timeout_ms (sleep_timeout_ms rq) DEFAULT_SLEEP_TIMEOUT_MS of
        Inl e \<Rightarrow> Some (Inl e)
      | Inr timeout_ms \<Rightarrow>
          if duration_ms rq = 0 \<or> duration_ms rq > timeout_ms
          then Some (Inl (InvalidArguments (lit ''durationMs must be between 1 and timeoutMs (''
                 @ nat_display timeout_ms @ lit '') milliseconds'')))
          else (case sleep_loop (duration_ms rq * 1000000) rounds of
                  None \<Rightarrow> None
                | Some (Inl e) \<Rightarrow> Some (Inl e)
                | Some (Inr _) \<Rightarrow> Some (Inr (JObj [(lit ''durationMs'', json_nat (duration_ms rq)),
                    (lit ''timeoutMs'', json_nat timeout_ms)]))))"

section \<open>Pages\<close>

text \<open>The fields of a page that a client reads.\<close>

definition page_chunks :: "json \<Rightarrow> json list" where
  "page_chunks page = (case json_get page (lit ''chunks'') of Some (JArr cs) \<Rightarrow> cs | _ \<Rightarrow> [])"

definition page_cursor :: "json \<Rightarrow> nat option" where
  "page_cursor page = as_u64 (json_get page (lit ''nextCursor''))"

definition page_has_more :: "json \<Rightarrow> bool" where
  "page_has_more page \<longleftrightarrow> json_get page (lit ''hasMore'') = Some (JBool True)"

definition page_expired :: "json \<Rightarrow> bool" where
  "page_expired page \<longleftrightarrow> json_get page (lit ''cursorExpired'') = Some (JBool True)"

lemma output_page_fields:
  assumes "command_output_page base chunks n more_flag = Inr page" and "is_object base" and "n \<le> u64_max_nat"
  shows "page_chunks page = chunks" "page_cursor page = Some n" "page_has_more page = more_flag"
    "page_expired page = page_expired base"
  using assms
  by (auto simp: command_output_page_def page_chunks_def page_cursor_def page_has_more_def page_expired_def Let_def
      json_get_set_same json_get_set_other as_u64_def json_nat_def u64_max_nat_def split: option.splits if_splits)

text \<open>That a response with these chunks would exceed the budget.\<close>

definition over_budget :: "envelope_measure \<Rightarrow> json \<Rightarrow> BackgroundCommandOutputChunk list \<Rightarrow> nat \<Rightarrow> bool" where
  "over_budget sz base cs k \<longleftrightarrow>
     (\<exists>page m. command_output_page base (map chunk_json (take (Suc k) cs)) (chunk_cursor (cs ! k)) (Suc k < length cs) = Inr page
        \<and> measure_tool_execution sz \<lparr>tool_output = page, is_error = False\<rparr> = Inr m
        \<and> (serialized_bytes m > TOOL_OUTPUT_SOFT_BYTE_LIMIT \<or> text_lines m > TOOL_OUTPUT_SOFT_LINE_LIMIT))"

lemma limited_loop_prefix:
  assumes "limited_loop sz base (drop i cs) (map chunk_json (take i cs)) n = Inr (js, n')" and "i \<le> length cs"
  shows "\<exists>k. i \<le> k \<and> k \<le> length cs \<and> js = map chunk_json (take k cs)
    \<and> n' = (if k = i then n else chunk_cursor (cs ! (k - 1))) \<and> (k < length cs \<longrightarrow> over_budget sz base cs k)"
  using assms
proof (induction "length cs - i" arbitrary: i n)
  case 0
  then show ?case by auto
next
  case (Suc x)
  then have i: "i < length cs" by simp
  then have d: "drop i cs = cs ! i # drop (Suc i) cs" by (simp add: Cons_nth_drop_Suc)
  have t: "map chunk_json (take i cs) @ [chunk_json (cs ! i)] = map chunk_json (take (Suc i) cs)"
    using i by (simp add: take_Suc_conv_app_nth)
  have ne: "drop (Suc i) cs \<noteq> [] \<longleftrightarrow> Suc i < length cs" by (simp add: not_le)
  obtain page m where pm: "command_output_page base (map chunk_json (take (Suc i) cs)) (chunk_cursor (cs ! i))
        (Suc i < length cs) = Inr page" "measure_tool_execution sz \<lparr>tool_output = page, is_error = False\<rparr> = Inr m"
    using Suc.prems(1) unfolding d limited_loop.simps t ne by (auto split: sum.splits)
  show ?case
  proof (cases "serialized_bytes m > TOOL_OUTPUT_SOFT_BYTE_LIMIT \<or> text_lines m > TOOL_OUTPUT_SOFT_LINE_LIMIT")
    case True
    then have "js = map chunk_json (take i cs)" "n' = n" "over_budget sz base cs i"
      using Suc.prems(1) pm unfolding d limited_loop.simps t ne by (auto simp: over_budget_def)
    with i show ?thesis by (intro exI [of _ i]) simp
  next
    case False
    then have "limited_loop sz base (drop (Suc i) cs) (map chunk_json (take (Suc i) cs)) (chunk_cursor (cs ! i)) = Inr (js, n')"
      using Suc.prems(1) pm unfolding d limited_loop.simps t ne by simp
    moreover have "x = length cs - Suc i" "Suc i \<le> length cs" using Suc.hyps(2) i by simp_all
    ultimately obtain k where k: "Suc i \<le> k" "k \<le> length cs"
      "js = map chunk_json (take k cs)" "n' = (if k = Suc i then chunk_cursor (cs ! i) else chunk_cursor (cs ! (k - 1)))"
      "k < length cs \<longrightarrow> over_budget sz base cs k" using Suc.hyps(1) by blast
    then show ?thesis by (intro exI [of _ k]) auto
  qed
qed

lemma response_base_object [simp]: "is_object (response_base s out f a)"
  by (simp add: response_base_def is_object_def)

lemma response_page:
  assumes "command_output_response sz s out (Some a) = Inr page" and "a \<le> u64_max_nat"
    and "\<forall>c \<in> set (out_chunks out). chunk_cursor c \<le> u64_max_nat"
  shows "\<exists>k \<le> length (out_chunks out). page_chunks page = map chunk_json (take k (out_chunks out))
    \<and> page_cursor page = Some (if k = 0 then a else chunk_cursor (out_chunks out ! (k - 1)))
    \<and> page_has_more page = (k < length (out_chunks out)) \<and> page_expired page = out_cursor_expired out"
proof -
  let ?av = "case out_earliest_cursor out of Some c \<Rightarrow> c | None \<Rightarrow> out_next_cursor out"
  let ?b = "response_base s out a ?av" and ?cs = "out_chunks out"
  obtain js n where l: "limited_loop sz ?b ?cs [] a = Inr (js, n)"
    and p: "command_output_page ?b js n (length js < length ?cs) = Inr page"
    using assms(1) by (auto simp: command_output_response_def limited_chunks_def Let_def split: sum.splits prod.splits)
  obtain k where k: "k \<le> length ?cs" "js = map chunk_json (take k ?cs)"
      "n = (if k = 0 then a else chunk_cursor (?cs ! (k - 1)))"
    using limited_loop_prefix [of sz ?b 0 ?cs a js n] l by auto
  have n: "n \<le> u64_max_nat" using k(1,3) assms(2,3) by (auto intro: nth_mem)
  have "page_expired ?b = out_cursor_expired out"
    by (simp add: page_expired_def response_base_def json_get_def)
  with output_page_fields [OF p response_base_object n] k show ?thesis by (intro exI [of _ k]) simp
qed

section \<open>A client that polls\<close>

text \<open>What a reader of a numbered log relies on: whatever it fetches after a position is the rest of the
  log from there, and logs only grow.\<close>

locale cursor_log =
  fixes valid :: "'s \<Rightarrow> bool" and content :: "'s \<Rightarrow> 'c list" and fetch :: "'s \<Rightarrow> nat \<Rightarrow> 'c list option"
  assumes fetch_exact: "valid s \<Longrightarrow> fetch s c = Some xs \<Longrightarrow> xs = drop c (content s)"
begin

lemma next_page:
  assumes "valid s" and "fetch s c = Some xs" and "k \<le> length xs" and "prefix (content s) log" and "c \<le> length (content s)"
  shows "take c log @ take k xs = take (c + k) log"
proof -
  have "xs = drop c (content s)" by (rule fetch_exact [OF assms(1,2)])
  moreover obtain zs where "log = content s @ zs" using assms(4) by (auto simp: prefix_def)
  ultimately show ?thesis using assms(3,5) by (simp add: take_add)
qed

end

definition ring_fetch :: "nat \<times> BackgroundCommandOutputChunk list \<times> OutputRingBuffer \<Rightarrow> nat
    \<Rightarrow> BackgroundCommandOutputChunk list option" where
  "ring_fetch s c = (case s of (m, log, r) \<Rightarrow>
     (let out = read_after [] (Some c) r in if out_cursor_expired out then None else Some (out_chunks out)))"

interpretation ring: cursor_log "\<lambda>(m, log, r). ring_of m log r" "\<lambda>(m, log, r). log" ring_fetch
proof
  fix s c xs
  assume v: "case s of (m, log, r) \<Rightarrow> ring_of m log r" and f: "ring_fetch s c = Some xs"
  obtain m log r where s: "s = (m, log, r)" by (metis prod_cases3)
  then show "xs = drop c (case s of (m, log, r) \<Rightarrow> log)"
    using v f read_after_of(1,2) [of m log r "[]" c] by (auto simp: ring_fetch_def Let_def max_def split: if_splits)
qed

text \<open>A client that reads one page after the other from cursor \<open>a\<close> on. Before each read the command
  writes more output; the snapshot of the command at the read is given. The client stops when a
  response is an error or says that its cursor is expired.\<close>

fun poll_command :: "envelope_measure \<Rightarrow> nat \<Rightarrow> ((BackgroundCommandOutputStream \<times> nat list) list \<times> BackgroundCommandSnapshot) list
    \<Rightarrow> nat \<Rightarrow> OutputRingBuffer \<Rightarrow> (json list \<times> nat) option" where
  "poll_command sz m [] a r = Some ([], a)"
| "poll_command sz m ((ws, s) # rounds) a r =
     (case ring_writes m ws r of
        (None, _) \<Rightarrow> None
      | (Some _, r') \<Rightarrow>
          (case command_output_response sz s (read_after (snap_command_id s) (Some a) r') (Some a) of
             Inl _ \<Rightarrow> None
           | Inr page \<Rightarrow>
               if page_expired page then None
               else (case page_cursor page of
                       None \<Rightarrow> None
                     | Some a' \<Rightarrow> map_option (\<lambda>(js, b). (page_chunks page @ js, b)) (poll_command sz m rounds a' r'))))"

lemma log_writes_append: "log_writes (ws @ vs) log = log_writes vs (log_writes ws log)"
  by (induction ws log rule: log_writes.induct) auto

lemma log_writes_prefix: "prefix log (log_writes ws log)"
proof (induction ws log rule: log_writes.induct)
  case (2 s b ws log)
  have "prefix log (log_write s b log)" by (simp add: log_write_def)
  with 2 show ?case by (auto intro: prefix_order.trans)
qed simp

lemma length_log_writes: "length (log_writes ws log) \<le> length log + sum_list (map (\<lambda>w. length (snd w)) ws)"
proof (induction ws log rule: log_writes.induct)
  case (2 s b ws log)
  then show ?case using length_chunk_split [of b] by (simp add: log_write_def)
qed simp

text \<open>One read: the chunks it returns follow those read before, and the next cursor counts them.\<close>

lemma poll_page:
  assumes "command_output_response sz s (read_after cid (Some a) r) (Some a) = Inr page" and "\<not> page_expired page"
    and "ring_of m log r" and "a \<le> length log" and "prefix log L"
  shows "\<exists>k. page_cursor page = Some (a + k) \<and> a + k \<le> length log
    \<and> map chunk_json (take a L) @ page_chunks page = map chunk_json (take (a + k) L)"
proof -
  let ?out = "read_after cid (Some a) r"
  have ok: "\<forall>i < length log. chunk_cursor (log ! i) = Suc i" "length log \<le> u64_max_nat"
    using assms(3) by (simp_all add: ring_of_def log_ok_def)
  note rd = read_after_of(1,2) [OF assms(3)]
  have "chunk_cursor c \<le> u64_max_nat" if c: "c \<in> set (out_chunks ?out)" for c
  proof -
    from c obtain j where "j < length log" "c = log ! j"
      using rd(1) by (metis in_set_conv_nth in_set_dropD)
    with ok show ?thesis by auto
  qed
  then obtain k where k: "k \<le> length (out_chunks ?out)" "page_chunks page = map chunk_json (take k (out_chunks ?out))"
    "page_cursor page = Some (if k = 0 then a else chunk_cursor (out_chunks ?out ! (k - 1)))"
    "page_expired page = out_cursor_expired ?out"
    using response_page [OF assms(1)] assms(4) ok(2) by auto
  have xs: "out_chunks ?out = drop a log" using rd assms(2) k(4) by simp
  have "ring_fetch (m, log, r) a = Some (drop a log)"
    using xs k(4) assms(2) rd by (simp add: ring_fetch_def Let_def)
  then have "take a L @ take k (drop a log) = take (a + k) L"
    using ring.next_page [of "(m, log, r)" a "drop a log" k L] k(1) xs assms(3-5) by simp
  then have "map chunk_json (take a L) @ page_chunks page = map chunk_json (take (a + k) L)"
    by (metis k(2) map_append xs)
  moreover have "page_cursor page = Some (a + k)" using k(1,3) ok(1) xs by (cases k) simp_all
  ultimately show ?thesis using k(1) xs assms(4) by (intro exI [of _ k]) simp
qed

lemma poll_command_log:
  assumes "poll_command sz m rounds a r = Some (js, b)" and "ring_of m log r" and "a \<le> length log"
    and "\<forall>w \<in> set (concat (map fst rounds)). length (snd w) \<le> m" and "m + MAX_OUTPUT_CHUNK_BYTES \<le> usize_MAX"
    and "length log + sum_list (map (\<lambda>w. length (snd w)) (concat (map fst rounds))) \<le> u64_max_nat"
  shows "map chunk_json (take a (log_writes (concat (map fst rounds)) log)) @ js
      = map chunk_json (take b (log_writes (concat (map fst rounds)) log))
    \<and> b \<le> length (log_writes (concat (map fst rounds)) log)"
  using assms(1-4,6)
proof (induction rounds arbitrary: a r log js)
  case Nil
  then show ?case by simp
next
  case (Cons round rounds)
  obtain ws s where rd: "round = (ws, s)" by fastforce
  let ?vs = "concat (map fst rounds)" and ?log = "log_writes ws log"
  let ?L = "log_writes ?vs ?log"
  have L: "log_writes (concat (map fst (round # rounds))) log = ?L" by (simp add: rd log_writes_append)
  have room: "length log + sum_list (map (\<lambda>w. length (snd w)) ws) \<le> u64_max_nat"
    "length ?log + sum_list (map (\<lambda>w. length (snd w)) ?vs) \<le> u64_max_nat"
    using Cons.prems(5) length_log_writes [of ws log] by (auto simp: rd)
  have "\<forall>w \<in> set ws. length (snd w) \<le> m" using Cons.prems(4) by (auto simp: rd)
  then obtain r' where r': "ring_writes m ws r = (Some (), r')" "ring_of m ?log r'"
    using ring_writes_of [OF Cons.prems(2) _ assms(5) room(1)] by blast
  obtain page a' js' where page: "command_output_response sz s (read_after (snap_command_id s) (Some a) r') (Some a) = Inr page"
      "\<not> page_expired page" "page_cursor page = Some a'" "poll_command sz m rounds a' r' = Some (js', b)"
      "js = page_chunks page @ js'"
    using Cons.prems(1) r'(1) by (auto simp: rd split: sum.splits if_splits option.splits)
  have a: "a \<le> length ?log" using Cons.prems(3) log_writes_prefix [of log ws] by (auto dest: prefix_length_le)
  obtain k where k: "a' = a + k" "a + k \<le> length ?log"
      "map chunk_json (take a ?L) @ page_chunks page = map chunk_json (take (a + k) ?L)"
    using poll_page [OF page(1,2) r'(2) a log_writes_prefix] page(3) by auto
  have "\<forall>w \<in> set ?vs. length (snd w) \<le> m" using Cons.prems(4) by (auto simp: rd)
  with Cons.IH [OF page(4) r'(2) _ _ room(2)] k have
    "map chunk_json (take a' ?L) @ js' = map chunk_json (take b ?L) \<and> b \<le> length ?L" by simp
  with k page(5) L show ?case by (metis append.assoc)
qed

text \<open>The pages of a command's output are in order, complete and without repeats. A client starts at
  cursor zero and continues each time with the cursor of the page before, while the command goes on
  writing; if no response is an error or says that the cursor is expired, the chunks it received are
  exactly the first chunks of all the output, as many as its last cursor says.\<close>

theorem command_output_pages_in_order:
  assumes "poll_command sz m rounds 0 new_ring = Some (js, b)"
    and "\<forall>w \<in> set (concat (map fst rounds)). length (snd w) \<le> m" and "m + MAX_OUTPUT_CHUNK_BYTES \<le> usize_MAX"
    and "sum_list (map (\<lambda>w. length (snd w)) (concat (map fst rounds))) \<le> u64_max_nat"
  shows "\<exists>log. (\<forall>s. stream_bytes s log = written s (concat (map fst rounds)))
    \<and> (\<forall>i < length log. chunk_cursor (log ! i) = Suc i) \<and> b \<le> length log \<and> js = map chunk_json (take b log)"
proof -
  let ?ws = "concat (map fst rounds)"
  have "\<exists>r. ring_of m (log_writes ?ws []) r" using ring_writes_of [OF ring_of_new assms(2,3)] assms(4) by auto
  then have "\<forall>i < length (log_writes ?ws []). chunk_cursor (log_writes ?ws [] ! i) = Suc i"
    by (auto simp: ring_of_def log_ok_def)
  moreover have "\<forall>s. stream_bytes s (log_writes ?ws []) = written s ?ws"
    using stream_bytes_log_writes [of _ ?ws "[]"] by (simp add: stream_bytes_def)
  ultimately show ?thesis
    using poll_command_log [OF assms(1) ring_of_new _ assms(2,3)] assms(4) by (intro exI [of _ "log_writes ?ws []"]) simp
qed

definition sample_snapshot :: BackgroundCommandSnapshot where
  "sample_snapshot = entry_snapshot (sample_entry\<lparr>bg_command_id := [99]\<rparr>)"

lemma sample_snapshot_fields: "snap_command_id sample_snapshot = [99]" "snap_status sample_snapshot = Running"
  "snap_termination sample_snapshot = None" "snap_exit_code sample_snapshot = None" "snap_ended_at sample_snapshot = None"
  by (simp_all add: sample_snapshot_def entry_snapshot_def sample_entry_def new_entry_def new_entry_state_def Let_def)

definition sample_chunk :: BackgroundCommandOutputChunk where
  "sample_chunk = \<lparr>chunk_cursor = 1, chunk_stream = Stdout, chunk_bytes = [104]\<rparr>"

lemma sample_log: "log_writes [(Stdout, [104])] [] = [sample_chunk]"
proof -
  have "output_chunk_end [104] = 1"
    by (simp add: output_chunk_end_def Let_def MAX_OUTPUT_CHUNK_BYTES_def NL_def)
  then have "chunk_split [104] = [[104]]" by (subst chunk_split.simps) simp
  then show ?thesis by (simp add: log_write_def sample_chunk_def)
qed

lemma sample_page_lines:
  assumes "command_output_page (response_base sample_snapshot out f a) [chunk_json sample_chunk] n False = Inr page"
  shows "value_text_lines page \<le> TOOL_OUTPUT_SOFT_LINE_LIMIT"
proof -
  have "utf8_lossy [104] = [104]"
    using utf8_lossy_bytes [of "[104]"] by (simp add: str_bytes_def utf8_char_def is_scalar_def)
  with assms show ?thesis
    by (auto simp: command_output_page_def response_base_def json_get_def as_str_def json_set_def Let_def sample_snapshot_fields
        json_opt_def background_success_def json_nat_def chunk_json_def sample_chunk_def sat_add_usize_def usize_MAX_def
        TOOL_OUTPUT_SOFT_LINE_LIMIT_def complete_line_count_def for_each_complete_line_def complete_lines_def lit_def
        CR_def NL_def)
qed

theorem command_output_pages_in_order_witness:
  "poll_command (\<lambda>_. Inr 0) 16 [([(Stdout, [104])], sample_snapshot)] 0 new_ring = Some ([chunk_json sample_chunk], 1)
   \<and> (\<exists>log. stream_bytes Stdout log = [104] \<and> [chunk_json sample_chunk] = map chunk_json (take 1 log))"
proof -
  obtain r where r: "ring_writes 16 [(Stdout, [104])] new_ring = (Some (), r)" "ring_of 16 [sample_chunk] r"
    using ring_writes_of [OF ring_of_new, of "[(Stdout, [104])]" 16] sample_log
    by (auto simp: MAX_OUTPUT_CHUNK_BYTES_def usize_MAX_def u64_max_nat_def)
  let ?out = "read_after (snap_command_id sample_snapshot) (Some 0) r"
  have e: "surplus 16 [sample_chunk] = 0" by (simp add: sample_chunk_def)
  note rd = read_after_of [OF r(2), unfolded e]
  have out: "out_chunks ?out = [sample_chunk]" "out_earliest_cursor ?out = Some 1" "\<not> out_cursor_expired ?out"
    using rd by auto
  let ?b = "response_base sample_snapshot ?out 0 1"
  obtain page where page: "command_output_page ?b [chunk_json sample_chunk] 1 False = Inr page"
    by (simp add: command_output_page_def response_base_def json_get_def as_str_def Let_def)
  have "limited_chunks (\<lambda>_. Inr 0) ?b ?out 0 = Inr ([chunk_json sample_chunk], 1, False)"
    using page sample_page_lines [OF page] out(1)
    by (simp add: limited_chunks_def measure_tool_execution_def sample_chunk_def)
  then have resp: "command_output_response (\<lambda>_. Inr 0) sample_snapshot ?out (Some 0) = Inr page"
    using page out(2) by (simp add: command_output_response_def Let_def)
  have "page_expired ?b = out_cursor_expired ?out"
    by (simp add: page_expired_def response_base_def json_get_def)
  then have poll: "poll_command (\<lambda>_. Inr 0) 16 [([(Stdout, [104])], sample_snapshot)] 0 new_ring = Some ([chunk_json sample_chunk], 1)"
    using r(1) resp output_page_fields [OF page] out(3) by (simp add: u64_max_nat_def)
  have c: "concat (map fst [([(Stdout, [104])], sample_snapshot)]) = [(Stdout, [104])]" by simp
  have bounds: "\<forall>w \<in> set [(Stdout, [104 :: nat])]. length (snd w) \<le> 16" "16 + MAX_OUTPUT_CHUNK_BYTES \<le> usize_MAX"
    "sum_list (map (\<lambda>w. length (snd w)) [(Stdout, [104 :: nat])]) \<le> u64_max_nat"
    by (simp_all add: MAX_OUTPUT_CHUNK_BYTES_def usize_MAX_def u64_max_nat_def)
  from command_output_pages_in_order [OF poll, unfolded c, OF bounds] obtain log
    where log: "(\<forall>s. stream_bytes s log = written s [(Stdout, [104])])
      \<and> (\<forall>i < length log. chunk_cursor (log ! i) = Suc i) \<and> 1 \<le> length log
      \<and> [chunk_json sample_chunk] = map chunk_json (take 1 log)" by (rule exE)
  have "stream_bytes Stdout log = [104]" using log by (simp add: written_def)
  moreover have "[chunk_json sample_chunk] = map chunk_json (take 1 log)" using log by (elim conjE)
  ultimately show ?thesis using poll by (intro conjI exI [of _ log])
qed

section \<open>Output that cannot be read\<close>

lemma chunk_end_newlines:
  "n \<le> MAX_OUTPUT_CHUNK_NEWLINES \<Longrightarrow> chunk_end_loop (replicate k NL) i n
     = (if n + k \<le> MAX_OUTPUT_CHUNK_NEWLINES then None else Some (i + (MAX_OUTPUT_CHUNK_NEWLINES - n)))"
proof (induction k arbitrary: i n)
  case (Suc k)
  have "n + 1 \<le> usize_MAX" using Suc.prems by (simp add: MAX_OUTPUT_CHUNK_NEWLINES_def usize_MAX_def)
  then have s: "sat_add_usize n (Suc 0) = Suc n" by (simp add: sat_add_usize_def)
  show ?case
  proof (cases "n = MAX_OUTPUT_CHUNK_NEWLINES")
    case False
    with Suc.prems have "Suc n \<le> MAX_OUTPUT_CHUNK_NEWLINES" by simp
    with Suc.IH [of "Suc n" "Suc i"] s show ?thesis by auto
  qed (use s in simp)
qed simp

lemma chunk_split_newlines: "chunk_split (replicate 2000 NL) = [replicate 1999 NL, [NL]]"
proof -
  have "chunk_end_loop (replicate 2000 NL) 0 0 = Some 1999"
    using chunk_end_newlines [of 0 2000 0] by (simp add: MAX_OUTPUT_CHUNK_NEWLINES_def)
  then have e1: "output_chunk_end (replicate 2000 NL) = 1999"
    by (simp add: output_chunk_end_def Let_def MAX_OUTPUT_CHUNK_BYTES_def)
  have e2: "output_chunk_end [NL] = 1"
    by (simp add: output_chunk_end_def Let_def MAX_OUTPUT_CHUNK_BYTES_def MAX_OUTPUT_CHUNK_NEWLINES_def
        sat_add_usize_def usize_MAX_def)
  have "chunk_split [NL] = [[NL]]" by (subst chunk_split.simps) (simp add: e2)
  moreover have "drop 1999 (replicate 2000 NL) = [NL]" "take 1999 (replicate 2000 NL) = replicate 1999 NL" by simp_all
  moreover have "replicate 2000 NL \<noteq> []" by simp
  ultimately show ?thesis using e1 by (subst chunk_split.simps) simp
qed

lemma lossy_newlines: "utf8_lossy (replicate k NL) = replicate k NL"
proof -
  have "str_bytes (replicate k NL) = replicate k NL"
    by (induction k) (simp_all add: str_bytes_def utf8_char_def NL_def)
  moreover have "list_all is_scalar (replicate k NL)" by (simp add: list_all_iff is_scalar_def NL_def)
  ultimately show ?thesis using utf8_lossy_bytes by metis
qed

lemma line_count_newlines: "k \<le> usize_MAX \<Longrightarrow> complete_line_count (replicate k NL) = k"
proof -
  assume k: "k \<le> usize_MAX"
  have "scan_lines [] (NL # replicate n NL) = replicate (Suc n) [NL]" for n
    by (induction n) (simp_all add: NL_def CR_def)
  then have "complete_lines (replicate k NL) = replicate k [NL]"
    by (cases k) (simp_all add: complete_lines_def)
  moreover have "str_len (replicate k NL) = k"
    by (induction k) (simp_all add: str_len_def str_bytes_def utf8_char_def NL_def)
  ultimately show ?thesis using complete_line_count_eq [of "replicate k NL"] k by simp
qed

lemma object_lines_sum:
  "acc \<le> usize_MAX \<Longrightarrow> object_text_lines kvs acc = min usize_MAX (acc + sum_list (map (\<lambda>e. value_text_lines (snd e)) kvs))"
proof (induction kvs arbitrary: acc)
  case (Cons e kvs)
  obtain k v where e: "e = (k, v)" by fastforce
  have "sat_add_usize acc (value_text_lines v) \<le> usize_MAX" by (simp add: sat_add_usize_def)
  from Cons.IH [OF this] show ?case by (simp add: e sat_add_usize_def min_def)
qed simp

lemma line_count_pos: "s \<noteq> [] \<Longrightarrow> str_len s \<le> usize_MAX \<Longrightarrow> 1 \<le> complete_line_count s"
proof -
  assume s: "s \<noteq> []" "str_len s \<le> usize_MAX"
  have "complete_lines s \<noteq> []" using s(1) by (metis concat.simps(1) concat_complete_lines)
  with complete_line_count_eq [OF s(2)] show ?thesis by (simp add: Suc_le_eq)
qed

definition newline_chunk :: BackgroundCommandOutputChunk where
  "newline_chunk = \<lparr>chunk_cursor = 1, chunk_stream = Stdout, chunk_bytes = replicate 1999 NL\<rparr>"

lemma newline_chunk_lines: "value_text_lines (JArr [chunk_json newline_chunk]) = 2000"
proof -
  have "complete_line_count (lit ''stdout'') = 1"
    using complete_line_count_eq [of "lit ''stdout''"]
    by (simp add: lit_def str_len_def str_bytes_def utf8_char_def usize_MAX_def complete_lines_def CR_def NL_def)
  then show ?thesis
    using line_count_newlines [of 1999]
    by (simp add: newline_chunk_def chunk_json_def lossy_newlines json_nat_def sat_add_usize_def usize_MAX_def)
qed

lemma newline_page_over:
  assumes "command_output_page (response_base s out f a) [chunk_json newline_chunk] n more_flag = Inr page"
    and "snap_command_id s \<noteq> []" and "str_len (snap_command_id s) \<le> usize_MAX"
  shows "value_text_lines page > TOOL_OUTPUT_SOFT_LINE_LIMIT"
proof -
  obtain kvs where page: "page = JObj kvs"
    and mem: "(lit ''processId'', JStr (snap_command_id s)) \<in> set kvs"
      "(lit ''chunks'', JArr [chunk_json newline_chunk]) \<in> set kvs"
    using assms(1)
    by (auto simp: command_output_page_def response_base_def json_get_def as_str_def json_set_def Let_def
        split: if_splits)
  let ?f = "\<lambda>e. value_text_lines (snd e)"
  let ?x = "(lit ''processId'', JStr (snap_command_id s))" and ?y = "(lit ''chunks'', JArr [chunk_json newline_chunk])"
  have "?y \<in> set (remove1 ?x kvs)" using mem(2) by (simp add: in_set_remove1)
  then have "?f ?y \<in> set (map ?f (remove1 ?x kvs))" unfolding set_map by (rule imageI)
  then have "?f ?y \<le> sum_list (map ?f (remove1 ?x kvs))" by (intro member_le_sum_list) simp_all
  moreover have "sum_list (map ?f kvs) = ?f ?x + sum_list (map ?f (remove1 ?x kvs))"
    using mem(1) by (rule sum_list_map_remove1)
  moreover have "1 \<le> ?f ?x" using line_count_pos assms(2,3) by simp
  ultimately have "2001 \<le> sum_list (map ?f kvs)" using newline_chunk_lines by simp
  then show ?thesis
    using object_lines_sum [of 0 kvs] by (simp add: page TOOL_OUTPUT_SOFT_LINE_LIMIT_def usize_MAX_def)
qed

text \<open>C36: a command that prints a run of blank lines makes its output unreadable. When a command has
  printed two thousand line breaks, its first chunk has 1,999 lines, and the response that holds this
  chunk counts more than the 2,000 lines of the budget, since the other texts of the response count
  too. Every read from the start then returns no chunk, says that there is more, and names the same
  cursor again, whatever the sizes are.\<close>

theorem newline_output_never_delivered:
  assumes "\<forall>ex. \<exists>n. sz ex = Inr n" and "snap_command_id s \<noteq> []" and "str_len (snap_command_id s) \<le> usize_MAX"
    and "a = None \<or> a = Some 0"
  shows "\<exists>r page. ring_writes MAX_BACKGROUND_COMMAND_OUTPUT_BYTES [(Stdout, replicate 2000 NL)] new_ring = (Some (), r)
    \<and> command_output_response sz s (read_after (snap_command_id s) a r) a = Inr page
    \<and> page_chunks page = [] \<and> page_has_more page \<and> page_cursor page = Some 0 \<and> \<not> page_expired page"
proof -
  let ?m = MAX_BACKGROUND_COMMAND_OUTPUT_BYTES and ?ws = "[(Stdout, replicate 2000 NL)]"
  let ?c2 = "\<lparr>chunk_cursor = 2, chunk_stream = Stdout, chunk_bytes = [NL]\<rparr>"
  have log: "log_writes ?ws [] = [newline_chunk, ?c2]"
    by (simp add: log_write_def chunk_split_newlines newline_chunk_def)
  obtain r where r: "ring_writes ?m ?ws new_ring = (Some (), r)" "ring_of ?m [newline_chunk, ?c2] r"
    using ring_writes_of [OF ring_of_new, of ?ws ?m] log
    by (auto simp: MAX_BACKGROUND_COMMAND_OUTPUT_BYTES_def MAX_OUTPUT_CHUNK_BYTES_def usize_MAX_def u64_max_nat_def)
  let ?out = "read_after (snap_command_id s) a r"
  have "bytes_held [newline_chunk, ?c2] \<le> ?m"
    by (simp add: newline_chunk_def MAX_BACKGROUND_COMMAND_OUTPUT_BYTES_def)
  then have e: "surplus ?m [newline_chunk, ?c2] = 0" by simp
  have none: "out_cursor_expired (read_after cid None r) = False" for cid by (simp add: read_after_def Let_def)
  note rd = read_after_of [OF r(2), unfolded e] none
  have out: "out_chunks ?out = [newline_chunk, ?c2]" "out_earliest_cursor ?out = Some 1" "\<not> out_cursor_expired ?out"
    using assms(4) rd by auto
  let ?b = "response_base s ?out (case a of Some c \<Rightarrow> c | None \<Rightarrow> 1) 1"
  obtain page where page: "command_output_page ?b [chunk_json newline_chunk] 1 True = Inr page"
    by (simp add: command_output_page_def response_base_def json_get_def as_str_def Let_def)
  obtain n where n: "sz \<lparr>tool_output = page, is_error = False\<rparr> = Inr n" using assms(1) by blast
  have "limited_chunks sz ?b ?out 0 = Inr ([], 0, True)"
    using newline_page_over [OF page assms(2,3)] page n out(1)
    by (simp add: limited_chunks_def measure_tool_execution_def newline_chunk_def)
  moreover obtain p where p: "command_output_page ?b [] 0 True = Inr p"
    by (simp add: command_output_page_def response_base_def json_get_def as_str_def Let_def)
  ultimately have "command_output_response sz s ?out a = Inr p"
    using assms(4) out(2) by (auto simp: command_output_response_def Let_def)
  moreover have "page_expired ?b = out_cursor_expired ?out"
    by (simp add: page_expired_def response_base_def json_get_def)
  ultimately show ?thesis using r(1) output_page_fields [OF p] out(3) by auto
qed

theorem newline_output_never_delivered_witness:
  "\<exists>r page. ring_writes MAX_BACKGROUND_COMMAND_OUTPUT_BYTES [(Stdout, replicate 2000 NL)] new_ring = (Some (), r)
    \<and> command_output_response (\<lambda>_. Inr 0) (entry_snapshot (sample_entry\<lparr>bg_command_id := [99]\<rparr>)) (read_after [99] (Some 0) r) (Some 0) = Inr page
    \<and> page_chunks page = [] \<and> page_has_more page \<and> page_cursor page = Some 0"
proof -
  let ?s = "entry_snapshot (sample_entry\<lparr>bg_command_id := [99]\<rparr>)"
  have id: "snap_command_id ?s = [99]" by (simp add: entry_snapshot_def Let_def)
  then have "snap_command_id ?s \<noteq> []" "str_len (snap_command_id ?s) \<le> usize_MAX"
    by (simp_all add: str_len_def str_bytes_def utf8_char_def usize_MAX_def)
  from newline_output_never_delivered [where sz = "\<lambda>_. Inr 0" and a = "Some 0", OF _ this] id show ?thesis by auto
qed

end
