(* ===== verification/Question_Registry.thy ===== *)
theory Question_Registry
  imports Foco_Prelude "HOL-Library.AList"
begin

text \<open>
  Questions of a run to the user (\<open>app/runtime/questions.rs\<close>): the check of an answer against its
  request, and the registry of pending questions. A question that is registered has a one-shot channel;
  its sender lies in the registry and its receiver with the waiting run, whose registration removes the
  question when it is dropped. Channels are kept in a list with the request they were made for; the map
  of the registry is an association list in its order of iteration. Poisoned locks are outside the model.
\<close>

section \<open>Requests and answers\<close>

record QuestionOption =
  opt_label :: rstr
  opt_value :: rstr
  opt_description :: "rstr option"

record QuestionItem =
  item_id :: rstr
  item_question :: rstr
  item_options :: "QuestionOption list"
  item_allow_free_text :: bool

record QuestionRequest =
  request_id :: rstr
  request_tool_call_id :: rstr
  request_workspace_id :: rstr
  request_chat_id :: rstr
  request_questions :: "QuestionItem list"

record QuestionItemAnswer =
  answer_id :: rstr
  answer_value :: rstr
  answer_selected :: "rstr option"

datatype ApiError = BadRequest rstr | InternalError rstr | Conflict rstr

definition selected_value :: "QuestionItemAnswer \<Rightarrow> rstr option" where
  "selected_value a = (case answer_selected a of
     Some s \<Rightarrow> if trim s = [] then None else Some (trim s) | None \<Rightarrow> None)"

definition validate_question_item_answer :: "QuestionItem \<Rightarrow> QuestionItemAnswer \<Rightarrow> ApiError + unit" where
  "validate_question_item_answer q a =
     (let answer_text = trim (answer_value a)
      in case selected_value a of
           Some selected \<Rightarrow>
             (case find (\<lambda>opt. opt_value opt = selected) (item_options q) of
                None \<Rightarrow> Inl (BadRequest (lit ''selected option was not found for question item ''
                          @ quote_id (item_id q) @ lit '': '' @ selected))
              | Some opt \<Rightarrow>
                  if answer_text \<noteq> opt_value opt
                  then Inl (BadRequest (lit ''answer must match selectedOptionValue when an option is selected''))
                  else Inr ())
         | None \<Rightarrow>
             if \<not> item_allow_free_text q
             then Inl (BadRequest (lit ''question item '' @ quote_id (item_id q)
                    @ lit '' requires selecting one of the provided options''))
             else if answer_text = [] then Inl (BadRequest (lit ''answer must not be empty''))
             else Inr ())"

text \<open>The loop over the answers; the set is \<open>answered_question_ids\<close>.\<close>

fun validate_answers :: "QuestionItem list \<Rightarrow> rstr set \<Rightarrow> QuestionItemAnswer list \<Rightarrow> ApiError + rstr set" where
  "validate_answers questions answered [] = Inr answered"
| "validate_answers questions answered (a # as) =
     (let qid = trim (answer_id a)
      in if qid = [] then Inl (BadRequest (lit ''answer question id must not be empty''))
         else if qid \<in> answered then Inl (BadRequest (lit ''duplicate answer for question item: '' @ qid))
         else (case find (\<lambda>q. item_id q = qid) questions of
                 None \<Rightarrow> Inl (BadRequest (lit ''answer references unknown question item: '' @ qid))
               | Some q \<Rightarrow>
                   (case validate_question_item_answer q a of
                      Inl e \<Rightarrow> Inl e
                    | Inr _ \<Rightarrow> validate_answers questions (insert qid answered) as)))"

definition validate_question_answer :: "QuestionRequest \<Rightarrow> QuestionItemAnswer list \<Rightarrow> ApiError + unit" where
  "validate_question_answer rq answers =
     (if length answers \<noteq> length (request_questions rq)
      then Inl (BadRequest (lit ''question '' @ quote_id (request_id rq) @ lit '' requires answers for all ''
             @ nat_display (length (request_questions rq)) @ lit '' questions''))
      else (case validate_answers (request_questions rq) {} answers of
              Inl e \<Rightarrow> Inl e
            | Inr answered \<Rightarrow>
                (case find (\<lambda>q. item_id q \<notin> answered) (request_questions rq) of
                   Some q \<Rightarrow> Inl (BadRequest (lit ''missing answer for question item: '' @ item_id q))
                 | None \<Rightarrow> Inr ())))"

section \<open>The registry\<close>

datatype ChannelState = ChanOpen | ChanSent "QuestionItemAnswer list" | ChanClosed

record QuestionChannel =
  chan_request :: QuestionRequest
  chan_state :: ChannelState
  chan_receiver :: bool

record PendingQuestion =
  pending_request :: QuestionRequest
  pending_channel :: nat
  pending_registered_at :: nat

text \<open>The pending questions, all channels made so far, and the clean-up guards that runs hold, each
  with the channel of its registration.\<close>

record QuestionWorld =
  q_pending :: "(rstr \<times> PendingQuestion) list"
  q_channels :: "QuestionChannel list"
  q_held :: "(nat \<times> rstr) list"

definition new_questions :: QuestionWorld where
  "new_questions = \<lparr>q_pending = [], q_channels = [], q_held = []\<rparr>"

definition set_state :: "nat \<Rightarrow> ChannelState \<Rightarrow> QuestionChannel list \<Rightarrow> QuestionChannel list" where
  "set_state c st chans = chans[c := (chans ! c)\<lparr>chan_state := st\<rparr>]"

text \<open>A question that is removed unanswered drops its sender, which closes the channel.\<close>

definition drop_sender :: "PendingQuestion option \<Rightarrow> QuestionChannel list \<Rightarrow> QuestionChannel list" where
  "drop_sender p chans =
     (case p of None \<Rightarrow> chans | Some q \<Rightarrow> set_state (pending_channel q) ChanClosed chans)"

text \<open>The question is inserted before the duplicate is noticed. On the error path the receiver of
  the new channel is dropped and no clean-up guard is made.\<close>

definition register_question :: "nat \<Rightarrow> QuestionRequest \<Rightarrow> QuestionWorld
    \<Rightarrow> (ApiError + nat) \<times> QuestionWorld" where
  "register_question now rq w =
     (let qid = request_id rq; c = length (q_channels w); old = map_of (q_pending w) qid;
          pending = AList.update qid \<lparr>pending_request = rq, pending_channel = c,
            pending_registered_at = now\<rparr> (q_pending w)
      in if old \<noteq> None
         then (Inl (InternalError (lit ''duplicate pending question id: '' @ qid)),
               w\<lparr>q_pending := pending, q_channels := drop_sender old (q_channels w)
                 @ [\<lparr>chan_request = rq, chan_state = ChanOpen, chan_receiver = False\<rparr>]\<rparr>)
         else (Inr c,
               w\<lparr>q_pending := pending,
                 q_channels := q_channels w
                   @ [\<lparr>chan_request = rq, chan_state = ChanOpen, chan_receiver = True\<rparr>],
                 q_held := (c, qid) # q_held w\<rparr>))"

definition answer_question :: "rstr \<Rightarrow> QuestionItemAnswer list \<Rightarrow> QuestionWorld
    \<Rightarrow> (ApiError + unit) \<times> QuestionWorld" where
  "answer_question question_id answers w =
     (let qid = trim question_id
      in if qid = [] then (Inl (BadRequest (lit ''question id must not be empty'')), w)
         else (case map_of (q_pending w) qid of
           None \<Rightarrow> (Inl (BadRequest (lit ''question is not waiting for an answer: '' @ qid)), w)
         | Some p \<Rightarrow>
             (case validate_question_answer (pending_request p) answers of
                Inl e \<Rightarrow> (Inl e, w)
              | Inr _ \<Rightarrow>
                  (let c = pending_channel p; w' = w\<lparr>q_pending := AList.delete qid (q_pending w)\<rparr>
                   in if chan_receiver (q_channels w ! c)
                      then (Inr (), w'\<lparr>q_channels := set_state c (ChanSent answers) (q_channels w)\<rparr>)
                      else (Inl (BadRequest (lit ''question is no longer waiting for an answer: '' @ qid)),
                            w'\<lparr>q_channels := set_state c ChanClosed (q_channels w)\<rparr>)))))"

text \<open>The waiter's side: what awaiting the receiver gives (\<open>None\<close> while it waits), the end of
  the receiver, which is read or dropped first, and then the clean-up guard, which removes the question
  by its id.\<close>

definition await_answer :: "nat \<Rightarrow> QuestionWorld \<Rightarrow> (unit + QuestionItemAnswer list) option" where
  "await_answer c w = (case chan_state (q_channels w ! c) of
     ChanOpen \<Rightarrow> None | ChanSent answers \<Rightarrow> Some (Inr answers) | ChanClosed \<Rightarrow> Some (Inl ()))"

definition drop_receiver :: "nat \<Rightarrow> QuestionWorld \<Rightarrow> QuestionWorld" where
  "drop_receiver c w =
     w\<lparr>q_channels := (q_channels w)[c := (q_channels w ! c)\<lparr>chan_receiver := False\<rparr>]\<rparr>"

definition question_cleanup :: "nat \<Rightarrow> rstr \<Rightarrow> QuestionWorld \<Rightarrow> QuestionWorld" where
  "question_cleanup c qid w =
     w\<lparr>q_pending := AList.delete qid (q_pending w),
       q_channels := drop_sender (map_of (q_pending w) qid) (q_channels w),
       q_held := remove1 (c, qid) (q_held w)\<rparr>"

text \<open>\<open>max_by_key\<close> takes the last of the greatest.\<close>

fun newest :: "PendingQuestion list \<Rightarrow> PendingQuestion option" where
  "newest [] = None"
| "newest (p # ps) =
     (case newest ps of
        None \<Rightarrow> Some p
      | Some q \<Rightarrow> if pending_registered_at q \<ge> pending_registered_at p then Some q else Some p)"

definition pending_for_chat :: "rstr \<Rightarrow> rstr \<Rightarrow> QuestionWorld \<Rightarrow> QuestionRequest option" where
  "pending_for_chat workspace_id chat_id w =
     map_option pending_request (newest (filter (\<lambda>p. request_workspace_id (pending_request p) = workspace_id
       \<and> request_chat_id (pending_request p) = chat_id) (map snd (q_pending w))))"

definition list_pending :: "QuestionWorld \<Rightarrow> QuestionRequest list" where
  "list_pending w = map pending_request (sort_key pending_registered_at (map snd (q_pending w)))"

section \<open>What an acceptable answer is\<close>

text \<open>The reference: every question is answered once and nothing else is, and each answer either names
  an option of its question and repeats it, or is a text where the question allows one.\<close>

definition item_acceptable :: "QuestionItem \<Rightarrow> QuestionItemAnswer \<Rightarrow> bool" where
  "item_acceptable q a \<longleftrightarrow>
     (case selected_value a of
        Some v \<Rightarrow> v \<in> opt_value ` set (item_options q) \<and> trim (answer_value a) = v
      | None \<Rightarrow> item_allow_free_text q \<and> trim (answer_value a) \<noteq> [])"

definition acceptable :: "QuestionRequest \<Rightarrow> QuestionItemAnswer list \<Rightarrow> bool" where
  "acceptable rq answers \<longleftrightarrow>
     (let ids = map (\<lambda>a. trim (answer_id a)) answers
      in length answers = length (request_questions rq) \<and> distinct ids \<and> [] \<notin> set ids
       \<and> set ids = item_id ` set (request_questions rq)
       \<and> (\<forall>a \<in> set answers. \<exists>q. find (\<lambda>q. item_id q = trim (answer_id a)) (request_questions rq) = Some q
            \<and> item_acceptable q a))"

lemma item_answer_iff: "validate_question_item_answer q a = Inr u \<longleftrightarrow> item_acceptable q a"
  by (auto simp: validate_question_item_answer_def item_acceptable_def Let_def find_None_iff find_Some_iff
      split: option.splits)

lemma item_answer_error: "validate_question_item_answer q a = Inl e \<Longrightarrow> \<not> item_acceptable q a"
  using item_answer_iff [of q a "()"] by simp

lemma validate_answers_iff:
  "validate_answers qs seen as = Inr r \<longleftrightarrow>
     (let ids = map (\<lambda>a. trim (answer_id a)) as
      in distinct ids \<and> [] \<notin> set ids \<and> set ids \<inter> seen = {} \<and> r = seen \<union> set ids
       \<and> (\<forall>a \<in> set as. \<exists>q. find (\<lambda>q. item_id q = trim (answer_id a)) qs = Some q \<and> item_acceptable q a))"
proof (induction as arbitrary: seen)
  case (Cons a as)
  show ?case
    by (auto simp: Let_def Cons.IH item_answer_iff dest: item_answer_error split: option.splits sum.splits)
qed (auto simp: Let_def)

lemma find_id_in: "find (\<lambda>q. item_id q = i) qs = Some q \<Longrightarrow> i \<in> item_id ` set qs"
  by (auto simp: find_Some_iff)

lemma validate_iff: "validate_question_answer rq answers = Inr u \<longleftrightarrow> acceptable rq answers"
proof -
  let ?ids = "(\<lambda>a. trim (answer_id a)) ` set answers" and ?qs = "request_questions rq"
  let ?good = "\<forall>a \<in> set answers. \<exists>q. find (\<lambda>q. item_id q = trim (answer_id a)) ?qs = Some q \<and> item_acceptable q a"
  have sub: "?ids \<subseteq> item_id ` set ?qs" if "?good"
    using that by (auto intro: find_id_in)
  have none: "find (\<lambda>q. item_id q \<notin> r) ?qs = None \<longleftrightarrow> item_id ` set ?qs \<subseteq> r" for r
    by (auto simp: find_None_iff)
  have "validate_question_answer rq answers = Inr u \<longleftrightarrow> length answers = length ?qs
      \<and> (\<exists>r. validate_answers ?qs {} answers = Inr r \<and> find (\<lambda>q. item_id q \<notin> r) ?qs = None)"
    by (auto simp: validate_question_answer_def split: option.splits sum.splits)
  also have "\<dots> \<longleftrightarrow> length answers = length ?qs \<and> distinct (map (\<lambda>a. trim (answer_id a)) answers)
      \<and> [] \<notin> ?ids \<and> ?good \<and> item_id ` set ?qs \<subseteq> ?ids"
    by (auto simp: none validate_answers_iff Let_def)
  finally show ?thesis
    using sub by (auto simp: acceptable_def Let_def)
qed

lemma validate_error: "validate_question_answer rq answers = Inl e \<Longrightarrow> \<not> acceptable rq answers"
  using validate_iff [of rq answers "()"] by simp

section \<open>The registry under every interleaving\<close>

text \<open>The steps of the program: a run registers a question of a new identifier, a client answers, a
  run loses its receiver (it has read the answer or was cancelled), and afterwards its guard cleans up.
  \<open>unique_id\<close> provides the new identifiers.\<close>

definition fresh_question :: "rstr \<Rightarrow> QuestionWorld \<Rightarrow> bool" where
  "fresh_question i w \<longleftrightarrow> i \<notin> fst ` set (q_pending w) \<and> i \<notin> snd ` set (q_held w)"

inductive question_step :: "QuestionWorld \<Rightarrow> QuestionWorld \<Rightarrow> bool" where
  register: "fresh_question (request_id rq) w
    \<Longrightarrow> question_step w (snd (register_question now rq w))"
| answer: "question_step w (snd (answer_question i answers w))"
| receiver: "(c, i) \<in> set (q_held w) \<Longrightarrow> question_step w (drop_receiver c w)"
| cleanup: "(c, i) \<in> set (q_held w) \<Longrightarrow> \<not> chan_receiver (q_channels w ! c)
    \<Longrightarrow> question_step w (question_cleanup c i w)"

inductive question_reachable :: "QuestionWorld \<Rightarrow> bool" where
  start: "question_reachable new_questions"
| step: "question_reachable w \<Longrightarrow> question_step w w' \<Longrightarrow> question_reachable w'"

text \<open>A pending question belongs to an open channel of its request, whose guard is held.\<close>

definition pending_inv :: "QuestionWorld \<Rightarrow> bool" where
  "pending_inv w \<longleftrightarrow>
     (\<forall>i p. map_of (q_pending w) i = Some p \<longrightarrow>
        pending_channel p < length (q_channels w)
        \<and> chan_request (q_channels w ! pending_channel p) = pending_request p
        \<and> request_id (pending_request p) = i
        \<and> chan_state (q_channels w ! pending_channel p) = ChanOpen
        \<and> (pending_channel p, i) \<in> set (q_held w))"

definition channel_inv :: "QuestionWorld \<Rightarrow> bool" where
  "channel_inv w \<longleftrightarrow>
     (\<forall>c < length (q_channels w).
        let ch = q_channels w ! c; i = request_id (chan_request ch)
        in (\<forall>answers. chan_state ch = ChanSent answers \<longrightarrow> acceptable (chan_request ch) answers)
         \<and> (chan_receiver ch \<longrightarrow> (c, i) \<in> set (q_held w) \<and> chan_state ch \<noteq> ChanClosed)
         \<and> (chan_receiver ch \<and> chan_state ch = ChanOpen \<longrightarrow>
              (\<exists>p. map_of (q_pending w) i = Some p \<and> pending_channel p = c)))"

definition held_inv :: "QuestionWorld \<Rightarrow> bool" where
  "held_inv w \<longleftrightarrow> distinct (map snd (q_held w)) \<and>
     (\<forall>c i. (c, i) \<in> set (q_held w) \<longrightarrow> c < length (q_channels w) \<and> request_id (chan_request (q_channels w ! c)) = i)"

definition question_inv :: "QuestionWorld \<Rightarrow> bool" where
  "question_inv w \<longleftrightarrow> pending_inv w \<and> channel_inv w \<and> held_inv w"

lemma pending_invD:
  assumes "pending_inv w" "map_of (q_pending w) i = Some p"
  shows "pending_channel p < length (q_channels w)"
    "chan_request (q_channels w ! pending_channel p) = pending_request p"
    "request_id (pending_request p) = i" "chan_state (q_channels w ! pending_channel p) = ChanOpen"
    "(pending_channel p, i) \<in> set (q_held w)"
  using assms by (auto simp: pending_inv_def)

lemma channel_invD:
  assumes "channel_inv w" "c < length (q_channels w)"
  shows "chan_state (q_channels w ! c) = ChanSent answers \<Longrightarrow> acceptable (chan_request (q_channels w ! c)) answers"
    "chan_receiver (q_channels w ! c) \<Longrightarrow> (c, request_id (chan_request (q_channels w ! c))) \<in> set (q_held w)"
    "chan_receiver (q_channels w ! c) \<Longrightarrow> chan_state (q_channels w ! c) \<noteq> ChanClosed"
    "chan_receiver (q_channels w ! c) \<Longrightarrow> chan_state (q_channels w ! c) = ChanOpen \<Longrightarrow>
       \<exists>p. map_of (q_pending w) (request_id (chan_request (q_channels w ! c))) = Some p \<and> pending_channel p = c"
  using assms by (auto simp: channel_inv_def Let_def)

lemma held_unique:
  assumes "held_inv w" "(c, i) \<in> set (q_held w)" "(c', i) \<in> set (q_held w)"
  shows "c = c'"
  using assms inj_onD [of snd "set (q_held w)" "(c, i)" "(c', i)"] by (simp add: held_inv_def distinct_map)

lemma nth_set_state:
  assumes "c < length chans"
  shows "set_state c st chans ! k = (if k = c then (chans ! c)\<lparr>chan_state := st\<rparr> else chans ! k)"
  using assms by (simp add: set_state_def nth_list_update)

lemma length_set_state [simp]: "length (set_state c st chans) = length chans"
  by (simp add: set_state_def)

lemma register_inv:
  assumes "question_inv w" and fresh: "fresh_question (request_id rq) w"
  shows "question_inv (snd (register_question now rq w))"
proof -
  let ?w' = "snd (register_question now rq w)"
  have pen: "pending_inv w" and ch: "channel_inv w" and held: "held_inv w"
    using assms(1) by (auto simp: question_inv_def)
  have no: "map_of (q_pending w) (request_id rq) = None"
    using fresh by (auto simp: fresh_question_def map_of_eq_None_iff)
  have w': "?w' = w\<lparr>q_pending := AList.update (request_id rq) \<lparr>pending_request = rq,
        pending_channel = length (q_channels w), pending_registered_at = now\<rparr> (q_pending w),
      q_channels := q_channels w @ [\<lparr>chan_request = rq, chan_state = ChanOpen, chan_receiver = True\<rparr>],
      q_held := (length (q_channels w), request_id rq) # q_held w\<rparr>"
    using no by (simp add: register_question_def Let_def)
  have "pending_inv ?w'"
    unfolding w' using pen by (auto simp: pending_inv_def update_conv' nth_append less_Suc_eq)
  moreover have "channel_inv ?w'"
    unfolding w' channel_inv_def Let_def using fresh channel_invD [OF ch]
    by (auto simp: update_conv' nth_append less_Suc_eq fresh_question_def image_iff) force+
  moreover have "held_inv ?w'"
    unfolding w' using held fresh by (auto simp: held_inv_def fresh_question_def nth_append less_Suc_eq)
  ultimately show ?thesis by (simp add: question_inv_def)
qed

lemma answer_cases:
  obtains (unchanged) e where "answer_question i answers w = (Inl e, w)"
      "\<not> (\<exists>p. trim i \<noteq> [] \<and> map_of (q_pending w) (trim i) = Some p \<and> acceptable (pending_request p) answers)"
  | (answered) p where "trim i \<noteq> []" "map_of (q_pending w) (trim i) = Some p"
      "acceptable (pending_request p) answers"
      "fst (answer_question i answers w) = Inr () \<longleftrightarrow> chan_receiver (q_channels w ! pending_channel p)"
      "snd (answer_question i answers w) = w\<lparr>q_pending := AList.delete (trim i) (q_pending w),
         q_channels := set_state (pending_channel p)
           (if chan_receiver (q_channels w ! pending_channel p) then ChanSent answers else ChanClosed)
           (q_channels w)\<rparr>"
proof (cases "trim i \<noteq> [] \<and> (\<exists>p. map_of (q_pending w) (trim i) = Some p
    \<and> validate_question_answer (pending_request p) answers = Inr ())")
  case True
  then obtain p where p: "map_of (q_pending w) (trim i) = Some p"
    "validate_question_answer (pending_request p) answers = Inr ()" by blast
  moreover from p(2) have "acceptable (pending_request p) answers" using validate_iff by blast
  ultimately show thesis
    using True by (intro answered [of p]) (simp_all add: answer_question_def Let_def)
next
  case False
  have "\<exists>e. answer_question i answers w = (Inl e, w)"
  proof (cases "trim i = [] \<or> map_of (q_pending w) (trim i) = None")
    case True
    then show ?thesis by (auto simp: answer_question_def Let_def)
  next
    case nonempty: False
    then obtain p where p: "map_of (q_pending w) (trim i) = Some p" by auto
    with False nonempty obtain e where "validate_question_answer (pending_request p) answers = Inl e"
      by (cases "validate_question_answer (pending_request p) answers") auto
    with p nonempty show ?thesis by (auto simp: answer_question_def Let_def)
  qed
  then obtain e where "answer_question i answers w = (Inl e, w)" by blast
  moreover have "\<not> (\<exists>p. trim i \<noteq> [] \<and> map_of (q_pending w) (trim i) = Some p \<and> acceptable (pending_request p) answers)"
    using False validate_iff by blast
  ultimately show thesis by (rule unchanged)
qed

text \<open>Ending a pending question, answered or not, keeps the invariant.\<close>

lemma end_pending_inv:
  assumes inv: "question_inv w" and p: "map_of (q_pending w) i = Some p" and c: "c = pending_channel p"
    and st: "st = ChanClosed \<and> \<not> chan_receiver (q_channels w ! c)
      \<or> (\<exists>answers. st = ChanSent answers \<and> acceptable (pending_request p) answers)"
  shows "question_inv (w\<lparr>q_pending := AList.delete i (q_pending w), q_channels := set_state c st (q_channels w)\<rparr>)"
proof -
  let ?w' = "w\<lparr>q_pending := AList.delete i (q_pending w), q_channels := set_state c st (q_channels w)\<rparr>"
  have pen: "pending_inv w" and ch: "channel_inv w" and held: "held_inv w"
    using inv by (auto simp: question_inv_def)
  note pD = pending_invD [OF pen p, folded c]
  note nth = nth_set_state [OF pD(1)]
  have "pending_inv ?w'"
    unfolding pending_inv_def using pending_invD [OF pen] pD by (fastforce simp: nth delete_conv' split: if_splits)
  moreover have "channel_inv ?w'"
    unfolding channel_inv_def Let_def
  proof (intro allI impI)
    fix k assume k: "k < length (q_channels ?w')"
    then have k': "k < length (q_channels w)" by simp
    show "(\<forall>answers. chan_state (q_channels ?w' ! k) = ChanSent answers \<longrightarrow> acceptable (chan_request (q_channels ?w' ! k)) answers)
       \<and> (chan_receiver (q_channels ?w' ! k) \<longrightarrow> (k, request_id (chan_request (q_channels ?w' ! k))) \<in> set (q_held ?w')
            \<and> chan_state (q_channels ?w' ! k) \<noteq> ChanClosed)
       \<and> (chan_receiver (q_channels ?w' ! k) \<and> chan_state (q_channels ?w' ! k) = ChanOpen \<longrightarrow>
            (\<exists>p. map_of (q_pending ?w') (request_id (chan_request (q_channels ?w' ! k))) = Some p \<and> pending_channel p = k))"
    proof (cases "k = c")
      case True
      then show ?thesis using st pD channel_invD [OF ch pD(1)] by (auto simp: nth)
    next
      case False
      then have "q_channels ?w' ! k = q_channels w ! k" by (simp add: nth)
      then show ?thesis using channel_invD [OF ch k'] p c False by (auto simp: delete_conv')
    qed
  qed
  moreover have "held_inv ?w'"
    using held unfolding held_inv_def by (auto simp: nth split: prod.splits)
  ultimately show ?thesis by (simp add: question_inv_def)
qed

lemma drop_receiver_inv:
  assumes inv: "question_inv w" and h: "(c, i) \<in> set (q_held w)"
  shows "question_inv (drop_receiver c w)"
proof -
  have pen: "pending_inv w" and ch: "channel_inv w" and held: "held_inv w"
    using inv by (auto simp: question_inv_def)
  have c: "c < length (q_channels w)" using held h by (auto simp: held_inv_def)
  have "pending_inv (drop_receiver c w)"
    using pen c unfolding pending_inv_def drop_receiver_def by (simp add: nth_list_update)
  moreover have "channel_inv (drop_receiver c w)"
    using c channel_invD [OF ch] by (auto simp: channel_inv_def Let_def drop_receiver_def nth_list_update)
  moreover have "held_inv (drop_receiver c w)"
    using held c unfolding held_inv_def drop_receiver_def by (simp add: nth_list_update)
  ultimately show ?thesis by (simp add: question_inv_def)
qed

lemma drop_guard_inv:
  assumes inv: "question_inv w" and h: "(c, i) \<in> set (q_held w)"
    and dead: "\<not> chan_receiver (q_channels w ! c)" and no: "map_of (q_pending w) i = None"
  shows "question_inv (w\<lparr>q_held := remove1 (c, i) (q_held w)\<rparr>)"
proof -
  let ?w' = "w\<lparr>q_held := remove1 (c, i) (q_held w)\<rparr>"
  have pen: "pending_inv w" and ch: "channel_inv w" and held: "held_inv w"
    using inv by (auto simp: question_inv_def)
  have dist: "distinct (q_held w)" using held by (auto simp: held_inv_def distinct_map)
  have "pending_inv ?w'"
    using pen no dist unfolding pending_inv_def by (auto simp: set_remove1_eq)
  moreover have "channel_inv ?w'"
    using channel_invD [OF ch] dead dist by (auto simp: channel_inv_def Let_def set_remove1_eq)
  moreover have "held_inv ?w'"
    using held dist by (auto simp: held_inv_def set_remove1_eq distinct_map intro: inj_on_subset)
  ultimately show ?thesis by (simp add: question_inv_def)
qed

lemma cleanup_inv:
  assumes inv: "question_inv w" and h: "(c, i) \<in> set (q_held w)" and dead: "\<not> chan_receiver (q_channels w ! c)"
  shows "question_inv (question_cleanup c i w)"
proof (cases "map_of (q_pending w) i")
  case None
  then have "question_cleanup c i w = w\<lparr>q_held := remove1 (c, i) (q_held w)\<rparr>"
    by (cases w) (simp add: question_cleanup_def drop_sender_def delete_idem map_of_eq_None_iff [symmetric])
  with drop_guard_inv [OF inv h dead None] show ?thesis by simp
next
  case (Some p)
  have pen: "pending_inv w" and held: "held_inv w" using inv by (auto simp: question_inv_def)
  have c: "c = pending_channel p" using held_unique [OF held h] pending_invD(5) [OF pen Some] by blast
  let ?v = "w\<lparr>q_pending := AList.delete i (q_pending w), q_channels := set_state c ChanClosed (q_channels w)\<rparr>"
  have "question_inv ?v" by (rule end_pending_inv [OF inv Some c]) (use dead in simp)
  moreover have "\<not> chan_receiver (q_channels ?v ! c)"
    using dead pending_invD(1) [OF pen Some] c by (simp add: nth_set_state)
  ultimately have "question_inv (?v\<lparr>q_held := remove1 (c, i) (q_held ?v)\<rparr>)"
    by (intro drop_guard_inv) (use h in \<open>simp_all add: delete_conv'\<close>)
  then show ?thesis using Some c by (simp add: question_cleanup_def drop_sender_def)
qed

lemma answer_inv:
  assumes "question_inv w"
  shows "question_inv (snd (answer_question i answers w))"
proof (cases rule: answer_cases [of i answers w])
  case (unchanged e)
  with assms show ?thesis by simp
next
  case (answered p)
  show ?thesis unfolding answered(5) by (rule end_pending_inv [OF assms answered(2) refl]) (use answered in auto)
qed

lemma reachable_question_inv: "question_reachable w \<Longrightarrow> question_inv w"
proof (induction rule: question_reachable.induct)
  case start
  then show ?case
    by (simp add: question_inv_def pending_inv_def channel_inv_def held_inv_def new_questions_def)
next
  case (step w w')
  from step.hyps(2) show ?case
  proof cases
    case (register rq now)
    then show ?thesis using register_inv [OF step.IH] by simp
  next
    case (answer i answers)
    then show ?thesis using answer_inv [OF step.IH] by simp
  next
    case (receiver c i)
    then show ?thesis using drop_receiver_inv [OF step.IH] by simp
  next
    case (cleanup c i)
    then show ?thesis using cleanup_inv [OF step.IH] by simp
  qed
qed

section \<open>Answers reach their run\<close>

text \<open>The run that waits for a question: its receiver lives and its channel is open.\<close>

definition waiting_for :: "QuestionWorld \<Rightarrow> rstr \<Rightarrow> nat \<Rightarrow> bool" where
  "waiting_for w i c \<longleftrightarrow> c < length (q_channels w) \<and> chan_receiver (q_channels w ! c)
     \<and> chan_state (q_channels w ! c) = ChanOpen \<and> request_id (chan_request (q_channels w ! c)) = i"

lemma waiting_iff_pending:
  assumes "question_inv w"
  shows "waiting_for w i c \<longleftrightarrow> (\<exists>p. map_of (q_pending w) i = Some p \<and> pending_channel p = c
    \<and> chan_receiver (q_channels w ! c))"
proof -
  have pen: "pending_inv w" and ch: "channel_inv w" using assms by (auto simp: question_inv_def)
  show ?thesis
    using channel_invD(4) [OF ch] pending_invD [OF pen] by (auto simp: waiting_for_def)
qed

lemma waiting_request:
  assumes "question_inv w" "map_of (q_pending w) i = Some p"
  shows "chan_request (q_channels w ! pending_channel p) = pending_request p"
  using assms pending_invD(2) by (auto simp: question_inv_def)

lemma answer_accepted_iff:
  assumes inv: "question_inv w"
  shows "fst (answer_question i answers w) = Inr () \<longleftrightarrow> trim i \<noteq> [] \<and>
    (\<exists>c. waiting_for w (trim i) c \<and> acceptable (chan_request (q_channels w ! c)) answers)"
proof (cases rule: answer_cases [of i answers w])
  case (unchanged e)
  then show ?thesis using waiting_iff_pending [OF inv] waiting_request [OF inv] by auto
next
  case (answered p)
  then show ?thesis using waiting_iff_pending [OF inv] waiting_request [OF inv] by auto
qed

lemma answer_delivers:
  assumes inv: "question_inv w" and ok: "fst (answer_question i answers w) = Inr ()" and c: "waiting_for w (trim i) c"
  shows "q_channels (snd (answer_question i answers w)) = set_state c (ChanSent answers) (q_channels w)"
proof (cases rule: answer_cases [of i answers w])
  case (unchanged e)
  with ok show ?thesis by simp
next
  case (answered p)
  then show ?thesis using ok c waiting_iff_pending [OF inv] by auto
qed

lemma answered_acceptable:
  assumes "question_inv w" "c < length (q_channels w)" "await_answer c w = Some (Inr answers)"
  shows "acceptable (chan_request (q_channels w ! c)) answers"
  using assms channel_invD(1) [of w c answers]
  by (simp add: question_inv_def await_answer_def split: ChannelState.splits)

lemma waiter_not_abandoned:
  assumes "question_inv w" "c < length (q_channels w)" "chan_receiver (q_channels w ! c)"
  shows "await_answer c w \<noteq> Some (Inl ())"
  using assms channel_invD(3) [of w c]
  by (simp add: question_inv_def await_answer_def split: ChannelState.splits)

lemma no_guard_no_question:
  assumes "question_inv w" "q_held w = []"
  shows "q_pending w = []"
proof (rule ccontr)
  assume "q_pending w \<noteq> []"
  then obtain i p ps where "q_pending w = (i, p) # ps" by (metis list.exhaust prod.exhaust)
  then have "map_of (q_pending w) i = Some p" by simp
  with assms pending_invD(5) [of w i p] show False by (simp add: question_inv_def)
qed

text \<open>C11: Under every interleaving of runs that ask, clients that answer, cancellations and clean-ups, a
  client's answer is accepted exactly when a run still waits for a question of that identifier and the
  answer is acceptable for it; the answer is then delivered to the channel of that run and nothing else
  changes among the channels. What a run reads is acceptable for its own question, a run that still
  listens is never told that its question was abandoned, and when no run holds a question none is left
  pending.\<close>

theorem question_answers_reach_their_waiter:
  assumes "question_reachable w"
  shows "(fst (answer_question i answers w) = Inr () \<longleftrightarrow> trim i \<noteq> [] \<and>
      (\<exists>c. waiting_for w (trim i) c \<and> acceptable (chan_request (q_channels w ! c)) answers))
    \<and> (fst (answer_question i answers w) = Inr () \<and> waiting_for w (trim i) c \<longrightarrow>
        q_channels (snd (answer_question i answers w)) = set_state c (ChanSent answers) (q_channels w))
    \<and> (c < length (q_channels w) \<and> await_answer c w = Some (Inr answers) \<longrightarrow>
        acceptable (chan_request (q_channels w ! c)) answers)
    \<and> (c < length (q_channels w) \<and> chan_receiver (q_channels w ! c) \<longrightarrow> await_answer c w \<noteq> Some (Inl ()))
    \<and> (q_held w = [] \<longrightarrow> q_pending w = [])"
  using reachable_question_inv [OF assms] answer_accepted_iff answer_delivers answered_acceptable
    waiter_not_abandoned no_guard_no_question by blast

theorem question_answers_reach_their_waiter_witness:
  "let rq = \<lparr>request_id = lit ''q-1'', request_tool_call_id = [], request_workspace_id = [], request_chat_id = [],
         request_questions = [\<lparr>item_id = lit ''a'', item_question = lit ''Go?'', item_options = [], item_allow_free_text = True\<rparr>]\<rparr>;
       w = snd (register_question 0 rq new_questions);
       yes = [\<lparr>answer_id = lit ''a'', answer_value = lit ''yes'', answer_selected = None\<rparr>]
   in fst (answer_question (lit ''q-1'') yes w) = Inr ()
      \<and> (\<exists>c. waiting_for w (lit ''q-1'') c \<and> acceptable rq yes)"
proof -
  define rq :: QuestionRequest where "rq = \<lparr>request_id = lit ''q-1'', request_tool_call_id = [], request_workspace_id = [], request_chat_id = [],
         request_questions = [\<lparr>item_id = lit ''a'', item_question = lit ''Go?'', item_options = [], item_allow_free_text = True\<rparr>]\<rparr>"
  define w where "w = snd (register_question 0 rq new_questions)"
  define yes :: "QuestionItemAnswer list" where
    "yes = [\<lparr>answer_id = lit ''a'', answer_value = lit ''yes'', answer_selected = None\<rparr>]"
  have "question_reachable w"
    unfolding w_def by (rule question_reachable.step [OF question_reachable.start question_step.register])
      (simp add: fresh_question_def new_questions_def)
  note reach = question_answers_reach_their_waiter [OF this, of "lit ''q-1''" yes 0]
  have waits: "waiting_for w (lit ''q-1'') 0" and req: "chan_request (q_channels w ! 0) = rq"
    by (simp_all add: waiting_for_def w_def rq_def register_question_def new_questions_def Let_def)
  have ok: "acceptable rq yes"
    by (simp add: rq_def yes_def acceptable_def item_acceptable_def selected_value_def rust_str is_whitespace_def)
  have "trim (lit ''q-1'') = lit ''q-1''" by (simp add: rust_str is_whitespace_def)
  then have "fst (answer_question (lit ''q-1'') yes w) = Inr ()" using reach waits req ok
    by (metis lit_def list.map_disc_iff list.distinct(1))
  with waits ok show ?thesis by (auto simp: Let_def w_def rq_def yes_def)
qed

text \<open>Two registrations of one identifier: the error names the duplicate, but the first question has
  been replaced already. Its run reads that the question was abandoned, and the question that is left
  pending has no run that waits for it.\<close>

lemma duplicate_registration_abandons_first:
  assumes inv: "question_inv w" and p: "map_of (q_pending w) (request_id rq) = Some p"
  shows "let w' = snd (register_question now rq w)
    in fst (register_question now rq w) = Inl (InternalError (lit ''duplicate pending question id: '' @ request_id rq))
     \<and> await_answer (pending_channel p) w' = Some (Inl ())
     \<and> (\<exists>p'. map_of (q_pending w') (request_id rq) = Some p' \<and> \<not> chan_receiver (q_channels w' ! pending_channel p'))"
proof -
  have "pending_channel p < length (q_channels w)"
    using inv p pending_invD(1) by (auto simp: question_inv_def)
  then show ?thesis
    using p by (simp add: register_question_def Let_def drop_sender_def await_answer_def nth_append
        nth_set_state update_conv')
qed

end
