(* ===== verification/Question_Requests.thy ===== *)
theory Question_Requests
  imports Question_Registry
begin

text \<open>
  The requests that \<open>ask_question\<close> makes and what it reports of the answers
  (\<open>app/runtime/tool_execution.rs\<close>, \<open>question_request_from_input\<close> to
  \<open>question_answer_output\<close>; \<open>unique_id\<close> of \<open>app/main.rs\<close>). A request is built from the
  arguments of the model; it is shown to be answerable and to have the form that the check of the
  answers relies on. The report lists the answers under the questions of the request; it is compared
  with the answers that the check accepts. The clock and the process-wide counter of
  \<open>unique_id\<close> are arguments.
\<close>

section \<open>Building a request\<close>

definition unique_id :: "rstr \<Rightarrow> nat \<Rightarrow> nat \<Rightarrow> rstr" where
  "unique_id prefix timestamp suffix = prefix @ lit ''-'' @ nat_display timestamp @ lit ''-'' @ nat_display suffix"

record AskQuestionItemInput =
  in_question :: rstr
  in_options :: "QuestionOption list option"
  in_allow_free_text :: bool

definition non_empty_trimmed :: "rstr \<Rightarrow> rstr \<Rightarrow> ApiError + rstr" where
  "non_empty_trimmed v field_name =
     (if trim v = [] then Inl (BadRequest (field_name @ lit '' must not be empty'')) else Inr (trim v))"

fun normalize_options_loop :: "rstr set \<Rightarrow> QuestionOption list \<Rightarrow> ApiError + QuestionOption list" where
  "normalize_options_loop seen [] = Inr []"
| "normalize_options_loop seen (x # xs) =
     (case non_empty_trimmed (opt_label x) (lit ''option label'') of
        Inl e \<Rightarrow> Inl e
      | Inr label \<Rightarrow>
     (case non_empty_trimmed (opt_value x) (lit ''option value'') of
        Inl e \<Rightarrow> Inl e
      | Inr v \<Rightarrow>
          if v \<in> seen then Inl (BadRequest (lit ''ask_question option value is duplicated: '' @ v))
          else (case normalize_options_loop (insert v seen) xs of
                  Inl e \<Rightarrow> Inl e
                | Inr ys \<Rightarrow> Inr (\<lparr>opt_label = label, opt_value = v,
                    opt_description = (case opt_description x of None \<Rightarrow> None
                      | Some d \<Rightarrow> if trim d = [] then None else Some (trim d))\<rparr> # ys))))"

definition normalize_question_options :: "QuestionOption list \<Rightarrow> ApiError + QuestionOption list" where
  "normalize_question_options xs = normalize_options_loop {} xs"

definition item_name :: "rstr \<Rightarrow> nat \<Rightarrow> rstr" where
  "item_name rid n = rid @ lit ''-item-'' @ nat_display n"

fun request_items :: "rstr \<Rightarrow> nat \<Rightarrow> AskQuestionItemInput list \<Rightarrow> ApiError + QuestionItem list" where
  "request_items rid n [] = Inr []"
| "request_items rid n (x # xs) =
     (case non_empty_trimmed (in_question x) (lit ''question '' @ nat_display n) of
        Inl e \<Rightarrow> Inl e
      | Inr q \<Rightarrow>
     (case normalize_question_options (case in_options x of None \<Rightarrow> [] | Some opts \<Rightarrow> opts) of
        Inl e \<Rightarrow> Inl e
      | Inr opts \<Rightarrow>
          if \<not> in_allow_free_text x \<and> opts = []
          then Inl (BadRequest (lit ''ask_question item '' @ nat_display n
                 @ lit '' requires options when allowFreeText is false''))
          else (case request_items rid (Suc n) xs of
                  Inl e \<Rightarrow> Inl e
                | Inr items \<Rightarrow> Inr (\<lparr>item_id = item_name rid n, item_question = q, item_options = opts,
                    item_allow_free_text = in_allow_free_text x\<rparr> # items))))"

definition question_request_from_input :: "nat \<Rightarrow> nat \<Rightarrow> rstr \<Rightarrow> rstr \<Rightarrow> rstr
    \<Rightarrow> AskQuestionItemInput list \<Rightarrow> ApiError + QuestionRequest" where
  "question_request_from_input timestamp suffix workspace_id chat_id tool_call_id input =
     (if input = [] then Inl (BadRequest (lit ''ask_question requires at least one question''))
      else (let rid = unique_id (lit ''question'') timestamp suffix
            in case request_items rid 1 input of
                 Inl e \<Rightarrow> Inl e
               | Inr items \<Rightarrow> Inr \<lparr>request_id = rid, request_tool_call_id = tool_call_id,
                   request_workspace_id = workspace_id, request_chat_id = chat_id, request_questions = items\<rparr>))"

section \<open>Reporting the answers\<close>

record AnswerEntry =
  entry_id :: rstr
  entry_question :: rstr
  entry_answer :: rstr
  entry_selected :: "rstr option"

definition answer_entry :: "QuestionItem \<Rightarrow> QuestionItemAnswer \<Rightarrow> AnswerEntry" where
  "answer_entry q a = \<lparr>entry_id = item_id q, entry_question = item_question q,
     entry_answer = answer_value a, entry_selected = answer_selected a\<rparr>"

text \<open>The answers are collected into a map by their identifier as it was sent, later ones over
  earlier ones, and each question takes its own.\<close>

fun take_answers :: "(rstr \<rightharpoonup> QuestionItemAnswer) \<Rightarrow> QuestionItem list \<Rightarrow> AnswerEntry list" where
  "take_answers m [] = []"
| "take_answers m (q # qs) =
     (case m (item_id q) of
        None \<Rightarrow> take_answers (m(item_id q := None)) qs
      | Some a \<Rightarrow> answer_entry q a # take_answers (m(item_id q := None)) qs)"

definition question_answer_output :: "QuestionRequest \<Rightarrow> QuestionItemAnswer list \<Rightarrow> rstr \<times> AnswerEntry list" where
  "question_answer_output rq answers =
     (request_id rq, take_answers (map_of (rev (map (\<lambda>a. (answer_id a, a)) answers))) (request_questions rq))"

section \<open>Requests are well formed\<close>

definition option_wf :: "QuestionOption \<Rightarrow> bool" where
  "option_wf x \<longleftrightarrow> trim (opt_label x) = opt_label x \<and> opt_label x \<noteq> []
     \<and> trim (opt_value x) = opt_value x \<and> opt_value x \<noteq> []"

definition item_wf :: "QuestionItem \<Rightarrow> bool" where
  "item_wf q \<longleftrightarrow> trim (item_id q) = item_id q \<and> item_id q \<noteq> []
     \<and> item_question q \<noteq> [] \<and> list_all option_wf (item_options q)
     \<and> distinct (map opt_value (item_options q)) \<and> (item_allow_free_text q \<or> item_options q \<noteq> [])"

definition request_wf :: "QuestionRequest \<Rightarrow> bool" where
  "request_wf rq \<longleftrightarrow> request_id rq \<noteq> [] \<and> trim (request_id rq) = request_id rq
     \<and> request_questions rq \<noteq> [] \<and> list_all item_wf (request_questions rq)
     \<and> distinct (map item_id (request_questions rq))"

lemma dropWhile_hd_not: "xs = [] \<or> \<not> P (hd xs) \<Longrightarrow> dropWhile P xs = xs"
  by (cases xs) auto

lemma trim_solid:
  assumes "s \<noteq> []" "\<not> is_whitespace (hd s)" "\<not> is_whitespace (last s)"
  shows "trim s = s"
  using assms by (simp add: trim_def trim_start_def trim_end_def dropWhile_hd_not hd_rev)

lemma trim_twice [simp]: "trim (trim s) = trim s"
proof -
  have last: "\<not> is_whitespace (last (trim s))" if "trim s \<noteq> []"
    using that hd_dropWhile [of is_whitespace "rev (dropWhile is_whitespace s)"]
    by (simp add: rust_str last_rev)
  have hd: "\<not> is_whitespace (hd (trim s))" if "trim s \<noteq> []"
  proof -
    obtain u where u: "trim_start s = trim s @ u"
      by (metis trim_def trim_end_def dropWhile_eq_drop append_take_drop_id rev_append rev_rev_ident)
    with that have "hd (trim s) = hd (dropWhile is_whitespace s)" "dropWhile is_whitespace s \<noteq> []"
      by (auto simp: trim_start_def)
    then show ?thesis by (simp add: hd_dropWhile)
  qed
  show ?thesis
  proof (cases "trim s = []")
    case True
    show ?thesis unfolding True by (simp add: rust_str)
  next
    case False
    then show ?thesis using last hd by (intro trim_solid) auto
  qed
qed

lemma last_nat_display: "\<not> is_whitespace (last (nat_display n))"
  using nat_display_digit [of "last (nat_display n)" n] by (auto simp: is_whitespace_def)

lemma trim_display:
  assumes "p \<noteq> []" "\<not> is_whitespace (hd p)"
  shows "trim (p @ nat_display n) = p @ nat_display n"
  using assms last_nat_display [of n] by (intro trim_solid) auto

lemma hd_unique_id: "p \<noteq> [] \<Longrightarrow> hd (unique_id p t k) = hd p \<and> unique_id p t k \<noteq> []"
  by (simp add: unique_id_def)

lemma hd_question: "lit ''question'' \<noteq> [] \<and> \<not> is_whitespace (hd (lit ''question''))"
  by (simp add: lit_def is_whitespace_def)

lemma unique_id_trim: "trim (unique_id (lit ''question'') t k) = unique_id (lit ''question'') t k"
  using trim_display [of "lit ''question'' @ lit ''-'' @ nat_display t @ lit ''-''" k] hd_question
  by (simp add: unique_id_def)

lemma item_name_trim:
  assumes "rid \<noteq> []" "\<not> is_whitespace (hd rid)"
  shows "trim (item_name rid n) = item_name rid n \<and> item_name rid n \<noteq> []"
  using trim_display [of "rid @ lit ''-item-''" n] assms by (simp add: item_name_def)

text \<open>Two draws of the counter give two identifiers.\<close>

lemma after_last_dash: "45 \<notin> set b \<Longrightarrow> takeWhile (\<lambda>x. x \<noteq> 45) (rev (a @ 45 # b)) = rev b"
  using takeWhile_append2 [of "rev b" "\<lambda>x. x \<noteq> 45" "45 # rev a"] by auto

lemma no_dash: "45 \<notin> set (nat_display n)"
  using nat_display_digit [of 45 n] by auto

lemma unique_id_inject: "unique_id p t k = unique_id p t' k' \<Longrightarrow> k = k'"
proof -
  let ?f = "\<lambda>s. takeWhile (\<lambda>x. x \<noteq> 45) (rev s)"
  have f: "?f (unique_id p t k) = rev (nat_display k)" for t k
    using after_last_dash [OF no_dash, of "p @ lit ''-'' @ nat_display t" k] by (simp add: unique_id_def lit_def)
  assume "unique_id p t k = unique_id p t' k'"
  then have "rev (nat_display k) = rev (nat_display k')" using f [of t k] f [of t' k'] by simp
  then show ?thesis using nat_display_inject by simp
qed

lemma item_name_inject: "item_name r m = item_name r n \<Longrightarrow> m = n"
  by (auto simp: item_name_def dest: nat_display_inject)

lemma non_empty_trimmed_Inr: "non_empty_trimmed v f = Inr x \<longleftrightarrow> x = trim v \<and> x \<noteq> []"
  by (auto simp: non_empty_trimmed_def)

lemma normalize_loop_wf:
  "normalize_options_loop seen xs = Inr ys \<Longrightarrow>
     list_all option_wf ys \<and> distinct (map opt_value ys) \<and> (\<forall>y \<in> set ys. opt_value y \<notin> seen)"
proof (induction seen xs arbitrary: ys rule: normalize_options_loop.induct)
  case (2 seen x xs)
  from "2.prems" obtain zs where "normalize_options_loop (insert (trim (opt_value x)) seen) xs = Inr zs"
    "trim (opt_value x) \<notin> seen" "trim (opt_label x) \<noteq> []" "trim (opt_value x) \<noteq> []"
    "\<exists>d. ys = \<lparr>opt_label = trim (opt_label x), opt_value = trim (opt_value x), opt_description = d\<rparr> # zs"
    by (auto simp: non_empty_trimmed_def split: sum.splits if_splits)
  with "2.IH" [OF _ _ _ this(1)] show ?case
    by (auto simp: option_wf_def non_empty_trimmed_def) metis
qed simp

lemma request_items_wf:
  assumes "rid \<noteq> []" "\<not> is_whitespace (hd rid)"
  shows "request_items rid n xs = Inr items \<Longrightarrow> list_all item_wf items
     \<and> map item_id items = map (item_name rid) [n..<n + length xs]"
proof (induction xs arbitrary: n items)
  case (Cons x xs)
  from Cons.prems obtain opts zs where "request_items rid (Suc n) xs = Inr zs"
    "normalize_question_options (case in_options x of None \<Rightarrow> [] | Some opts \<Rightarrow> opts) = Inr opts"
    "in_allow_free_text x \<or> opts \<noteq> []" "trim (in_question x) \<noteq> []"
    "items = \<lparr>item_id = item_name rid n, item_question = trim (in_question x), item_options = opts,
       item_allow_free_text = in_allow_free_text x\<rparr> # zs"
    by (auto simp: non_empty_trimmed_def split: sum.splits if_splits)
  moreover from this have "list_all item_wf zs \<and> map item_id zs = map (item_name rid) [Suc n..<Suc n + length xs]"
    by (intro Cons.IH)
  moreover from calculation(2) have "list_all option_wf opts \<and> distinct (map opt_value opts)"
    using normalize_loop_wf unfolding normalize_question_options_def by blast
  moreover have "[n..<n + length (x # xs)] = n # [Suc n..<Suc n + length xs]"
    by (simp add: upt_conv_Cons del: upt_Suc)
  moreover from calculation have "item_wf (hd items)"
    using item_name_trim [OF assms, of n] by (simp add: item_wf_def)
  ultimately show ?case by (simp del: upt_Suc)
qed simp

lemma request_from_input_wf:
  assumes "question_request_from_input t k ws chat call input = Inr rq"
  shows "request_wf rq"
proof -
  let ?rid = "unique_id (lit ''question'') t k"
  have hd: "?rid \<noteq> []" "\<not> is_whitespace (hd ?rid)"
    using hd_unique_id [of "lit ''question''" t k] hd_question by auto
  from assms obtain items where items: "request_items ?rid 1 input = Inr items" and ne: "input \<noteq> []"
    and rq: "request_id rq = ?rid" "request_questions rq = items"
    by (auto simp: question_request_from_input_def Let_def split: if_splits sum.splits)
  note wf = request_items_wf [OF hd items]
  then have "length items = length input" by (metis length_map length_upt diff_add_inverse)
  moreover have "distinct (map item_id items)"
    using wf by (auto simp: distinct_map inj_on_def dest: item_name_inject)
  ultimately show ?thesis
    using wf hd unique_id_trim [of t k] ne rq by (auto simp: request_wf_def)
qed

section \<open>Requests can be answered\<close>

text \<open>An answer for one question: its first option where it has one, and otherwise a text.\<close>

definition some_answer :: "QuestionItem \<Rightarrow> QuestionItemAnswer" where
  "some_answer q = (case item_options q of
     [] \<Rightarrow> \<lparr>answer_id = item_id q, answer_value = lit ''yes'', answer_selected = None\<rparr>
   | x # _ \<Rightarrow> \<lparr>answer_id = item_id q, answer_value = opt_value x, answer_selected = Some (opt_value x)\<rparr>)"

lemma some_answer_id [simp]: "answer_id (some_answer q) = item_id q"
  by (simp add: some_answer_def split: list.splits)

lemma some_answer_acceptable:
  assumes "item_wf q"
  shows "item_acceptable q (some_answer q)"
proof (cases "item_options q")
  case Nil
  have "trim (lit ''yes'') = lit ''yes''" by (intro trim_solid) (simp_all add: lit_def is_whitespace_def)
  with Nil assms show ?thesis
    by (simp add: item_acceptable_def some_answer_def selected_value_def item_wf_def)
next
  case (Cons x xs)
  with assms show ?thesis
    by (simp add: item_acceptable_def some_answer_def selected_value_def item_wf_def option_wf_def)
qed

lemma find_distinct_id:
  "distinct (map item_id qs) \<Longrightarrow> q \<in> set qs \<Longrightarrow> find (\<lambda>x. item_id x = item_id q) qs = Some q"
  by (induction qs) (auto simp: image_iff)

lemma request_answerable:
  assumes "request_wf rq"
  shows "acceptable rq (map some_answer (request_questions rq))"
proof -
  have tr: "trim (item_id q) = item_id q \<and> item_id q \<noteq> [] \<and> item_acceptable q (some_answer q)"
    if "q \<in> set (request_questions rq)" for q
    using assms that some_answer_acceptable by (auto simp: request_wf_def list_all_iff item_wf_def)
  then have ids: "map (\<lambda>a. trim (answer_id a)) (map some_answer (request_questions rq)) = map item_id (request_questions rq)"
    by simp
  have "[] \<notin> item_id ` set (request_questions rq)" using tr by force
  then show ?thesis
    unfolding acceptable_def ids Let_def using assms tr find_distinct_id [of "request_questions rq"]
    by (auto simp: request_wf_def)
qed

text \<open>Every request that \<open>ask_question\<close> makes of the arguments of the model is well formed (its
  identifier and those of its questions are distinct, trimmed and not empty, the options of a question
  have distinct trimmed values, and a question without free text has an option), so that an answer
  exists that the check accepts; two requests that drew different counter values have different
  identifiers.\<close>

theorem question_requests_answerable:
  assumes "question_request_from_input t k ws chat call input = Inr rq"
  shows "request_wf rq \<and> (\<exists>answers. acceptable rq answers) \<and> length (request_questions rq) = length input
    \<and> (\<forall>t' k' ws' chat' call' input' rq'. question_request_from_input t' k' ws' chat' call' input' = Inr rq'
        \<longrightarrow> k' \<noteq> k \<longrightarrow> request_id rq' \<noteq> request_id rq)"
proof -
  have rid: "request_id r = unique_id (lit ''question'') t' k'"
    if "question_request_from_input t' k' ws' chat' call' input' = Inr r" for t' k' ws' chat' call' input' r
    using that by (auto simp: question_request_from_input_def Let_def split: if_splits sum.splits)
  have "length (request_questions rq) = length input"
  proof -
    let ?rid = "unique_id (lit ''question'') t k"
    from assms have "request_items ?rid 1 input = Inr (request_questions rq)"
      by (auto simp: question_request_from_input_def Let_def split: if_splits sum.splits)
    with request_items_wf [of ?rid 1 input] hd_unique_id [of "lit ''question''" t k] hd_question
    show ?thesis by (metis length_map length_upt diff_add_inverse)
  qed
  with request_from_input_wf [OF assms] request_answerable rid [OF assms] rid unique_id_inject
  show ?thesis by metis
qed

theorem question_requests_answerable_witness:
  "\<exists>rq. question_request_from_input 5 7 [] [] [] [\<lparr>in_question = lit ''Go?'', in_options = None, in_allow_free_text = True\<rparr>]
      = Inr rq \<and> request_wf rq"
proof -
  let ?in = "[\<lparr>in_question = lit ''Go?'', in_options = None, in_allow_free_text = True\<rparr>]"
  have "trim (lit ''Go?'') = lit ''Go?''" by (intro trim_solid) (simp_all add: lit_def is_whitespace_def)
  then obtain rq where "question_request_from_input 5 7 [] [] [] ?in = Inr rq"
    by (simp add: question_request_from_input_def Let_def non_empty_trimmed_def normalize_question_options_def)
  then show ?thesis using question_requests_answerable by blast
qed

section \<open>Accepted answers in the report\<close>

lemma in_take_answers:
  "distinct (map item_id qs) \<Longrightarrow>
     e \<in> set (take_answers m qs) \<longleftrightarrow> (\<exists>q \<in> set qs. \<exists>a. m (item_id q) = Some a \<and> e = answer_entry q a)"
proof (induction qs arbitrary: m)
  case (Cons q qs)
  then have "item_id x \<noteq> item_id q" if "x \<in> set qs" for x using that by (metis distinct.simps(2) image_eqI list.simps(9) set_map)
  with Cons show ?case by (auto split: option.splits)
qed simp

lemma answers_by_id:
  assumes "distinct (map answer_id answers)"
  shows "map_of (rev (map (\<lambda>a. (answer_id a, a)) answers)) i = Some a \<longleftrightarrow> a \<in> set answers \<and> answer_id a = i"
proof -
  have "distinct (map fst (rev (map (\<lambda>a. (answer_id a, a)) answers)))"
    using assms by (simp add: rev_map [symmetric] comp_def)
  then show ?thesis by (auto simp: map_of_eq_Some_iff)
qed

lemma acceptable_ids_distinct:
  assumes "acceptable rq answers"
  shows "distinct (map answer_id answers)"
proof -
  have "distinct (map trim (map answer_id answers))"
    using assms by (simp add: acceptable_def Let_def comp_def)
  then show ?thesis by (rule distinct_map [THEN iffD1, THEN conjunct1])
qed

text \<open>C28: The check compares the trimmed identifiers of the answers with those of the questions, but the
  report looks the answers up by the identifiers as they were sent. An accepted answer is therefore
  reported to the model exactly when its identifier was sent without surrounding white space; any other
  accepted answer is lost, and the tool call still succeeds.\<close>

theorem accepted_answer_reported_iff_unpadded:
  assumes wf: "request_wf rq" and ok: "acceptable rq answers" and a: "a \<in> set answers"
  shows "(\<exists>q \<in> set (request_questions rq). item_id q = trim (answer_id a)
      \<and> answer_entry q a \<in> set (snd (question_answer_output rq answers))) \<longleftrightarrow> trim (answer_id a) = answer_id a"
proof -
  have dist: "distinct (map item_id (request_questions rq))" using wf by (simp add: request_wf_def)
  obtain q where q: "q \<in> set (request_questions rq)" "item_id q = trim (answer_id a)"
    using ok a by (auto simp: acceptable_def Let_def find_Some_iff) force
  have mem: "e \<in> set (snd (question_answer_output rq answers)) \<longleftrightarrow>
      (\<exists>q \<in> set (request_questions rq). \<exists>b \<in> set answers. answer_id b = item_id q \<and> e = answer_entry q b)" for e
    by (auto simp: question_answer_output_def in_take_answers [OF dist] answers_by_id [OF acceptable_ids_distinct [OF ok]])
  show ?thesis
  proof
    assume "trim (answer_id a) = answer_id a"
    with q a mem show "\<exists>q \<in> set (request_questions rq). item_id q = trim (answer_id a)
      \<and> answer_entry q a \<in> set (snd (question_answer_output rq answers))" by metis
  next
    assume "\<exists>q \<in> set (request_questions rq). item_id q = trim (answer_id a)
      \<and> answer_entry q a \<in> set (snd (question_answer_output rq answers))"
    then obtain q p b where "item_id q = trim (answer_id a)" "b \<in> set answers" "answer_id b = item_id p"
      "answer_entry q a = answer_entry p b" using mem by blast
    then have b: "answer_id b = trim (answer_id a)" by (simp add: answer_entry_def)
    then have "trim (answer_id b) = trim (answer_id a)" by simp
    moreover have "distinct (map (\<lambda>a. trim (answer_id a)) answers)" using ok by (simp add: acceptable_def Let_def)
    ultimately have "b = a" using a \<open>b \<in> set answers\<close> by (auto simp: distinct_map dest: inj_onD)
    with b show "trim (answer_id a) = answer_id a" by simp
  qed
qed

theorem accepted_answer_reported_iff_unpadded_witness:
  "let q = \<lparr>item_id = lit ''q1'', item_question = lit ''Go?'', item_options = [], item_allow_free_text = True\<rparr>;
       rq = \<lparr>request_id = lit ''q'', request_tool_call_id = [], request_workspace_id = [], request_chat_id = [],
              request_questions = [q]\<rparr>;
       a = \<lparr>answer_id = lit '' q1'', answer_value = lit ''yes'', answer_selected = None\<rparr>
   in validate_question_answer rq [a] = Inr () \<and> answer_entry q a \<notin> set (snd (question_answer_output rq [a]))"
proof -
  define q where "q = \<lparr>item_id = lit ''q1'', item_question = lit ''Go?'', item_options = [], item_allow_free_text = True\<rparr>"
  define rq where "rq = \<lparr>request_id = lit ''q'', request_tool_call_id = [], request_workspace_id = [],
    request_chat_id = [], request_questions = [q]\<rparr>"
  define a where "a = \<lparr>answer_id = lit '' q1'', answer_value = lit ''yes'', answer_selected = None\<rparr>"
  have tr: "trim (lit ''q1'') = lit ''q1''" "trim (lit '' q1'') = lit ''q1''" "trim (lit ''yes'') = lit ''yes''"
    "trim (lit ''q'') = lit ''q''"
    by (simp_all add: rust_str is_whitespace_def)
  have "request_wf rq" by (simp add: rq_def q_def request_wf_def item_wf_def tr)
  moreover have ok: "acceptable rq [a]"
    by (simp add: rq_def q_def a_def acceptable_def item_acceptable_def selected_value_def tr)
      (simp add: lit_def)
  ultimately have "answer_entry q a \<notin> set (snd (question_answer_output rq [a]))"
    using accepted_answer_reported_iff_unpadded [of rq "[a]" a] by (simp add: rq_def q_def a_def tr)
  with ok validate_iff [of rq "[a]" "()"] show ?thesis by (simp add: Let_def q_def rq_def a_def)
qed

end
