(* ===== verification/File_Paths.thy ===== *)
theory File_Paths
  imports Patch_Files
begin

text \<open>
  The path checks of the file tools (\<open>tools/lib.rs\<close>, \<open>resolve_workspace_file\<close> to
  \<open>normalize_workspace_path_text\<close>, and \<open>tools/file_tools.rs\<close>,
  \<open>resolve_read_file_path\<close> to \<open>resolve_external_path\<close>), on the file system of
  \<open>Patch_Files\<close>. A path text is handed to the system as it is: it starts at the root when it
  begins with a slash and at the directory it is joined to otherwise, and a trailing slash or dot asks
  for a directory. As everywhere, the system is POSIX; the lemmas at the end say where a path that was
  accepted can lie.
\<close>

section \<open>Asking the system\<close>

text \<open>The directory where the resolution of a joined path starts, and whether its last component must
  be a directory.\<close>

definition join_base :: "fpath \<Rightarrow> rstr \<Rightarrow> fpath" where
  "join_base base p = (if is_absolute p then [] else base)"

definition asks_directory :: "rstr \<Rightarrow> bool" where
  "asks_directory p \<longleftrightarrow> last (split_on 47 p) = [] \<or> last (split_on 47 p) = lit ''.''"

definition canonicalize_text :: "fsys \<Rightarrow> fpath \<Rightarrow> rstr \<Rightarrow> io_kind + fpath" where
  "canonicalize_text fs base p =
     (case fs_canonicalize fs (join_base base p @ path_components p) of
        Inl e \<Rightarrow> Inl e
      | Inr q \<Rightarrow> if asks_directory p \<and> fs q \<noteq> Some FDir then Inl NotADirectory else Inr q)"

text \<open>\<open>fs::metadata\<close> and \<open>Path::exists\<close> follow links.\<close>

definition fs_metadata :: "fsys \<Rightarrow> fpath \<Rightarrow> io_kind + fnode" where
  "fs_metadata fs p =
     (case fs_canonicalize fs p of
        Inl e \<Rightarrow> Inl e
      | Inr q \<Rightarrow> (case fs q of None \<Rightarrow> Inl NotFound | Some n \<Rightarrow> Inr n))"

definition path_exists :: "fsys \<Rightarrow> fpath \<Rightarrow> bool" where
  "path_exists fs p \<longleftrightarrow> is_ok (fs_metadata fs p)"

definition path_starts_with :: "fpath \<Rightarrow> fpath \<Rightarrow> bool" where
  "path_starts_with p ws \<longleftrightarrow> take (length ws) p = ws"

section \<open>Paths relative to the workspace\<close>

definition path_escapes :: "rstr \<Rightarrow> ToolRuntimeError" where
  "path_escapes p = InvalidPath (lit ''path escapes the workspace: '' @ p)"

definition normalize_workspace_path_text :: "rstr \<Rightarrow> ToolRuntimeError + rstr" where
  "normalize_workspace_path_text input =
     (let trimmed = trim input
      in if trimmed = [] then Inl (InvalidPath (lit ''path must not be empty''))
         else if is_absolute trimmed
         then Inl (InvalidPath (lit ''path must be relative to the workspace: '' @ trimmed))
         else if DOTDOT \<in> set (path_components trimmed) then Inl (path_escapes trimmed)
         else Inr (replace_char 92 47 trimmed))"

definition resolve_workspace_path :: "fsys \<Rightarrow> fpath \<Rightarrow> rstr \<Rightarrow> ToolRuntimeError + fpath" where
  "resolve_workspace_path fs workspace_path input =
     (case normalize_workspace_path_text input of
        Inl e \<Rightarrow> Inl e
      | Inr trimmed \<Rightarrow>
     (case fs_canonicalize fs workspace_path of
        Inl e \<Rightarrow> Inl (IoError workspace_path e)
      | Inr workspace \<Rightarrow>
     (case canonicalize_text fs workspace trimmed of
        Inl e \<Rightarrow> Inl (IoError (join_base workspace trimmed @ path_components trimmed) e)
      | Inr path \<Rightarrow> if path_starts_with path workspace then Inr path else Inl (path_escapes trimmed))))"

definition resolve_workspace_file :: "fsys \<Rightarrow> fpath \<Rightarrow> rstr \<Rightarrow> ToolRuntimeError + fpath" where
  "resolve_workspace_file fs workspace_path input =
     (case resolve_workspace_path fs workspace_path input of
        Inl e \<Rightarrow> Inl e
      | Inr path \<Rightarrow>
     (case fs_metadata fs path of
        Inl e \<Rightarrow> Inl (IoError path e)
      | Inr n \<Rightarrow> if is_file n then Inr path else Inl (NotFile path)))"

text \<open>\<open>file_name\<close> is missing when the path ends in the parent directory or has no component; the
  parent is the path without its last component.\<close>

definition resolve_workspace_write_path :: "fsys \<Rightarrow> fpath \<Rightarrow> rstr \<Rightarrow> ToolRuntimeError + fpath" where
  "resolve_workspace_write_path fs workspace_path input =
     (case normalize_workspace_path_text input of
        Inl e \<Rightarrow> Inl e
      | Inr trimmed \<Rightarrow>
     (let cs = path_components trimmed
      in if cs = [] \<or> last cs = DOTDOT
         then Inl (InvalidPath (lit ''write_file path must include a file name: '' @ trimmed))
         else
     (let parent = butlast cs; base = (\<lambda>workspace. join_base workspace trimmed)
      in case fs_canonicalize fs workspace_path of
        Inl e \<Rightarrow> Inl (IoError workspace_path e)
      | Inr workspace \<Rightarrow>
     (case fs_canonicalize fs (base workspace @ parent) of
        Inl e \<Rightarrow> Inl (IoError (base workspace @ parent) e)
      | Inr parent_path \<Rightarrow>
          if \<not> path_starts_with parent_path workspace then Inl (path_escapes trimmed)
          else
     (let path = parent_path @ [last cs]
      in if path_exists fs path
         then (case fs_canonicalize fs path of
                 Inl e \<Rightarrow> Inl (IoError path e)
               | Inr canonical_path \<Rightarrow>
                   if path_starts_with canonical_path workspace then Inr canonical_path
                   else Inl (path_escapes trimmed))
         else Inr path)))))"

section \<open>Paths that may be read\<close>

definition resolve_internal_read_path :: "fsys \<Rightarrow> fpath \<Rightarrow> rstr \<Rightarrow> ToolRuntimeError + fpath" where
  "resolve_internal_read_path fs workspace_path input =
     (let trimmed = trim input
      in if trimmed = [] then Inl (InvalidPath (lit ''path must not be empty''))
         else
     (case fs_canonicalize fs workspace_path of
        Inl e \<Rightarrow> Inl (IoError workspace_path e)
      | Inr workspace \<Rightarrow>
     (case (if is_absolute trimmed then Inr trimmed else normalize_workspace_path_text trimmed) of
        Inl e \<Rightarrow> Inl e
      | Inr requested \<Rightarrow>
     (case canonicalize_text fs workspace requested of
        Inl e \<Rightarrow> Inl (IoError (join_base workspace requested @ path_components requested) e)
      | Inr path \<Rightarrow> if path_starts_with path workspace then Inr path else Inl (path_escapes trimmed)))))"

definition resolve_internal_read_file_path :: "fsys \<Rightarrow> fpath \<Rightarrow> rstr \<Rightarrow> ToolRuntimeError + fpath" where
  "resolve_internal_read_file_path fs workspace_path input =
     (case resolve_internal_read_path fs workspace_path input of
        Inl e \<Rightarrow> Inl e
      | Inr path \<Rightarrow>
     (case fs_metadata fs path of
        Inl e \<Rightarrow> Inl (IoError path e)
      | Inr n \<Rightarrow> if is_file n then Inr path else Inl (NotFile path)))"

text \<open>An error shows the path by \<open>render_path\<close>.\<close>

definition render_path :: "fpath \<Rightarrow> rstr" where
  "render_path p = 47 # join [47] p"

definition resolve_external_read_file_path :: "fsys \<Rightarrow> fpath \<Rightarrow> rstr \<Rightarrow> ToolRuntimeError + fpath" where
  "resolve_external_read_file_path fs workspace_path input =
     (let trimmed = trim input
      in if trimmed = [] then Inl (InvalidPath (lit ''path must not be empty''))
         else
     (case canonicalize_text fs workspace_path trimmed of
        Inl e \<Rightarrow> Inl (IoError (join_base workspace_path trimmed @ path_components trimmed) e)
      | Inr path \<Rightarrow>
     (case fs_canonicalize fs workspace_path of
        Inl e \<Rightarrow> Inl (IoError workspace_path e)
      | Inr workspace \<Rightarrow>
          if path_starts_with path workspace
          then Inl (InvalidPath (lit ''path is inside workspace: '' @ render_path path))
          else Inr path)))"

definition resolve_read_file_path :: "fsys \<Rightarrow> fpath \<Rightarrow> rstr \<Rightarrow> ToolRuntimeError + fpath" where
  "resolve_read_file_path fs workspace_path input =
     (case resolve_internal_read_file_path fs workspace_path input of
        Inr path \<Rightarrow> Inr path
      | Inl _ \<Rightarrow> resolve_external_read_file_path fs workspace_path input)"

definition resolve_internal_find_files_directory :: "fsys \<Rightarrow> fpath \<Rightarrow> rstr \<Rightarrow> ToolRuntimeError + fpath" where
  "resolve_internal_find_files_directory fs workspace_path input =
     (case resolve_internal_read_path fs workspace_path input of
        Inl e \<Rightarrow> Inl e
      | Inr path \<Rightarrow>
     (case fs_metadata fs path of
        Inl e \<Rightarrow> Inl (IoError path e)
      | Inr n \<Rightarrow> if n = FDir then Inr path else Inl (NotDirectory path)))"

text \<open>Classification of the target of a tool: \<open>Some\<close> when it lies outside the workspace.\<close>

definition read_file_target_outside_workspace :: "fsys \<Rightarrow> fpath \<Rightarrow> rstr \<Rightarrow> ToolRuntimeError + fpath option" where
  "read_file_target_outside_workspace fs workspace_path input =
     (case resolve_external_read_file_path fs workspace_path input of
        Inr path \<Rightarrow> Inr (Some path)
      | Inl _ \<Rightarrow> map_sum id (\<lambda>_. None) (resolve_internal_read_file_path fs workspace_path input))"

definition find_files_target_outside_workspace :: "fsys \<Rightarrow> fpath \<Rightarrow> rstr \<Rightarrow> ToolRuntimeError + fpath option" where
  "find_files_target_outside_workspace fs workspace_path input =
     (case resolve_external_read_file_path fs workspace_path input of
        Inr path \<Rightarrow>
          (case fs_metadata fs path of
             Inl e \<Rightarrow> Inl (IoError path e)
           | Inr n \<Rightarrow> if n = FDir then Inr (Some path) else Inl (NotDirectory path))
      | Inl _ \<Rightarrow> map_sum id (\<lambda>_. None) (resolve_internal_find_files_directory fs workspace_path input))"

definition search_text_target_outside_workspace :: "fsys \<Rightarrow> fpath \<Rightarrow> rstr \<Rightarrow> ToolRuntimeError + fpath option" where
  "search_text_target_outside_workspace fs workspace_path input =
     (case resolve_external_read_file_path fs workspace_path input of
        Inr path \<Rightarrow> Inr (Some path)
      | Inl _ \<Rightarrow> map_sum id (\<lambda>_. None) (resolve_internal_read_path fs workspace_path input))"

datatype PathListMode = WorkspaceRelative | AbsoluteExternal

definition resolve_find_files_directory :: "fsys \<Rightarrow> fpath \<Rightarrow> rstr \<Rightarrow> bool \<Rightarrow> ToolRuntimeError + fpath \<times> PathListMode" where
  "resolve_find_files_directory fs workspace_path input allow_external_access =
     (case resolve_internal_find_files_directory fs workspace_path input of
        Inr path \<Rightarrow> Inr (path, WorkspaceRelative)
      | Inl e \<Rightarrow>
          if allow_external_access
          then map_sum id (\<lambda>path. (path, AbsoluteExternal)) (resolve_external_read_file_path fs workspace_path input)
          else Inl e)"

definition resolve_search_text_path :: "fsys \<Rightarrow> fpath \<Rightarrow> rstr \<Rightarrow> bool \<Rightarrow> ToolRuntimeError + fpath \<times> PathListMode" where
  "resolve_search_text_path fs workspace_path input allow_external_access =
     (case resolve_internal_read_path fs workspace_path input of
        Inr path \<Rightarrow> Inr (path, WorkspaceRelative)
      | Inl e \<Rightarrow>
          if allow_external_access
          then map_sum id (\<lambda>path. (path, AbsoluteExternal)) (resolve_external_read_file_path fs workspace_path input)
          else Inl e)"

section \<open>Where accepted paths lie\<close>

definition real_place :: "fsys \<Rightarrow> fpath \<Rightarrow> bool" where
  "real_place fs p \<longleftrightarrow> real_parents fs p \<and> (\<exists>n. fs p = Some n \<and> \<not> is_link n)"

lemma canonicalize_real_place: "fs_canonicalize fs p = Inr q \<Longrightarrow> fs_tree fs \<Longrightarrow> real_place fs q"
  using canonicalize_real by (simp add: real_place_def)

lemma canonicalize_text_real: "canonicalize_text fs b p = Inr q \<Longrightarrow> fs_tree fs \<Longrightarrow> real_place fs q"
  by (auto simp: canonicalize_text_def canonicalize_real_place split: sum.splits if_splits)

text \<open>A real place is its own canonical path.\<close>

lemma canonicalize_id:
  assumes "fs_tree fs" "real_place fs p"
  shows "fs_canonicalize fs p = Inr p"
proof (cases "p = []")
  case True
  then show ?thesis by (simp add: fs_canonicalize_def)
next
  case False
  obtain n where "fs p = Some n" "\<not> is_link n" using assms(2) by (auto simp: real_place_def)
  with False assms walk_root [of fs p SYMLINK_MAX True False] show ?thesis
    by (cases n) (simp_all add: real_place_def fs_canonicalize_def is_link_def)
qed

text \<open>Resolution goes straight through a real place.\<close>

lemma walk_through:
  "real_parents fs (cur @ ds) \<Longrightarrow> fs (cur @ ds) = Some n \<Longrightarrow> \<not> is_link n \<Longrightarrow>
     walk fuel fs follow create cur (ds @ cs) = walk fuel fs follow create (cur @ ds) cs"
proof (induction ds arbitrary: cur)
  case (Cons d ds)
  have d: "d \<noteq> DOTDOT" "fs cur = Some FDir"
    using Cons.prems(1) spec [where x = "length cur", of "\<lambda>k. k < length (cur @ d # ds) \<longrightarrow> fs (take k (cur @ d # ds)) = Some FDir"]
    by (auto simp: real_parents_def)
  have "\<exists>m. fs (cur @ [d]) = Some m \<and> \<not> is_link m"
  proof (cases "ds = []")
    case True
    with Cons.prems show ?thesis by simp
  next
    case False
    then have "fs (take (Suc (length cur)) (cur @ d # ds)) = Some FDir"
      using Cons.prems(1) by (simp add: real_parents_def del: take_append)
    then show ?thesis by (simp add: is_link_def)
  qed
  then obtain m where m: "fs (cur @ [d]) = Some m" "\<not> is_link m" by blast
  have "walk fuel fs follow create cur (d # ds @ cs) = walk fuel fs follow create (cur @ [d]) (ds @ cs)"
    using d m by (cases m) (simp_all add: is_link_def)
  with Cons.IH [of "cur @ [d]"] Cons.prems show ?case by simp
qed simp

lemma metadata_id: "fs_tree fs \<Longrightarrow> real_place fs p \<Longrightarrow> fs_metadata fs p = Inr (the (fs p))"
  by (auto simp: fs_metadata_def canonicalize_id real_place_def)

lemma starts_with_below: "path_starts_with p ws \<longleftrightarrow> (\<exists>s. p = ws @ s)"
  by (auto simp: path_starts_with_def) (metis append_take_drop_id)

lemma resolve_path_spec:
  assumes "resolve_workspace_path fs wp input = Inr p" "fs_tree fs"
  shows "\<exists>ws. fs_canonicalize fs wp = Inr ws \<and> path_starts_with p ws \<and> real_place fs p"
  using assms by (auto simp: resolve_workspace_path_def canonicalize_text_real split: sum.splits if_splits)

lemma resolve_file_spec:
  assumes "resolve_workspace_file fs wp input = Inr p" "fs_tree fs"
  shows "\<exists>ws. fs_canonicalize fs wp = Inr ws \<and> path_starts_with p ws \<and> real_place fs p \<and> (\<exists>b. fs p = Some (FFile b))"
proof -
  from assms(1) have r: "resolve_workspace_path fs wp input = Inr p"
    and f: "\<exists>n. fs_metadata fs p = Inr n \<and> is_file n"
    by (auto simp: resolve_workspace_file_def split: sum.splits if_splits)
  from resolve_path_spec [OF r assms(2)] obtain ws where
    "fs_canonicalize fs wp = Inr ws" "path_starts_with p ws" "real_place fs p" by blast
  moreover from this f metadata_id [OF assms(2)] have "\<exists>b. fs p = Some (FFile b)"
    by (auto simp: real_place_def is_file_def split: fnode.splits)
  ultimately show ?thesis by blast
qed

text \<open>The place that a path to be written names: its last component in the canonical directory of the
  others. The path that is accepted is where that place leads when something exists there, and the
  place itself otherwise.\<close>

definition requested_place :: "fsys \<Rightarrow> fpath \<Rightarrow> rstr \<Rightarrow> (fpath \<times> rstr) option" where
  "requested_place fs workspace_path input =
     (case (normalize_workspace_path_text input, fs_canonicalize fs workspace_path) of
        (Inr p, Inr workspace) \<Rightarrow>
          (case fs_canonicalize fs (join_base workspace p @ butlast (path_components p)) of
             Inr parent \<Rightarrow> Some (parent, last (path_components p))
           | Inl _ \<Rightarrow> None)
      | _ \<Rightarrow> None)"

lemma resolve_write_spec:
  assumes "resolve_workspace_write_path fs wp input = Inr p" "fs_tree fs"
  shows "\<exists>ws d c. fs_canonicalize fs wp = Inr ws \<and> requested_place fs wp input = Some (d, c)
    \<and> path_starts_with d ws \<and> real_place fs d \<and> c \<noteq> DOTDOT
    \<and> (if path_exists fs (d @ [c]) then real_place fs p \<and> path_starts_with p ws else p = d @ [c])"
proof -
  obtain trimmed ws parent where norm: "normalize_workspace_path_text input = Inr trimmed" and ws: "fs_canonicalize fs wp = Inr ws"
    and parent: "fs_canonicalize fs (join_base ws trimmed @ butlast (path_components trimmed)) = Inr parent"
    and below: "path_starts_with parent ws" and last: "last (path_components trimmed) \<noteq> DOTDOT"
    and rest: "(if path_exists fs (parent @ [last (path_components trimmed)])
      then (\<exists>q. fs_canonicalize fs (parent @ [last (path_components trimmed)]) = Inr q \<and> path_starts_with q ws \<and> p = q)
      else p = parent @ [last (path_components trimmed)])"
    using assms(1) by (auto simp: resolve_workspace_write_path_def Let_def split: sum.splits if_splits)
  have "requested_place fs wp input = Some (parent, last (path_components trimmed))"
    by (simp add: requested_place_def norm ws parent)
  with ws below last rest canonicalize_real_place [OF parent assms(2)] canonicalize_real_place [OF _ assms(2)]
  show ?thesis by (auto split: if_splits)
qed

lemma resolve_internal_spec:
  assumes "resolve_internal_read_path fs wp input = Inr p" "fs_tree fs"
  shows "\<exists>ws. fs_canonicalize fs wp = Inr ws \<and> path_starts_with p ws \<and> real_place fs p"
  using assms by (auto simp: resolve_internal_read_path_def canonicalize_text_real Let_def split: sum.splits if_splits)

lemma resolve_external_spec:
  assumes "resolve_external_read_file_path fs wp input = Inr p" "fs_tree fs"
  shows "\<exists>ws. fs_canonicalize fs wp = Inr ws \<and> \<not> path_starts_with p ws \<and> real_place fs p"
  using assms by (auto simp: resolve_external_read_file_path_def canonicalize_text_real Let_def split: sum.splits if_splits)

end
