(* ===== verification/File_Lines.thy ===== *)
theory File_Lines
  imports Line_Budget Patch_Files
begin

text \<open>
  Lines of a text file as the file tools count and replace them (\<open>tools/lib.rs\<close>,
  \<open>LineRange\<close> to \<open>ends_with_line_ending\<close>). The spans give positions in characters where
  the code has bytes: they are the same places, since spans begin and end between characters.
  A slice that the code would refuse with a panic is \<open>None\<close>. The lemmas relate the spans to the
  complete lines of \<open>Line_Budget\<close>, which the code counts with.
\<close>

record LineRange =
  range_start :: nat
  range_end :: nat

definition new_line_range :: "nat \<Rightarrow> nat \<Rightarrow> ToolRuntimeError + LineRange" where
  "new_line_range s e =
     (if s = 0 \<or> e = 0 \<or> e < s
      then Inl (InvalidArguments (lit ''line ranges are 1-based inclusive ranges and must satisfy startLine <= endLine''))
      else Inr \<lparr>range_start = s, range_end = e\<rparr>)"

record LineSpan =
  span_start :: nat
  span_end :: nat
  span_ending :: "rstr option"

definition parse_optional_line_range :: "nat option \<Rightarrow> nat option \<Rightarrow> ToolRuntimeError + LineRange option" where
  "parse_optional_line_range s e =
     (case (s, e) of
        (None, None) \<Rightarrow> Inr None
      | (Some a, Some b) \<Rightarrow> map_sum id Some (new_line_range a b)
      | _ \<Rightarrow> Inl (InvalidArguments (lit ''startLine and endLine must both be null for full-file reads or both be integers for line-range reads'')))"

definition outside_file :: "LineRange \<Rightarrow> nat \<Rightarrow> ToolRuntimeError" where
  "outside_file r line_count = InvalidArguments (lit ''line range '' @ nat_display (range_start r) @ lit ''-''
     @ nat_display (range_end r) @ lit '' is outside the file; file has '' @ nat_display line_count @ lit '' lines'')"

definition validate_line_range :: "LineRange \<Rightarrow> nat \<Rightarrow> ToolRuntimeError + unit" where
  "validate_line_range r line_count = (if range_end r > line_count then Inl (outside_file r line_count) else Inr ())"

definition normalize_read_line_range :: "LineRange \<Rightarrow> nat \<Rightarrow> ToolRuntimeError + LineRange" where
  "normalize_read_line_range r line_count =
     (if range_start r > line_count then Inl (outside_file r line_count)
      else Inr (r\<lparr>range_end := min (range_end r) line_count\<rparr>))"

definition count_text_lines :: "rstr \<Rightarrow> nat" where
  "count_text_lines content = complete_line_count content"

text \<open>The scan of \<open>line_spans\<close> over the rest of the text.\<close>

fun spans_loop :: "nat \<Rightarrow> nat \<Rightarrow> rstr \<Rightarrow> LineSpan list" where
  "spans_loop start index [] = (if start < index then [\<lparr>span_start = start, span_end = index, span_ending = None\<rparr>] else [])"
| "spans_loop start index (c # cs) =
     (if c = CR \<and> cs \<noteq> [] \<and> hd cs = NL
      then \<lparr>span_start = start, span_end = index + 2, span_ending = Some [CR, NL]\<rparr>
             # spans_loop (index + 2) (index + 2) (tl cs)
      else if c = CR then \<lparr>span_start = start, span_end = index + 1, span_ending = Some [CR]\<rparr>
             # spans_loop (index + 1) (index + 1) cs
      else if c = NL then \<lparr>span_start = start, span_end = index + 1, span_ending = Some [NL]\<rparr>
             # spans_loop (index + 1) (index + 1) cs
      else spans_loop start (index + 1) cs)"

definition line_spans :: "rstr \<Rightarrow> LineSpan list" where
  "line_spans content = spans_loop 0 0 content"

definition slice :: "nat \<Rightarrow> nat \<Rightarrow> 'a list \<Rightarrow> 'a list option" where
  "slice a b xs = (if a \<le> b \<and> b \<le> length xs then Some (drop a (take b xs)) else None)"

definition nth_span :: "LineSpan list \<Rightarrow> nat \<Rightarrow> LineSpan option" where
  "nth_span spans n = (if 0 < n \<and> n \<le> length spans then Some (spans ! (n - 1)) else None)"

definition read_line_range :: "rstr \<Rightarrow> LineRange \<Rightarrow> rstr option" where
  "read_line_range content r =
     (case (nth_span (line_spans content) (range_start r), nth_span (line_spans content) (range_end r)) of
        (Some a, Some b) \<Rightarrow> slice (span_start a) (span_end b) content
      | _ \<Rightarrow> None)"

definition numbered_content :: "rstr \<Rightarrow> nat \<Rightarrow> rstr" where
  "numbered_content content start_line =
     concat (map (\<lambda>(i, s). nat_display (start_line + i) @ [9] @ drop (span_start s) (take (span_end s) content))
       (enumerate 0 (line_spans content)))"

definition ends_with_line_ending :: "rstr \<Rightarrow> bool" where
  "ends_with_line_ending content \<longleftrightarrow> content \<noteq> [] \<and> (last content = NL \<or> last content = CR)"

text \<open>The outer option is a panic.\<close>

definition replace_line_range :: "rstr \<Rightarrow> LineRange \<Rightarrow> rstr \<Rightarrow> (ToolRuntimeError + rstr) option" where
  "replace_line_range existing_content r replacement =
     (let spans = line_spans existing_content
      in case validate_line_range r (length spans) of
           Inl e \<Rightarrow> Some (Inl e)
         | Inr _ \<Rightarrow>
             (case (nth_span spans (range_start r), nth_span spans (range_end r)) of
                (Some a, Some b) \<Rightarrow>
                  (let replacement' = (case span_ending b of
                         Some line_ending \<Rightarrow> if \<not> ends_with_line_ending replacement then replacement @ line_ending else replacement
                       | None \<Rightarrow> replacement)
                   in map_option (\<lambda>front. Inr (front @ replacement' @ drop (span_end b) existing_content))
                        (slice 0 (span_start a) existing_content))
              | _ \<Rightarrow> None))"

section \<open>Spans are the complete lines\<close>

definition line_ending_of :: "rstr \<Rightarrow> rstr option" where
  "line_ending_of l = (if ends_with l [CR, NL] then Some [CR, NL] else if ends_with l [CR] then Some [CR]
     else if ends_with l [NL] then Some [NL] else None)"

text \<open>The spans of consecutive lines from a position on.\<close>

fun spans_of :: "nat \<Rightarrow> rstr list \<Rightarrow> LineSpan list" where
  "spans_of start [] = []"
| "spans_of start (l # ls) =
     \<lparr>span_start = start, span_end = start + length l, span_ending = line_ending_of l\<rparr> # spans_of (start + length l) ls"

lemma NL_CR [simp]: "NL \<noteq> CR" "CR \<noteq> NL"
  by (simp_all add: NL_def CR_def)

lemma ends_with_iff: "ends_with s p \<longleftrightarrow> (\<exists>a. s = a @ p)"
  by (auto simp: ends_with_def) (metis append_take_drop_id)

lemma ends_with_snoc [simp]: "ends_with (a @ [c]) [d] \<longleftrightarrow> c = d"
  by (simp add: ends_with_iff)

lemma ends_with_crlf: "ends_with (a @ [c]) [CR, NL] \<longleftrightarrow> c = NL \<and> a \<noteq> [] \<and> last a = CR"
  by (cases a rule: rev_cases) (auto simp: ends_with_iff append_eq_Cons_conv Cons_eq_append_conv)

lemma ending_eval:
  assumes "NL \<notin> set acc" "CR \<notin> set acc"
  shows "line_ending_of (acc @ [CR, NL]) = Some [CR, NL]"
    "line_ending_of (acc @ [CR]) = Some [CR]" "line_ending_of (acc @ [NL]) = Some [NL]"
    "c \<noteq> CR \<Longrightarrow> c \<noteq> NL \<Longrightarrow> line_ending_of (acc @ [c]) = None"
proof -
  have "\<not> (acc \<noteq> [] \<and> last acc = CR)" using assms(2) last_in_set by metis
  then show "line_ending_of (acc @ [CR]) = Some [CR]" "line_ending_of (acc @ [NL]) = Some [NL]"
    "c \<noteq> CR \<Longrightarrow> c \<noteq> NL \<Longrightarrow> line_ending_of (acc @ [c]) = None"
    by (auto simp: line_ending_of_def ends_with_crlf)
  show "line_ending_of (acc @ [CR, NL]) = Some [CR, NL]"
    by (auto simp: line_ending_of_def ends_with_iff)
qed

lemma no_ending: "NL \<notin> set acc \<Longrightarrow> CR \<notin> set acc \<Longrightarrow> line_ending_of acc = None"
  by (cases acc rule: rev_cases) (auto simp: ending_eval line_ending_of_def ends_with_def)

lemma spans_loop_eq:
  "NL \<notin> set acc \<Longrightarrow> CR \<notin> set acc \<Longrightarrow>
     spans_loop start (start + length acc) s = spans_of start (scan_lines acc s)"
proof (induction acc s arbitrary: start rule: scan_lines.induct)
  case (1 acc)
  then show ?case by (simp add: no_ending)
next
  case (2 acc c)
  then show ?case by (cases "c = CR \<or> c = NL") (auto simp: ending_eval)
next
  case (3 acc c d r)
  consider "c = CR \<and> d = NL" | "\<not> (c = CR \<and> d = NL)" "c = CR \<or> c = NL" | "c \<noteq> CR" "c \<noteq> NL" by blast
  then show ?case
  proof cases
    case 1
    with 3 show ?thesis using "3.IH"(1) [OF 1, of "start + length acc + 2"]
      by (simp add: ending_eval add.assoc)
  next
    case 2
    with 3 show ?thesis using "3.IH"(2) [OF 2, of "start + length acc + 1"]
      by (auto simp: ending_eval add.assoc)
  next
    case c: 3
    with 3 show ?thesis using "3.IH"(3) [of start] by (simp add: add.assoc)
  qed
qed

lemma line_spans_eq: "line_spans content = spans_of 0 (complete_lines content)"
  using spans_loop_eq [of "[]" 0 content] by (simp add: line_spans_def complete_lines_def)

lemma length_spans_of [simp]: "length (spans_of st ls) = length ls"
  by (induction ls arbitrary: st) auto

lemma nth_spans_of:
  "i < length ls \<Longrightarrow> spans_of st ls ! i =
     \<lparr>span_start = st + length (concat (take i ls)), span_end = st + length (concat (take (Suc i) ls)),
       span_ending = line_ending_of (ls ! i)\<rparr>"
proof (induction ls arbitrary: st i)
  case (Cons l ls)
  then show ?case by (cases i) auto
qed simp

lemma nth_span_eq:
  "0 < n \<Longrightarrow> n \<le> length (complete_lines s) \<Longrightarrow> nth_span (line_spans s) n =
     Some \<lparr>span_start = length (concat (take (n - 1) (complete_lines s))),
       span_end = length (concat (take n (complete_lines s))),
       span_ending = line_ending_of (complete_lines s ! (n - 1))\<rparr>"
  by (simp add: nth_span_def line_spans_eq nth_spans_of)

lemma take_concat_lines: "take (length (concat (take k (complete_lines s)))) s = concat (take k (complete_lines s))"
  by (metis append_eq_conv_conj append_take_drop_id concat_append concat_complete_lines)

lemma drop_concat_lines: "drop (length (concat (take k (complete_lines s)))) s = concat (drop k (complete_lines s))"
  by (metis append_eq_conv_conj append_take_drop_id concat_append concat_complete_lines)

lemma length_concat_take_mono: "i \<le> j \<Longrightarrow> length (concat (take i ls)) \<le> length (concat (take j ls))"
proof -
  assume "i \<le> j"
  then have "take j ls = take i ls @ take (j - i) (drop i ls)"
    by (metis le_add_diff_inverse take_add)
  then show ?thesis by simp
qed

lemma length_concat_take_le: "length (concat (take k (complete_lines s))) \<le> length s"
  by (metis concat_complete_lines length_concat_take_mono nle_le take_all)

lemma slice_lines:
  assumes "i \<le> j"
  shows "slice (length (concat (take i (complete_lines s)))) (length (concat (take j (complete_lines s)))) s
    = Some (concat (drop i (take j (complete_lines s))))"
proof -
  let ?ls = "complete_lines s"
  have "take j ?ls = take i ?ls @ drop i (take j ?ls)"
    by (metis append_take_drop_id assms min.absorb1 take_take)
  then have "concat (take j ?ls) = concat (take i ?ls) @ concat (drop i (take j ?ls))"
    by (metis concat_append)
  then have "take (length (concat (take j ?ls))) s = concat (take i ?ls) @ concat (drop i (take j ?ls))"
    by (rule trans [OF take_concat_lines])
  then have "drop (length (concat (take i ?ls))) (take (length (concat (take j ?ls))) s) = concat (drop i (take j ?ls))"
    by (simp only:) simp
  then show ?thesis
    using length_concat_take_mono [OF assms, of ?ls] length_concat_take_le [of j s]
    unfolding slice_def by simp
qed

text \<open>Reading a range that was checked never leaves the spans: it gives the lines of the range.\<close>

lemma read_line_range_lines:
  assumes "0 < range_start r" "range_start r \<le> range_end r" "range_end r \<le> length (complete_lines s)"
  shows "read_line_range s r = Some (concat (drop (range_start r - 1) (take (range_end r) (complete_lines s))))"
  using assms slice_lines [of "range_start r - 1" "range_end r" s]
  by (simp add: read_line_range_def nth_span_eq)

lemma numbered_content_lines:
  "numbered_content s n = concat (map (\<lambda>(i, l). nat_display (n + i) @ [9] @ l) (enumerate 0 (complete_lines s)))"
proof -
  let ?ls = "complete_lines s"
  have "drop (span_start (line_spans s ! i)) (take (span_end (line_spans s ! i)) s) = ?ls ! i" if "i < length ?ls" for i
    using that slice_lines [of i "Suc i" s]
    by (simp add: line_spans_eq nth_spans_of slice_def length_concat_take_mono take_Suc_conv_app_nth split: if_splits)
  then show ?thesis
    unfolding numbered_content_def
    by (intro arg_cong [of _ _ concat] nth_equalityI) (simp_all add: line_spans_eq nth_enumerate_eq)
qed

text \<open>Replacing a range of lines never panics. It is refused exactly when the range ends after the
  last line; otherwise the lines before and after the range stay as they are, byte for byte, and the
  range becomes the replacement, which gets the ending of the last line that it replaces when it has
  none of its own. Reading a range gives exactly its lines, cut off at the end of the file, with the same
  lines that the file is counted with.\<close>

theorem line_ranges_exact:
  assumes "new_line_range a b = Inr r"
  shows "replace_line_range s r new =
      Some (if length (complete_lines s) < b then Inl (outside_file r (length (complete_lines s)))
            else Inr (concat (take (a - 1) (complete_lines s))
              @ (new @ (if ends_with_line_ending new then []
                        else case line_ending_of (complete_lines s ! (b - 1)) of Some e \<Rightarrow> e | None \<Rightarrow> []))
              @ concat (drop b (complete_lines s))))
    \<and> (case normalize_read_line_range r (length (complete_lines s)) of
         Inl e \<Rightarrow> length (complete_lines s) < a
       | Inr r' \<Rightarrow> read_line_range s r' = Some (concat (drop (a - 1) (take b (complete_lines s)))))"
proof
  have r: "range_start r = a" "range_end r = b" "0 < a" "a \<le> b"
    using assms by (auto simp: new_line_range_def split: if_splits)
  have "slice 0 (length (concat (take (a - 1) (complete_lines s)))) s = Some (concat (take (a - 1) (complete_lines s)))"
    using slice_lines [of 0 "a - 1" s] by simp
  then show "replace_line_range s r new =
      Some (if length (complete_lines s) < b then Inl (outside_file r (length (complete_lines s)))
            else Inr (concat (take (a - 1) (complete_lines s))
              @ (new @ (if ends_with_line_ending new then []
                        else case line_ending_of (complete_lines s ! (b - 1)) of Some e \<Rightarrow> e | None \<Rightarrow> []))
              @ concat (drop b (complete_lines s))))"
    using r by (simp add: replace_line_range_def validate_line_range_def nth_span_eq drop_concat_lines
        line_spans_eq [THEN arg_cong [of _ _ length], simplified] split: option.split)
  show "case normalize_read_line_range r (length (complete_lines s)) of
         Inl e \<Rightarrow> length (complete_lines s) < a
       | Inr r' \<Rightarrow> read_line_range s r' = Some (concat (drop (a - 1) (take b (complete_lines s))))"
    using r read_line_range_lines [of "r\<lparr>range_end := min b (length (complete_lines s))\<rparr>" s]
    by (auto simp: normalize_read_line_range_def min_def)
qed

theorem line_ranges_exact_witness:
  "replace_line_range [97, 13, 10, 98] \<lparr>range_start = 1, range_end = 1\<rparr> [99] = Some (Inr [99, 13, 10, 98])"
  using line_ranges_exact [of 1 1 "\<lparr>range_start = 1, range_end = 1\<rparr>" "[97, 13, 10, 98]" "[99]"]
  by (simp add: new_line_range_def complete_lines_def CR_def NL_def ends_with_line_ending_def line_ending_of_def
      ends_with_def)

end
