(* ===== verification/File_Edit.thy ===== *)
theory File_Edit
  imports File_Paths File_Lines
begin

text \<open>
  The tools \<open>write_file\<close> and \<open>edit_file\<close> (\<open>tools/file_tools.rs\<close>) on the file system of
  \<open>Patch_Files\<close>, with the path checks of \<open>File_Paths\<close> and the line ranges of
  \<open>File_Lines\<close>. Each returns the file system it leaves behind. The diff library that counts changed
  lines is a parameter that may fail; permissions and faults of the device are outside the model. The
  properties bound what the tools change, and show where \<open>write_file\<close> leaves the workspace.
\<close>

section \<open>Searching and replacing\<close>

text \<open>\<open>str::matches\<close>, \<open>replace\<close> and \<open>replacen\<close> with a pattern that is not empty: the first match,
  and the pieces of a text between its matches from the left, which do not overlap.\<close>

fun find_str :: "rstr \<Rightarrow> rstr \<Rightarrow> (rstr \<times> rstr) option" where
  "find_str pat [] = None"
| "find_str pat (c # cs) =
     (if starts_with (c # cs) pat then Some ([], drop (length pat) (c # cs))
      else map_option (\<lambda>(a, b). (c # a, b)) (find_str pat cs))"

lemma find_str_split: "find_str pat s = Some (a, b) \<Longrightarrow> s = a @ pat @ b"
proof (induction s arbitrary: a)
  case (Cons c cs)
  show ?case
  proof (cases "starts_with (c # cs) pat")
    case True
    with Cons.prems show ?thesis by (auto simp: starts_with_def) (metis append_take_drop_id)
  next
    case False
    with Cons show ?thesis by (auto simp: map_option_case split: option.splits)
  qed
qed simp

function pieces :: "rstr \<Rightarrow> rstr \<Rightarrow> rstr list" where
  "pieces pat s =
     (if pat = [] then [s]
      else case find_str pat s of None \<Rightarrow> [s] | Some (a, b) \<Rightarrow> a # pieces pat b)"
  by pat_completeness auto
termination
  by (relation "measure (\<lambda>(_, s). length s)") (auto dest!: find_str_split)

declare pieces.simps [simp del]

definition str_matches_count :: "rstr \<Rightarrow> rstr \<Rightarrow> nat" where
  "str_matches_count s pat = length (pieces pat s) - 1"

definition str_replace :: "rstr \<Rightarrow> rstr \<Rightarrow> rstr \<Rightarrow> rstr" where
  "str_replace s pat new = join new (pieces pat s)"

definition str_replace_first :: "rstr \<Rightarrow> rstr \<Rightarrow> rstr \<Rightarrow> rstr" where
  "str_replace_first s pat new = (case find_str pat s of None \<Rightarrow> s | Some (a, b) \<Rightarrow> a @ new @ b)"

section \<open>The tools\<close>

type_synonym change_stats = "rstr \<Rightarrow> rstr \<Rightarrow> rstr + nat \<times> nat"

definition text_change_stats :: "change_stats \<Rightarrow> rstr \<Rightarrow> rstr \<Rightarrow> ToolRuntimeError + nat \<times> nat" where
  "text_change_stats diff old new =
     map_sum (\<lambda>e. InvalidArguments (lit ''failed to compute file change stats: '' @ e)) id (diff old new)"

definition DEFAULT_WRITE_FILE_TIMEOUT_MS :: nat where "DEFAULT_WRITE_FILE_TIMEOUT_MS = 10000"

record WriteFileInput =
  write_path :: rstr
  write_content :: rstr
  write_start_line :: "nat option"
  write_end_line :: "nat option"
  write_timeout_ms :: "nat option"

record EditFileInput =
  edit_path :: rstr
  edit_old_str :: rstr
  edit_new_str :: rstr
  edit_replace_all :: "bool option"
  edit_timeout_ms :: "nat option"

record WriteFileOutput =
  out_path :: rstr
  out_bytes :: nat
  out_replacements :: nat
  out_lines_added :: nat
  out_lines_removed :: nat
  out_timeout_ms :: nat

datatype file_failure = FileToolError ToolRuntimeError | FilePanic

definition decode_file :: "fpath \<Rightarrow> nat list \<Rightarrow> ToolRuntimeError + rstr \<times> TextEncoding" where
  "decode_file path bytes = map_sum (\<lambda>e. case e of UnsupportedEncoding p \<Rightarrow> UnsupportedEncodingError p) id
     (decode_text_file path bytes)"

definition write_line_range :: "WriteFileInput \<Rightarrow> ToolRuntimeError + LineRange option" where
  "write_line_range request =
     (case (write_start_line request, write_end_line request) of
        (None, None) \<Rightarrow> Inr None
      | (Some s, Some e) \<Rightarrow> map_sum id Some (new_line_range s e)
      | _ \<Rightarrow> Inl (InvalidArguments (lit ''startLine and endLine must both be null for complete writes or both be integers for line-range writes'')))"

text \<open>What is to be written: the new content of the file, its encoding and the counts of lines.\<close>

definition write_plan :: "change_stats \<Rightarrow> fsys \<Rightarrow> fpath \<Rightarrow> LineRange option \<Rightarrow> rstr
    \<Rightarrow> file_failure + rstr \<times> TextEncoding \<times> nat \<times> nat" where
  "write_plan diff fs path line_range new_content =
     (case fs_metadata fs path of
        Inr n \<Rightarrow>
          if \<not> is_file n then Inl (FileToolError (NotFile path))
          else
          (case fs_read fs path of
             Inl e \<Rightarrow> Inl (FileToolError (IoError path e))
           | Inr bytes \<Rightarrow>
          (case decode_file path bytes of
             Inl e \<Rightarrow> Inl (FileToolError e)
           | Inr (existing_content, encoding) \<Rightarrow>
          (case (case line_range of
                   None \<Rightarrow> Some (Inr new_content)
                 | Some r \<Rightarrow> replace_line_range existing_content r new_content) of
             None \<Rightarrow> Inl FilePanic
           | Some (Inl e) \<Rightarrow> Inl (FileToolError e)
           | Some (Inr content) \<Rightarrow>
          (case text_change_stats diff existing_content content of
             Inl e \<Rightarrow> Inl (FileToolError e)
           | Inr counts \<Rightarrow> Inr (content, encoding, counts)))))
      | Inl e \<Rightarrow>
          if e = NotFound then
            (if line_range \<noteq> None
             then Inl (FileToolError (InvalidArguments (lit ''line-range writes require an existing file'')))
             else
             (case text_change_stats diff [] new_content of
                Inl e \<Rightarrow> Inl (FileToolError e)
              | Inr counts \<Rightarrow> Inr (new_content, Utf8, counts)))
          else Inl (FileToolError (IoError path e)))"

definition write_file :: "change_stats \<Rightarrow> fsys \<Rightarrow> fpath \<Rightarrow> WriteFileInput \<Rightarrow> fsys \<times> (file_failure + WriteFileOutput)" where
  "write_file diff fs workspace_path request =
     (case tool_timeout_ms (write_timeout_ms request) DEFAULT_WRITE_FILE_TIMEOUT_MS of
        Inl e \<Rightarrow> (fs, Inl (FileToolError e))
      | Inr timeout_ms \<Rightarrow>
     (case resolve_workspace_write_path fs workspace_path (write_path request) of
        Inl e \<Rightarrow> (fs, Inl (FileToolError e))
      | Inr path \<Rightarrow>
     (case write_line_range request of
        Inl e \<Rightarrow> (fs, Inl (FileToolError e))
      | Inr line_range \<Rightarrow>
     (case write_plan diff fs path line_range (write_content request) of
        Inl e \<Rightarrow> (fs, Inl e)
      | Inr (content, encoding, up, down) \<Rightarrow>
     (let encoded = encode_text_file content encoding
      in case fs_write fs path encoded of
           Inl e \<Rightarrow> (fs, Inl (FileToolError (IoError path e)))
         | Inr fs' \<Rightarrow>
     (case normalize_workspace_path_text (write_path request) of
        Inl e \<Rightarrow> (fs', Inl (FileToolError e))
      | Inr shown \<Rightarrow>
          (fs', Inr \<lparr>out_path = shown, out_bytes = length encoded, out_replacements = 0,
             out_lines_added = up, out_lines_removed = down, out_timeout_ms = timeout_ms\<rparr>)))))))"

definition edit_file :: "change_stats \<Rightarrow> fsys \<Rightarrow> fpath \<Rightarrow> EditFileInput \<Rightarrow> fsys \<times> (file_failure + WriteFileOutput)" where
  "edit_file diff fs workspace_path request =
     (let fail = (\<lambda>e. (fs, Inl (FileToolError e))); old = edit_old_str request; new = edit_new_str request
      in case tool_timeout_ms (edit_timeout_ms request) DEFAULT_WRITE_FILE_TIMEOUT_MS of
        Inl e \<Rightarrow> fail e
      | Inr timeout_ms \<Rightarrow>
          if old = [] then fail (InvalidArguments (lit ''oldStr must not be empty''))
          else
     (let replace_all = (case edit_replace_all request of None \<Rightarrow> False | Some b \<Rightarrow> b)
      in case normalize_workspace_path_text (edit_path request) of
        Inl e \<Rightarrow> fail e
      | Inr normalized_path \<Rightarrow>
     (case resolve_workspace_file fs workspace_path (edit_path request) of
        Inl e \<Rightarrow> fail e
      | Inr path \<Rightarrow>
     (case fs_read fs path of
        Inl e \<Rightarrow> fail (IoError path e)
      | Inr bytes \<Rightarrow>
     (case decode_file path bytes of
        Inl e \<Rightarrow> fail e
      | Inr (existing_content, encoding) \<Rightarrow>
     (let match_count = str_matches_count existing_content old
      in if match_count = 0
         then fail (InvalidArguments (lit ''oldStr was not found in '' @ normalized_path
                @ lit ''; call read_file to get the latest file content before retrying''))
         else if match_count > 1 \<and> \<not> replace_all
         then fail (InvalidArguments (lit ''oldStr matched '' @ nat_display match_count @ lit '' times in ''
                @ normalized_path @ lit ''; set replaceAll to true to replace all matches, or provide a more specific oldStr from the latest read_file output''))
         else
     (let content = (if replace_all then str_replace existing_content old new
                     else str_replace_first existing_content old new)
      in case text_change_stats diff existing_content content of
        Inl e \<Rightarrow> fail e
      | Inr (up, down) \<Rightarrow>
     (let encoded = encode_text_file content encoding
      in case fs_write fs path encoded of
           Inl e \<Rightarrow> fail (IoError path e)
         | Inr fs' \<Rightarrow> (fs', Inr \<lparr>out_path = normalized_path, out_bytes = length encoded,
             out_replacements = match_count, out_lines_added = up, out_lines_removed = down,
             out_timeout_ms = timeout_ms\<rparr>)))))))))"

section \<open>Pieces and matches\<close>

lemma join_Cons: "ps \<noteq> [] \<Longrightarrow> join sep (p # ps) = p @ sep @ join sep ps"
  by (cases ps) auto

lemma pieces_not_Nil [simp]: "pieces pat s \<noteq> []"
  by (subst pieces.simps) (auto split: option.split)

lemma join_pieces: "pat \<noteq> [] \<Longrightarrow> join pat (pieces pat s) = s"
proof (induction pat s rule: pieces.induct)
  case (1 pat s)
  show ?case
  proof (cases "find_str pat s")
    case None
    with 1 show ?thesis by (simp add: pieces.simps [of pat s])
  next
    case (Some ab)
    then obtain a b where ab: "find_str pat s = Some (a, b)" by (cases ab) auto
    with 1 have "join pat (pieces pat b) = b" by auto
    moreover from ab 1(2) have "pieces pat s = a # pieces pat b" by (simp add: pieces.simps [of pat s])
    ultimately have "join pat (pieces pat s) = a @ pat @ b" by (simp add: join_Cons)
    with find_str_split [OF ab] show ?thesis by simp
  qed
qed

text \<open>The first match is the leftmost occurrence.\<close>

lemma find_str_None: "pat \<noteq> [] \<Longrightarrow> find_str pat s = None \<longleftrightarrow> (\<forall>a b. s \<noteq> a @ pat @ b)"
proof
  assume pat: "pat \<noteq> []"
  show "find_str pat s = None \<Longrightarrow> \<forall>a b. s \<noteq> a @ pat @ b"
  proof (induction s)
    case Nil
    with pat show ?case by simp
  next
    case (Cons c cs)
    then have no: "\<not> starts_with (c # cs) pat" and IH: "\<forall>a b. cs \<noteq> a @ pat @ b"
      by (auto split: if_splits)
    show ?case
    proof (intro allI)
      fix a b show "c # cs \<noteq> a @ pat @ b"
        using no IH by (cases a) (auto simp: starts_with_def)
    qed
  qed
next
  assume "\<forall>a b. s \<noteq> a @ pat @ b"
  then show "find_str pat s = None" by (metis find_str_split option.exhaust prod.exhaust)
qed

lemma matches_count_pos: "pat \<noteq> [] \<Longrightarrow> str_matches_count s pat = 0 \<longleftrightarrow> (\<forall>a b. s \<noteq> a @ pat @ b)"
  by (subst find_str_None [symmetric], simp) (simp add: str_matches_count_def pieces.simps [of pat s] split: option.split)

lemma replace_first_pieces:
  assumes "pat \<noteq> []" "str_matches_count s pat = 1"
  shows "str_replace_first s pat new = str_replace s pat new"
proof -
  from assms obtain a b where ab: "find_str pat s = Some (a, b)"
    by (auto simp: str_matches_count_def pieces.simps [of pat s] split: option.splits)
  with assms have "length (pieces pat b) = 1"
    by (simp add: str_matches_count_def pieces.simps [of pat s])
  then obtain p where p: "pieces pat b = [p]" by (auto simp: length_Suc_conv)
  with join_pieces [OF assms(1), of b] have "pieces pat b = [b]" by simp
  with ab assms(1) show ?thesis by (simp add: str_replace_first_def str_replace_def pieces.simps [of pat s])
qed

lemma find_str_leftmost: "pat \<noteq> [] \<Longrightarrow> find_str pat s = Some (a, b) \<Longrightarrow> a \<noteq> x @ pat @ y"
proof (induction s arbitrary: a x)
  case (Cons c cs)
  show ?case
  proof (cases "starts_with (c # cs) pat")
    case True
    with Cons.prems show ?thesis by auto
  next
    case False
    with Cons.prems(2) obtain a' where a: "a = c # a'" "find_str pat cs = Some (a', b)"
      by (auto simp: map_option_case split: option.splits)
    show ?thesis
    proof (cases x)
      case Nil
      have "c # cs = a @ pat @ b" using find_str_split [OF Cons.prems(2)] .
      with False Nil show ?thesis by (auto simp: starts_with_def)
    next
      case (Cons d x')
      with a Cons.IH [OF Cons.prems(1) a(2), of x'] show ?thesis by simp
    qed
  qed
qed simp

lemma pieces_free: "pat \<noteq> [] \<Longrightarrow> p \<in> set (pieces pat s) \<Longrightarrow> p \<noteq> x @ pat @ y"
proof (induction pat s rule: pieces.induct)
  case (1 pat s)
  show ?case
  proof (cases "find_str pat s")
    case None
    with 1 find_str_None [of pat s] show ?thesis by (simp add: pieces.simps [of pat s])
  next
    case (Some ab)
    then obtain a b where ab: "find_str pat s = Some (a, b)" by (cases ab) auto
    then have "set (pieces pat s) = insert a (set (pieces pat b))"
      using "1.prems"(1) by (simp add: pieces.simps [of pat s])
    with "1.prems" have "p = a \<or> p \<in> set (pieces pat b)" by simp
    moreover have "a \<noteq> x @ pat @ y" by (rule find_str_leftmost [OF "1.prems"(1) ab])
    moreover have "p \<in> set (pieces pat b) \<Longrightarrow> p \<noteq> x @ pat @ y"
      by (rule "1.IH" [OF "1.prems"(1) ab refl "1.prems"(1)])
    ultimately show ?thesis by blast
  qed
qed

section \<open>What the tools change\<close>

lemma real_place_file:
  assumes "fs_tree fs" "real_place fs p" "fs p = Some (FFile b)"
  shows "fs_read fs p = Inr b" "fs_write fs p x = Inr (fs(p \<mapsto> FFile x))"
proof -
  have "p \<noteq> []" using assms by (auto simp: fs_tree_def)
  then show "fs_read fs p = Inr b" "fs_write fs p x = Inr (fs(p \<mapsto> FFile x))"
    using assms read_real write_real by (simp_all add: real_place_def is_file_def)
qed

lemma decode_file_Inr: "decode_file p b = Inr te \<longleftrightarrow> decode_text_file p b = Inr te"
  by (cases "decode_text_file p b") (auto simp: decode_file_def)

text \<open>C10: \<open>edit_file\<close> changes nothing when it fails. When it succeeds, it changes exactly one file,
  which lies below the canonical workspace without a link on the way, keeps its encoding, and replaces
  every occurrence of the searched text from the left (which was found once, unless all replacements
  were asked for) by the new text; the pieces in between stay as they are and do not contain it.\<close>

theorem edit_file_exact:
  assumes tree: "fs_tree fs" and run: "edit_file diff fs wp request = (fs', r)"
  shows "(\<forall>f. r = Inl f \<longrightarrow> fs' = fs)
    \<and> (\<forall>result. r = Inr result \<longrightarrow> (\<exists>ws p b t e.
        fs_canonicalize fs wp = Inr ws \<and> path_starts_with p ws \<and> real_place fs p
        \<and> fs p = Some (FFile b) \<and> decode_text_file p b = Inr (t, e)
        \<and> t = join (edit_old_str request) (pieces (edit_old_str request) t)
        \<and> length (pieces (edit_old_str request) t) = Suc (out_replacements result)
        \<and> 0 < out_replacements result \<and> (edit_replace_all request = Some True \<or> out_replacements result = 1)
        \<and> (\<forall>x y. \<forall>q \<in> set (pieces (edit_old_str request) t). q \<noteq> x @ edit_old_str request @ y)
        \<and> fs' = fs(p \<mapsto> FFile (encode_text_file (join (edit_new_str request) (pieces (edit_old_str request) t)) e))))"
proof (intro conjI allI impI)
  fix f assume "r = Inl f"
  with run show "fs' = fs"
    by (auto simp: edit_file_def Let_def split: sum.splits if_splits option.splits)
next
  let ?old = "edit_old_str request" and ?new = "edit_new_str request"
  fix result assume r: "r = Inr result"
  have "\<exists>p b t e. ?old \<noteq> [] \<and> resolve_workspace_file fs wp (edit_path request) = Inr p
      \<and> fs_read fs p = Inr b \<and> decode_file p b = Inr (t, e)
      \<and> str_matches_count t ?old \<noteq> 0 \<and> (str_matches_count t ?old \<le> 1 \<or> edit_replace_all request = Some True)
      \<and> out_replacements result = str_matches_count t ?old
      \<and> fs_write fs p (encode_text_file (if edit_replace_all request = Some True then str_replace t ?old ?new
          else str_replace_first t ?old ?new) e) = Inr fs'"
    using run r
    by (cases "edit_replace_all request = Some True")
      (auto simp: edit_file_def Let_def split: sum.splits if_splits option.splits)
  then obtain p b t e where old: "?old \<noteq> []" and p: "resolve_workspace_file fs wp (edit_path request) = Inr p"
    and rd: "fs_read fs p = Inr b" and dec: "decode_text_file p b = Inr (t, e)"
    and n: "str_matches_count t ?old \<noteq> 0" "str_matches_count t ?old \<le> 1 \<or> edit_replace_all request = Some True"
      "out_replacements result = str_matches_count t ?old"
    and wr: "fs_write fs p (encode_text_file (if edit_replace_all request = Some True then str_replace t ?old ?new
          else str_replace_first t ?old ?new) e) = Inr fs'"
    by (auto simp: decode_file_Inr)
  have content: "(if edit_replace_all request = Some True then str_replace t ?old ?new
          else str_replace_first t ?old ?new) = join ?new (pieces ?old t)"
    using n replace_first_pieces [OF old, of t ?new] by (auto simp: str_replace_def)
  obtain ws b' where ws: "fs_canonicalize fs wp = Inr ws" "path_starts_with p ws" "real_place fs p" "fs p = Some (FFile b')"
    using resolve_file_spec [OF p tree] by blast
  with rd real_place_file [OF tree ws(3,4)] have "b' = b" by simp
  with ws wr real_place_file [OF tree ws(3,4)] dec n join_pieces [OF old, of t] pieces_free [OF old, of _ t]
  show "\<exists>ws p b t e. fs_canonicalize fs wp = Inr ws \<and> path_starts_with p ws \<and> real_place fs p
        \<and> fs p = Some (FFile b) \<and> decode_text_file p b = Inr (t, e) \<and> t = join ?old (pieces ?old t)
        \<and> length (pieces ?old t) = Suc (out_replacements result)
        \<and> 0 < out_replacements result \<and> (edit_replace_all request = Some True \<or> out_replacements result = 1)
        \<and> (\<forall>x y. \<forall>q \<in> set (pieces ?old t). q \<noteq> x @ ?old @ y)
        \<and> fs' = fs(p \<mapsto> FFile (encode_text_file (join ?new (pieces ?old t)) e))"
    by (intro exI [of _ ws] exI [of _ p] exI [of _ b] exI [of _ t] exI [of _ e])
      (auto simp: content str_matches_count_def)
qed

definition sample_edit :: EditFileInput where
  "sample_edit = \<lparr>edit_path = lit ''a'', edit_old_str = lit ''x'', edit_new_str = lit ''yy'',
     edit_replace_all = None, edit_timeout_ms = None\<rparr>"

lemma tool_timeout_default: "tool_timeout_ms None DEFAULT_WRITE_FILE_TIMEOUT_MS = Inr 10000"
  by (simp add: tool_timeout_ms_def DEFAULT_WRITE_FILE_TIMEOUT_MS_def MAX_TOOL_TIMEOUT_MS_def)

lemma sample_canonical: "fs_canonicalize sample_fs [lit ''w''] = Inr [lit ''w'']"
  by (simp add: fs_eval)

theorem edit_file_exact_witness:
  "\<exists>fs' result. edit_file (\<lambda>_ _. Inr (1, 1)) sample_fs [lit ''w''] sample_edit = (fs', Inr result)
     \<and> (\<exists>p. fs' = sample_fs(p \<mapsto> FFile [121, 121, 10]))"
proof -
  have norm: "normalize_workspace_path_text (lit ''a'') = Inr (lit ''a'')"
    by (simp add: normalize_workspace_path_text_def fs_eval replace_char_def)
  have canon: "canonicalize_text sample_fs [lit ''w''] (lit ''a'') = Inr [lit ''w'', lit ''a'']"
    by (simp add: canonicalize_text_def join_base_def asks_directory_def fs_eval)
  have res: "resolve_workspace_file sample_fs [lit ''w''] (lit ''a'') = Inr [lit ''w'', lit ''a'']"
    by (simp add: resolve_workspace_file_def resolve_workspace_path_def norm sample_canonical canon
        path_starts_with_def fs_metadata_def) (simp add: fs_eval)
  have rd: "fs_read sample_fs [lit ''w'', lit ''a''] = Inr [120, 10]"
    by (simp add: fs_read_def fs_eval NL_def)
  have dec: "decode_text_file q [120, 10] = Inr ([120, 10], Utf8)" for q :: fpath
    by (simp add: decode_text_file_def strip_prefix_def starts_with_def from_utf8_def
        decode_with.simps utf8_next_def)
  have pieces: "pieces (lit ''x'') [120, 10] = [[], [10]]"
    by (simp add: pieces.simps lit_def starts_with_def)
  have wr: "fs_write sample_fs [lit ''w'', lit ''a''] x = Inr (sample_fs([lit ''w'', lit ''a''] \<mapsto> FFile x))" for x
    by (simp add: fs_write_def fs_eval)
  have "\<exists>fs' result. edit_file (\<lambda>_ _. Inr (1, 1)) sample_fs [lit ''w''] sample_edit = (fs', Inr result)"
    by (simp add: edit_file_def sample_edit_def tool_timeout_default norm res rd decode_file_def dec
        str_matches_count_def pieces text_change_stats_def wr Let_def)
  then obtain fs' result where run: "edit_file (\<lambda>_ _. Inr (1, 1)) sample_fs [lit ''w''] sample_edit = (fs', Inr result)"
    by blast
  from edit_file_exact [OF sample_fs_tree run] obtain p b t e where old: "sample_fs p = Some (FFile b)"
    "decode_text_file p b = Inr (t, e)"
    "fs' = sample_fs(p \<mapsto> FFile (encode_text_file (join (lit ''yy'') (pieces (lit ''x'') t)) e))"
    by (auto simp: sample_edit_def)
  from old(1) have "b = [120, 10]" by (auto simp: sample_fs_def lit_def NL_def split: if_splits)
  with old(2) dec have te: "t = [120, 10]" "e = Utf8" by simp_all
  have "join (lit ''yy'') [[], [10]] = [121, 121, 10]" by (simp add: lit_def)
  then have "fs' = sample_fs(p \<mapsto> FFile [121, 121, 10])"
    unfolding old(3) te pieces by (simp add: str_bytes_def utf8_char_def)
  with run show ?thesis by blast
qed

section \<open>Where \<open>write_file\<close> writes\<close>

text \<open>A link in the workspace whose target does not exist.\<close>

definition dangling_link :: "fsys \<Rightarrow> fpath \<Rightarrow> bool" where
  "dangling_link fs p \<longleftrightarrow> (\<exists>absolute target. fs p = Some (FLink absolute target)) \<and> \<not> path_exists fs p"

lemma write_file_run:
  assumes "write_file diff fs wp request = (fs', r)"
  shows "(\<exists>f. r = Inl f \<and> fs' = fs) \<or>
    (\<exists>p plan content encoding counts. resolve_workspace_write_path fs wp (write_path request) = Inr p
      \<and> write_plan diff fs p plan (write_content request) = Inr (content, encoding, counts)
      \<and> fs_write fs p (encode_text_file content encoding) = Inr fs' \<and> (\<exists>result. r = Inr result))"
proof -
  have "\<exists>shown. normalize_workspace_path_text (write_path request) = Inr shown"
    if "resolve_workspace_write_path fs wp (write_path request) = Inr p" for p
    using that by (auto simp: resolve_workspace_write_path_def split: sum.splits)
  with assms show ?thesis
    by (fastforce simp: write_file_def Let_def split: sum.splits prod.splits)
qed

lemma write_missing:
  assumes tree: "fs_tree fs" and q: "real_place fs q" "c \<noteq> DOTDOT" and no: "\<not> path_exists fs (q @ [c])"
    and wr: "fs_write fs (q @ [c]) x = Inr fs'"
  shows "fs' = fs(q @ [c] \<mapsto> FFile x) \<and> real_parents fs (q @ [c]) \<or> dangling_link fs (q @ [c])"
proof -
  have dir: "real_dir fs q"
  proof (rule ccontr)
    assume "\<not> real_dir fs q"
    with q obtain n where n: "fs q = Some n" "\<not> is_link n" "n \<noteq> FDir" and real: "real_parents fs q"
      by (auto simp: real_place_def real_dir_def)
    have "walk SYMLINK_MAX fs True True [] (q @ [c]) = walk SYMLINK_MAX fs True True q [c]"
      using walk_through [of fs "[]" q n] n real by simp
    also have "\<dots> = Inl NotADirectory" using n by (cases n) (simp_all add: is_link_def)
    finally have "fs_write fs (q @ [c]) x = Inl NotADirectory" by (simp add: fs_write_def)
    with wr show False by simp
  qed
  have parents: "real_parents fs (q @ [c])" using dir q(2) by (simp add: real_parents_snoc)
  show ?thesis
  proof (cases "fs (q @ [c])")
    case None
    then have "fs_write fs (q @ [c]) x = Inr (fs(q @ [c] \<mapsto> FFile x))"
      using write_real [OF tree parents] by simp
    with wr parents show ?thesis by simp
  next
    case (Some n)
    show ?thesis
    proof (cases "is_link n")
      case True
      with Some no show ?thesis by (auto simp: dangling_link_def is_link_def split: fnode.splits)
    next
      case False
      with Some parents have "path_exists fs (q @ [c])"
        using metadata_id [OF tree, of "q @ [c]"] by (simp add: path_exists_def real_place_def)
      with no show ?thesis by simp
    qed
  qed
qed

lemma write_plan_file:
  assumes "write_plan diff fs p plan new = Inr x" "fs_tree fs" "real_place fs p"
  shows "\<exists>b. fs p = Some (FFile b)"
proof -
  have "fs_metadata fs p = Inr (the (fs p))" using metadata_id [OF assms(2,3)] .
  with assms(1) have "is_file (the (fs p))" by (auto simp: write_plan_def split: if_splits)
  with assms(3) show ?thesis by (auto simp: real_place_def is_file_def split: fnode.splits)
qed

lemma fs_write_one: "fs_write fs p x = Inr fs' \<Longrightarrow> \<exists>q. fs' = fs(q \<mapsto> FFile x)"
  by (auto simp: fs_write_def split: sum.splits if_splits)

text \<open>C27: \<open>write_file\<close> changes nothing when it fails. When it succeeds, its path names a place in a
  directory below the canonical workspace, and exactly one file is changed; that file lies below the
  canonical workspace without a link on the way, unless the place that the path names is itself a link
  to a target that does not exist.\<close>

theorem write_file_confined_unless_dangling:
  assumes tree: "fs_tree fs" and run: "write_file diff fs wp request = (fs', r)"
  shows "(\<forall>f. r = Inl f \<longrightarrow> fs' = fs)
    \<and> (\<forall>result. r = Inr result \<longrightarrow> (\<exists>ws d c p b. fs_canonicalize fs wp = Inr ws
        \<and> requested_place fs wp (write_path request) = Some (d, c) \<and> path_starts_with d ws \<and> real_place fs d
        \<and> fs' = fs(p \<mapsto> FFile b)
        \<and> (dangling_link fs (d @ [c]) \<or> path_starts_with p ws \<and> real_parents fs p)))"
proof (cases r)
  case (Inl f)
  with write_file_run [OF run] show ?thesis by auto
next
  case (Inr result)
  with write_file_run [OF run] obtain p plan content encoding counts where
    p: "resolve_workspace_write_path fs wp (write_path request) = Inr p"
    and plan: "write_plan diff fs p plan (write_content request) = Inr (content, encoding, counts)"
    and wr: "fs_write fs p (encode_text_file content encoding) = Inr fs'" by auto
  obtain ws d c where ws: "fs_canonicalize fs wp = Inr ws" "requested_place fs wp (write_path request) = Some (d, c)"
    and d: "path_starts_with d ws" "real_place fs d" "c \<noteq> DOTDOT"
    and place: "if path_exists fs (d @ [c]) then real_place fs p \<and> path_starts_with p ws else p = d @ [c]"
    using resolve_write_spec [OF p tree] by blast
  have "\<exists>q b. fs' = fs(q \<mapsto> FFile b) \<and> (dangling_link fs (d @ [c]) \<or> path_starts_with q ws \<and> real_parents fs q)"
  proof (cases "path_exists fs (d @ [c])")
    case True
    with place have real: "real_place fs p" "path_starts_with p ws" by simp_all
    with write_plan_file [OF plan tree] real_place_file [OF tree real(1)] wr
    have "fs' = fs(p \<mapsto> FFile (encode_text_file content encoding))" by auto
    with real show ?thesis by (auto simp: real_place_def)
  next
    case False
    with place have q: "p = d @ [c]" by simp
    have "path_starts_with (d @ [c]) ws" using d(1) by (auto simp: starts_with_below)
    with write_missing [OF tree d(2,3) False wr [unfolded q]] fs_write_one [OF wr] show ?thesis by blast
  qed
  with Inr ws d show ?thesis by auto
qed

definition sample_write :: "string \<Rightarrow> WriteFileInput" where
  "sample_write name = \<lparr>write_path = lit name, write_content = lit ''y'', write_start_line = None,
     write_end_line = None, write_timeout_ms = None\<rparr>"

theorem write_file_confined_unless_dangling_witness:
  "\<exists>fs' result. write_file (\<lambda>_ _. Inr (2, 0)) sample_fs [lit ''w''] (sample_write ''b'') = (fs', Inr result)
     \<and> fs' [lit ''etc'', lit ''b''] = None"
proof -
  have norm: "normalize_workspace_path_text (lit ''b'') = Inr (lit ''b'')"
    by (simp add: normalize_workspace_path_text_def fs_eval replace_char_def)
  have no: "fs_canonicalize sample_fs [lit ''w'', lit ''b''] = Inl NotFound"
    by (simp add: fs_eval)
  have cs: "path_components (lit ''b'') = [lit ''b'']" "join_base [lit ''w''] (lit ''b'') = [lit ''w'']"
    by (simp_all add: fs_eval join_base_def)
  have ne: "\<not> path_exists sample_fs [lit ''w'', lit ''b'']" by (simp add: path_exists_def fs_metadata_def no)
  have "lit ''b'' \<noteq> DOTDOT" by (simp add: DOTDOT_def)
  then have res: "resolve_workspace_write_path sample_fs [lit ''w''] (lit ''b'') = Inr [lit ''w'', lit ''b'']"
    by (simp add: resolve_workspace_write_path_def norm sample_canonical path_starts_with_def cs ne Let_def)
  have plan: "write_plan (\<lambda>_ _. Inr (2, 0)) sample_fs [lit ''w'', lit ''b''] None (lit ''y'') = Inr (lit ''y'', Utf8, 2, 0)"
    by (simp add: write_plan_def fs_metadata_def no text_change_stats_def)
  have wr: "fs_write sample_fs [lit ''w'', lit ''b''] x = Inr (sample_fs([lit ''w'', lit ''b''] \<mapsto> FFile x))" for x
    by (simp add: fs_write_def fs_eval)
  have "\<exists>fs' result. write_file (\<lambda>_ _. Inr (2, 0)) sample_fs [lit ''w''] (sample_write ''b'') = (fs', Inr result)"
    by (simp add: write_file_def sample_write_def tool_timeout_default norm res plan wr write_line_range_def Let_def)
  then obtain fs' result where run: "write_file (\<lambda>_ _. Inr (2, 0)) sample_fs [lit ''w''] (sample_write ''b'') = (fs', Inr result)"
    by blast
  have "requested_place sample_fs [lit ''w''] (lit ''b'') = Some ([lit ''w''], lit ''b'')"
    by (simp add: requested_place_def norm sample_canonical cs)
  then obtain p b where p: "fs' = sample_fs(p \<mapsto> FFile b)" "dangling_link sample_fs [lit ''w'', lit ''b''] \<or> path_starts_with p [lit ''w'']"
    using write_file_confined_unless_dangling [OF sample_fs_tree run] sample_canonical by (auto simp: sample_write_def)
  have "\<not> dangling_link sample_fs [lit ''w'', lit ''b'']"
    by (simp add: dangling_link_def sample_fs_def lit_def)
  with p have "p \<noteq> [lit ''etc'', lit ''b'']" by (auto simp: path_starts_with_def lit_def)
  with p(1) have "fs' [lit ''etc'', lit ''b''] = None" by (simp add: sample_fs_def lit_def)
  with run show ?thesis by blast
qed

text \<open>The exception is real. If the workspace contains a link whose target is a missing file in any
  directory, inside or outside the workspace, then writing to the path of the link creates the target:
  the path check asks \<open>Path::exists\<close>, which follows the link and answers no, and the write follows the
  link too.\<close>

theorem write_file_escapes_through_dangling_link:
  assumes good: "good ws fs" and link: "fs (ws @ [n]) = Some (FLink True (t @ [c]))"
    and target: "real_dir fs t" "fs (t @ [c]) = None" "c \<noteq> DOTDOT"
    and name: "normalize_workspace_path_text n = Inr n" "path_components n = [n]" "n \<noteq> DOTDOT" "\<not> is_absolute n"
    and request: "write_path request = n" "write_start_line request = None" "write_end_line request = None"
      "write_timeout_ms request = None"
    and diff: "diff [] (write_content request) = Inr counts"
  shows "\<exists>result. write_file diff fs ws request = (fs(t @ [c] \<mapsto> FFile (str_bytes (write_content request))), Inr result)"
proof -
  have tree: "fs_tree fs" and ws: "real_dir fs ws" using good by (auto simp: good_def)
  have rp: "real_parents fs (ws @ [n])" "real_parents fs (t @ [c])"
    using ws target name(3) by (simp_all add: real_parents_snoc)
  have canon_ws: "fs_canonicalize fs ws = Inr ws"
    by (rule canonicalize_id [OF tree]) (use ws in \<open>simp add: real_place_def real_dir_def is_link_def\<close>)
  have follow: "walk SYMLINK_MAX fs True create [] (ws @ [n]) = walk 39 fs True create [] (t @ [c])" for create
    using walk_root [OF tree rp(1)] link by (simp add: SYMLINK_MAX_def eval_nat_numeral)
  have end_walk: "walk 39 fs True create [] (t @ [c]) = (if create then Inr (t @ [c]) else Inl NotFound)" for create
    using walk_root [OF tree rp(2)] target by simp
  have no: "fs_canonicalize fs (ws @ [n]) = Inl NotFound"
    unfolding fs_canonicalize_def follow end_walk by simp
  have ne: "\<not> path_exists fs (ws @ [n])" by (simp add: path_exists_def fs_metadata_def no)
  have res: "resolve_workspace_write_path fs ws n = Inr (ws @ [n])"
    using name ne canon_ws
    by (simp add: resolve_workspace_write_path_def path_starts_with_def join_base_def Let_def)
  have plan: "write_plan diff fs (ws @ [n]) None (write_content request) = Inr (write_content request, Utf8, counts)"
    using diff by (simp add: write_plan_def fs_metadata_def no text_change_stats_def)
  have wr: "fs_write fs (ws @ [n]) x = Inr (fs(t @ [c] \<mapsto> FFile x))" for x
    using target by (simp add: fs_write_def follow end_walk)
  obtain up down where counts: "counts = (up, down)" by fastforce
  show ?thesis
    using request name(1) by (simp add: write_file_def tool_timeout_default res write_line_range_def plan counts wr Let_def)
qed

text \<open>A workspace \<open>/w\<close> with a link \<open>d\<close> to the missing file \<open>/etc/p\<close>.\<close>

definition link_fs :: fsys where
  "link_fs = sample_fs([lit ''w'', lit ''d''] \<mapsto> FLink True [lit ''etc'', lit ''p''])"

theorem write_file_escapes_through_dangling_link_witness:
  "\<exists>fs' result. write_file (\<lambda>_ _. Inr (2, 0)) link_fs [lit ''w''] (sample_write ''d'') = (fs', Inr result)
     \<and> fs' [lit ''etc'', lit ''p''] = Some (FFile [121])"
proof -
  have tree: "fs_tree link_fs"
    unfolding fs_tree_def link_fs_def sample_fs_def
    by (auto simp: Cons_eq_append_conv append_eq_Cons_conv split: if_splits)
  have dirs: "real_dir link_fs [lit ''w'']" "real_dir link_fs [lit ''etc'']"
    by (auto simp: real_dir_def real_parents_def DOTDOT_def less_Suc_eq) (simp_all add: link_fs_def sample_fs_def lit_def)
  have norm: "normalize_workspace_path_text (lit ''d'') = Inr (lit ''d'')" "path_components (lit ''d'') = [lit ''d'']"
    "\<not> is_absolute (lit ''d'')"
    by (simp_all add: normalize_workspace_path_text_def fs_eval replace_char_def)
  have "\<exists>result. write_file (\<lambda>_ _. Inr (2, 0)) link_fs [lit ''w''] (sample_write ''d'') =
      (link_fs([lit ''etc''] @ [lit ''p''] \<mapsto> FFile (str_bytes (write_content (sample_write ''d'')))), Inr result)"
    by (rule write_file_escapes_through_dangling_link [where n = "lit ''d''"])
      (use tree dirs norm in \<open>simp_all add: good_def sample_write_def DOTDOT_def\<close>, simp_all add: link_fs_def sample_fs_def lit_def)
  then show ?thesis by (auto simp: sample_write_def) (simp add: lit_def str_bytes_def utf8_char_def)
qed

text \<open>Occurrences that overlap count as one match, so that \<open>edit_file\<close> takes a text that occurs twice
  for one that occurs once.\<close>

lemma overlapping_occurrences_count_once:
  "str_matches_count [97, 97, 97] [97, 97] = 1" "[97, 97, 97] = [] @ [97, 97] @ [97]" "[97, 97, 97] = [97] @ [97, 97] @ []"
  by (simp_all add: str_matches_count_def pieces.simps starts_with_def)

end
