(* ===== verification/External_Access.thy ===== *)
theory External_Access
  imports File_Paths Question_Requests
begin

text \<open>
  Reading outside the workspace (\<open>app/runtime/tool_execution.rs\<close>,
  \<open>classify_external_readonly_target\<close> to \<open>external_readonly_access_decision_from_answer\<close>): when a
  tool call may read a file outside of its workspace, and the question to the user that decides it
  otherwise. The paths are those of \<open>File_Paths\<close>, the question and its answer those of
  \<open>Question_Registry\<close>. The state is the set of chats that were allowed to read everything; it is read
  before and after the wait for the lock of the chat's questions, so that both values are arguments. What
  becomes of the question (answered, dropped, cancelled) is an input as well, and so are the folders of
  the skills that the settings give. Other processes that change the file system between the check and
  the read are outside the model.
\<close>

section \<open>Targets outside the workspace\<close>

definition READ_FILE_TOOL :: rstr where "READ_FILE_TOOL = lit ''read_file''"
definition FIND_FILES_TOOL :: rstr where "FIND_FILES_TOOL = lit ''find_files''"
definition SEARCH_TEXT_TOOL :: rstr where "SEARCH_TEXT_TOOL = lit ''search_text''"

datatype ExternalReadonlyTargetKind = TargetFile | TargetDirectory | TargetPath

datatype ExternalReadonlyAccessDecision = AllowOnce | AllowAll | Deny

definition is_external_readonly_access_tool :: "rstr \<Rightarrow> bool" where
  "is_external_readonly_access_tool tool_name \<longleftrightarrow>
     tool_name = READ_FILE_TOOL \<or> tool_name = FIND_FILES_TOOL \<or> tool_name = SEARCH_TEXT_TOOL"

definition classify_external_readonly_target :: "fsys \<Rightarrow> rstr \<Rightarrow> fpath \<Rightarrow> rstr
    \<Rightarrow> ToolRuntimeError + (fpath \<times> ExternalReadonlyTargetKind) option" where
  "classify_external_readonly_target fs tool_name tool_workspace_path path =
     (if tool_name = READ_FILE_TOOL
      then map_sum id (map_option (\<lambda>t. (t, TargetFile))) (read_file_target_outside_workspace fs tool_workspace_path path)
      else if tool_name = FIND_FILES_TOOL
      then map_sum id (map_option (\<lambda>t. (t, TargetDirectory))) (find_files_target_outside_workspace fs tool_workspace_path path)
      else if tool_name = SEARCH_TEXT_TOOL
      then map_sum id (map_option (\<lambda>t. (t, TargetPath))) (search_text_target_outside_workspace fs tool_workspace_path path)
      else Inr None)"

definition path_is_within_shared_workspace :: "fsys \<Rightarrow> fpath \<Rightarrow> fpath \<Rightarrow> bool" where
  "path_is_within_shared_workspace fs target_path shared_workspace_path =
     (case fs_canonicalize fs shared_workspace_path of
        Inl _ \<Rightarrow> False | Inr shared_root \<Rightarrow> path_starts_with target_path shared_root)"

definition path_is_within_skill_read_roots :: "fpath \<Rightarrow> fpath list \<Rightarrow> bool" where
  "path_is_within_skill_read_roots target_path roots \<longleftrightarrow> list_ex (path_starts_with target_path) roots"

section \<open>The question\<close>

definition external_readonly_target_label :: "ExternalReadonlyTargetKind \<Rightarrow> rstr" where
  "external_readonly_target_label kind = (case kind of
     TargetFile \<Rightarrow> [25991, 20214] | TargetDirectory \<Rightarrow> [30446, 24405] | TargetPath \<Rightarrow> [36335, 24452])"

definition external_readonly_request :: "rstr \<Rightarrow> rstr \<Rightarrow> rstr \<Rightarrow> rstr \<Rightarrow> rstr
    \<Rightarrow> ExternalReadonlyTargetKind \<Rightarrow> fpath \<Rightarrow> QuestionRequest" where
  "external_readonly_request rid workspace_id chat_id tool_call_id tool_name target_kind target_path =
     \<lparr>request_id = rid, request_tool_call_id = tool_call_id, request_workspace_id = workspace_id,
      request_chat_id = chat_id,
      request_questions = [\<lparr>item_id = rid @ lit ''-item-1'',
        item_question = tool_name @ [32, 24819, 35201, 35775, 38382, 32, 119, 111, 114, 107, 115, 112, 97, 99, 101, 32, 22806, 30340]
          @ external_readonly_target_label target_kind @ lit '':'' @ [NL] @ render_path target_path,
        item_options = [
          \<lparr>opt_label = [20801, 35768], opt_value = lit ''allow'',
           opt_description = Some ([20165, 20801, 35768, 26412, 27425, 32] @ tool_name @ [32, 35775, 38382, 12290])\<rparr>,
          \<lparr>opt_label = [20840, 37096, 20801, 35768], opt_value = lit ''allow_all'',
           opt_description = Some [20801, 35768, 24403, 21069, 32842, 22825, 20250, 35805, 20869, 25152, 26377, 32, 119, 111, 114, 107, 115, 112, 97, 99, 101, 32, 22806, 30340, 32, 114, 101, 97, 100, 95, 102, 105, 108, 101, 32, 47, 32, 102, 105, 110, 100, 95, 102, 105, 108, 101, 115, 32, 47, 32, 115, 101, 97, 114, 99, 104, 95, 116, 101, 120, 116, 32, 21482, 35835, 35775, 38382, 12290]\<rparr>,
          \<lparr>opt_label = [25298, 32477], opt_value = lit ''deny'',
           opt_description = Some ([38459, 27490, 26412, 27425, 32] @ tool_name @ [32, 35775, 38382, 12290])\<rparr>],
        item_allow_free_text = False\<rparr>]\<rparr>"

definition external_readonly_access_decision_from_answer :: "rstr \<Rightarrow> QuestionItemAnswer list
    \<Rightarrow> rstr + ExternalReadonlyAccessDecision" where
  "external_readonly_access_decision_from_answer tool_name answers =
     (let selected = (case answers of [] \<Rightarrow> [] | a # _ \<Rightarrow> (case answer_selected a of None \<Rightarrow> [] | Some s \<Rightarrow> s))
      in if selected = lit ''allow'' then Inr AllowOnce
         else if selected = lit ''allow_all'' then Inr AllowAll
         else if selected = lit ''deny'' then Inr Deny
         else Inl (tool_name @ lit '' external access question returned unknown option: '' @ selected))"

text \<open>What becomes of the question: the registry refuses it, the stream of the chat is closed, the run
  is cancelled first, the question is dropped, or it is answered.\<close>

datatype AskOutcome =
  RegisterRefused rstr | StreamClosed | RunCancelled | QuestionDropped | AnsweredBy "QuestionItemAnswer list"

definition ask_external_readonly_access :: "rstr \<Rightarrow> rstr \<Rightarrow> AskOutcome \<Rightarrow> rstr + ExternalReadonlyAccessDecision" where
  "ask_external_readonly_access rid tool_name answered =
     (case answered of
        RegisterRefused e \<Rightarrow> Inl e
      | StreamClosed \<Rightarrow> Inl (lit ''failed to show '' @ tool_name @ lit '' external access question '' @ quote_id rid
          @ lit '' because the chat stream is closed'')
      | QuestionDropped \<Rightarrow> Inl (tool_name @ lit '' external access question '' @ quote_id rid
          @ lit '' was cancelled before the user answered'')
      | RunCancelled \<Rightarrow> Inl (tool_name @ lit '' external access question '' @ quote_id rid
          @ lit '' was cancelled because the chat run was cancelled'')
      | AnsweredBy answers \<Rightarrow> external_readonly_access_decision_from_answer tool_name answers)"

section \<open>The decision\<close>

record AccessContext =
  shared_workspace_path :: fpath
  tool_workspace_path :: fpath
  skill_read_root_dirs :: "fpath list"
  configured_skill_roots :: "fpath list"
  attachment_read_allowlist :: "fpath list"

record AccessCall =
  call_tool :: rstr
  call_path :: "rstr option"
  call_continuation :: "rstr option"

datatype AccessError = ToolPathError ToolRuntimeError | AccessMessage rstr

text \<open>The checks before the lock of the chat: either they settle the call or a target is left to ask
  for.\<close>

definition access_checks :: "fsys \<Rightarrow> AccessContext \<Rightarrow> AccessCall \<Rightarrow> bool
    \<Rightarrow> (AccessError + bool) + (fpath \<times> ExternalReadonlyTargetKind)" where
  "access_checks fs ctx call granted =
     (if \<not> is_external_readonly_access_tool (call_tool call) then Inl (Inr False)
      else if call_tool call = SEARCH_TEXT_TOOL
        \<and> (case call_continuation call of None \<Rightarrow> False | Some token \<Rightarrow> trim token \<noteq> []) then Inl (Inr False)
      else case call_path call of
        None \<Rightarrow> Inl (Inl (AccessMessage (call_tool call @ lit '' requires string path'')))
      | Some path \<Rightarrow>
     (case classify_external_readonly_target fs (call_tool call) (tool_workspace_path ctx) path of
        Inl e \<Rightarrow> Inl (Inl (ToolPathError e))
      | Inr None \<Rightarrow> Inl (Inr False)
      | Inr (Some (target_path, target_kind)) \<Rightarrow>
          if path_is_within_shared_workspace fs target_path (shared_workspace_path ctx)
            \<or> path_is_within_skill_read_roots target_path (skill_read_root_dirs ctx)
            \<or> path_is_within_skill_read_roots target_path (configured_skill_roots ctx)
            \<or> call_tool call = READ_FILE_TOOL \<and> target_path \<in> set (attachment_read_allowlist ctx)
            \<or> granted
          then Inl (Inr True)
          else Inr (target_path, target_kind)))"

text \<open>The whole: \<open>before\<close> and \<open>locked\<close> are the chats with a grant at the two reads, and the
  second result is the grant that is added.\<close>

definition ensure_read_file_external_access :: "fsys \<Rightarrow> AccessContext \<Rightarrow> rstr \<Rightarrow> rstr \<Rightarrow> AccessCall
    \<Rightarrow> rstr set \<Rightarrow> rstr set \<Rightarrow> AskOutcome \<Rightarrow> (AccessError + bool) \<times> rstr option" where
  "ensure_read_file_external_access fs ctx chat_id rid call before locked answered =
     (case access_checks fs ctx call (chat_id \<in> before) of
        Inl r \<Rightarrow> (r, None)
      | Inr (target_path, target_kind) \<Rightarrow>
          if chat_id \<in> locked then (Inr True, None)
          else
     (case ask_external_readonly_access rid (call_tool call) answered of
        Inl e \<Rightarrow> (Inl (AccessMessage e), None)
      | Inr AllowOnce \<Rightarrow> (Inr True, None)
      | Inr AllowAll \<Rightarrow> (Inr True, Some chat_id)
      | Inr Deny \<Rightarrow> (Inl (AccessMessage (lit ''user denied '' @ call_tool call @ lit '' access to workspace-external ''
          @ external_readonly_target_label target_kind @ lit '': '' @ render_path target_path)), None)))"

text \<open>The path that a tool opens, with the access that was decided.\<close>

definition tool_read_target :: "fsys \<Rightarrow> AccessContext \<Rightarrow> AccessCall \<Rightarrow> bool \<Rightarrow> rstr \<Rightarrow> ToolRuntimeError + fpath" where
  "tool_read_target fs ctx call allow path =
     (if call_tool call = READ_FILE_TOOL
      then (if allow then resolve_read_file_path fs (tool_workspace_path ctx) path
            else resolve_internal_read_file_path fs (tool_workspace_path ctx) path)
      else if call_tool call = FIND_FILES_TOOL
      then map_sum id fst (resolve_find_files_directory fs (tool_workspace_path ctx) path allow)
      else map_sum id fst (resolve_search_text_path fs (tool_workspace_path ctx) path allow))"

section \<open>When a tool reads outside\<close>

text \<open>What may justify it: the target belongs to the shared workspace, to a skill, to the attachments of
  the chat (for \<open>read_file\<close> only, the very file), the chat was granted it before, or the user chose an
  option that allows it.\<close>

definition justified :: "fsys \<Rightarrow> AccessContext \<Rightarrow> rstr \<Rightarrow> AccessCall \<Rightarrow> rstr set \<Rightarrow> rstr set \<Rightarrow> AskOutcome \<Rightarrow> fpath \<Rightarrow> bool" where
  "justified fs ctx chat_id call before locked answered target \<longleftrightarrow>
     path_is_within_shared_workspace fs target (shared_workspace_path ctx)
     \<or> path_is_within_skill_read_roots target (skill_read_root_dirs ctx @ configured_skill_roots ctx)
     \<or> call_tool call = READ_FILE_TOOL \<and> target \<in> set (attachment_read_allowlist ctx)
     \<or> chat_id \<in> before \<union> locked
     \<or> (\<exists>a as. answered = AnsweredBy (a # as) \<and> (answer_selected a = Some (lit ''allow'') \<or> answer_selected a = Some (lit ''allow_all'')))"

lemmas tool_names = READ_FILE_TOOL_def FIND_FILES_TOOL_def SEARCH_TEXT_TOOL_def

lemma decision_allows:
  "external_readonly_access_decision_from_answer t answers = Inr d \<Longrightarrow> d \<noteq> Deny \<Longrightarrow>
     \<exists>a as. answers = a # as \<and> answer_selected a = Some (if d = AllowOnce then lit ''allow'' else lit ''allow_all'')"
  by (cases answers) (auto simp: external_readonly_access_decision_from_answer_def Let_def lit_def
      split: if_splits option.splits)

lemma map_sum_mode: "map_sum id fst (map_sum id (\<lambda>q. (q, m)) x) = Inr p \<longleftrightarrow> x = Inr p"
  by (cases x) auto

text \<open>A target that a tool opens outside of its workspace is the one that was classified.\<close>

lemma opened_is_classified:
  assumes tree: "fs_tree fs" and tool: "is_external_readonly_access_tool (call_tool call)"
    and target: "tool_read_target fs ctx call allow path = Inr p"
    and ws: "fs_canonicalize fs (tool_workspace_path ctx) = Inr ws" and out: "\<not> path_starts_with p ws"
  shows "allow \<and> (case classify_external_readonly_target fs (call_tool call) (tool_workspace_path ctx) path of
      Inl e \<Rightarrow> True | Inr t \<Rightarrow> (\<exists>kind. t = Some (p, kind)))"
proof -
  let ?wp = "tool_workspace_path ctx"
  have inside: "resolve_internal_read_path fs ?wp path \<noteq> Inr p"
    using resolve_internal_spec [OF _ tree] ws out by fastforce
  then have no_file: "resolve_internal_read_file_path fs ?wp path \<noteq> Inr p"
    and no_dir: "resolve_internal_find_files_directory fs ?wp path \<noteq> Inr p"
    by (auto simp: resolve_internal_read_file_path_def resolve_internal_find_files_directory_def
        split: sum.splits if_splits)
  from target no_file no_dir inside have ext: "allow \<and> resolve_external_read_file_path fs ?wp path = Inr p"
    by (auto simp: tool_read_target_def resolve_read_file_path_def resolve_find_files_directory_def
        resolve_search_text_path_def map_sum_mode split: if_splits sum.splits)
  with tool show ?thesis
    by (auto simp: classify_external_readonly_target_def is_external_readonly_access_tool_def
        read_file_target_outside_workspace_def find_files_target_outside_workspace_def
        search_text_target_outside_workspace_def split: sum.splits)
qed

lemma grant_recorded:
  "ensure_read_file_external_access fs ctx chat_id rid call before locked answered = (r, Some g) \<Longrightarrow>
     r = Inr True \<and> g = chat_id \<and> (\<exists>a as. answered = AnsweredBy (a # as) \<and> answer_selected a = Some (lit ''allow_all''))"
  by (auto simp: ensure_read_file_external_access_def ask_external_readonly_access_def
      split: sum.splits prod.splits if_splits ExternalReadonlyAccessDecision.splits AskOutcome.splits
      dest: decision_allows)

lemma access_justified:
  assumes "ensure_read_file_external_access fs ctx chat_id rid call before locked answered = (Inr True, g)"
    and "classify_external_readonly_target fs (call_tool call) (tool_workspace_path ctx) path = Inr (Some (p, kind))"
    and "call_path call = Some path"
  shows "justified fs ctx chat_id call before locked answered p"
proof -
  have ask: "\<exists>a as. answered = AnsweredBy (a # as) \<and> (answer_selected a = Some (lit ''allow'') \<or> answer_selected a = Some (lit ''allow_all''))"
    if "ask_external_readonly_access rid (call_tool call) answered = Inr d" "d \<noteq> Deny" for d
    using that by (auto simp: ask_external_readonly_access_def split: AskOutcome.splits if_splits dest: decision_allows)
  show ?thesis
  proof (cases "access_checks fs ctx call (chat_id \<in> before)")
    case (Inl r)
    with assms have "access_checks fs ctx call (chat_id \<in> before) = Inl (Inr True)"
      by (simp add: ensure_read_file_external_access_def)
    with assms show ?thesis
      by (auto simp: access_checks_def justified_def path_is_within_skill_read_roots_def split: if_splits)
  next
    case (Inr t)
    with assms show ?thesis using ask
      by (auto simp: ensure_read_file_external_access_def justified_def
          split: if_splits sum.splits prod.splits ExternalReadonlyAccessDecision.splits)
  qed
qed

text \<open>C9: A tool call opens a path outside of its workspace only after a decision that is justified for
  this very path: the path lies in the shared workspace or in the folder of a skill, it is an attachment
  of the chat that \<open>read_file\<close> names exactly, the chat was granted such reads before, or the user
  answered the question with an option that allows it. The grant for the whole chat is recorded only
  when the user chose that option.\<close>

theorem external_reads_are_justified:
  assumes tree: "fs_tree fs" and tool: "is_external_readonly_access_tool (call_tool call)" and path: "call_path call = Some path"
    and decided: "ensure_read_file_external_access fs ctx chat_id rid call before locked answered = (Inr allow, g)"
    and target: "tool_read_target fs ctx call allow path = Inr p"
    and ws: "fs_canonicalize fs (tool_workspace_path ctx) = Inr ws" and out: "\<not> path_starts_with p ws"
  shows "justified fs ctx chat_id call before locked answered p
    \<and> (g \<noteq> None \<longrightarrow> g = Some chat_id
        \<and> (\<exists>a as. answered = AnsweredBy (a # as) \<and> answer_selected a = Some (lit ''allow_all'')))"
proof -
  note opened = opened_is_classified [OF tree tool target ws out]
  then have d: "ensure_read_file_external_access fs ctx chat_id rid call before locked answered = (Inr True, g)"
    using decided by simp
  have "\<exists>kind. classify_external_readonly_target fs (call_tool call) (tool_workspace_path ctx) path = Inr (Some (p, kind))"
  proof (cases "classify_external_readonly_target fs (call_tool call) (tool_workspace_path ctx) path")
    case (Inl e)
    with d path tool show ?thesis
      by (auto simp: ensure_read_file_external_access_def access_checks_def split: if_splits)
  next
    case (Inr t)
    with opened show ?thesis by auto
  qed
  then have "justified fs ctx chat_id call before locked answered p"
    using access_justified [OF d _ path] by blast
  moreover have "g \<noteq> None \<longrightarrow> g = Some chat_id
        \<and> (\<exists>a as. answered = AnsweredBy (a # as) \<and> answer_selected a = Some (lit ''allow_all''))"
    using grant_recorded d by (cases g) auto
  ultimately show ?thesis ..
qed

definition sample_access :: AccessContext where
  "sample_access = \<lparr>shared_workspace_path = [lit ''w''], tool_workspace_path = [lit ''w''],
     skill_read_root_dirs = [], configured_skill_roots = [], attachment_read_allowlist = []\<rparr>"

definition sample_call :: AccessCall where
  "sample_call = \<lparr>call_tool = FIND_FILES_TOOL, call_path = Some (lit ''/etc''), call_continuation = None\<rparr>"

theorem external_reads_are_justified_witness:
  "let yes = AnsweredBy [\<lparr>answer_id = lit ''q-item-1'', answer_value = lit ''allow'', answer_selected = Some (lit ''allow'')\<rparr>]
   in fst (ensure_read_file_external_access sample_fs sample_access (lit ''c'') (lit ''q'') sample_call {} {} yes) = Inr True
      \<and> tool_read_target sample_fs sample_access sample_call True (lit ''/etc'') = Inr [lit ''etc'']
      \<and> justified sample_fs sample_access (lit ''c'') sample_call {} {} yes [lit ''etc'']"
proof -
  define yes where "yes = AnsweredBy [\<lparr>answer_id = lit ''q-item-1'', answer_value = lit ''allow'', answer_selected = Some (lit ''allow'')\<rparr>]"
  have tr: "trim (lit ''/etc'') = lit ''/etc''" by (simp add: rust_str is_whitespace_def)
  have abs: "is_absolute (lit ''/etc'')" and cs: "path_components (lit ''/etc'') = [lit ''etc'']"
    "\<not> asks_directory (lit ''/etc'')"
    by (simp_all add: fs_eval asks_directory_def)
  have canon: "fs_canonicalize sample_fs [lit ''w''] = Inr [lit ''w'']" "fs_canonicalize sample_fs [lit ''etc''] = Inr [lit ''etc'']"
    by (simp_all add: fs_eval)
  have ctext: "canonicalize_text sample_fs w (lit ''/etc'') = Inr [lit ''etc'']" for w
    by (simp add: canonicalize_text_def join_base_def abs cs canon)
  have out: "\<not> path_starts_with [lit ''etc''] [lit ''w'']" by (simp add: path_starts_with_def lit_def)
  have ext: "resolve_external_read_file_path sample_fs [lit ''w''] (lit ''/etc'') = Inr [lit ''etc'']"
    using out by (simp add: resolve_external_read_file_path_def Let_def tr ctext canon)
  have int: "\<exists>e. resolve_internal_find_files_directory sample_fs [lit ''w''] (lit ''/etc'') = Inl e"
    using out by (simp add: resolve_internal_find_files_directory_def resolve_internal_read_path_def tr ctext canon abs)
  have dir: "fs_metadata sample_fs [lit ''etc''] = Inr FDir"
    by (simp add: fs_metadata_def canon) (simp add: sample_fs_def)
  have neq: "FIND_FILES_TOOL \<noteq> READ_FILE_TOOL" "FIND_FILES_TOOL \<noteq> SEARCH_TEXT_TOOL"
    by (simp_all add: tool_names)
  have target: "tool_read_target sample_fs sample_access sample_call True (lit ''/etc'') = Inr [lit ''etc'']"
    using int by (auto simp: tool_read_target_def sample_call_def sample_access_def neq resolve_find_files_directory_def ext)
  have tool: "is_external_readonly_access_tool (call_tool sample_call)"
    by (simp add: sample_call_def is_external_readonly_access_tool_def)
  have cls: "classify_external_readonly_target sample_fs FIND_FILES_TOOL [lit ''w''] (lit ''/etc'')
      = Inr (Some ([lit ''etc''], TargetDirectory))"
    by (simp add: classify_external_readonly_target_def neq find_files_target_outside_workspace_def ext dir)
  obtain g where run: "ensure_read_file_external_access sample_fs sample_access (lit ''c'') (lit ''q'') sample_call {} {} yes = (Inr True, g)"
    using tool out by (simp add: ensure_read_file_external_access_def access_checks_def sample_call_def sample_access_def
        cls neq path_is_within_shared_workspace_def canon path_is_within_skill_read_roots_def yes_def
        ask_external_readonly_access_def external_readonly_access_decision_from_answer_def)
  have "justified sample_fs sample_access (lit ''c'') sample_call {} {} yes [lit ''etc'']"
    using external_reads_are_justified [OF sample_fs_tree tool _ run target, of "[lit ''w'']"] canon out
    by (simp add: sample_call_def sample_access_def)
  with run target show ?thesis by (simp add: Let_def yes_def)
qed

end
