(* ===== verification/Schedule_Times.thy ===== *)
theory Schedule_Times
  imports Foco_Prelude
begin

text \<open>
  The next run of a schedule (\<open>app/scheduled_tasks/service.rs\<close> and \<open>types.rs\<close>). An instant is the
  number of nanoseconds since the epoch. What belongs to the library of dates is a parameter: \<open>parse\<close>
  reads an RFC 3339 text (\<open>None\<close> for a text that it refuses), \<open>valid\<close> tells the instants that can be
  represented. A span of seconds outside the range of the library makes its constructor panic, as its
  documentation says; the outer option of a result is \<open>None\<close> then.
\<close>

type_synonym instant = int

definition NANOS :: int where "NANOS = 1000000000"
definition I64_MAX :: int where "I64_MAX = 2 ^ 63 - 1"

text \<open>\<open>TimeDelta::seconds\<close>: milliseconds must fit an \<open>i64\<close>.\<close>

definition duration_seconds :: "int \<Rightarrow> int option" where
  "duration_seconds s = (if \<bar>s\<bar> > I64_MAX div 1000 then None else Some (s * NANOS))"

datatype ScheduleSpec =
  OneShotAt rstr
| Interval nat "rstr option"
| Cron rstr "rstr option"

datatype ScheduledTaskError =
  InvalidTimestamp rstr rstr
| InvalidInterval nat
| TimestampOverflow
| CronUnsupported

definition PREVIEW_NEXT_RUN_LIMIT :: nat where "PREVIEW_NEXT_RUN_LIMIT = 5"

definition parse_utc_timestamp :: "(rstr \<Rightarrow> instant option) \<Rightarrow> rstr \<Rightarrow> rstr \<Rightarrow> ScheduledTaskError + instant" where
  "parse_utc_timestamp parse field v = (case parse v of None \<Rightarrow> Inl (InvalidTimestamp field v) | Some t \<Rightarrow> Inr t)"

definition checked_add :: "(instant \<Rightarrow> bool) \<Rightarrow> instant \<Rightarrow> int \<Rightarrow> ScheduledTaskError + instant" where
  "checked_add valid t d = (if valid (t + d) then Inr (t + d) else Inl TimestampOverflow)"

definition interval_next_run :: "(rstr \<Rightarrow> instant option) \<Rightarrow> (instant \<Rightarrow> bool) \<Rightarrow> nat \<Rightarrow> rstr option \<Rightarrow> instant
    \<Rightarrow> (ScheduledTaskError + instant) option" where
  "interval_next_run parse valid every_seconds start_at now =
     (if int every_seconds > I64_MAX \<or> every_seconds = 0 then Some (Inl (InvalidInterval every_seconds))
      else case duration_seconds (int every_seconds) of
        None \<Rightarrow> None
      | Some interval \<Rightarrow>
     (case (case start_at of Some s \<Rightarrow> parse_utc_timestamp parse (lit ''schedule.start_at'') s
                          | None \<Rightarrow> checked_add valid now interval) of
        Inl e \<Rightarrow> Some (Inl e)
      | Inr anchor \<Rightarrow>
          if anchor > now then Some (Inr anchor)
          else
     (let elapsed_seconds = (now - anchor) div NANOS;
          offset_seconds = (elapsed_seconds div int every_seconds + 1) * int every_seconds
      in if offset_seconds > I64_MAX then Some (Inl TimestampOverflow)
         else (case duration_seconds offset_seconds of
                 None \<Rightarrow> None
               | Some d \<Rightarrow> Some (checked_add valid anchor d)))))"

definition next_run_after :: "(rstr \<Rightarrow> instant option) \<Rightarrow> (instant \<Rightarrow> bool) \<Rightarrow> ScheduleSpec \<Rightarrow> instant
    \<Rightarrow> (ScheduledTaskError + instant option) option" where
  "next_run_after parse valid schedule now =
     (case schedule of
        OneShotAt run_at \<Rightarrow> Some (case parse_utc_timestamp parse (lit ''schedule.run_at'') run_at of
            Inl e \<Rightarrow> Inl e
          | Inr t \<Rightarrow> Inr (if t > now then Some t else None))
      | Interval every_seconds start_at \<Rightarrow>
          map_option (map_sum id Some) (interval_next_run parse valid every_seconds start_at now)
      | Cron _ _ \<Rightarrow> Some (Inl CronUnsupported))"

fun next_runs_after :: "(rstr \<Rightarrow> instant option) \<Rightarrow> (instant \<Rightarrow> bool) \<Rightarrow> ScheduleSpec \<Rightarrow> instant \<Rightarrow> nat
    \<Rightarrow> (ScheduledTaskError + instant list) option" where
  "next_runs_after parse valid schedule cursor 0 = Some (Inr [])"
| "next_runs_after parse valid schedule cursor (Suc n) =
     (case next_run_after parse valid schedule cursor of
        None \<Rightarrow> None
      | Some (Inl e) \<Rightarrow> Some (Inl e)
      | Some (Inr None) \<Rightarrow> Some (Inr [])
      | Some (Inr (Some t)) \<Rightarrow> map_option (map_sum id ((#) t)) (next_runs_after parse valid schedule t n))"

text \<open>The texts of the answer keep milliseconds; \<open>format\<close> is the library's rendering of them.\<close>

definition millis :: "instant \<Rightarrow> int" where
  "millis t = t div 1000000"

record PreviewNextRunResponse =
  preview_next_run_at :: "int option"
  preview_next_runs :: "int list"

definition preview_next_run :: "(rstr \<Rightarrow> instant option) \<Rightarrow> (instant \<Rightarrow> bool) \<Rightarrow> ScheduleSpec \<Rightarrow> nat option
    \<Rightarrow> rstr option \<Rightarrow> instant \<Rightarrow> (ScheduledTaskError + PreviewNextRunResponse) option" where
  "preview_next_run parse valid schedule requested_count requested_now clock =
     (case (case requested_now of Some s \<Rightarrow> parse_utc_timestamp parse (lit ''now'') s | None \<Rightarrow> Inr clock) of
        Inl e \<Rightarrow> Some (Inl e)
      | Inr now \<Rightarrow>
     (let count = max 1 (min PREVIEW_NEXT_RUN_LIMIT (case requested_count of None \<Rightarrow> 1 | Some n \<Rightarrow> n))
      in map_option (map_sum id (\<lambda>runs. let ms = map millis runs
             in \<lparr>preview_next_run_at = (case ms of [] \<Rightarrow> None | t # _ \<Rightarrow> Some t), preview_next_runs = ms\<rparr>))
           (next_runs_after parse valid schedule now count)))"

section \<open>The next run is the first one after now\<close>

text \<open>The instants of a schedule: the one instant, or every multiple of the interval from the start on.
  Without a start an interval counts from now.\<close>

definition due_times :: "(rstr \<Rightarrow> instant option) \<Rightarrow> ScheduleSpec \<Rightarrow> instant \<Rightarrow> instant set" where
  "due_times parse schedule now =
     (case schedule of
        OneShotAt run_at \<Rightarrow> {t. parse run_at = Some t}
      | Interval e (Some s) \<Rightarrow> {t. \<exists>a k. parse s = Some a \<and> t = a + int k * int e * NANOS}
      | Interval e None \<Rightarrow> {t. \<exists>k. t = now + int (Suc k) * int e * NANOS}
      | Cron _ _ \<Rightarrow> {})"

lemma NANOS_pos: "0 < NANOS" by (simp add: NANOS_def)

lemma first_after:
  assumes "0 < (e :: int)" "a \<le> now"
  defines "k \<equiv> (now - a) div NANOS div e + 1"
  shows "now < a + k * e * NANOS" "0 \<le> k" "\<And>j. 0 \<le> j \<Longrightarrow> now < a + j * e * NANOS \<Longrightarrow> k \<le> j"
proof -
  let ?q = "(now - a) div NANOS div e"
  have pos: "0 < NANOS * e" using assms NANOS_pos by simp
  have q: "?q = (now - a) div (NANOS * e)"
    using assms(1) by (simp add: zdiv_zmult2_eq)
  have mod: "0 \<le> (now - a) mod (NANOS * e)" "(now - a) mod (NANOS * e) < NANOS * e"
    "now - a = (NANOS * e) * ?q + (now - a) mod (NANOS * e)"
    using pos unfolding q by simp_all
  show "0 \<le> k" unfolding k_def using assms NANOS_pos by (simp add: pos_imp_zdiv_nonneg_iff)
  show "now < a + k * e * NANOS"
    unfolding k_def using mod by (simp add: algebra_simps)
  fix j assume j: "0 \<le> j" "now < a + j * e * NANOS"
  have "NANOS * e * ?q < NANOS * e * j" using mod j by (simp add: algebra_simps)
  then have "?q < j" using pos by (simp add: mult_less_cancel_left)
  then show "k \<le> j" unfolding k_def by simp
qed

text \<open>Instants of the library lie within a quarter of the span that a duration can hold.\<close>

definition in_range :: "instant \<Rightarrow> bool" where
  "in_range t \<longleftrightarrow> \<bar>t\<bar> \<le> (I64_MAX div 4000) * NANOS"

lemma offset_fits:
  assumes "in_range a" "in_range now" "a \<le> now" "0 < e" "e \<le> I64_MAX div 1000"
  shows "\<bar>((now - a) div NANOS div e + 1) * e\<bar> \<le> I64_MAX div 1000"
proof -
  let ?s = "(now - a) div NANOS"
  have s: "0 \<le> ?s" using assms(3) NANOS_pos by (simp add: pos_imp_zdiv_nonneg_iff)
  have "now - a \<le> (2 * (I64_MAX div 4000)) * NANOS" using assms by (auto simp: in_range_def)
  then have "?s \<le> 2 * (I64_MAX div 4000)"
    using NANOS_pos zdiv_mono1 [of "now - a" "2 * (I64_MAX div 4000) * NANOS" NANOS] by simp
  then have two: "2 * ?s \<le> I64_MAX div 1000" by (simp add: I64_MAX_def)
  show ?thesis
  proof (cases "e \<le> ?s")
    case True
    have "?s div e * e \<le> ?s" using assms(4) by (simp add: minus_mod_eq_div_mult [symmetric])
    with True two s assms(4) show ?thesis by (simp add: distrib_right pos_imp_zdiv_nonneg_iff)
  next
    case False
    with s have "?s div e = 0" by simp
    with assms show ?thesis by simp
  qed
qed

lemma limit_small: "I64_MAX div 1000 \<le> I64_MAX" by (simp add: I64_MAX_def)

lemma interval_result:
  assumes e: "0 < every" "int every \<le> I64_MAX div 1000" and now: "in_range now"
    and start: "\<forall>s a. start_at = Some s \<longrightarrow> parse s = Some a \<longrightarrow> in_range a"
  shows "interval_next_run parse valid every start_at now =
    Some (case start_at of
        None \<Rightarrow> checked_add valid now (int every * NANOS)
      | Some s \<Rightarrow> (case parse s of
            None \<Rightarrow> Inl (InvalidTimestamp (lit ''schedule.start_at'') s)
          | Some a \<Rightarrow> if a > now then Inr a
                      else checked_add valid a (((now - a) div NANOS div int every + 1) * int every * NANOS)))"
proof -
  have d: "duration_seconds (int every) = Some (int every * NANOS)" and m: "int every \<le> I64_MAX"
    using e limit_small by (auto simp: duration_seconds_def)
  have gt: "now < now + int every * NANOS" using e NANOS_pos by simp
  show ?thesis
  proof (cases start_at)
    case None
    with d m e gt show ?thesis by (auto simp: interval_next_run_def checked_add_def)
  next
    case (Some s)
    show ?thesis
    proof (cases "parse s")
      case None
      with Some d m e show ?thesis by (simp add: interval_next_run_def parse_utc_timestamp_def)
    next
      case (Some a)
      with start \<open>start_at = Some s\<close> have a: "in_range a" by simp
      let ?k = "((now - a) div NANOS div int every + 1) * int every"
      have fits: "\<bar>?k\<bar> \<le> I64_MAX div 1000" if "a \<le> now" using offset_fits [OF a now that] e by simp
      then have "duration_seconds ?k = Some (?k * NANOS) \<and> ?k \<le> I64_MAX" if "a \<le> now"
        using that limit_small by (fastforce simp: duration_seconds_def)
      then show ?thesis
        using Some \<open>start_at = Some s\<close> d m e
        by (auto simp: interval_next_run_def parse_utc_timestamp_def Let_def)
    qed
  qed
qed

lemma interval_first:
  assumes every: "0 < e \<and> int e \<le> I64_MAX div 1000" and now: "in_range now"
    and parse: "\<forall>s a. parse s = Some a \<longrightarrow> in_range a"
    and run: "interval_next_run parse valid e s now = Some (Inr t)"
  shows "t \<in> due_times parse (Interval e s) now \<and> now < t \<and> (\<forall>u \<in> due_times parse (Interval e s) now. now < u \<longrightarrow> t \<le> u)"
proof -
  from every have e: "0 < int e" by simp
  show ?thesis
  proof (cases s)
    case None
    with run interval_result [of e now s parse valid] every now have t: "t = now + int e * NANOS"
      by (auto simp: checked_add_def split: if_splits)
    have "int e * NANOS \<le> int (Suc k) * int e * NANOS" for k
      using NANOS_pos by (simp add: distrib_right)
    moreover have "\<exists>k. t = now + int (Suc k) * int e * NANOS" by (rule exI [of _ 0]) (simp add: t)
    ultimately show ?thesis using t e NANOS_pos None by (auto simp: due_times_def)
  next
    case (Some x)
    with run interval_result [of e now s parse valid] every now parse obtain a where a: "parse x = Some a"
      "t = (if a > now then a else a + ((now - a) div NANOS div int e + 1) * int e * NANOS)"
      by (auto simp: checked_add_def split: option.splits if_splits)
    have due: "due_times parse (Interval e s) now = {u. \<exists>k. u = a + int k * int e * NANOS}"
      using Some a by (simp add: due_times_def)
    show ?thesis
    proof (cases "a > now")
      case True
      have "0 \<le> int k * int e * NANOS" for k using NANOS_pos by simp
      moreover have "\<exists>k. a = a + int k * int e * NANOS" by (rule exI [of _ 0]) simp
      ultimately show ?thesis using True a due by auto
    next
      case False
      let ?k = "(now - a) div NANOS div int e + 1"
      from False have le: "a \<le> now" by simp
      note k = first_after [OF e le]
      have t: "t = a + int (nat ?k) * int e * NANOS" using False a(2) k(2) by simp
      moreover have "t \<le> a + int j * int e * NANOS" if "now < a + int j * int e * NANOS" for j
      proof -
        have "?k \<le> int j" using k(3) [of "int j"] that by simp
        then have "?k * int e * NANOS \<le> int j * int e * NANOS"
          using NANOS_pos by (intro mult_right_mono) simp_all
        with False a(2) show ?thesis by simp
      qed
      moreover have "now < t" using k(1) False a(2) by simp
      ultimately show ?thesis unfolding due by blast
    qed
  qed
qed

section \<open>What a schedule should give\<close>

text \<open>The first instant of a schedule after now; the fault of a schedule that has no instants; and the
  intervals that the check of their bounds lets through and the library's duration cannot hold.\<close>

definition first_due :: "(rstr \<Rightarrow> instant option) \<Rightarrow> ScheduleSpec \<Rightarrow> instant \<Rightarrow> instant \<Rightarrow> bool" where
  "first_due parse schedule now t \<longleftrightarrow> t \<in> due_times parse schedule now \<and> now < t
     \<and> (\<forall>u \<in> due_times parse schedule now. now < u \<longrightarrow> t \<le> u)"

fun schedule_fault :: "(rstr \<Rightarrow> instant option) \<Rightarrow> ScheduleSpec \<Rightarrow> ScheduledTaskError option" where
  "schedule_fault parse (OneShotAt x) =
     (if parse x = None then Some (InvalidTimestamp (lit ''schedule.run_at'') x) else None)"
| "schedule_fault parse (Interval e s) =
     (if e = 0 \<or> I64_MAX < int e then Some (InvalidInterval e)
      else case s of None \<Rightarrow> None
           | Some x \<Rightarrow> if parse x = None then Some (InvalidTimestamp (lit ''schedule.start_at'') x) else None)"
| "schedule_fault parse (Cron x z) = Some CronUnsupported"

fun span_overflows :: "ScheduleSpec \<Rightarrow> bool" where
  "span_overflows (Interval e s) \<longleftrightarrow> I64_MAX div 1000 < int e \<and> int e \<le> I64_MAX"
| "span_overflows _ \<longleftrightarrow> False"

lemma first_due_unique: "first_due parse schedule now t \<Longrightarrow> first_due parse schedule now u \<Longrightarrow> t = u"
  by (meson first_due_def order_antisym)

text \<open>What the first instant settles: the answer is that instant, or its overflow.\<close>

lemma first_due_settles:
  assumes "first_due parse schedule now t"
    and "r = Some (if valid t then Inr (Some t) else Inl TimestampOverflow)"
  shows "(r = Some (Inr None) \<longleftrightarrow> (\<forall>u \<in> due_times parse schedule now. u \<le> now))
    \<and> (\<forall>u. r = Some (Inr (Some u)) \<longleftrightarrow> first_due parse schedule now u \<and> valid u)
    \<and> (\<forall>x. r = Some (Inl x) \<longleftrightarrow> x = TimestampOverflow \<and> (\<exists>u. first_due parse schedule now u \<and> \<not> valid u))"
proof (intro conjI allI)
  have now: "now < t" "t \<in> due_times parse schedule now" using assms(1) by (simp_all add: first_due_def)
  have only: "first_due parse schedule now u \<longleftrightarrow> u = t" for u
    using assms(1) first_due_unique by blast
  show "r = Some (Inr None) \<longleftrightarrow> (\<forall>u \<in> due_times parse schedule now. u \<le> now)"
    using now assms(2) by force
  show "r = Some (Inr (Some u)) \<longleftrightarrow> first_due parse schedule now u \<and> valid u" for u
    by (auto simp: assms(2) only)
  show "r = Some (Inl x) \<longleftrightarrow> x = TimestampOverflow \<and> (\<exists>u. first_due parse schedule now u \<and> \<not> valid u)" for x
    by (auto simp: assms(2) only)
qed

lemma interval_settled:
  assumes every: "0 < e \<and> int e \<le> I64_MAX div 1000" and now: "in_range now"
    and parse: "\<forall>s a. parse s = Some a \<longrightarrow> in_range a \<and> valid a"
    and start: "\<forall>x. s = Some x \<longrightarrow> parse x \<noteq> None"
  shows "\<exists>t. first_due parse (Interval e s) now t
    \<and> interval_next_run parse valid e s now = Some (if valid t then Inr t else Inl TimestampOverflow)"
proof -
  let ?all = "\<lambda>_. True"
  have range: "\<forall>s a. parse s = Some a \<longrightarrow> in_range a" using parse by blast
  have eq: "interval_next_run parse v e s now = Some (case s of
        None \<Rightarrow> checked_add v now (int e * NANOS)
      | Some x \<Rightarrow> if the (parse x) > now then Inr (the (parse x))
          else checked_add v (the (parse x)) (((now - the (parse x)) div NANOS div int e + 1) * int e * NANOS))" for v
    using interval_result [of e now s parse v] every now range start
    by (auto split: option.splits)
  have "\<exists>t. interval_next_run parse ?all e s now = Some (Inr t)"
    unfolding eq by (cases s) (simp_all add: checked_add_def)
  then obtain t where t: "interval_next_run parse ?all e s now = Some (Inr t)" ..
  have "first_due parse (Interval e s) now t"
    using interval_first [OF every now range t] by (simp add: first_due_def)
  moreover have "valid a" if "s = Some x" "the (parse x) = a" for x a
    using that start parse by fastforce
  then have "interval_next_run parse valid e s now = Some (if valid t then Inr t else Inl TimestampOverflow)"
    using t unfolding eq by (auto simp: checked_add_def split: option.splits if_splits)
  ultimately show ?thesis by blast
qed

lemma next_run_result:
  assumes now: "in_range now" and parse: "\<forall>s a. parse s = Some a \<longrightarrow> in_range a \<and> valid a"
    and r_def: "r = next_run_after parse valid schedule now"
  shows "(r = None \<longleftrightarrow> span_overflows schedule)
    \<and> (\<forall>x. schedule_fault parse schedule = Some x \<longrightarrow> \<not> span_overflows schedule \<longrightarrow> r = Some (Inl x))
    \<and> (schedule_fault parse schedule = None \<longrightarrow> \<not> span_overflows schedule \<longrightarrow>
        (r = Some (Inr None) \<longleftrightarrow> (\<forall>u \<in> due_times parse schedule now. u \<le> now))
        \<and> (\<forall>t. r = Some (Inr (Some t)) \<longleftrightarrow> first_due parse schedule now t \<and> valid t)
        \<and> (\<forall>x. r = Some (Inl x) \<longleftrightarrow> x = TimestampOverflow \<and> (\<exists>t. first_due parse schedule now t \<and> \<not> valid t)))"
proof (cases schedule)
  case (OneShotAt x)
  show ?thesis
  proof (cases "parse x")
    case None
    then show ?thesis by (simp add: r_def OneShotAt next_run_after_def parse_utc_timestamp_def)
  next
    case (Some a)
    then have "valid a" using parse by blast
    then show ?thesis
      using Some by (auto simp: r_def OneShotAt next_run_after_def parse_utc_timestamp_def due_times_def first_due_def)
  qed
next
  case (Cron x z)
  then show ?thesis by (simp add: r_def next_run_after_def)
next
  case (Interval e s)
  let ?run = "interval_next_run parse valid e s now"
  have r: "r = map_option (map_sum id Some) ?run" by (simp add: r_def Interval next_run_after_def)
  show ?thesis
  proof (cases "0 < e \<and> int e \<le> I64_MAX div 1000")
    case False
    then have "r = (if span_overflows schedule then None else Some (Inl (InvalidInterval e)))"
      by (auto simp: r Interval interval_next_run_def duration_seconds_def)
    then show ?thesis using False by (auto simp: Interval)
  next
    case True
    then have bounds: "\<not> span_overflows schedule" "e \<noteq> 0" "int e \<le> I64_MAX"
      using limit_small by (simp_all add: Interval)
    show ?thesis
    proof (cases "\<exists>x. s = Some x \<and> parse x = None")
      case True
      then obtain x where x: "s = Some x" "parse x = None" by blast
      then have "r = Some (Inl (InvalidTimestamp (lit ''schedule.start_at'') x))"
        using interval_result [of e now s parse valid] \<open>0 < e \<and> int e \<le> I64_MAX div 1000\<close> now by (simp add: r)
      then show ?thesis using x bounds by (auto simp: Interval)
    next
      case False
      then have start: "\<forall>x. s = Some x \<longrightarrow> parse x \<noteq> None" by simp
      obtain t where t: "first_due parse schedule now t"
        and run: "?run = Some (if valid t then Inr t else Inl TimestampOverflow)"
        using interval_settled [OF True now parse start] unfolding Interval by blast
      have answer: "r = Some (if valid t then Inr (Some t) else Inl TimestampOverflow)"
        using run by (simp add: r)
      note settled = first_due_settles [where valid = valid, OF t answer]
      have "schedule_fault parse schedule = None"
        using bounds start by (cases s) (simp_all add: Interval)
      moreover have "r \<noteq> None" by (simp add: answer)
      ultimately show ?thesis
        using settled bounds(1) by simp
    qed
  qed
qed

text \<open>C25: The result of the computation of the next run, completely. It panics exactly for an interval that
  the check of its bounds lets through and the library's duration cannot hold, which is more than
  9223372036854775 seconds. Otherwise a schedule with a fault (an unreadable text, an interval of zero
  or beyond 64 bits, a cron expression) gives the error of that fault; and of a schedule without one the
  result is the first of its instants after now, the overflow error exactly when the library cannot
  represent that instant, and none exactly when no instant lies after now.\<close>

theorem next_run_is_first_after_now:
  assumes now: "in_range now" and parse: "\<forall>s a. parse s = Some a \<longrightarrow> in_range a \<and> valid a"
  shows "(next_run_after parse valid schedule now = None \<longleftrightarrow> span_overflows schedule)
    \<and> (\<forall>x. schedule_fault parse schedule = Some x \<longrightarrow> \<not> span_overflows schedule \<longrightarrow> next_run_after parse valid schedule now = Some (Inl x))
    \<and> (schedule_fault parse schedule = None \<longrightarrow> \<not> span_overflows schedule \<longrightarrow>
        (next_run_after parse valid schedule now = Some (Inr None) \<longleftrightarrow> (\<forall>u \<in> due_times parse schedule now. u \<le> now))
        \<and> (\<forall>t. next_run_after parse valid schedule now = Some (Inr (Some t)) \<longleftrightarrow> first_due parse schedule now t \<and> valid t)
        \<and> (\<forall>x. next_run_after parse valid schedule now = Some (Inl x) \<longleftrightarrow> x = TimestampOverflow \<and> (\<exists>t. first_due parse schedule now t \<and> \<not> valid t)))"
  by (rule next_run_result [OF now parse refl])

text \<open>A one-shot in the past has no next run, an interval of a minute from the epoch runs next at 120
  seconds when it is 61 seconds past the epoch, and the largest interval panics.\<close>

theorem next_run_is_first_after_now_witness:
  "next_run_after (\<lambda>_. Some 0) (\<lambda>_. True) (OneShotAt (lit ''epoch'')) 61000000000 = Some (Inr None)
   \<and> next_run_after (\<lambda>_. Some 0) (\<lambda>_. True) (Interval 60 (Some (lit ''epoch''))) 61000000000
       = Some (Inr (Some 120000000000))
   \<and> next_run_after (\<lambda>_. Some 0) (\<lambda>_. True) (Interval 9223372036854775807 None) 61000000000 = None"
proof -
  have range: "in_range 61000000000" "\<forall>s a. (\<lambda>_. Some 0) s = Some a \<longrightarrow> in_range a \<and> (\<lambda>_. True) a"
    by (simp_all add: in_range_def I64_MAX_def NANOS_def)
  note result = next_run_is_first_after_now [OF range]
  have "next_run_after (\<lambda>_. Some 0) (\<lambda>_. True) (OneShotAt (lit ''epoch'')) 61000000000 = Some (Inr None)"
    using result [of "OneShotAt (lit ''epoch'')"] by (simp add: due_times_def)
  moreover have "first_due (\<lambda>_. Some 0) (Interval 60 (Some (lit ''epoch''))) 61000000000 120000000000"
    unfolding first_due_def
  proof (intro conjI ballI impI)
    show "120000000000 \<in> due_times (\<lambda>_. Some 0) (Interval 60 (Some (lit ''epoch''))) 61000000000"
      by (auto simp: due_times_def NANOS_def intro: exI [of _ 2])
    fix u :: int
    assume "u \<in> due_times (\<lambda>_. Some 0) (Interval 60 (Some (lit ''epoch''))) 61000000000" "61000000000 < u"
    then obtain k :: nat where "u = int k * 60 * 1000000000" "61000000000 < u"
      by (auto simp: due_times_def NANOS_def)
    then show "120000000000 \<le> u" by (cases "k \<le> 1") simp_all
  qed simp
  then have "next_run_after (\<lambda>_. Some 0) (\<lambda>_. True) (Interval 60 (Some (lit ''epoch''))) 61000000000
      = Some (Inr (Some 120000000000))"
    using result [of "Interval 60 (Some (lit ''epoch''))"] by (simp add: I64_MAX_def)
  moreover have "next_run_after (\<lambda>_. Some 0) (\<lambda>_. True) (Interval 9223372036854775807 None) 61000000000 = None"
    using result [of "Interval 9223372036854775807 None"] by (simp add: I64_MAX_def)
  ultimately show ?thesis by blast
qed

end
