(* ===== verification/Scheduled_Runs.thy ===== *)
theory Scheduled_Runs
  imports Schedule_Times Agent_Domain "HOL-Library.Multiset"
begin

text \<open>
  The scheduler of scheduled tasks (\<open>app/scheduled_tasks/scheduler.rs\<close>) on the rows of its two tables
  (\<open>store/workspace.rs\<close>, \<open>claim_due_scheduled_task_run\<close> and its neighbours). A row keeps its instants
  as texts with milliseconds; the model keeps the number of milliseconds, whose order is the order of the
  texts for the years 0 to 9999. Texts that hold JSON are what reading them gives, an error or a value.
  Queueing a chat message is the code of other parts and an input: it answers with an error or with
  identifiers. Faults of the database are outside the model, missing directories are not; the clock shows
  the same instant throughout one scan, and a computation that panics ends the scan.
\<close>

section \<open>Rows\<close>

datatype ScheduledStatus = SchEnabled | SchPaused | SchCompleted | SchArchived

datatype ScheduledRunStatus =
  RunPending | RunQueued | RunRunning | RunSucceeded | RunFailed | RunCancelled | RunSkipped

datatype ConcurrencyPolicy = SkipIfRunning | QueueAfterCurrent | ForceRun

datatype SessionMode = CreateNewChat | ReuseChat rstr

record AgentPrompt =
  prompt_text :: rstr
  prompt_session :: SessionMode
  prompt_definition :: "rstr option"
  prompt_model :: "rstr option"
  prompt_thinking :: "rstr option"
  prompt_skills :: "rstr list"
  prompt_collaboration :: bool

record ScheduledTask =
  task_id :: rstr
  task_schedule :: "rstr + ScheduleSpec"
  task_action :: "rstr + AgentPrompt"
  task_policy :: "rstr + ConcurrencyPolicy"
  task_status :: ScheduledStatus
  task_next_run_at :: "int option"
  task_last_run_at :: "int option"

record ScheduledRun =
  run_id :: rstr
  run_task_id :: rstr
  run_trigger :: rstr
  run_status :: ScheduledRunStatus
  run_scheduled_at :: int
  run_queued_at :: "int option"
  run_started_at :: "int option"
  run_completed_at :: "int option"
  run_chat_id :: "rstr option"
  run_user_message_id :: "rstr option"
  run_agent_task_id :: "rstr option"
  run_agent_attempt_id :: "rstr option"
  run_active_run_id :: "rstr option"
  run_error_message :: "rstr option"

text \<open>What the scheduler reads of an agent task.\<close>

record LinkedTask =
  linked_status :: AgentTaskStatus
  linked_started_at :: "int option"
  linked_completed_at :: "int option"
  linked_error :: "rstr option"
  linked_last_attempt :: "rstr option"

record ScheduleDb =
  db_tasks :: "ScheduledTask list"
  db_runs :: "ScheduledRun list"
  db_agent_tasks :: "rstr \<Rightarrow> LinkedTask option"

section \<open>Operations of the store\<close>

definition run_is_active :: "ScheduledRun \<Rightarrow> bool" where
  "run_is_active r \<longleftrightarrow> run_status r \<in> {RunPending, RunQueued, RunRunning}"

definition active_scheduled_task_run_count :: "ScheduleDb \<Rightarrow> rstr \<Rightarrow> nat" where
  "active_scheduled_task_run_count db tid = length (filter (\<lambda>r. run_task_id r = tid \<and> run_is_active r) (db_runs db))"

text \<open>Ordered by \<open>scheduled_at\<close>; rows of one instant keep the order of their insertion.\<close>

definition active_scheduled_task_runs :: "ScheduleDb \<Rightarrow> ScheduledRun list" where
  "active_scheduled_task_runs db = sort_key run_scheduled_at (filter run_is_active (db_runs db))"

text \<open>The enabled tasks, those with the earliest next run first. Tasks with the same next run keep the order
  of the rows; the query breaks such ties by the last update and the identifier.\<close>

definition enabled_tasks :: "ScheduleDb \<Rightarrow> ScheduledTask list" where
  "enabled_tasks db =
     (let ts = filter (\<lambda>t. task_status t = SchEnabled) (db_tasks db)
      in sort_key (\<lambda>t. the (task_next_run_at t)) (filter (\<lambda>t. task_next_run_at t \<noteq> None) ts)
         @ filter (\<lambda>t. task_next_run_at t = None) ts)"

definition update_run :: "ScheduledRun \<Rightarrow> ScheduleDb \<Rightarrow> ScheduleDb" where
  "update_run r db = db\<lparr>db_runs := map (\<lambda>x. if run_id x = run_id r then r else x) (db_runs db)\<rparr>"

definition delete_old_scheduled_task_runs :: "int \<Rightarrow> ScheduleDb \<Rightarrow> ScheduleDb" where
  "delete_old_scheduled_task_runs completed_before db =
     db\<lparr>db_runs := filter (\<lambda>r. \<not> (\<not> run_is_active r \<and> (\<exists>t. run_completed_at r = Some t \<and> t < completed_before))) (db_runs db)\<rparr>"

definition new_run :: "rstr \<Rightarrow> rstr \<Rightarrow> rstr \<Rightarrow> ScheduledRunStatus \<Rightarrow> int \<Rightarrow> int option \<Rightarrow> rstr option \<Rightarrow> ScheduledRun" where
  "new_run rid tid reason st scheduled completed err =
     \<lparr>run_id = rid, run_task_id = tid, run_trigger = reason, run_status = st, run_scheduled_at = scheduled,
      run_queued_at = None, run_started_at = None, run_completed_at = completed, run_chat_id = None,
      run_user_message_id = None, run_agent_task_id = None, run_agent_attempt_id = None,
      run_active_run_id = None, run_error_message = err\<rparr>"

text \<open>The claim of a due task in one transaction: the row must still show the next run that was read.\<close>

record RunClaim =
  claim_task_id :: rstr
  claim_expected :: int
  claim_run_id :: rstr
  claim_run_status :: ScheduledRunStatus
  claim_completed_at :: "int option"
  claim_error :: "rstr option"
  claim_task_status :: ScheduledStatus
  claim_next_run_at :: "int option"
  claim_last_run_at :: int

definition claimable :: "RunClaim \<Rightarrow> ScheduledTask \<Rightarrow> bool" where
  "claimable cl t \<longleftrightarrow> task_id t = claim_task_id cl \<and> task_status t = SchEnabled
     \<and> task_next_run_at t = Some (claim_expected cl) \<and> claim_expected cl \<le> claim_last_run_at cl"

definition claim_due_scheduled_task_run :: "RunClaim \<Rightarrow> ScheduleDb \<Rightarrow> ScheduledRun option \<times> ScheduleDb" where
  "claim_due_scheduled_task_run cl db =
     (if \<not> list_ex (claimable cl) (db_tasks db) then (None, db)
      else (let r = new_run (claim_run_id cl) (claim_task_id cl) (lit ''scheduled'') (claim_run_status cl)
                      (claim_expected cl) (claim_completed_at cl) (claim_error cl)
            in (Some r, db\<lparr>db_tasks := map (\<lambda>t. if claimable cl t
                   then t\<lparr>task_status := claim_task_status cl, task_next_run_at := claim_next_run_at cl,
                          task_last_run_at := Some (claim_last_run_at cl)\<rparr> else t) (db_tasks db),
                 db_runs := db_runs db @ [r]\<rparr>)))"

section \<open>Following the agent task\<close>

fun scheduled_run_status_for_agent_task :: "AgentTaskStatus \<Rightarrow> ScheduledRunStatus" where
  "scheduled_run_status_for_agent_task TaskQueued = RunQueued"
| "scheduled_run_status_for_agent_task TaskRunning = RunRunning"
| "scheduled_run_status_for_agent_task TaskWaiting = RunRunning"
| "scheduled_run_status_for_agent_task TaskCompleted = RunSucceeded"
| "scheduled_run_status_for_agent_task TaskFailed = RunFailed"
| "scheduled_run_status_for_agent_task TaskInterrupted = RunFailed"
| "scheduled_run_status_for_agent_task TaskCancelled = RunCancelled"

definition scheduled_run_status_is_terminal :: "ScheduledRunStatus \<Rightarrow> bool" where
  "scheduled_run_status_is_terminal s \<longleftrightarrow> s \<in> {RunSucceeded, RunFailed, RunCancelled, RunSkipped}"

definition or_else :: "'a option \<Rightarrow> 'a option \<Rightarrow> 'a option" where
  "or_else a b = (case a of None \<Rightarrow> b | Some _ \<Rightarrow> a)"

definition sync_scheduled_task_run_with_task :: "rstr \<Rightarrow> LinkedTask \<Rightarrow> ScheduledRun \<Rightarrow> ScheduledRun" where
  "sync_scheduled_task_run_with_task agent_task_id t r =
     r\<lparr>run_status := scheduled_run_status_for_agent_task (linked_status t),
       run_started_at := (if linked_status t = TaskQueued then run_started_at r
                          else or_else (linked_started_at t) (run_started_at r)),
       run_completed_at := (if task_is_terminal (linked_status t)
                            then or_else (linked_completed_at t) (run_completed_at r) else None),
       run_error_message := (if linked_status t \<in> {TaskFailed, TaskCancelled, TaskInterrupted} then linked_error t else None),
       run_agent_attempt_id := or_else (linked_last_attempt t) (run_agent_attempt_id r),
       run_active_run_id := or_else (run_active_run_id r) (Some agent_task_id)\<rparr>"

definition mark_scheduled_run_failed :: "int \<Rightarrow> rstr \<Rightarrow> ScheduledRun \<Rightarrow> ScheduledRun" where
  "mark_scheduled_run_failed now msg r =
     r\<lparr>run_status := RunFailed, run_completed_at := Some now, run_error_message := Some msg\<rparr>"

definition mark_scheduled_run_cancelled :: "int \<Rightarrow> rstr \<Rightarrow> ScheduledRun \<Rightarrow> ScheduledRun" where
  "mark_scheduled_run_cancelled now msg r =
     r\<lparr>run_status := RunCancelled, run_completed_at := Some now, run_error_message := Some msg\<rparr>"

text \<open>The row is written when a field changes; writing an equal row changes nothing.\<close>

definition sync_scheduled_task_run :: "int \<Rightarrow> ScheduledRun \<Rightarrow> ScheduleDb \<Rightarrow> ScheduledRun \<times> ScheduleDb" where
  "sync_scheduled_task_run now r db =
     (case run_agent_task_id r of
        None \<Rightarrow> (r, db)
      | Some aid \<Rightarrow>
     (case db_agent_tasks db aid of
        None \<Rightarrow>
          if scheduled_run_status_is_terminal (run_status r) then (r, db)
          else (let r' = mark_scheduled_run_failed now (lit ''linked Agent task was not found'') r in (r', update_run r' db))
      | Some t \<Rightarrow> (let r' = sync_scheduled_task_run_with_task aid t r
                   in if r' = r then (r, db) else (r', update_run r' db))))"

section \<open>Dispatching a run\<close>

record AgentDefinitionView =
  def_id :: rstr
  def_model :: rstr
  def_thinking :: "rstr option"

record QueueChatInput =
  qi_chat_id :: "rstr option"
  qi_model_id :: rstr
  qi_thinking :: "rstr option"
  qi_skills :: "rstr list"
  qi_message :: rstr
  qi_team_mode :: bool
  qi_definition :: "rstr option"
  qi_task_id :: rstr
  qi_run_id :: rstr
  qi_trigger :: rstr

record QueuedChat =
  queued_chat_id :: rstr
  queued_message_id :: rstr
  queued_agent_task :: "rstr option"

text \<open>The identifier of a definition is checked as in \<open>Agent_Domain\<close>; the check is an argument.\<close>

definition scheduled_agent_definition :: "(rstr \<Rightarrow> rstr + rstr) \<Rightarrow> AgentDefinitionView list \<Rightarrow> rstr \<Rightarrow> rstr + AgentDefinitionView" where
  "scheduled_agent_definition check_id defs i =
     (case check_id i of
        Inl e \<Rightarrow> Inl e
      | Inr j \<Rightarrow> (case find (\<lambda>d. def_id d = j) defs of
            Some d \<Rightarrow> Inr d
          | None \<Rightarrow> Inl (lit ''AgentDefinition '' @ [39] @ j @ [39] @ lit '' was not found'')))"

definition scheduled_queue_input :: "(rstr \<Rightarrow> rstr + rstr) \<Rightarrow> AgentDefinitionView list \<Rightarrow> ScheduledTask \<Rightarrow> ScheduledRun
    \<Rightarrow> rstr \<Rightarrow> rstr + QueueChatInput" where
  "scheduled_queue_input check_id defs task r trigger_reason =
     (case task_action task of
        Inl e \<Rightarrow> Inl (lit ''scheduled task '' @ [39] @ task_id task @ [39] @ lit '' has invalid action JSON: '' @ e)
      | Inr a \<Rightarrow>
     (case (case prompt_definition a of None \<Rightarrow> Inr None
            | Some i \<Rightarrow> map_sum id Some (scheduled_agent_definition check_id defs i)) of
        Inl e \<Rightarrow> Inl e
      | Inr definition \<Rightarrow>
     (let prompt = trim (prompt_text a)
      in if prompt = [] then Inl (lit ''scheduled prompt must not be empty'')
         else
     (case (case prompt_session a of CreateNewChat \<Rightarrow> Inr None
            | ReuseChat c \<Rightarrow> if trim c = [] then Inl (lit ''scheduled session chat id must not be empty'') else Inr (Some (trim c))) of
        Inl e \<Rightarrow> Inl e
      | Inr chat_id \<Rightarrow>
     (case or_else (prompt_model a) (map_option def_model definition) of
        None \<Rightarrow> Inl (lit ''scheduled agent prompt must specify modelId or agentDefinitionId'')
      | Some model_id \<Rightarrow>
          Inr \<lparr>qi_chat_id = chat_id, qi_model_id = model_id,
            qi_thinking = or_else (prompt_thinking a) (case definition of None \<Rightarrow> None | Some d \<Rightarrow> def_thinking d),
            qi_skills = prompt_skills a, qi_message = prompt, qi_team_mode = prompt_collaboration a,
            qi_definition = prompt_definition a, qi_task_id = task_id task, qi_run_id = run_id r,
            qi_trigger = trigger_reason\<rparr>)))))"

text \<open>The inputs of the scheduler from the rest of the program.\<close>

record SchedulerEnv =
  env_check_id :: "rstr \<Rightarrow> rstr + rstr"
  env_definitions :: "AgentDefinitionView list"
  env_queue :: "rstr \<Rightarrow> QueueChatInput \<Rightarrow> rstr + QueuedChat"
  env_parse :: "rstr \<Rightarrow> instant option"
  env_valid :: "instant \<Rightarrow> bool"
  env_now :: instant
  env_new_run_id :: "rstr \<Rightarrow> ScheduleDb \<Rightarrow> rstr"

definition dispatch_scheduled_task_run :: "SchedulerEnv \<Rightarrow> rstr \<Rightarrow> ScheduledTask \<Rightarrow> ScheduledRun \<Rightarrow> rstr \<Rightarrow> ScheduleDb
    \<Rightarrow> (rstr + ScheduledRun) \<times> ScheduleDb" where
  "dispatch_scheduled_task_run env ws task r trigger_reason db =
     (case scheduled_queue_input (env_check_id env) (env_definitions env) task r trigger_reason of
        Inl e \<Rightarrow> (Inl e, db)
      | Inr input \<Rightarrow>
     (case env_queue env ws input of
        Inl e \<Rightarrow> (let r' = mark_scheduled_run_failed (millis (env_now env)) e r in (Inr r', update_run r' db))
      | Inr q \<Rightarrow>
          (let r' = r\<lparr>run_status := RunQueued, run_queued_at := Some (millis (env_now env)), run_completed_at := None,
                run_chat_id := Some (queued_chat_id q), run_user_message_id := Some (queued_message_id q),
                run_agent_task_id := queued_agent_task q, run_active_run_id := queued_agent_task q,
                run_error_message := None\<rparr>
           in (Inr r', update_run r' db))))"

section \<open>Reconciliation and the scan\<close>

datatype ScanEnd = ScanDone | ScanFailed rstr | ScanPanicked

text \<open>The runs are those that were active when the loop began.\<close>

fun reconcile_loop :: "SchedulerEnv \<Rightarrow> rstr \<Rightarrow> ScheduledRun list \<Rightarrow> ScheduleDb \<Rightarrow> ScanEnd \<times> ScheduleDb" where
  "reconcile_loop env ws [] db = (ScanDone, db)"
| "reconcile_loop env ws (r # rs) db =
     (if run_agent_task_id r \<noteq> None
      then reconcile_loop env ws rs (snd (sync_scheduled_task_run (millis (env_now env)) r db))
      else if run_status r = RunPending then
        (case find (\<lambda>t. task_id t = run_task_id r) (db_tasks db) of
           Some task \<Rightarrow>
             (case dispatch_scheduled_task_run env ws task r (run_trigger r) db of
                (Inl e, db') \<Rightarrow> (ScanFailed e, db')
              | (Inr _, db') \<Rightarrow> reconcile_loop env ws rs db')
         | None \<Rightarrow> reconcile_loop env ws rs (update_run (mark_scheduled_run_failed (millis (env_now env))
             (lit ''scheduled task was not found during reconciliation'') r) db))
      else reconcile_loop env ws rs (update_run (mark_scheduled_run_failed (millis (env_now env))
             (lit ''scheduled run is missing linked Agent task'') r) db))"

definition reconcile_workspace :: "SchedulerEnv \<Rightarrow> rstr \<Rightarrow> ScheduleDb \<Rightarrow> ScanEnd \<times> ScheduleDb" where
  "reconcile_workspace env ws db = reconcile_loop env ws (active_scheduled_task_runs db) db"

definition RETENTION :: int where "RETENTION = 90 * 24 * 3600 * NANOS"

definition prune_workspace :: "SchedulerEnv \<Rightarrow> rstr \<Rightarrow> ScheduleDb \<Rightarrow> ScanEnd \<times> ScheduleDb" where
  "prune_workspace env ws db =
     (if \<not> env_valid env (env_now env - RETENTION) then (ScanFailed (lit ''scheduled run retention cutoff overflowed''), db)
      else (ScanDone, delete_old_scheduled_task_runs (millis (env_now env - RETENTION)) db))"

definition is_due :: "instant \<Rightarrow> ScheduledTask \<Rightarrow> bool" where
  "is_due now t \<longleftrightarrow> (\<exists>m. task_next_run_at t = Some m \<and> m * 1000000 \<le> now)"

definition next_due_task :: "instant \<Rightarrow> ScheduleDb \<Rightarrow> ScheduledTask option" where
  "next_due_task now db = find (is_due now) (enabled_tasks db)"

fun schedule_error_text :: "ScheduledTaskError \<Rightarrow> rstr" where
  "schedule_error_text (InvalidTimestamp field v) = field @ lit '' must be an RFC 3339 timestamp: '' @ v"
| "schedule_error_text (InvalidInterval e) = lit ''interval every_seconds must be between 1 and i64::MAX seconds, got '' @ nat_display e"
| "schedule_error_text TimestampOverflow = lit ''scheduled timestamp is out of range''"
| "schedule_error_text CronUnsupported = lit ''cron schedules are deferred for MVP; one_shot_at and interval are supported''"

definition next_task_state :: "SchedulerEnv \<Rightarrow> ScheduledTask \<Rightarrow> (rstr + ScheduledStatus \<times> int option) option" where
  "next_task_state env t =
     (case task_schedule t of
        Inl e \<Rightarrow> Some (Inl (lit ''scheduled task has invalid schedule JSON: '' @ e))
      | Inr spec \<Rightarrow>
     (case next_run_after (env_parse env) (env_valid env) spec (env_now env) of
        None \<Rightarrow> None
      | Some (Inl e) \<Rightarrow> Some (Inl (schedule_error_text e))
      | Some (Inr next) \<Rightarrow> Some (Inr (if next \<noteq> None then SchEnabled else SchCompleted, map_option millis next))))"

text \<open>The claim of a task: a run that is to be queued, or one that is skipped because another is active.\<close>

definition scan_claim :: "SchedulerEnv \<Rightarrow> rstr \<Rightarrow> ConcurrencyPolicy \<Rightarrow> ScheduledStatus \<Rightarrow> int option \<Rightarrow> ScheduledTask
    \<Rightarrow> ScheduleDb \<Rightarrow> RunClaim" where
  "scan_claim env ws policy st next task db =
     (let now = millis (env_now env);
          skip = (policy = SkipIfRunning \<and> active_scheduled_task_run_count db (task_id task) > 0)
      in \<lparr>claim_task_id = task_id task, claim_expected = the (task_next_run_at task),
          claim_run_id = env_new_run_id env ws db,
          claim_run_status = (if skip then RunSkipped else RunPending),
          claim_completed_at = (if skip then Some now else None),
          claim_error = (if skip then Some (lit ''skipped because a previous scheduled run is still active'') else None),
          claim_task_status = st, claim_next_run_at = next, claim_last_run_at = now\<rparr>)"

text \<open>At most \<open>n\<close> tasks of one workspace, each the first that is due.\<close>

fun scan_tasks :: "SchedulerEnv \<Rightarrow> rstr \<Rightarrow> nat \<Rightarrow> ScheduleDb \<Rightarrow> ScanEnd \<times> ScheduleDb" where
  "scan_tasks env ws 0 db = (ScanDone, db)"
| "scan_tasks env ws (Suc n) db =
     (case next_due_task (env_now env) db of
        None \<Rightarrow> (ScanDone, db)
      | Some task \<Rightarrow>
     (case task_policy task of
        Inl e \<Rightarrow> (ScanFailed e, db)
      | Inr policy \<Rightarrow>
     (case next_task_state env task of
        None \<Rightarrow> (ScanPanicked, db)
      | Some (Inl e) \<Rightarrow> (ScanFailed e, db)
      | Some (Inr (st, next)) \<Rightarrow>
     (case claim_due_scheduled_task_run (scan_claim env ws policy st next task db) db of
        (None, db') \<Rightarrow> scan_tasks env ws n db'
      | (Some r, db') \<Rightarrow>
          if run_status r = RunPending then
            (case dispatch_scheduled_task_run env ws task r (lit ''scheduled'') db' of
               (Inl e, db'') \<Rightarrow> (ScanFailed e, db'')
             | (Inr _, db'') \<Rightarrow> scan_tasks env ws n db'')
          else scan_tasks env ws n db'))))"

definition SCHEDULED_TASK_SCAN_LIMIT :: nat where "SCHEDULED_TASK_SCAN_LIMIT = 64"

text \<open>The workspaces one after the other; one without a directory is passed over, and the first error
  ends the whole.\<close>

type_synonym ScheduleWorld = "(rstr \<times> ScheduleDb option) list"

fun for_workspaces :: "(rstr \<Rightarrow> ScheduleDb \<Rightarrow> ScanEnd \<times> ScheduleDb) \<Rightarrow> ScheduleWorld \<Rightarrow> ScanEnd \<times> ScheduleWorld" where
  "for_workspaces f [] = (ScanDone, [])"
| "for_workspaces f ((ws, None) # rest) =
     (case for_workspaces f rest of (e, rest') \<Rightarrow> (e, (ws, None) # rest'))"
| "for_workspaces f ((ws, Some db) # rest) =
     (case f ws db of
        (ScanDone, db') \<Rightarrow> (case for_workspaces f rest of (e, rest') \<Rightarrow> (e, (ws, Some db') # rest'))
      | (e, db') \<Rightarrow> (e, (ws, Some db') # rest))"

definition dispatch_due_scheduled_tasks :: "SchedulerEnv \<Rightarrow> ScheduleWorld \<Rightarrow> ScanEnd \<times> ScheduleWorld" where
  "dispatch_due_scheduled_tasks env world =
     (case for_workspaces (reconcile_workspace env) world of
        (ScanDone, w1) \<Rightarrow>
          (case for_workspaces (prune_workspace env) w1 of
             (ScanDone, w2) \<Rightarrow> for_workspaces (\<lambda>ws. scan_tasks env ws SCHEDULED_TASK_SCAN_LIMIT) w2
           | r \<Rightarrow> r)
      | r \<Rightarrow> r)"

text \<open>The wait before the next scan, in milliseconds.\<close>

definition scheduled_task_scan_delay :: "instant \<Rightarrow> instant option \<Rightarrow> int" where
  "scheduled_task_scan_delay now next_run_at =
     (let idle = 300 * 1000
      in case next_run_at of
           None \<Rightarrow> idle
         | Some t \<Rightarrow>
             if t \<le> now then 1000
             else (let millis_until_due = (t - now) div 1000000
                   in if millis_until_due \<le> 0 then 1000 else min idle millis_until_due))"

section \<open>Explicit runs and cancellation\<close>

definition run_scheduled_task_now :: "SchedulerEnv \<Rightarrow> rstr \<Rightarrow> rstr \<Rightarrow> ScheduleDb \<Rightarrow> (rstr + ScheduledRun) \<times> ScheduleDb" where
  "run_scheduled_task_now env ws tid db =
     (case find (\<lambda>t. task_id t = tid) (db_tasks db) of
        None \<Rightarrow> (Inl (lit ''scheduled task was not found: '' @ tid), db)
      | Some task \<Rightarrow>
          if task_status task = SchArchived then (Inl (lit ''archived scheduled tasks cannot be run manually''), db)
          else (let now = millis (env_now env);
                    r = new_run (env_new_run_id env ws db) tid (lit ''manual'') RunPending now None None;
                    db' = db\<lparr>db_runs := db_runs db @ [r],
                      db_tasks := map (\<lambda>t. if task_id t = tid then t\<lparr>task_last_run_at := Some now\<rparr> else t) (db_tasks db)\<rparr>
                in dispatch_scheduled_task_run env ws task r (lit ''manual'') db'))"

section \<open>Rows that an operation leaves alone\<close>

lemma update_run_tasks [simp]: "db_tasks (update_run r db) = db_tasks db"
  by (simp add: update_run_def)

lemma update_run_ids [simp]: "map run_id (db_runs (update_run r db)) = map run_id (db_runs db)"
  by (simp add: update_run_def)

lemma update_run_other: "x \<in> set (db_runs db) \<Longrightarrow> run_id x \<noteq> run_id r \<Longrightarrow> x \<in> set (db_runs (update_run r db))"
  by (force simp: update_run_def)

lemma marked_id [simp]: "run_id (mark_scheduled_run_failed now m r) = run_id r"
  "run_id (sync_scheduled_task_run_with_task i t r) = run_id r"
  by (simp_all add: mark_scheduled_run_failed_def sync_scheduled_task_run_with_task_def)

text \<open>An operation that works on the row of one run: the tasks, the identifiers and all other rows stay.\<close>

definition touches_run :: "rstr \<Rightarrow> ScheduleDb \<Rightarrow> ScheduleDb \<Rightarrow> bool" where
  "touches_run i db db' \<longleftrightarrow> db_tasks db' = db_tasks db \<and> map run_id (db_runs db') = map run_id (db_runs db)
     \<and> (\<forall>x \<in> set (db_runs db). run_id x \<noteq> i \<longrightarrow> x \<in> set (db_runs db'))"

lemma touches_update: "run_id r = i \<Longrightarrow> touches_run i db (update_run r db)"
  by (auto simp: touches_run_def intro: update_run_other)

lemma touches_refl [simp]: "touches_run i db db"
  by (simp add: touches_run_def)

lemma touches_sync: "touches_run (run_id r) db (snd (sync_scheduled_task_run now r db))"
  by (auto simp: sync_scheduled_task_run_def Let_def intro!: touches_update split: option.split)

lemma touches_dispatch: "touches_run (run_id r) db (snd (dispatch_scheduled_task_run env ws t r reason db))"
  by (auto simp: dispatch_scheduled_task_run_def Let_def intro!: touches_update split: sum.split)

section \<open>A run that cannot be queued stops the scheduler\<close>

text \<open>A pending run whose request cannot be built, for example because the agent definition of its task
  was deleted.\<close>

definition unbuildable :: "SchedulerEnv \<Rightarrow> ScheduleDb \<Rightarrow> ScheduledRun \<Rightarrow> bool" where
  "unbuildable env db r \<longleftrightarrow> run_status r = RunPending \<and> run_agent_task_id r = None \<and>
     (\<exists>t e. find (\<lambda>t. task_id t = run_task_id r) (db_tasks db) = Some t
       \<and> scheduled_queue_input (env_check_id env) (env_definitions env) t r (run_trigger r) = Inl e)"

lemma unbuildable_dispatch:
  assumes "unbuildable env db r"
  shows "\<exists>e. reconcile_loop env ws (r # rs) db = (ScanFailed e, db)"
  using assms by (auto simp: unbuildable_def dispatch_scheduled_task_run_def)

text \<open>One step of the loop.\<close>

lemma reconcile_step:
  "(\<exists>e db'. reconcile_loop env ws (x # rs) db = (ScanFailed e, db') \<and> touches_run (run_id x) db db')
   \<or> (\<exists>db'. reconcile_loop env ws (x # rs) db = reconcile_loop env ws rs db' \<and> touches_run (run_id x) db db')"
proof -
  have fail: "touches_run (run_id x) db (update_run (mark_scheduled_run_failed now m x) db)" for now m
    by (rule touches_update) simp
  note sync = touches_sync [of x db "millis (env_now env)"]
  have disp: "touches_run (run_id x) db (snd (dispatch_scheduled_task_run env ws t x reason db))" for t reason
    by (rule touches_dispatch)
  show ?thesis
  proof (cases "run_agent_task_id x = None \<and> run_status x = RunPending")
    case False
    with fail sync show ?thesis by auto
  next
    case True
    show ?thesis
    proof (cases "find (\<lambda>t. task_id t = run_task_id x) (db_tasks db)")
      case None
      with True fail show ?thesis by auto
    next
      case (Some t)
      with True disp [of t "run_trigger x"] show ?thesis
        by (cases "dispatch_scheduled_task_run env ws t x (run_trigger x) db"; cases "fst (dispatch_scheduled_task_run env ws t x (run_trigger x) db)") auto
    qed
  qed
qed

definition same_rows :: "ScheduleDb \<Rightarrow> ScheduleDb \<Rightarrow> bool" where
  "same_rows db db' \<longleftrightarrow> db_tasks db' = db_tasks db \<and> map run_id (db_runs db') = map run_id (db_runs db)"

lemma reconcile_same: "same_rows db (snd (reconcile_loop env ws rs db))"
proof (induction rs arbitrary: db)
  case Nil
  then show ?case by (simp add: same_rows_def)
next
  case (Cons x rs)
  from reconcile_step [of env ws x rs db] show ?case
  proof (elim disjE exE conjE)
    fix e db' assume "reconcile_loop env ws (x # rs) db = (ScanFailed e, db')" "touches_run (run_id x) db db'"
    then show ?thesis by (simp add: same_rows_def touches_run_def)
  next
    fix db' assume r: "reconcile_loop env ws (x # rs) db = reconcile_loop env ws rs db'" "touches_run (run_id x) db db'"
    from Cons.IH [of db'] r(2) show ?thesis unfolding r(1) by (simp add: same_rows_def touches_run_def)
  qed
qed

lemma reconcile_fails:
  assumes "unbuildable env db r" "r \<in> set rs" "r \<in> set (db_runs db)" "distinct (map run_id rs)"
  shows "\<exists>e db'. reconcile_loop env ws rs db = (ScanFailed e, db') \<and> r \<in> set (db_runs db')"
  using assms
proof (induction rs arbitrary: db)
  case (Cons x rs)
  show ?case
  proof (cases "x = r")
    case True
    with unbuildable_dispatch [OF Cons.prems(1), of ws rs] Cons.prems(3) show ?thesis by auto
  next
    case False
    with Cons.prems have r: "r \<in> set rs" "run_id r \<noteq> run_id x" by (auto simp: image_iff)
    from reconcile_step [of env ws x rs db] show ?thesis
    proof (elim disjE exE conjE)
      fix e db' assume "reconcile_loop env ws (x # rs) db = (ScanFailed e, db')" "touches_run (run_id x) db db'"
      with r Cons.prems(3) show ?thesis by (auto simp: touches_run_def)
    next
      fix db' assume step: "reconcile_loop env ws (x # rs) db = reconcile_loop env ws rs db'" "touches_run (run_id x) db db'"
      have "unbuildable env db' r" using Cons.prems(1) step(2) by (simp add: unbuildable_def touches_run_def)
      moreover have "r \<in> set (db_runs db')" using r Cons.prems(3) step(2) by (auto simp: touches_run_def)
      ultimately show ?thesis unfolding step(1) using Cons.IH r Cons.prems(4) by simp
    qed
  qed
qed simp

definition same_world :: "ScheduleWorld \<Rightarrow> ScheduleWorld \<Rightarrow> bool" where
  "same_world = list_all2 (\<lambda>(ws, d) (ws', d'). ws = ws' \<and> rel_option same_rows d d')"

lemma same_world_refl: "same_world w w"
  by (auto simp: same_world_def list_all2_same rel_option_iff same_rows_def split: option.split)

lemma for_workspaces_same:
  "(\<And>ws db. same_rows db (snd (f ws db))) \<Longrightarrow> same_world w (snd (for_workspaces f w))"
proof (induction f w rule: for_workspaces.induct)
  case (3 f ws db rest)
  have "same_rows db (snd (f ws db))" by (rule "3.prems")
  moreover have "same_world rest (snd (for_workspaces f rest))" if "fst (f ws db) = ScanDone"
    using "3.IH" "3.prems" that by (cases "f ws db") auto
  ultimately show ?case using same_world_refl [of rest]
    by (auto simp: same_world_def split: prod.splits ScanEnd.splits)
qed (auto simp: same_world_def split: prod.splits)

lemma for_workspaces_fails:
  assumes "(ws, Some db) \<in> set w" "\<exists>e db'. f ws db = (ScanFailed e, db') \<and> P db'"
  shows "fst (for_workspaces f w) \<noteq> ScanDone \<and> (\<exists>db'. (ws, Some db') \<in> set (snd (for_workspaces f w)) \<and> (P db' \<or> db' = db))"
  using assms(1)
proof (induction w)
  case (Cons x w)
  obtain i d where x: "x = (i, d)" by fastforce
  show ?case
  proof (cases "x = (ws, Some db)")
    case True
    with assms(2) show ?thesis by auto
  next
    case False
    with Cons.prems have in_w: "(ws, Some db) \<in> set w" by simp
    show ?thesis
    proof (cases d)
      case None
      with Cons.IH [OF in_w] x show ?thesis by (auto split: prod.splits)
    next
      case (Some d')
      show ?thesis
      proof (cases "f i d'")
        case (Pair e d'')
        with Cons.IH [OF in_w] in_w x Some show ?thesis
          by (cases e) (auto split: prod.splits)
      qed
    qed
  qed
qed simp

text \<open>C26: If any workspace has a pending run whose request cannot be built, the whole scan fails in every
  workspace: no due task of any workspace is claimed, no run is created, and the run is still pending
  afterwards, so that the next scan fails in the same way until somebody removes it.\<close>

theorem unbuildable_run_stops_scheduler:
  assumes world: "(ws, Some db) \<in> set world" and run: "r \<in> set (db_runs db)" "unbuildable env db r"
    and ids: "distinct (map run_id (db_runs db))"
  shows "\<exists>e world' db'. dispatch_due_scheduled_tasks env world = (e, world') \<and> e \<noteq> ScanDone
    \<and> same_world world world' \<and> (ws, Some db') \<in> set world' \<and> r \<in> set (db_runs db')"
proof -
  have "run_is_active r" using run(2) by (simp add: unbuildable_def run_is_active_def)
  then have "r \<in> set (active_scheduled_task_runs db)" using run(1) by (simp add: active_scheduled_task_runs_def)
  moreover have "distinct (map run_id (active_scheduled_task_runs db))"
  proof -
    have "mset (active_scheduled_task_runs db) = mset (filter run_is_active (db_runs db))"
      by (simp add: active_scheduled_task_runs_def)
    then have "mset (map run_id (active_scheduled_task_runs db)) = mset (map run_id (filter run_is_active (db_runs db)))"
      by (metis mset_map)
    moreover have "distinct (map run_id (filter run_is_active (db_runs db)))"
      using ids by (simp add: distinct_map inj_on_def)
    ultimately show ?thesis by (metis mset_eq_imp_distinct_iff)
  qed
  ultimately have fails: "\<exists>e db'. reconcile_workspace env ws db = (ScanFailed e, db') \<and> r \<in> set (db_runs db')"
    unfolding reconcile_workspace_def using reconcile_fails [OF run(2) _ run(1)] by blast
  let ?w = "for_workspaces (reconcile_workspace env) world"
  have "fst ?w \<noteq> ScanDone \<and> (\<exists>db'. (ws, Some db') \<in> set (snd ?w) \<and> (r \<in> set (db_runs db') \<or> db' = db))"
    by (rule for_workspaces_fails [where P = "\<lambda>db'. r \<in> set (db_runs db')" and f = "reconcile_workspace env", OF world fails])
  moreover have "same_world world (snd ?w)"
    by (rule for_workspaces_same) (simp add: reconcile_workspace_def reconcile_same)
  moreover have "dispatch_due_scheduled_tasks env world = ?w" if "fst ?w \<noteq> ScanDone"
    using that by (cases ?w; cases "fst ?w") (auto simp: dispatch_due_scheduled_tasks_def)
  ultimately show ?thesis using run(1) by (metis prod.collapse)
qed

definition sample_prompt :: AgentPrompt where
  "sample_prompt = \<lparr>prompt_text = lit ''go'', prompt_session = CreateNewChat, prompt_definition = Some (lit ''gone''),
     prompt_model = None, prompt_thinking = None, prompt_skills = [], prompt_collaboration = False\<rparr>"

definition sample_task :: "rstr \<Rightarrow> ScheduledTask" where
  "sample_task i = \<lparr>task_id = i, task_schedule = Inr (Interval 60 None), task_action = Inr sample_prompt,
     task_policy = Inr ForceRun, task_status = SchEnabled, task_next_run_at = Some 0, task_last_run_at = None\<rparr>"

definition sample_env :: SchedulerEnv where
  "sample_env = \<lparr>env_check_id = Inr, env_definitions = [], env_queue = (\<lambda>_ _. Inl []), env_parse = (\<lambda>_. None),
     env_valid = (\<lambda>_. True), env_now = 1000000, env_new_run_id = (\<lambda>_ _. lit ''r2'')\<rparr>"

theorem unbuildable_run_stops_scheduler_witness:
  "let r = new_run (lit ''r1'') (lit ''t'') (lit ''scheduled'') RunPending 0 None None;
       broken = \<lparr>db_tasks = [sample_task (lit ''t'')], db_runs = [r], db_agent_tasks = (\<lambda>_. None)\<rparr>
   in \<forall>fine. fst (dispatch_due_scheduled_tasks sample_env [(lit ''a'', Some fine), (lit ''b'', Some broken)]) \<noteq> ScanDone"
proof -
  define r where "r = new_run (lit ''r1'') (lit ''t'') (lit ''scheduled'') RunPending 0 None None"
  define broken where "broken = \<lparr>db_tasks = [sample_task (lit ''t'')], db_runs = [r], db_agent_tasks = (\<lambda>_. None)\<rparr>"
  have "unbuildable sample_env broken r"
    by (simp add: unbuildable_def broken_def r_def new_run_def sample_task_def scheduled_queue_input_def
        sample_prompt_def scheduled_agent_definition_def sample_env_def)
  then have "fst (dispatch_due_scheduled_tasks sample_env [(lit ''a'', Some fine), (lit ''b'', Some broken)]) \<noteq> ScanDone" for fine
    using unbuildable_run_stops_scheduler [of "lit ''b''" broken "[(lit ''a'', Some fine), (lit ''b'', Some broken)]" r sample_env]
    by (auto simp: broken_def)
  then show ?thesis by (simp add: Let_def broken_def r_def)
qed

section \<open>A scan claims every due task once\<close>

text \<open>The rows keep milliseconds. What the scan needs of its data is that no instant of an enabled task
  lies in what is left of the present millisecond: such an instant is after now, and its text is not.
  Schedules that start at whole milliseconds never have one.\<close>

definition clear_of_this_millisecond :: "SchedulerEnv \<Rightarrow> ScheduledTask \<Rightarrow> bool" where
  "clear_of_this_millisecond env t \<longleftrightarrow>
     (\<forall>spec. task_schedule t = Inr spec \<longrightarrow>
        (\<forall>u \<in> due_times (env_parse env) spec (env_now env). env_now env < u \<longrightarrow> millis (env_now env) < millis u))"

definition rows_clear :: "SchedulerEnv \<Rightarrow> ScheduleDb \<Rightarrow> bool" where
  "rows_clear env db \<longleftrightarrow> (\<forall>t \<in> set (db_tasks db). task_status t = SchEnabled \<longrightarrow> clear_of_this_millisecond env t)"

lemma millis_whole: "1000000 dvd t \<Longrightarrow> millis t * 1000000 = t"
  by (simp add: millis_def)

lemma millis_less: "millis now < m \<Longrightarrow> now < m * 1000000"
  by (simp add: millis_def div_less_iff_less_mult)

lemma millis_later: "now + 1000000 \<le> t \<Longrightarrow> millis now < millis t"
  using zdiv_mono1 [of "now + 1000000" t 1000000] by (simp add: millis_def)

text \<open>The instant that a schedule names, if its text is read.\<close>

fun schedule_start :: "(rstr \<Rightarrow> instant option) \<Rightarrow> ScheduleSpec \<Rightarrow> instant option" where
  "schedule_start parse (OneShotAt x) = parse x"
| "schedule_start parse (Interval e (Some x)) = parse x"
| "schedule_start parse (Interval e None) = None"
| "schedule_start parse (Cron x z) = None"

lemma whole_start_clear:
  assumes "\<And>spec a. task_schedule t = Inr spec \<Longrightarrow> schedule_start (env_parse env) spec = Some a \<Longrightarrow> 1000000 dvd a"
  shows "clear_of_this_millisecond env t"
  unfolding clear_of_this_millisecond_def
proof (intro allI impI ballI)
  fix spec u
  let ?now = "env_now env"
  assume spec: "task_schedule t = Inr spec" and u: "u \<in> due_times (env_parse env) spec ?now" "?now < u"
  have nanos: "1000000 dvd NANOS" by (simp add: NANOS_def)
  show "millis ?now < millis u"
  proof (cases "schedule_start (env_parse env) spec")
    case (Some a)
    then have "1000000 dvd a" using assms spec by blast
    with u Some nanos have "1000000 dvd u"
      by (cases "(env_parse env, spec)" rule: schedule_start.cases) (auto simp: due_times_def)
    then obtain k where "u = 1000000 * k" ..
    with u(2) show ?thesis by (simp add: millis_def div_less_iff_less_mult)
  next
    case None
    with u obtain e k where k: "u = ?now + int (Suc k) * int e * NANOS"
      by (cases "(env_parse env, spec)" rule: schedule_start.cases) (auto simp: due_times_def)
    with u(2) have "0 < int (Suc k) * int e" using NANOS_pos by (simp add: zero_less_mult_iff)
    then have "1 * NANOS \<le> int (Suc k) * int e * NANOS" by (intro mult_right_mono) (auto simp: NANOS_def)
    then have "?now + NANOS \<le> u" unfolding k by linarith
    then show ?thesis by (intro millis_later) (simp add: NANOS_def)
  qed
qed

lemma interval_due:
  assumes "interval_next_run parse valid e s now = Some (Inr u)"
  shows "u \<in> due_times parse (Interval e s) now \<and> now < u"
proof -
  have e: "0 < int e" using assms by (auto simp: interval_next_run_def split: if_splits)
  show ?thesis
  proof (cases s)
    case None
    from assms e have "u = now + int (Suc 0) * int e * NANOS"
      by (auto simp: None interval_next_run_def checked_add_def duration_seconds_def NANOS_def split: if_splits)
    moreover from this have "now < u" using e NANOS_pos by simp
    ultimately show ?thesis unfolding due_times_def None by auto
  next
    case (Some x)
    let ?k = "\<lambda>a. (now - a) div NANOS div int e + 1"
    from assms obtain a where a: "parse x = Some a"
      "(now < a \<and> u = a) \<or> (a \<le> now \<and> u = a + ?k a * int e * NANOS)"
      by (auto simp: Some interval_next_run_def parse_utc_timestamp_def checked_add_def duration_seconds_def Let_def
          not_less split: if_splits option.splits)
    have "\<exists>k. u = a + int k * int e * NANOS"
      using a(2)
    proof
      assume "now < a \<and> u = a"
      then show ?thesis by (intro exI [of _ 0]) simp
    next
      assume "a \<le> now \<and> u = a + ?k a * int e * NANOS"
      with first_after(2) [OF e, of a now] show ?thesis by (intro exI [of _ "nat (?k a)"]) simp
    qed
    moreover have "now < u" using a(2) first_after(1) [OF e, of a now] by auto
    ultimately show ?thesis using a(1) by (auto simp: due_times_def Some)
  qed
qed

lemma next_state_later:
  assumes clear: "clear_of_this_millisecond env t" and st: "next_task_state env t = Some (Inr (st, upcoming))"
  shows "(\<exists>m. upcoming = Some m \<and> env_now env < m * 1000000) \<or> (upcoming = None \<and> st = SchCompleted)"
proof (cases upcoming)
  case None
  with st show ?thesis by (auto simp: next_task_state_def split: sum.splits option.splits)
next
  case (Some m)
  with st obtain spec u where spec: "task_schedule t = Inr spec" and m: "m = millis u"
    and run: "next_run_after (env_parse env) (env_valid env) spec (env_now env) = Some (Inr (Some u))"
    by (auto simp: next_task_state_def split: sum.splits option.splits)
  have "u \<in> due_times (env_parse env) spec (env_now env) \<and> env_now env < u"
  proof (cases spec)
    case (OneShotAt x)
    with run show ?thesis
      by (auto simp: next_run_after_def parse_utc_timestamp_def due_times_def split: option.splits if_splits)
  next
    case (Cron x z)
    with run show ?thesis by (simp add: next_run_after_def)
  next
    case (Interval e s)
    with run obtain z where "interval_next_run (env_parse env) (env_valid env) e s (env_now env) = Some z"
      "map_sum id Some z = Inr (Some u)" by (auto simp: next_run_after_def)
    with Interval show ?thesis using interval_due by (cases z) auto
  qed
  with clear spec have "millis (env_now env) < millis u" by (auto simp: clear_of_this_millisecond_def)
  with Some m show ?thesis using millis_less by blast
qed

text \<open>The tasks that are due, with the instants for which they are.\<close>

definition due_slots :: "instant \<Rightarrow> ScheduleDb \<Rightarrow> (rstr \<times> int) set" where
  "due_slots now db = (\<lambda>t. (task_id t, the (task_next_run_at t))) `
     {t \<in> set (db_tasks db). task_status t = SchEnabled \<and> is_due now t}"

lemma set_enabled_tasks: "set (enabled_tasks db) = {t \<in> set (db_tasks db). task_status t = SchEnabled}"
  by (auto simp: enabled_tasks_def Let_def)

lemma next_due_None: "next_due_task now db = None \<longleftrightarrow> due_slots now db = {}"
  by (auto simp: next_due_task_def find_None_iff set_enabled_tasks due_slots_def)

lemma next_due_Some: "next_due_task now db = Some t \<Longrightarrow> t \<in> set (db_tasks db) \<and> task_status t = SchEnabled \<and> is_due now t"
proof -
  assume "next_due_task now db = Some t"
  then have "t \<in> set (enabled_tasks db) \<and> is_due now t"
    unfolding next_due_task_def by (auto simp: find_Some_iff)
  then show ?thesis by (simp add: set_enabled_tasks)
qed

lemma due_slots_functional:
  assumes "distinct (map task_id (db_tasks db))" "(i, m) \<in> due_slots now db" "(i, m') \<in> due_slots now db"
  shows "m = m'"
proof -
  from assms(2,3) obtain t t' where t: "t \<in> set (db_tasks db)" "t' \<in> set (db_tasks db)" "task_id t = task_id t'"
    "m = the (task_next_run_at t)" "m' = the (task_next_run_at t')"
    by (auto simp: due_slots_def)
  then have "t = t'" using assms(1) inj_onD [of task_id "set (db_tasks db)" t t'] by (simp add: distinct_map)
  with t show ?thesis by simp
qed

text \<open>The task and the slot of a run; new identifiers are new.\<close>

definition run_key :: "ScheduledRun \<Rightarrow> rstr \<times> int" where
  "run_key r = (run_task_id r, run_scheduled_at r)"

definition fresh_ids :: "SchedulerEnv \<Rightarrow> bool" where
  "fresh_ids env \<longleftrightarrow> (\<forall>ws db. env_new_run_id env ws db \<notin> run_id ` set (db_runs db))"

lemma dispatch_keys:
  assumes "db_runs db = rs @ [r]" "run_id r \<notin> run_id ` set rs"
  shows "map run_key (db_runs (snd (dispatch_scheduled_task_run env ws t r reason db))) = map run_key (db_runs db)"
    "db_tasks (snd (dispatch_scheduled_task_run env ws t r reason db)) = db_tasks db"
proof -
  have keep: "map run_key (db_runs (update_run r' db)) = map run_key (db_runs db)" if "run_id r' = run_id r" "run_key r' = run_key r" for r'
  proof -
    have "map (\<lambda>x. if run_id x = run_id r' then r' else x) rs = rs"
      using assms(2) that(1) by (intro map_idI) (metis image_eqI)
    then show ?thesis using assms(1) that by (simp add: update_run_def)
  qed
  then show "map run_key (db_runs (snd (dispatch_scheduled_task_run env ws t r reason db))) = map run_key (db_runs db)"
    by (auto simp: dispatch_scheduled_task_run_def Let_def mark_scheduled_run_failed_def run_key_def split: sum.split)
  show "db_tasks (snd (dispatch_scheduled_task_run env ws t r reason db)) = db_tasks db"
    by (auto simp: dispatch_scheduled_task_run_def Let_def split: sum.split)
qed

text \<open>Moving a task past now takes it, and it alone, from the due ones.\<close>

lemma due_slots_claimed:
  assumes "distinct (map task_id (db_tasks db))" "t \<in> set (db_tasks db)"
    and rows: "db_tasks db' = map (\<lambda>x. if claimable cl x then f x else x) (db_tasks db)"
    and cl: "claimable cl t" "\<And>x. task_id (f x) = task_id x" "\<And>x. task_status (f x) = SchEnabled \<Longrightarrow> \<not> is_due now (f x)"
  shows "due_slots now db' = due_slots now db - {(task_id t, the (task_next_run_at t))}"
    "map task_id (db_tasks db') = map task_id (db_tasks db)"
proof -
  have uniq: "x = t" if "x \<in> set (db_tasks db)" "task_id x = task_id t" for x
    using assms(1,2) that inj_onD [of task_id "set (db_tasks db)" x t] by (simp add: distinct_map)
  then have only: "claimable cl x \<longleftrightarrow> x = t" if "x \<in> set (db_tasks db)" for x
    using cl(1) that by (auto simp: claimable_def)
  have "due_slots now db' = (\<lambda>x. (task_id x, the (task_next_run_at x))) `
      {x \<in> set (db_tasks db). x \<noteq> t \<and> task_status x = SchEnabled \<and> is_due now x}"
    unfolding due_slots_def rows using only cl(3) by (fastforce simp: image_iff)
  also have "\<dots> = due_slots now db - {(task_id t, the (task_next_run_at t))}"
    unfolding due_slots_def using uniq by (auto simp: image_iff)
  finally show "due_slots now db' = due_slots now db - {(task_id t, the (task_next_run_at t))}" .
  show "map task_id (db_tasks db') = map task_id (db_tasks db)"
    unfolding rows using cl(2) by simp
qed

lemma scan_step:
  assumes clear: "rows_clear env db" and ids: "distinct (map task_id (db_tasks db))" and fresh: "fresh_ids env"
    and run: "scan_tasks env ws (Suc n) db = (ScanDone, db')" and due: "next_due_task (env_now env) db = Some t"
  shows "\<exists>db1 m. scan_tasks env ws n db1 = (ScanDone, db') \<and> task_next_run_at t = Some m \<and> m * 1000000 \<le> env_now env
    \<and> map run_key (db_runs db1) = map run_key (db_runs db) @ [(task_id t, m)]
    \<and> due_slots (env_now env) db1 = due_slots (env_now env) db - {(task_id t, m)}
    \<and> map task_id (db_tasks db1) = map task_id (db_tasks db) \<and> rows_clear env db1"
proof -
  let ?now = "env_now env"
  note t = next_due_Some [OF due]
  then obtain m where m: "task_next_run_at t = Some m" "m * 1000000 \<le> ?now" by (auto simp: is_due_def)
  from run due obtain policy st upcoming where policy: "task_policy t = Inr policy"
    and state: "next_task_state env t = Some (Inr (st, upcoming))"
    by (auto split: sum.splits option.splits)
  define cl where "cl = scan_claim env ws policy st upcoming t db"
  have cl: "claim_task_id cl = task_id t" "claim_expected cl = m" "claim_run_id cl = env_new_run_id env ws db"
    "claim_task_status cl = st" "claim_next_run_at cl = upcoming" "claim_last_run_at cl = millis ?now"
    by (simp_all add: cl_def scan_claim_def Let_def m)
  have "m \<le> millis ?now" using m(2) zdiv_mono1 [of "m * 1000000" ?now 1000000] by (simp add: millis_def)
  then have able: "claimable cl t" using t m by (simp add: claimable_def cl)
  then have "list_ex (claimable cl) (db_tasks db)" using t by (auto simp: list_ex_iff)
  then obtain r db0 where claim: "claim_due_scheduled_task_run cl db = (Some r, db0)"
    and r: "run_key r = (task_id t, m)" "run_id r = env_new_run_id env ws db" and runs: "db_runs db0 = db_runs db @ [r]"
    and tasks: "db_tasks db0 = map (\<lambda>x. if claimable cl x then x\<lparr>task_status := st, task_next_run_at := upcoming,
        task_last_run_at := Some (millis ?now)\<rparr> else x) (db_tasks db)"
    by (simp add: claim_due_scheduled_task_run_def Let_def new_run_def run_key_def cl)
  have new: "run_id r \<notin> run_id ` set (db_runs db)" using fresh r(2) by (simp add: fresh_ids_def)
  let ?disp = "dispatch_scheduled_task_run env ws t r (lit ''scheduled'') db0"
  define db1 where "db1 = (if run_status r = RunPending then snd ?disp else db0)"
  have "scan_tasks env ws n db1 = (ScanDone, db')"
    using run due policy state claim
    by (cases "fst ?disp"; cases ?disp) (auto simp: cl_def [symmetric] db1_def split: if_splits)
  moreover have keys: "map run_key (db_runs db1) = map run_key (db_runs db) @ [(task_id t, m)]" "db_tasks db1 = db_tasks db0"
    using dispatch_keys [OF runs new] r(1) runs by (simp_all add: db1_def)
  moreover have "due_slots ?now db1 = due_slots ?now db - {(task_id t, m)}" "map task_id (db_tasks db1) = map task_id (db_tasks db)"
  proof -
    let ?f = "\<lambda>x. x\<lparr>task_status := st, task_next_run_at := upcoming, task_last_run_at := Some (millis ?now)\<rparr>"
    have rest: "task_status (?f x) = SchEnabled \<Longrightarrow> \<not> is_due ?now (?f x)" for x
      using next_state_later [OF _ state] clear t by (auto simp: is_due_def rows_clear_def)
    have "t \<in> set (db_tasks db)" using t by simp
    from due_slots_claimed [where f = ?f and now = ?now, OF ids this tasks able _ rest]
    show "due_slots ?now db1 = due_slots ?now db - {(task_id t, m)}" "map task_id (db_tasks db1) = map task_id (db_tasks db)"
      by (simp_all add: due_slots_def keys(2) m)
  qed
  moreover have "rows_clear env db1"
    using clear by (auto simp: rows_clear_def clear_of_this_millisecond_def keys(2) tasks claimable_def)
  ultimately show ?thesis using m by blast
qed

text \<open>C12: A scan of a workspace that ends without an error claims every task that was due once, in one run
  for the instant that the task showed, appends those runs to the rows and nothing else, and leaves every
  claimed task with a later next run or completed; it stops short only at the limit. Identifiers of tasks
  are keys and those of new runs are new. The rows must be
  such that no instant of an enabled task lies in what is left of the present millisecond, which holds
  at any time for schedules that start at whole milliseconds (\<open>whole_start_clear\<close>); a task with such an
  instant is claimed again by the same scan (\<open>fractions_of_milliseconds_repeat\<close>).\<close>

theorem scan_claims_each_due_task_once:
  assumes "rows_clear env db" "fresh_ids env" "distinct (map task_id (db_tasks db))"
    and "scan_tasks env ws n db = (ScanDone, db')"
  shows "\<exists>slots. map run_key (db_runs db') = map run_key (db_runs db) @ slots
    \<and> distinct (map fst slots) \<and> set slots \<subseteq> due_slots (env_now env) db
    \<and> due_slots (env_now env) db' = due_slots (env_now env) db - set slots
    \<and> (due_slots (env_now env) db' = {} \<or> length slots = n)"
  using assms(1,3,4)
proof (induction n arbitrary: db)
  case 0
  then show ?case by (intro exI [of _ "[]"]) simp
next
  case (Suc n)
  show ?case
  proof (cases "next_due_task (env_now env) db")
    case None
    then have "db' = db" "due_slots (env_now env) db = {}"
      using Suc.prems(3) next_due_None [of "env_now env" db] by simp_all
    then show ?thesis by (intro exI [of _ "[]"]) simp
  next
    case (Some t)
    obtain db1 m where step: "scan_tasks env ws n db1 = (ScanDone, db')" "task_next_run_at t = Some m"
        "map run_key (db_runs db1) = map run_key (db_runs db) @ [(task_id t, m)]"
        "due_slots (env_now env) db1 = due_slots (env_now env) db - {(task_id t, m)}"
        "map task_id (db_tasks db1) = map task_id (db_tasks db)" "rows_clear env db1"
      using scan_step [OF Suc.prems(1,2) assms(2) Suc.prems(3) Some] by blast
    have this_slot: "(task_id t, m) \<in> due_slots (env_now env) db"
      using next_due_Some [OF Some] step(2) by (force simp: due_slots_def)
    from Suc.IH [of db1] step Suc.prems(2) obtain slots where rest:
      "map run_key (db_runs db') = map run_key (db_runs db1) @ slots" "distinct (map fst slots)"
      "set slots \<subseteq> due_slots (env_now env) db1" "due_slots (env_now env) db' = due_slots (env_now env) db1 - set slots"
      "due_slots (env_now env) db' = {} \<or> length slots = n"
      by auto
    have "task_id t \<notin> fst ` set slots"
      using rest(3) step(4) due_slots_functional [OF Suc.prems(2) this_slot] by auto
    then show ?thesis using rest step(3,4) this_slot by (intro exI [of _ "(task_id t, m) # slots"]) auto
  qed
qed

text \<open>A program around the scheduler that queues every message and makes identifiers longer than all others.\<close>

definition queue_env :: "instant option \<Rightarrow> SchedulerEnv" where
  "queue_env start = \<lparr>env_check_id = Inr, env_definitions = [],
     env_queue = (\<lambda>_ _. Inr \<lparr>queued_chat_id = lit ''c'', queued_message_id = lit ''m'', queued_agent_task = Some (lit ''a'')\<rparr>),
     env_parse = (\<lambda>_. start), env_valid = (\<lambda>_. True), env_now = 1000000000,
     env_new_run_id = (\<lambda>_ db. replicate (Suc (sum_list (map (\<lambda>r. length (run_id r)) (db_runs db)))) 0)\<rparr>"

definition plain_task :: "ScheduleSpec \<Rightarrow> ScheduledTask" where
  "plain_task spec = (sample_task (lit ''t''))\<lparr>task_schedule := Inr spec, task_next_run_at := Some 1000,
     task_action := Inr (sample_prompt\<lparr>prompt_definition := None, prompt_model := Some (lit ''gpt'')\<rparr>)\<rparr>"

definition one_task_db :: "ScheduleSpec \<Rightarrow> ScheduleDb" where
  "one_task_db spec = \<lparr>db_tasks = [plain_task spec], db_runs = [], db_agent_tasks = (\<lambda>_. None)\<rparr>"

lemma trim_go: "trim [103, 111] = [103, 111]"
  by (simp add: trim_def trim_start_def trim_end_def is_whitespace_def)

lemma fresh_queue_env: "fresh_ids (queue_env start)"
proof -
  have "replicate (Suc (sum_list (map (\<lambda>r. length (run_id r)) rs))) 0 \<noteq> run_id r" if "r \<in> set rs" for rs r
    using member_le_sum_list [of "length (run_id r)" "map (\<lambda>r. length (run_id r)) rs"] that
    by (auto dest: arg_cong [where f = length])
  then show ?thesis unfolding fresh_ids_def queue_env_def by fastforce
qed

lemmas scan_defs = queue_env_def plain_task_def one_task_db_def sample_task_def sample_prompt_def next_due_task_def
  enabled_tasks_def is_due_def next_task_state_def next_run_after_def interval_next_run_def parse_utc_timestamp_def
  duration_seconds_def checked_add_def I64_MAX_def scan_claim_def claim_due_scheduled_task_run_def claimable_def new_run_def
  dispatch_scheduled_task_run_def scheduled_queue_input_def update_run_def millis_def or_else_def Let_def NANOS_def

theorem scan_claims_each_due_task_once_witness:
  "\<exists>db'. scan_tasks (queue_env (Some 0)) (lit ''w'') (Suc (Suc 0)) (one_task_db (Interval 60 (Some (lit ''start'')))) = (ScanDone, db')
    \<and> due_slots 1000000000 db' = {}"
proof -
  let ?env = "queue_env (Some 0)" and ?db = "one_task_db (Interval 60 (Some (lit ''start'')))"
  obtain db' where run: "scan_tasks ?env (lit ''w'') (Suc (Suc 0)) ?db = (ScanDone, db')"
    by (simp add: scan_defs trim_go lit_def)
  have now: "env_now ?env = 1000000000" and ids: "distinct (map task_id (db_tasks ?db))"
    by (simp_all add: queue_env_def one_task_db_def)
  have clear: "rows_clear ?env ?db"
    unfolding rows_clear_def by (auto intro!: whole_start_clear simp: queue_env_def one_task_db_def plain_task_def)
  obtain slots where "distinct (map fst slots)" "set slots \<subseteq> due_slots 1000000000 ?db"
      "due_slots 1000000000 db' = {} \<or> length slots = Suc (Suc 0)"
    using scan_claims_each_due_task_once [OF clear fresh_queue_env ids run] unfolding now by blast
  moreover have "due_slots 1000000000 ?db \<subseteq> {(lit ''t'', 1000)}"
    by (auto simp: due_slots_def one_task_db_def plain_task_def sample_task_def)
  ultimately have slots: "distinct (map fst slots)" "set slots \<subseteq> {(lit ''t'', 1000)}"
      "due_slots 1000000000 db' = {} \<or> length slots = Suc (Suc 0)"
    by auto
  then have "length slots \<le> card {(lit ''t'', 1000)}"
    using card_mono [of "{(lit ''t'', 1000)}" "set slots"] distinct_card [of slots] by (simp add: distinct_map)
  then show ?thesis using run slots(3) by auto
qed

text \<open>Without that condition a task is claimed again and again: the next run of a start with a fraction of
  a millisecond is written without the fraction, which the same scan finds due once more.\<close>

lemma fractions_of_milliseconds_repeat:
  "map run_key (db_runs (snd (scan_tasks (queue_env (Some 1000000500)) (lit ''w'') (Suc (Suc (Suc 0)))
     (one_task_db (OneShotAt (lit ''start'')))))) = [(lit ''t'', 1000), (lit ''t'', 1000), (lit ''t'', 1000)]"
  by (simp add: scan_defs trim_go lit_def run_key_def)

end
