(* ===== verification/Run_Events.thy ===== *)
theory Run_Events
  imports Foco_Prelude
begin

text \<open>
  The events of a chat run (\<open>app/runtime/subscriptions.rs\<close>, \<open>record_event\<close>,
  \<open>publish_persisted_event\<close>, \<open>subscribe\<close> and \<open>chat_run_subscription_stream\<close>; the rows of
  \<open>run_events\<close> in \<open>store/workspace.rs\<close>). A producer appends an event to the database, which
  gives it its number, then pushes it to the cache of the run, then sends it over a broadcast channel;
  the run itself is one producer and the scheduler of agents another, and their three steps interleave.
  The channel of the library keeps the last frames up to its capacity and tells a receiver that is behind
  how many it lost. Streams copy what they get to their clients.
\<close>

section \<open>Rows, cache and channel\<close>

record ChatRunEventFrame =
  frame_sequence :: int
  frame_type :: rstr
  frame_payload :: rstr

text \<open>The rows of one run: identifiers and frames.\<close>

type_synonym run_rows = "(rstr \<times> ChatRunEventFrame) list"

definition max_sequence :: "run_rows \<Rightarrow> int" where
  "max_sequence rows = (if rows = [] then 0 else Max (frame_sequence ` snd ` set rows) + 1)"

text \<open>The identifier of an appended row is made of the run and the number; only the other operation
  looks at identifiers, for the ones of its own kind.\<close>

definition insert_run_event_appending_sequence :: "rstr \<Rightarrow> rstr \<Rightarrow> rstr \<Rightarrow> run_rows \<Rightarrow> int \<times> run_rows" where
  "insert_run_event_appending_sequence rid event_type payload rows =
     (let s = max_sequence rows
      in (s, rows @ [(rid, \<lparr>frame_sequence = s, frame_type = event_type, frame_payload = payload\<rparr>)]))"

definition append_run_event_if_absent :: "rstr \<Rightarrow> rstr \<Rightarrow> rstr \<Rightarrow> run_rows \<Rightarrow> int option \<times> run_rows" where
  "append_run_event_if_absent rid event_type payload rows =
     (if rid \<in> fst ` set rows then (None, rows)
      else let s = max_sequence rows
           in (Some s, rows @ [(rid, \<lparr>frame_sequence = s, frame_type = event_type, frame_payload = payload\<rparr>)]))"

text \<open>What the parts share for one run. \<open>hub_sent\<close> holds all frames ever sent; the channel keeps the
  last of them.\<close>

record RunHub =
  hub_rows :: run_rows
  hub_events :: "ChatRunEventFrame list"
  hub_sent :: "ChatRunEventFrame list"
  hub_completed :: bool
  hub_senders :: bool

definition push_event :: "ChatRunEventFrame \<Rightarrow> RunHub \<Rightarrow> RunHub" where
  "push_event f h = h\<lparr>hub_events := hub_events h @ [f]\<rparr>"

definition send_event :: "ChatRunEventFrame \<Rightarrow> RunHub \<Rightarrow> RunHub" where
  "send_event f h = h\<lparr>hub_sent := hub_sent h @ [f]\<rparr>"

definition events_after :: "int \<Rightarrow> ChatRunEventFrame list \<Rightarrow> ChatRunEventFrame list" where
  "events_after s fs = filter (\<lambda>f. frame_sequence f > s) fs"

definition EVENT_CHANNEL_CAPACITY :: nat where "EVENT_CHANNEL_CAPACITY = 512"

text \<open>A receiver that has read up to a position. One that is behind by more than the capacity is told so
  and is moved to the oldest frame that is kept.\<close>

datatype BroadcastRecv = Received ChatRunEventFrame nat | Lagged nat nat | ChannelClosed | MustWait

definition broadcast_recv :: "RunHub \<Rightarrow> nat \<Rightarrow> BroadcastRecv" where
  "broadcast_recv h pos =
     (let n = length (hub_sent h); oldest = n - EVENT_CHANNEL_CAPACITY
      in if pos < oldest then Lagged (oldest - pos) oldest
         else if pos < n then Received (hub_sent h ! pos) (Suc pos)
         else if hub_senders h then MustWait else ChannelClosed)"

section \<open>Subscriptions\<close>

datatype StreamPhase = Opened | Streaming | Terminal | Ended

record RunStream =
  stream_position :: nat
  stream_last :: int
  stream_phase :: StreamPhase
  stream_output :: "ChatRunEventFrame list"

text \<open>The loops that copy frames: one is passed on when its number is greater than the last.\<close>

fun emit_events :: "ChatRunEventFrame list \<Rightarrow> RunStream \<Rightarrow> RunStream" where
  "emit_events [] s = s"
| "emit_events (f # fs) s =
     emit_events fs (if frame_sequence f > stream_last s
       then s\<lparr>stream_last := frame_sequence f, stream_output := stream_output s @ [f]\<rparr> else s)"

text \<open>\<open>subscribe\<close> makes the receiver first and reads the cache afterwards.\<close>

definition open_stream :: "int option \<Rightarrow> RunHub \<Rightarrow> RunStream" where
  "open_stream after_sequence h =
     \<lparr>stream_position = length (hub_sent h), stream_last = (case after_sequence of None \<Rightarrow> -1 | Some s \<Rightarrow> s),
      stream_phase = Opened, stream_output = []\<rparr>"

definition replay_stream :: "RunHub \<Rightarrow> RunStream \<Rightarrow> RunStream" where
  "replay_stream h s = (emit_events (events_after (stream_last s) (hub_events h)) s)\<lparr>stream_phase := Streaming\<rparr>"

text \<open>One turn of the loop on the branch of the channel.\<close>

definition stream_recv :: "RunHub \<Rightarrow> RunStream \<Rightarrow> RunStream" where
  "stream_recv h s =
     (case broadcast_recv h (stream_position s) of
        Received f pos \<Rightarrow> emit_events [f] (s\<lparr>stream_position := pos\<rparr>)
      | Lagged skipped pos \<Rightarrow>
          emit_events (events_after (stream_last s) (hub_events h)) (s\<lparr>stream_position := pos\<rparr>)
      | ChannelClosed \<Rightarrow> s\<lparr>stream_phase := Terminal\<rparr>
      | MustWait \<Rightarrow> s)"

text \<open>The branch of the completion, and the drain before the last frame.\<close>

definition stream_completed :: "RunHub \<Rightarrow> RunStream \<Rightarrow> RunStream" where
  "stream_completed h s = (if hub_completed h then s\<lparr>stream_phase := Terminal\<rparr> else s)"

definition stream_drain :: "RunHub \<Rightarrow> RunStream \<Rightarrow> RunStream" where
  "stream_drain h s = (emit_events (events_after (stream_last s) (hub_events h)) s)\<lparr>stream_phase := Ended\<rparr>"

section \<open>Producers and streams together\<close>

text \<open>A producer that has its number and has not pushed the event yet, or has pushed and not sent it.\<close>

datatype Delivery = Numbered ChatRunEventFrame | Pushed ChatRunEventFrame

fun delivery_frame :: "Delivery \<Rightarrow> ChatRunEventFrame" where
  "delivery_frame (Numbered f) = f"
| "delivery_frame (Pushed f) = f"

record EventWorld =
  world_hub :: RunHub
  world_deliveries :: "Delivery list"
  world_streams :: "(int \<times> RunStream) list"

definition new_hub :: "run_rows \<Rightarrow> RunHub" where
  "new_hub rows = \<lparr>hub_rows = rows, hub_events = [], hub_sent = [], hub_completed = False, hub_senders = True\<rparr>"

definition frame_of :: "int \<Rightarrow> rstr \<Rightarrow> rstr \<Rightarrow> ChatRunEventFrame" where
  "frame_of s event_type payload = \<lparr>frame_sequence = s, frame_type = event_type, frame_payload = payload\<rparr>"

definition on_stream :: "nat \<Rightarrow> (RunStream \<Rightarrow> RunStream) \<Rightarrow> EventWorld \<Rightarrow> EventWorld" where
  "on_stream i f w = w\<lparr>world_streams := (world_streams w)[i := (fst (world_streams w ! i), f (snd (world_streams w ! i)))]\<rparr>"

text \<open>The steps. An event that was persisted earlier and not published then (the scheduler failed between
  the two) is published by a later scan, with the number of its row: that is \<open>projection_again\<close>. When
  \<open>serial\<close> holds, a producer starts only while no other is under way, and a publication of an event
  persisted earlier starts only before that event or a later one has been published; the code does not
  ensure this.\<close>

inductive event_step :: "bool \<Rightarrow> EventWorld \<Rightarrow> EventWorld \<Rightarrow> bool" for serial where
  record_numbered: "\<lbrakk>serial \<Longrightarrow> world_deliveries w = [];
      insert_run_event_appending_sequence rid event_type payload (hub_rows (world_hub w)) = (s, rows)\<rbrakk>
    \<Longrightarrow> event_step serial w (w\<lparr>world_hub := (world_hub w)\<lparr>hub_rows := rows\<rparr>,
          world_deliveries := world_deliveries w @ [Numbered (frame_of s event_type payload)]\<rparr>)"
| projection_numbered: "\<lbrakk>serial \<Longrightarrow> world_deliveries w = [];
      append_run_event_if_absent rid event_type payload (hub_rows (world_hub w)) = (Some s, rows)\<rbrakk>
    \<Longrightarrow> event_step serial w (w\<lparr>world_hub := (world_hub w)\<lparr>hub_rows := rows\<rparr>,
          world_deliveries := world_deliveries w @ [Numbered (frame_of s event_type payload)]\<rparr>)"
| projection_again: "\<lbrakk>serial \<Longrightarrow> world_deliveries w = [];
      serial \<Longrightarrow> \<forall>g \<in> set (hub_events (world_hub w)). frame_sequence g < frame_sequence f;
      (rid, f) \<in> set (hub_rows (world_hub w))\<rbrakk>
    \<Longrightarrow> event_step serial w (w\<lparr>world_deliveries := world_deliveries w @ [Numbered f]\<rparr>)"
| delivery_failed: "\<lbrakk>i < length (world_deliveries w); world_deliveries w ! i = Numbered f\<rbrakk>
    \<Longrightarrow> event_step serial w (w\<lparr>world_deliveries := take i (world_deliveries w) @ drop (Suc i) (world_deliveries w)\<rparr>)"
| pushed: "\<lbrakk>i < length (world_deliveries w); world_deliveries w ! i = Numbered f\<rbrakk>
    \<Longrightarrow> event_step serial w (w\<lparr>world_hub := push_event f (world_hub w),
          world_deliveries := (world_deliveries w)[i := Pushed f]\<rparr>)"
| sent: "\<lbrakk>i < length (world_deliveries w); world_deliveries w ! i = Pushed f\<rbrakk>
    \<Longrightarrow> event_step serial w (w\<lparr>world_hub := send_event f (world_hub w),
          world_deliveries := take i (world_deliveries w) @ drop (Suc i) (world_deliveries w)\<rparr>)"
| completed: "event_step serial w (w\<lparr>world_hub := (world_hub w)\<lparr>hub_completed := True\<rparr>\<rparr>)"
| senders_gone: "world_deliveries w = [] \<Longrightarrow> event_step serial w (w\<lparr>world_hub := (world_hub w)\<lparr>hub_senders := False\<rparr>\<rparr>)"
| subscribed: "event_step serial w (w\<lparr>world_streams := world_streams w
      @ [(case after of None \<Rightarrow> -1 | Some s \<Rightarrow> s, open_stream after (world_hub w))]\<rparr>)"
| replayed: "\<lbrakk>i < length (world_streams w); stream_phase (snd (world_streams w ! i)) = Opened\<rbrakk>
    \<Longrightarrow> event_step serial w (on_stream i (replay_stream (world_hub w)) w)"
| received: "\<lbrakk>i < length (world_streams w); stream_phase (snd (world_streams w ! i)) = Streaming\<rbrakk>
    \<Longrightarrow> event_step serial w (on_stream i (stream_recv (world_hub w)) w)"
| saw_completion: "\<lbrakk>i < length (world_streams w); stream_phase (snd (world_streams w ! i)) = Streaming\<rbrakk>
    \<Longrightarrow> event_step serial w (on_stream i (stream_completed (world_hub w)) w)"
| drained: "\<lbrakk>i < length (world_streams w); stream_phase (snd (world_streams w ! i)) = Terminal\<rbrakk>
    \<Longrightarrow> event_step serial w (on_stream i (stream_drain (world_hub w)) w)"

inductive event_reachable :: "bool \<Rightarrow> EventWorld \<Rightarrow> bool" for serial where
  start: "event_reachable serial \<lparr>world_hub = new_hub rows, world_deliveries = [], world_streams = []\<rparr>"
| step: "\<lbrakk>event_reachable serial w; event_step serial w w'\<rbrakk> \<Longrightarrow> event_reachable serial w'"

section \<open>Copying frames\<close>

abbreviation increasing :: "ChatRunEventFrame list \<Rightarrow> bool" where
  "increasing fs \<equiv> sorted_wrt (<) (map frame_sequence fs)"

lemma emit_frame [simp]:
  "stream_position (emit_events fs s) = stream_position s" "stream_phase (emit_events fs s) = stream_phase s"
  by (induction fs arbitrary: s) auto

lemma emit_position: "emit_events fs (s\<lparr>stream_position := p\<rparr>) = (emit_events fs s)\<lparr>stream_position := p\<rparr>"
proof (induction fs arbitrary: s)
  case (Cons f fs)
  from Cons.IH [of s] Cons.IH [of "s\<lparr>stream_last := frame_sequence f, stream_output := stream_output s @ [f]\<rparr>"]
  show ?case by (cases s) simp
qed simp

lemma emit_last: "stream_last s \<le> stream_last (emit_events fs s)
    \<and> (stream_last (emit_events fs s) = stream_last s \<or> stream_last (emit_events fs s) \<in> frame_sequence ` set fs)"
proof (induction fs arbitrary: s)
  case (Cons f fs)
  show ?case
  proof (cases "frame_sequence f > stream_last s")
    case True
    with Cons.IH [of "s\<lparr>stream_last := frame_sequence f, stream_output := stream_output s @ [f]\<rparr>"] show ?thesis by auto
  next
    case False
    with Cons.IH [of s] show ?thesis by auto
  qed
qed simp

text \<open>Whatever is copied, the output only grows, by frames with greater and greater numbers.\<close>

lemma emit_output:
  "\<exists>ks. stream_output (emit_events fs s) = stream_output s @ ks \<and> set ks \<subseteq> set fs \<and> increasing ks
    \<and> (\<forall>f \<in> set ks. stream_last s < frame_sequence f \<and> frame_sequence f \<le> stream_last (emit_events fs s))"
proof (induction fs arbitrary: s)
  case (Cons f fs)
  show ?case
  proof (cases "frame_sequence f > stream_last s")
    case True
    let ?s = "s\<lparr>stream_last := frame_sequence f, stream_output := stream_output s @ [f]\<rparr>"
    obtain ks where ks: "stream_output (emit_events fs ?s) = stream_output ?s @ ks" "set ks \<subseteq> set fs" "increasing ks"
      "\<forall>g \<in> set ks. frame_sequence f < frame_sequence g \<and> frame_sequence g \<le> stream_last (emit_events fs ?s)"
      using Cons.IH [of ?s] by auto
    moreover have "frame_sequence f \<le> stream_last (emit_events fs ?s)" using emit_last [of ?s fs] by simp
    ultimately show ?thesis using True by (intro exI [of _ "f # ks"]) force
  next
    case False
    with Cons.IH [of s] show ?thesis by auto
  qed
qed simp

lemma emit_increasing:
  "increasing fs \<Longrightarrow> \<forall>f \<in> set fs. stream_last s < frame_sequence f \<Longrightarrow>
    stream_output (emit_events fs s) = stream_output s @ fs \<and> (\<forall>f \<in> set fs. frame_sequence f \<le> stream_last (emit_events fs s))"
proof (induction fs arbitrary: s)
  case (Cons f fs)
  let ?s = "s\<lparr>stream_last := frame_sequence f, stream_output := stream_output s @ [f]\<rparr>"
  from Cons.prems have "increasing fs" "\<forall>g \<in> set fs. stream_last ?s < frame_sequence g" by auto
  from Cons.IH [OF this] Cons.prems emit_last [of ?s fs] show ?case by auto
qed simp

section \<open>What holds under every interleaving\<close>

definition output_ok :: "RunHub \<Rightarrow> int \<times> RunStream \<Rightarrow> bool" where
  "output_ok h st \<longleftrightarrow> increasing (stream_output (snd st)) \<and> fst st \<le> stream_last (snd st)
     \<and> (\<forall>f \<in> set (stream_output (snd st)). fst st < frame_sequence f \<and> frame_sequence f \<le> stream_last (snd st)
         \<and> f \<in> set (hub_events h))"

definition world_ok :: "EventWorld \<Rightarrow> bool" where
  "world_ok w \<longleftrightarrow> set (hub_sent (world_hub w)) \<subseteq> set (hub_events (world_hub w))
     \<and> (\<forall>f. Pushed f \<in> set (world_deliveries w) \<longrightarrow> f \<in> set (hub_events (world_hub w)))
     \<and> (\<forall>st \<in> set (world_streams w). output_ok (world_hub w) st)"

lemma output_emit:
  assumes "output_ok h (a, s)" "set fs \<subseteq> set (hub_events h)"
  shows "output_ok h (a, emit_events fs s)"
proof -
  obtain ks where ks: "stream_output (emit_events fs s) = stream_output s @ ks" "set ks \<subseteq> set fs" "increasing ks"
    "\<forall>f \<in> set ks. stream_last s < frame_sequence f \<and> frame_sequence f \<le> stream_last (emit_events fs s)"
    using emit_output [of fs s] by auto
  then show ?thesis using assms emit_last [of s fs]
    unfolding output_ok_def by (fastforce simp: sorted_wrt_append)
qed

lemma output_ok_cong [simp]:
  "output_ok h (a, s\<lparr>stream_phase := p\<rparr>) = output_ok h (a, s)" "output_ok h (a, s\<lparr>stream_position := i\<rparr>) = output_ok h (a, s)"
  by (simp_all add: output_ok_def)

lemma broadcast_recv_sent: "broadcast_recv h pos = Received f p \<Longrightarrow> f \<in> set (hub_sent h)"
  by (auto simp: broadcast_recv_def Let_def split: if_splits)

lemma stream_ops_ok:
  assumes "output_ok h (a, s)" "set (hub_sent h) \<subseteq> set (hub_events h)"
  shows "output_ok h (a, replay_stream h s)" "output_ok h (a, stream_recv h s)"
    "output_ok h (a, stream_completed h s)" "output_ok h (a, stream_drain h s)"
proof -
  have after: "set (events_after l (hub_events h)) \<subseteq> set (hub_events h)" for l by (auto simp: events_after_def)
  show "output_ok h (a, replay_stream h s)" "output_ok h (a, stream_drain h s)"
    using output_emit [OF assms(1) after] by (simp_all add: replay_stream_def stream_drain_def)
  show "output_ok h (a, stream_completed h s)" using assms(1) by (simp add: stream_completed_def)
  show "output_ok h (a, stream_recv h s)"
  proof (cases "broadcast_recv h (stream_position s)")
    case (Received f p)
    then have "set [f] \<subseteq> set (hub_events h)" using broadcast_recv_sent assms(2) by auto
    from output_emit [OF _ this, of a "s\<lparr>stream_position := p\<rparr>"] assms(1) Received show ?thesis
      by (simp add: stream_recv_def)
  next
    case (Lagged n p)
    then show ?thesis using output_emit [OF _ after, of a "s\<lparr>stream_position := p\<rparr>"] assms(1) by (simp add: stream_recv_def)
  qed (use assms(1) in \<open>simp_all add: stream_recv_def\<close>)
qed

lemma output_ok_hub: "output_ok h st \<Longrightarrow> set (hub_events h) \<subseteq> set (hub_events h') \<Longrightarrow> output_ok h' st"
  by (auto simp: output_ok_def)

lemma world_ok_stream:
  assumes ok: "world_ok w" and i: "i < length (world_streams w)"
    and f: "\<And>a s. output_ok (world_hub w) (a, s) \<Longrightarrow> output_ok (world_hub w) (a, f s)"
  shows "world_ok (on_stream i f w)"
proof -
  have "world_streams w ! i \<in> set (world_streams w)" using i by simp
  then have "output_ok (world_hub w) (fst (world_streams w ! i), f (snd (world_streams w ! i)))"
    using ok f by (metis prod.collapse world_ok_def)
  then show ?thesis using ok unfolding world_ok_def on_stream_def
    by (auto dest!: set_update_subset_insert [THEN subsetD])
qed

lemma remove_nth_subset: "set (take i xs @ drop (Suc i) xs) \<subseteq> set xs"
  by (auto dest: in_set_takeD in_set_dropD)

lemma event_step_ok: "event_step serial w w' \<Longrightarrow> world_ok w \<Longrightarrow> world_ok w'"
proof (induction rule: event_step.induct)
  case (delivery_failed i w f)
  then show ?case using remove_nth_subset [of i "world_deliveries w"] by (auto simp: world_ok_def)
next
  case (pushed i w f)
  then have "\<forall>g. Pushed g \<in> set ((world_deliveries w)[i := Pushed f]) \<longrightarrow> g = f \<or> g \<in> set (hub_events (world_hub w))"
    by (auto simp: world_ok_def dest!: set_update_subset_insert [THEN subsetD])
  moreover have "\<forall>st \<in> set (world_streams w). output_ok (push_event f (world_hub w)) st"
    using pushed by (auto simp: world_ok_def push_event_def intro: output_ok_hub)
  ultimately show ?case using pushed by (auto simp: world_ok_def push_event_def)
next
  case (sent i w f)
  then have "f \<in> set (hub_events (world_hub w))" using nth_mem [of i "world_deliveries w"] by (auto simp: world_ok_def)
  moreover have "\<forall>st \<in> set (world_streams w). output_ok (send_event f (world_hub w)) st"
    using sent by (auto simp: world_ok_def send_event_def intro: output_ok_hub)
  ultimately show ?case using sent remove_nth_subset [of i "world_deliveries w"]
    by (auto simp: world_ok_def send_event_def)
next
  case (replayed i w)
  then show ?case by (intro world_ok_stream stream_ops_ok) (auto simp: world_ok_def)
next
  case (received i w)
  then show ?case by (intro world_ok_stream stream_ops_ok) (auto simp: world_ok_def)
next
  case (saw_completion i w)
  then show ?case by (intro world_ok_stream stream_ops_ok) (auto simp: world_ok_def)
next
  case (drained i w)
  then show ?case by (intro world_ok_stream stream_ops_ok) (auto simp: world_ok_def)
qed (auto simp: world_ok_def output_ok_def open_stream_def)

lemma event_reachable_ok: "event_reachable serial w \<Longrightarrow> world_ok w"
proof (induction rule: event_reachable.induct)
  case (step w w')
  then show ?case using event_step_ok by blast
qed (simp add: world_ok_def new_hub_def)

section \<open>Producers one after the other\<close>

definition between :: "int \<Rightarrow> int \<Rightarrow> ChatRunEventFrame list \<Rightarrow> ChatRunEventFrame list" where
  "between a l fs = filter (\<lambda>f. a < frame_sequence f \<and> frame_sequence f \<le> l) fs"

lemma between_after: "increasing fs \<Longrightarrow> a \<le> l \<Longrightarrow> between a l fs @ events_after l fs = events_after a fs"
proof (induction fs)
  case (Cons f fs)
  then have above: "\<forall>g \<in> set fs. frame_sequence f < frame_sequence g" by auto
  show ?case
  proof (cases "frame_sequence f \<le> l")
    case True
    with Cons show ?thesis by (auto simp: between_def events_after_def)
  next
    case False
    with above have "between a l fs = []" by (auto simp: between_def filter_empty_conv)
    with Cons False show ?thesis by (auto simp: between_def events_after_def)
  qed
qed (simp add: between_def events_after_def)

definition stream_ok :: "RunHub \<Rightarrow> int \<times> RunStream \<Rightarrow> bool" where
  "stream_ok h st \<longleftrightarrow> (case st of (a, s) \<Rightarrow>
     stream_position s \<le> length (hub_sent h) \<and> a \<le> stream_last s
     \<and> stream_output s = between a (stream_last s) (hub_events h)
     \<and> (stream_last s = a \<or> stream_last s \<in> frame_sequence ` set (hub_events h))
     \<and> (stream_phase s \<noteq> Opened \<longrightarrow> (\<forall>f \<in> set (take (stream_position s) (hub_sent h)). frame_sequence f \<le> stream_last s)))"

definition hub_ok :: "RunHub \<Rightarrow> bool" where
  "hub_ok h \<longleftrightarrow> increasing (hub_events h) \<and> (\<exists>r. hub_events h = hub_sent h @ r)
     \<and> (\<forall>f \<in> set (hub_events h). frame_sequence f < max_sequence (hub_rows h))"

fun deliveries_ok :: "RunHub \<Rightarrow> Delivery list \<Rightarrow> bool" where
  "deliveries_ok h [] \<longleftrightarrow> hub_sent h = hub_events h"
| "deliveries_ok h [Numbered f] \<longleftrightarrow> hub_sent h = hub_events h \<and> (\<forall>e \<in> set (hub_events h). frame_sequence e < frame_sequence f)
     \<and> frame_sequence f < max_sequence (hub_rows h)"
| "deliveries_ok h [Pushed f] \<longleftrightarrow> hub_events h = hub_sent h @ [f]"
| "deliveries_ok h (d # e # ds) \<longleftrightarrow> False"

definition serial_ok :: "EventWorld \<Rightarrow> bool" where
  "serial_ok w \<longleftrightarrow> hub_ok (world_hub w) \<and> deliveries_ok (world_hub w) (world_deliveries w)
     \<and> (\<forall>st \<in> set (world_streams w). stream_ok (world_hub w) st)"

text \<open>Reading the cache brings a stream up to date.\<close>

lemma catch_up:
  assumes hub: "hub_ok h" and ok: "stream_ok h (a, s)"
  defines "s' \<equiv> emit_events (events_after (stream_last s) (hub_events h)) s"
  shows "stream_output s' = events_after a (hub_events h)" "\<forall>f \<in> set (hub_events h). frame_sequence f \<le> stream_last s'"
    "stream_position p \<le> length (hub_sent h) \<Longrightarrow> stream_ok h (a, s'\<lparr>stream_position := stream_position p, stream_phase := ph\<rparr>)"
proof -
  let ?fs = "events_after (stream_last s) (hub_events h)"
  have inc: "increasing (hub_events h)" using hub by (simp add: hub_ok_def)
  then have "increasing ?fs" by (simp add: events_after_def sorted_wrt_map sorted_wrt_filter)
  moreover have "\<forall>f \<in> set ?fs. stream_last s < frame_sequence f" by (simp add: events_after_def)
  ultimately have emit: "stream_output s' = stream_output s @ ?fs" "\<forall>f \<in> set ?fs. frame_sequence f \<le> stream_last s'"
    unfolding s'_def using emit_increasing by blast+
  have le: "a \<le> stream_last s" and out: "stream_output s = between a (stream_last s) (hub_events h)"
    using ok by (auto simp: stream_ok_def)
  show all: "stream_output s' = events_after a (hub_events h)" using emit(1) out between_after [OF inc le] by simp
  have up: "stream_last s \<le> stream_last s'" "stream_last s' = stream_last s \<or> stream_last s' \<in> frame_sequence ` set ?fs"
    using emit_last [of s ?fs] by (auto simp: s'_def)
  show top: "\<forall>f \<in> set (hub_events h). frame_sequence f \<le> stream_last s'"
    using emit(2) up(1) by (force simp: events_after_def)
  then have "between a (stream_last s') (hub_events h) = events_after a (hub_events h)"
    by (auto simp: between_def events_after_def intro: filter_cong)
  moreover have "set (hub_sent h) \<subseteq> set (hub_events h)" using hub by (auto simp: hub_ok_def)
  moreover have "stream_last s' = a \<or> stream_last s' \<in> frame_sequence ` set (hub_events h)"
    using up(2) ok by (auto simp: stream_ok_def events_after_def)
  ultimately show "stream_ok h (a, s'\<lparr>stream_position := stream_position p, stream_phase := ph\<rparr>)"
    if "stream_position p \<le> length (hub_sent h)"
    using that all top le up(1) by (auto simp: stream_ok_def dest: in_set_takeD)
qed

lemma recv_ok:
  assumes hub: "hub_ok h" and ok: "stream_ok h (a, s)" and phase: "stream_phase s \<noteq> Opened"
  shows "stream_ok h (a, stream_recv h s)"
proof (cases "broadcast_recv h (stream_position s)")
  case (Received f p)
  let ?pos = "stream_position s" and ?l = "stream_last s"
  from Received have p: "p = Suc ?pos" "?pos < length (hub_sent h)" "f = hub_sent h ! ?pos"
    by (auto simp: broadcast_recv_def Let_def split: if_splits)
  then have take: "set (take p (hub_sent h)) = insert f (set (take ?pos (hub_sent h)))"
    by (simp add: take_Suc_conv_app_nth)
  have seen: "\<forall>g \<in> set (take ?pos (hub_sent h)). frame_sequence g \<le> ?l" using ok phase by (auto simp: stream_ok_def)
  show ?thesis
  proof (cases "frame_sequence f > ?l")
    case False
    with Received ok phase p take seen show ?thesis by (auto simp: stream_recv_def stream_ok_def)
  next
    case True
    from hub obtain r where r: "hub_events h = hub_sent h @ r" and inc: "increasing (hub_events h)" by (auto simp: hub_ok_def)
    let ?front = "take ?pos (hub_sent h)" and ?behind = "drop p (hub_sent h) @ r"
    have split: "hub_events h = ?front @ f # ?behind"
      unfolding r p by (metis Cons_nth_drop_Suc append_Cons append_assoc append_take_drop_id p(2))
    then have later: "\<forall>g \<in> set ?behind. frame_sequence f < frame_sequence g"
      using inc by (auto simp: sorted_wrt_append)
    have le: "a \<le> ?l" using ok by (simp add: stream_ok_def)
    have "\<forall>g \<in> set ?behind. ?l < frame_sequence g" using later True by fastforce
    then have "between a (frame_sequence f) ?behind = []" "between a ?l ?behind = []" "between a ?l [f] = []"
      using later True unfolding between_def filter_empty_conv by fastforce+
    moreover have "between a (frame_sequence f) ?front = between a ?l ?front"
      unfolding between_def using seen True by (intro filter_cong) auto
    moreover have "between a (frame_sequence f) [f] = [f]" using True le by (simp add: between_def)
    ultimately have "between a (frame_sequence f) (hub_events h) = between a ?l (hub_events h) @ [f]"
      unfolding split using True le by (simp add: between_def)
    moreover have "f \<in> set (hub_events h)" unfolding split by simp
    moreover have "\<forall>g \<in> set (take p (hub_sent h)). frame_sequence g \<le> frame_sequence f" using take seen True by fastforce
    ultimately show ?thesis using Received True ok phase p(1,2) le by (auto simp: stream_recv_def stream_ok_def)
  qed
next
  case (Lagged n p)
  then have "p \<le> length (hub_sent h)" by (auto simp: broadcast_recv_def Let_def split: if_splits)
  with catch_up(3) [OF hub ok, of "s\<lparr>stream_position := p\<rparr>" "stream_phase s"] Lagged
  show ?thesis by (simp add: stream_recv_def emit_position stream_ok_def)
qed (use ok phase in \<open>auto simp: stream_recv_def stream_ok_def\<close>)

lemma stream_ops_serial:
  assumes hub: "hub_ok h" and ok: "stream_ok h (a, s)"
  shows "stream_ok h (a, replay_stream h s)" "stream_ok h (a, stream_drain h s)"
    "stream_phase s \<noteq> Opened \<Longrightarrow> stream_ok h (a, stream_completed h s)"
proof -
  have pos: "stream_position s \<le> length (hub_sent h)" using ok by (simp add: stream_ok_def)
  show "stream_ok h (a, replay_stream h s)" "stream_ok h (a, stream_drain h s)"
    using catch_up(3) [OF hub ok pos, of Streaming] catch_up(3) [OF hub ok pos, of Ended]
    by (simp_all add: replay_stream_def stream_drain_def stream_ok_def)
  show "stream_ok h (a, stream_completed h s)" if "stream_phase s \<noteq> Opened"
    using ok that by (auto simp: stream_completed_def stream_ok_def)
qed

text \<open>Growth of the hub.\<close>

lemma stream_ok_sent: "stream_ok h st \<Longrightarrow> stream_ok (send_event f h) st"
  by (auto simp: stream_ok_def send_event_def split: prod.splits)

lemma stream_ok_pushed:
  assumes "stream_ok h st" "\<forall>e \<in> set (hub_events h). frame_sequence e < frame_sequence f"
  shows "stream_ok (push_event f h) st"
proof -
  obtain a s where st: "st = (a, s)" by force
  have "stream_last s = a \<or> stream_last s < frame_sequence f" using assms by (auto simp: st stream_ok_def)
  then have "between a (stream_last s) [f] = []" by (auto simp: between_def)
  then have "between a (stream_last s) (hub_events h @ [f]) = between a (stream_last s) (hub_events h)"
    by (simp add: between_def)
  then show ?thesis using assms(1) by (auto simp: st stream_ok_def push_event_def)
qed

lemma stream_ok_cong:
  "hub_events h' = hub_events h \<Longrightarrow> hub_sent h' = hub_sent h \<Longrightarrow> stream_ok h' st = stream_ok h st"
  by (simp add: stream_ok_def)

lemma max_sequence_snoc: "max_sequence rows < max_sequence (rows @ [(rid, frame_of (max_sequence rows) t p)])"
  and max_sequence_ge: "frame_sequence (f :: ChatRunEventFrame) < max_sequence rows \<Longrightarrow> frame_sequence f < max_sequence (rows @ [(rid, frame_of (max_sequence rows) t p)])"
proof -
  show *: "max_sequence rows < max_sequence (rows @ [(rid, frame_of (max_sequence rows) t p)])"
    unfolding max_sequence_def [of "rows @ _"] by (simp add: frame_of_def)
  show "frame_sequence f < max_sequence rows \<Longrightarrow> frame_sequence f < max_sequence (rows @ [(rid, frame_of (max_sequence rows) t p)])"
    using * by simp
qed

lemma serial_numbered:
  fixes t p rid :: rstr
  assumes "serial_ok w" "world_deliveries w = []"
  defines "f \<equiv> frame_of (max_sequence (hub_rows (world_hub w))) t p"
  shows "serial_ok (w\<lparr>world_hub := (world_hub w)\<lparr>hub_rows := hub_rows (world_hub w) @ [(rid, f)]\<rparr>, world_deliveries := [Numbered f]\<rparr>)"
proof -
  let ?h = "(world_hub w)\<lparr>hub_rows := hub_rows (world_hub w) @ [(rid, f)]\<rparr>"
  have f: "frame_sequence f = max_sequence (hub_rows (world_hub w))" by (simp add: f_def frame_of_def)
  have hub: "hub_ok (world_hub w)" using assms(1) by (simp add: serial_ok_def)
  then have "hub_ok ?h" using max_sequence_ge [of _ "hub_rows (world_hub w)" rid t p] by (simp add: hub_ok_def f_def)
  moreover have "deliveries_ok ?h [Numbered f]"
    using assms(1,2) hub max_sequence_snoc [of "hub_rows (world_hub w)" rid t p]
    by (simp add: serial_ok_def hub_ok_def f f_def [symmetric])
  moreover have "\<forall>st \<in> set (world_streams w). stream_ok ?h st"
    using assms(1) stream_ok_cong [of ?h "world_hub w"] by (simp add: serial_ok_def)
  ultimately show ?thesis by (simp add: serial_ok_def)
qed

lemma row_below_max: "(rid, f) \<in> set rows \<Longrightarrow> frame_sequence f < max_sequence rows"
proof -
  assume "(rid, f) \<in> set rows"
  then have "frame_sequence f \<in> frame_sequence ` snd ` set rows" and "rows \<noteq> []" by force+
  then show ?thesis using Max_ge [of "frame_sequence ` snd ` set rows" "frame_sequence f"] by (simp add: max_sequence_def)
qed

lemma serial_stream:
  assumes ok: "serial_ok w" and i: "i < length (world_streams w)"
    and f: "\<And>a. stream_ok (world_hub w) (a, snd (world_streams w ! i)) \<Longrightarrow> stream_ok (world_hub w) (a, f (snd (world_streams w ! i)))"
  shows "serial_ok (on_stream i f w)"
proof -
  have "world_streams w ! i \<in> set (world_streams w)" using i by simp
  then have "stream_ok (world_hub w) (fst (world_streams w ! i), f (snd (world_streams w ! i)))"
    using ok f [of "fst (world_streams w ! i)"] by (auto simp: serial_ok_def)
  then show ?thesis using ok unfolding serial_ok_def on_stream_def
    by (auto dest!: set_update_subset_insert [THEN subsetD])
qed

lemma single_delivery:
  assumes "serial_ok w" "i < length (world_deliveries w)"
  shows "world_deliveries w = [world_deliveries w ! i]" "i = 0"
proof -
  have "deliveries_ok (world_hub w) (world_deliveries w)" using assms(1) by (simp add: serial_ok_def)
  then obtain d where "world_deliveries w = [d]" using assms(2)
    by (cases "(world_hub w, world_deliveries w)" rule: deliveries_ok.cases) auto
  with assms(2) show "world_deliveries w = [world_deliveries w ! i]" "i = 0" by simp_all
qed

lemma serial_pushed:
  assumes ok: "serial_ok w" and d: "world_deliveries w = [Numbered f]"
  shows "serial_ok (w\<lparr>world_hub := push_event f (world_hub w), world_deliveries := [Pushed f]\<rparr>)"
proof -
  have hub: "hub_ok (world_hub w)" and f: "hub_sent (world_hub w) = hub_events (world_hub w)"
    "\<forall>e \<in> set (hub_events (world_hub w)). frame_sequence e < frame_sequence f"
    "frame_sequence f < max_sequence (hub_rows (world_hub w))"
    using ok d by (simp_all add: serial_ok_def)
  have "hub_ok (push_event f (world_hub w))"
    using hub f by (auto simp: hub_ok_def push_event_def sorted_wrt_append)
  moreover have "\<forall>st \<in> set (world_streams w). stream_ok (push_event f (world_hub w)) st"
    using ok stream_ok_pushed [OF _ f(2)] by (simp add: serial_ok_def)
  ultimately show ?thesis using f(1) by (simp add: serial_ok_def push_event_def)
qed

lemma serial_sent:
  assumes ok: "serial_ok w" and d: "world_deliveries w = [Pushed f]"
  shows "serial_ok (w\<lparr>world_hub := send_event f (world_hub w), world_deliveries := []\<rparr>)"
proof -
  have hub: "hub_ok (world_hub w)" and f: "hub_events (world_hub w) = hub_sent (world_hub w) @ [f]"
    using ok d by (simp_all add: serial_ok_def)
  have "hub_ok (send_event f (world_hub w))" using hub f by (simp add: hub_ok_def send_event_def)
  moreover have "\<forall>st \<in> set (world_streams w). stream_ok (send_event f (world_hub w)) st"
    using ok stream_ok_sent by (simp add: serial_ok_def)
  ultimately show ?thesis using f by (simp add: serial_ok_def send_event_def)
qed

lemma serial_other:
  assumes "serial_ok w" "hub_rows h = hub_rows (world_hub w)" "hub_events h = hub_events (world_hub w)"
    "hub_sent h = hub_sent (world_hub w)"
  shows "serial_ok (w\<lparr>world_hub := h\<rparr>)"
proof -
  have "deliveries_ok h ds = deliveries_ok (world_hub w) ds" for ds
    using assms(2-4) by (cases "(h, ds)" rule: deliveries_ok.cases) simp_all
  then show ?thesis using assms stream_ok_cong [OF assms(3,4)] by (simp add: serial_ok_def hub_ok_def)
qed

lemma stream_ok_open: "stream_ok h (case after of None \<Rightarrow> -1 | Some s \<Rightarrow> s, open_stream after h)"
  by (auto simp: stream_ok_def open_stream_def between_def filter_empty_conv)

lemma event_step_serial: "event_step True w w' \<Longrightarrow> serial_ok w \<Longrightarrow> serial_ok w'"
proof (induction rule: event_step.induct)
  case (record_numbered w rid t p s rows)
  then have "s = max_sequence (hub_rows (world_hub w))" "rows = hub_rows (world_hub w) @ [(rid, frame_of s t p)]"
    by (auto simp: insert_run_event_appending_sequence_def Let_def frame_of_def)
  with record_numbered serial_numbered [of w t p rid] show ?case by simp
next
  case (projection_numbered w rid t p s rows)
  then have "world_deliveries w = []" "s = max_sequence (hub_rows (world_hub w))"
      "rows = hub_rows (world_hub w) @ [(rid, frame_of s t p)]"
    by (auto simp: append_run_event_if_absent_def Let_def frame_of_def split: if_splits)
  with projection_numbered.prems serial_numbered [of w t p rid] show ?case by simp
next
  case (projection_again w f rid)
  then show ?case using row_below_max [of rid f] by (simp add: serial_ok_def)
next
  case (delivery_failed i w f)
  note single_delivery [OF delivery_failed.prems delivery_failed(1)]
  then have "world_deliveries w = [Numbered f]" "i = 0" using delivery_failed(2) by simp_all
  then show ?case using delivery_failed.prems by (simp add: serial_ok_def)
next
  case (pushed i w f)
  note single_delivery [OF pushed.prems pushed(1)]
  then have "world_deliveries w = [Numbered f]" "i = 0" using pushed(2) by simp_all
  then show ?case using serial_pushed [OF pushed.prems] by simp
next
  case (sent i w f)
  note single_delivery [OF sent.prems sent(1)]
  then have "world_deliveries w = [Pushed f]" "i = 0" using sent(2) by simp_all
  then show ?case using serial_sent [OF sent.prems] by simp
next
  case (subscribed w after)
  then show ?case using stream_ok_open by (auto simp: serial_ok_def)
next
  case (replayed i w)
  then show ?case by (intro serial_stream stream_ops_serial) (auto simp: serial_ok_def)
next
  case (received i w)
  then show ?case by (intro serial_stream recv_ok) (auto simp: serial_ok_def)
next
  case (saw_completion i w)
  then show ?case by (intro serial_stream stream_ops_serial) (auto simp: serial_ok_def)
next
  case (drained i w)
  then show ?case by (intro serial_stream stream_ops_serial) (auto simp: serial_ok_def)
qed (auto intro: serial_other)

lemma event_reachable_serial: "event_reachable True w \<Longrightarrow> serial_ok w"
proof (induction rule: event_reachable.induct)
  case (step w w')
  then show ?case using event_step_serial by blast
qed (simp add: serial_ok_def hub_ok_def new_hub_def)

section \<open>Every event once\<close>

text \<open>C13: Under every interleaving of producers, streams and the end of a run, a stream passes on events of
  the run with numbers above the one the client gave, in increasing order, so that none is repeated. If
  moreover the producers of the run work one after the other, and an event that was persisted earlier and
  not published is published again only before any later event is, none is missing: the drain that ends a
  stream completes its output to exactly the later events of the run, however far the stream was behind
  the channel, and a stream that waits has passed on everything that was sent.\<close>

theorem run_events_delivered_once:
  assumes "event_reachable serial w" "(a, s) \<in> set (world_streams w)"
  shows "increasing (stream_output s)
    \<and> (\<forall>f \<in> set (stream_output s). a < frame_sequence f \<and> f \<in> set (hub_events (world_hub w)))
    \<and> (serial \<longrightarrow> stream_output (stream_drain (world_hub w) s) = events_after a (hub_events (world_hub w)))
    \<and> (serial \<longrightarrow> stream_phase s = Streaming \<longrightarrow> broadcast_recv (world_hub w) (stream_position s) = MustWait
        \<longrightarrow> set (events_after a (hub_sent (world_hub w))) \<subseteq> set (stream_output s))"
proof -
  have "output_ok (world_hub w) (a, s)" using event_reachable_ok [OF assms(1)] assms(2) by (simp add: world_ok_def)
  moreover have "stream_output (stream_drain (world_hub w) s) = events_after a (hub_events (world_hub w))
      \<and> (stream_phase s = Streaming \<longrightarrow> broadcast_recv (world_hub w) (stream_position s) = MustWait
        \<longrightarrow> set (events_after a (hub_sent (world_hub w))) \<subseteq> set (stream_output s))" if serial
  proof -
    let ?h = "world_hub w"
    have "serial_ok w" using event_reachable_serial assms(1) that by simp
    then have hub: "hub_ok ?h" and ok: "stream_ok ?h (a, s)" using assms(2) by (auto simp: serial_ok_def)
    have drain: "stream_output (stream_drain ?h s) = events_after a (hub_events ?h)"
      using catch_up(1) [OF hub ok] by (simp add: stream_drain_def)
    have "set (events_after a (hub_sent ?h)) \<subseteq> set (stream_output s)"
      if "stream_phase s = Streaming" "broadcast_recv ?h (stream_position s) = MustWait"
    proof -
      have "length (hub_sent ?h) \<le> stream_position s"
        using that(2) by (auto simp: broadcast_recv_def Let_def split: if_splits)
      then have low: "\<forall>f \<in> set (hub_sent ?h). frame_sequence f \<le> stream_last s"
        using ok that(1) by (auto simp: stream_ok_def)
      moreover have "set (hub_sent ?h) \<subseteq> set (hub_events ?h)" using hub by (auto simp: hub_ok_def)
      ultimately show ?thesis using ok by (auto simp: stream_ok_def events_after_def between_def)
    qed
    with drain show ?thesis by simp
  qed
  ultimately show ?thesis by (auto simp: output_ok_def)
qed

text \<open>A run with one event, whose stream has not read it.\<close>

lemma one_event_reachable:
  "event_reachable serial \<lparr>world_hub = \<lparr>hub_rows = [(lit ''r'', frame_of 0 [] [])], hub_events = [frame_of 0 [] []],
      hub_sent = [], hub_completed = False, hub_senders = True\<rparr>,
     world_deliveries = [Pushed (frame_of 0 [] [])], world_streams = [(-1, open_stream None (new_hub []))]\<rparr>"
proof -
  let ?w0 = "\<lparr>world_hub = new_hub [], world_deliveries = [], world_streams = []\<rparr> :: EventWorld"
  let ?w1 = "?w0\<lparr>world_streams := [(-1, open_stream None (new_hub []))]\<rparr>"
  let ?w2 = "?w1\<lparr>world_hub := (new_hub [])\<lparr>hub_rows := [(lit ''r'', frame_of 0 [] [])]\<rparr>,
      world_deliveries := [Numbered (frame_of 0 [] [])]\<rparr>"
  have "event_step serial ?w0 ?w1" using event_step.subscribed [of serial ?w0 None] by simp
  moreover have "event_step serial ?w1 ?w2"
    using event_step.record_numbered [of serial ?w1 "lit ''r''" "[]" "[]" 0 "[(lit ''r'', frame_of 0 [] [])]"]
    by (simp add: insert_run_event_appending_sequence_def max_sequence_def new_hub_def frame_of_def)
  moreover have "event_step serial ?w2 (?w2\<lparr>world_hub := push_event (frame_of 0 [] []) (world_hub ?w2),
      world_deliveries := [Pushed (frame_of 0 [] [])]\<rparr>)"
    using event_step.pushed [of 0 ?w2 "frame_of 0 [] []" serial] by simp
  ultimately have "event_reachable serial (?w2\<lparr>world_hub := push_event (frame_of 0 [] []) (world_hub ?w2),
      world_deliveries := [Pushed (frame_of 0 [] [])]\<rparr>)"
    by (meson event_reachable.intros)
  then show ?thesis by (simp add: push_event_def new_hub_def)
qed

theorem run_events_delivered_once_witness:
  "stream_output (stream_drain \<lparr>hub_rows = [(lit ''r'', frame_of 0 [] [])], hub_events = [frame_of 0 [] []],
      hub_sent = [], hub_completed = False, hub_senders = True\<rparr> (open_stream None (new_hub []))) = [frame_of 0 [] []]"
  using run_events_delivered_once [OF one_event_reachable [of True], of "-1" "open_stream None (new_hub [])"]
  by (simp add: events_after_def frame_of_def)

section \<open>Producers that overlap\<close>

lemma emit_never:
  "frame_sequence f \<le> stream_last s \<Longrightarrow> f \<notin> set (stream_output s) \<Longrightarrow>
    frame_sequence f \<le> stream_last (emit_events fs s) \<and> f \<notin> set (stream_output (emit_events fs s))"
  using emit_output [of fs s] emit_last [of s fs] by fastforce

definition misses :: "ChatRunEventFrame \<Rightarrow> nat \<Rightarrow> int \<Rightarrow> EventWorld \<Rightarrow> bool" where
  "misses f i a w \<longleftrightarrow> i < length (world_streams w) \<and> fst (world_streams w ! i) = a
     \<and> frame_sequence f \<le> stream_last (snd (world_streams w ! i)) \<and> f \<notin> set (stream_output (snd (world_streams w ! i)))"

lemma misses_stream:
  assumes "misses f i a w"
    and "\<And>s. frame_sequence f \<le> stream_last s \<Longrightarrow> f \<notin> set (stream_output s) \<Longrightarrow>
      frame_sequence f \<le> stream_last (g s) \<and> f \<notin> set (stream_output (g s))"
  shows "misses f i a (on_stream j g w)"
  using assms by (cases "i = j") (auto simp: misses_def on_stream_def)

lemma misses_step: "event_step serial w w' \<Longrightarrow> misses f i a w \<Longrightarrow> misses f i a w'"
proof (induction rule: event_step.induct)
  case (replayed j w)
  show ?case by (rule misses_stream [OF replayed.prems]) (simp add: replay_stream_def emit_never)
next
  case (received j w)
  show ?case
  proof (rule misses_stream [OF received.prems])
    fix s :: RunStream assume "frame_sequence f \<le> stream_last s" "f \<notin> set (stream_output s)"
    then show "frame_sequence f \<le> stream_last (stream_recv (world_hub w) s) \<and> f \<notin> set (stream_output (stream_recv (world_hub w) s))"
      unfolding stream_recv_def by (cases "broadcast_recv (world_hub w) (stream_position s)") (simp_all only: BroadcastRecv.case, (rule emit_never; simp)+, simp_all)
  qed
next
  case (saw_completion j w)
  show ?case by (rule misses_stream [OF saw_completion.prems]) (simp add: stream_completed_def)
next
  case (drained j w)
  show ?case by (rule misses_stream [OF drained.prems]) (simp add: stream_drain_def emit_never)
qed (auto simp: misses_def nth_append)

text \<open>C24: An event whose number a stream has passed is lost for it: if a stream has already passed on a
  later event, then, whatever happens afterwards, an event with a smaller number that it did not get is
  never passed on, neither from the channel nor by the replays after a lag and at the end, although its
  number lies above the one that the client gave. Two producers that overlap bring this about.\<close>

theorem late_event_never_delivered:
  assumes "event_reachable serial w" "i < length (world_streams w)" "world_streams w ! i = (a, s)"
    and "a < frame_sequence f" "frame_sequence f \<le> stream_last s" "f \<notin> set (stream_output s)"
    and "(event_step serial)\<^sup>*\<^sup>* w w'"
  shows "i < length (world_streams w') \<and> fst (world_streams w' ! i) = a \<and> f \<notin> set (stream_output (snd (world_streams w' ! i)))"
proof -
  have "misses f i a w'"
    using assms(7)
  proof (induction rule: rtranclp_induct)
    case base
    show ?case using assms(2-6) by (simp add: misses_def)
  next
    case (step v u)
    then show ?case using misses_step by blast
  qed
  then show ?thesis by (simp add: misses_def)
qed

text \<open>A projection takes number 0, the run takes number 1 and is faster.\<close>

definition example_world :: "run_rows \<Rightarrow> ChatRunEventFrame list \<Rightarrow> ChatRunEventFrame list \<Rightarrow> bool \<Rightarrow> Delivery list
    \<Rightarrow> RunStream list \<Rightarrow> EventWorld" where
  "example_world rows events channel finished deliveries streams =
     \<lparr>world_hub = \<lparr>hub_rows = rows, hub_events = events, hub_sent = channel, hub_completed = finished, hub_senders = True\<rparr>,
      world_deliveries = deliveries, world_streams = map (Pair (-1)) streams\<rparr>"

abbreviation "event_zero \<equiv> frame_of 0 [] []"
abbreviation "event_one \<equiv> frame_of 1 [] []"
abbreviation "two_rows \<equiv> [(lit ''a'', event_zero), (lit ''b'', event_one)]"

definition passed_stream :: "StreamPhase \<Rightarrow> RunStream" where
  "passed_stream ph = \<lparr>stream_position = 0, stream_last = 1, stream_phase = ph, stream_output = [event_one]\<rparr>"

lemma overtaken_reachable:
  "event_reachable False (example_world two_rows [event_one] [] False [Numbered event_zero, Pushed event_one] [passed_stream Streaming])"
proof -
  let ?open = "\<lparr>stream_position = 0, stream_last = -1, stream_phase = Opened, stream_output = []\<rparr>"
  let ?w0 = "example_world [] [] [] False [] []" and ?w1 = "example_world [] [] [] False [] [?open]"
  let ?w2 = "example_world [(lit ''a'', event_zero)] [] [] False [Numbered event_zero] [?open]"
  let ?w3 = "example_world two_rows [] [] False [Numbered event_zero, Numbered event_one] [?open]"
  let ?w4 = "example_world two_rows [event_one] [] False [Numbered event_zero, Pushed event_one] [?open]"
  let ?w5 = "example_world two_rows [event_one] [] False [Numbered event_zero, Pushed event_one] [passed_stream Streaming]"
  have "event_reachable False ?w0" using event_reachable.start [of False "[]"] by (simp add: example_world_def new_hub_def)
  moreover have "event_step False ?w0 ?w1"
    using event_step.subscribed [of False ?w0 None] by (simp add: example_world_def open_stream_def)
  moreover have "event_step False ?w1 ?w2"
    using event_step.projection_numbered [of False ?w1 "lit ''a''" "[]" "[]" 0 "[(lit ''a'', event_zero)]"]
    by (simp add: example_world_def append_run_event_if_absent_def max_sequence_def frame_of_def)
  moreover have "event_step False ?w2 ?w3"
    using event_step.record_numbered [of False ?w2 "lit ''b''" "[]" "[]" 1 two_rows]
    by (simp add: example_world_def insert_run_event_appending_sequence_def max_sequence_def frame_of_def)
  moreover have "event_step False ?w3 ?w4"
    using event_step.pushed [of 1 ?w3 event_one False] by (simp add: example_world_def push_event_def)
  moreover have "event_step False ?w4 ?w5"
    using event_step.replayed [of 0 ?w4 False]
    by (simp add: example_world_def on_stream_def replay_stream_def events_after_def frame_of_def passed_stream_def)
  ultimately show ?thesis by (meson event_reachable.step)
qed

theorem late_event_never_delivered_witness:
  "\<exists>w s. event_reachable False w \<and> (-1, s) \<in> set (world_streams w) \<and> stream_phase s = Ended
     \<and> event_zero \<in> set (hub_events (world_hub w)) \<and> event_zero \<notin> set (stream_output s)"
proof -
  let ?v0 = "example_world two_rows [event_one] [] False [Numbered event_zero, Pushed event_one] [passed_stream Streaming]"
  let ?v1 = "example_world two_rows [event_one, event_zero] [] False [Pushed event_zero, Pushed event_one] [passed_stream Streaming]"
  let ?v2 = "example_world two_rows [event_one, event_zero] [] True [Pushed event_zero, Pushed event_one] [passed_stream Streaming]"
  let ?v3 = "example_world two_rows [event_one, event_zero] [] True [Pushed event_zero, Pushed event_one] [passed_stream Terminal]"
  let ?v4 = "on_stream 0 (stream_drain (world_hub ?v3)) ?v3"
  have "event_step False ?v0 ?v1"
    using event_step.pushed [of 0 ?v0 event_zero False] by (simp add: example_world_def push_event_def)
  moreover have "event_step False ?v1 ?v2"
    using event_step.completed [of False ?v1] by (simp add: example_world_def)
  moreover have "event_step False ?v2 ?v3"
    using event_step.saw_completion [of 0 ?v2 False]
    by (simp add: example_world_def on_stream_def stream_completed_def passed_stream_def)
  moreover have "event_step False ?v3 ?v4"
    using event_step.drained [of 0 ?v3 False] by (simp add: example_world_def passed_stream_def)
  ultimately have steps: "(event_step False)\<^sup>*\<^sup>* ?v0 ?v4" by (meson converse_rtranclp_into_rtranclp rtranclp.rtrancl_refl)
  have "event_zero \<notin> set (stream_output (snd (world_streams ?v4 ! 0)))"
    using late_event_never_delivered [OF overtaken_reachable, of 0 "-1" "passed_stream Streaming" event_zero, OF _ _ _ _ _ steps]
    by (simp add: example_world_def passed_stream_def frame_of_def)
  moreover have "event_reachable False ?v4"
    using steps overtaken_reachable by (induction rule: rtranclp_induct) (auto intro: event_reachable.step)
  moreover have "(-1, snd (world_streams ?v4 ! 0)) \<in> set (world_streams ?v4)"
    "stream_phase (snd (world_streams ?v4 ! 0)) = Ended" "event_zero \<in> set (hub_events (world_hub ?v4))"
    by (simp_all add: example_world_def on_stream_def stream_drain_def)
  ultimately show ?thesis by blast
qed

end
