(* ===== verification/Run_Registry.thy ===== *)
theory Run_Registry
  imports Run_Events Question_Registry
begin

text \<open>
  The registry of active chat runs (\<open>app/runtime/subscriptions.rs\<close>, \<open>ActiveChatRunRegistry\<close>). It maps
  the identifier of a run to what others need of it: its owner, the channel for guidance, the handles for
  its cancellation and its events. A registration holds the other end and takes the run out when it
  finishes. What both sides share is kept by index; the hub of events is the one of \<open>Run_Events\<close>. Each
  operation under the lock of the registry is one step; finishing is two, the mark of completion and
  the removal. The lock is never poisoned, and the order of the hash map is that of a list.
\<close>

section \<open>State\<close>

record ActiveAgentRunIdentity =
  ident_team :: rstr
  ident_instance :: rstr
  ident_task :: rstr
  ident_attempt :: rstr

record GuidanceMessage =
  guidance_id :: rstr
  guidance_content :: rstr
  guidance_attachments :: "rstr list"
  guidance_source :: rstr
  guidance_interrupted :: "rstr option"

record ActiveChatRun =
  act_workspace :: rstr
  act_chat :: rstr
  act_assistant_message :: rstr
  act_assistant_sequence :: int
  act_queued_user_message :: "rstr option"
  act_identity :: "ActiveAgentRunIdentity option"
  act_primary :: bool
  act_accepting_guidance :: bool
  act_shared :: nat

text \<open>The registration is live, has marked the run as completed, or has removed it.\<close>

datatype RegistrationPhase = RunLive | RunCompleted | RunReleased

record RunShared =
  shared_run_id :: rstr
  shared_phase :: RegistrationPhase
  shared_hub :: RunHub
  shared_cancelled :: bool
  shared_reason :: "rstr option"
  shared_guidance :: "GuidanceMessage list"
  shared_guidance_open :: bool

record RunWorld =
  reg_runs :: "(rstr \<times> ActiveChatRun) list"
  reg_shared :: "RunShared list"

definition run_completed :: "RunWorld \<Rightarrow> ActiveChatRun \<Rightarrow> bool" where
  "run_completed w r \<longleftrightarrow> hub_completed (shared_hub (reg_shared w ! act_shared r))"

definition change_shared :: "nat \<Rightarrow> (RunShared \<Rightarrow> RunShared) \<Rightarrow> RunWorld \<Rightarrow> RunWorld" where
  "change_shared i f w = w\<lparr>reg_shared := (reg_shared w)[i := f (reg_shared w ! i)]\<rparr>"

section \<open>Registration\<close>

datatype RegistrationResult = RunRegistered nat | RunExisting

record RunRequest =
  req_run_id :: rstr
  req_run :: ActiveChatRun
  req_next_sequence :: int

definition same_owner :: "ActiveChatRun \<Rightarrow> ActiveChatRun \<Rightarrow> bool" where
  "same_owner a b \<longleftrightarrow> act_workspace a = act_workspace b \<and> act_chat a = act_chat b
     \<and> act_assistant_message a = act_assistant_message b \<and> act_assistant_sequence a = act_assistant_sequence b
     \<and> act_queued_user_message a = act_queued_user_message b \<and> act_identity a = act_identity b
     \<and> act_primary a = act_primary b"

definition primary_run_of :: "RunWorld \<Rightarrow> rstr \<Rightarrow> rstr \<Rightarrow> (rstr \<times> ActiveChatRun) option" where
  "primary_run_of w workspace_id chat_id =
     find (\<lambda>(_, r). act_workspace r = workspace_id \<and> act_chat r = chat_id \<and> act_primary r \<and> \<not> run_completed w r) (reg_runs w)"

definition new_shared :: "rstr \<Rightarrow> run_rows \<Rightarrow> RunShared" where
  "new_shared run_id rows = \<lparr>shared_run_id = run_id, shared_phase = RunLive, shared_hub = new_hub rows,
     shared_cancelled = False, shared_reason = None, shared_guidance = [], shared_guidance_open = True\<rparr>"

text \<open>The fields of the request that the registry sets itself are overwritten.\<close>

definition register_with_agent_identity :: "run_rows \<Rightarrow> RunRequest \<Rightarrow> RunWorld
    \<Rightarrow> (ApiError + RegistrationResult) \<times> RunWorld" where
  "register_with_agent_identity rows q w =
     (if req_next_sequence q < 0
      then (Inl (InternalError (lit ''active chat run sequence must be non-negative'')), w)
      else case map_of (reg_runs w) (req_run_id q) of
        Some existing \<Rightarrow>
          if same_owner existing (req_run q) \<and> \<not> run_completed w existing then (Inr RunExisting, w)
          else (Inl (Conflict (lit ''active chat run id '' @ quote_id (req_run_id q)
                  @ lit '' is already owned by a different or completed run'')), w)
      | None \<Rightarrow>
     (case (if act_primary (req_run q) then primary_run_of w (act_workspace (req_run q)) (act_chat (req_run q)) else None) of
        Some (existing_run_id, _) \<Rightarrow> (Inl (Conflict (lit ''chat '' @ quote_id (act_chat (req_run q))
            @ lit '' already has primary active run '' @ quote_id existing_run_id)), w)
      | None \<Rightarrow>
          (let i = length (reg_shared w)
           in (Inr (RunRegistered i),
               w\<lparr>reg_runs := AList.update (req_run_id q)
                   ((req_run q)\<lparr>act_accepting_guidance := True, act_shared := i\<rparr>) (reg_runs w),
                 reg_shared := reg_shared w @ [new_shared (req_run_id q) rows]\<rparr>))))"

text \<open>The two wrappers that do not attach to an existing run.\<close>

definition register_run :: "run_rows \<Rightarrow> RunRequest \<Rightarrow> RunWorld \<Rightarrow> (ApiError + nat) \<times> RunWorld" where
  "register_run rows q w =
     (case register_with_agent_identity rows q w of
        (Inl e, w') \<Rightarrow> (Inl e, w')
      | (Inr (RunRegistered i), w') \<Rightarrow> (Inr i, w')
      | (Inr RunExisting, w') \<Rightarrow> (Inl (Conflict
          (lit ''active chat run is already registered; use the durable identity registration API to replay it'')), w'))"

definition mark_run_completed :: "nat \<Rightarrow> RunWorld \<Rightarrow> RunWorld" where
  "mark_run_completed i w = change_shared i (\<lambda>s. s\<lparr>shared_phase := RunCompleted,
     shared_hub := (shared_hub s)\<lparr>hub_completed := True\<rparr>\<rparr>) w"

definition unregister_run :: "nat \<Rightarrow> RunWorld \<Rightarrow> RunWorld" where
  "unregister_run i w = change_shared i (\<lambda>s. s\<lparr>shared_phase := RunReleased\<rparr>)
     (w\<lparr>reg_runs := AList.delete (shared_run_id (reg_shared w ! i)) (reg_runs w)\<rparr>)"

section \<open>What others do with a run\<close>

definition stop_accepting_guidance :: "rstr \<Rightarrow> RunWorld \<Rightarrow> RunWorld" where
  "stop_accepting_guidance run_id w =
     w\<lparr>reg_runs := map (\<lambda>(k, r). (k, if k = run_id then r\<lparr>act_accepting_guidance := False\<rparr> else r)) (reg_runs w)\<rparr>"

record ActiveChatRunSummary =
  sum_run_id :: rstr
  sum_run :: ActiveChatRun
  sum_last_sequence :: "int option"

definition active_run_for_chat :: "rstr \<Rightarrow> rstr \<Rightarrow> RunWorld \<Rightarrow> ActiveChatRunSummary option" where
  "active_run_for_chat workspace_id chat_id w =
     map_option (\<lambda>(k, r).
        (let events = hub_events (shared_hub (reg_shared w ! act_shared r))
         in \<lparr>sum_run_id = k, sum_run = r,
             sum_last_sequence = (if events = [] then None else Some (frame_sequence (last events)))\<rparr>))
       (primary_run_of w workspace_id chat_id)"

definition find_run :: "rstr \<Rightarrow> rstr \<Rightarrow> RunWorld \<Rightarrow> ApiError + ActiveChatRun" where
  "find_run workspace_id run_id w =
     (case map_of (reg_runs w) run_id of
        None \<Rightarrow> Inl (BadRequest (lit ''active chat run was not found: '' @ run_id))
      | Some r \<Rightarrow>
          if act_workspace r \<noteq> workspace_id
          then Inl (BadRequest (lit ''active chat run '' @ run_id @ lit '' belongs to workspace '' @ act_workspace r
                 @ lit '', not '' @ workspace_id))
          else Inr r)"

text \<open>\<open>publish_persisted_event\<close> looks for the run under the lock and pushes and sends afterwards.\<close>

definition publish_target :: "rstr \<Rightarrow> rstr \<Rightarrow> RunWorld \<Rightarrow> nat option" where
  "publish_target workspace_id run_id w =
     (case map_of (reg_runs w) run_id of
        Some r \<Rightarrow> if act_workspace r = workspace_id \<and> \<not> run_completed w r then Some (act_shared r) else None
      | None \<Rightarrow> None)"

definition subscribe_run :: "rstr \<Rightarrow> rstr \<Rightarrow> int option \<Rightarrow> RunWorld \<Rightarrow> ApiError + nat \<times> RunStream" where
  "subscribe_run workspace_id run_id after_sequence w =
     map_sum id (\<lambda>r. (act_shared r, open_stream after_sequence (shared_hub (reg_shared w ! act_shared r))))
       (find_run workspace_id run_id w)"

definition cancel_with_reason :: "rstr \<Rightarrow> RunShared \<Rightarrow> RunShared" where
  "cancel_with_reason reason s = s\<lparr>shared_reason := (case shared_reason s of None \<Rightarrow> Some reason | Some r \<Rightarrow> Some r),
     shared_cancelled := True\<rparr>"

definition cancel_run :: "rstr \<Rightarrow> rstr \<Rightarrow> RunWorld \<Rightarrow> (ApiError + unit) \<times> RunWorld" where
  "cancel_run workspace_id run_id w =
     (case find_run workspace_id run_id w of
        Inl e \<Rightarrow> (Inl e, w)
      | Inr r \<Rightarrow> (Inr (), change_shared (act_shared r) (cancel_with_reason (lit ''agent run cancelled'')) w))"

definition cancellation_handles_for_agent_tasks :: "rstr \<Rightarrow> rstr list \<Rightarrow> RunWorld \<Rightarrow> (rstr \<times> nat) list" where
  "cancellation_handles_for_agent_tasks workspace_id task_ids w =
     List.map_filter (\<lambda>(_, r). case act_identity r of
         None \<Rightarrow> None
       | Some ident \<Rightarrow> if act_workspace r = workspace_id \<and> \<not> run_completed w r \<and> ident_task ident \<in> set task_ids
           then Some (ident_task ident, act_shared r) else None) (reg_runs w)"

definition normalized_required_text :: "rstr \<Rightarrow> rstr \<Rightarrow> ApiError + rstr" where
  "normalized_required_text field v =
     (if trim v = [] then Inl (BadRequest (field @ lit '' must not be empty'')) else Inr (trim v))"

definition normalized_chat_message :: "rstr \<Rightarrow> ApiError + rstr" where
  "normalized_chat_message m = (if trim m = [] then Inl (BadRequest (lit ''message must not be empty'')) else Inr (trim m))"

definition send_guidance :: "GuidanceMessage \<Rightarrow> RunShared \<Rightarrow> RunShared" where
  "send_guidance g s = s\<lparr>shared_guidance := shared_guidance s @ [g]\<rparr>"

text \<open>Guidance from the user; the check of the attachments is an input, and so is the new identifier.\<close>

definition push_guidance :: "rstr \<Rightarrow> rstr \<Rightarrow> rstr \<Rightarrow> rstr \<Rightarrow> ApiError + rstr list \<Rightarrow> rstr \<Rightarrow> RunWorld
    \<Rightarrow> (ApiError + GuidanceMessage) \<times> RunWorld" where
  "push_guidance workspace chat run message attachments new_id w =
     (case normalized_required_text (lit ''workspaceId'') workspace of Inl e \<Rightarrow> (Inl e, w) | Inr workspace_id \<Rightarrow>
     (case normalized_required_text (lit ''chatId'') chat of Inl e \<Rightarrow> (Inl e, w) | Inr chat_id \<Rightarrow>
     (case normalized_required_text (lit ''runId'') run of Inl e \<Rightarrow> (Inl e, w) | Inr run_id \<Rightarrow>
     (case normalized_chat_message message of Inl e \<Rightarrow> (Inl e, w) | Inr content \<Rightarrow>
     (case attachments of Inl e \<Rightarrow> (Inl e, w) | Inr files \<Rightarrow>
     (case find_run workspace_id run_id w of Inl e \<Rightarrow> (Inl e, w) | Inr r \<Rightarrow>
        if act_chat r \<noteq> chat_id
        then (Inl (BadRequest (lit ''active chat run '' @ run_id @ lit '' belongs to chat '' @ act_chat r @ lit '', not '' @ chat_id)), w)
        else if \<not> act_accepting_guidance r \<or> \<not> shared_guidance_open (reg_shared w ! act_shared r)
        then (Inl (BadRequest (lit ''active chat run is no longer accepting guidance: '' @ run_id)), w)
        else (let g = \<lparr>guidance_id = new_id, guidance_content = content, guidance_attachments = files,
                guidance_source = lit ''manualGuidance'', guidance_interrupted = None\<rparr>
              in (Inr g, change_shared (act_shared r) (send_guidance g) w))))))))"

datatype AgentMessageGuidanceDelivery = DeliveredGuidance | QueuedGuidance

definition matches_receiver :: "RunWorld \<Rightarrow> rstr \<Rightarrow> rstr \<Rightarrow> rstr \<Rightarrow> rstr option \<Rightarrow> ActiveChatRun \<Rightarrow> bool" where
  "matches_receiver w workspace_id team_id receiver related_task r =
     (case act_identity r of
        None \<Rightarrow> False
      | Some ident \<Rightarrow> act_workspace r = workspace_id \<and> act_accepting_guidance r \<and> \<not> run_completed w r
          \<and> ident_team ident = team_id \<and> ident_instance ident = receiver
          \<and> (case related_task of None \<Rightarrow> True | Some t \<Rightarrow> ident_task ident = t))"

definition deliver_agent_message_guidance :: "rstr \<Rightarrow> rstr \<Rightarrow> rstr \<Rightarrow> rstr option \<Rightarrow> GuidanceMessage \<Rightarrow> RunWorld
    \<Rightarrow> AgentMessageGuidanceDelivery \<times> RunWorld" where
  "deliver_agent_message_guidance workspace_id team_id receiver related_task g w =
     (case filter (matches_receiver w workspace_id team_id receiver related_task) (map snd (reg_runs w)) of
        [r] \<Rightarrow> if shared_guidance_open (reg_shared w ! act_shared r)
               then (DeliveredGuidance, change_shared (act_shared r) (send_guidance g) w)
               else (QueuedGuidance, w)
      | _ \<Rightarrow> (QueuedGuidance, w))"

section \<open>Interleaving\<close>

text \<open>Changes of what a run shares that leave its registration as it is: events, guidance, cancellation.\<close>

definition keeps_registration :: "(RunShared \<Rightarrow> RunShared) \<Rightarrow> bool" where
  "keeps_registration f \<longleftrightarrow> (\<forall>s. shared_run_id (f s) = shared_run_id s \<and> shared_phase (f s) = shared_phase s
     \<and> hub_completed (shared_hub (f s)) = hub_completed (shared_hub s))"

inductive registry_step_run :: "RunWorld \<Rightarrow> RunWorld \<Rightarrow> bool" where
  registers: "registry_step_run w (snd (register_with_agent_identity rows q w))"
| completes: "\<lbrakk>i < length (reg_shared w); shared_phase (reg_shared w ! i) = RunLive\<rbrakk>
    \<Longrightarrow> registry_step_run w (mark_run_completed i w)"
| unregisters: "\<lbrakk>i < length (reg_shared w); shared_phase (reg_shared w ! i) = RunCompleted\<rbrakk>
    \<Longrightarrow> registry_step_run w (unregister_run i w)"
| stops_guidance: "registry_step_run w (stop_accepting_guidance run_id w)"
| guides: "registry_step_run w (snd (push_guidance workspace chat run message attachments new_id w))"
| messages: "registry_step_run w (snd (deliver_agent_message_guidance workspace team receiver related g w))"
| cancels: "registry_step_run w (snd (cancel_run workspace run_id w))"
| works: "keeps_registration f \<Longrightarrow> registry_step_run w (change_shared i f w)"

inductive registry_reachable_run :: "RunWorld \<Rightarrow> bool" where
  start: "registry_reachable_run \<lparr>reg_runs = [], reg_shared = []\<rparr>"
| step: "\<lbrakk>registry_reachable_run w; registry_step_run w w'\<rbrakk> \<Longrightarrow> registry_reachable_run w'"

section \<open>The entries are the registrations\<close>

definition shared_inv :: "RunWorld \<Rightarrow> bool" where
  "shared_inv w \<longleftrightarrow> distinct (map fst (reg_runs w))
     \<and> (\<forall>(k, r) \<in> set (reg_runs w). act_shared r < length (reg_shared w)
          \<and> shared_run_id (reg_shared w ! act_shared r) = k \<and> shared_phase (reg_shared w ! act_shared r) \<noteq> RunReleased)
     \<and> (\<forall>i < length (reg_shared w). shared_phase (reg_shared w ! i) \<noteq> RunReleased
          \<longrightarrow> (\<exists>r. (shared_run_id (reg_shared w ! i), r) \<in> set (reg_runs w) \<and> act_shared r = i))
     \<and> (\<forall>i < length (reg_shared w). hub_completed (shared_hub (reg_shared w ! i)) \<longleftrightarrow> shared_phase (reg_shared w ! i) \<noteq> RunLive)"

definition primary_inv :: "RunWorld \<Rightarrow> bool" where
  "primary_inv w \<longleftrightarrow> (\<forall>(k, r) \<in> set (reg_runs w). \<forall>(k', r') \<in> set (reg_runs w).
     act_primary r \<and> act_primary r' \<and> \<not> run_completed w r \<and> \<not> run_completed w r'
       \<and> act_workspace r = act_workspace r' \<and> act_chat r = act_chat r' \<longrightarrow> k = k')"

lemma primary_invD:
  "primary_inv w \<Longrightarrow> (k, r) \<in> set (reg_runs w) \<Longrightarrow> (k', r') \<in> set (reg_runs w) \<Longrightarrow> act_primary r \<Longrightarrow> act_primary r'
    \<Longrightarrow> \<not> run_completed w r \<Longrightarrow> \<not> run_completed w r' \<Longrightarrow> act_workspace r = act_workspace r' \<Longrightarrow> act_chat r = act_chat r' \<Longrightarrow> k = k'"
  unfolding primary_inv_def by blast

text \<open>Entries that come from entries keep the exclusion.\<close>

lemma primary_inv_sub:
  assumes "primary_inv w"
    and sub: "\<And>k r. (k, r) \<in> set (reg_runs w') \<Longrightarrow> \<not> run_completed w' r \<Longrightarrow> \<exists>r0. (k, r0) \<in> set (reg_runs w)
      \<and> \<not> run_completed w r0 \<and> act_primary r0 = act_primary r \<and> act_workspace r0 = act_workspace r \<and> act_chat r0 = act_chat r"
  shows "primary_inv w'"
  unfolding primary_inv_def
proof clarify
  fix k r k' r'
  assume a: "(k, r) \<in> set (reg_runs w')" "(k', r') \<in> set (reg_runs w')" "act_primary r" "act_primary r'"
    "\<not> run_completed w' r" "\<not> run_completed w' r'" "act_workspace r = act_workspace r'" "act_chat r = act_chat r'"
  from sub [OF a(1,5)] obtain r0 where r0: "(k, r0) \<in> set (reg_runs w)" "\<not> run_completed w r0" "act_primary r0 = act_primary r"
      "act_workspace r0 = act_workspace r" "act_chat r0 = act_chat r" by blast
  from sub [OF a(2,6)] obtain r1 where r1: "(k', r1) \<in> set (reg_runs w)" "\<not> run_completed w r1" "act_primary r1 = act_primary r'"
      "act_workspace r1 = act_workspace r'" "act_chat r1 = act_chat r'" by blast
  show "k = k'" using primary_invD [OF assms(1) r0(1) r1(1)] r0(2-) r1(2-) a by simp
qed

lemma shared_invI:
  assumes "distinct (map fst (reg_runs w))"
    and "\<And>k r. (k, r) \<in> set (reg_runs w) \<Longrightarrow> act_shared r < length (reg_shared w)
      \<and> shared_run_id (reg_shared w ! act_shared r) = k \<and> shared_phase (reg_shared w ! act_shared r) \<noteq> RunReleased"
    and "\<And>i. i < length (reg_shared w) \<Longrightarrow> shared_phase (reg_shared w ! i) \<noteq> RunReleased
      \<Longrightarrow> \<exists>r. (shared_run_id (reg_shared w ! i), r) \<in> set (reg_runs w) \<and> act_shared r = i"
    and "\<And>i. i < length (reg_shared w) \<Longrightarrow>
      hub_completed (shared_hub (reg_shared w ! i)) \<longleftrightarrow> shared_phase (reg_shared w ! i) \<noteq> RunLive"
  shows "shared_inv w"
  using assms unfolding shared_inv_def by blast

lemma shared_invD:
  assumes "shared_inv w"
  shows "distinct (map fst (reg_runs w))"
    and "(k, r) \<in> set (reg_runs w) \<Longrightarrow> act_shared r < length (reg_shared w)"
    and "(k, r) \<in> set (reg_runs w) \<Longrightarrow> shared_run_id (reg_shared w ! act_shared r) = k"
    and "(k, r) \<in> set (reg_runs w) \<Longrightarrow> shared_phase (reg_shared w ! act_shared r) \<noteq> RunReleased"
    and "i < length (reg_shared w) \<Longrightarrow> shared_phase (reg_shared w ! i) \<noteq> RunReleased
      \<Longrightarrow> \<exists>r. (shared_run_id (reg_shared w ! i), r) \<in> set (reg_runs w) \<and> act_shared r = i"
    and "i < length (reg_shared w) \<Longrightarrow>
      hub_completed (shared_hub (reg_shared w ! i)) \<longleftrightarrow> shared_phase (reg_shared w ! i) \<noteq> RunLive"
  using assms unfolding shared_inv_def by (blast, blast, blast, blast, blast, blast)

lemma nth_change: "i < length (reg_shared w) \<Longrightarrow>
    reg_shared (change_shared j f w) ! i = (if i = j then f (reg_shared w ! i) else reg_shared w ! i)"
  by (auto simp: change_shared_def nth_list_update)

lemma change_frame [simp]: "reg_runs (change_shared i f w) = reg_runs w"
  "length (reg_shared (change_shared i f w)) = length (reg_shared w)"
  by (simp_all add: change_shared_def)

lemma shared_inv_keeps:
  assumes inv: "shared_inv w" "primary_inv w" and f: "keeps_registration f"
  shows "shared_inv (change_shared i f w)" "primary_inv (change_shared i f w)"
proof -
  have same: "shared_run_id (reg_shared (change_shared i f w) ! j) = shared_run_id (reg_shared w ! j)
      \<and> shared_phase (reg_shared (change_shared i f w) ! j) = shared_phase (reg_shared w ! j)
      \<and> hub_completed (shared_hub (reg_shared (change_shared i f w) ! j)) = hub_completed (shared_hub (reg_shared w ! j))"
    if "j < length (reg_shared w)" for j
    using f that by (simp add: nth_change keeps_registration_def)
  show "shared_inv (change_shared i f w)" using inv(1) same unfolding shared_inv_def by fastforce
  have "run_completed (change_shared i f w) r = run_completed w r" if "(k, r) \<in> set (reg_runs w)" for k r
    using inv(1) that same unfolding shared_inv_def run_completed_def by fastforce
  then show "primary_inv (change_shared i f w)"
    using inv(2) unfolding primary_inv_def change_frame by fastforce
qed

lemma update_new_key: "k \<notin> fst ` set al \<Longrightarrow> AList.update k v al = al @ [(k, v)]"
  by (induction al) auto

lemma register_run_inv:
  assumes inv: "shared_inv w" "primary_inv w"
  shows "shared_inv (snd (register_with_agent_identity rows q w)) \<and> primary_inv (snd (register_with_agent_identity rows q w))"
proof (cases "\<exists>i. fst (register_with_agent_identity rows q w) = Inr (RunRegistered i)")
  case False
  then have "snd (register_with_agent_identity rows q w) = w"
    by (auto simp: register_with_agent_identity_def Let_def split: option.splits if_splits)
  then show ?thesis using inv by simp
next
  case True
  let ?i = "length (reg_shared w)" and ?r = "(req_run q)\<lparr>act_accepting_guidance := True, act_shared := length (reg_shared w)\<rparr>"
  define w' where "w' = snd (register_with_agent_identity rows q w)"
  from True have new: "map_of (reg_runs w) (req_run_id q) = None"
    and free: "act_primary ?r \<longrightarrow> primary_run_of w (act_workspace ?r) (act_chat ?r) = None"
    by (auto simp: register_with_agent_identity_def Let_def split: option.splits if_splits)
  then have key: "req_run_id q \<notin> fst ` set (reg_runs w)" by (simp add: map_of_eq_None_iff)
  from True new free have w': "reg_runs w' = reg_runs w @ [(req_run_id q, ?r)]" "reg_shared w' = reg_shared w @ [new_shared (req_run_id q) rows]"
    by (auto simp: w'_def register_with_agent_identity_def Let_def update_new_key [OF key] split: option.splits if_splits)
  have same: "reg_shared w' ! i = reg_shared w ! i" if "i < ?i" for i using that by (simp add: w' nth_append)
  have last_one: "reg_shared w' ! ?i = new_shared (req_run_id q) rows" by (simp add: w')
  have "shared_inv w'"
  proof (rule shared_invI)
    show "distinct (map fst (reg_runs w'))" using shared_invD(1) [OF inv(1)] key by (simp add: w')
    show "act_shared r < length (reg_shared w') \<and> shared_run_id (reg_shared w' ! act_shared r) = k
        \<and> shared_phase (reg_shared w' ! act_shared r) \<noteq> RunReleased" if "(k, r) \<in> set (reg_runs w')" for k r
    proof (cases "(k, r) \<in> set (reg_runs w)")
      case True
      from shared_invD(2-4) [OF inv(1) True] same show ?thesis by (simp add: w'(2))
    next
      case False
      with that have "k = req_run_id q" "r = ?r" by (auto simp: w'(1))
      then show ?thesis using last_one by (simp add: new_shared_def w'(2))
    qed
    show "\<exists>r. (shared_run_id (reg_shared w' ! i), r) \<in> set (reg_runs w') \<and> act_shared r = i"
      if "i < length (reg_shared w')" "shared_phase (reg_shared w' ! i) \<noteq> RunReleased" for i
    proof (cases "i < ?i")
      case True
      with that same shared_invD(5) [OF inv(1) True] show ?thesis by (auto simp: w'(1))
    next
      case False
      with that have "i = ?i" by (simp add: w'(2))
      then show ?thesis using last_one by (auto simp: w'(1) new_shared_def intro!: exI [of _ ?r])
    qed
    show "hub_completed (shared_hub (reg_shared w' ! i)) \<longleftrightarrow> shared_phase (reg_shared w' ! i) \<noteq> RunLive"
      if "i < length (reg_shared w')" for i
      using that same [of i] last_one shared_invD(6) [OF inv(1), of i] by (cases "i < ?i") (auto simp: w'(2) new_shared_def new_hub_def less_Suc_eq)
  qed
  moreover have "primary_inv w'"
    unfolding primary_inv_def
  proof clarify
    fix k r k' r'
    assume a: "(k, r) \<in> set (reg_runs w')" "(k', r') \<in> set (reg_runs w')" "act_primary r" "act_primary r'"
      "\<not> run_completed w' r" "\<not> run_completed w' r'" "act_workspace r = act_workspace r'" "act_chat r = act_chat r'"
    have old: "run_completed w' x = run_completed w x" if "(j, x) \<in> set (reg_runs w)" for j x
      using shared_invD(2) [OF inv(1) that] same by (simp add: run_completed_def)
    have clash: False if "(j, x) \<in> set (reg_runs w)" "act_primary x" "\<not> run_completed w' x" "act_workspace x = act_workspace ?r"
        "act_chat x = act_chat ?r" "act_primary ?r" for j x
      using free that old [OF that(1)] by (fastforce simp: primary_run_of_def find_None_iff)
    from a(1,2) consider "(k, r) \<in> set (reg_runs w)" "(k', r') \<in> set (reg_runs w)"
      | "(k, r) \<in> set (reg_runs w)" "r' = ?r" | "(k', r') \<in> set (reg_runs w)" "r = ?r" | "k = k'"
      by (auto simp: w'(1))
    then show "k = k'"
    proof cases
      case 1
      then show ?thesis using primary_invD [OF inv(2) 1] a old by simp
    next
      case 2
      then show ?thesis using clash [OF 2(1)] a by simp
    next
      case 3
      then show ?thesis using clash [OF 3(1)] a by simp
    qed
  qed
  ultimately show ?thesis by (simp add: w'_def)
qed

lemma completed_inv:
  assumes inv: "shared_inv w" "primary_inv w" and i: "i < length (reg_shared w)" "shared_phase (reg_shared w ! i) = RunLive"
  shows "shared_inv (mark_run_completed i w)" "primary_inv (mark_run_completed i w)"
proof -
  have entry: "\<exists>r. (shared_run_id (reg_shared w ! i), r) \<in> set (reg_runs w) \<and> act_shared r = i"
    using shared_invD(5) [OF inv(1) i(1)] i(2) by simp
  have frame: "reg_runs (mark_run_completed i w) = reg_runs w" "length (reg_shared (mark_run_completed i w)) = length (reg_shared w)"
    and at: "\<And>j. j < length (reg_shared w) \<Longrightarrow> reg_shared (mark_run_completed i w) ! j = (if j = i
      then (reg_shared w ! i)\<lparr>shared_phase := RunCompleted, shared_hub := (shared_hub (reg_shared w ! i))\<lparr>hub_completed := True\<rparr>\<rparr>
      else reg_shared w ! j)"
    by (simp_all add: mark_run_completed_def nth_change)
  show "shared_inv (mark_run_completed i w)"
  proof (rule shared_invI)
    show "act_shared r < length (reg_shared (mark_run_completed i w)) \<and> shared_run_id (reg_shared (mark_run_completed i w) ! act_shared r) = k
        \<and> shared_phase (reg_shared (mark_run_completed i w) ! act_shared r) \<noteq> RunReleased"
      if "(k, r) \<in> set (reg_runs (mark_run_completed i w))" for k r
      using that shared_invD(2-4) [OF inv(1), of k r] by (auto simp: frame at)
    show "\<exists>r. (shared_run_id (reg_shared (mark_run_completed i w) ! j), r) \<in> set (reg_runs (mark_run_completed i w)) \<and> act_shared r = j"
      if "j < length (reg_shared (mark_run_completed i w))" "shared_phase (reg_shared (mark_run_completed i w) ! j) \<noteq> RunReleased" for j
      using that entry shared_invD(5) [OF inv(1), of j] by (cases "j = i") (simp_all add: frame at)
    show "hub_completed (shared_hub (reg_shared (mark_run_completed i w) ! j)) \<longleftrightarrow> shared_phase (reg_shared (mark_run_completed i w) ! j) \<noteq> RunLive"
      if "j < length (reg_shared (mark_run_completed i w))" for j
      using that shared_invD(6) [OF inv(1), of j] by (simp add: frame at)
    show "distinct (map fst (reg_runs (mark_run_completed i w)))" using shared_invD(1) [OF inv(1)] by (simp add: frame)
  qed
  have "\<not> run_completed w r" if "\<not> run_completed (mark_run_completed i w) r" "(k, r) \<in> set (reg_runs w)" for k r
    using that shared_invD(2) [OF inv(1) that(2)]
    by (auto simp: run_completed_def mark_run_completed_def nth_change split: if_splits)
  then show "primary_inv (mark_run_completed i w)"
    by (intro primary_inv_sub [OF inv(2)]) (auto simp: mark_run_completed_def)
qed

lemma unregistered_inv:
  assumes inv: "shared_inv w" "primary_inv w" and i: "i < length (reg_shared w)" "shared_phase (reg_shared w ! i) = RunCompleted"
  shows "shared_inv (unregister_run i w)" "primary_inv (unregister_run i w)"
proof -
  let ?k = "shared_run_id (reg_shared w ! i)"
  have runs: "set (reg_runs (unregister_run i w)) = {(k, r) \<in> set (reg_runs w). k \<noteq> ?k}"
    by (auto simp: unregister_run_def AList.delete_eq)
  have shared: "reg_shared (unregister_run i w) = (reg_shared w)[i := (reg_shared w ! i)\<lparr>shared_phase := RunReleased\<rparr>]"
    by (simp add: unregister_run_def change_shared_def)
  obtain r where r: "(?k, r) \<in> set (reg_runs w)" "act_shared r = i" using inv(1) i by (auto simp: shared_inv_def)
  have own: "k = ?k \<longleftrightarrow> act_shared r' = i" if "(k, r') \<in> set (reg_runs w)" for k r'
  proof
    assume "k = ?k"
    with that r have "r' = r" using inv(1) eq_key_imp_eq_value unfolding shared_inv_def by metis
    with r show "act_shared r' = i" by simp
  next
    assume "act_shared r' = i"
    then show "k = ?k" using inv(1) that by (auto simp: shared_inv_def)
  qed
  have "distinct (map fst (reg_runs (unregister_run i w)))"
    using inv(1) by (simp add: unregister_run_def shared_inv_def distinct_delete)
  then show "shared_inv (unregister_run i w)"
  proof (rule shared_invI)
    show "act_shared r' < length (reg_shared (unregister_run i w)) \<and> shared_run_id (reg_shared (unregister_run i w) ! act_shared r') = k
        \<and> shared_phase (reg_shared (unregister_run i w) ! act_shared r') \<noteq> RunReleased"
      if "(k, r') \<in> set (reg_runs (unregister_run i w))" for k r'
    proof -
      from that have "(k, r') \<in> set (reg_runs w)" "act_shared r' \<noteq> i" using own by (auto simp: runs)
      then show ?thesis using shared_invD(2-4) [OF inv(1)] by (simp add: shared)
    qed
    show "\<exists>r'. (shared_run_id (reg_shared (unregister_run i w) ! j), r') \<in> set (reg_runs (unregister_run i w)) \<and> act_shared r' = j"
      if j: "j < length (reg_shared (unregister_run i w))" "shared_phase (reg_shared (unregister_run i w) ! j) \<noteq> RunReleased" for j
    proof -
      from j i(1) have ne: "j \<noteq> i" "j < length (reg_shared w)" by (auto simp: shared)
      with j obtain r' where "(shared_run_id (reg_shared w ! j), r') \<in> set (reg_runs w)" "act_shared r' = j"
        using shared_invD(5) [OF inv(1), of j] by (auto simp: shared)
      with own ne show ?thesis by (auto simp: runs shared)
    qed
    show "hub_completed (shared_hub (reg_shared (unregister_run i w) ! j)) \<longleftrightarrow> shared_phase (reg_shared (unregister_run i w) ! j) \<noteq> RunLive"
      if "j < length (reg_shared (unregister_run i w))" for j
      using that i shared_invD(6) [OF inv(1), of j] by (cases "j = i") (simp_all add: shared)
  qed
  have "run_completed (unregister_run i w) r' = run_completed w r'" if "(k, r') \<in> set (reg_runs w)" for k r'
    using shared_invD(2) [OF inv(1) that] i(1) by (cases "act_shared r' = i") (simp_all add: run_completed_def shared)
  then show "primary_inv (unregister_run i w)"
    by (intro primary_inv_sub [OF inv(2)]) (auto simp: runs)
qed

lemma stop_guidance_inv:
  assumes inv: "shared_inv w" "primary_inv w"
  shows "shared_inv (stop_accepting_guidance run_id w)" "primary_inv (stop_accepting_guidance run_id w)"
proof -
  let ?w = "stop_accepting_guidance run_id w"
  let ?g = "\<lambda>(k, r). (k, if k = run_id then r\<lparr>act_accepting_guidance := False\<rparr> else r)"
  have runs: "reg_runs ?w = map ?g (reg_runs w)" and shared: "reg_shared ?w = reg_shared w"
    by (simp_all add: stop_accepting_guidance_def)
  have keys: "map fst (reg_runs ?w) = map fst (reg_runs w)" by (simp add: runs case_prod_beta' comp_def)
  have old: "\<exists>r0. (k, r0) \<in> set (reg_runs w) \<and> act_shared r0 = act_shared r \<and> act_primary r0 = act_primary r
      \<and> act_workspace r0 = act_workspace r \<and> act_chat r0 = act_chat r" if "(k, r) \<in> set (reg_runs ?w)" for k r
    using that by (auto simp: runs split: if_splits)
  show "shared_inv ?w"
  proof (rule shared_invI)
    show "distinct (map fst (reg_runs ?w))" using shared_invD(1) [OF inv(1)] keys by simp
    show "act_shared r < length (reg_shared ?w) \<and> shared_run_id (reg_shared ?w ! act_shared r) = k
        \<and> shared_phase (reg_shared ?w ! act_shared r) \<noteq> RunReleased" if "(k, r) \<in> set (reg_runs ?w)" for k r
    proof -
      from old [OF that] obtain r0 where "(k, r0) \<in> set (reg_runs w)" "act_shared r0 = act_shared r" by blast
      then show ?thesis using shared_invD(2-4) [OF inv(1), of k r0] by (simp add: shared)
    qed
    show "\<exists>r. (shared_run_id (reg_shared ?w ! i), r) \<in> set (reg_runs ?w) \<and> act_shared r = i"
      if "i < length (reg_shared ?w)" "shared_phase (reg_shared ?w ! i) \<noteq> RunReleased" for i
    proof -
      from that shared_invD(5) [OF inv(1), of i] obtain r where "(shared_run_id (reg_shared w ! i), r) \<in> set (reg_runs w)" "act_shared r = i"
        by (auto simp: shared)
      then show ?thesis by (force simp: runs shared)
    qed
    show "hub_completed (shared_hub (reg_shared ?w ! i)) \<longleftrightarrow> shared_phase (reg_shared ?w ! i) \<noteq> RunLive"
      if "i < length (reg_shared ?w)" for i
      using that shared_invD(6) [OF inv(1), of i] by (simp add: shared)
  qed
  show "primary_inv ?w"
    by (rule primary_inv_sub [OF inv(2)]) (use old in \<open>fastforce simp: run_completed_def shared\<close>)
qed

lemma keeps_send [simp]: "keeps_registration (send_guidance g)" "keeps_registration (cancel_with_reason reason)"
  by (simp_all add: keeps_registration_def send_guidance_def cancel_with_reason_def)

lemma guidance_cases:
  "snd (push_guidance workspace chat run message attachments new_id w) = w
    \<or> (\<exists>i g. snd (push_guidance workspace chat run message attachments new_id w) = change_shared i (send_guidance g) w)"
  by (auto simp: push_guidance_def Let_def split: sum.splits if_splits)

lemma message_cases:
  "snd (deliver_agent_message_guidance workspace team receiver related g w) = w
    \<or> (\<exists>i. snd (deliver_agent_message_guidance workspace team receiver related g w) = change_shared i (send_guidance g) w)"
  by (auto simp: deliver_agent_message_guidance_def split: list.splits)

lemma cancel_cases:
  "snd (cancel_run workspace run_id w) = w
    \<or> (\<exists>i reason. snd (cancel_run workspace run_id w) = change_shared i (cancel_with_reason reason) w)"
  by (auto simp: cancel_run_def split: sum.splits)

lemma registry_step_inv: "registry_step_run w w' \<Longrightarrow> shared_inv w \<and> primary_inv w \<Longrightarrow> shared_inv w' \<and> primary_inv w'"
proof (induction rule: registry_step_run.induct)
  case (registers w rows q)
  then show ?case using register_run_inv by blast
next
  case (completes i w)
  then show ?case using completed_inv by blast
next
  case (unregisters i w)
  then show ?case using unregistered_inv by blast
next
  case (stops_guidance w run_id)
  then show ?case using stop_guidance_inv by blast
next
  case (guides w workspace chat run message attachments new_id)
  then show ?case using guidance_cases [of workspace chat run message attachments new_id w] shared_inv_keeps by fastforce
next
  case (messages w workspace team receiver related g)
  then show ?case using message_cases [of workspace team receiver related g w] shared_inv_keeps by fastforce
next
  case (cancels w workspace run_id)
  then show ?case using cancel_cases [of workspace run_id w] shared_inv_keeps by fastforce
next
  case (works f w i)
  then show ?case using shared_inv_keeps by blast
qed

lemma registry_reachable_inv: "registry_reachable_run w \<Longrightarrow> shared_inv w \<and> primary_inv w"
proof (induction rule: registry_reachable_run.induct)
  case start
  then show ?case by (simp add: shared_inv_def primary_inv_def)
next
  case (step w w')
  then show ?case using registry_step_inv by blast
qed

text \<open>C14: Under every interleaving, the entries of the registry are exactly the registrations that have
  not been removed: a run can be found from its registration until it finishes, finishing one run never
  removes another, and an identifier belongs to one run at a time. No chat has two primary runs that are
  not completed.\<close>

theorem one_primary_run_per_chat:
  assumes "registry_reachable_run w"
  shows "(\<forall>i < length (reg_shared w). shared_phase (reg_shared w ! i) \<noteq> RunReleased \<longleftrightarrow>
      (\<exists>r. map_of (reg_runs w) (shared_run_id (reg_shared w ! i)) = Some r \<and> act_shared r = i))
    \<and> (\<forall>(k, r) \<in> set (reg_runs w). \<forall>(k', r') \<in> set (reg_runs w).
        act_primary r \<and> act_primary r' \<and> \<not> run_completed w r \<and> \<not> run_completed w r'
          \<and> act_workspace r = act_workspace r' \<and> act_chat r = act_chat r' \<longrightarrow> k = k')"
proof -
  have inv: "shared_inv w" "primary_inv w" using registry_reachable_inv [OF assms] by auto
  have "shared_phase (reg_shared w ! i) \<noteq> RunReleased \<longleftrightarrow>
      (\<exists>r. map_of (reg_runs w) (shared_run_id (reg_shared w ! i)) = Some r \<and> act_shared r = i)" if "i < length (reg_shared w)" for i
    using shared_invD(5) [OF inv(1) that] shared_invD(1,4) [OF inv(1)] map_of_SomeD [of "reg_runs w"] map_of_is_SomeI [of "reg_runs w"]
    by blast
  then show ?thesis using inv(2) unfolding primary_inv_def by blast
qed

definition sample_run :: ActiveChatRun where
  "sample_run = \<lparr>act_workspace = lit ''w'', act_chat = lit ''c'', act_assistant_message = lit ''m'', act_assistant_sequence = 1,
     act_queued_user_message = None, act_identity = None, act_primary = True, act_accepting_guidance = False, act_shared = 7\<rparr>"

definition sample_request_run :: RunRequest where
  "sample_request_run = \<lparr>req_run_id = lit ''r'', req_run = sample_run, req_next_sequence = 0\<rparr>"

theorem one_primary_run_per_chat_witness:
  "\<exists>r. map_of (reg_runs (snd (register_with_agent_identity [] sample_request_run \<lparr>reg_runs = [], reg_shared = []\<rparr>))) (lit ''r'')
      = Some r \<and> act_shared r = 0"
proof -
  let ?w = "snd (register_with_agent_identity [] sample_request_run \<lparr>reg_runs = [], reg_shared = []\<rparr>)"
  have "registry_reachable_run ?w" by (rule registry_reachable_run.step [OF registry_reachable_run.start registry_step_run.registers])
  moreover have "reg_shared ?w = [new_shared (lit ''r'') []]"
    by (simp add: register_with_agent_identity_def sample_request_run_def sample_run_def primary_run_of_def Let_def)
  ultimately show ?thesis using one_primary_run_per_chat [of ?w] by (auto simp: new_shared_def)
qed

text \<open>A message for an agent goes to a run only when that run is the only one it can be meant for; then its
  channel grows by the message, and otherwise nothing changes.\<close>

lemma guidance_delivered_to_one:
  "deliver_agent_message_guidance workspace team receiver related g w = (d, w') \<Longrightarrow>
    (case d of
       QueuedGuidance \<Rightarrow> w' = w
     | DeliveredGuidance \<Rightarrow> \<exists>r. filter (matches_receiver w workspace team receiver related) (map snd (reg_runs w)) = [r]
         \<and> w' = change_shared (act_shared r) (send_guidance g) w)"
  by (auto simp: deliver_agent_message_guidance_def split: list.splits if_splits)

end
