(* ===== verification/Agent_Tables.thy ===== *)
theory Agent_Tables
  imports Agent_Domain "HOL-Library.List_Lexorder" "HOL-Library.Product_Lexorder"
begin

text \<open>
  The tables of the agent runtime in a workspace database (\<open>store/workspace_schema.rs\<close>,
  \<open>store/workspace_records.rs\<close>): teams, instances, tasks, attempts, the dependencies of waiting tasks and
  the cancelled subtrees. A table is a list in the order of insertion, keyed by the identifier where it has
  one. An \<open>UPDATE\<close> changes the rows that its condition selects and counts them; a transaction that would
  break a unique index is refused (\<open>check_constraints\<close>). A recursive query is the closure of a list of edges.
  Instants are integers; the texts of the database, all of one format, are ordered as the instants are.
\<close>

section \<open>Rows\<close>

datatype AgentTaskWaitMode = WaitAll | WaitAny

text \<open>The input of a task is JSON text; \<open>input_valid\<close> tells whether it can be parsed, the other fields are what
  the queries extract from it.\<close>

record AgentInput =
  input_json :: rstr
  input_valid :: bool
  input_defers :: bool
  input_plan_session :: bool

record AgentTeamRow =
  team_state :: AgentTeamStatus
  team_max_runs :: int

record AgentInstanceRow =
  inst_team :: rstr
  inst_state :: AgentInstanceStatus
  inst_next_sequence :: int
  inst_last_scheduled :: "int option"

record AgentTaskRow =
  at_team :: rstr
  at_owner :: rstr
  at_origin :: "rstr option"
  at_parent :: "rstr option"
  at_sequence :: int
  at_status :: AgentTaskStatus
  at_input :: AgentInput
  at_result :: "rstr option"
  at_error :: "rstr option"
  at_created :: int
  at_updated :: int
  at_started :: "int option"
  at_completed :: "int option"

record AgentAttemptRow =
  att_id :: rstr
  att_team :: rstr
  att_task :: rstr
  att_sequence :: int
  att_status :: AgentAttemptStatus
  att_started :: int
  att_completed :: "int option"
  att_reason :: "rstr option"
  att_owner :: "rstr option"
  att_lease :: "int option"

record AgentDependencyRow =
  dep_team :: rstr
  dep_waiting :: rstr
  dep_task :: rstr
  dep_mode :: AgentTaskWaitMode
  dep_call :: "rstr option"
  dep_deadline :: "int option"

text \<open>The event \<open>task_waiting_requested\<close> with its payload.\<close>

record WaitRequested =
  wr_team :: rstr
  wr_task :: rstr
  wr_instance :: "rstr option"
  wr_call :: "rstr option"
  wr_dependencies :: "rstr list"
  wr_mode :: AgentTaskWaitMode
  wr_deadline :: "int option"

record AgentDb =
  db_teams :: "(rstr \<times> AgentTeamRow) list"
  db_instances :: "(rstr \<times> AgentInstanceRow) list"
  db_tasks :: "(rstr \<times> AgentTaskRow) list"
  db_attempts :: "AgentAttemptRow list"
  db_dependencies :: "AgentDependencyRow list"
  db_cancellations :: "(rstr \<times> rstr) list"
  db_wait_events :: "WaitRequested list"

datatype AgentStoreError =
  InvalidAgentRuntimeData rstr
| AgentDomain AgentDomainError
| AgentRuntimeJson rstr
| SqliteFailure

fun team_status_text :: "AgentTeamStatus \<Rightarrow> rstr" where
  "team_status_text TeamActive = lit ''active''"
| "team_status_text TeamPaused = lit ''paused''"
| "team_status_text TeamDraining = lit ''draining''"
| "team_status_text TeamStopped = lit ''stopped''"
| "team_status_text TeamFailed = lit ''failed''"

fun instance_status_text :: "AgentInstanceStatus \<Rightarrow> rstr" where
  "instance_status_text InstIdle = lit ''idle''"
| "instance_status_text InstRunning = lit ''running''"
| "instance_status_text InstWaiting = lit ''waiting''"
| "instance_status_text InstPaused = lit ''paused''"
| "instance_status_text InstDraining = lit ''draining''"
| "instance_status_text InstStopped = lit ''stopped''"
| "instance_status_text InstFailed = lit ''failed''"

fun task_status_text :: "AgentTaskStatus \<Rightarrow> rstr" where
  "task_status_text TaskQueued = lit ''queued''"
| "task_status_text TaskRunning = lit ''running''"
| "task_status_text TaskWaiting = lit ''waiting''"
| "task_status_text TaskCompleted = lit ''completed''"
| "task_status_text TaskFailed = lit ''failed''"
| "task_status_text TaskCancelled = lit ''cancelled''"
| "task_status_text TaskInterrupted = lit ''interrupted''"

section \<open>Statements\<close>

text \<open>An update gives the number of rows that it selects, and the new table.\<close>

definition update_rows :: "('r \<Rightarrow> bool) \<Rightarrow> ('r \<Rightarrow> 'r) \<Rightarrow> 'r list \<Rightarrow> 'r list" where
  "update_rows p f rows = map (\<lambda>r. if p r then f r else r) rows"

definition count_rows :: "('r \<Rightarrow> bool) \<Rightarrow> 'r list \<Rightarrow> nat" where
  "count_rows p rows = length (filter p rows)"

definition update_keyed :: "('k \<Rightarrow> 'r \<Rightarrow> bool) \<Rightarrow> ('r \<Rightarrow> 'r) \<Rightarrow> ('k \<times> 'r) list \<Rightarrow> ('k \<times> 'r) list" where
  "update_keyed p f rows = map (\<lambda>(k, r). (k, if p k r then f r else r)) rows"

definition update_task :: "rstr \<Rightarrow> (AgentTaskRow \<Rightarrow> AgentTaskRow) \<Rightarrow> AgentDb \<Rightarrow> AgentDb" where
  "update_task i f db = db\<lparr>db_tasks := update_keyed (\<lambda>k _. k = i) f (db_tasks db)\<rparr>"

definition update_instance :: "rstr \<Rightarrow> (AgentInstanceRow \<Rightarrow> AgentInstanceRow) \<Rightarrow> AgentDb \<Rightarrow> AgentDb" where
  "update_instance i f db = db\<lparr>db_instances := update_keyed (\<lambda>k _. k = i) f (db_instances db)\<rparr>"

definition delete_waits :: "rstr \<Rightarrow> AgentDb \<Rightarrow> AgentDb" where
  "delete_waits i db = db\<lparr>db_dependencies := filter (\<lambda>d. dep_waiting d \<noteq> i) (db_dependencies db)\<rparr>"

section \<open>Unique indexes\<close>

definition task_active :: "AgentTaskRow \<Rightarrow> bool" where
  "task_active r \<longleftrightarrow> at_status r = TaskRunning \<or> at_status r = TaskWaiting"

definition one_active_per_instance :: "AgentDb \<Rightarrow> bool" where
  "one_active_per_instance db \<longleftrightarrow> distinct (map at_owner (filter task_active (map snd (db_tasks db))))"

definition one_running_attempt_per_task :: "AgentDb \<Rightarrow> bool" where
  "one_running_attempt_per_task db \<longleftrightarrow>
     distinct (map att_task (filter (\<lambda>a. att_status a = AttRunning) (db_attempts db)))"

definition keys_unique :: "AgentDb \<Rightarrow> bool" where
  "keys_unique db \<longleftrightarrow> distinct (map fst (db_tasks db))
     \<and> distinct (map (\<lambda>(_, r). (at_owner r, at_sequence r)) (db_tasks db))
     \<and> distinct (map att_id (db_attempts db))
     \<and> distinct (map (\<lambda>a. (att_task a, att_sequence a)) (db_attempts db))
     \<and> distinct (map (\<lambda>d. (dep_waiting d, dep_task d)) (db_dependencies db))"

definition check_constraints :: "AgentDb \<Rightarrow> AgentStoreError + AgentDb" where
  "check_constraints db =
     (if one_active_per_instance db \<and> one_running_attempt_per_task db \<and> keys_unique db
      then Inr db else Inl SqliteFailure)"

section \<open>Recursive queries\<close>

text \<open>\<open>WITH RECURSIVE\<close> with \<open>UNION\<close>: the rows reached from the first ones, each once.\<close>

definition new_targets :: "('a \<times> 'a) list \<Rightarrow> 'a list \<Rightarrow> 'a list" where
  "new_targets edges xs = remdups (map snd (filter (\<lambda>(a, b). a \<in> set xs \<and> b \<notin> set xs) edges))"

function closure_of :: "('a \<times> 'a) list \<Rightarrow> 'a list \<Rightarrow> 'a list" where
  "closure_of edges xs =
     (let ys = new_targets edges xs in if ys = [] then xs else closure_of edges (xs @ ys))"
  by pat_completeness auto

lemma set_new_targets: "set (new_targets edges xs) = {b. \<exists>a. (a, b) \<in> set edges \<and> a \<in> set xs \<and> b \<notin> set xs}"
  by (force simp: new_targets_def)

termination closure_of
proof (relation "measure (\<lambda>(edges, xs). card (snd ` set edges - set xs))")
  fix edges :: "('a \<times> 'a) list" and xs ys
  assume ys: "ys = new_targets edges xs" "ys \<noteq> []"
  then obtain y where "y \<in> set ys" by (metis last_in_set)
  with ys have "y \<in> snd ` set edges - set xs" by (force simp: set_new_targets)
  moreover have "snd ` set edges - set (xs @ ys) \<subseteq> snd ` set edges - set xs" by auto
  ultimately have "snd ` set edges - set (xs @ ys) \<subset> snd ` set edges - set xs"
    using \<open>y \<in> set ys\<close> by auto
  then show "((edges, xs @ ys), edges, xs) \<in> measure (\<lambda>(edges, xs). card (snd ` set edges - set xs))"
    by (simp add: psubset_card_mono)
qed simp

declare closure_of.simps [simp del]

lemma set_closure: "set (closure_of edges xs) = (set edges)\<^sup>* `` set xs"
proof (induction edges xs rule: closure_of.induct)
  case (1 edges xs)
  show ?case
  proof (cases "new_targets edges xs = []")
    case True
    then have "set edges `` set xs \<subseteq> set xs" using set_new_targets [of edges xs] by auto
    then have "(set edges)\<^sup>* `` set xs = set xs" by (rule Image_closed_trancl)
    with True show ?thesis by (subst closure_of.simps) simp
  next
    case False
    let ?ys = "new_targets edges xs"
    have "set ?ys \<subseteq> (set edges)\<^sup>* `` set xs" by (auto simp: set_new_targets)
    then have "(set edges)\<^sup>* `` set ?ys \<subseteq> (set edges)\<^sup>* `` set xs" by (blast intro: rtrancl_trans)
    then have "(set edges)\<^sup>* `` set (xs @ ?ys) = (set edges)\<^sup>* `` set xs" by auto
    with False 1 show ?thesis by (subst closure_of.simps) simp
  qed
qed

section \<open>Lemmas on tables\<close>

named_theorems table_simps \<open>how statements change the tables\<close>

lemma map_of_update_keyed: "map_of (update_keyed p f rows) k = map_option (\<lambda>r. if p k r then f r else r) (map_of rows k)"
  by (induction rows) (auto simp: update_keyed_def)

lemma keys_update_keyed [simp]: "map fst (update_keyed p f rows) = map fst rows"
  by (auto simp: update_keyed_def)

lemma set_update_keyed: "(k, r) \<in> set (update_keyed p f rows) \<longleftrightarrow> (\<exists>r'. (k, r') \<in> set rows \<and> r = (if p k r' then f r' else r'))"
  by (force simp: update_keyed_def)

lemma set_update_rows: "r \<in> set (update_rows p f rows) \<longleftrightarrow> (\<exists>r' \<in> set rows. r = (if p r' then f r' else r'))"
  by (auto simp: update_rows_def)

lemma map_update_rows: "(\<And>r. g (f r) = g r) \<Longrightarrow> map g (update_rows p f rows) = map g rows"
  by (simp add: update_rows_def)

lemma map_update_keyed: "(\<And>r. g (f r) = g r) \<Longrightarrow> map (\<lambda>(_, r). g r) (update_keyed p f rows) = map (\<lambda>(_, r). g r) rows"
  by (auto simp: update_keyed_def)

lemma task_of_update [table_simps]:
  "map_of (db_tasks (update_task i f db)) k = map_option (\<lambda>r. if k = i then f r else r) (map_of (db_tasks db) k)"
  by (simp add: update_task_def map_of_update_keyed)

lemma instance_of_update [table_simps]:
  "map_of (db_instances (update_instance i f db)) k = map_option (\<lambda>r. if k = i then f r else r) (map_of (db_instances db) k)"
  by (simp add: update_instance_def map_of_update_keyed)

lemma table_frames [table_simps]:
  "db_teams (update_task i f db) = db_teams db" "db_instances (update_task i f db) = db_instances db"
  "db_attempts (update_task i f db) = db_attempts db" "db_dependencies (update_task i f db) = db_dependencies db"
  "db_cancellations (update_task i f db) = db_cancellations db" "db_wait_events (update_task i f db) = db_wait_events db"
  "db_teams (update_instance i g db) = db_teams db" "db_tasks (update_instance i g db) = db_tasks db"
  "db_attempts (update_instance i g db) = db_attempts db" "db_dependencies (update_instance i g db) = db_dependencies db"
  "db_cancellations (update_instance i g db) = db_cancellations db" "db_wait_events (update_instance i g db) = db_wait_events db"
  "db_teams (delete_waits i db) = db_teams db" "db_tasks (delete_waits i db) = db_tasks db"
  "db_instances (delete_waits i db) = db_instances db" "db_attempts (delete_waits i db) = db_attempts db"
  "db_cancellations (delete_waits i db) = db_cancellations db" "db_wait_events (delete_waits i db) = db_wait_events db"
  "db_dependencies (delete_waits i db) = filter (\<lambda>d. dep_waiting d \<noteq> i) (db_dependencies db)"
  by (simp_all add: update_task_def update_instance_def delete_waits_def)

lemma check_constraints_Inr: "check_constraints db = Inr db' \<Longrightarrow> db' = db
    \<and> one_active_per_instance db \<and> one_running_attempt_per_task db \<and> keys_unique db"
  by (simp add: check_constraints_def split: if_splits)

end
