(* ===== verification/Agent_Queue.thy ===== *)
theory Agent_Queue
  imports Agent_Tables
begin

text \<open>
  The queues of agent tasks (\<open>store/workspace.rs\<close>): enqueueing and transfer, the choice and the claim of a
  task that can run, changes of state with their attempts, suspension and resumption of tasks that wait for
  others, recovery after a restart, and the cancellation of a task with all tasks below it. Each operation is
  one immediate transaction: it gives its result and the new tables, or an error and the tables as they were.
  The JSON texts of results are checked through \<open>valid_json\<close>; what the operations write into the metadata of
  chats is left out, except that it may fail (\<open>requeue\<close>). Two messages of a refused wait registration leave out the
  identifier of the tool call that they end with. Counters do not reach the limit of 64 bits.
\<close>

section \<open>Conditions of the queries\<close>

definition waits_of :: "AgentDb \<Rightarrow> rstr \<Rightarrow> AgentDependencyRow list" where
  "waits_of db i = filter (\<lambda>d. dep_waiting d = i) (db_dependencies db)"

definition required_status :: "AgentDb \<Rightarrow> AgentDependencyRow \<Rightarrow> AgentTaskStatus option" where
  "required_status db d = map_option at_status (map_of (db_tasks db) (dep_task d))"

definition required_done :: "AgentDb \<Rightarrow> AgentDependencyRow \<Rightarrow> bool" where
  "required_done db d = (case required_status db d of Some s \<Rightarrow> task_is_terminal s | None \<Rightarrow> False)"

definition required_open :: "AgentDb \<Rightarrow> AgentDependencyRow \<Rightarrow> bool" where
  "required_open db d = (case required_status db d of Some s \<Rightarrow> \<not> task_is_terminal s | None \<Rightarrow> False)"

definition deadline_passed :: "int \<Rightarrow> AgentDependencyRow \<Rightarrow> bool" where
  "deadline_passed now d = (case dep_deadline d of Some t \<Rightarrow> t \<le> now | None \<Rightarrow> False)"

text \<open>The condition that the queries of claiming, resuming and suspending share.\<close>

definition wait_over :: "int \<Rightarrow> AgentDb \<Rightarrow> rstr \<Rightarrow> bool" where
  "wait_over now db i =
     (let ds = waits_of db i
      in list_ex (deadline_passed now) ds
       \<or> (list_ex (\<lambda>d. dep_mode d = WaitAll) ds \<and> \<not> list_ex (required_open db) ds)
       \<or> list_ex (\<lambda>d. dep_mode d = WaitAny \<and> required_done db d) ds)"

definition agent_task_dependencies_satisfied :: "int \<Rightarrow> AgentDb \<Rightarrow> rstr \<Rightarrow> bool" where
  "agent_task_dependencies_satisfied now db i =
     (let ds = filter (\<lambda>d. required_status db d \<noteq> None) (waits_of db i);
          total_rows = length ds;
          ready = length (filter (required_done db) ds)
      in if total_rows = 0 then True
         else if list_ex (deadline_passed now) ds then True
         else if list_ex (\<lambda>d. dep_mode d = WaitAll) ds then ready = total_rows
         else ready > 0)"

definition running_count :: "AgentDb \<Rightarrow> rstr \<Rightarrow> nat" where
  "running_count db team = count_rows (\<lambda>(_, r). at_team r = team \<and> at_status r = TaskRunning) (db_tasks db)"

text \<open>The rows before a task in the order of insertion.\<close>

definition earlier_rows :: "AgentDb \<Rightarrow> rstr \<Rightarrow> (rstr \<times> AgentTaskRow) list" where
  "earlier_rows db i = takeWhile (\<lambda>(k, _). k \<noteq> i) (db_tasks db)"

definition runnable :: "int \<Rightarrow> AgentDb \<Rightarrow> rstr \<Rightarrow> AgentTaskRow \<Rightarrow> bool" where
  "runnable now db i r =
     (case (map_of (db_instances db) (at_owner r), map_of (db_teams db) (at_team r)) of
        (Some inst, Some team) \<Rightarrow>
          at_status r = TaskQueued \<and> (inst_state inst = InstIdle \<or> inst_state inst = InstDraining)
          \<and> (team_state team = TeamActive \<or> team_state team = TeamDraining)
          \<and> int (running_count db (at_team r)) < team_max_runs team
          \<and> \<not> list_ex (\<lambda>(_, e). at_owner e = at_owner r \<and> at_sequence e < at_sequence r \<and> holds_queue_head (at_status e)) (db_tasks db)
          \<and> (\<not> input_defers (at_input r)
             \<or> \<not> list_ex (\<lambda>(_, e). holds_queue_head (at_status e) \<and> \<not> input_plan_session (at_input e)) (earlier_rows db i))
          \<and> (waits_of db i = [] \<or> wait_over now db i)
      | _ \<Rightarrow> False)"

definition schedule_key :: "AgentDb \<Rightarrow> rstr \<times> AgentTaskRow \<Rightarrow> nat \<times> int \<times> rstr \<times> rstr \<times> int" where
  "schedule_key db = (\<lambda>(_, r).
     let scheduled = Option.bind (map_of (db_instances db) (at_owner r)) inst_last_scheduled
     in (case scheduled of None \<Rightarrow> 0 | Some _ \<Rightarrow> 1, case scheduled of None \<Rightarrow> 0 | Some t \<Rightarrow> t,
         at_team r, at_owner r, at_sequence r))"

definition runnable_agent_tasks :: "int \<Rightarrow> AgentDb \<Rightarrow> int \<Rightarrow> AgentStoreError + (rstr \<times> AgentTaskRow) list" where
  "runnable_agent_tasks now db limit =
     (if limit \<le> 0 then Inl (InvalidAgentRuntimeData (lit ''runnable Agent task query limit must be greater than 0''))
      else Inr (take (nat limit) (sort_key (schedule_key db) (filter (\<lambda>(i, r). runnable now db i r) (db_tasks db)))))"

section \<open>Enqueueing and transfer\<close>

record NewAgentTask =
  new_id :: rstr
  new_team :: rstr
  new_owner :: rstr
  new_origin :: "rstr option"
  new_parent :: "rstr option"
  new_input :: AgentInput

definition ensure_team :: "AgentEntityKind \<Rightarrow> rstr option \<Rightarrow> rstr \<Rightarrow> rstr \<Rightarrow> AgentStoreError + unit" where
  "ensure_team kind actual entity_id expected =
     (case actual of
        None \<Rightarrow> Inl (InvalidAgentRuntimeData (entity_display kind @ lit '' '' @ quote_id entity_id @ lit '' was not found''))
      | Some team \<Rightarrow> if team \<noteq> expected then Inl (AgentDomain (cross_team_reference kind entity_id)) else Inr ())"

definition ensure_instance_team :: "AgentDb \<Rightarrow> rstr \<Rightarrow> rstr \<Rightarrow> AgentStoreError + unit" where
  "ensure_instance_team db i team = ensure_team EntityInstance (map_option inst_team (map_of (db_instances db) i)) i team"

definition ensure_task_team :: "AgentDb \<Rightarrow> rstr \<Rightarrow> rstr \<Rightarrow> AgentStoreError + unit" where
  "ensure_task_team db i team = ensure_team EntityTask (map_option at_team (map_of (db_tasks db) i)) i team"

text \<open>The edges from the tasks of a team to their parents and back.\<close>

definition parent_edges :: "AgentDb \<Rightarrow> rstr \<Rightarrow> (rstr \<times> rstr) list" where
  "parent_edges db team = List.map_filter (\<lambda>(k, r). if at_team r = team then map_option (\<lambda>p. (k, p)) (at_parent r) else None) (db_tasks db)"

definition child_edges :: "AgentDb \<Rightarrow> rstr \<Rightarrow> (rstr \<times> rstr) list" where
  "child_edges db team = map (\<lambda>(k, p). (p, k)) (parent_edges db team)"

definition ancestors_of :: "AgentDb \<Rightarrow> rstr \<Rightarrow> rstr \<Rightarrow> rstr list" where
  "ancestors_of db team i = closure_of (parent_edges db team) [i]"

definition check_parent :: "AgentDb \<Rightarrow> rstr \<Rightarrow> rstr \<Rightarrow> AgentStoreError + unit" where
  "check_parent db team p =
     (case ensure_task_team db p team of Inl e \<Rightarrow> Inl e | Inr _ \<Rightarrow>
      let status = at_status (the (map_of (db_tasks db) p))
      in if \<not> holds_queue_head status
         then Inl (InvalidAgentRuntimeData (lit ''Agent parent task '' @ quote_id p
                @ lit '' does not accept delegated tasks while '' @ task_status_text status))
         else if list_ex (\<lambda>a. (team, a) \<in> set (db_cancellations db)) (ancestors_of db team p)
         then Inl (InvalidAgentRuntimeData (lit ''Agent parent task '' @ quote_id p @ lit '' is within a cancelled task subtree''))
         else Inr ())"

definition queued_of_team :: "AgentDb \<Rightarrow> rstr \<Rightarrow> nat" where
  "queued_of_team db team = count_rows (\<lambda>(_, r). at_team r = team \<and> at_status r = TaskQueued) (db_tasks db)"

definition queued_of_instance :: "AgentDb \<Rightarrow> rstr \<Rightarrow> nat" where
  "queued_of_instance db i = count_rows (\<lambda>(_, r). at_owner r = i \<and> at_status r = TaskQueued) (db_tasks db)"

definition queued_text :: "nat \<Rightarrow> rstr" where
  "queued_text n = lit '' ('' @ nat_display n @ lit '' queued)''"

definition check_room :: "AgentDb \<Rightarrow> NewAgentTask \<Rightarrow> int \<Rightarrow> int \<Rightarrow> int \<Rightarrow> AgentStoreError + unit" where
  "check_room db t max_team max_instance max_chat =
     (case (map_of (db_teams db) (new_team t), map_of (db_instances db) (new_owner t)) of
        (Some team, Some inst) \<Rightarrow>
          if team_state team \<noteq> TeamActive
          then Inl (InvalidAgentRuntimeData (lit ''Agent team '' @ quote_id (new_team t)
                 @ lit '' does not accept new tasks while '' @ team_status_text (team_state team)))
          else if inst_state inst \<noteq> InstIdle \<and> inst_state inst \<noteq> InstRunning
          then Inl (InvalidAgentRuntimeData (lit ''Agent instance '' @ quote_id (new_owner t)
                 @ lit '' does not accept new tasks while '' @ instance_status_text (inst_state inst)))
          else if int (queued_of_team db (new_team t)) \<ge> max_team \<or> int (queued_of_team db (new_team t)) \<ge> max_chat
          then Inl (InvalidAgentRuntimeData (lit ''Agent task queue is full for team/chat '' @ quote_id (new_team t)
                 @ queued_text (queued_of_team db (new_team t))))
          else if int (queued_of_instance db (new_owner t)) \<ge> max_instance
          then Inl (InvalidAgentRuntimeData (lit ''Agent task queue is full for instance '' @ quote_id (new_owner t)
                 @ queued_text (queued_of_instance db (new_owner t))))
          else Inr ()
      | _ \<Rightarrow> Inl SqliteFailure)"

definition queued_task :: "int \<Rightarrow> NewAgentTask \<Rightarrow> int \<Rightarrow> AgentTaskRow" where
  "queued_task now t sequence = \<lparr>at_team = new_team t, at_owner = new_owner t, at_origin = new_origin t,
     at_parent = new_parent t, at_sequence = sequence, at_status = TaskQueued, at_input = new_input t,
     at_result = None, at_error = None, at_created = now, at_updated = now, at_started = None, at_completed = None\<rparr>"

definition insert_task :: "int \<Rightarrow> NewAgentTask \<Rightarrow> AgentDb \<Rightarrow> AgentDb" where
  "insert_task now t db =
     (let sequence = inst_next_sequence (the (map_of (db_instances db) (new_owner t)));
          db' = update_instance (new_owner t) (\<lambda>r. r\<lparr>inst_next_sequence := inst_next_sequence r + 1\<rparr>) db
      in db'\<lparr>db_tasks := db_tasks db' @ [(new_id t, queued_task now t sequence)]\<rparr>)"

definition enqueue_agent_task_with_limits :: "int \<Rightarrow> NewAgentTask \<Rightarrow> int \<Rightarrow> int \<Rightarrow> int \<Rightarrow> AgentDb \<Rightarrow> AgentStoreError + AgentDb" where
  "enqueue_agent_task_with_limits now t max_team max_instance max_chat db =
     (if max_team \<le> 0 \<or> max_instance \<le> 0 \<or> max_chat \<le> 0
      then Inl (InvalidAgentRuntimeData (lit ''Agent queued task limits must be greater than 0''))
      else if \<not> input_valid (new_input t) then Inl (AgentRuntimeJson (lit ''input_json''))
      else case ensure_instance_team db (new_owner t) (new_team t) of Inl e \<Rightarrow> Inl e | Inr _ \<Rightarrow>
     (case (case new_origin t of None \<Rightarrow> Inr () | Some origin \<Rightarrow> ensure_instance_team db origin (new_team t)) of Inl e \<Rightarrow> Inl e | Inr _ \<Rightarrow>
     (case (case new_parent t of None \<Rightarrow> Inr () | Some p \<Rightarrow> check_parent db (new_team t) p) of Inl e \<Rightarrow> Inl e | Inr _ \<Rightarrow>
     (case check_room db t max_team max_instance max_chat of Inl e \<Rightarrow> Inl e | Inr _ \<Rightarrow>
      check_constraints (insert_task now t db)))))"

definition transfer_queued_agent_task_with_limits ::
    "int \<Rightarrow> rstr \<Rightarrow> rstr \<Rightarrow> rstr \<Rightarrow> int \<Rightarrow> int \<Rightarrow> int \<Rightarrow> AgentDb \<Rightarrow> AgentStoreError + bool \<times> AgentDb" where
  "transfer_queued_agent_task_with_limits now team i target max_team max_instance max_chat db =
     (if max_team \<le> 0 \<or> max_instance \<le> 0 \<or> max_chat \<le> 0
      then Inl (InvalidAgentRuntimeData (lit ''Agent queued task limits must be greater than 0''))
      else case (map_of (db_tasks db) i, map_of (db_teams db) team, map_of (db_instances db) target) of
        (Some r, Some tm, Some inst) \<Rightarrow>
          if at_team r \<noteq> team \<or> inst_team inst \<noteq> team then Inr (False, db)
          else if at_status r \<noteq> TaskQueued
          then Inl (InvalidAgentRuntimeData (lit ''Agent task '' @ quote_id i @ lit '' cannot be transferred while '' @ task_status_text (at_status r)))
          else if team_state tm \<noteq> TeamActive \<and> team_state tm \<noteq> TeamDraining
          then Inl (InvalidAgentRuntimeData (lit ''Agent team '' @ quote_id team @ lit '' does not accept transfers while '' @ team_status_text (team_state tm)))
          else if inst_state inst \<noteq> InstIdle \<and> inst_state inst \<noteq> InstRunning
          then Inl (InvalidAgentRuntimeData (lit ''Agent instance '' @ quote_id target
                 @ lit '' does not accept transferred tasks while '' @ instance_status_text (inst_state inst)))
          else if at_owner r = target then Inr (True, db)
          else if int (queued_of_instance db target) \<ge> max_instance
          then Inl (InvalidAgentRuntimeData (lit ''Agent task queue is full for instance '' @ quote_id target
                 @ queued_text (queued_of_instance db target)))
          else map_sum id (Pair True) (check_constraints
                 (update_task i (\<lambda>r. r\<lparr>at_owner := target, at_sequence := inst_next_sequence inst, at_updated := now\<rparr>)
                   (update_instance target (\<lambda>r. r\<lparr>inst_next_sequence := inst_next_sequence r + 1\<rparr>) db)))
      | _ \<Rightarrow> Inr (False, db))"

section \<open>Claims\<close>

text \<open>A row that a transaction has selected by its key is updated exactly once; the tests of these counts
  are left out.\<close>

definition next_attempt_sequence :: "AgentDb \<Rightarrow> rstr \<Rightarrow> int" where
  "next_attempt_sequence db i =
     (let ss = map att_sequence (filter (\<lambda>a. att_task a = i) (db_attempts db))
      in (if ss = [] then -1 else Max (set ss)) + 1)"

definition insert_attempt :: "AgentAttemptRow \<Rightarrow> AgentDb \<Rightarrow> AgentDb" where
  "insert_attempt a db = db\<lparr>db_attempts := db_attempts db @ [a]\<rparr>"

definition new_attempt :: "int \<Rightarrow> rstr \<Rightarrow> rstr \<Rightarrow> rstr \<Rightarrow> rstr option \<Rightarrow> AgentDb \<Rightarrow> AgentAttemptRow" where
  "new_attempt now team i attempt owner_incarnation db =
     \<lparr>att_id = attempt, att_team = team, att_task = i, att_sequence = next_attempt_sequence db i,
      att_status = AttRunning, att_started = now, att_completed = None, att_reason = None,
      att_owner = owner_incarnation, att_lease = (if owner_incarnation = None then None else Some now)\<rparr>"

definition claim_task :: "int \<Rightarrow> rstr \<Rightarrow> AgentTaskRow \<Rightarrow> AgentAttemptRow \<Rightarrow> AgentDb \<Rightarrow> AgentDb" where
  "claim_task now i r attempt db =
     update_instance (at_owner r)
       (\<lambda>inst. inst\<lparr>inst_state := (if inst_state inst = InstDraining then InstDraining else InstRunning), inst_last_scheduled := Some now\<rparr>)
       (insert_attempt attempt
         (update_task i (\<lambda>t. t\<lparr>at_status := TaskRunning, at_started := (case at_started t of None \<Rightarrow> Some now | Some s \<Rightarrow> Some s),
            at_completed := None, at_updated := now\<rparr>) db))"

definition blank_owner :: "rstr option \<Rightarrow> bool" where
  "blank_owner owner_incarnation = (case owner_incarnation of Some s \<Rightarrow> trim s = [] | None \<Rightarrow> False)"

definition claim_runnable_agent_task_with_owner ::
    "int \<Rightarrow> rstr \<Rightarrow> rstr \<Rightarrow> rstr \<Rightarrow> rstr option \<Rightarrow> AgentDb \<Rightarrow> AgentStoreError + AgentTaskRow option \<times> AgentDb" where
  "claim_runnable_agent_task_with_owner now team i attempt owner_incarnation db =
     (if blank_owner owner_incarnation
      then Inl (InvalidAgentRuntimeData (lit ''Agent attempt owner incarnation must not be empty''))
      else case map_of (db_tasks db) i of
        None \<Rightarrow> Inr (None, db)
      | Some r \<Rightarrow>
          if at_team r \<noteq> team \<or> \<not> runnable now db i r then Inr (None, db)
          else map_sum id (\<lambda>db'. (map_of (db_tasks db') i, db'))
                 (check_constraints (claim_task now i r (new_attempt now team i attempt owner_incarnation db) db)))"

definition renew_agent_attempt_lease :: "int \<Rightarrow> rstr \<Rightarrow> rstr \<Rightarrow> rstr \<Rightarrow> AgentDb \<Rightarrow> AgentStoreError + bool \<times> AgentDb" where
  "renew_agent_attempt_lease now i attempt owner_incarnation db =
     (let p = (\<lambda>a. att_id a = attempt \<and> att_task a = i \<and> att_owner a = Some owner_incarnation
            \<and> (att_status a = AttRunning \<or> att_status a = AttSuspended))
      in if trim owner_incarnation = []
         then Inl (InvalidAgentRuntimeData (lit ''Agent attempt owner incarnation must not be empty''))
         else Inr (count_rows p (db_attempts db) = 1,
                   db\<lparr>db_attempts := update_rows p (\<lambda>a. a\<lparr>att_lease := Some now\<rparr>) (db_attempts db)\<rparr>))"

section \<open>Changes of state\<close>

record AgentTaskStateUpdate =
  upd_team :: rstr
  upd_task :: rstr
  upd_expected :: AgentTaskStatus
  upd_transition :: AgentTaskTransition
  upd_result :: "rstr option"
  upd_error :: "rstr option"
  upd_reason :: "rstr option"

fun attempt_target_of :: "AgentTaskTransition \<Rightarrow> AgentTaskStatus \<Rightarrow> AgentAttemptStatus option" where
  "attempt_target_of TWait s = Some AttSuspended"
| "attempt_target_of TResume s = Some AttRunning"
| "attempt_target_of TComplete s = Some AttCompleted"
| "attempt_target_of TFail s = Some AttFailed"
| "attempt_target_of TCancel s = (if s = TaskRunning \<or> s = TaskWaiting then Some AttCancelled else None)"
| "attempt_target_of TInterrupt s = Some AttInterrupted"
| "attempt_target_of TStart s = None"
| "attempt_target_of TRetry s = None"

definition instance_target_of :: "AgentTaskStatus \<Rightarrow> AgentTaskStatus \<Rightarrow> AgentInstanceStatus option" where
  "instance_target_of expected target =
     (if expected = TaskQueued then None
      else if target = TaskRunning then Some InstRunning
      else if target = TaskWaiting then Some InstWaiting
      else if task_is_terminal target then Some InstIdle else None)"

definition set_task_state :: "int \<Rightarrow> AgentTaskStateUpdate \<Rightarrow> AgentTaskStatus \<Rightarrow> AgentTaskRow \<Rightarrow> AgentTaskRow" where
  "set_task_state now u target r =
     (if upd_transition u = TRetry
      then r\<lparr>at_status := target, at_started := None, at_updated := now\<rparr>
      else r\<lparr>at_status := target, at_result := upd_result u, at_error := upd_error u,
             at_completed := (if task_is_terminal target then Some now else None), at_updated := now\<rparr>)"

text \<open>The attempt that a change of state expects: its identifier, its owner and its lease, where given.\<close>

record ExpectedAttempt =
  exp_attempt :: "rstr option"
  exp_owner :: "rstr option"
  exp_lease :: "int option"

definition attempt_matches :: "AgentTaskStateUpdate \<Rightarrow> ExpectedAttempt \<Rightarrow> AgentAttemptRow \<Rightarrow> bool" where
  "attempt_matches u e a \<longleftrightarrow> att_task a = upd_task u \<and> att_team a = upd_team u
     \<and> att_status a = (if upd_expected u = TaskWaiting then AttSuspended else AttRunning)
     \<and> (case exp_attempt e of None \<Rightarrow> True | Some x \<Rightarrow> att_id a = x)
     \<and> (case exp_owner e of None \<Rightarrow> True | Some x \<Rightarrow> att_owner a = Some x)
     \<and> (case exp_lease e of None \<Rightarrow> True | Some x \<Rightarrow> att_lease a = Some x)"

definition set_attempts :: "(AgentAttemptRow \<Rightarrow> bool) \<Rightarrow> AgentAttemptStatus \<Rightarrow> int option \<Rightarrow> rstr option \<Rightarrow> AgentDb \<Rightarrow> AgentDb" where
  "set_attempts p target completed reason db =
     db\<lparr>db_attempts := update_rows p (\<lambda>a. a\<lparr>att_status := target, att_completed := completed, att_reason := reason\<rparr>) (db_attempts db)\<rparr>"

definition set_instance_state :: "AgentInstanceStatus \<Rightarrow> rstr \<Rightarrow> AgentDb \<Rightarrow> AgentDb" where
  "set_instance_state s i db = update_instance i
     (\<lambda>inst. inst\<lparr>inst_state := (if inst_state inst = InstDraining \<and> s = InstIdle then InstDraining else s)\<rparr>) db"

definition apply_update :: "int \<Rightarrow> AgentTaskStateUpdate \<Rightarrow> AgentTaskStatus \<Rightarrow> ExpectedAttempt \<Rightarrow> rstr \<Rightarrow> AgentDb \<Rightarrow> AgentDb" where
  "apply_update now u target e owner db =
     (let db1 = update_task (upd_task u) (set_task_state now u target) db;
          db2 = (case attempt_target_of (upd_transition u) (upd_expected u) of
                   None \<Rightarrow> db1
                 | Some t \<Rightarrow> set_attempts (attempt_matches u e) t (if attempt_is_terminal t then Some now else None) (upd_reason u) db1);
          db3 = (if upd_transition u = TCancel \<or> upd_transition u = TRetry then delete_waits (upd_task u) db2 else db2);
          db4 = (if upd_transition u = TRetry
                 then db3\<lparr>db_cancellations := filter (\<lambda>c. c \<noteq> (upd_team u, upd_task u)) (db_cancellations db3)\<rparr> else db3)
      in (case instance_target_of (upd_expected u) target of None \<Rightarrow> db4 | Some s \<Rightarrow> set_instance_state s owner db4))"

fun transition_debug :: "AgentTaskTransition \<Rightarrow> rstr" where
  "transition_debug TStart = lit ''Start''"
| "transition_debug TWait = lit ''Wait''"
| "transition_debug TResume = lit ''Resume''"
| "transition_debug TComplete = lit ''Complete''"
| "transition_debug TFail = lit ''Fail''"
| "transition_debug TCancel = lit ''Cancel''"
| "transition_debug TInterrupt = lit ''Interrupt''"
| "transition_debug TRetry = lit ''Retry''"

definition update_agent_task_state_inner :: "(rstr \<Rightarrow> bool) \<Rightarrow> int \<Rightarrow> AgentTaskStateUpdate \<Rightarrow> ExpectedAttempt \<Rightarrow> AgentDb
    \<Rightarrow> AgentStoreError + bool \<times> AgentDb" where
  "update_agent_task_state_inner valid_json now u e db =
     (if upd_transition u = TStart
      then Inl (InvalidAgentRuntimeData (lit ''queued tasks must be started through claim_runnable_agent_task''))
      else case task_apply (Some \<circ> task_status_text) (upd_expected u) (upd_transition u) of
        Inl err \<Rightarrow> Inl (AgentDomain err)
      | Inr target \<Rightarrow>
          if (case upd_result u of Some x \<Rightarrow> \<not> valid_json x | None \<Rightarrow> False) then Inl (AgentRuntimeJson (lit ''result_json''))
          else if (case upd_error u of Some x \<Rightarrow> \<not> valid_json x | None \<Rightarrow> False) then Inl (AgentRuntimeJson (lit ''error_json''))
          else (case map_of (db_tasks db) (upd_task u) of
            None \<Rightarrow> Inr (False, db)
          | Some r \<Rightarrow>
              if at_team r \<noteq> upd_team u \<or> at_status r \<noteq> upd_expected u
                \<or> (exp_attempt e \<noteq> None \<and> \<not> list_ex (attempt_matches u e) (db_attempts db))
              then Inr (False, db)
              else if upd_transition u = TResume \<and> count_rows (attempt_matches u e) (db_attempts db) > 1 then Inl SqliteFailure
              else if attempt_target_of (upd_transition u) (upd_expected u) \<noteq> None
                \<and> count_rows (attempt_matches u e) (db_attempts db) \<noteq> 1
              then Inl (InvalidAgentRuntimeData (lit ''task '' @ quote_id (upd_task u)
                     @ lit '' has no active attempt for transition '' @ transition_debug (upd_transition u)))
              else map_sum id (Pair True) (check_constraints (apply_update now u target e (at_owner r) db))))"

definition cancel_queued_agent_task :: "(rstr \<Rightarrow> bool) \<Rightarrow> int \<Rightarrow> rstr \<Rightarrow> rstr \<Rightarrow> rstr \<Rightarrow> AgentDb \<Rightarrow> AgentStoreError + bool \<times> AgentDb" where
  "cancel_queued_agent_task valid_json now team i error_json db =
     (if \<not> valid_json error_json then Inl (AgentRuntimeJson (lit ''error_json''))
      else case map_of (db_tasks db) i of
        Some r \<Rightarrow> if at_team r = team \<and> at_status r = TaskQueued
            then Inr (True, update_task i (\<lambda>t. t\<lparr>at_status := TaskCancelled, at_error := Some error_json,
                   at_completed := Some now, at_updated := now\<rparr>) db)
            else Inr (False, db)
      | None \<Rightarrow> Inr (False, db))"

section \<open>Suspension, resumption and recovery\<close>

definition queue_open :: "AgentDb \<Rightarrow> rstr \<Rightarrow> bool" where
  "queue_open db team = (case map_of (db_teams db) team of
      Some t \<Rightarrow> team_state t = TeamActive \<or> team_state t = TeamDraining | None \<Rightarrow> False)"

definition instance_in :: "AgentDb \<Rightarrow> rstr \<Rightarrow> AgentInstanceStatus list \<Rightarrow> bool" where
  "instance_in db i states = (case map_of (db_instances db) i of Some inst \<Rightarrow> inst_state inst \<in> set states | None \<Rightarrow> False)"

text \<open>An instance that is being drained stays so; another one among the given states takes the new state.\<close>

definition move_instance :: "AgentInstanceStatus list \<Rightarrow> AgentInstanceStatus \<Rightarrow> rstr \<Rightarrow> AgentDb \<Rightarrow> AgentDb" where
  "move_instance states s i db = update_instance i
     (\<lambda>inst. if inst_state inst \<in> set states
             then inst\<lparr>inst_state := (if inst_state inst = InstDraining then InstDraining else s)\<rparr> else inst) db"

definition suspend_running_agent_task_with_wait_dependencies ::
    "int \<Rightarrow> rstr \<Rightarrow> rstr \<Rightarrow> AgentDb \<Rightarrow> AgentStoreError + bool \<times> AgentDb" where
  "suspend_running_agent_task_with_wait_dependencies now team i db =
     (let running = (\<lambda>a. att_task a = i \<and> att_team a = team \<and> att_status a = AttRunning)
      in case map_of (db_tasks db) i of
        None \<Rightarrow> Inr (False, db)
      | Some r \<Rightarrow>
          if at_team r \<noteq> team \<or> at_status r \<noteq> TaskRunning
            \<or> \<not> list_ex (\<lambda>d. dep_team d = team) (waits_of db i) \<or> wait_over now db i
          then Inr (False, db)
          else if count_rows running (db_attempts db) \<noteq> 1
          then Inl (InvalidAgentRuntimeData (lit ''task '' @ quote_id i @ lit '' has no running attempt to suspend during reconciliation''))
          else map_sum id (Pair True) (check_constraints
            (move_instance [InstRunning, InstDraining] InstWaiting (at_owner r)
              ((update_task i (\<lambda>t. t\<lparr>at_status := TaskWaiting, at_updated := now\<rparr>) db)
                \<lparr>db_attempts := update_rows running (\<lambda>a. a\<lparr>att_status := AttSuspended\<rparr>) (db_attempts db)\<rparr>))))"

text \<open>\<open>selected\<close> is the restriction of the callers: none, a key of the input, or a bond to a plan.\<close>

definition resumable :: "int \<Rightarrow> AgentDb \<Rightarrow> (rstr \<Rightarrow> bool) \<Rightarrow> rstr \<Rightarrow> AgentTaskRow \<Rightarrow> bool" where
  "resumable now db selected i r \<longleftrightarrow> at_status r = TaskWaiting \<and> instance_in db (at_owner r) [InstWaiting, InstDraining]
     \<and> queue_open db (at_team r) \<and> selected i \<and> waits_of db i \<noteq> [] \<and> wait_over now db i"

definition resume_key :: "rstr \<times> AgentTaskRow \<Rightarrow> int \<times> rstr \<times> rstr \<times> int" where
  "resume_key = (\<lambda>(_, r). (at_created r, at_team r, at_owner r, at_sequence r))"

definition resume_task :: "int \<Rightarrow> rstr \<times> AgentTaskRow \<Rightarrow> AgentDb \<Rightarrow> AgentDb" where
  "resume_task now = (\<lambda>(i, r) db. move_instance [InstWaiting, InstDraining] InstIdle (at_owner r)
     (update_task i (\<lambda>t. if at_status t = TaskWaiting then t\<lparr>at_status := TaskQueued, at_updated := now\<rparr> else t) db))"

definition resume_satisfied_agent_tasks_matching ::
    "int \<Rightarrow> int \<Rightarrow> (rstr \<Rightarrow> bool) \<Rightarrow> (rstr \<Rightarrow> bool) \<Rightarrow> AgentDb \<Rightarrow> AgentStoreError + rstr list \<times> AgentDb" where
  "resume_satisfied_agent_tasks_matching now limit selected requeue db =
     (if limit \<le> 0 then Inl (InvalidAgentRuntimeData (lit ''waiting Agent task resume limit must be greater than 0''))
      else (let rows = take (nat limit) (sort_key resume_key (filter (\<lambda>(i, r). resumable now db selected i r) (db_tasks db)))
            in if \<not> list_all (requeue \<circ> fst) rows then Inl SqliteFailure
               else map_sum id (Pair (map fst rows)) (check_constraints (fold (resume_task now) rows db))))"

definition interrupted_wait :: "AgentDb \<Rightarrow> rstr \<Rightarrow> rstr \<Rightarrow> AgentTaskRow \<Rightarrow> bool" where
  "interrupted_wait db reason i r \<longleftrightarrow> at_status r = TaskInterrupted
     \<and> list_ex (\<lambda>a. att_team a = at_team r \<and> att_task a = i \<and> att_status a = AttInterrupted \<and> att_reason a = Some reason) (db_attempts db)
     \<and> list_ex (\<lambda>d. dep_team d = at_team r) (waits_of db i)"

definition recoverable :: "AgentDb \<Rightarrow> rstr \<Rightarrow> rstr \<Rightarrow> AgentTaskRow \<Rightarrow> bool" where
  "recoverable db reason i r \<longleftrightarrow> interrupted_wait db reason i r
     \<and> instance_in db (at_owner r) [InstPaused, InstIdle, InstWaiting, InstDraining] \<and> queue_open db (at_team r)
     \<and> \<not> list_ex (\<lambda>(k, e). at_owner e = at_owner r \<and> k \<noteq> i \<and> task_active e) (db_tasks db)
     \<and> \<not> list_ex (\<lambda>(k, e). at_owner e = at_owner r \<and> at_sequence e < at_sequence r \<and> interrupted_wait db reason k e) (db_tasks db)"

definition recover_key :: "rstr \<times> AgentTaskRow \<Rightarrow> int \<times> rstr \<times> rstr \<times> int" where
  "recover_key = (\<lambda>(_, r). (at_updated r, at_team r, at_owner r, at_sequence r))"

definition recover_task :: "int \<Rightarrow> rstr \<Rightarrow> rstr \<times> AgentTaskRow \<Rightarrow> AgentDb \<Rightarrow> AgentDb" where
  "recover_task now reason = (\<lambda>(i, r) db.
     move_instance [InstPaused, InstIdle, InstWaiting, InstDraining] InstWaiting (at_owner r)
       (set_attempts (\<lambda>a. att_task a = i \<and> att_team a = at_team r \<and> att_status a = AttInterrupted \<and> att_reason a = Some reason)
          AttSuspended None None
         (update_task i (\<lambda>t. if at_status t = TaskInterrupted
            then t\<lparr>at_status := TaskWaiting, at_error := None, at_completed := None, at_updated := now\<rparr> else t) db)))"

definition recover_interrupted_agent_wait_tasks ::
    "int \<Rightarrow> rstr \<Rightarrow> int \<Rightarrow> AgentDb \<Rightarrow> AgentStoreError + rstr list \<times> AgentDb" where
  "recover_interrupted_agent_wait_tasks now reason limit db =
     (if limit \<le> 0 then Inl (InvalidAgentRuntimeData (lit ''interrupted Agent wait recovery limit must be greater than 0''))
      else (let rows = take (nat limit) (sort_key recover_key (filter (\<lambda>(i, r). recoverable db reason i r) (db_tasks db)))
            in map_sum id (Pair (map fst rows)) (check_constraints (fold (recover_task now reason) rows db))))"

section \<open>Cancellation of a subtree\<close>

definition subtree_of :: "AgentDb \<Rightarrow> rstr \<Rightarrow> rstr \<Rightarrow> rstr list" where
  "subtree_of db team root =
     (if map_option at_team (map_of (db_tasks db) root) = Some team then closure_of (child_edges db team) [root] else [])"

definition subtree_rows :: "AgentDb \<Rightarrow> rstr \<Rightarrow> rstr \<Rightarrow> (rstr \<times> AgentTaskRow) list" where
  "subtree_rows db team root =
     (let ids = subtree_of db team root
      in sort_key (\<lambda>(k, r). (at_created r, k)) (filter (\<lambda>(k, r). k \<in> set ids \<and> at_team r = team) (db_tasks db)))"

definition suspended_attempts :: "rstr \<Rightarrow> rstr \<Rightarrow> AgentAttemptRow \<Rightarrow> bool" where
  "suspended_attempts team i a \<longleftrightarrow> att_task a = i \<and> att_team a = team \<and> att_status a = AttSuspended"

definition cancel_task :: "int \<Rightarrow> rstr \<Rightarrow> rstr \<Rightarrow> rstr option \<Rightarrow> rstr \<Rightarrow> AgentTaskRow \<Rightarrow> AgentDb \<Rightarrow> AgentStoreError + AgentDb" where
  "cancel_task now team error_json reason i r db =
     (let db1 = update_task i (\<lambda>t. t\<lparr>at_status := TaskCancelled, at_error := Some error_json, at_completed := Some now, at_updated := now\<rparr>) db
      in if at_status r = TaskWaiting then
           (if count_rows (suspended_attempts team i) (db_attempts db1) \<noteq> 1
            then Inl (InvalidAgentRuntimeData (lit ''waiting Agent task '' @ quote_id i @ lit '' has no suspended attempt to cancel''))
            else Inr (delete_waits i (move_instance [InstWaiting, InstDraining] InstIdle (at_owner r)
                (set_attempts (suspended_attempts team i) AttCancelled (Some now) reason db1))))
         else Inr (delete_waits i db1))"

fun cancel_tasks :: "int \<Rightarrow> rstr \<Rightarrow> rstr \<Rightarrow> rstr option \<Rightarrow> (rstr \<times> AgentTaskRow) list \<Rightarrow> AgentDb \<Rightarrow> AgentStoreError + AgentDb" where
  "cancel_tasks now team error_json reason [] db = Inr db"
| "cancel_tasks now team error_json reason ((i, r) # rows) db =
     (case cancel_task now team error_json reason i r db of
        Inl e \<Rightarrow> Inl e
      | Inr db' \<Rightarrow> cancel_tasks now team error_json reason rows db')"

record AgentTaskSubtreeCancellation =
  running_task_ids :: "rstr list"
  cancelled_task_ids :: "rstr list"

definition request_cancellation :: "rstr \<Rightarrow> rstr \<Rightarrow> AgentDb \<Rightarrow> AgentDb" where
  "request_cancellation team root db =
     (if (team, root) \<in> set (db_cancellations db) then db else db\<lparr>db_cancellations := db_cancellations db @ [(team, root)]\<rparr>)"

definition cancel_agent_task_subtree :: "(rstr \<Rightarrow> bool) \<Rightarrow> int \<Rightarrow> rstr \<Rightarrow> rstr \<Rightarrow> rstr \<Rightarrow> rstr option \<Rightarrow> AgentDb
    \<Rightarrow> AgentStoreError + AgentTaskSubtreeCancellation \<times> AgentDb" where
  "cancel_agent_task_subtree valid_json now team root error_json reason db =
     (if \<not> valid_json error_json then Inl (AgentRuntimeJson (lit ''error_json''))
      else (let rows = subtree_rows db team root;
                cancellable = filter (\<lambda>(_, r). at_status r = TaskQueued \<or> at_status r = TaskWaiting) rows;
                db1 = (if rows = [] then db else request_cancellation team root db)
            in case cancel_tasks now team error_json reason cancellable db1 of
                 Inl e \<Rightarrow> Inl e
               | Inr db2 \<Rightarrow> map_sum id (Pair \<lparr>running_task_ids = map fst (filter (\<lambda>(_, r). at_status r = TaskRunning) rows),
                     cancelled_task_ids = map fst cancellable\<rparr>) (check_constraints db2)))"

section \<open>Registration of waits\<close>

definition dependency_edges :: "AgentDb \<Rightarrow> rstr \<Rightarrow> (rstr \<times> rstr) list" where
  "dependency_edges db team = map (\<lambda>d. (dep_waiting d, dep_task d)) (filter (\<lambda>d. dep_team d = team) (db_dependencies db))"

definition agent_dependency_path_exists :: "AgentDb \<Rightarrow> rstr \<Rightarrow> rstr \<Rightarrow> rstr \<Rightarrow> bool" where
  "agent_dependency_path_exists db team start target \<longleftrightarrow> target \<in> set (closure_of (dependency_edges db team) [start])"

record WaitRegistration =
  reg_team :: rstr
  reg_waiting :: rstr
  reg_tasks :: "rstr list"
  reg_mode :: AgentTaskWaitMode
  reg_call :: "rstr option"
  reg_deadline :: "int option"
  reg_instance :: "rstr option"

datatype AgentTaskWaitRegistrationOutcome = WaitCreated | WaitReplayed | WaitRepaired | WaitReplaced

fun dedupe_agent_wait_dependency_task_ids :: "rstr list \<Rightarrow> rstr list \<Rightarrow> AgentStoreError + rstr list" where
  "dedupe_agent_wait_dependency_task_ids seen [] = Inr []"
| "dedupe_agent_wait_dependency_task_ids seen (t # ts) =
     (if t \<in> set seen
      then Inl (InvalidAgentRuntimeData (lit ''duplicate dependency task id '' @ quote_id t @ lit '' in wait registration''))
      else map_sum id ((#) t) (dedupe_agent_wait_dependency_task_ids (t # seen) ts))"

fun check_dependencies :: "AgentDb \<Rightarrow> rstr \<Rightarrow> rstr \<Rightarrow> rstr list \<Rightarrow> AgentStoreError + unit" where
  "check_dependencies db team waiting [] = Inr ()"
| "check_dependencies db team waiting (t # ts) =
     (case ensure_task_team db t team of Inl e \<Rightarrow> Inl e | Inr _ \<Rightarrow>
        if t = waiting \<or> agent_dependency_path_exists db team t waiting
        then Inl (AgentDomain (dependency_cycle waiting))
        else check_dependencies db team waiting ts)"

definition existing_rows_match_wait_round :: "WaitRegistration \<Rightarrow> AgentDependencyRow list \<Rightarrow> bool" where
  "existing_rows_match_wait_round q rows \<longleftrightarrow>
     list_all (\<lambda>d. dep_mode d = reg_mode q \<and> dep_call d = reg_call q \<and> dep_deadline d = reg_deadline q) rows"

definition existing_rows_same_pending_tool_call :: "WaitRegistration \<Rightarrow> AgentDependencyRow list \<Rightarrow> bool" where
  "existing_rows_same_pending_tool_call q rows \<longleftrightarrow> rows \<noteq> [] \<and> list_all (\<lambda>d. dep_call d = reg_call q) rows"

definition existing_wait_round_is_terminal :: "AgentDb \<Rightarrow> AgentDependencyRow list \<Rightarrow> bool" where
  "existing_wait_round_is_terminal db rows \<longleftrightarrow> list_all (required_done db) rows"

definition insert_waits :: "WaitRegistration \<Rightarrow> rstr list \<Rightarrow> AgentDb \<Rightarrow> AgentDb" where
  "insert_waits q ts db = db\<lparr>db_dependencies := db_dependencies db @ map (\<lambda>t.
     \<lparr>dep_team = reg_team q, dep_waiting = reg_waiting q, dep_task = t, dep_mode = reg_mode q,
      dep_call = reg_call q, dep_deadline = reg_deadline q\<rparr>) ts\<rparr>"

definition ensure_task_waiting_requested_event :: "WaitRegistration \<Rightarrow> rstr list \<Rightarrow> AgentDb \<Rightarrow> AgentDb" where
  "ensure_task_waiting_requested_event q ts db =
     (if list_ex (\<lambda>w. wr_team w = reg_team q \<and> wr_task w = reg_waiting q \<and> wr_call w = reg_call q) (db_wait_events db) then db
      else db\<lparr>db_wait_events := db_wait_events db @ [\<lparr>wr_team = reg_team q, wr_task = reg_waiting q, wr_instance = reg_instance q,
             wr_call = reg_call q, wr_dependencies = ts, wr_mode = reg_mode q, wr_deadline = reg_deadline q\<rparr>]\<rparr>)"

definition register_round :: "WaitRegistration \<Rightarrow> rstr list \<Rightarrow> AgentDb \<Rightarrow> AgentStoreError + AgentTaskWaitRegistrationOutcome \<times> AgentDb" where
  "register_round q ts db =
     (let existing = waits_of db (reg_waiting q); existing_ids = map dep_task existing;
          event = ensure_task_waiting_requested_event q ts
      in if existing = [] then Inr (WaitCreated, event (insert_waits q ts db))
         else if existing_rows_match_wait_round q existing then
           (if set existing_ids = set ts then Inr (WaitReplayed, event db)
            else if set existing_ids \<subseteq> set ts
            then Inr (WaitRepaired, event (insert_waits q (filter (\<lambda>t. t \<notin> set existing_ids) ts) db))
            else Inl (InvalidAgentRuntimeData (lit ''agent wait round for task '' @ quote_id (reg_waiting q)
                   @ lit '' cannot change dependency set for pending tool call'')))
         else if existing_rows_same_pending_tool_call q existing
         then Inl (InvalidAgentRuntimeData (lit ''agent wait round for task '' @ quote_id (reg_waiting q)
                @ lit '' conflicts with existing registration for pending tool call''))
         else if existing_wait_round_is_terminal db existing
         then Inr (WaitReplaced, event (insert_waits q ts (delete_waits (reg_waiting q) db)))
         else Inl (InvalidAgentRuntimeData (lit ''agent task '' @ quote_id (reg_waiting q)
                @ lit '' already has an active wait round that has not finished; cannot register a different wait round'')))"

definition register_agent_task_wait_dependencies :: "WaitRegistration \<Rightarrow> AgentDb
    \<Rightarrow> AgentStoreError + AgentTaskWaitRegistrationOutcome \<times> AgentDb" where
  "register_agent_task_wait_dependencies q db =
     (case dedupe_agent_wait_dependency_task_ids [] (reg_tasks q) of Inl e \<Rightarrow> Inl e | Inr ts \<Rightarrow>
      if ts = [] then Inl (InvalidAgentRuntimeData (lit ''agent wait dependency set must not be empty''))
      else if (case reg_call q of Some c \<Rightarrow> trim c = [] | None \<Rightarrow> False)
      then Inl (InvalidAgentRuntimeData (lit ''pending tool call id must not be empty when provided''))
      else case ensure_task_team db (reg_waiting q) (reg_team q) of Inl e \<Rightarrow> Inl e | Inr _ \<Rightarrow>
     (case check_dependencies db (reg_team q) (reg_waiting q) ts of Inl e \<Rightarrow> Inl e | Inr _ \<Rightarrow>
     (case register_round q ts db of Inl e \<Rightarrow> Inl e
      | Inr (outcome, db') \<Rightarrow> map_sum id (Pair outcome) (check_constraints db'))))"

definition delete_agent_task_dependencies :: "rstr \<Rightarrow> AgentDb \<Rightarrow> nat \<times> AgentDb" where
  "delete_agent_task_dependencies i db = (length (waits_of db i), delete_waits i db)"

section \<open>States of teams and instances\<close>

definition team_workload :: "AgentDb \<Rightarrow> rstr \<Rightarrow> AgentTaskStatus \<Rightarrow> nat" where
  "team_workload db team s = count_rows (\<lambda>(_, r). at_team r = team \<and> at_status r = s) (db_tasks db)"

definition team_target_instances :: "rstr \<Rightarrow> AgentTeamStatus \<Rightarrow> AgentInstanceRow \<Rightarrow> AgentInstanceRow" where
  "team_target_instances team target inst =
     (if inst_team inst \<noteq> team then inst
      else case target of
        TeamActive \<Rightarrow> if inst_state inst \<in> {InstPaused, InstFailed} then inst\<lparr>inst_state := InstIdle\<rparr> else inst
      | TeamPaused \<Rightarrow> if inst_state inst = InstIdle then inst\<lparr>inst_state := InstPaused\<rparr> else inst
      | TeamDraining \<Rightarrow> if inst_state inst \<in> {InstIdle, InstPaused} then inst\<lparr>inst_state := InstDraining\<rparr> else inst
      | TeamStopped \<Rightarrow> inst\<lparr>inst_state := InstStopped\<rparr>
      | TeamFailed \<Rightarrow> if inst_state inst \<noteq> InstStopped then inst\<lparr>inst_state := InstFailed\<rparr> else inst)"

definition transition_agent_team_status :: "rstr \<Rightarrow> AgentTeamStatus \<Rightarrow> AgentDb \<Rightarrow> AgentStoreError + AgentDb" where
  "transition_agent_team_status team target db =
     (case map_of (db_teams db) team of
        None \<Rightarrow> Inl (InvalidAgentRuntimeData (lit ''Agent team '' @ quote_id team @ lit '' was not found''))
      | Some t \<Rightarrow>
     (case team_transition_to (Some \<circ> team_status_text) (team_state t) target of Inl e \<Rightarrow> Inl (AgentDomain e) | Inr _ \<Rightarrow>
     (case (if target = TeamStopped then validate_deactivation
              \<lparr>queued_tasks = of_nat (team_workload db team TaskQueued), running_tasks = of_nat (team_workload db team TaskRunning),
               waiting_tasks = of_nat (team_workload db team TaskWaiting)\<rparr> else Inr ()) of Inl e \<Rightarrow> Inl (AgentDomain e) | Inr _ \<Rightarrow>
      if target = TeamStopped \<and> list_ex (\<lambda>(_, r). at_team r = team \<and> holds_queue_head (at_status r)) (db_tasks db)
      then Inl (InvalidAgentRuntimeData (lit ''Agent team '' @ quote_id team @ lit '' changed state or workload during transition''))
      else Inr (db\<lparr>db_teams := update_keyed (\<lambda>k _. k = team) (\<lambda>r. r\<lparr>team_state := target\<rparr>) (db_teams db),
             db_instances := update_keyed (\<lambda>_ _. True) (team_target_instances team target) (db_instances db)\<rparr>))))"

definition blocking_statuses :: "AgentInstanceStatus \<Rightarrow> AgentTaskStatus list" where
  "blocking_statuses target =
     (if target = InstPaused \<or> target = InstDraining then [TaskRunning, TaskWaiting]
      else if target = InstStopped then [TaskQueued, TaskRunning, TaskWaiting] else [])"

definition transition_agent_instance_status :: "rstr \<Rightarrow> AgentInstanceStatus \<Rightarrow> AgentDb \<Rightarrow> AgentStoreError + AgentDb" where
  "transition_agent_instance_status i target db =
     (case map_of (db_instances db) i of
        None \<Rightarrow> Inl (InvalidAgentRuntimeData (lit ''Agent instance '' @ quote_id i @ lit '' was not found''))
      | Some inst \<Rightarrow>
     (case instance_transition_to (Some \<circ> instance_status_text) (inst_state inst) target of Inl e \<Rightarrow> Inl (AgentDomain e) | Inr _ \<Rightarrow>
     (let blocking = count_rows (\<lambda>(_, r). at_owner r = i \<and> at_status r \<in> set (blocking_statuses target)) (db_tasks db)
      in if blocking > 0
         then Inl (InvalidAgentRuntimeData (lit ''Agent instance '' @ quote_id i @ lit '' has '' @ nat_display blocking
                @ lit '' active or queued task(s)''))
         else Inr (update_instance i (\<lambda>r. r\<lparr>inst_state := target\<rparr>) db))))"

end
