(* ===== verification/Agent_System.thy ===== *)
theory Agent_System
  imports Agent_Queue
begin

text \<open>
  The operations of \<open>Agent_Queue\<close> in any order: what every reachable state of the tables satisfies. A failed
  operation leaves the tables as they were, so only successful ones are steps. Teams and instances are added
  at any time. A change of state that resumes a waiting task in place is not a step, since no part of the
  program asks for it: tasks that waited are queued again. Four writers of these tables in
  \<open>store/workspace.rs\<close> are not steps either, and nothing is claimed of states that they lead to: the
  suspension of the tasks of a remote plan, the closure of a chat that failed before its stream, the
  rewriting of a chat, and the deletion of an instance with its cascades.
\<close>

section \<open>Steps\<close>

inductive agent_step :: "AgentDb \<Rightarrow> AgentDb \<Rightarrow> bool" where
  team_added: "\<lbrakk>map_of (db_teams db) team = None; 0 < max_runs\<rbrakk> \<Longrightarrow>
    agent_step db (db\<lparr>db_teams := db_teams db @ [(team, \<lparr>team_state = TeamActive, team_max_runs = max_runs\<rparr>)]\<rparr>)"
| instance_added: "\<lbrakk>map_of (db_instances db) i = None; map_of (db_teams db) team = Some t\<rbrakk> \<Longrightarrow>
    agent_step db (db\<lparr>db_instances := db_instances db @
      [(i, \<lparr>inst_team = team, inst_state = InstIdle, inst_next_sequence = 0, inst_last_scheduled = None\<rparr>)]\<rparr>)"
| enqueued: "enqueue_agent_task_with_limits now t max_team max_instance max_chat db = Inr db' \<Longrightarrow> agent_step db db'"
| transferred: "transfer_queued_agent_task_with_limits now team i target max_team max_instance max_chat db = Inr (b, db')
    \<Longrightarrow> agent_step db db'"
| claimed: "claim_runnable_agent_task_with_owner now team i attempt incarnation db = Inr (x, db') \<Longrightarrow> agent_step db db'"
| renewed: "renew_agent_attempt_lease now i attempt incarnation db = Inr (b, db') \<Longrightarrow> agent_step db db'"
| updated: "\<lbrakk>update_agent_task_state_inner valid_json now u e db = Inr (b, db'); upd_transition u \<noteq> TResume\<rbrakk>
    \<Longrightarrow> agent_step db db'"
| queued_cancelled: "cancel_queued_agent_task valid_json now team i error_json db = Inr (b, db') \<Longrightarrow> agent_step db db'"
| suspended: "suspend_running_agent_task_with_wait_dependencies now team i db = Inr (b, db') \<Longrightarrow> agent_step db db'"
| resumed: "resume_satisfied_agent_tasks_matching now limit selected requeue db = Inr (ids, db') \<Longrightarrow> agent_step db db'"
| recovered: "recover_interrupted_agent_wait_tasks now reason limit db = Inr (ids, db') \<Longrightarrow> agent_step db db'"
| subtree_cancelled: "cancel_agent_task_subtree valid_json now team root error_json reason db = Inr (c, db') \<Longrightarrow> agent_step db db'"
| registered: "register_agent_task_wait_dependencies q db = Inr (outcome, db') \<Longrightarrow> agent_step db db'"
| waits_deleted: "delete_agent_task_dependencies i db = (n, db') \<Longrightarrow> agent_step db db'"
| team_moved: "transition_agent_team_status team target db = Inr db' \<Longrightarrow> agent_step db db'"
| instance_moved: "transition_agent_instance_status i state db = Inr db' \<Longrightarrow> agent_step db db'"

definition empty_agent_db :: AgentDb where
  "empty_agent_db = \<lparr>db_teams = [], db_instances = [], db_tasks = [], db_attempts = [], db_dependencies = [],
     db_cancellations = [], db_wait_events = []\<rparr>"

inductive agent_reachable :: "AgentDb \<Rightarrow> bool" where
  start: "agent_reachable empty_agent_db"
| step: "\<lbrakk>agent_reachable db; agent_step db db'\<rbrakk> \<Longrightarrow> agent_reachable db'"

section \<open>What holds in every state\<close>

definition task_ref :: "AgentDb \<Rightarrow> rstr \<Rightarrow> rstr \<Rightarrow> bool" where
  "task_ref db i team \<longleftrightarrow> map_option at_team (map_of (db_tasks db) i) = Some team"

definition refs_ok :: "AgentDb \<Rightarrow> bool" where
  "refs_ok db \<longleftrightarrow>
     (\<forall>k r. map_of (db_tasks db) k = Some r \<longrightarrow> (\<exists>inst. map_of (db_instances db) (at_owner r) = Some inst
         \<and> inst_team inst = at_team r \<and> at_sequence r < inst_next_sequence inst)
       \<and> (\<forall>p. at_parent r = Some p \<longrightarrow> task_ref db p (at_team r)))
   \<and> (\<forall>k inst. map_of (db_instances db) k = Some inst \<longrightarrow> map_of (db_teams db) (inst_team inst) \<noteq> None)
   \<and> (\<forall>d \<in> set (db_dependencies db). task_ref db (dep_waiting d) (dep_team d) \<and> task_ref db (dep_task d) (dep_team d))
   \<and> (\<forall>a \<in> set (db_attempts db). task_ref db (att_task a) (att_team a))"

definition waits_uniform :: "AgentDb \<Rightarrow> bool" where
  "waits_uniform db \<longleftrightarrow> (\<forall>d \<in> set (db_dependencies db). \<forall>d' \<in> set (db_dependencies db). dep_waiting d = dep_waiting d'
     \<longrightarrow> dep_mode d = dep_mode d' \<and> dep_call d = dep_call d' \<and> dep_deadline d = dep_deadline d')"

definition wait_graph :: "AgentDb \<Rightarrow> (rstr \<times> rstr) set" where
  "wait_graph db = (\<lambda>d. (dep_waiting d, dep_task d)) ` set (db_dependencies db)"

definition running_attempts :: "AgentDb \<Rightarrow> rstr \<Rightarrow> nat" where
  "running_attempts db i = count_rows (\<lambda>a. att_task a = i \<and> att_status a = AttRunning) (db_attempts db)"

definition attempts_agree :: "AgentDb \<Rightarrow> bool" where
  "attempts_agree db \<longleftrightarrow> (\<forall>k r. map_of (db_tasks db) k = Some r \<longrightarrow>
     running_attempts db k = (if at_status r = TaskRunning then 1 else 0)
     \<and> (at_status r = TaskWaiting \<longrightarrow> (\<exists>a \<in> set (db_attempts db). att_task a = k \<and> att_status a = AttSuspended)))"

definition limits_kept :: "AgentDb \<Rightarrow> bool" where
  "limits_kept db \<longleftrightarrow> (\<forall>team t. map_of (db_teams db) team = Some t \<longrightarrow> int (running_count db team) \<le> team_max_runs t)"

definition unique_ok :: "AgentDb \<Rightarrow> bool" where
  "unique_ok db \<longleftrightarrow> keys_unique db \<and> one_active_per_instance db \<and> one_running_attempt_per_task db"

lemma check_unique: "check_constraints db = Inr db' \<Longrightarrow> db' = db \<and> unique_ok db'"
  by (auto dest: check_constraints_Inr simp: unique_ok_def)

section \<open>References\<close>

text \<open>Most operations keep who belongs to whom: tasks keep team, owner, parent and place, instances their team
  and do not lower their counter, attempts keep their task, and no dependency is added.\<close>

definition task_identity :: "AgentTaskRow \<Rightarrow> rstr \<times> rstr \<times> rstr option \<times> int" where
  "task_identity r = (at_team r, at_owner r, at_parent r, at_sequence r)"

definition same_refs :: "AgentDb \<Rightarrow> AgentDb \<Rightarrow> bool" where
  "same_refs db db' \<longleftrightarrow>
     (\<forall>k. map_option task_identity (map_of (db_tasks db') k) = map_option task_identity (map_of (db_tasks db) k))
   \<and> (\<forall>k. map_option inst_team (map_of (db_instances db') k) = map_option inst_team (map_of (db_instances db) k))
   \<and> (\<forall>k x y. map_of (db_instances db) k = Some x \<longrightarrow> map_of (db_instances db') k = Some y \<longrightarrow> inst_next_sequence x \<le> inst_next_sequence y)
   \<and> (\<forall>k. map_of (db_teams db') k = None \<longleftrightarrow> map_of (db_teams db) k = None)
   \<and> map (\<lambda>a. (att_task a, att_team a)) (db_attempts db') = map (\<lambda>a. (att_task a, att_team a)) (db_attempts db)
   \<and> set (db_dependencies db') \<subseteq> set (db_dependencies db)"

lemma same_refs_waits: "same_refs db db' \<Longrightarrow> set (db_dependencies db') \<subseteq> set (db_dependencies db)"
  unfolding same_refs_def by (elim conjE)

lemma same_refs_refl [simp, intro]: "same_refs db db" by (simp add: same_refs_def)

lemma same_refs_trans: "\<lbrakk>same_refs a b; same_refs b c\<rbrakk> \<Longrightarrow> same_refs a c"
proof -
  assume a: "same_refs a b" and b: "same_refs b c"
  have "inst_next_sequence x \<le> inst_next_sequence z"
    if x: "map_of (db_instances a) k = Some x" and z: "map_of (db_instances c) k = Some z" for k x z
  proof -
    from b z obtain y where "map_of (db_instances b) k = Some y" unfolding same_refs_def
      by (metis option.map_disc_iff not_None_eq)
    with a b x z show ?thesis unfolding same_refs_def by (meson order_trans)
  qed
  with a b show ?thesis unfolding same_refs_def by auto
qed

lemma same_refs_task: "(\<And>r. task_identity (f r) = task_identity r) \<Longrightarrow> same_refs db (update_task i f db)"
  by (auto simp: same_refs_def table_simps option.map_comp o_def intro!: option.map_cong)

lemma same_refs_instance: "(\<And>r. inst_team (f r) = inst_team r \<and> inst_next_sequence r \<le> inst_next_sequence (f r))
    \<Longrightarrow> same_refs db (update_instance i f db)"
  by (auto simp: same_refs_def table_simps option.map_comp o_def intro!: option.map_cong)

lemma same_refs_attempts: "(\<And>a. att_task (f a) = att_task a \<and> att_team (f a) = att_team a)
    \<Longrightarrow> same_refs db (db\<lparr>db_attempts := update_rows p f (db_attempts db)\<rparr>)"
  by (auto simp: same_refs_def update_rows_def)

lemma same_refs_set_attempts: "same_refs db (set_attempts p s c x db)"
  unfolding set_attempts_def by (rule same_refs_attempts) simp

lemma same_refs_move: "same_refs db (move_instance states s i db)"
  unfolding move_instance_def by (rule same_refs_instance) simp

lemma same_refs_set_instance: "same_refs db (set_instance_state s i db)"
  unfolding set_instance_state_def by (rule same_refs_instance) simp

lemma same_refs_delete: "same_refs db (delete_waits i db)"
  by (auto simp: same_refs_def table_simps)

lemma same_refs_other: "same_refs db (db\<lparr>db_cancellations := c\<rparr>)" "same_refs db (db\<lparr>db_wait_events := w\<rparr>)"
  by (simp_all add: same_refs_def)

lemmas same_refs_rules = same_refs_refl same_refs_task same_refs_set_attempts same_refs_attempts same_refs_move same_refs_set_instance
  same_refs_delete same_refs_other

lemma task_ref_same: "same_refs db db' \<Longrightarrow> task_ref db' i team \<longleftrightarrow> task_ref db i team"
proof -
  assume "same_refs db db'"
  then have "map_option task_identity (map_of (db_tasks db') i) = map_option task_identity (map_of (db_tasks db) i)"
    by (simp add: same_refs_def)
  then have "map_option fst (map_option task_identity (map_of (db_tasks db') i))
      = map_option fst (map_option task_identity (map_of (db_tasks db) i))" by simp
  then show ?thesis by (simp add: task_ref_def option.map_comp o_def task_identity_def)
qed

lemma refs_owner: "\<lbrakk>refs_ok db; map_of (db_tasks db) k = Some r\<rbrakk> \<Longrightarrow> \<exists>inst. map_of (db_instances db) (at_owner r) = Some inst
    \<and> inst_team inst = at_team r \<and> at_sequence r < inst_next_sequence inst"
  unfolding refs_ok_def by blast

lemma refs_parent: "\<lbrakk>refs_ok db; map_of (db_tasks db) k = Some r; at_parent r = Some p\<rbrakk> \<Longrightarrow> task_ref db p (at_team r)"
  unfolding refs_ok_def by blast

lemma refs_team: "\<lbrakk>refs_ok db; map_of (db_instances db) k = Some inst\<rbrakk> \<Longrightarrow> map_of (db_teams db) (inst_team inst) \<noteq> None"
  unfolding refs_ok_def by blast

lemma refs_wait: "\<lbrakk>refs_ok db; d \<in> set (db_dependencies db)\<rbrakk> \<Longrightarrow> task_ref db (dep_waiting d) (dep_team d) \<and> task_ref db (dep_task d) (dep_team d)"
  unfolding refs_ok_def by blast

lemma refs_attempt: "\<lbrakk>refs_ok db; a \<in> set (db_attempts db)\<rbrakk> \<Longrightarrow> task_ref db (att_task a) (att_team a)"
  unfolding refs_ok_def by blast

lemma refs_okI:
  assumes "\<And>k r. map_of (db_tasks db) k = Some r \<Longrightarrow> \<exists>inst. map_of (db_instances db) (at_owner r) = Some inst
      \<and> inst_team inst = at_team r \<and> at_sequence r < inst_next_sequence inst"
    and "\<And>k r p. \<lbrakk>map_of (db_tasks db) k = Some r; at_parent r = Some p\<rbrakk> \<Longrightarrow> task_ref db p (at_team r)"
    and "\<And>k inst. map_of (db_instances db) k = Some inst \<Longrightarrow> map_of (db_teams db) (inst_team inst) \<noteq> None"
    and "\<And>d. d \<in> set (db_dependencies db) \<Longrightarrow> task_ref db (dep_waiting d) (dep_team d) \<and> task_ref db (dep_task d) (dep_team d)"
    and "\<And>a. a \<in> set (db_attempts db) \<Longrightarrow> task_ref db (att_task a) (att_team a)"
  shows "refs_ok db"
  unfolding refs_ok_def using assms by blast

lemma refs_ok_same:
  assumes "refs_ok db" "same_refs db db'"
  shows "refs_ok db'"
proof -
  note ref = task_ref_same [OF assms(2)]
  have tasks: "\<exists>inst. map_of (db_instances db') (at_owner r) = Some inst \<and> inst_team inst = at_team r
      \<and> at_sequence r < inst_next_sequence inst"
    and parent: "\<And>p. at_parent r = Some p \<Longrightarrow> task_ref db p (at_team r)"
    if r: "map_of (db_tasks db') k = Some r" for k r
  proof -
    from assms(2) have "map_option task_identity (map_of (db_tasks db') k) = map_option task_identity (map_of (db_tasks db) k)"
      by (simp add: same_refs_def)
    with r obtain o' where o': "map_of (db_tasks db) k = Some o'" "task_identity r = task_identity o'"
      by (cases "map_of (db_tasks db) k") auto
    then have same: "at_owner r = at_owner o'" "at_team r = at_team o'" "at_parent r = at_parent o'" "at_sequence r = at_sequence o'"
      by (simp_all add: task_identity_def)
    from refs_owner [OF assms(1) o'(1)] obtain inst where inst: "map_of (db_instances db) (at_owner r) = Some inst"
      "inst_team inst = at_team r" "at_sequence r < inst_next_sequence inst" unfolding same by blast
    have "map_option inst_team (map_of (db_instances db') (at_owner r)) = Some (inst_team inst)"
      using assms(2) inst(1) by (simp add: same_refs_def)
    then obtain inst' where inst': "map_of (db_instances db') (at_owner r) = Some inst'" "inst_team inst' = inst_team inst" by auto
    moreover have "inst_next_sequence inst \<le> inst_next_sequence inst'"
      using assms(2) inst(1) inst'(1) unfolding same_refs_def by blast
    ultimately show "\<exists>inst. map_of (db_instances db') (at_owner r) = Some inst \<and> inst_team inst = at_team r
      \<and> at_sequence r < inst_next_sequence inst" using inst by auto
    show "\<And>p. at_parent r = Some p \<Longrightarrow> task_ref db p (at_team r)"
      using refs_parent [OF assms(1) o'(1)] unfolding same by blast
  qed
  have teams: "map_of (db_teams db') (inst_team inst) \<noteq> None" if inst: "map_of (db_instances db') k = Some inst" for k inst
  proof -
    have "map_option inst_team (map_of (db_instances db) k) = Some (inst_team inst)"
      using assms(2) inst unfolding same_refs_def by (metis option.map(2))
    then obtain x where "map_of (db_instances db) k = Some x" "inst_team x = inst_team inst" by auto
    from refs_team [OF assms(1) this(1)] this(2) show ?thesis using assms(2) unfolding same_refs_def by metis
  qed
  have att: "task_ref db (att_task a) (att_team a)" if "a \<in> set (db_attempts db')" for a
  proof -
    let ?f = "\<lambda>a. (att_task a, att_team a)"
    have "map ?f (db_attempts db') = map ?f (db_attempts db)" using assms(2) by (simp add: same_refs_def)
    from arg_cong [OF this, of set] have "?f a \<in> ?f ` set (db_attempts db)" unfolding set_map using that by blast
    then obtain b where "b \<in> set (db_attempts db)" "att_task a = att_task b" "att_team a = att_team b" by blast
    with refs_attempt [OF assms(1) this(1)] show ?thesis by simp
  qed
  have dep: "task_ref db (dep_waiting d) (dep_team d) \<and> task_ref db (dep_task d) (dep_team d)" if "d \<in> set (db_dependencies db')" for d
    using assms(2) that refs_wait [OF assms(1)] by (auto simp: same_refs_def)
  show ?thesis
  proof (rule refs_okI, unfold ref)
    fix k r p assume "map_of (db_tasks db') k = Some r" "at_parent r = Some p"
    then show "task_ref db p (at_team r)" by (rule parent)
  qed (erule tasks teams dep att)+
qed

section \<open>The effect of each operation\<close>

lemma map_sum_Inr: "map_sum id g z = Inr y \<longleftrightarrow> (\<exists>x. z = Inr x \<and> y = g x)"
  by (cases z) auto

lemma ensure_team_Inr: "ensure_team kind actual i team = Inr () \<longleftrightarrow> actual = Some team"
  by (auto simp: ensure_team_def split: option.splits)

lemma ensure_instance_Inr: "ensure_instance_team db i team = Inr () \<longleftrightarrow> (\<exists>inst. map_of (db_instances db) i = Some inst \<and> inst_team inst = team)"
  by (auto simp: ensure_instance_team_def ensure_team_Inr)

lemma ensure_task_Inr: "ensure_task_team db i team = Inr () \<longleftrightarrow> task_ref db i team"
  by (simp add: ensure_task_team_def ensure_team_Inr task_ref_def)

lemma enqueue_effect:
  assumes "enqueue_agent_task_with_limits now t max_team max_instance max_chat db = Inr db'"
  shows "db' = insert_task now t db \<and> unique_ok db'
    \<and> (\<exists>inst. map_of (db_instances db) (new_owner t) = Some inst \<and> inst_team inst = new_team t)
    \<and> (\<forall>p. new_parent t = Some p \<longrightarrow> check_parent db (new_team t) p = Inr ())"
  using assms
  by (auto simp: enqueue_agent_task_with_limits_def ensure_instance_Inr dest!: check_unique split: if_splits sum.splits option.splits)

lemma check_parent_ref: "check_parent db team p = Inr () \<Longrightarrow> task_ref db p team"
  by (auto simp: check_parent_def ensure_task_Inr split: sum.splits)

lemma transfer_effect:
  assumes "transfer_queued_agent_task_with_limits now team i target max_team max_instance max_chat db = Inr (b, db')"
  shows "db' = db \<or> (\<exists>r inst. map_of (db_tasks db) i = Some r \<and> at_team r = team \<and> at_status r = TaskQueued
      \<and> map_of (db_instances db) target = Some inst \<and> inst_team inst = team \<and> at_owner r \<noteq> target \<and> unique_ok db'
      \<and> db' = update_task i (\<lambda>r. r\<lparr>at_owner := target, at_sequence := inst_next_sequence inst, at_updated := now\<rparr>)
                (update_instance target (\<lambda>r. r\<lparr>inst_next_sequence := inst_next_sequence r + 1\<rparr>) db))"
  using assms
  by (auto simp: transfer_queued_agent_task_with_limits_def map_sum_Inr dest!: check_unique split: if_splits option.splits)

lemma claim_effect:
  assumes "claim_runnable_agent_task_with_owner now team i attempt incarnation db = Inr (x, db')"
  shows "db' = db \<or> (\<exists>r. map_of (db_tasks db) i = Some r \<and> at_team r = team \<and> runnable now db i r \<and> unique_ok db'
      \<and> db' = claim_task now i r (new_attempt now team i attempt incarnation db) db)"
  using assms
  by (auto simp: claim_runnable_agent_task_with_owner_def map_sum_Inr dest!: check_unique split: if_splits option.splits)

lemma update_effect:
  assumes "update_agent_task_state_inner valid_json now u e db = Inr (b, db')"
  shows "db' = db \<or> (\<exists>r target. map_of (db_tasks db) (upd_task u) = Some r \<and> at_team r = upd_team u \<and> at_status r = upd_expected u
      \<and> task_target (upd_expected u) (upd_transition u) = Some target \<and> upd_transition u \<noteq> TStart
      \<and> (attempt_target_of (upd_transition u) (upd_expected u) \<noteq> None \<longrightarrow> count_rows (attempt_matches u e) (db_attempts db) = 1)
      \<and> db' = apply_update now u target e (at_owner r) db \<and> unique_ok db')"
  using assms
  by (auto simp: update_agent_task_state_inner_def task_apply_def map_sum_Inr dest!: check_unique split: if_splits option.splits sum.splits)

lemma suspend_effect:
  assumes "suspend_running_agent_task_with_wait_dependencies now team i db = Inr (b, db')"
  shows "db' = db \<or> (\<exists>r. map_of (db_tasks db) i = Some r \<and> at_team r = team \<and> at_status r = TaskRunning
      \<and> waits_of db i \<noteq> [] \<and> \<not> wait_over now db i \<and> unique_ok db'
      \<and> db' = move_instance [InstRunning, InstDraining] InstWaiting (at_owner r)
          ((update_task i (\<lambda>t. t\<lparr>at_status := TaskWaiting, at_updated := now\<rparr>) db)
            \<lparr>db_attempts := update_rows (\<lambda>a. att_task a = i \<and> att_team a = team \<and> att_status a = AttRunning)
               (\<lambda>a. a\<lparr>att_status := AttSuspended\<rparr>) (db_attempts db)\<rparr>))"
  using assms
  by (auto simp: suspend_running_agent_task_with_wait_dependencies_def map_sum_Inr Let_def list_ex_iff
      dest!: check_unique split: if_splits option.splits)

lemma resume_effect:
  assumes "resume_satisfied_agent_tasks_matching now limit selected requeue db = Inr (ids, db')"
  shows "\<exists>rows. set rows \<subseteq> {(i, r). (i, r) \<in> set (db_tasks db) \<and> resumable now db selected i r}
    \<and> db' = fold (resume_task now) rows db \<and> unique_ok db' \<and> ids = map fst rows"
  using assms
  by (auto simp: resume_satisfied_agent_tasks_matching_def Let_def map_sum_Inr dest!: check_unique in_set_takeD
      split: if_splits intro!: exI [of _ "take (nat limit) (sort_key resume_key (filter (\<lambda>(i, r). resumable now db selected i r) (db_tasks db)))"])

lemma distinct_selected: "distinct (map fst xs) \<Longrightarrow> distinct (map fst (take n (sort_key f (filter P xs))))"
proof -
  assume "distinct (map fst xs)"
  then have "distinct (map fst (filter P xs))" by (rule distinct_map_filter)
  then have "distinct (map fst (sort_key f (filter P xs)))" by (simp add: distinct_map)
  then show ?thesis unfolding take_map [symmetric] by (rule distinct_take)
qed

lemma recover_effect:
  assumes "recover_interrupted_agent_wait_tasks now reason limit db = Inr (ids, db')"
  shows "\<exists>rows. set rows \<subseteq> {(i, r). (i, r) \<in> set (db_tasks db) \<and> recoverable db reason i r}
    \<and> (distinct (map fst (db_tasks db)) \<longrightarrow> distinct (map fst rows))
    \<and> db' = fold (recover_task now reason) rows db \<and> unique_ok db' \<and> ids = map fst rows"
  using assms
  by (auto simp: recover_interrupted_agent_wait_tasks_def Let_def map_sum_Inr dest!: check_unique in_set_takeD
      split: if_splits intro!: distinct_selected
        exI [of _ "take (nat limit) (sort_key recover_key (filter (\<lambda>(i, r). recoverable db reason i r) (db_tasks db)))"])

lemma subtree_effect:
  assumes "cancel_agent_task_subtree valid_json now team root error_json reason db = Inr (c, db')"
  shows "\<exists>db1. cancel_tasks now team error_json reason
        (filter (\<lambda>(_, r). at_status r = TaskQueued \<or> at_status r = TaskWaiting) (subtree_rows db team root)) db1 = Inr db'
    \<and> (db1 = db \<or> db1 = request_cancellation team root db) \<and> unique_ok db'"
  using assms
  by (auto simp: cancel_agent_task_subtree_def Let_def map_sum_Inr dest!: check_unique split: if_splits sum.splits)

lemma register_effect:
  assumes "register_agent_task_wait_dependencies q db = Inr (outcome, db')"
  shows "\<exists>ts. dedupe_agent_wait_dependency_task_ids [] (reg_tasks q) = Inr ts \<and> ts \<noteq> [] \<and> task_ref db (reg_waiting q) (reg_team q)
    \<and> check_dependencies db (reg_team q) (reg_waiting q) ts = Inr () \<and> register_round q ts db = Inr (outcome, db') \<and> unique_ok db'"
  using assms
  by (auto simp: register_agent_task_wait_dependencies_def map_sum_Inr ensure_task_Inr dest!: check_unique split: if_splits sum.splits)

section \<open>The structure of the tables\<close>

lemma same_refs_fold: "(\<And>x db. same_refs db (f x db)) \<Longrightarrow> same_refs db (fold f xs db)"
  by (induction xs arbitrary: db) (auto intro: same_refs_trans)

lemma same_refs_resume: "same_refs db (resume_task now x db)"
  unfolding resume_task_def by (cases x) (auto simp: task_identity_def intro!: same_refs_trans [OF same_refs_task same_refs_move])

lemma same_refs_recover: "same_refs db (recover_task now reason x db)"
  unfolding recover_task_def
  by (cases x) (auto simp: task_identity_def intro!: same_refs_trans [OF same_refs_trans [OF same_refs_task same_refs_set_attempts] same_refs_move])

lemma same_refs_cancel_task: "cancel_task now team error_json reason i r db = Inr db' \<Longrightarrow> same_refs db db'"
proof -
  assume cancel: "cancel_task now team error_json reason i r db = Inr db'"
  let ?db1 = "update_task i (\<lambda>t. t\<lparr>at_status := TaskCancelled, at_error := Some error_json, at_completed := Some now, at_updated := now\<rparr>) db"
  have one: "same_refs db ?db1" by (rule same_refs_task) (simp add: task_identity_def)
  have "db' = delete_waits i (move_instance [InstWaiting, InstDraining] InstIdle (at_owner r)
      (set_attempts (suspended_attempts team i) AttCancelled (Some now) reason ?db1)) \<or> db' = delete_waits i ?db1"
    using cancel by (auto simp: cancel_task_def Let_def split: if_splits)
  then show ?thesis
    by (elim disjE, simp_all only:)
      (rule same_refs_trans [OF same_refs_trans [OF same_refs_trans [OF one same_refs_set_attempts] same_refs_move] same_refs_delete],
       rule same_refs_trans [OF one same_refs_delete])
qed

lemma same_refs_cancel: "cancel_tasks now team error_json reason rows db = Inr db' \<Longrightarrow> same_refs db db'"
proof (induction rows arbitrary: db)
  case (Cons x rows)
  obtain i r where x: "x = (i, r)" by (cases x)
  with Cons.prems obtain db2 where "cancel_task now team error_json reason i r db = Inr db2"
    "cancel_tasks now team error_json reason rows db2 = Inr db'" by (auto split: sum.splits)
  with Cons.IH show ?case by (blast intro: same_refs_trans dest: same_refs_cancel_task)
qed simp

lemma same_refs_update: "same_refs db (apply_update now u target e owner db)"
proof -
  have one: "same_refs db (update_task (upd_task u) (set_task_state now u target) db)"
    by (rule same_refs_task) (simp add: task_identity_def set_task_state_def)
  have more: "\<And>a b. same_refs db a \<Longrightarrow> same_refs a b \<Longrightarrow> same_refs db b" by (rule same_refs_trans)
  show ?thesis unfolding apply_update_def Let_def
    by (auto split: option.split intro!: one more [OF _ same_refs_set_attempts] more [OF _ same_refs_delete]
        more [OF _ same_refs_other(1)] more [OF _ same_refs_set_instance])
qed

lemma same_refs_suspend:
  "same_refs db (move_instance states s j ((update_task i (\<lambda>t. t\<lparr>at_status := x, at_updated := now\<rparr>) db)
     \<lparr>db_attempts := update_rows p (\<lambda>a. a\<lparr>att_status := y\<rparr>) (db_attempts db)\<rparr>))"
proof -
  have "same_refs db (update_task i (\<lambda>t. t\<lparr>at_status := x, at_updated := now\<rparr>) db)"
    by (rule same_refs_task) (simp add: task_identity_def)
  from same_refs_trans [OF this same_refs_attempts [of "\<lambda>a. a\<lparr>att_status := y\<rparr>" _ p]]
  show ?thesis by (auto simp: table_simps intro!: same_refs_trans [OF _ same_refs_move])
qed

lemma same_refs_team: "transition_agent_team_status team target db = Inr db' \<Longrightarrow> same_refs db db'"
proof -
  assume "transition_agent_team_status team target db = Inr db'"
  then have db': "db' = db\<lparr>db_teams := update_keyed (\<lambda>k _. k = team) (\<lambda>r. r\<lparr>team_state := target\<rparr>) (db_teams db),
      db_instances := update_keyed (\<lambda>_ _. True) (team_target_instances team target) (db_instances db)\<rparr>"
    by (auto simp: transition_agent_team_status_def split: option.splits sum.splits if_splits)
  have keep: "inst_team (team_target_instances team target r) = inst_team r"
    "inst_next_sequence (team_target_instances team target r) = inst_next_sequence r" for r
    by (simp_all add: team_target_instances_def split: AgentTeamStatus.split)
  show ?thesis unfolding db' same_refs_def
    by (auto simp: map_of_update_keyed keep option.map_comp o_def intro!: option.map_cong)
qed

lemma same_refs_instance_move: "transition_agent_instance_status i state db = Inr db' \<Longrightarrow> same_refs db db'"
  by (auto simp: transition_agent_instance_status_def Let_def split: option.splits sum.splits if_splits intro!: same_refs_instance)

lemma same_refs_renew: "renew_agent_attempt_lease now i attempt incarnation db = Inr (b, db') \<Longrightarrow> same_refs db db'"
  by (auto simp: renew_agent_attempt_lease_def Let_def split: if_splits intro!: same_refs_attempts)

lemma same_refs_queued_cancel: "cancel_queued_agent_task valid_json now team i error_json db = Inr (b, db') \<Longrightarrow> same_refs db db'"
  by (auto simp: cancel_queued_agent_task_def task_identity_def split: option.splits if_splits intro!: same_refs_task)

lemma same_refs_request: "same_refs db (request_cancellation team root db)"
  by (simp add: request_cancellation_def same_refs_other)

section \<open>The graph of waits\<close>

lemma acyclic_from_one:
  assumes "acyclic r" "\<And>t. t \<in> T \<Longrightarrow> (t, w) \<notin> r\<^sup>*"
  shows "acyclic (r \<union> {w} \<times> T)"
proof (rule acyclicI, rule allI, rule notI)
  let ?R = "r \<union> {w} \<times> T"
  have reach: "(x, y) \<in> r\<^sup>* \<or> (x, w) \<in> r\<^sup>* \<and> (\<exists>t \<in> T. (t, y) \<in> r\<^sup>*)" if "(x, y) \<in> ?R\<^sup>*" for x y
    using that
  proof (induction rule: rtrancl_induct)
    case (step y z)
    from step(2) show ?case
    proof
      assume "(y, z) \<in> r"
      with step(3) show ?thesis by (blast intro: rtrancl.rtrancl_into_rtrancl)
    next
      assume "(y, z) \<in> {w} \<times> T"
      then have "y = w" "z \<in> T" by auto
      with step(3) assms(2) show ?thesis by blast
    qed
  qed simp
  fix x assume "(x, x) \<in> ?R\<^sup>+"
  then obtain y where y: "(x, y) \<in> ?R" "(y, x) \<in> ?R\<^sup>*" by (meson tranclD)
  from reach [OF y(2)] have behind: "(y, x) \<in> r\<^sup>* \<or> (y, w) \<in> r\<^sup>* \<and> (\<exists>t \<in> T. (t, x) \<in> r\<^sup>*)" .
  show False
  proof (cases "(x, y) \<in> r")
    case True
    from behind show False
    proof
      assume "(y, x) \<in> r\<^sup>*"
      with True have "(x, x) \<in> r\<^sup>+" by (rule rtrancl_into_trancl2)
      with assms(1) show False by (simp add: acyclic_def)
    next
      assume "(y, w) \<in> r\<^sup>* \<and> (\<exists>t \<in> T. (t, x) \<in> r\<^sup>*)"
      then obtain t where "t \<in> T" "(t, x) \<in> r\<^sup>*" "(y, w) \<in> r\<^sup>*" by blast
      with True have "(t, w) \<in> r\<^sup>*" by (meson rtrancl.rtrancl_into_rtrancl rtrancl_trans)
      with assms(2) \<open>t \<in> T\<close> show False by blast
    qed
  next
    case False
    with y(1) have "x = w" "y \<in> T" by auto
    with behind assms(2) show False by blast
  qed
qed

lemma path_in_team:
  assumes "refs_ok db" "(x, y) \<in> (wait_graph db)\<^sup>*" "task_ref db x team"
  shows "(x, y) \<in> (set (dependency_edges db team))\<^sup>* \<and> task_ref db y team"
  using assms(2)
proof (induction rule: rtrancl_induct)
  case (step y z)
  from step(2) obtain d where d: "d \<in> set (db_dependencies db)" "y = dep_waiting d" "z = dep_task d" by (auto simp: wait_graph_def)
  from refs_wait [OF assms(1) d(1)] step(3) d have "dep_team d = team" "task_ref db z team" by (auto simp: task_ref_def)
  with d have "(y, z) \<in> set (dependency_edges db team)" by (auto simp: dependency_edges_def)
  with step(3) \<open>task_ref db z team\<close> show ?case by (meson rtrancl.rtrancl_into_rtrancl)
qed (use assms(3) in simp)

lemma check_dependencies_Inr: "check_dependencies db team waiting ts = Inr () \<longleftrightarrow>
    (\<forall>t \<in> set ts. task_ref db t team \<and> t \<noteq> waiting \<and> \<not> agent_dependency_path_exists db team t waiting)"
proof (induction ts)
  case (Cons t ts)
  show ?case
  proof (cases "ensure_task_team db t team")
    case (Inl e)
    then have "\<not> task_ref db t team" using ensure_task_Inr [of db t team] by simp
    with Inl show ?thesis by simp
  next
    case (Inr x)
    then have "task_ref db t team" using ensure_task_Inr [of db t team] by simp
    with Inr Cons show ?thesis by simp
  qed
qed simp

lemma no_path_back:
  assumes "refs_ok db" "check_dependencies db team waiting ts = Inr ()" "t \<in> set ts"
  shows "(t, waiting) \<notin> (wait_graph db)\<^sup>*"
proof
  assume path: "(t, waiting) \<in> (wait_graph db)\<^sup>*"
  from assms have t: "task_ref db t team" "\<not> agent_dependency_path_exists db team t waiting"
    by (auto simp: check_dependencies_Inr)
  with path_in_team [OF assms(1) path] show False by (auto simp: agent_dependency_path_exists_def set_closure)
qed

section \<open>Every step keeps the structure\<close>

definition structure_ok :: "AgentDb \<Rightarrow> bool" where
  "structure_ok db \<longleftrightarrow> refs_ok db \<and> waits_uniform db \<and> acyclic (wait_graph db)"

lemma structure_same: "structure_ok db \<Longrightarrow> same_refs db db' \<Longrightarrow> structure_ok db'"
proof -
  assume ok: "structure_ok db" and same: "same_refs db db'"
  note sub = same_refs_waits [OF same]
  then have "wait_graph db' \<subseteq> wait_graph db" by (auto simp: wait_graph_def)
  with ok have "acyclic (wait_graph db')" unfolding structure_ok_def using acyclic_subset by blast
  moreover have "waits_uniform db'" using ok sub unfolding structure_ok_def waits_uniform_def by blast
  ultimately show ?thesis using ok refs_ok_same [OF _ same] unfolding structure_ok_def by simp
qed

lemma structure_more:
  assumes "structure_ok db" "refs_ok db'" "db_dependencies db' = db_dependencies db"
  shows "structure_ok db'"
proof -
  have "waits_uniform db' = waits_uniform db" "wait_graph db' = wait_graph db"
    unfolding waits_uniform_def wait_graph_def assms(3) by (rule refl)+
  with assms(1,2) show ?thesis unfolding structure_ok_def by simp
qed

lemma task_ref_append: "task_ref db i team \<Longrightarrow> task_ref (db\<lparr>db_tasks := db_tasks db @ rows\<rparr>) i team"
  by (auto simp: task_ref_def map_add_def)

lemma refs_append_task:
  assumes ok: "refs_ok db" and new: "map_of (db_tasks db) i = None"
    and inst: "map_of (db_instances db) (at_owner r) = Some inst" "inst_team inst = at_team r" "at_sequence r < inst_next_sequence inst"
    and parent: "\<And>p. at_parent r = Some p \<Longrightarrow> task_ref db p (at_team r)"
  shows "refs_ok (db\<lparr>db_tasks := db_tasks db @ [(i, r)]\<rparr>)"
proof (rule refs_okI)
  let ?db = "db\<lparr>db_tasks := db_tasks db @ [(i, r)]\<rparr>"
  have row: "map_of (db_tasks ?db) k = Some x \<longleftrightarrow> map_of (db_tasks db) k = Some x \<or> k = i \<and> x = r" for k x
    using new by (auto simp: map_add_def split: option.splits)
  show "\<exists>inst. map_of (db_instances ?db) (at_owner x) = Some inst \<and> inst_team inst = at_team x \<and> at_sequence x < inst_next_sequence inst"
    if "map_of (db_tasks ?db) k = Some x" for k x
    using that inst refs_owner [OF ok] unfolding row by auto
  show "task_ref ?db p (at_team x)" if "map_of (db_tasks ?db) k = Some x" "at_parent x = Some p" for k x p
    using that parent refs_parent [OF ok] unfolding row by (auto intro: task_ref_append)
  show "map_of (db_teams ?db) (inst_team y) \<noteq> None" if "map_of (db_instances ?db) k = Some y" for k y
    using refs_team [OF ok] that by simp
  show "task_ref ?db (dep_waiting d) (dep_team d) \<and> task_ref ?db (dep_task d) (dep_team d)" if "d \<in> set (db_dependencies ?db)" for d
    using refs_wait [OF ok] that by (auto intro: task_ref_append)
  show "task_ref ?db (att_task a) (att_team a)" if "a \<in> set (db_attempts ?db)" for a
    using refs_attempt [OF ok] that by (auto intro: task_ref_append)
qed

lemma structure_enqueue:
  assumes ok: "structure_ok db" and run: "enqueue_agent_task_with_limits now t max_team max_instance max_chat db = Inr db'"
  shows "structure_ok db'"
proof -
  from enqueue_effect [OF run] obtain inst where db': "db' = insert_task now t db" "unique_ok db'"
    and inst: "map_of (db_instances db) (new_owner t) = Some inst" "inst_team inst = new_team t"
    and parent: "\<forall>p. new_parent t = Some p \<longrightarrow> check_parent db (new_team t) p = Inr ()" by blast
  let ?db1 = "update_instance (new_owner t) (\<lambda>r. r\<lparr>inst_next_sequence := inst_next_sequence r + 1\<rparr>) db"
  let ?row = "queued_task now t (inst_next_sequence inst)"
  have same: "same_refs db ?db1" by (rule same_refs_instance) simp
  have shape: "db' = ?db1\<lparr>db_tasks := db_tasks ?db1 @ [(new_id t, ?row)]\<rparr>"
    by (simp add: db'(1) insert_task_def inst Let_def table_simps)
  have "distinct (map fst (db_tasks db'))" using db'(2) by (simp add: unique_ok_def keys_unique_def)
  then have new: "map_of (db_tasks ?db1) (new_id t) = None"
    by (simp add: shape map_of_eq_None_iff)
  have ok1: "refs_ok ?db1" using refs_ok_same [OF _ same] ok by (simp add: structure_ok_def)
  have "refs_ok (?db1\<lparr>db_tasks := db_tasks ?db1 @ [(new_id t, ?row)]\<rparr>)"
  proof (rule refs_append_task [OF ok1 new])
    show "map_of (db_instances ?db1) (at_owner ?row) = Some (inst\<lparr>inst_next_sequence := inst_next_sequence inst + 1\<rparr>)"
      by (simp add: table_simps inst queued_task_def)
    show "task_ref ?db1 p (at_team ?row)" if "at_parent ?row = Some p" for p
      using that parent by (auto simp: task_ref_same [OF same] queued_task_def dest: check_parent_ref)
  qed (simp_all add: queued_task_def inst)
  then have "refs_ok db'" by (simp only: shape)
  from structure_more [OF ok this] show ?thesis by (simp add: shape table_simps)
qed

lemma structure_transfer:
  assumes ok: "structure_ok db"
    and run: "transfer_queued_agent_task_with_limits now team i target max_team max_instance max_chat db = Inr (b, db')"
  shows "structure_ok db'"
proof (cases "db' = db")
  case False
  with transfer_effect [OF run] obtain r inst where r: "map_of (db_tasks db) i = Some r" "at_team r = team"
    and inst: "map_of (db_instances db) target = Some inst" "inst_team inst = team"
    and db': "db' = update_task i (\<lambda>r. r\<lparr>at_owner := target, at_sequence := inst_next_sequence inst, at_updated := now\<rparr>)
                (update_instance target (\<lambda>r. r\<lparr>inst_next_sequence := inst_next_sequence r + 1\<rparr>) db)" by blast
  have refs: "refs_ok db" using ok by (simp add: structure_ok_def)
  let ?db1 = "update_instance target (\<lambda>r. r\<lparr>inst_next_sequence := inst_next_sequence r + 1\<rparr>) db"
  have refs1: "refs_ok ?db1" by (rule refs_ok_same [OF refs]) (rule same_refs_instance, simp)
  have ref: "task_ref db' k tm \<longleftrightarrow> task_ref db k tm" for k tm
    by (cases "map_of (db_tasks db) k") (auto simp: db' task_ref_def table_simps)
  have "refs_ok db'"
  proof (rule refs_okI, unfold ref)
    fix k x assume "map_of (db_tasks db') k = Some x"
    then obtain o' where o': "map_of (db_tasks db) k = Some o'"
      "x = (if k = i then o'\<lparr>at_owner := target, at_sequence := inst_next_sequence inst, at_updated := now\<rparr> else o')"
      by (auto simp: db' table_simps)
    show "\<exists>y. map_of (db_instances db') (at_owner x) = Some y \<and> inst_team y = at_team x \<and> at_sequence x < inst_next_sequence y"
    proof (cases "k = i")
      case True
      with o' r inst show ?thesis by (auto simp: db' table_simps)
    next
      case False
      have "map_of (db_tasks ?db1) k = Some o'" using o'(1) by (simp add: table_simps)
      from refs_owner [OF refs1 this] False o'(2) show ?thesis by (simp add: db' table_simps)
    qed
    fix p assume "at_parent x = Some p"
    with refs_parent [OF refs o'(1)] o' show "task_ref db p (at_team x)" by (auto split: if_splits)
  next
    fix k y assume "map_of (db_instances db') k = Some y"
    then obtain z where "map_of (db_instances db) k = Some z" "inst_team y = inst_team z" by (auto simp: db' table_simps split: if_splits)
    with refs_team [OF refs] show "map_of (db_teams db') (inst_team y) \<noteq> None" by (simp add: db' table_simps)
  qed (use refs_wait [OF refs] refs_attempt [OF refs] in \<open>auto simp: db' table_simps\<close>)
  from structure_more [OF ok this] show ?thesis by (simp add: db' table_simps)
qed (use ok in simp)

lemma refs_insert_attempt: "\<lbrakk>refs_ok db; task_ref db (att_task a) (att_team a)\<rbrakk> \<Longrightarrow> refs_ok (insert_attempt a db)"
  by (rule refs_okI) (auto simp: insert_attempt_def task_ref_def dest: refs_owner refs_parent refs_team refs_wait refs_attempt)

lemma claim_task_parts:
  "same_refs db (update_task i (\<lambda>t. t\<lparr>at_status := TaskRunning, at_started := (case at_started t of None \<Rightarrow> Some now | Some s \<Rightarrow> Some s),
            at_completed := None, at_updated := now\<rparr>) db)"
  "same_refs db (update_instance j (\<lambda>inst. inst\<lparr>inst_state := (if inst_state inst = InstDraining then InstDraining else InstRunning),
      inst_last_scheduled := Some now\<rparr>) db)"
  by (rule same_refs_task, simp add: task_identity_def) (rule same_refs_instance, simp)

lemma structure_claim:
  assumes ok: "structure_ok db"
    and run: "claim_runnable_agent_task_with_owner now team i attempt incarnation db = Inr (x, db')"
  shows "structure_ok db'"
proof (cases "db' = db")
  case False
  with claim_effect [OF run] obtain r where r: "map_of (db_tasks db) i = Some r" "at_team r = team"
    and db': "db' = claim_task now i r (new_attempt now team i attempt incarnation db) db" by blast
  let ?a = "new_attempt now team i attempt incarnation db"
  let ?db1 = "update_task i (\<lambda>t. t\<lparr>at_status := TaskRunning, at_started := (case at_started t of None \<Rightarrow> Some now | Some s \<Rightarrow> Some s),
            at_completed := None, at_updated := now\<rparr>) db"
  note one = claim_task_parts(1) [of db i now]
  have "refs_ok ?db1" using refs_ok_same [OF _ one] ok by (simp add: structure_ok_def)
  moreover have "task_ref ?db1 (att_task ?a) (att_team ?a)"
    unfolding task_ref_same [OF one] using r by (simp add: new_attempt_def task_ref_def)
  ultimately have "refs_ok (insert_attempt ?a ?db1)" by (rule refs_insert_attempt)
  from refs_ok_same [OF this claim_task_parts(2)] have "refs_ok db'" by (simp only: db' claim_task_def)
  from structure_more [OF ok this] show ?thesis by (simp add: db' claim_task_def insert_attempt_def table_simps)
qed (use ok in simp)

lemma structure_insert_waits:
  assumes refs: "refs_ok db" and uni: "waits_uniform db" and acy: "acyclic (wait_graph db)"
    and mine: "existing_rows_match_wait_round q (waits_of db (reg_waiting q))"
    and ref: "task_ref db (reg_waiting q) (reg_team q)" "\<And>t. t \<in> set ts \<Longrightarrow> task_ref db t (reg_team q)"
    and path: "\<And>t. t \<in> set ts \<Longrightarrow> (t, reg_waiting q) \<notin> (wait_graph db)\<^sup>*"
  shows "structure_ok (insert_waits q ts db)"
proof -
  let ?db = "insert_waits q ts db"
  have set_deps: "d \<in> set (db_dependencies ?db) \<longleftrightarrow> d \<in> set (db_dependencies db) \<or>
      (\<exists>t \<in> set ts. d = \<lparr>dep_team = reg_team q, dep_waiting = reg_waiting q, dep_task = t, dep_mode = reg_mode q,
        dep_call = reg_call q, dep_deadline = reg_deadline q\<rparr>)" for d
    by (auto simp: insert_waits_def)
  have "wait_graph ?db = wait_graph db \<union> {reg_waiting q} \<times> set ts"
    by (auto simp: wait_graph_def insert_waits_def image_Un image_image)
  with acyclic_from_one [OF acy path] have "acyclic (wait_graph ?db)" by simp
  moreover have ref': "task_ref ?db k team = task_ref db k team" for k team by (simp add: task_ref_def insert_waits_def)
  have "refs_ok ?db"
  proof (rule refs_okI, unfold ref')
    fix d assume "d \<in> set (db_dependencies ?db)"
    then show "task_ref db (dep_waiting d) (dep_team d) \<and> task_ref db (dep_task d) (dep_team d)"
      unfolding set_deps using refs_wait [OF refs] ref by auto
  qed (use refs_owner [OF refs] refs_parent [OF refs] refs_team [OF refs] refs_attempt [OF refs] in \<open>auto simp: insert_waits_def\<close>)
  moreover have "waits_uniform ?db"
  proof -
    have mine': "dep_mode d = reg_mode q \<and> dep_call d = reg_call q \<and> dep_deadline d = reg_deadline q"
      if "d \<in> set (db_dependencies ?db)" "dep_waiting d = reg_waiting q" for d
      using that mine unfolding set_deps by (auto simp: existing_rows_match_wait_round_def list_all_iff waits_of_def)
    show ?thesis unfolding waits_uniform_def
    proof (intro ballI impI)
      fix d d' assume d: "d \<in> set (db_dependencies ?db)" "d' \<in> set (db_dependencies ?db)" "dep_waiting d = dep_waiting d'"
      show "dep_mode d = dep_mode d' \<and> dep_call d = dep_call d' \<and> dep_deadline d = dep_deadline d'"
      proof (cases "dep_waiting d = reg_waiting q")
        case True
        with mine' d show ?thesis by metis
      next
        case False
        with d have "d \<in> set (db_dependencies db)" "d' \<in> set (db_dependencies db)" unfolding set_deps by auto
        with uni d(3) show ?thesis unfolding waits_uniform_def by blast
      qed
    qed
  qed
  ultimately show ?thesis unfolding structure_ok_def by blast
qed

lemma structure_event: "structure_ok db \<Longrightarrow> structure_ok (ensure_task_waiting_requested_event q ts db)"
  by (auto simp: ensure_task_waiting_requested_event_def intro: structure_same same_refs_other)

lemma structure_register:
  assumes ok: "structure_ok db" and run: "register_agent_task_wait_dependencies q db = Inr (outcome, db')"
  shows "structure_ok db'"
proof -
  let ?w = "reg_waiting q"
  from register_effect [OF run] obtain ts where ref: "task_ref db ?w (reg_team q)"
    and deps: "check_dependencies db (reg_team q) ?w ts = Inr ()" and round: "register_round q ts db = Inr (outcome, db')" by blast
  from ok have okD: "refs_ok db" "waits_uniform db" "acyclic (wait_graph db)" by (simp_all add: structure_ok_def)
  have ins: "structure_ok (insert_waits q us db)"
    if "existing_rows_match_wait_round q (waits_of db ?w)" "set us \<subseteq> set ts" for us
  proof (rule structure_insert_waits [OF okD that(1) ref])
    fix t assume "t \<in> set us"
    with that(2) have "t \<in> set ts" by blast
    then show "task_ref db t (reg_team q)" "(t, ?w) \<notin> (wait_graph db)\<^sup>*"
      using deps no_path_back [OF okD(1) deps] by (auto simp: check_dependencies_Inr)
  qed
  have repl: "structure_ok (insert_waits q ts (delete_waits ?w db))"
  proof -
    note same = same_refs_delete [of db ?w]
    have "structure_ok (delete_waits ?w db)" by (rule structure_same [OF ok same])
    then have D: "refs_ok (delete_waits ?w db)" "waits_uniform (delete_waits ?w db)" "acyclic (wait_graph (delete_waits ?w db))"
      by (simp_all add: structure_ok_def)
    have sub: "(wait_graph (delete_waits ?w db))\<^sup>* \<subseteq> (wait_graph db)\<^sup>*"
      by (rule rtrancl_mono) (auto simp: wait_graph_def delete_waits_def)
    show ?thesis
    proof (rule structure_insert_waits [OF D])
      show "existing_rows_match_wait_round q (waits_of (delete_waits ?w db) ?w)"
        by (simp add: existing_rows_match_wait_round_def waits_of_def table_simps list_all_iff)
      show "task_ref (delete_waits ?w db) ?w (reg_team q)" using ref by (simp add: task_ref_same [OF same])
      fix t assume t: "t \<in> set ts"
      then show "task_ref (delete_waits ?w db) t (reg_team q)" using deps by (simp add: task_ref_same [OF same] check_dependencies_Inr)
      show "(t, ?w) \<notin> (wait_graph (delete_waits ?w db))\<^sup>*" using no_path_back [OF okD(1) deps t] sub by blast
    qed
  qed
  have "existing_rows_match_wait_round q (waits_of db ?w)" if "waits_of db ?w = []"
    using that by (simp add: existing_rows_match_wait_round_def)
  with round ins repl ok show ?thesis
    by (auto simp: register_round_def Let_def intro!: structure_event split: if_splits)
qed

lemma structure_added:
  assumes ok: "structure_ok db"
  shows "map_of (db_teams db) team = None \<Longrightarrow> structure_ok (db\<lparr>db_teams := db_teams db @ [(team, t)]\<rparr>)"
    and "\<lbrakk>map_of (db_instances db) i = None; map_of (db_teams db) (inst_team x) \<noteq> None\<rbrakk>
      \<Longrightarrow> structure_ok (db\<lparr>db_instances := db_instances db @ [(i, x)]\<rparr>)"
proof -
  from ok have refs: "refs_ok db" by (simp add: structure_ok_def)
  note D = refs_owner [OF refs] refs_parent [OF refs] refs_team [OF refs] refs_wait [OF refs] refs_attempt [OF refs]
  show "structure_ok (db\<lparr>db_teams := db_teams db @ [(team, t)]\<rparr>)" if "map_of (db_teams db) team = None"
  proof (rule structure_more [OF ok])
    show "refs_ok (db\<lparr>db_teams := db_teams db @ [(team, t)]\<rparr>)"
    proof (rule refs_okI)
      fix k inst assume "map_of (db_instances (db\<lparr>db_teams := db_teams db @ [(team, t)]\<rparr>)) k = Some inst"
      with D(3) [of k inst] show "map_of (db_teams (db\<lparr>db_teams := db_teams db @ [(team, t)]\<rparr>)) (inst_team inst) \<noteq> None"
        by (auto simp: map_add_def split: option.split)
    qed (use D in \<open>auto simp: task_ref_def\<close>)
  qed simp
  show "structure_ok (db\<lparr>db_instances := db_instances db @ [(i, x)]\<rparr>)"
    if new: "map_of (db_instances db) i = None" "map_of (db_teams db) (inst_team x) \<noteq> None"
  proof (rule structure_more [OF ok])
    let ?db = "db\<lparr>db_instances := db_instances db @ [(i, x)]\<rparr>"
    have row: "map_of (db_instances ?db) k = (if k = i then Some x else map_of (db_instances db) k)" for k
      using new(1) by (simp add: map_add_def split: option.split)
    have ref: "task_ref ?db k team = task_ref db k team" for k team by (simp add: task_ref_def)
    show "refs_ok ?db"
    proof (rule refs_okI, unfold ref row)
      fix k r assume "map_of (db_tasks ?db) k = Some r"
      with D(1) [of k r] new(1) show "\<exists>inst. (if at_owner r = i then Some x else map_of (db_instances db) (at_owner r)) = Some inst
          \<and> inst_team inst = at_team r \<and> at_sequence r < inst_next_sequence inst" by (auto split: if_splits)
    qed (use D new(2) in \<open>auto split: if_splits\<close>)
  qed simp
qed

lemma structure_step: "\<lbrakk>structure_ok db; agent_step db db'\<rbrakk> \<Longrightarrow> structure_ok db'"
proof -
  assume ok: "structure_ok db" and "agent_step db db'"
  from this(2) show ?thesis
  proof cases
    case team_added then show ?thesis using structure_added(1) [OF ok] by simp
  next
    case instance_added then show ?thesis using structure_added(2) [OF ok] by simp
  next
    case enqueued from structure_enqueue [OF ok this] show ?thesis .
  next
    case transferred from structure_transfer [OF ok this] show ?thesis .
  next
    case claimed from structure_claim [OF ok this] show ?thesis .
  next
    case registered from structure_register [OF ok this] show ?thesis .
  next
    case renewed from structure_same [OF ok same_refs_renew [OF this]] show ?thesis .
  next
    case updated
    from update_effect [OF this(1)] ok show ?thesis by (auto intro: structure_same same_refs_update)
  next
    case queued_cancelled from structure_same [OF ok same_refs_queued_cancel [OF this]] show ?thesis .
  next
    case suspended
    from suspend_effect [OF this] ok show ?thesis by (auto intro: structure_same same_refs_suspend)
  next
    case resumed
    from resume_effect [OF this] ok show ?thesis by (auto intro: structure_same same_refs_fold same_refs_resume)
  next
    case recovered
    from recover_effect [OF this] ok show ?thesis by (auto intro: structure_same same_refs_fold same_refs_recover)
  next
    case subtree_cancelled
    from subtree_effect [OF this] ok show ?thesis
      by (auto intro: structure_same structure_same [OF structure_same] same_refs_request same_refs_cancel)
  next
    case waits_deleted
    then show ?thesis using structure_same [OF ok same_refs_delete] by (auto simp: delete_agent_task_dependencies_def)
  next
    case team_moved from structure_same [OF ok same_refs_team [OF this]] show ?thesis .
  next
    case instance_moved from structure_same [OF ok same_refs_instance_move [OF this]] show ?thesis .
  qed
qed

lemma structure_reachable: "agent_reachable db \<Longrightarrow> structure_ok db"
proof (induction rule: agent_reachable.induct)
  case start
  show ?case
    by (simp add: structure_ok_def refs_ok_def waits_uniform_def wait_graph_def empty_agent_db_def acyclic_def)
next
  case (step db db')
  then show ?case using structure_step by blast
qed

end
