(* ===== verification/Agent_Attempts.thy ===== *)
theory Agent_Attempts
  imports Agent_System
begin

text \<open>
  Tasks and their attempts in every reachable state: a task runs exactly when one of its attempts does, a
  waiting task has a suspended attempt, and no team runs more tasks than its limit allows.
\<close>

section \<open>Counting rows\<close>

lemma count_rows_Nil [simp]: "count_rows p [] = 0" by (simp add: count_rows_def)

lemma count_rows_append [simp]: "count_rows p (xs @ ys) = count_rows p xs + count_rows p ys"
  by (simp add: count_rows_def)

lemma count_rows_single [simp]: "count_rows p [x] = (if p x then 1 else 0)" by (simp add: count_rows_def)

lemma count_rows_cong: "(\<And>x. x \<in> set xs \<Longrightarrow> p x = q x) \<Longrightarrow> count_rows p xs = count_rows q xs"
  unfolding count_rows_def by (metis filter_cong)

lemma count_rows_0: "count_rows p xs = 0 \<longleftrightarrow> (\<forall>x \<in> set xs. \<not> p x)"
  by (auto simp: count_rows_def filter_empty_conv)

lemma count_rows_mono: "(\<And>x. x \<in> set xs \<Longrightarrow> p x \<Longrightarrow> q x) \<Longrightarrow> count_rows p xs \<le> count_rows q xs"
  by (induction xs) (auto simp: count_rows_def le_SucI)

lemma count_rows_update: "count_rows q (update_rows p f xs) = count_rows (\<lambda>a. q (if p a then f a else a)) xs"
  by (induction xs) (auto simp: count_rows_def update_rows_def)

lemma count_rows_keyed: "count_rows q (update_keyed p f xs) = count_rows (\<lambda>(k, r). q (k, if p k r then f r else r)) xs"
  by (induction xs) (auto simp: count_rows_def update_keyed_def o_def split_def split: if_splits)

lemma count_rows_diff: "(\<And>x. p x \<Longrightarrow> q x) \<Longrightarrow> count_rows (\<lambda>x. q x \<and> \<not> p x) xs + count_rows p xs = count_rows q xs"
  by (induction xs) (auto simp: count_rows_def)

lemma count_rows_or: "count_rows (\<lambda>x. p x \<or> q x) xs \<le> count_rows p xs + count_rows q xs"
  by (induction xs) (auto simp: count_rows_def)

lemma count_rows_disjoint: "(\<And>x. p x \<Longrightarrow> \<not> q x) \<Longrightarrow> count_rows (\<lambda>x. p x \<or> q x) xs = count_rows p xs + count_rows q xs"
  by (induction xs) (auto simp: count_rows_def)

lemma count_key_le_one: "distinct (map fst xs) \<Longrightarrow> count_rows (\<lambda>(k, r). k = i) xs \<le> 1"
proof (induction xs)
  case (Cons x xs)
  show ?case
  proof (cases "fst x = i")
    case True
    with Cons.prems have "count_rows (\<lambda>(k, r). k = i) xs = 0" by (auto simp: count_rows_0 image_iff)
    then show ?thesis by (cases x) (simp add: count_rows_def)
  next
    case False
    with Cons show ?thesis by (cases x) (simp add: count_rows_def)
  qed
qed simp

section \<open>Attempts agree with tasks\<close>

definition status_of :: "AgentDb \<Rightarrow> rstr \<Rightarrow> AgentTaskStatus option" where
  "status_of db k = map_option at_status (map_of (db_tasks db) k)"

definition has_suspended :: "AgentDb \<Rightarrow> rstr \<Rightarrow> bool" where
  "has_suspended db k \<longleftrightarrow> (\<exists>a \<in> set (db_attempts db). att_task a = k \<and> att_status a = AttSuspended)"

lemma attempts_agreeI:
  assumes "\<And>k s. status_of db k = Some s \<Longrightarrow> running_attempts db k = (if s = TaskRunning then 1 else 0) \<and> (s = TaskWaiting \<longrightarrow> has_suspended db k)"
  shows "attempts_agree db"
  unfolding attempts_agree_def using assms by (fastforce simp: status_of_def has_suspended_def)

lemma attempts_agreeD:
  assumes "attempts_agree db" "status_of db k = Some s"
  shows "running_attempts db k = (if s = TaskRunning then 1 else 0)" "s = TaskWaiting \<Longrightarrow> has_suspended db k"
proof -
  from assms(2) obtain r where r: "map_of (db_tasks db) k = Some r" "at_status r = s" by (auto simp: status_of_def)
  with assms(1) show "running_attempts db k = (if s = TaskRunning then 1 else 0)"
    unfolding attempts_agree_def by blast
  show "has_suspended db k" if "s = TaskWaiting"
    using assms(1) r that unfolding attempts_agree_def has_suspended_def by blast
qed

lemma agree_frame:
  assumes "attempts_agree db" "db_attempts db' = db_attempts db"
    and "\<And>k s. status_of db' k = Some s \<Longrightarrow> status_of db k = Some s \<or>
      (status_of db k \<noteq> Some TaskRunning \<and> status_of db k \<noteq> None \<and> s \<noteq> TaskRunning \<and> s \<noteq> TaskWaiting)"
  shows "attempts_agree db'"
proof (rule attempts_agreeI)
  fix k s assume s: "status_of db' k = Some s"
  have same: "running_attempts db' k = running_attempts db k" "has_suspended db' k = has_suspended db k"
    by (simp_all add: running_attempts_def has_suspended_def assms(2))
  from assms(3) [OF s] show "running_attempts db' k = (if s = TaskRunning then 1 else 0) \<and> (s = TaskWaiting \<longrightarrow> has_suspended db' k)"
  proof
    assume "status_of db k = Some s"
    with attempts_agreeD [OF assms(1) this] show ?thesis by (simp add: same)
  next
    assume other: "status_of db k \<noteq> Some TaskRunning \<and> status_of db k \<noteq> None \<and> s \<noteq> TaskRunning \<and> s \<noteq> TaskWaiting"
    then obtain x where "status_of db k = Some x" "x \<noteq> TaskRunning" by auto
    with attempts_agreeD(1) [OF assms(1) this(1)] other show ?thesis by (simp add: same)
  qed
qed

lemma status_of_update_task: "status_of (update_task i f db) k =
    map_option (\<lambda>r. at_status (if k = i then f r else r)) (map_of (db_tasks db) k)"
  by (cases "map_of (db_tasks db) k") (simp_all add: status_of_def table_simps)

lemma status_of_cong: "db_tasks db' = db_tasks db \<Longrightarrow> status_of db' = status_of db"
  by (simp add: status_of_def fun_eq_iff)

lemma move_frames [simp]:
  "db_tasks (move_instance states s i db) = db_tasks db" "db_attempts (move_instance states s i db) = db_attempts db"
  "db_dependencies (move_instance states s i db) = db_dependencies db" "db_teams (move_instance states s i db) = db_teams db"
  "db_tasks (set_instance_state s' i db) = db_tasks db" "db_attempts (set_instance_state s' i db) = db_attempts db"
  "db_dependencies (set_instance_state s' i db) = db_dependencies db" "db_teams (set_instance_state s' i db) = db_teams db"
  "db_tasks (set_attempts p t c x db) = db_tasks db" "db_teams (set_attempts p t c x db) = db_teams db"
  "db_dependencies (set_attempts p t c x db) = db_dependencies db"
  "db_attempts (set_attempts p t c x db) = update_rows p (\<lambda>a. a\<lparr>att_status := t, att_completed := c, att_reason := x\<rparr>) (db_attempts db)"
  by (simp_all add: move_instance_def set_instance_state_def set_attempts_def table_simps)

declare table_frames [simp]

text \<open>A task leaves the state of running together with its attempt.\<close>

lemma running_gone:
  assumes "count_rows p (db_attempts db) = 1" "running_attempts db i = 1"
    and "\<And>a. p a \<Longrightarrow> att_task a = i \<and> att_status a = AttRunning"
    and "\<And>a. att_status (f a) \<noteq> AttRunning" "\<And>a. att_task (f a) = att_task a"
  shows "count_rows (\<lambda>a. att_task a = k \<and> att_status a = AttRunning) (update_rows p f (db_attempts db))
    = (if k = i then 0 else running_attempts db k)"
proof -
  let ?q = "\<lambda>k a. att_task a = k \<and> att_status a = AttRunning"
  have eq: "count_rows (?q k) (update_rows p f (db_attempts db)) = count_rows (\<lambda>a. ?q k a \<and> \<not> p a) (db_attempts db)"
    unfolding count_rows_update by (rule count_rows_cong) (use assms(3-5) in auto)
  show ?thesis
  proof (cases "k = i")
    case True
    have "count_rows (\<lambda>a. ?q i a \<and> \<not> p a) (db_attempts db) + count_rows p (db_attempts db) = running_attempts db i"
      unfolding running_attempts_def by (rule count_rows_diff) (rule assms(3))
    with eq True assms(1,2) show ?thesis by simp
  next
    case False
    have "count_rows (\<lambda>a. ?q k a \<and> \<not> p a) (db_attempts db) = running_attempts db k"
      unfolding running_attempts_def by (rule count_rows_cong) (use assms(3) False in auto)
    with eq False show ?thesis by simp
  qed
qed

lemma running_kept:
  assumes "\<And>a. p a \<Longrightarrow> att_status a \<noteq> AttRunning" "\<And>a. att_status (f a) \<noteq> AttRunning"
  shows "count_rows (\<lambda>a. att_task a = k \<and> att_status a = AttRunning) (update_rows p f (db_attempts db)) = running_attempts db k"
  unfolding running_attempts_def count_rows_update by (rule count_rows_cong) (use assms in auto)

lemma suspended_kept:
  assumes "has_suspended db k" "db_attempts db' = update_rows p f (db_attempts db)"
    and "\<And>a. p a \<Longrightarrow> att_task a \<noteq> k \<or> att_status a \<noteq> AttSuspended"
  shows "has_suspended db' k"
proof -
  from assms(1) obtain c where c: "c \<in> set (db_attempts db)" "att_task c = k" "att_status c = AttSuspended"
    by (auto simp: has_suspended_def)
  with assms(3) have "\<not> p c" by blast
  with c(1) have "c \<in> set (db_attempts db')" unfolding assms(2) set_update_rows by (intro bexI [of _ c]) simp_all
  with c(2,3) show ?thesis by (auto simp: has_suspended_def)
qed

lemma suspended_made:
  assumes "b \<in> set (db_attempts db)" "p b" "db_attempts db' = update_rows p f (db_attempts db)"
    and "att_task (f b) = k" "att_status (f b) = AttSuspended"
  shows "has_suspended db' k"
proof -
  have "f b \<in> set (db_attempts db')" unfolding assms(3) set_update_rows using assms(1,2) by (intro bexI [of _ b]) simp_all
  with assms(4,5) show ?thesis by (auto simp: has_suspended_def)
qed

section \<open>Each operation keeps the agreement\<close>

lemma target_cases:
  assumes "task_target s t = Some target" "t \<noteq> TResume" "t \<noteq> TStart"
  obtains (was_running) a where "s = TaskRunning" "target \<noteq> TaskRunning" "attempt_target_of t s = Some a" "a \<noteq> AttRunning"
      "target = TaskWaiting \<Longrightarrow> a = AttSuspended"
    | (was_waiting) a where "s = TaskWaiting" "target \<noteq> TaskRunning" "target \<noteq> TaskWaiting" "attempt_target_of t s = Some a" "a \<noteq> AttRunning"
    | (was_idle) "s \<noteq> TaskRunning" "s \<noteq> TaskWaiting" "target \<noteq> TaskRunning" "target \<noteq> TaskWaiting" "attempt_target_of t s = None"
  using assms by (cases s; cases t) auto

lemma apply_update_tasks: "db_tasks (apply_update now u target e owner db) = db_tasks (update_task (upd_task u) (set_task_state now u target) db)"
  by (auto simp: apply_update_def Let_def split: option.split)

lemma apply_update_attempts: "db_attempts (apply_update now u target e owner db) =
    (case attempt_target_of (upd_transition u) (upd_expected u) of None \<Rightarrow> db_attempts db
     | Some t \<Rightarrow> update_rows (attempt_matches u e)
         (\<lambda>a. a\<lparr>att_status := t, att_completed := (if attempt_is_terminal t then Some now else None), att_reason := upd_reason u\<rparr>) (db_attempts db))"
  by (auto simp: apply_update_def Let_def split: option.split)

lemma status_after_update:
  "status_of (apply_update now u target e owner db) k =
    (if k = upd_task u then map_option (\<lambda>_. target) (map_of (db_tasks db) k) else status_of db k)"
  by (cases "map_of (db_tasks db) k")
    (auto simp: status_of_cong [OF apply_update_tasks] status_of_update_task set_task_state_def status_of_def table_simps)

lemma agree_update:
  assumes agree: "attempts_agree db" and r: "map_of (db_tasks db) (upd_task u) = Some r" "at_status r = upd_expected u"
    and target: "task_target (upd_expected u) (upd_transition u) = Some target" "upd_transition u \<noteq> TResume" "upd_transition u \<noteq> TStart"
    and one: "attempt_target_of (upd_transition u) (upd_expected u) \<noteq> None \<Longrightarrow> count_rows (attempt_matches u e) (db_attempts db) = 1"
  shows "attempts_agree (apply_update now u target e owner db)" (is "attempts_agree ?db")
proof -
  let ?i = "upd_task u" and ?p = "attempt_matches u e"
  have st: "status_of db ?i = Some (upd_expected u)" using r by (simp add: status_of_def)
  note D = attempts_agreeD [OF agree]
  from target show ?thesis
  proof (cases rule: target_cases)
    case (was_running a)
    let ?f = "\<lambda>x. x\<lparr>att_status := a, att_completed := (if attempt_is_terminal a then Some now else None), att_reason := upd_reason u\<rparr>"
    have att: "db_attempts ?db = update_rows ?p ?f (db_attempts db)" using was_running by (simp add: apply_update_attempts)
    have one': "count_rows ?p (db_attempts db) = 1" using one was_running by simp
    have run1: "running_attempts db ?i = 1" using D(1) [OF st] was_running by simp
    have running: "running_attempts ?db k = (if k = ?i then 0 else running_attempts db k)" for k
      unfolding running_attempts_def [of ?db] att
      by (rule running_gone [OF one' run1]) (use was_running in \<open>auto simp: attempt_matches_def\<close>)
    from one' obtain b where b: "b \<in> set (db_attempts db)" "?p b" using count_rows_0 [of ?p "db_attempts db"] by auto
    then have susp: "a = AttSuspended \<Longrightarrow> has_suspended ?db ?i"
      by (intro suspended_made [OF b att]) (auto simp: attempt_matches_def)
    have keep: "has_suspended ?db k" if "has_suspended db k" for k
      by (rule suspended_kept [OF that att]) (use was_running in \<open>simp add: attempt_matches_def\<close>)
    show ?thesis
    proof (rule attempts_agreeI)
      fix k s assume "status_of ?db k = Some s"
      then show "running_attempts ?db k = (if s = TaskRunning then 1 else 0) \<and> (s = TaskWaiting \<longrightarrow> has_suspended ?db k)"
        using was_running susp keep D [of k s] r unfolding status_after_update running by (auto split: if_splits)
    qed
  next
    case (was_waiting a)
    let ?f = "\<lambda>x. x\<lparr>att_status := a, att_completed := (if attempt_is_terminal a then Some now else None), att_reason := upd_reason u\<rparr>"
    have att: "db_attempts ?db = update_rows ?p ?f (db_attempts db)" using was_waiting by (simp add: apply_update_attempts)
    have running: "running_attempts ?db k = running_attempts db k" for k
      unfolding running_attempts_def [of ?db] att
      by (rule running_kept) (use was_waiting in \<open>auto simp: attempt_matches_def\<close>)
    have keep: "has_suspended ?db k" if "has_suspended db k" "k \<noteq> ?i" for k
      by (rule suspended_kept [OF that(1) att]) (use that(2) in \<open>auto simp: attempt_matches_def\<close>)
    show ?thesis
    proof (rule attempts_agreeI)
      fix k s assume "status_of ?db k = Some s"
      then show "running_attempts ?db k = (if s = TaskRunning then 1 else 0) \<and> (s = TaskWaiting \<longrightarrow> has_suspended ?db k)"
        using was_waiting keep [of k] D [of k s] D(1) [OF st] r unfolding status_after_update running by (auto split: if_splits)
    qed
  next
    case was_idle
    show ?thesis
    proof (rule agree_frame [OF agree])
      fix k s assume "status_of ?db k = Some s"
      then show "status_of db k = Some s \<or> status_of db k \<noteq> Some TaskRunning \<and> status_of db k \<noteq> None \<and> s \<noteq> TaskRunning \<and> s \<noteq> TaskWaiting"
        unfolding status_after_update using was_idle st by (cases "k = ?i") auto
    qed (use was_idle in \<open>simp add: apply_update_attempts\<close>)
  qed
qed

lemma agree_claim:
  assumes agree: "attempts_agree db" and r: "map_of (db_tasks db) i = Some r" "at_status r = TaskQueued"
  shows "attempts_agree (claim_task now i r (new_attempt now team i attempt incarnation db) db)" (is "attempts_agree ?db")
proof (rule attempts_agreeI)
  let ?a = "new_attempt now team i attempt incarnation db"
  have att: "db_attempts ?db = db_attempts db @ [?a]" by (simp add: claim_task_def insert_attempt_def)
  have running: "running_attempts ?db k = running_attempts db k + (if k = i then 1 else 0)" for k
    unfolding running_attempts_def att by (simp add: new_attempt_def)
  have keep: "has_suspended db k \<Longrightarrow> has_suspended ?db k" for k by (auto simp: has_suspended_def att)
  have st: "status_of db i = Some TaskQueued" using r by (simp add: status_of_def)
  have status: "status_of ?db k = (if k = i then Some TaskRunning else status_of db k)" for k
    using r by (cases "map_of (db_tasks db) k") (auto simp: claim_task_def insert_attempt_def status_of_def task_of_update)
  fix k s assume "status_of ?db k = Some s"
  then show "running_attempts ?db k = (if s = TaskRunning then 1 else 0) \<and> (s = TaskWaiting \<longrightarrow> has_suspended ?db k)"
    using attempts_agreeD [OF agree, of k s] attempts_agreeD(1) [OF agree st] keep
    unfolding status running by (auto split: if_splits)
qed

lemma agree_suspend:
  assumes agree: "attempts_agree db" and refs: "refs_ok db"
    and r: "map_of (db_tasks db) i = Some r" "at_status r = TaskRunning" "at_team r = team"
  shows "attempts_agree (move_instance states s j ((update_task i (\<lambda>t. t\<lparr>at_status := TaskWaiting, at_updated := now\<rparr>) db)
            \<lparr>db_attempts := update_rows (\<lambda>a. att_task a = i \<and> att_team a = team \<and> att_status a = AttRunning)
               (\<lambda>a. a\<lparr>att_status := AttSuspended\<rparr>) (db_attempts db)\<rparr>))" (is "attempts_agree ?db")
proof -
  let ?p = "\<lambda>a. att_task a = i \<and> att_team a = team \<and> att_status a = AttRunning" and ?f = "\<lambda>a. a\<lparr>att_status := AttSuspended\<rparr>"
  have att: "db_attempts ?db = update_rows ?p ?f (db_attempts db)" by simp
  have st: "status_of db i = Some TaskRunning" using r by (simp add: status_of_def)
  have run1: "running_attempts db i = 1" using attempts_agreeD(1) [OF agree st] by simp
  have "count_rows ?p (db_attempts db) = running_attempts db i"
    unfolding running_attempts_def
  proof (rule count_rows_cong)
    fix a assume "a \<in> set (db_attempts db)"
    from refs_attempt [OF refs this] r show "?p a \<longleftrightarrow> att_task a = i \<and> att_status a = AttRunning"
      by (auto simp: task_ref_def)
  qed
  with run1 have one: "count_rows ?p (db_attempts db) = 1" by simp
  have running: "running_attempts ?db k = (if k = i then 0 else running_attempts db k)" for k
    unfolding running_attempts_def [of ?db] att by (rule running_gone [OF one run1]) auto
  from one obtain b where b: "b \<in> set (db_attempts db)" "?p b" using count_rows_0 [of ?p "db_attempts db"] by auto
  have susp: "has_suspended ?db i" by (rule suspended_made [OF b att]) (use b in simp_all)
  have keep: "has_suspended db k \<Longrightarrow> has_suspended ?db k" for k
    by (erule suspended_kept [OF _ att]) simp
  have status: "status_of ?db k = (if k = i then Some TaskWaiting else status_of db k)" for k
    using r by (cases "map_of (db_tasks db) k") (auto simp: status_of_def task_of_update)
  show ?thesis
  proof (rule attempts_agreeI)
    fix k s assume "status_of ?db k = Some s"
    then have st: "(if k = i then Some TaskWaiting else status_of db k) = Some s" by (simp only: status)
    show "running_attempts ?db k = (if s = TaskRunning then 1 else 0) \<and> (s = TaskWaiting \<longrightarrow> has_suspended ?db k)"
    proof (cases "k = i")
      case True
      with st have "s = TaskWaiting" by simp
      with True susp show ?thesis unfolding running by simp
    next
      case False
      with st have "status_of db k = Some s" by (simp only: if_False)
      with False keep attempts_agreeD [OF agree this] show ?thesis unfolding running by simp
    qed
  qed
qed

lemma status_after_resume: "status_of (resume_task now (i, r) db) k =
    (if k = i \<and> status_of db i = Some TaskWaiting then Some TaskQueued else status_of db k)"
proof (cases "k = i")
  case True
  then show ?thesis by (cases "map_of (db_tasks db) i") (auto simp: resume_task_def status_of_def task_of_update)
next
  case False
  then show ?thesis by (cases "map_of (db_tasks db) k") (auto simp: resume_task_def status_of_def task_of_update)
qed

lemma agree_resume_task:
  assumes agree: "attempts_agree db"
  shows "attempts_agree (resume_task now x db)"
proof (cases x)
  case (Pair i r)
  show ?thesis unfolding Pair
  proof (rule agree_frame [OF agree])
    fix k s assume "status_of (resume_task now (i, r) db) k = Some s"
    then show "status_of db k = Some s \<or> status_of db k \<noteq> Some TaskRunning \<and> status_of db k \<noteq> None \<and> s \<noteq> TaskRunning \<and> s \<noteq> TaskWaiting"
      unfolding status_after_resume by (cases "k = i \<and> status_of db i = Some TaskWaiting") auto
  qed (simp add: resume_task_def)
qed

lemma agree_fold: "(\<And>x db. attempts_agree db \<Longrightarrow> attempts_agree (f x db)) \<Longrightarrow> attempts_agree db \<Longrightarrow> attempts_agree (fold f xs db)"
  by (induction xs arbitrary: db) auto

text \<open>Recovery suspends the interrupted attempts of one task; those of the tasks still to come are untouched.\<close>

definition has_interrupted :: "rstr \<Rightarrow> AgentDb \<Rightarrow> rstr \<times> AgentTaskRow \<Rightarrow> bool" where
  "has_interrupted reason db = (\<lambda>(i, r). \<exists>a \<in> set (db_attempts db). att_task a = i \<and> att_team a = at_team r
     \<and> att_status a = AttInterrupted \<and> att_reason a = Some reason)"

lemma agree_recover_task:
  assumes agree: "attempts_agree db" and int: "has_interrupted reason db (i, r)"
  shows "attempts_agree (recover_task now reason (i, r) db)" (is "attempts_agree ?db")
proof -
  let ?p = "\<lambda>a. att_task a = i \<and> att_team a = at_team r \<and> att_status a = AttInterrupted \<and> att_reason a = Some reason"
  let ?f = "\<lambda>a. a\<lparr>att_status := AttSuspended, att_completed := None, att_reason := None\<rparr>"
  have att: "db_attempts ?db = update_rows ?p ?f (db_attempts db)" by (simp add: recover_task_def)
  have running: "running_attempts ?db k = running_attempts db k" for k
    unfolding running_attempts_def [of ?db] att by (rule running_kept) auto
  from int obtain b where b: "b \<in> set (db_attempts db)" "?p b" by (auto simp: has_interrupted_def)
  have susp: "has_suspended ?db i" by (rule suspended_made [OF b att]) (use b in simp_all)
  have keep: "has_suspended db k \<Longrightarrow> has_suspended ?db k" for k
    by (erule suspended_kept [OF _ att]) simp
  have status: "status_of ?db k = (if k = i \<and> status_of db i = Some TaskInterrupted then Some TaskWaiting else status_of db k)" for k
  proof (cases "k = i")
    case True
    then show ?thesis by (cases "map_of (db_tasks db) i") (auto simp: recover_task_def status_of_def task_of_update)
  next
    case False
    then show ?thesis by (cases "map_of (db_tasks db) k") (auto simp: recover_task_def status_of_def task_of_update)
  qed
  show ?thesis
  proof (rule attempts_agreeI)
    fix k s assume "status_of ?db k = Some s"
    then have st: "(if k = i \<and> status_of db i = Some TaskInterrupted then Some TaskWaiting else status_of db k) = Some s"
      by (simp only: status)
    show "running_attempts ?db k = (if s = TaskRunning then 1 else 0) \<and> (s = TaskWaiting \<longrightarrow> has_suspended ?db k)"
    proof (cases "k = i \<and> status_of db i = Some TaskInterrupted")
      case True
      with st have "s = TaskWaiting" by simp
      with True susp attempts_agreeD(1) [OF agree, of i TaskInterrupted] show ?thesis unfolding running by simp
    next
      case False
      with st have "status_of db k = Some s" by (simp only: if_False)
      with keep attempts_agreeD [OF agree this] show ?thesis unfolding running by blast
    qed
  qed
qed

lemma interrupted_kept: "\<lbrakk>has_interrupted reason db (k, x); k \<noteq> i\<rbrakk> \<Longrightarrow> has_interrupted reason (recover_task now reason (i, r) db) (k, x)"
proof -
  assume int: "has_interrupted reason db (k, x)" and other: "k \<noteq> i"
  from int obtain a where a: "a \<in> set (db_attempts db)" "att_task a = k" "att_team a = at_team x" "att_status a = AttInterrupted" "att_reason a = Some reason"
    by (auto simp: has_interrupted_def)
  then have "a \<in> set (db_attempts (recover_task now reason (i, r) db))"
    using other by (simp add: recover_task_def set_update_rows) (intro bexI [of _ a], simp_all)
  with a show ?thesis by (auto simp: has_interrupted_def)
qed

lemma agree_recover:
  "\<lbrakk>attempts_agree db; distinct (map fst rows); \<forall>x \<in> set rows. has_interrupted reason db x\<rbrakk>
    \<Longrightarrow> attempts_agree (fold (recover_task now reason) rows db)"
proof (induction rows arbitrary: db)
  case (Cons x rows)
  obtain i r where x: "x = (i, r)" by (cases x)
  have "attempts_agree (recover_task now reason (i, r) db)" by (rule agree_recover_task) (use Cons.prems x in auto)
  moreover have "\<forall>y \<in> set rows. has_interrupted reason (recover_task now reason (i, r) db) y"
    using Cons.prems(2,3) unfolding x by (force intro: interrupted_kept)
  ultimately show ?case using Cons.IH Cons.prems(2) by (simp add: x)
qed simp

lemma agree_tables: "\<lbrakk>attempts_agree db; db_tasks db' = db_tasks db; db_attempts db' = db_attempts db\<rbrakk> \<Longrightarrow> attempts_agree db'"
  by (rule agree_frame) (auto simp: status_of_def)

lemma cancel_task_effect:
  assumes "cancel_task now team error_json reason i r db = Inr db'"
  shows "status_of db' k = (if k = i then map_option (\<lambda>_. TaskCancelled) (status_of db i) else status_of db k)"
    and "db_attempts db' = db_attempts db \<and> at_status r \<noteq> TaskWaiting \<or>
      db_attempts db' = update_rows (suspended_attempts team i)
        (\<lambda>a. a\<lparr>att_status := AttCancelled, att_completed := Some now, att_reason := reason\<rparr>) (db_attempts db)"
proof -
  let ?f = "\<lambda>t. t\<lparr>at_status := TaskCancelled, at_error := Some error_json, at_completed := Some now, at_updated := now\<rparr>"
  from assms have tasks: "db_tasks db' = db_tasks (update_task i ?f db)"
    by (auto simp: cancel_task_def Let_def split: if_splits)
  show "status_of db' k = (if k = i then map_option (\<lambda>_. TaskCancelled) (status_of db i) else status_of db k)"
    unfolding status_of_cong [OF tasks] by (cases "map_of (db_tasks db) k") (auto simp: status_of_def task_of_update)
  from assms show "db_attempts db' = db_attempts db \<and> at_status r \<noteq> TaskWaiting \<or>
      db_attempts db' = update_rows (suspended_attempts team i)
        (\<lambda>a. a\<lparr>att_status := AttCancelled, att_completed := Some now, att_reason := reason\<rparr>) (db_attempts db)"
    by (auto simp: cancel_task_def Let_def split: if_splits)
qed

lemma agree_cancelled_row:
  assumes agree: "attempts_agree db" and idle: "status_of db i \<noteq> Some TaskRunning"
    and status: "\<And>k. status_of db' k = (if k = i then map_option (\<lambda>_. TaskCancelled) (status_of db i) else status_of db k)"
    and att: "db_attempts db' = db_attempts db \<or> db_attempts db' = update_rows (suspended_attempts team i) f (db_attempts db)"
    and f: "\<And>a. att_status (f a) \<noteq> AttRunning"
  shows "attempts_agree db'"
proof -
  have running: "running_attempts db' k = running_attempts db k" for k
    using att
  proof
    assume "db_attempts db' = update_rows (suspended_attempts team i) f (db_attempts db)"
    then show ?thesis unfolding running_attempts_def [of db']
      by (simp only:) (rule running_kept, auto simp: suspended_attempts_def f)
  qed (simp add: running_attempts_def)
  have keep: "has_suspended db' k" if "has_suspended db k" "k \<noteq> i" for k
    using att
  proof
    assume "db_attempts db' = update_rows (suspended_attempts team i) f (db_attempts db)"
    from suspended_kept [OF that(1) this] that(2) show ?thesis by (auto simp: suspended_attempts_def)
  qed (use that in \<open>simp add: has_suspended_def\<close>)
  show ?thesis
  proof (rule attempts_agreeI)
    fix k s assume s: "status_of db' k = Some s"
    show "running_attempts db' k = (if s = TaskRunning then 1 else 0) \<and> (s = TaskWaiting \<longrightarrow> has_suspended db' k)"
    proof (cases "k = i")
      case True
      with s status obtain x where x: "status_of db i = Some x" "s = TaskCancelled" by auto
      with attempts_agreeD(1) [OF agree x(1)] idle True show ?thesis by (simp add: running)
    next
      case False
      with s status have "status_of db k = Some s" by simp
      with keep False attempts_agreeD [OF agree this] show ?thesis unfolding running by blast
    qed
  qed
qed

lemma agree_cancel_tasks:
  "\<lbrakk>attempts_agree db; \<forall>(i, r) \<in> set rows. status_of db i \<noteq> Some TaskRunning;
    cancel_tasks now team error_json reason rows db = Inr db'\<rbrakk> \<Longrightarrow> attempts_agree db'"
proof (induction rows arbitrary: db)
  case (Cons x rows)
  obtain i r where x: "x = (i, r)" by (cases x)
  from Cons.prems(3) x obtain db2 where one: "cancel_task now team error_json reason i r db = Inr db2"
    and rest: "cancel_tasks now team error_json reason rows db2 = Inr db'" by (auto split: sum.splits)
  note effect = cancel_task_effect [OF one]
  have idle: "status_of db i \<noteq> Some TaskRunning" using Cons.prems(2) x by simp
  have "attempts_agree db2"
    by (rule agree_cancelled_row [OF Cons.prems(1) idle effect(1)]) (use effect(2) in auto)
  moreover have "\<forall>(j, q) \<in> set rows. status_of db2 j \<noteq> Some TaskRunning"
    using Cons.prems(2) unfolding effect(1) by (auto split: prod.splits)
  ultimately show ?case by (rule Cons.IH) (rule rest)
qed simp

lemma agree_queued_cancelled:
  assumes "attempts_agree db" "cancel_queued_agent_task valid_json now team i error_json db = Inr (b, db')"
  shows "attempts_agree db'"
proof (cases "db' = db")
  case False
  with assms(2) obtain r where r: "map_of (db_tasks db) i = Some r" "at_status r = TaskQueued"
    "db' = update_task i (\<lambda>t. t\<lparr>at_status := TaskCancelled, at_error := Some error_json, at_completed := Some now, at_updated := now\<rparr>) db"
    by (auto simp: cancel_queued_agent_task_def split: option.splits if_splits)
  show ?thesis
  proof (rule agree_cancelled_row [OF assms(1)])
    show "status_of db i \<noteq> Some TaskRunning" using r by (simp add: status_of_def)
    show "status_of db' k = (if k = i then map_option (\<lambda>_. TaskCancelled) (status_of db i) else status_of db k)" for k
      by (cases "map_of (db_tasks db) k") (auto simp: r(3) status_of_def task_of_update)
    show "db_attempts db' = db_attempts db \<or> db_attempts db' = update_rows (suspended_attempts team i) (\<lambda>a. a\<lparr>att_status := AttCancelled\<rparr>) (db_attempts db)"
      by (simp add: r(3))
  qed simp
qed (use assms in simp)

lemma agree_enqueue:
  assumes agree: "attempts_agree db" and refs: "refs_ok db" and new: "map_of (db_tasks db) (new_id t) = None"
  shows "attempts_agree (insert_task now t db)" (is "attempts_agree ?db")
proof (rule attempts_agreeI)
  fix k s assume s: "status_of ?db k = Some s"
  have att: "db_attempts ?db = db_attempts db" by (simp add: insert_task_def Let_def)
  have same: "running_attempts ?db k = running_attempts db k" "has_suspended ?db k = has_suspended db k"
    by (simp_all add: running_attempts_def has_suspended_def att)
  show "running_attempts ?db k = (if s = TaskRunning then 1 else 0) \<and> (s = TaskWaiting \<longrightarrow> has_suspended ?db k)"
  proof (cases "k = new_id t")
    case True
    with s new have "s = TaskQueued" by (simp add: status_of_def insert_task_def Let_def queued_task_def map_add_def)
    have none: "running_attempts db (new_id t) = 0" unfolding running_attempts_def count_rows_0
    proof
      fix a assume "a \<in> set (db_attempts db)"
      from refs_attempt [OF refs this] new show "\<not> (att_task a = new_id t \<and> att_status a = AttRunning)"
        by (auto simp: task_ref_def)
    qed
    with True \<open>s = TaskQueued\<close> show ?thesis unfolding same by simp
  next
    case False
    with s have "status_of db k = Some s"
      by (simp add: status_of_def insert_task_def Let_def map_add_def split: option.splits)
    with attempts_agreeD [OF agree this] show ?thesis by (simp add: same)
  qed
qed

lemma agree_renew:
  assumes "attempts_agree db" "renew_agent_attempt_lease now i attempt incarnation db = Inr (b, db')"
  shows "attempts_agree db'"
proof -
  from assms(2) obtain p where db': "db' = db\<lparr>db_attempts := update_rows p (\<lambda>a. a\<lparr>att_lease := Some now\<rparr>) (db_attempts db)\<rparr>"
    by (auto simp: renew_agent_attempt_lease_def Let_def split: if_splits)
  have running: "running_attempts db' k = running_attempts db k" for k
    unfolding running_attempts_def db' by (simp add: count_rows_update if_distrib cong: if_cong)
  have susp: "has_suspended db' k" if susp: "has_suspended db k" for k
  proof -
    from susp obtain a where a: "a \<in> set (db_attempts db)" "att_task a = k" "att_status a = AttSuspended" by (auto simp: has_suspended_def)
    then have "(if p a then a\<lparr>att_lease := Some now\<rparr> else a) \<in> set (db_attempts db')" by (auto simp: db' set_update_rows)
    with a(2,3) show ?thesis unfolding has_suspended_def by (rule_tac bexI) simp_all
  qed
  have status: "status_of db' = status_of db" by (rule status_of_cong) (simp add: db')
  show ?thesis
  proof (rule attempts_agreeI, unfold status running)
    fix k s assume "status_of db k = Some s"
    with susp attempts_agreeD [OF assms(1) this]
    show "running_attempts db k = (if s = TaskRunning then 1 else 0) \<and> (s = TaskWaiting \<longrightarrow> has_suspended db' k)" by blast
  qed
qed

end
