(* ===== verification/Agent_Invariants.thy ===== *)
theory Agent_Invariants
  imports Agent_Attempts
begin

text \<open>
  The limits of teams, the unique indexes and, with the two theories before, the invariant of the agent
  tables: what holds after any sequence of operations, and what it means for claims, waits and cancellation.
\<close>

section \<open>The limits of teams\<close>

definition runs_in :: "rstr \<Rightarrow> AgentTaskRow \<Rightarrow> bool" where
  "runs_in team r \<longleftrightarrow> at_team r = team \<and> at_status r = TaskRunning"

lemma running_count_runs: "running_count db team = count_rows (\<lambda>(_, r). runs_in team r) (db_tasks db)"
  by (simp add: running_count_def runs_in_def)

lemma running_le_update:
  assumes "\<And>r. (i, r) \<in> set (db_tasks db) \<Longrightarrow> runs_in team (f r) \<Longrightarrow> runs_in team r"
  shows "running_count (update_task i f db) team \<le> running_count db team"
  unfolding running_count_runs update_task_def
  by (simp add: count_rows_keyed) (rule count_rows_mono, use assms in \<open>auto split: if_splits\<close>)

lemma running_count_tasks: "db_tasks db' = db_tasks db \<Longrightarrow> running_count db' team = running_count db team"
  by (simp add: running_count_def)

lemma limits_frame:
  assumes "limits_kept db" "\<And>team. running_count db' team \<le> running_count db team"
    and "\<And>team. map_option team_max_runs (map_of (db_teams db') team) = map_option team_max_runs (map_of (db_teams db) team)"
  shows "limits_kept db'"
  unfolding limits_kept_def
proof (intro allI impI)
  fix team t assume "map_of (db_teams db') team = Some t"
  with assms(3) [of team] obtain t0 where "map_of (db_teams db) team = Some t0" "team_max_runs t0 = team_max_runs t"
    by (cases "map_of (db_teams db) team") auto
  with assms(1) have "int (running_count db team) \<le> team_max_runs t" unfolding limits_kept_def by metis
  with assms(2) [of team] show "int (running_count db' team) \<le> team_max_runs t" by linarith
qed

lemma running_le_fold: "(\<And>x db. running_count (f x db) team \<le> running_count db team) \<Longrightarrow> running_count (fold f xs db) team \<le> running_count db team"
  by (induction xs arbitrary: db) (auto intro: order_trans)

lemma teams_fold: "(\<And>x db. db_teams (f x db) = db_teams db) \<Longrightarrow> db_teams (fold f xs db) = db_teams db"
  by (induction xs arbitrary: db) auto

lemma running_le_resume: "running_count (resume_task now x db) team \<le> running_count db team"
proof (cases x)
  case (Pair i r)
  let ?db = "update_task i (\<lambda>t. if at_status t = TaskWaiting then t\<lparr>at_status := TaskQueued, at_updated := now\<rparr> else t) db"
  have "running_count (resume_task now x db) team = running_count ?db team"
    by (rule running_count_tasks) (simp add: resume_task_def Pair)
  also have "\<dots> \<le> running_count db team" by (rule running_le_update) (auto simp: runs_in_def split: if_splits)
  finally show ?thesis .
qed

lemma running_le_recover: "running_count (recover_task now reason x db) team \<le> running_count db team"
proof (cases x)
  case (Pair i r)
  let ?db = "update_task i (\<lambda>t. if at_status t = TaskInterrupted
    then t\<lparr>at_status := TaskWaiting, at_error := None, at_completed := None, at_updated := now\<rparr> else t) db"
  have "running_count (recover_task now reason x db) team = running_count ?db team"
    by (rule running_count_tasks) (simp add: recover_task_def Pair)
  also have "\<dots> \<le> running_count db team" by (rule running_le_update) (auto simp: runs_in_def split: if_splits)
  finally show ?thesis .
qed

lemma cancel_task_frame:
  assumes "cancel_task now team error_json reason i r db = Inr db'"
  shows "running_count db' tm \<le> running_count db tm \<and> db_teams db' = db_teams db"
proof -
  let ?db = "update_task i (\<lambda>t. t\<lparr>at_status := TaskCancelled, at_error := Some error_json, at_completed := Some now, at_updated := now\<rparr>) db"
  have "db_tasks db' = db_tasks ?db" using assms by (auto simp: cancel_task_def Let_def split: if_splits)
  moreover have "db_teams db' = db_teams db" using assms by (auto simp: cancel_task_def Let_def split: if_splits)
  moreover have "running_count ?db tm \<le> running_count db tm" by (rule running_le_update) (simp add: runs_in_def)
  ultimately show ?thesis using running_count_tasks [of db' ?db tm] by simp
qed

lemma cancel_tasks_frame:
  "cancel_tasks now team error_json reason rows db = Inr db' \<Longrightarrow> running_count db' tm \<le> running_count db tm \<and> db_teams db' = db_teams db"
proof (induction rows arbitrary: db)
  case (Cons x rows)
  obtain i r where x: "x = (i, r)" by (cases x)
  with Cons.prems obtain db2 where "cancel_task now team error_json reason i r db = Inr db2"
    "cancel_tasks now team error_json reason rows db2 = Inr db'" by (auto split: sum.splits)
  with Cons.IH [of db2] cancel_task_frame [of now team error_json reason i r db db2 tm] show ?case by (auto intro: order_trans)
qed simp

lemma running_le_apply:
  assumes "target \<noteq> TaskRunning"
  shows "running_count (apply_update now u target e owner db) team \<le> running_count db team"
proof -
  have "running_count (apply_update now u target e owner db) team = running_count (update_task (upd_task u) (set_task_state now u target) db) team"
    by (rule running_count_tasks) (rule apply_update_tasks)
  also have "\<dots> \<le> running_count db team" by (rule running_le_update) (use assms in \<open>simp add: runs_in_def set_task_state_def split: if_splits\<close>)
  finally show ?thesis .
qed

lemma apply_update_teams: "db_teams (apply_update now u target e owner db) = db_teams db"
  by (auto simp: apply_update_def Let_def split: option.split)

lemma claim_running:
  assumes keys: "distinct (map fst (db_tasks db))" and r: "map_of (db_tasks db) i = Some r" "at_team r = team"
  shows "running_count (claim_task now i r a db) tm \<le> running_count db tm + (if tm = team then 1 else 0)"
proof -
  let ?f = "\<lambda>t. t\<lparr>at_status := TaskRunning, at_started := (case at_started t of None \<Rightarrow> Some now | Some s \<Rightarrow> Some s), at_completed := None, at_updated := now\<rparr>"
  let ?mine = "\<lambda>(k, x). k = i \<and> tm = team"
  have "running_count (claim_task now i r a db) tm = count_rows (\<lambda>(k, x). runs_in tm (if k = i then ?f x else x)) (db_tasks db)"
    unfolding running_count_runs by (simp add: claim_task_def insert_attempt_def update_task_def count_rows_keyed)
  also have "\<dots> \<le> count_rows (\<lambda>y. (case y of (k, x) \<Rightarrow> runs_in tm x) \<or> ?mine y) (db_tasks db)"
  proof (rule count_rows_mono)
    fix y assume y: "y \<in> set (db_tasks db)" and runs: "case y of (k, x) \<Rightarrow> runs_in tm (if k = i then ?f x else x)"
    obtain k x where kx: "y = (k, x)" by (cases y)
    with y keys have "map_of (db_tasks db) k = Some x" by simp
    with runs kx r show "(case y of (k, x) \<Rightarrow> runs_in tm x) \<or> ?mine y" by (cases "k = i") (auto simp: runs_in_def)
  qed
  also have "\<dots> \<le> running_count db tm + count_rows ?mine (db_tasks db)"
    unfolding running_count_runs by (rule count_rows_or)
  also have "count_rows ?mine (db_tasks db) \<le> (if tm = team then 1 else 0)"
    using count_key_le_one [OF keys, of i] by (auto simp: count_rows_0 split_def cong: conj_cong)
  finally show ?thesis by simp
qed

section \<open>The unique indexes\<close>

lemma unique_frame:
  assumes "unique_ok db" "db_tasks db' = db_tasks db" "db_attempts db' = db_attempts db" "db_dependencies db' = db_dependencies db"
  shows "unique_ok db'"
  using assms(1) unfolding unique_ok_def keys_unique_def one_active_per_instance_def one_running_attempt_per_task_def assms(2-4) .

lemma distinct_filter_update:
  assumes "distinct (map g (filter P (map snd rows)))" "\<And>r. \<not> P (f r)"
  shows "distinct (map g (filter P (map snd (update_keyed p f rows))))"
  using assms(1)
proof (induction rows)
  case (Cons x rows)
  obtain k r where x: "x = (k, r)" by (cases x)
  let ?rest = "update_keyed p f rows"
  have sub: "g ` set (filter P (map snd ?rest)) \<subseteq> g ` set (filter P (map snd rows))"
    using assms(2) by (force simp: update_keyed_def split: if_splits)
  have "distinct (map g (filter P (map snd ?rest)))" using Cons by (simp split: if_splits)
  moreover have "update_keyed p f (x # rows) = (k, if p k r then f r else r) # ?rest" by (simp add: x update_keyed_def)
  moreover have "g r \<notin> g ` set (filter P (map snd ?rest))" if "P r" using Cons.prems sub that by (auto simp: x)
  ultimately show ?case using assms(2) by simp
qed (simp add: update_keyed_def)

lemma unique_queued_cancelled:
  assumes unique: "unique_ok db" and run: "cancel_queued_agent_task valid_json now team i error_json db = Inr (b, db')"
  shows "unique_ok db'"
proof (cases "db' = db")
  case False
  let ?f = "\<lambda>t. t\<lparr>at_status := TaskCancelled, at_error := Some error_json, at_completed := Some now, at_updated := now\<rparr>"
  from run False have db': "db' = update_task i ?f db"
    by (auto simp: cancel_queued_agent_task_def split: option.splits if_splits)
  have "map (\<lambda>(_, r). (at_owner r, at_sequence r)) (db_tasks db') = map (\<lambda>(_, r). (at_owner r, at_sequence r)) (db_tasks db)"
    unfolding db' update_task_def by (simp add: map_update_keyed)
  moreover have "map fst (db_tasks db') = map fst (db_tasks db)" by (simp add: db' update_task_def)
  moreover have "one_active_per_instance db'"
  proof -
    have "distinct (map at_owner (filter task_active (map snd (update_keyed (\<lambda>k _. k = i) ?f (db_tasks db)))))"
      by (rule distinct_filter_update) (use unique in \<open>simp_all add: unique_ok_def one_active_per_instance_def task_active_def\<close>)
    then show ?thesis by (simp add: one_active_per_instance_def db' update_task_def)
  qed
  moreover have "db_attempts db' = db_attempts db" "db_dependencies db' = db_dependencies db" by (simp_all add: db')
  ultimately show ?thesis using unique
    unfolding unique_ok_def keys_unique_def one_running_attempt_per_task_def by simp
qed (use unique in simp)

lemma unique_renew:
  assumes unique: "unique_ok db" and run: "renew_agent_attempt_lease now i attempt incarnation db = Inr (b, db')"
  shows "unique_ok db'"
proof -
  from run obtain p where db': "db' = db\<lparr>db_attempts := update_rows p (\<lambda>a. a\<lparr>att_lease := Some now\<rparr>) (db_attempts db)\<rparr>"
    by (auto simp: renew_agent_attempt_lease_def Let_def split: if_splits)
  have "map att_task (filter (\<lambda>a. att_status a = AttRunning) (update_rows p (\<lambda>a. a\<lparr>att_lease := Some now\<rparr>) xs))
      = map att_task (filter (\<lambda>a. att_status a = AttRunning) xs)" for xs
    by (induction xs) (auto simp: update_rows_def)
  moreover have "map att_id (db_attempts db') = map att_id (db_attempts db)"
    "map (\<lambda>a. (att_task a, att_sequence a)) (db_attempts db') = map (\<lambda>a. (att_task a, att_sequence a)) (db_attempts db)"
    by (simp_all add: db' map_update_rows)
  ultimately show ?thesis using unique
    unfolding unique_ok_def keys_unique_def one_active_per_instance_def one_running_attempt_per_task_def db' by simp
qed

section \<open>The invariant\<close>

definition agent_inv :: "AgentDb \<Rightarrow> bool" where
  "agent_inv db \<longleftrightarrow> structure_ok db \<and> attempts_agree db \<and> limits_kept db \<and> unique_ok db"

lemma agent_inv_tables:
  assumes inv: "agent_inv db" and str: "structure_ok db'"
    and same: "db_tasks db' = db_tasks db" "db_attempts db' = db_attempts db" "db_dependencies db' = db_dependencies db"
    and limit: "limits_kept db'"
  shows "agent_inv db'"
  using inv str limit agree_tables [OF _ same(1,2)] unique_frame [OF _ same] unfolding agent_inv_def by blast

lemma limits_same_tasks:
  assumes "limits_kept db" "db_tasks db' = db_tasks db"
    "\<And>team. map_option team_max_runs (map_of (db_teams db') team) = map_option team_max_runs (map_of (db_teams db) team)"
  shows "limits_kept db'"
  by (rule limits_frame [OF assms(1) _ assms(3)]) (simp add: running_count_tasks [OF assms(2)])

lemma limits_new_team:
  assumes limits: "limits_kept db" and refs: "refs_ok db" and keys: "distinct (map fst (db_tasks db))"
    and new: "map_of (db_teams db) team = None" "0 < team_max_runs t"
  shows "limits_kept (db\<lparr>db_teams := db_teams db @ [(team, t)]\<rparr>)"
  unfolding limits_kept_def
proof (intro allI impI)
  let ?db = "db\<lparr>db_teams := db_teams db @ [(team, t)]\<rparr>"
  fix tm x assume x: "map_of (db_teams ?db) tm = Some x"
  have same: "running_count ?db tm = running_count db tm" by (simp add: running_count_def)
  show "int (running_count ?db tm) \<le> team_max_runs x"
  proof (cases "map_of (db_teams db) tm")
    case None
    with x have tm: "tm = team" "x = t" by (auto simp: map_add_def split: if_splits)
    have "runs_in tm r \<longrightarrow> False" if "(k, r) \<in> set (db_tasks db)" for k r
    proof
      assume "runs_in tm r"
      from that keys have "map_of (db_tasks db) k = Some r" by simp
      from refs_owner [OF refs this] obtain inst where inst: "map_of (db_instances db) (at_owner r) = Some inst" "inst_team inst = at_team r"
        by blast
      from refs_team [OF refs inst(1)] inst(2) \<open>runs_in tm r\<close> None show False by (simp add: runs_in_def)
    qed
    then have "running_count db tm = 0" unfolding running_count_runs count_rows_0 by auto
    with new tm show ?thesis unfolding same by simp
  next
    case (Some y)
    with x have "x = y" by (simp add: map_add_def)
    with limits Some show ?thesis unfolding same limits_kept_def by blast
  qed
qed

section \<open>Every operation keeps the invariant\<close>

lemma inv_parts:
  assumes "agent_inv db"
  shows "structure_ok db" "refs_ok db" "attempts_agree db" "limits_kept db" "unique_ok db" "distinct (map fst (db_tasks db))"
  using assms by (auto simp: agent_inv_def structure_ok_def unique_ok_def keys_unique_def)

definition rest_ok :: "AgentDb \<Rightarrow> bool" where
  "rest_ok db \<longleftrightarrow> attempts_agree db \<and> limits_kept db \<and> unique_ok db"

lemma rest_refl: "agent_inv db \<Longrightarrow> rest_ok db" by (simp add: agent_inv_def rest_ok_def)

lemma rest_tables:
  assumes inv: "agent_inv db"
    and same: "db_tasks db' = db_tasks db" "db_attempts db' = db_attempts db" "db_dependencies db' = db_dependencies db"
    and limits: "\<And>team. map_option team_max_runs (map_of (db_teams db') team) = map_option team_max_runs (map_of (db_teams db) team)"
  shows "rest_ok db'"
  using agree_tables [OF inv_parts(3) [OF inv] same(1,2)] unique_frame [OF inv_parts(5) [OF inv] same]
    limits_same_tasks [OF inv_parts(4) [OF inv] same(1) limits] unfolding rest_ok_def by blast

lemma rest_team_added:
  assumes inv: "agent_inv db" and new: "map_of (db_teams db) team = None" "0 < team_max_runs t"
  shows "rest_ok (db\<lparr>db_teams := db_teams db @ [(team, t)]\<rparr>)" (is "rest_ok ?db")
proof -
  have "limits_kept ?db" by (rule limits_new_team [OF inv_parts(4,2,6) [OF inv] new])
  moreover have "attempts_agree ?db" by (rule agree_tables [OF inv_parts(3) [OF inv]]) simp_all
  moreover have "unique_ok ?db" by (rule unique_frame [OF inv_parts(5) [OF inv]]) simp_all
  ultimately show ?thesis by (simp add: rest_ok_def)
qed

lemma rest_team_moved:
  assumes inv: "agent_inv db" and run: "transition_agent_team_status team target db = Inr db'"
  shows "rest_ok db'"
proof -
  from run have db': "db' = db\<lparr>db_teams := update_keyed (\<lambda>k _. k = team) (\<lambda>r. r\<lparr>team_state := target\<rparr>) (db_teams db),
      db_instances := update_keyed (\<lambda>_ _. True) (team_target_instances team target) (db_instances db)\<rparr>"
    by (auto simp: transition_agent_team_status_def split: option.splits sum.splits if_splits)
  show ?thesis
  proof (rule rest_tables [OF inv])
    show "map_option team_max_runs (map_of (db_teams db') tm) = map_option team_max_runs (map_of (db_teams db) tm)" for tm
      by (cases "map_of (db_teams db) tm") (auto simp: db' map_of_update_keyed)
  qed (simp_all add: db')
qed

lemma rest_instance_moved:
  assumes inv: "agent_inv db" and run: "transition_agent_instance_status i state db = Inr db'"
  shows "rest_ok db'"
proof -
  from run have db': "db' = update_instance i (\<lambda>r. r\<lparr>inst_state := state\<rparr>) db"
    by (auto simp: transition_agent_instance_status_def Let_def split: option.splits sum.splits if_splits)
  show ?thesis by (rule rest_tables [OF inv]) (simp_all add: db')
qed

lemma rest_enqueue:
  assumes inv: "agent_inv db" and run: "enqueue_agent_task_with_limits now t max_team max_instance max_chat db = Inr db'"
  shows "rest_ok db'"
proof -
  from enqueue_effect [OF run] have db': "db' = insert_task now t db" and unique: "unique_ok db'" by blast+
  have tasks: "\<exists>n. db_tasks db' = db_tasks db @ [(new_id t, queued_task now t n)]" and teams: "db_teams db' = db_teams db"
    by (auto simp: db' insert_task_def Let_def)
  from tasks unique have new: "map_of (db_tasks db) (new_id t) = None"
  proof -
    from tasks obtain n where "db_tasks db' = db_tasks db @ [(new_id t, queued_task now t n)]" by blast
    with unique have "distinct (map fst (db_tasks db @ [(new_id t, queued_task now t n)]))"
      by (simp only: unique_ok_def keys_unique_def)
    then show ?thesis by (simp add: map_of_eq_None_iff)
  qed
  have "attempts_agree db'" unfolding db' by (rule agree_enqueue [OF inv_parts(3,2) [OF inv] new])
  moreover have "running_count db' team = running_count db team" for team
    using tasks by (auto simp: running_count_def queued_task_def)
  then have "limits_kept db'" by (intro limits_frame [OF inv_parts(4) [OF inv]]) (simp_all add: teams)
  ultimately show ?thesis using unique by (simp add: rest_ok_def)
qed

lemma rest_transfer:
  assumes inv: "agent_inv db"
    and run: "transfer_queued_agent_task_with_limits now team i target max_team max_instance max_chat db = Inr (b, db')"
  shows "rest_ok db'"
proof (cases "db' = db")
  case False
  with transfer_effect [OF run] obtain inst :: AgentInstanceRow where unique: "unique_ok db'"
    and db': "db' = update_task i (\<lambda>r. r\<lparr>at_owner := target, at_sequence := inst_next_sequence inst, at_updated := now\<rparr>)
                (update_instance target (\<lambda>r. r\<lparr>inst_next_sequence := inst_next_sequence r + 1\<rparr>) db)" by blast
  let ?db = "update_instance target (\<lambda>r. r\<lparr>inst_next_sequence := inst_next_sequence r + 1\<rparr>) db"
  have "status_of db' k = status_of db k" for k
    by (cases "map_of (db_tasks db) k") (auto simp: db' status_of_def task_of_update)
  then have "attempts_agree db'" by (intro agree_frame [OF inv_parts(3) [OF inv]]) (simp_all add: db')
  moreover have le: "running_count db' tm \<le> running_count ?db tm" for tm unfolding db' by (rule running_le_update) (simp add: runs_in_def)
  have "running_count db' tm \<le> running_count db tm" for tm using le [of tm] running_count_tasks [of ?db db tm] by simp
  then have "limits_kept db'" by (rule limits_frame [OF inv_parts(4) [OF inv]]) (simp add: db')
  ultimately show ?thesis using unique by (simp add: rest_ok_def)
qed (use inv in \<open>simp add: rest_refl\<close>)

lemma rest_claim:
  assumes inv: "agent_inv db" and run: "claim_runnable_agent_task_with_owner now team i attempt incarnation db = Inr (x, db')"
  shows "rest_ok db'"
proof (cases "db' = db")
  case False
  with claim_effect [OF run] obtain r where r: "map_of (db_tasks db) i = Some r" "at_team r = team" "runnable now db i r"
    and unique: "unique_ok db'" and db': "db' = claim_task now i r (new_attempt now team i attempt incarnation db) db" by blast
  from r(3) obtain t where queued: "at_status r = TaskQueued"
    and t: "map_of (db_teams db) team = Some t" "int (running_count db team) < team_max_runs t"
    using r(2) by (auto simp: runnable_def split: option.splits)
  have "attempts_agree db'" unfolding db' by (rule agree_claim [OF inv_parts(3) [OF inv] r(1) queued])
  moreover have "limits_kept db'" unfolding limits_kept_def
  proof (intro allI impI)
    fix tm y assume y: "map_of (db_teams db') tm = Some y"
    have teams: "db_teams db' = db_teams db" by (simp add: db' claim_task_def insert_attempt_def)
    note le = claim_running [OF inv_parts(6) [OF inv] r(1,2), of now "new_attempt now team i attempt incarnation db" tm]
    show "int (running_count db' tm) \<le> team_max_runs y"
    proof (cases "tm = team")
      case True
      with y t teams le show ?thesis unfolding db' by simp
    next
      case False
      have "int (running_count db tm) \<le> team_max_runs y"
        using inv_parts(4) [OF inv] y unfolding limits_kept_def teams by blast
      with False le show ?thesis unfolding db' by simp
    qed
  qed
  ultimately show ?thesis using unique by (simp add: rest_ok_def)
qed (use inv in \<open>simp add: rest_refl\<close>)

lemma rest_update:
  assumes inv: "agent_inv db" and run: "update_agent_task_state_inner valid_json now u e db = Inr (b, db')"
    and no: "upd_transition u \<noteq> TResume"
  shows "rest_ok db'"
proof (cases "db' = db")
  case False
  with update_effect [OF run] obtain r target where r: "map_of (db_tasks db) (upd_task u) = Some r" "at_status r = upd_expected u"
    and target: "task_target (upd_expected u) (upd_transition u) = Some target" "upd_transition u \<noteq> TStart"
    and one: "attempt_target_of (upd_transition u) (upd_expected u) \<noteq> None \<longrightarrow> count_rows (attempt_matches u e) (db_attempts db) = 1"
    and db': "db' = apply_update now u target e (at_owner r) db" and unique: "unique_ok db'" by blast
  have "attempts_agree db'" unfolding db' by (rule agree_update [OF inv_parts(3) [OF inv] r target(1) no target(2)]) (use one in blast)
  moreover have "target \<noteq> TaskRunning" using target no by (cases rule: target_cases [OF target(1) no target(2)]) auto
  then have "limits_kept db'" unfolding db'
    by (intro limits_frame [OF inv_parts(4) [OF inv]] running_le_apply) (simp_all add: apply_update_teams)
  ultimately show ?thesis using unique by (simp add: rest_ok_def)
qed (use inv in \<open>simp add: rest_refl\<close>)

lemma rest_suspend:
  assumes inv: "agent_inv db" and run: "suspend_running_agent_task_with_wait_dependencies now team i db = Inr (b, db')"
  shows "rest_ok db'"
proof (cases "db' = db")
  case False
  let ?f = "\<lambda>t. t\<lparr>at_status := TaskWaiting, at_updated := now\<rparr>"
  from suspend_effect [OF run] False obtain r where r: "map_of (db_tasks db) i = Some r" "at_team r = team" "at_status r = TaskRunning"
    and unique: "unique_ok db'"
    and db': "db' = move_instance [InstRunning, InstDraining] InstWaiting (at_owner r)
          ((update_task i (\<lambda>t. t\<lparr>at_status := TaskWaiting, at_updated := now\<rparr>) db)
            \<lparr>db_attempts := update_rows (\<lambda>a. att_task a = i \<and> att_team a = team \<and> att_status a = AttRunning)
               (\<lambda>a. a\<lparr>att_status := AttSuspended\<rparr>) (db_attempts db)\<rparr>)" by blast
  have "attempts_agree db'" unfolding db' by (rule agree_suspend [OF inv_parts(3,2) [OF inv] r(1,3,2)])
  moreover have "running_count db' tm = running_count (update_task i ?f db) tm" for tm
    by (rule running_count_tasks) (simp add: db')
  then have "running_count db' tm \<le> running_count db tm" for tm
    using running_le_update [of i db tm ?f] by (simp add: runs_in_def)
  then have "limits_kept db'" by (rule limits_frame [OF inv_parts(4) [OF inv]]) (simp add: db')
  ultimately show ?thesis using unique by (simp add: rest_ok_def)
qed (use inv in \<open>simp add: rest_refl\<close>)

lemma rest_resume:
  assumes inv: "agent_inv db" and run: "resume_satisfied_agent_tasks_matching now limit selected requeue db = Inr (ids, db')"
  shows "rest_ok db'"
proof -
  from resume_effect [OF run] obtain rows where db': "db' = fold (resume_task now) rows db" and unique: "unique_ok db'" by blast
  have "attempts_agree db'" unfolding db' by (rule agree_fold [OF agree_resume_task inv_parts(3) [OF inv]])
  moreover have "db_teams db' = db_teams db" unfolding db' by (rule teams_fold) (simp add: resume_task_def split: prod.split)
  then have "limits_kept db'" using running_le_fold [of "resume_task now", OF running_le_resume]
    by (intro limits_frame [OF inv_parts(4) [OF inv]]) (simp_all add: db')
  ultimately show ?thesis using unique by (simp add: rest_ok_def)
qed

lemma rest_recover:
  assumes inv: "agent_inv db" and run: "recover_interrupted_agent_wait_tasks now reason limit db = Inr (ids, db')"
  shows "rest_ok db'"
proof -
  from recover_effect [OF run] obtain rows where rows: "set rows \<subseteq> {(i, r). (i, r) \<in> set (db_tasks db) \<and> recoverable db reason i r}"
    and dist: "distinct (map fst (db_tasks db)) \<longrightarrow> distinct (map fst rows)"
    and db': "db' = fold (recover_task now reason) rows db" and unique: "unique_ok db'" by blast
  have "has_interrupted reason db x" if "x \<in> set rows" for x
  proof -
    obtain i r where x: "x = (i, r)" by (cases x)
    with rows that have "recoverable db reason i r" by auto
    then show ?thesis by (auto simp: x recoverable_def interrupted_wait_def has_interrupted_def list_ex_iff)
  qed
  then have "attempts_agree db'" unfolding db'
    by (intro agree_recover [OF inv_parts(3) [OF inv]]) (use dist inv_parts(6) [OF inv] in auto)
  moreover have "db_teams db' = db_teams db" unfolding db' by (rule teams_fold) (simp add: recover_task_def split: prod.split)
  then have "limits_kept db'" using running_le_fold [of "recover_task now reason", OF running_le_recover]
    by (intro limits_frame [OF inv_parts(4) [OF inv]]) (simp_all add: db')
  ultimately show ?thesis using unique by (simp add: rest_ok_def)
qed

lemma rest_subtree:
  assumes inv: "agent_inv db" and run: "cancel_agent_task_subtree valid_json now team root error_json reason db = Inr (c, db')"
  shows "rest_ok db'"
proof -
  let ?rows = "filter (\<lambda>(_, r). at_status r = TaskQueued \<or> at_status r = TaskWaiting) (subtree_rows db team root)"
  from subtree_effect [OF run] obtain db1 where cancel: "cancel_tasks now team error_json reason ?rows db1 = Inr db'"
    and db1: "db1 = db \<or> db1 = request_cancellation team root db" and unique: "unique_ok db'" by blast
  have frame: "db_tasks db1 = db_tasks db" "db_attempts db1 = db_attempts db" "db_teams db1 = db_teams db"
    using db1 by (auto simp: request_cancellation_def)
  have "\<forall>(i, r) \<in> set ?rows. status_of db1 i \<noteq> Some TaskRunning"
  proof (intro ballI, clarify)
    fix i r assume "(i, r) \<in> set ?rows" and run: "status_of db1 i = Some TaskRunning"
    then have "(i, r) \<in> set (db_tasks db)" "at_status r \<noteq> TaskRunning" by (auto simp: subtree_rows_def Let_def)
    with inv_parts(6) [OF inv] run show False by (simp add: status_of_def frame)
  qed
  then have "attempts_agree db'"
    using agree_cancel_tasks [OF agree_tables [OF inv_parts(3) [OF inv] frame(1,2)] _ cancel] by blast
  moreover have "limits_kept db'"
    using cancel_tasks_frame [OF cancel] running_count_tasks [OF frame(1)]
    by (intro limits_frame [OF inv_parts(4) [OF inv]]) (simp_all add: frame(3))
  ultimately show ?thesis using unique by (simp add: rest_ok_def)
qed

lemma register_frame:
  assumes "register_round q ts db = Inr (outcome, db')"
  shows "db_tasks db' = db_tasks db \<and> db_attempts db' = db_attempts db \<and> db_teams db' = db_teams db"
  using assms by (auto simp: register_round_def Let_def ensure_task_waiting_requested_event_def insert_waits_def split: if_splits)

lemma rest_register:
  assumes inv: "agent_inv db" and run: "register_agent_task_wait_dependencies q db = Inr (outcome, db')"
  shows "rest_ok db'"
proof -
  from register_effect [OF run] obtain ts where "register_round q ts db = Inr (outcome, db')" and unique: "unique_ok db'" by blast
  note frame = register_frame [OF this(1)]
  have "attempts_agree db'" using agree_tables [OF inv_parts(3) [OF inv]] frame by blast
  moreover have "limits_kept db'" using limits_same_tasks [OF inv_parts(4) [OF inv]] frame by simp
  ultimately show ?thesis using unique by (simp add: rest_ok_def)
qed

lemma rest_renew:
  assumes inv: "agent_inv db" and run: "renew_agent_attempt_lease now i attempt incarnation db = Inr (b, db')"
  shows "rest_ok db'"
proof -
  from run have "db_tasks db' = db_tasks db" "db_teams db' = db_teams db"
    by (auto simp: renew_agent_attempt_lease_def Let_def split: if_splits)
  with limits_same_tasks [OF inv_parts(4) [OF inv]] have "limits_kept db'" by simp
  with agree_renew [OF inv_parts(3) [OF inv] run] unique_renew [OF inv_parts(5) [OF inv] run] show ?thesis by (simp add: rest_ok_def)
qed

lemma rest_queued_cancelled:
  assumes inv: "agent_inv db" and run: "cancel_queued_agent_task valid_json now team i error_json db = Inr (b, db')"
  shows "rest_ok db'"
proof -
  let ?f = "\<lambda>t. t\<lparr>at_status := TaskCancelled, at_error := Some error_json, at_completed := Some now, at_updated := now\<rparr>"
  from run have "db' = db \<or> db' = update_task i ?f db"
    by (auto simp: cancel_queued_agent_task_def split: option.splits if_splits)
  then have "db_teams db' = db_teams db" "running_count db' tm \<le> running_count db tm" for tm
    using running_le_update [of i db tm ?f] by (auto simp: runs_in_def)
  then have "limits_kept db'" by (intro limits_frame [OF inv_parts(4) [OF inv]]) simp_all
  with agree_queued_cancelled [OF inv_parts(3) [OF inv] run] unique_queued_cancelled [OF inv_parts(5) [OF inv] run]
  show ?thesis by (simp add: rest_ok_def)
qed

lemma rest_waits_deleted:
  assumes inv: "agent_inv db" and run: "delete_agent_task_dependencies i db = (n, db')"
  shows "rest_ok db'"
proof -
  from run have db': "db' = delete_waits i db" by (simp add: delete_agent_task_dependencies_def)
  have "attempts_agree db'" by (rule agree_tables [OF inv_parts(3) [OF inv]]) (simp_all add: db')
  moreover have "limits_kept db'" by (rule limits_same_tasks [OF inv_parts(4) [OF inv]]) (simp_all add: db')
  moreover have "unique_ok db'" using inv_parts(5) [OF inv]
    unfolding unique_ok_def keys_unique_def one_active_per_instance_def one_running_attempt_per_task_def
    by (simp add: db' distinct_map_filter)
  ultimately show ?thesis by (simp add: rest_ok_def)
qed

lemma rest_step: "\<lbrakk>agent_inv db; agent_step db db'\<rbrakk> \<Longrightarrow> rest_ok db'"
proof -
  assume inv: "agent_inv db" and "agent_step db db'"
  from this(2) show ?thesis
  proof cases
    case team_added with rest_team_added [OF inv] show ?thesis by simp
  next
    case instance_added then show ?thesis by (simp add: rest_tables [OF inv])
  next
    case enqueued from rest_enqueue [OF inv this] show ?thesis .
  next
    case transferred from rest_transfer [OF inv this] show ?thesis .
  next
    case claimed from rest_claim [OF inv this] show ?thesis .
  next
    case renewed from rest_renew [OF inv this] show ?thesis .
  next
    case updated from rest_update [OF inv this] show ?thesis .
  next
    case queued_cancelled from rest_queued_cancelled [OF inv this] show ?thesis .
  next
    case suspended from rest_suspend [OF inv this] show ?thesis .
  next
    case resumed from rest_resume [OF inv this] show ?thesis .
  next
    case recovered from rest_recover [OF inv this] show ?thesis .
  next
    case subtree_cancelled from rest_subtree [OF inv this] show ?thesis .
  next
    case registered from rest_register [OF inv this] show ?thesis .
  next
    case waits_deleted from rest_waits_deleted [OF inv this] show ?thesis .
  next
    case team_moved from rest_team_moved [OF inv this] show ?thesis .
  next
    case instance_moved from rest_instance_moved [OF inv this] show ?thesis .
  qed
qed

lemma inv_reachable: "agent_reachable db \<Longrightarrow> agent_inv db"
proof (induction rule: agent_reachable.induct)
  case start
  show ?case
    by (simp add: agent_inv_def structure_ok_def refs_ok_def waits_uniform_def wait_graph_def empty_agent_db_def acyclic_def
        attempts_agree_def limits_kept_def unique_ok_def keys_unique_def one_active_per_instance_def one_running_attempt_per_task_def)
next
  case (step db db')
  from structure_step [OF inv_parts(1) [OF step.IH] step.hyps(2)] rest_step [OF step.IH step.hyps(2)]
  show ?case by (simp add: agent_inv_def rest_ok_def)
qed

end
