(* ===== verification/Agent_Example.thy ===== *)
theory Agent_Example
  imports Agent_Invariants
begin

text \<open>
  A run of the agent tables, one operation after the other, on which the properties are tried out: a team with
  two instances, a task that waits for another one, is resumed when that one is cancelled, runs again and
  waits for a third one.
\<close>

definition plain_input :: AgentInput where
  "plain_input = \<lparr>input_json = [], input_valid = True, input_defers = False, input_plan_session = False\<rparr>"

definition plain_task :: "rstr \<Rightarrow> rstr \<Rightarrow> NewAgentTask" where
  "plain_task i owner = \<lparr>new_id = i, new_team = [1], new_owner = owner, new_origin = None, new_parent = None, new_input = plain_input\<rparr>"

definition plain_wait :: "rstr \<Rightarrow> rstr \<Rightarrow> WaitRegistration" where
  "plain_wait i call = \<lparr>reg_team = [1], reg_waiting = [4], reg_tasks = [i], reg_mode = WaitAll, reg_call = Some call,
     reg_deadline = None, reg_instance = Some [2]\<rparr>"

definition to_waiting :: AgentTaskStateUpdate where
  "to_waiting = \<lparr>upd_team = [1], upd_task = [4], upd_expected = TaskRunning, upd_transition = TWait,
     upd_result = None, upd_error = None, upd_reason = None\<rparr>"

definition any_attempt :: ExpectedAttempt where "any_attempt = \<lparr>exp_attempt = None, exp_owner = None, exp_lease = None\<rparr>"

definition ex_instance :: "AgentInstanceStatus \<Rightarrow> int \<Rightarrow> int option \<Rightarrow> AgentInstanceRow" where
  "ex_instance s n scheduled = \<lparr>inst_team = [1], inst_state = s, inst_next_sequence = n, inst_last_scheduled = scheduled\<rparr>"

definition ex_task :: "int \<Rightarrow> rstr \<Rightarrow> AgentTaskStatus \<Rightarrow> int \<Rightarrow> int option \<Rightarrow> AgentTaskRow" where
  "ex_task n owner s updated started = \<lparr>at_team = [1], at_owner = owner, at_origin = None, at_parent = None, at_sequence = n,
     at_status = s, at_input = plain_input, at_result = None, at_error = None, at_created = 1, at_updated = updated,
     at_started = started, at_completed = None\<rparr>"

definition ex_attempt :: "rstr \<Rightarrow> int \<Rightarrow> AgentAttemptStatus \<Rightarrow> int \<Rightarrow> AgentAttemptRow" where
  "ex_attempt i n s started = \<lparr>att_id = i, att_team = [1], att_task = [4], att_sequence = n, att_status = s, att_started = started,
     att_completed = None, att_reason = None, att_owner = None, att_lease = None\<rparr>"

definition ex_wait_row :: "rstr \<Rightarrow> rstr \<Rightarrow> AgentDependencyRow" where
  "ex_wait_row i call = \<lparr>dep_team = [1], dep_waiting = [4], dep_task = i, dep_mode = WaitAll, dep_call = Some call, dep_deadline = None\<rparr>"

definition ex_event :: "rstr \<Rightarrow> rstr \<Rightarrow> WaitRequested" where
  "ex_event i call = \<lparr>wr_team = [1], wr_task = [4], wr_instance = Some [2], wr_call = Some call, wr_dependencies = [i],
     wr_mode = WaitAll, wr_deadline = None\<rparr>"

definition ex_team :: AgentDb where
  "ex_team = empty_agent_db\<lparr>db_teams := [([1], \<lparr>team_state = TeamActive, team_max_runs = 2\<rparr>)],
    db_instances := [([2], ex_instance InstIdle 0 None), ([3], ex_instance InstIdle 0 None)]\<rparr>"

text \<open>The tables with the state of the first instance, its task, the task it waits for, and the other rows.\<close>

definition ex_db :: "AgentInstanceRow \<Rightarrow> AgentTaskRow \<Rightarrow> AgentTaskRow \<Rightarrow> AgentAttemptRow list \<Rightarrow> AgentDependencyRow list
    \<Rightarrow> WaitRequested list \<Rightarrow> AgentDb" where
  "ex_db inst t1 t2 attempts waits events = \<lparr>db_teams = [([1], \<lparr>team_state = TeamActive, team_max_runs = 2\<rparr>)],
    db_instances = [([2], inst), ([3], ex_instance InstIdle 2 None)],
    db_tasks = [([4], t1), ([5], t2), ([6], ex_task 1 [3] TaskQueued 1 None)],
    db_attempts = attempts, db_dependencies = waits, db_cancellations = [], db_wait_events = events\<rparr>"

definition ex_open :: AgentTaskRow where "ex_open = ex_task 0 [3] TaskQueued 1 None"
definition ex_closed :: AgentTaskRow where
  "ex_closed = (ex_task 0 [3] TaskCancelled 4 None)\<lparr>at_error := Some [], at_completed := Some 4\<rparr>"

definition ex_one :: AgentDb where "ex_one = projr (enqueue_agent_task_with_limits 1 (plain_task [4] [2]) 9 9 9 ex_team)"
definition ex_two :: AgentDb where "ex_two = projr (enqueue_agent_task_with_limits 1 (plain_task [5] [3]) 9 9 9 ex_one)"
definition ex_queued :: AgentDb where
  "ex_queued = ex_db (ex_instance InstIdle 1 None) (ex_task 0 [2] TaskQueued 1 None) ex_open [] [] []"
definition ex_claimed :: AgentDb where
  "ex_claimed = ex_db (ex_instance InstRunning 1 (Some 2)) (ex_task 0 [2] TaskRunning 2 (Some 2)) ex_open
     [ex_attempt [7] 0 AttRunning 2] [] []"
definition ex_registered :: AgentDb where
  "ex_registered = ex_db (ex_instance InstRunning 1 (Some 2)) (ex_task 0 [2] TaskRunning 2 (Some 2)) ex_open
     [ex_attempt [7] 0 AttRunning 2] [ex_wait_row [5] [97]] [ex_event [5] [97]]"
definition ex_waiting :: AgentDb where
  "ex_waiting = ex_db (ex_instance InstWaiting 1 (Some 2)) (ex_task 0 [2] TaskWaiting 3 (Some 2)) ex_open
     [ex_attempt [7] 0 AttSuspended 2] [ex_wait_row [5] [97]] [ex_event [5] [97]]"
definition ex_over :: AgentDb where
  "ex_over = ex_db (ex_instance InstWaiting 1 (Some 2)) (ex_task 0 [2] TaskWaiting 3 (Some 2)) ex_closed
     [ex_attempt [7] 0 AttSuspended 2] [ex_wait_row [5] [97]] [ex_event [5] [97]]"
definition ex_resumed :: AgentDb where
  "ex_resumed = ex_db (ex_instance InstIdle 1 (Some 2)) (ex_task 0 [2] TaskQueued 5 (Some 2)) ex_closed
     [ex_attempt [7] 0 AttSuspended 2] [ex_wait_row [5] [97]] [ex_event [5] [97]]"
definition ex_again :: AgentDb where
  "ex_again = ex_db (ex_instance InstRunning 1 (Some 6)) (ex_task 0 [2] TaskRunning 6 (Some 2)) ex_closed
     [ex_attempt [7] 0 AttSuspended 2, ex_attempt [8] 1 AttRunning 6] [ex_wait_row [5] [97]] [ex_event [5] [97]]"
definition ex_second :: AgentDb where
  "ex_second = ex_db (ex_instance InstRunning 1 (Some 6)) (ex_task 0 [2] TaskRunning 6 (Some 2)) ex_closed
     [ex_attempt [7] 0 AttSuspended 2, ex_attempt [8] 1 AttRunning 6] [ex_wait_row [6] [98]] [ex_event [5] [97], ex_event [6] [98]]"
definition ex_second_wait :: AgentDb where
  "ex_second_wait = ex_db (ex_instance InstWaiting 1 (Some 6)) (ex_task 0 [2] TaskWaiting 7 (Some 2)) ex_closed
     [ex_attempt [7] 0 AttSuspended 2, ex_attempt [8] 1 AttSuspended 6] [ex_wait_row [6] [98]] [ex_event [5] [97], ex_event [6] [98]]"

lemma ex_team_reachable: "agent_reachable ex_team"
proof -
  let ?a = "empty_agent_db\<lparr>db_teams := db_teams empty_agent_db @ [([1], \<lparr>team_state = TeamActive, team_max_runs = 2\<rparr>)]\<rparr>"
  let ?i = "\<lparr>inst_team = [1], inst_state = InstIdle, inst_next_sequence = 0, inst_last_scheduled = None\<rparr> :: AgentInstanceRow"
  let ?b = "?a\<lparr>db_instances := db_instances ?a @ [([2], ?i)]\<rparr>"
  have "agent_reachable ?a" by (rule agent_reachable.step [OF agent_reachable.start], rule agent_step.team_added) (simp_all add: empty_agent_db_def)
  then have "agent_reachable ?b" by (rule agent_reachable.step, intro agent_step.instance_added) (simp_all add: empty_agent_db_def)
  then have "agent_reachable (?b\<lparr>db_instances := db_instances ?b @ [([3], ?i)]\<rparr>)"
    by (rule agent_reachable.step, intro agent_step.instance_added) (simp_all add: empty_agent_db_def)
  then show ?thesis by (simp add: ex_team_def empty_agent_db_def ex_instance_def)
qed

lemma ex_enqueued:
  "enqueue_agent_task_with_limits 1 (plain_task [4] [2]) 9 9 9 ex_team = Inr ex_one"
  "enqueue_agent_task_with_limits 1 (plain_task [5] [3]) 9 9 9 ex_one = Inr ex_two"
  "enqueue_agent_task_with_limits 1 (plain_task [6] [3]) 9 9 9 ex_two = Inr ex_queued"
  by code_simp+

lemma ex_claim: "claim_runnable_agent_task_with_owner 2 [1] [4] [7] None ex_queued
    = Inr (Some (ex_task 0 [2] TaskRunning 2 (Some 2)), ex_claimed)"
  by code_simp

lemma ex_register: "register_agent_task_wait_dependencies (plain_wait [5] [97]) ex_claimed = Inr (WaitCreated, ex_registered)"
  by code_simp

lemma ex_wait: "update_agent_task_state_inner (\<lambda>_. True) 3 to_waiting any_attempt ex_registered = Inr (True, ex_waiting)"
  by code_simp

lemma ex_cancel: "cancel_queued_agent_task (\<lambda>_. True) 4 [1] [5] [] ex_waiting = Inr (True, ex_over)"
  by code_simp

lemma ex_resume: "resume_satisfied_agent_tasks_matching 5 9 (\<lambda>_. True) (\<lambda>_. True) ex_over = Inr ([[4]], ex_resumed)"
  by code_simp

lemma ex_claim_again: "claim_runnable_agent_task_with_owner 6 [1] [4] [8] None ex_resumed
    = Inr (Some (ex_task 0 [2] TaskRunning 6 (Some 2)), ex_again)"
  by code_simp

lemma ex_register_again: "register_agent_task_wait_dependencies (plain_wait [6] [98]) ex_again = Inr (WaitReplaced, ex_second)"
  by code_simp

lemma ex_wait_again: "update_agent_task_state_inner (\<lambda>_. True) 7 to_waiting any_attempt ex_second = Inr (True, ex_second_wait)"
  by code_simp

lemma ex_reachable:
  "agent_reachable ex_queued" "agent_reachable ex_waiting" "agent_reachable ex_over" "agent_reachable ex_second_wait"
proof -
  note step = agent_reachable.step
  have wait: "upd_transition to_waiting \<noteq> TResume" by (simp add: to_waiting_def)
  have "agent_reachable ex_one" by (rule step [OF ex_team_reachable agent_step.enqueued [OF ex_enqueued(1)]])
  then have "agent_reachable ex_two" by (rule step [OF _ agent_step.enqueued [OF ex_enqueued(2)]])
  then show queued: "agent_reachable ex_queued" by (rule step [OF _ agent_step.enqueued [OF ex_enqueued(3)]])
  have "agent_reachable ex_registered"
    by (rule step [OF step [OF queued agent_step.claimed [OF ex_claim]] agent_step.registered [OF ex_register]])
  then show waiting: "agent_reachable ex_waiting" by (rule step [OF _ agent_step.updated [OF ex_wait wait]])
  then show over: "agent_reachable ex_over" by (rule step [OF _ agent_step.queued_cancelled [OF ex_cancel]])
  have "agent_reachable ex_again"
    by (rule step [OF step [OF over agent_step.resumed [OF ex_resume]] agent_step.claimed [OF ex_claim_again]])
  then have "agent_reachable ex_second" by (rule step [OF _ agent_step.registered [OF ex_register_again]])
  then show "agent_reachable ex_second_wait" by (rule step [OF _ agent_step.updated [OF ex_wait_again wait]])
qed

end
