(* ===== verification/Agent_Waits.thy ===== *)
theory Agent_Waits
  imports Agent_Example
begin

text \<open>
  What the invariant of the agent tables means for the operations: when a claim succeeds, that no set of
  tasks waits for itself, that the two places that decide whether a wait is over agree, what the
  cancellation of a subtree leaves, and why a task that waits for the second time cannot be cancelled.
\<close>

section \<open>The invariant\<close>

text \<open>C15: After any operations of the agent tables, no chain of waits leads back to its start; every task belongs
  to an instance of its team and to a parent of its team, and every attempt and dependency to existing tasks;
  a task runs exactly when one attempt of it runs, and a waiting task has a suspended attempt; no team runs
  more tasks than its limit; and at most one task of an instance is active, so that the unique indexes hold.
\<close>
theorem agent_tables_consistent:
  assumes "agent_reachable db"
  shows "acyclic (wait_graph db) \<and> refs_ok db \<and> attempts_agree db \<and> limits_kept db \<and> unique_ok db"
  using inv_reachable [OF assms] unfolding agent_inv_def structure_ok_def by blast

theorem agent_tables_consistent_witness:
  "acyclic (wait_graph ex_second_wait) \<and> refs_ok ex_second_wait \<and> attempts_agree ex_second_wait \<and> limits_kept ex_second_wait
    \<and> unique_ok ex_second_wait \<and> status_of ex_second_wait [4] = Some TaskWaiting"
proof -
  have "status_of ex_second_wait [4] = Some TaskWaiting" by code_simp
  with agent_tables_consistent [OF ex_reachable(4)] show ?thesis by blast
qed

section \<open>Waits\<close>

lemma reachable_ref: "\<lbrakk>agent_reachable db; d \<in> set (waits_of db i)\<rbrakk> \<Longrightarrow> \<exists>s. required_status db d = Some s"
proof -
  assume "agent_reachable db" "d \<in> set (waits_of db i)"
  then have "task_ref db (dep_task d) (dep_team d)"
    using refs_wait [OF inv_parts(2) [OF inv_reachable]] by (auto simp: waits_of_def)
  then show ?thesis by (auto simp: task_ref_def required_status_def)
qed

lemma waits_same_mode: "\<lbrakk>agent_reachable db; d \<in> set (waits_of db i); d' \<in> set (waits_of db i)\<rbrakk> \<Longrightarrow> dep_mode d = dep_mode d'"
proof -
  assume "agent_reachable db" and d: "d \<in> set (waits_of db i)" "d' \<in> set (waits_of db i)"
  then have uni: "waits_uniform db" using inv_parts(1) [OF inv_reachable] by (simp add: structure_ok_def)
  from d have "d \<in> set (db_dependencies db)" "d' \<in> set (db_dependencies db)" "dep_waiting d = dep_waiting d'"
    by (auto simp: waits_of_def)
  with uni show ?thesis unfolding waits_uniform_def by blast
qed

lemma length_filter_full: "length (filter P xs) = length xs \<longleftrightarrow> list_all P xs"
  by (induction xs) (auto, metis Suc_n_not_le_n length_filter_le)

lemma required_open_done: "required_status db d = Some s \<Longrightarrow> required_open db d \<longleftrightarrow> \<not> required_done db d"
  by (simp add: required_open_def required_done_def)

text \<open>C17: In every state that the operations reach, \<open>agent_task_dependencies_satisfied\<close>, which the scheduler asks,
  gives the same answer as the condition in the queries that claim, resume and suspend a task, although one
  counts the finished tasks and the others look for an unfinished one.
\<close>
theorem wait_conditions_agree:
  assumes "agent_reachable db"
  shows "agent_task_dependencies_satisfied now db i \<longleftrightarrow> waits_of db i = [] \<or> wait_over now db i"
proof -
  let ?ds = "waits_of db i"
  have stat: "\<exists>s. required_status db d = Some s" if "d \<in> set ?ds" for d using reachable_ref [OF assms that] .
  then have all: "filter (\<lambda>d. required_status db d \<noteq> None) ?ds = ?ds" by (force simp: filter_id_conv)
  have odone: "required_open db d \<longleftrightarrow> \<not> required_done db d" if "d \<in> set ?ds" for d
    using stat [OF that] required_open_done by blast
  have full: "length (filter (required_done db) ?ds) = length ?ds \<longleftrightarrow> \<not> list_ex (required_open db) ?ds"
    using odone by (simp add: length_filter_full list_ex_iff list_all_iff)
  have some: "0 < length (filter (required_done db) ?ds) \<longleftrightarrow> list_ex (required_done db) ?ds"
    by (auto simp: list_ex_iff filter_empty_conv)
  have mode: "list_ex (\<lambda>d. dep_mode d = WaitAny \<and> required_done db d) ?ds \<longleftrightarrow>
      \<not> list_ex (\<lambda>d. dep_mode d = WaitAll) ?ds \<and> list_ex (required_done db) ?ds"
  proof (cases "\<exists>d \<in> set ?ds. dep_mode d = WaitAll")
    case True
    then obtain d where "d \<in> set ?ds" "dep_mode d = WaitAll" by blast
    with waits_same_mode [OF assms this(1)] have "dep_mode e = WaitAll" if "e \<in> set ?ds" for e using that by metis
    with True show ?thesis by (auto simp: list_ex_iff)
  next
    case False
    then have "dep_mode e = WaitAny" if "e \<in> set ?ds" for e using that by (metis AgentTaskWaitMode.exhaust)
    with False show ?thesis by (auto simp: list_ex_iff)
  qed
  show ?thesis
    unfolding agent_task_dependencies_satisfied_def wait_over_def Let_def all full some mode by auto
qed

theorem wait_conditions_agree_witness:
  "\<not> agent_task_dependencies_satisfied 5 ex_waiting [4] \<and> agent_task_dependencies_satisfied 5 ex_over [4] \<and> wait_over 5 ex_over [4]"
proof -
  have "waits_of ex_waiting [4] \<noteq> []" "\<not> wait_over 5 ex_waiting [4]" "wait_over 5 ex_over [4]" by code_simp+
  with wait_conditions_agree [OF ex_reachable(2), of 5 "[4]"] wait_conditions_agree [OF ex_reachable(3), of 5 "[4]"]
  show ?thesis by blast
qed

lemma open_dependency:
  assumes "agent_reachable db" "waits_of db i \<noteq> []" "\<not> wait_over now db i"
  obtains d where "d \<in> set (waits_of db i)" "required_open db d"
proof -
  from assms(2) obtain d where d: "d \<in> set (waits_of db i)" by (meson last_in_set)
  from assms(3) have no: "dep_mode e = WaitAny \<Longrightarrow> \<not> required_done db e" if "e \<in> set (waits_of db i)" for e
    using that by (auto simp: wait_over_def Let_def list_ex_iff)
  show thesis
  proof (cases "dep_mode d")
    case WaitAll
    with d assms(3) that show ?thesis by (auto simp: wait_over_def Let_def list_ex_iff)
  next
    case WaitAny
    with no [OF d] reachable_ref [OF assms(1) d] required_open_done that [OF d] show ?thesis by blast
  qed
qed

text \<open>C16: Waits never deadlock among themselves: when a task waits for others and its wait is not over, the chain
  of waits leads to a task that is not finished and that is not itself waiting in vain, so that it runs, is
  queued, waits for nothing that was registered, or has a wait that is over.
\<close>
theorem wait_has_a_cause:
  assumes "agent_reachable db" "waits_of db i \<noteq> []" "\<not> wait_over now db i"
  shows "\<exists>k s. (i, k) \<in> (wait_graph db)\<^sup>+ \<and> status_of db k = Some s \<and> \<not> task_is_terminal s
    \<and> (s \<noteq> TaskWaiting \<or> waits_of db k = [] \<or> wait_over now db k)"
proof -
  have "acyclic (wait_graph db)" using inv_parts(1) [OF inv_reachable [OF assms(1)]] by (simp add: structure_ok_def)
  moreover have "finite (wait_graph db)" by (simp add: wait_graph_def)
  ultimately have "wf ((wait_graph db)\<inverse>)" by (simp add: finite_acyclic_wf_converse)
  then show ?thesis using assms(2,3)
  proof (induction i rule: wf_induct_rule)
    case (less i)
    obtain d where d: "d \<in> set (waits_of db i)" "required_open db d"
      using open_dependency [OF assms(1) less.prems] by blast
    then obtain s where s: "status_of db (dep_task d) = Some s" "\<not> task_is_terminal s"
      by (auto simp: required_open_def required_status_def status_of_def split: option.splits)
    have edge: "(i, dep_task d) \<in> wait_graph db" using d(1) by (auto simp: waits_of_def wait_graph_def)
    show ?case
    proof (cases "s \<noteq> TaskWaiting \<or> waits_of db (dep_task d) = [] \<or> wait_over now db (dep_task d)")
      case True
      with s edge show ?thesis by blast
    next
      case False
      with less.IH [of "dep_task d"] edge show ?thesis by (meson converse_iff trancl_into_trancl2)
    qed
  qed
qed

theorem wait_has_a_cause_witness:
  "\<exists>k s. ([4], k) \<in> (wait_graph ex_waiting)\<^sup>+ \<and> status_of ex_waiting k = Some s \<and> \<not> task_is_terminal s
    \<and> (s \<noteq> TaskWaiting \<or> waits_of ex_waiting k = [] \<or> wait_over 5 ex_waiting k)"
proof (rule wait_has_a_cause [OF ex_reachable(2)])
  show "waits_of ex_waiting [4] \<noteq> []" "\<not> wait_over 5 ex_waiting [4]" by code_simp+
qed

section \<open>Claims\<close>

lemma update_keyed_other: "i \<notin> fst ` set rows \<Longrightarrow> update_keyed (\<lambda>k _. k = i) f rows = rows"
  by (induction rows) (auto simp: update_keyed_def)

lemma next_sequence_fresh: "(i, next_attempt_sequence db i) \<notin> (\<lambda>a. (att_task a, att_sequence a)) ` set (db_attempts db)"
proof
  let ?ss = "map att_sequence (filter (\<lambda>a. att_task a = i) (db_attempts db))"
  assume "(i, next_attempt_sequence db i) \<in> (\<lambda>a. (att_task a, att_sequence a)) ` set (db_attempts db)"
  then have mem: "next_attempt_sequence db i \<in> set ?ss" by force
  then have "next_attempt_sequence db i \<le> Max (set ?ss)" by simp
  moreover have "?ss \<noteq> []" using mem by force
  then have "next_attempt_sequence db i = Max (set ?ss) + 1" by (simp add: next_attempt_sequence_def Let_def)
  ultimately show False by simp
qed

lemma active_after_claim:
  fixes rows :: "('k \<times> AgentTaskRow) list"
  assumes keys: "distinct (map fst rows)" and r: "map_of rows i = Some r" "\<not> task_active r"
    and f: "at_owner (f r) = at_owner r" "task_active (f r)"
    and unique: "distinct (map at_owner (filter task_active (map snd rows)))"
  shows "distinct (map at_owner (filter task_active (map snd (update_keyed (\<lambda>k _. k = i) f rows))))
    \<longleftrightarrow> \<not> (\<exists>e \<in> snd ` set rows. at_owner e = at_owner r \<and> task_active e)"
proof -
  let ?own = "\<lambda>zs :: ('k \<times> AgentTaskRow) list. map at_owner (filter task_active (map snd zs))"
  from r(1) obtain xs ys where rows: "rows = xs @ (i, r) # ys" by (meson map_of_SomeD split_list)
  with keys have no: "i \<notin> fst ` set xs" "i \<notin> fst ` set ys" by auto
  have "update_keyed (\<lambda>k _. k = i) f rows = xs @ (i, f r) # ys"
    using update_keyed_other [OF no(1)] update_keyed_other [OF no(2)] by (simp add: rows update_keyed_def)
  then have shape: "map at_owner (filter task_active (map snd (update_keyed (\<lambda>k _. k = i) f rows)))
      = ?own xs @ at_owner r # ?own ys" using f by simp
  have "at_owner r \<in> set (?own zs) \<longleftrightarrow> (\<exists>e \<in> snd ` set zs. at_owner e = at_owner r \<and> task_active e)" for zs :: "('k \<times> AgentTaskRow) list"
    by (induction zs) auto
  with r(2) have "at_owner r \<in> set (?own xs) \<union> set (?own ys) \<longleftrightarrow> (\<exists>e \<in> snd ` set rows. at_owner e = at_owner r \<and> task_active e)"
    by (simp add: rows bex_Un)
  moreover have "distinct (?own xs @ ?own ys)" using unique r(2) by (simp add: rows)
  ultimately show ?thesis unfolding shape by auto
qed

lemma unique_after_claim:
  assumes inv: "agent_inv db" and r: "map_of (db_tasks db) i = Some r" "at_status r = TaskQueued"
    and fresh: "attempt \<notin> att_id ` set (db_attempts db)"
  shows "unique_ok (claim_task now i r (new_attempt now team i attempt incarnation db) db)
    \<longleftrightarrow> \<not> (\<exists>e \<in> snd ` set (db_tasks db). at_owner e = at_owner r \<and> task_active e)" (is "unique_ok ?db \<longleftrightarrow> ?free")
proof -
  let ?a = "new_attempt now team i attempt incarnation db"
  let ?f = "\<lambda>t. t\<lparr>at_status := TaskRunning, at_started := (case at_started t of None \<Rightarrow> Some now | Some s \<Rightarrow> Some s),
            at_completed := None, at_updated := now\<rparr>"
  have tabs: "db_tasks ?db = update_keyed (\<lambda>k _. k = i) ?f (db_tasks db)" "db_attempts ?db = db_attempts db @ [?a]"
    "db_dependencies ?db = db_dependencies db"
    by (simp_all add: claim_task_def insert_attempt_def update_task_def)
  note unique = inv_parts(5) [OF inv, unfolded unique_ok_def]
  have "status_of db i = Some TaskQueued" using r by (simp add: status_of_def)
  with attempts_agreeD(1) [OF inv_parts(3) [OF inv] this] have idle: "running_attempts db i = 0" by simp
  have "one_running_attempt_per_task ?db"
    using unique idle unfolding one_running_attempt_per_task_def tabs
    by (auto simp: new_attempt_def running_attempts_def count_rows_0)
  moreover have "keys_unique ?db"
  proof -
    have "map (\<lambda>(_, r). (at_owner r, at_sequence r)) (db_tasks ?db) = map (\<lambda>(_, r). (at_owner r, at_sequence r)) (db_tasks db)"
      unfolding tabs by (rule map_update_keyed) simp
    moreover have "distinct (map (\<lambda>a. (att_task a, att_sequence a)) (db_attempts ?db))"
      using unique next_sequence_fresh [of i db] unfolding keys_unique_def tabs by (simp add: new_attempt_def)
    moreover have "distinct (map att_id (db_attempts ?db))" using unique fresh unfolding keys_unique_def tabs
      by (simp add: new_attempt_def)
    ultimately show ?thesis using unique unfolding keys_unique_def by (simp add: tabs(1,3))
  qed
  moreover have "one_active_per_instance ?db \<longleftrightarrow> ?free" unfolding one_active_per_instance_def tabs(1)
    by (rule active_after_claim [OF inv_parts(6) [OF inv] r(1)])
      (use r(2) unique in \<open>auto simp: task_active_def one_active_per_instance_def\<close>)
  ultimately show ?thesis by (simp add: unique_ok_def)
qed

text \<open>C18: A claim of a task that can run, with a new attempt and a usable owner, succeeds exactly when no task of
  the same instance runs or waits, and then it starts the task and records one attempt with the next number.
  Otherwise the database refuses the transaction, although the query has offered the task: that is the case
  of an earlier task that was retried on an instance that is drained while a later one is active.
\<close>
theorem claim_of_runnable:
  assumes "agent_reachable db" "map_of (db_tasks db) i = Some r" "runnable now db i r"
    "attempt \<notin> att_id ` set (db_attempts db)" "\<not> blank_owner incarnation"
  shows "claim_runnable_agent_task_with_owner now (at_team r) i attempt incarnation db =
    (if \<exists>e \<in> snd ` set (db_tasks db). at_owner e = at_owner r \<and> task_active e then Inl SqliteFailure
     else Inr (Some (r\<lparr>at_status := TaskRunning, at_started := (case at_started r of None \<Rightarrow> Some now | Some s \<Rightarrow> Some s),
                 at_completed := None, at_updated := now\<rparr>),
               claim_task now i r (new_attempt now (at_team r) i attempt incarnation db) db))"
proof -
  let ?db = "claim_task now i r (new_attempt now (at_team r) i attempt incarnation db) db"
  from assms(3) have "at_status r = TaskQueued" by (auto simp: runnable_def split: option.splits)
  note unique = unique_after_claim [OF inv_reachable [OF assms(1)] assms(2) this assms(4)]
  have "check_constraints ?db = (if unique_ok ?db then Inr ?db else Inl SqliteFailure)"
    by (auto simp: check_constraints_def unique_ok_def)
  moreover have "map_of (db_tasks ?db) i = Some (r\<lparr>at_status := TaskRunning,
      at_started := (case at_started r of None \<Rightarrow> Some now | Some s \<Rightarrow> Some s), at_completed := None, at_updated := now\<rparr>)"
    using assms(2) by (simp add: claim_task_def insert_attempt_def task_of_update)
  ultimately show ?thesis
    using assms(2,3,5) unfolding claim_runnable_agent_task_with_owner_def unique by (simp del: bex_simps)
qed

theorem claim_of_runnable_witness:
  "\<exists>x db'. claim_runnable_agent_task_with_owner 2 [1] [4] [7] None ex_queued = Inr (Some x, db') \<and> at_status x = TaskRunning"
proof -
  let ?r = "ex_task 0 [2] TaskQueued 1 None"
  have row: "map_of (db_tasks ex_queued) [4] = Some ?r" "at_team ?r = [1]"
    and run: "runnable 2 ex_queued [4] ?r" "[7] \<notin> att_id ` set (db_attempts ex_queued)" "\<not> blank_owner None"
    and free: "\<not> (\<exists>e \<in> snd ` set (db_tasks ex_queued). at_owner e = at_owner ?r \<and> task_active e)"
    by code_simp+
  from claim_of_runnable [OF ex_reachable(1) row(1) run, unfolded row(2) if_not_P [OF free]] show ?thesis by simp
qed

end
