(* ===== verification/Agent_Cancellation.thy ===== *)
theory Agent_Cancellation
  imports Agent_Waits
begin

text \<open>
  The cancellation of a task with all tasks below it: what it leaves when it succeeds, and the tasks for
  which it never does. A task that was resumed keeps its old attempt suspended beside the new one, and
  cancellation insists on one suspended attempt.
\<close>

section \<open>The rows of a subtree\<close>

lemma set_parent_edges: "(k, p) \<in> set (parent_edges db team) \<longleftrightarrow> (\<exists>r. (k, r) \<in> set (db_tasks db) \<and> at_team r = team \<and> at_parent r = Some p)"
  by (force simp: parent_edges_def List.map_filter_def split: if_splits)

lemma set_child_edges: "set (child_edges db team) = (set (parent_edges db team))\<inverse>"
  by (auto simp: child_edges_def)

lemma subtree_ref:
  assumes "distinct (map fst (db_tasks db))" "k \<in> set (subtree_of db team root)"
  shows "task_ref db k team"
proof -
  from assms(2) have root: "task_ref db root team" and "(root, k) \<in> (set (child_edges db team))\<^sup>*"
    by (auto simp: subtree_of_def set_closure task_ref_def split: if_splits)
  from this(2) show ?thesis
  proof (induction rule: rtrancl_induct)
    case (step y z)
    then obtain r where "(z, r) \<in> set (db_tasks db)" "at_team r = team" by (auto simp: set_child_edges set_parent_edges)
    with assms(1) show ?case by (simp add: task_ref_def)
  qed (rule root)
qed

lemma subtree_root: "k \<in> set (subtree_of db team root) \<Longrightarrow> root \<in> set (subtree_of db team root)"
  by (auto simp: subtree_of_def set_closure split: if_splits)

lemma set_subtree_rows:
  assumes "distinct (map fst (db_tasks db))"
  shows "(k, r) \<in> set (subtree_rows db team root) \<longleftrightarrow> k \<in> set (subtree_of db team root) \<and> map_of (db_tasks db) k = Some r"
proof -
  have "(k, r) \<in> set (db_tasks db) \<longleftrightarrow> map_of (db_tasks db) k = Some r" using assms by simp
  moreover have "at_team r = team" if "k \<in> set (subtree_of db team root)" "map_of (db_tasks db) k = Some r"
    using subtree_ref [OF assms that(1)] that(2) by (simp add: task_ref_def)
  ultimately show ?thesis by (auto simp: subtree_rows_def Let_def)
qed

lemma distinct_subtree_rows: "distinct (map fst (db_tasks db)) \<Longrightarrow> distinct (map fst (subtree_rows db team root))"
  using distinct_selected [of "db_tasks db" "length (db_tasks db)" "\<lambda>(k, r). (at_created r, k)"
      "\<lambda>(k, r). k \<in> set (subtree_of db team root) \<and> at_team r = team"]
  by (simp add: subtree_rows_def Let_def split_def)

section \<open>What cancellation leaves\<close>

lemma parent_edges_update: "(\<And>r. at_team (f r) = at_team r \<and> at_parent (f r) = at_parent r)
    \<Longrightarrow> parent_edges (update_task i f db) team = parent_edges db team"
proof -
  assume f: "\<And>r. at_team (f r) = at_team r \<and> at_parent (f r) = at_parent r"
  have "List.map_filter (\<lambda>(k, r). if at_team r = team then map_option (\<lambda>p. (k, p)) (at_parent r) else None) (update_keyed (\<lambda>k _. k = i) f rows)
      = List.map_filter (\<lambda>(k, r). if at_team r = team then map_option (\<lambda>p. (k, p)) (at_parent r) else None) rows" for rows
  proof (induction rows)
    case (Cons x rows)
    obtain k r where x: "x = (k, r)" by (cases x)
    have "at_team (if k = i then f r else r) = at_team r" "at_parent (if k = i then f r else r) = at_parent r" by (simp_all add: f)
    with Cons show ?case by (simp add: x update_keyed_def List.map_filter_simps split: option.split)
  qed (simp add: update_keyed_def)
  then show ?thesis by (simp add: parent_edges_def update_task_def)
qed

lemma cancel_task_keeps:
  assumes "cancel_task now team error_json reason i r db = Inr db'"
  shows "db_dependencies db' = filter (\<lambda>d. dep_waiting d \<noteq> i) (db_dependencies db)"
    and "db_cancellations db' = db_cancellations db"
    and "parent_edges db' tm = parent_edges db tm"
proof -
  let ?db = "update_task i (\<lambda>t. t\<lparr>at_status := TaskCancelled, at_error := Some error_json, at_completed := Some now, at_updated := now\<rparr>) db"
  from assms show "db_dependencies db' = filter (\<lambda>d. dep_waiting d \<noteq> i) (db_dependencies db)"
    by (auto simp: cancel_task_def Let_def split: if_splits)
  from assms show "db_cancellations db' = db_cancellations db"
    by (auto simp: cancel_task_def Let_def move_instance_def set_attempts_def split: if_splits)
  have "db_tasks db' = db_tasks ?db" using assms by (auto simp: cancel_task_def Let_def split: if_splits)
  then have "parent_edges db' tm = parent_edges ?db tm" by (simp only: parent_edges_def)
  also have "\<dots> = parent_edges db tm" by (rule parent_edges_update) simp
  finally show "parent_edges db' tm = parent_edges db tm" .
qed

lemma cancel_tasks_keeps:
  "cancel_tasks now team error_json reason rows db = Inr db' \<Longrightarrow>
    status_of db' k = (if k \<in> fst ` set rows then map_option (\<lambda>_. TaskCancelled) (status_of db k) else status_of db k)
    \<and> db_dependencies db' = filter (\<lambda>d. dep_waiting d \<notin> fst ` set rows) (db_dependencies db)
    \<and> db_cancellations db' = db_cancellations db \<and> parent_edges db' tm = parent_edges db tm"
proof (induction rows arbitrary: db)
  case (Cons x rows)
  obtain i r where x: "x = (i, r)" by (cases x)
  with Cons.prems obtain db2 where one: "cancel_task now team error_json reason i r db = Inr db2"
    and "cancel_tasks now team error_json reason rows db2 = Inr db'" by (auto split: sum.splits)
  note IH = Cons.IH [OF this(2)]
  have "status_of db' k = (if k \<in> fst ` set (x # rows) then map_option (\<lambda>_. TaskCancelled) (status_of db k) else status_of db k)"
    using IH cancel_task_effect(1) [OF one, of k] by (cases "status_of db k") (auto simp: x)
  moreover have "db_dependencies db' = filter (\<lambda>d. dep_waiting d \<notin> fst ` set (x # rows)) (db_dependencies db)"
    using IH cancel_task_keeps(1) [OF one] by (simp add: x)
  ultimately show ?case using IH cancel_task_keeps(2,3) [OF one] by simp
qed simp

lemma parent_refused:
  assumes "(team, root) \<in> set (db_cancellations db)" "(p, root) \<in> (set (parent_edges db team))\<^sup>*"
  shows "\<exists>e. check_parent db team p = Inl e"
proof -
  have "root \<in> set (ancestors_of db team p)" using assms(2) by (auto simp: ancestors_of_def set_closure)
  then show ?thesis using assms(1) by (auto simp: check_parent_def Let_def list_ex_iff split: sum.split)
qed

text \<open>C22: When the cancellation of a subtree succeeds, exactly its queued and waiting tasks are cancelled, and none
  of them waits for another one any more; every other task of the database keeps its state. The running tasks
  of the subtree are reported, and from then on no task of the subtree is accepted as the parent of a new one.
\<close>
theorem subtree_cancellation:
  assumes "agent_reachable db" "cancel_agent_task_subtree valid_json now team root error_json reason db = Inr (c, db')"
  shows "status_of db' k = (if k \<in> set (subtree_of db team root) \<and> status_of db k \<in> {Some TaskQueued, Some TaskWaiting}
      then Some TaskCancelled else status_of db k)
    \<and> set (running_task_ids c) = {i \<in> set (subtree_of db team root). status_of db i = Some TaskRunning}
    \<and> (k \<in> set (cancelled_task_ids c) \<longrightarrow> waits_of db' k = [])
    \<and> (k \<in> set (subtree_of db team root) \<longrightarrow> (\<exists>e. check_parent db' team k = Inl e))"
proof -
  let ?rows = "subtree_rows db team root" and ?ids = "set (subtree_of db team root)"
  let ?sel = "filter (\<lambda>(_, r). at_status r = TaskQueued \<or> at_status r = TaskWaiting) ?rows"
  let ?db1 = "if ?rows = [] then db else request_cancellation team root db"
  note keys = inv_parts(6) [OF inv_reachable [OF assms(1)]]
  from assms(2) have cancel: "cancel_tasks now team error_json reason ?sel ?db1 = Inr db'"
    and c: "running_task_ids c = map fst (filter (\<lambda>(_, r). at_status r = TaskRunning) ?rows)" "cancelled_task_ids c = map fst ?sel"
    by (auto simp: cancel_agent_task_subtree_def Let_def map_sum_Inr dest!: check_unique split: if_splits sum.splits)
  note keeps = cancel_tasks_keeps [OF cancel, of k team]
  have same: "status_of ?db1 k = status_of db k" "parent_edges ?db1 team = parent_edges db team"
    by (simp_all add: status_of_def parent_edges_def request_cancellation_def)
  have row: "k \<in> fst ` set (filter P ?rows) \<longleftrightarrow> k \<in> ?ids \<and> (\<exists>r. map_of (db_tasks db) k = Some r \<and> P (k, r))" for P k
    using set_subtree_rows [OF keys, of k _ team root] by (force simp: image_iff)
  have "status_of db' k = (if k \<in> ?ids \<and> status_of db k \<in> {Some TaskQueued, Some TaskWaiting} then Some TaskCancelled else status_of db k)"
    using keeps unfolding row same by (auto simp: status_of_def)
  moreover have "set (running_task_ids c) = {i \<in> ?ids. status_of db i = Some TaskRunning}"
  proof (rule set_eqI)
    show "i \<in> set (running_task_ids c) \<longleftrightarrow> i \<in> {i \<in> ?ids. status_of db i = Some TaskRunning}" for i
      unfolding c set_map row by (auto simp: status_of_def)
  qed
  moreover have "waits_of db' k = []" if "k \<in> set (cancelled_task_ids c)"
  proof -
    from keeps have "db_dependencies db' = filter (\<lambda>d. dep_waiting d \<notin> fst ` set ?sel) (db_dependencies ?db1)" by blast
    moreover have "k \<in> fst ` set ?sel" using that unfolding c set_map .
    ultimately have "dep_waiting d \<noteq> k" if "d \<in> set (db_dependencies db')" for d
      using that by (simp only: set_filter mem_Collect_eq) metis
    then show ?thesis by (auto simp: waits_of_def filter_empty_conv)
  qed
  moreover have "\<exists>e. check_parent db' team k = Inl e" if k: "k \<in> ?ids"
  proof (rule parent_refused)
    from subtree_ref [OF keys subtree_root [OF k]] obtain r where "map_of (db_tasks db) root = Some r" by (auto simp: task_ref_def)
    with set_subtree_rows [OF keys] subtree_root [OF k] have "(root, r) \<in> set ?rows" by blast
    then have "?db1 = request_cancellation team root db" by (cases ?rows) auto
    with keeps show "(team, root) \<in> set (db_cancellations db')" by (simp add: request_cancellation_def)
    from k have "(root, k) \<in> (set (child_edges db team))\<^sup>*" by (auto simp: subtree_of_def set_closure split: if_splits)
    then show "(k, root) \<in> (set (parent_edges db' team))\<^sup>*"
      using keeps unfolding set_child_edges rtrancl_converse same by simp
  qed
  ultimately show ?thesis by blast
qed

theorem subtree_cancellation_witness:
  "\<exists>c db'. cancel_agent_task_subtree (\<lambda>_. True) 4 [1] [4] [] None ex_waiting = Inr (c, db')
    \<and> status_of db' [4] = Some TaskCancelled \<and> cancelled_task_ids c = [[4]] \<and> waits_of db' [4] = []"
proof -
  let ?z = "cancel_agent_task_subtree (\<lambda>_. True) 4 [1] [4] [] None ex_waiting"
  have ids: "(case ?z of Inr (c, _) \<Rightarrow> cancelled_task_ids c = [[4]] | Inl _ \<Rightarrow> False)" by code_simp
  then obtain c db' where z: "?z = Inr (c, db')" "cancelled_task_ids c = [[4]]" by (auto split: sum.splits)
  have "[4] \<in> set (subtree_of ex_waiting [1] [4])" "status_of ex_waiting [4] = Some TaskWaiting" by code_simp+
  with subtree_cancellation [OF ex_reachable(2) z(1), of "[4]"] z show ?thesis by simp
qed

section \<open>The second wait of a task\<close>

definition suspended_count :: "AgentDb \<Rightarrow> rstr \<Rightarrow> nat" where
  "suspended_count db i = count_rows (\<lambda>a. att_task a = i \<and> att_status a = AttSuspended) (db_attempts db)"

lemma suspended_of_team:
  assumes "refs_ok db" "map_of (db_tasks db) i = Some r" "at_team r = team"
  shows "count_rows (suspended_attempts team i) (db_attempts db) = suspended_count db i"
  unfolding suspended_count_def
proof (rule count_rows_cong)
  fix a assume "a \<in> set (db_attempts db)"
  from refs_attempt [OF assms(1) this] assms(2,3)
  show "suspended_attempts team i a \<longleftrightarrow> att_task a = i \<and> att_status a = AttSuspended"
    by (auto simp: suspended_attempts_def task_ref_def)
qed

lemma cancel_tasks_fails:
  assumes "(i, r) \<in> set rows" "at_status r = TaskWaiting" "distinct (map fst rows)"
    "count_rows (suspended_attempts team i) (db_attempts db) \<noteq> 1"
  shows "\<exists>msg. cancel_tasks now team error_json reason rows db = Inl (InvalidAgentRuntimeData msg)"
  using assms
proof (induction rows arbitrary: db)
  case (Cons x rows)
  obtain j q where x: "x = (j, q)" by (cases x)
  show ?case
  proof (cases "cancel_task now team error_json reason j q db")
    case (Inl e)
    then have "\<exists>msg. e = InvalidAgentRuntimeData msg" by (auto simp: cancel_task_def Let_def split: if_splits)
    with Inl show ?thesis by (auto simp: x)
  next
    case (Inr db2)
    have other: "j \<noteq> i"
    proof
      assume "j = i"
      with Cons.prems(1,3) x have "q = r" by force
      with \<open>j = i\<close> Cons.prems(2,4) Inr show False by (simp add: cancel_task_def Let_def)
    qed
    have "count_rows (suspended_attempts team i) (db_attempts db2) = count_rows (suspended_attempts team i) (db_attempts db)"
      using cancel_task_effect(2) [OF Inr]
    proof
      assume "db_attempts db2 = update_rows (suspended_attempts team j)
          (\<lambda>a. a\<lparr>att_status := AttCancelled, att_completed := Some now, att_reason := reason\<rparr>) (db_attempts db)"
      then show ?thesis using other
        by (simp only: count_rows_update) (rule count_rows_cong, auto simp: suspended_attempts_def)
    qed simp
    with Cons.IH [of db2] Cons.prems Inr other show ?thesis by (auto simp: x)
  qed
qed simp

lemma suspended_after_wait:
  assumes "update_agent_task_state_inner valid_json now u e db = Inr (True, db')" "upd_transition u = TWait"
  shows "suspended_count db' (upd_task u) = suspended_count db (upd_task u) + 1 \<and> status_of db' (upd_task u) = Some TaskWaiting"
proof -
  let ?p = "attempt_matches u e" and ?q = "\<lambda>a. att_task a = upd_task u \<and> att_status a = AttSuspended"
  have "\<exists>r target. map_of (db_tasks db) (upd_task u) = Some r \<and> task_target (upd_expected u) TWait = Some target
      \<and> count_rows ?p (db_attempts db) = 1 \<and> db' = apply_update now u target e (at_owner r) db"
    using assms by (auto simp: update_agent_task_state_inner_def task_apply_def map_sum_Inr dest!: check_unique
        split: if_splits option.splits sum.splits)
  then obtain r target where r: "map_of (db_tasks db) (upd_task u) = Some r"
    and target: "task_target (upd_expected u) TWait = Some target" and one: "count_rows ?p (db_attempts db) = 1"
    and db': "db' = apply_update now u target e (at_owner r) db" by blast
  from target have run: "upd_expected u = TaskRunning" "target = TaskWaiting" by (cases "upd_expected u"; simp)+
  have "suspended_count db' (upd_task u) = count_rows (\<lambda>a. ?q a \<or> ?p a) (db_attempts db)"
    unfolding suspended_count_def db' apply_update_attempts
    by (simp add: assms(2) count_rows_update) (rule count_rows_cong, auto simp: attempt_matches_def run)
  also have "\<dots> = suspended_count db (upd_task u) + count_rows ?p (db_attempts db)"
    unfolding suspended_count_def by (rule count_rows_disjoint) (auto simp: attempt_matches_def run)
  finally show ?thesis using r one by (simp add: db' status_after_update run)
qed

lemma suspended_count_frame: "db_attempts db' = db_attempts db \<Longrightarrow> suspended_count db' i = suspended_count db i"
  by (simp add: suspended_count_def)

lemma attempts_fold: "(\<And>x db. db_attempts (f x db) = db_attempts db) \<Longrightarrow> db_attempts (fold f xs db) = db_attempts db"
  by (induction xs arbitrary: db) auto

lemma suspended_after_resume:
  "resume_satisfied_agent_tasks_matching now limit selected requeue db = Inr (ids, db') \<Longrightarrow> suspended_count db' i = suspended_count db i"
  by (drule resume_effect) (auto simp: resume_task_def intro!: suspended_count_frame attempts_fold split: prod.split)

lemma suspended_after_claim:
  "claim_runnable_agent_task_with_owner now team j attempt incarnation db = Inr (x, db') \<Longrightarrow> suspended_count db' i = suspended_count db i"
  by (drule claim_effect) (auto simp: suspended_count_def claim_task_def insert_attempt_def new_attempt_def)

lemma suspended_after_register:
  "register_agent_task_wait_dependencies q db = Inr (outcome, db') \<Longrightarrow> suspended_count db' i = suspended_count db i"
  by (drule register_effect) (auto dest!: register_frame intro!: suspended_count_frame)

text \<open>C23: A task that waits, is resumed, is claimed again, registers another wait and suspends has two suspended
  attempts, since the resumption leaves the old one as it was. From then on no cancellation of a subtree that
  contains the task succeeds, and neither does a cancellation of the task alone that names no attempt.
\<close>
theorem second_wait_cannot_be_cancelled:
  assumes "agent_reachable db" "status_of db i = Some TaskWaiting"
    and "resume_satisfied_agent_tasks_matching now1 limit selected requeue db = Inr (ids, db1)"
    and "claim_runnable_agent_task_with_owner now2 team i attempt incarnation db1 = Inr (Some r, db2)"
    and "register_agent_task_wait_dependencies q db2 = Inr (outcome, db3)"
    and "update_agent_task_state_inner valid_json now3 u e db3 = Inr (True, db4)" "upd_task u = i" "upd_transition u = TWait"
    and "valid_json error_json" "i \<in> set (subtree_of db4 tm root)"
  shows "(\<exists>msg. cancel_agent_task_subtree valid_json now4 tm root error_json reason db4 = Inl (InvalidAgentRuntimeData msg))
    \<and> (\<exists>msg. update_agent_task_state_inner valid_json now4 \<lparr>upd_team = tm, upd_task = i, upd_expected = TaskWaiting,
          upd_transition = TCancel, upd_result = None, upd_error = Some error_json, upd_reason = reason\<rparr>
        \<lparr>exp_attempt = None, exp_owner = None, exp_lease = None\<rparr> db4 = Inl (InvalidAgentRuntimeData msg))"
proof -
  have "agent_reachable db1" by (rule agent_reachable.step [OF assms(1)]) (rule agent_step.resumed [OF assms(3)])
  then have "agent_reachable db2" by (rule agent_reachable.step) (rule agent_step.claimed [OF assms(4)])
  then have "agent_reachable db3" by (rule agent_reachable.step) (rule agent_step.registered [OF assms(5)])
  then have "agent_reachable db4" by (rule agent_reachable.step) (rule agent_step.updated [OF assms(6)], simp add: assms(8))
  note refs4 = inv_parts(2) [OF inv_reachable [OF this]] and keys4 = inv_parts(6) [OF inv_reachable [OF this]]
  have "has_suspended db i" using attempts_agreeD(2) [OF inv_parts(3) [OF inv_reachable [OF assms(1)]] assms(2)] by simp
  then have "suspended_count db i \<noteq> 0" by (auto simp: suspended_count_def count_rows_0 has_suspended_def)
  moreover note wait = suspended_after_wait [OF assms(6,8), unfolded assms(7)]
  ultimately have two: "suspended_count db4 i \<noteq> 1"
    by (simp add: suspended_after_register [OF assms(5)] suspended_after_claim [OF assms(4)] suspended_after_resume [OF assms(3)])
  from subtree_ref [OF keys4 assms(10)] wait obtain x where x: "map_of (db_tasks db4) i = Some x" "at_team x = tm" "at_status x = TaskWaiting"
    by (auto simp: task_ref_def status_of_def)
  have count: "count_rows (suspended_attempts tm i) (db_attempts db4) \<noteq> 1" using two suspended_of_team [OF refs4 x(1,2)] by simp
  let ?rows = "filter (\<lambda>(_, r). at_status r = TaskQueued \<or> at_status r = TaskWaiting) (subtree_rows db4 tm root)"
  have mem: "(i, x) \<in> set ?rows" using set_subtree_rows [OF keys4] x assms(10) by simp
  have dist: "distinct (map fst ?rows)" by (rule distinct_map_filter) (rule distinct_subtree_rows [OF keys4])
  have "count_rows (suspended_attempts tm i) (db_attempts (request_cancellation tm root db4)) \<noteq> 1"
    using count by (simp add: request_cancellation_def)
  from cancel_tasks_fails [OF mem x(3) dist this, of now4 error_json reason] obtain msg
    where "cancel_tasks now4 tm error_json reason ?rows (request_cancellation tm root db4) = Inl (InvalidAgentRuntimeData msg)" by blast
  moreover from mem have "subtree_rows db4 tm root \<noteq> []" by auto
  ultimately have "\<exists>msg. cancel_agent_task_subtree valid_json now4 tm root error_json reason db4 = Inl (InvalidAgentRuntimeData msg)"
    using assms(9) by (simp add: cancel_agent_task_subtree_def Let_def)
  moreover have "attempt_matches \<lparr>upd_team = tm, upd_task = i, upd_expected = TaskWaiting,
      upd_transition = TCancel, upd_result = None, upd_error = Some error_json, upd_reason = reason\<rparr>
      \<lparr>exp_attempt = None, exp_owner = None, exp_lease = None\<rparr> = suspended_attempts tm i"
    by (rule ext) (simp add: attempt_matches_def suspended_attempts_def)
  moreover from this count have "count_rows (attempt_matches \<lparr>upd_team = tm, upd_task = i, upd_expected = TaskWaiting,
      upd_transition = TCancel, upd_result = None, upd_error = Some error_json, upd_reason = reason\<rparr>
      \<lparr>exp_attempt = None, exp_owner = None, exp_lease = None\<rparr>) (db_attempts db4) \<noteq> 1"
    by simp
  ultimately show ?thesis using x assms(9)
    by (simp add: update_agent_task_state_inner_def task_apply_def)
qed

theorem second_wait_cannot_be_cancelled_witness:
  "\<exists>msg. cancel_agent_task_subtree (\<lambda>_. True) 8 [1] [4] [] None ex_second_wait = Inl (InvalidAgentRuntimeData msg)"
proof -
  have "status_of ex_over [4] = Some TaskWaiting" "upd_task to_waiting = [4]" "upd_transition to_waiting = TWait"
    "[4] \<in> set (subtree_of ex_second_wait [1] [4])" by code_simp+
  from second_wait_cannot_be_cancelled [OF ex_reachable(3) this(1) ex_resume ex_claim_again ex_register_again ex_wait_again
      this(2,3) TrueI this(4)] show ?thesis by blast
qed

end
