(* ===== verification/Agent_Scheduler.thy ===== *)
theory Agent_Scheduler
  imports Agent_Cancellation
begin

text \<open>
  A scan of the scheduler of agents (\<open>app/runtime/agent_scheduler.rs\<close>): for each local workspace it
  recovers and resumes waiting tasks, claims the tasks that can run, one after the other, and starts their
  runs while there are permits. Every call of something outside of the agent tables (opening a database,
  appending an event, synchronising the runs of scheduled tasks) has a number and succeeds or fails; the
  synchronisation of plans (\<open>app/plan_runtime.rs\<close>) is such a call too, not modelled here: it is any function
  of the tables. No run ends and nothing else writes during a scan. When a
  claimed task of a coordinator has to be given up, its message in the chat is closed in the same
  transaction; that is left out.
\<close>

section \<open>The state of a scan\<close>

datatype ScanError = OutsideFailed nat | StoreFailed AgentStoreError

datatype RoundEnd = NoPermit | NoTask | Again | Broken ScanError

record Outside =
  call_ok :: "nat \<Rightarrow> bool"
  clock :: "nat \<Rightarrow> int"
  new_name :: "nat \<Rightarrow> rstr"
  plan_sync :: "nat \<Rightarrow> AgentDb \<Rightarrow> bool \<times> AgentDb"
  chat_requeued :: "nat \<Rightarrow> rstr \<Rightarrow> bool"
  failure_json :: "nat \<Rightarrow> rstr"

record Scan =
  sc_tick :: nat
  sc_permits :: nat
  sc_runs :: "(rstr \<times> rstr \<times> rstr) list"
  sc_deadline :: "int option"
  sc_dbs :: "rstr \<Rightarrow> AgentDb"

definition AGENT_SCHEDULER_SCAN_LIMIT :: int where "AGENT_SCHEDULER_SCAN_LIMIT = 64"

definition AGENT_GLOBAL_MAX_CONCURRENT_RUNS :: nat where "AGENT_GLOBAL_MAX_CONCURRENT_RUNS = 10"

definition RESTART_INTERRUPTION_REASON :: rstr where
  "RESTART_INTERRUPTION_REASON = lit ''backend restarted while Agent attempt was active''"

section \<open>Calls\<close>

definition next_tick :: "Scan \<Rightarrow> Scan" where "next_tick st = st\<lparr>sc_tick := sc_tick st + 1\<rparr>"

definition outside :: "Outside \<Rightarrow> Scan \<Rightarrow> (ScanError + unit) \<times> Scan" where
  "outside out st = ((if call_ok out (sc_tick st) then Inr () else Inl (OutsideFailed (sc_tick st))), next_tick st)"

fun outside_all :: "Outside \<Rightarrow> nat \<Rightarrow> Scan \<Rightarrow> (ScanError + unit) \<times> Scan" where
  "outside_all out 0 st = (Inr (), st)"
| "outside_all out (Suc n) st =
     (case outside out st of (Inl e, st') \<Rightarrow> (Inl e, st') | (Inr _, st') \<Rightarrow> outside_all out n st')"

text \<open>A transaction of the agent tables of a workspace, with the time at which it starts.\<close>

definition transact :: "Outside \<Rightarrow> rstr \<Rightarrow> (int \<Rightarrow> AgentDb \<Rightarrow> AgentStoreError + 'a \<times> AgentDb) \<Rightarrow> Scan \<Rightarrow> (ScanError + 'a) \<times> Scan" where
  "transact out w f st =
     (case f (clock out (sc_tick st)) (sc_dbs st w) of
        Inl e \<Rightarrow> (Inl (StoreFailed e), next_tick st)
      | Inr (x, db) \<Rightarrow> (Inr x, (next_tick st)\<lparr>sc_dbs := (sc_dbs st)(w := db)\<rparr>))"

definition sync_plans :: "Outside \<Rightarrow> rstr \<Rightarrow> Scan \<Rightarrow> (ScanError + unit) \<times> Scan" where
  "sync_plans out w st =
     (case plan_sync out (sc_tick st) (sc_dbs st w) of (ok, db) \<Rightarrow>
        ((if ok then Inr () else Inl (OutsideFailed (sc_tick st))), (next_tick st)\<lparr>sc_dbs := (sc_dbs st)(w := db)\<rparr>))"

fun and_then :: "(ScanError + 'a) \<times> Scan \<Rightarrow> ('a \<Rightarrow> Scan \<Rightarrow> RoundEnd \<times> Scan) \<Rightarrow> RoundEnd \<times> Scan" where
  "and_then (Inl e, st) f = (Broken e, st)"
| "and_then (Inr x, st) f = f x st"

section \<open>One round\<close>

definition next_waiting_agent_task_dependency_deadline :: "AgentDb \<Rightarrow> int option" where
  "next_waiting_agent_task_dependency_deadline db =
     (let ts = List.map_filter (\<lambda>d. case map_of (db_tasks db) (dep_waiting d) of
          Some r \<Rightarrow> if at_status r = TaskWaiting \<and> instance_in db (at_owner r) [InstWaiting, InstDraining] \<and> queue_open db (at_team r)
            then dep_deadline d else None
        | None \<Rightarrow> None) (db_dependencies db)
      in if ts = [] then None else Some (Min (set ts)))"

definition record_next_agent_deadline :: "rstr \<Rightarrow> Scan \<Rightarrow> Scan" where
  "record_next_agent_deadline w st =
     (case next_waiting_agent_task_dependency_deadline (sc_dbs st w) of
        None \<Rightarrow> st
      | Some t \<Rightarrow> (case sc_deadline st of
            Some u \<Rightarrow> if u \<le> t then st else st\<lparr>sc_deadline := Some t\<rparr>
          | None \<Rightarrow> st\<lparr>sc_deadline := Some t\<rparr>))"

definition fail_claimed_task :: "rstr \<Rightarrow> rstr \<Rightarrow> rstr \<Rightarrow> int \<Rightarrow> AgentDb \<Rightarrow> AgentStoreError + bool \<times> AgentDb" where
  "fail_claimed_task error_json i attempt now db =
     (case map_of (db_tasks db) i of
        None \<Rightarrow> Inr (False, db)
      | Some r \<Rightarrow>
          if at_status r \<noteq> TaskRunning then Inr (False, db)
          else update_agent_task_state_inner (\<lambda>_. True) now
            \<lparr>upd_team = at_team r, upd_task = i, upd_expected = TaskRunning, upd_transition = TFail, upd_result = None,
             upd_error = Some error_json, upd_reason = None\<rparr>
            \<lparr>exp_attempt = Some attempt, exp_owner = None, exp_lease = None\<rparr> db)"

text \<open>A closure that fails for lack of access is tried again, so its first call fails only at a shutdown.\<close>

definition fail_claimed_task_after_scheduler_error :: "Outside \<Rightarrow> rstr \<Rightarrow> rstr \<Rightarrow> rstr \<Rightarrow> Scan \<Rightarrow> RoundEnd \<times> Scan" where
  "fail_claimed_task_after_scheduler_error out w i attempt st =
     and_then (outside out st) (\<lambda>_ st.
     and_then (transact out w (fail_claimed_task (failure_json out (sc_tick st)) i attempt) st) (\<lambda>applied st.
     if \<not> applied then (Again, st) else and_then (outside_all out 3 st) (\<lambda>_ st. (Again, st))))"

definition start_claimed :: "Outside \<Rightarrow> rstr \<Rightarrow> rstr \<Rightarrow> rstr \<Rightarrow> Scan \<Rightarrow> RoundEnd \<times> Scan" where
  "start_claimed out w i attempt st =
     (case outside out st of
        (Inl e, st) \<Rightarrow> fail_claimed_task_after_scheduler_error out w i attempt st
      | (Inr _, st) \<Rightarrow> and_then (outside out st) (\<lambda>_ st.
          (case outside_all out 2 st of
             (Inl e, st) \<Rightarrow> fail_claimed_task_after_scheduler_error out w i attempt st
           | (Inr _, st) \<Rightarrow> (Again, st\<lparr>sc_permits := sc_permits st - 1, sc_runs := sc_runs st @ [(w, i, attempt)]\<rparr>))))"

definition claim_and_start :: "Outside \<Rightarrow> rstr \<Rightarrow> rstr \<Rightarrow> rstr \<times> AgentTaskRow \<Rightarrow> Scan \<Rightarrow> RoundEnd \<times> Scan" where
  "claim_and_start out owner w = (\<lambda>(i, r) st.
     let attempt = new_name out (sc_tick st)
     in and_then (transact out w (\<lambda>now. claim_runnable_agent_task_with_owner now (at_team r) i attempt (Some owner)) st)
          (\<lambda>claimed st. case claimed of None \<Rightarrow> (Again, st) | Some _ \<Rightarrow> start_claimed out w i attempt st))"

definition offer_task :: "Outside \<Rightarrow> rstr \<Rightarrow> rstr \<Rightarrow> Scan \<Rightarrow> RoundEnd \<times> Scan" where
  "offer_task out owner w st =
     (case runnable_agent_tasks (clock out (sc_tick st)) (sc_dbs st w) AGENT_SCHEDULER_SCAN_LIMIT of
        Inl e \<Rightarrow> (Broken (StoreFailed e), next_tick st)
      | Inr [] \<Rightarrow> (NoTask, record_next_agent_deadline w (next_tick st))
      | Inr (task # _) \<Rightarrow> claim_and_start out owner w task (next_tick st))"

definition wake_waiting :: "Outside \<Rightarrow> rstr \<Rightarrow> (Scan \<Rightarrow> RoundEnd \<times> Scan) \<Rightarrow> Scan \<Rightarrow> RoundEnd \<times> Scan" where
  "wake_waiting out w rest st =
     and_then (transact out w (\<lambda>now. recover_interrupted_agent_wait_tasks now RESTART_INTERRUPTION_REASON AGENT_SCHEDULER_SCAN_LIMIT) st) (\<lambda>ids st.
     and_then (outside_all out (length ids) st) (\<lambda>_ st.
     and_then (transact out w (\<lambda>now. resume_satisfied_agent_tasks_matching now AGENT_SCHEDULER_SCAN_LIMIT (\<lambda>_. True)
         (chat_requeued out (sc_tick st))) st) (\<lambda>ids st.
     and_then (outside_all out (length ids) st) (\<lambda>_ st. rest st))))"

definition scan_round :: "Outside \<Rightarrow> rstr \<Rightarrow> rstr \<Rightarrow> Scan \<Rightarrow> RoundEnd \<times> Scan" where
  "scan_round out owner w st =
     (if sc_permits st = 0 then (NoPermit, st)
      else and_then (outside out st) (\<lambda>_ st.
           and_then (sync_plans out w st) (\<lambda>_ st.
           and_then (outside out st) (\<lambda>_ st. wake_waiting out w (offer_task out owner w) st))))"

section \<open>The scan\<close>

fun scan_workspace :: "nat \<Rightarrow> Outside \<Rightarrow> rstr \<Rightarrow> rstr \<Rightarrow> Scan \<Rightarrow> (RoundEnd \<times> Scan) option" where
  "scan_workspace 0 out owner w st = None"
| "scan_workspace (Suc n) out owner w st =
     (case scan_round out owner w st of
        (Again, st') \<Rightarrow> scan_workspace n out owner w st'
      | res \<Rightarrow> Some res)"

fun scan_workspaces :: "nat \<Rightarrow> Outside \<Rightarrow> rstr \<Rightarrow> rstr list \<Rightarrow> Scan \<Rightarrow> (ScanError option \<times> Scan) option" where
  "scan_workspaces n out owner [] st = Some (None, st)"
| "scan_workspaces n out owner (w # ws) st =
     (case scan_workspace n out owner w st of
        None \<Rightarrow> None
      | Some (Broken e, st') \<Rightarrow> Some (Some e, st')
      | Some (NoPermit, st') \<Rightarrow> Some (None, st')
      | Some (_, st') \<Rightarrow> scan_workspaces n out owner ws st')"

fun record_deadlines :: "Outside \<Rightarrow> rstr list \<Rightarrow> Scan \<Rightarrow> (ScanError + unit) \<times> Scan" where
  "record_deadlines out [] st = (Inr (), st)"
| "record_deadlines out (w # ws) st =
     (case outside out st of
        (Inl e, st') \<Rightarrow> (Inl e, st')
      | (Inr _, st') \<Rightarrow> record_deadlines out ws (record_next_agent_deadline w st'))"

definition schedule_runnable_tasks :: "nat \<Rightarrow> Outside \<Rightarrow> rstr \<Rightarrow> rstr list \<Rightarrow> Scan \<Rightarrow> (ScanError option \<times> Scan) option" where
  "schedule_runnable_tasks n out owner ws st =
     (case record_deadlines out ws st of
        (Inl e, st') \<Rightarrow> Some (Some e, st')
      | (Inr _, st') \<Rightarrow> scan_workspaces n out owner ws st')"

section \<open>What the scheduler needs of the task queue\<close>

lemma and_then_cases:
  assumes "and_then z f = (r, st')"
  obtains (broken) e where "z = (Inl e, st')" "r = Broken e"
    | (ok) x st1 where "z = (Inr x, st1)" "f x st1 = (r, st')"
proof -
  obtain y st1 where z: "z = (y, st1)" by (cases z)
  show thesis by (cases y) (use assms z that in auto)
qed

text \<open>A round that starts a task has claimed the first task that was offered.\<close>

definition claimed_first :: "Outside \<Rightarrow> rstr \<Rightarrow> AgentDb \<Rightarrow> AgentDb \<Rightarrow> bool" where
  "claimed_first out owner a b \<longleftrightarrow> (\<exists>n i r tasks attempt x.
     runnable_agent_tasks (clock out n) a AGENT_SCHEDULER_SCAN_LIMIT = Inr ((i, r) # tasks)
     \<and> claim_runnable_agent_task_with_owner (clock out (n + 1)) (at_team r) i attempt (Some owner) a = Inr (x, b))"

definition idle_since :: "Outside \<Rightarrow> Scan \<Rightarrow> Scan \<Rightarrow> rstr \<Rightarrow> bool" where
  "idle_since out st st' w \<longleftrightarrow> (\<exists>n. sc_tick st \<le> n \<and> n < sc_tick st'
     \<and> runnable_agent_tasks (clock out n) (sc_dbs st' w) AGENT_SCHEDULER_SCAN_LIMIT = Inr [])"

text \<open>A relation between the tables before and after, from a call on, which the transactions of a scan respect.\<close>

locale queue_effect =
  fixes out :: Outside and keeps :: "nat \<Rightarrow> AgentDb \<Rightarrow> AgentDb \<Rightarrow> bool"
  assumes keeps_refl: "keeps n db db"
    and keeps_trans: "\<lbrakk>keeps n a b; keeps m b c; n \<le> m\<rbrakk> \<Longrightarrow> keeps n a c"
    and keeps_sync: "plan_sync out n db = (ok, db') \<Longrightarrow> keeps n db db'"
    and keeps_recover: "recover_interrupted_agent_wait_tasks now reason limit db = Inr (ids, db') \<Longrightarrow> keeps n db db'"
    and keeps_resume: "resume_satisfied_agent_tasks_matching now limit selected requeue db = Inr (ids, db') \<Longrightarrow> keeps n db db'"
    and keeps_claim: "claim_runnable_agent_task_with_owner now team i attempt incarnation db = Inr (x, db') \<Longrightarrow> keeps n db db'"
    and keeps_fail: "fail_claimed_task error_json i attempt now db = Inr (applied, db') \<Longrightarrow> keeps n db db'"
begin

lemma keeps_from: "\<lbrakk>keeps m a b; n \<le> m\<rbrakk> \<Longrightarrow> keeps n a b"
  using keeps_trans [OF keeps_refl] by blast

text \<open>Only the tables of one workspace change, no permit is taken and no run starts.\<close>

definition quiet :: "rstr \<Rightarrow> Scan \<Rightarrow> Scan \<Rightarrow> bool" where
  "quiet w st st' \<longleftrightarrow> (\<forall>v. v \<noteq> w \<longrightarrow> sc_dbs st' v = sc_dbs st v) \<and> sc_tick st \<le> sc_tick st'
     \<and> sc_permits st' = sc_permits st \<and> sc_runs st' = sc_runs st \<and> keeps (sc_tick st) (sc_dbs st w) (sc_dbs st' w)"

lemma quiet_refl: "quiet w st st" by (simp add: quiet_def keeps_refl)

lemma quiet_trans: "\<lbrakk>quiet w a b; quiet w b c\<rbrakk> \<Longrightarrow> quiet w a c"
  unfolding quiet_def using keeps_trans by auto

lemma quiet_outside: "outside out st = (z, st') \<Longrightarrow> quiet w st st'"
  by (auto simp: outside_def next_tick_def quiet_def keeps_refl)

lemma quiet_outside_all: "outside_all out n st = (z, st') \<Longrightarrow> quiet w st st'"
proof (induction n arbitrary: st)
  case (Suc n)
  obtain y st1 where one: "outside out st = (y, st1)" by (cases "outside out st")
  note first = quiet_outside [OF one, of w]
  show ?case
  proof (cases y)
    case (Inl e)
    with one Suc.prems first show ?thesis by simp
  next
    case (Inr x)
    with one Suc.prems have "outside_all out n st1 = (z, st')" by simp
    from quiet_trans [OF first Suc.IH [OF this]] show ?thesis .
  qed
qed (simp add: quiet_refl)

lemma quiet_sync: "sync_plans out w st = (z, st') \<Longrightarrow> quiet w st st'"
  by (auto simp: sync_plans_def next_tick_def quiet_def intro: keeps_sync split: prod.splits)

lemma quiet_transact:
  assumes "transact out w f st = (z, st')" "\<And>now x db'. f now (sc_dbs st w) = Inr (x, db') \<Longrightarrow> keeps (sc_tick st) (sc_dbs st w) db'"
  shows "quiet w st st'"
  using assms by (auto simp: transact_def next_tick_def quiet_def keeps_refl split: sum.splits)

lemma quiet_deadline: "quiet w st (record_next_agent_deadline w (next_tick st))"
  by (simp add: record_next_agent_deadline_def next_tick_def quiet_def keeps_refl split: option.split)

definition balanced :: "rstr \<Rightarrow> Scan \<Rightarrow> Scan \<Rightarrow> bool" where
  "balanced w st st' \<longleftrightarrow> (\<forall>v. v \<noteq> w \<longrightarrow> sc_dbs st' v = sc_dbs st v) \<and> sc_tick st \<le> sc_tick st'
     \<and> sc_permits st' + length (sc_runs st') = sc_permits st + length (sc_runs st) \<and> keeps (sc_tick st) (sc_dbs st w) (sc_dbs st' w)"

lemma balanced_quiet: "\<lbrakk>quiet w a b; balanced w b c\<rbrakk> \<Longrightarrow> balanced w a c"
  unfolding quiet_def balanced_def using keeps_trans by auto

lemma quiet_balanced: "quiet w a b \<Longrightarrow> balanced w a b"
  by (simp add: quiet_def balanced_def)

lemma quiet_give_up:
  assumes "fail_claimed_task_after_scheduler_error out w i attempt st = (r, st')"
  shows "quiet w st st' \<and> r \<noteq> NoTask \<and> r \<noteq> NoPermit"
  using assms unfolding fail_claimed_task_after_scheduler_error_def
proof (cases rule: and_then_cases)
  case (broken e) then show ?thesis using quiet_outside [OF broken(1)] by simp
next
  case (ok x st1)
  note one = quiet_outside [OF ok(1), of w]
  from ok(2) show ?thesis
  proof (cases rule: and_then_cases)
    case (broken e)
    from quiet_transact [OF broken(1)] keeps_fail have "quiet w st1 st'" by blast
    with quiet_trans [OF one] broken show ?thesis by simp
  next
    case (ok y st2)
    from quiet_transact [OF ok(1)] keeps_fail have "quiet w st1 st2" by blast
    note two = quiet_trans [OF one this]
    show ?thesis
    proof (cases y)
      case True
      with ok(2) have "and_then (outside_all out 3 st2) (\<lambda>_ st. (Again, st)) = (r, st')" by simp
      then show ?thesis
      proof (cases rule: and_then_cases)
        case (broken e) then show ?thesis using quiet_trans [OF two quiet_outside_all [OF broken(1)]] by simp
      next
        case (ok z st3) then show ?thesis using quiet_trans [OF two quiet_outside_all [OF ok(1)]] by auto
      qed
    next
      case False
      with ok(2) have "r = Again" "st' = st2" by simp_all
      with two show ?thesis by simp
    qed
  qed
qed

lemma balanced_start:
  assumes "start_claimed out w i attempt st = (r, st')" "0 < sc_permits st"
  shows "balanced w st st' \<and> r \<noteq> NoTask \<and> r \<noteq> NoPermit"
proof -
  obtain x st1 where one: "outside out st = (x, st1)" by (cases "outside out st")
  note q1 = quiet_outside [OF one, of w]
  show ?thesis
  proof (cases x)
    case (Inl e)
    with assms(1) one have "fail_claimed_task_after_scheduler_error out w i attempt st1 = (r, st')" by (simp add: start_claimed_def)
    from quiet_give_up [OF this] quiet_balanced [OF quiet_trans [OF q1]] show ?thesis by blast
  next
    case (Inr u)
    obtain y st2 where two: "outside out st1 = (y, st2)" by (cases "outside out st1")
    note q2 = quiet_trans [OF q1 quiet_outside [OF two]]
    show ?thesis
    proof (cases y)
      case (Inl e)
      with assms(1) one two Inr show ?thesis using quiet_balanced [OF q2] by (auto simp: start_claimed_def)
    next
      case (Inr v)
      obtain z st3 where three: "outside_all out 2 st2 = (z, st3)" by (cases "outside_all out 2 st2")
      note q3 = quiet_trans [OF q2 quiet_outside_all [OF three]]
      show ?thesis
      proof (cases z)
        case (Inl e)
        with assms(1) one two three \<open>x = Inr u\<close> Inr
        have "fail_claimed_task_after_scheduler_error out w i attempt st3 = (r, st')" by (simp add: start_claimed_def)
        from quiet_give_up [OF this] quiet_balanced [OF quiet_trans [OF q3]] show ?thesis by blast
      next
        case (Inr t)
        with assms(1) one two three \<open>x = Inr u\<close> \<open>y = Inr v\<close>
        have "r = Again" "st' = st3\<lparr>sc_permits := sc_permits st3 - 1, sc_runs := sc_runs st3 @ [(w, i, attempt)]\<rparr>"
          by (simp_all add: start_claimed_def)
        with q3 assms(2) show ?thesis by (auto simp: quiet_def balanced_def)
      qed
    qed
  qed
qed

lemma claim_round:
  assumes "claim_and_start out owner w (i, q) st = (r, st')" "0 < sc_permits st"
  shows "balanced w st st' \<and> r \<noteq> NoTask \<and> r \<noteq> NoPermit \<and> (r = Again \<longrightarrow> (\<exists>attempt x db.
    claim_runnable_agent_task_with_owner (clock out (sc_tick st)) (at_team q) i attempt (Some owner) (sc_dbs st w) = Inr (x, db)
    \<and> keeps (sc_tick st) db (sc_dbs st' w)))"
  using assms(1) unfolding claim_and_start_def prod.case Let_def
proof (cases rule: and_then_cases)
  case (broken e)
  from quiet_transact [OF broken(1)] keeps_claim have "quiet w st st'" by blast
  with broken quiet_balanced show ?thesis by blast
next
  case (ok x st1)
  from quiet_transact [OF ok(1)] keeps_claim have q1: "quiet w st st1" by blast
  from ok(1) have claim: "claim_runnable_agent_task_with_owner (clock out (sc_tick st)) (at_team q) i (new_name out (sc_tick st))
      (Some owner) (sc_dbs st w) = Inr (x, sc_dbs st1 w)"
    by (auto simp: transact_def split: sum.splits)
  show ?thesis
  proof (cases x)
    case None
    with ok(2) have "r = Again" "st' = st1" by simp_all
    with claim quiet_balanced [OF q1] keeps_refl show ?thesis by blast
  next
    case (Some t)
    with ok(2) have start: "start_claimed out w i (new_name out (sc_tick st)) st1 = (r, st')" by simp
    have "0 < sc_permits st1" using q1 assms(2) by (simp add: quiet_def)
    from balanced_start [OF start this] have bal: "balanced w st1 st'" "r \<noteq> NoTask" "r \<noteq> NoPermit" by blast+
    then have "keeps (sc_tick st1) (sc_dbs st1 w) (sc_dbs st' w)" by (simp add: balanced_def)
    then have "keeps (sc_tick st) (sc_dbs st1 w) (sc_dbs st' w)" using q1 by (auto simp: quiet_def intro: keeps_from)
    with claim balanced_quiet [OF q1 bal(1)] bal(2,3) show ?thesis by blast
  qed
qed

lemma offer_round:
  assumes "offer_task out owner w st = (r, st')" "0 < sc_permits st"
  shows "balanced w st st' \<and> r \<noteq> NoPermit \<and> (r = NoTask \<longrightarrow> idle_since out st st' w)
    \<and> (r = Again \<longrightarrow> (\<exists>b. claimed_first out owner (sc_dbs st w) b \<and> keeps (sc_tick st) b (sc_dbs st' w)))"
proof (cases "runnable_agent_tasks (clock out (sc_tick st)) (sc_dbs st w) AGENT_SCHEDULER_SCAN_LIMIT")
  case (Inl e)
  with assms(1) have "r = Broken (StoreFailed e)" "st' = next_tick st" by (simp_all add: offer_task_def)
  then show ?thesis by (simp add: balanced_def next_tick_def keeps_refl)
next
  case (Inr tasks)
  show ?thesis
  proof (cases tasks)
    case Nil
    with assms(1) Inr have st': "r = NoTask" "st' = record_next_agent_deadline w (next_tick st)" by (simp_all add: offer_task_def)
    then have "quiet w st st'" using quiet_deadline by simp
    moreover have "sc_dbs st' w = sc_dbs st w" "sc_tick st' = sc_tick st + 1"
      by (simp_all add: st'(2) record_next_agent_deadline_def next_tick_def split: option.split)
    ultimately show ?thesis using Inr Nil st'(1) quiet_balanced by (auto simp: idle_since_def)
  next
    case (Cons task rest)
    obtain i q where task: "task = (i, q)" by (cases task)
    with assms(1) Inr Cons have run: "claim_and_start out owner w (i, q) (next_tick st) = (r, st')" by (simp add: offer_task_def)
    have "quiet w st (next_tick st)" by (simp add: quiet_def next_tick_def keeps_refl)
    from balanced_quiet [OF this] claim_round [OF run] assms(2)
    have bal: "balanced w st st'" "r \<noteq> NoTask" "r \<noteq> NoPermit" by (simp_all add: next_tick_def)
    have "\<exists>b. claimed_first out owner (sc_dbs st w) b \<and> keeps (sc_tick st) b (sc_dbs st' w)" if "r = Again"
    proof -
      from claim_round [OF run] that assms(2) obtain attempt x db
        where "claim_runnable_agent_task_with_owner (clock out (sc_tick st + 1)) (at_team q) i attempt (Some owner) (sc_dbs st w) = Inr (x, db)"
          "keeps (sc_tick st + 1) db (sc_dbs st' w)" by (auto simp: next_tick_def)
      with Inr Cons task keeps_from [of "sc_tick st + 1" _ _ "sc_tick st"] show ?thesis unfolding claimed_first_def by (metis le_add1)
    qed
    with bal show ?thesis by blast
  qed
qed

lemma idle_later: "\<lbrakk>idle_since out st1 st' w; sc_tick st \<le> sc_tick st1\<rbrakk> \<Longrightarrow> idle_since out st st' w"
  unfolding idle_since_def by (meson order_trans)

text \<open>What a round does, for any rest of it that starts with the offer of a task.\<close>

definition round_effect :: "rstr \<Rightarrow> rstr \<Rightarrow> Scan \<Rightarrow> RoundEnd \<Rightarrow> Scan \<Rightarrow> bool" where
  "round_effect owner w st r st' \<longleftrightarrow> balanced w st st' \<and> r \<noteq> NoPermit \<and> (r = NoTask \<longrightarrow> idle_since out st st' w)
    \<and> (r = Again \<longrightarrow> (\<exists>a b. keeps (sc_tick st) (sc_dbs st w) a \<and> claimed_first out owner a b \<and> keeps (sc_tick st) b (sc_dbs st' w)))"

lemma effect_after: "\<lbrakk>quiet w st st1; round_effect owner w st1 r st'\<rbrakk> \<Longrightarrow> round_effect owner w st r st'"
proof -
  assume quiet: "quiet w st st1" and effect: "round_effect owner w st1 r st'"
  from quiet have tick: "sc_tick st \<le> sc_tick st1" and keep: "keeps (sc_tick st) (sc_dbs st w) (sc_dbs st1 w)"
    by (simp_all add: quiet_def)
  from effect have bal: "balanced w st1 st'" and none: "r \<noteq> NoPermit" and idle: "r = NoTask \<longrightarrow> idle_since out st1 st' w"
    by (simp_all add: round_effect_def)
  have "\<exists>a b. keeps (sc_tick st) (sc_dbs st w) a \<and> claimed_first out owner a b \<and> keeps (sc_tick st) b (sc_dbs st' w)" if "r = Again"
  proof -
    from effect that obtain a b where "keeps (sc_tick st1) (sc_dbs st1 w) a" "claimed_first out owner a b"
      "keeps (sc_tick st1) b (sc_dbs st' w)" by (auto simp: round_effect_def)
    with keeps_trans [OF keep _ tick] keeps_from [OF _ tick] show ?thesis by blast
  qed
  with balanced_quiet [OF quiet bal] none idle idle_later [OF _ tick] show ?thesis unfolding round_effect_def by blast
qed

lemma effect_broken: "quiet w st st' \<Longrightarrow> round_effect owner w st (Broken e) st'"
  by (simp add: round_effect_def quiet_balanced)

lemma effect_offer: "\<lbrakk>offer_task out owner w st = (r, st'); 0 < sc_permits st\<rbrakk> \<Longrightarrow> round_effect owner w st r st'"
  using offer_round [of owner w st r st'] keeps_refl unfolding round_effect_def by blast

lemma effect_and_then:
  assumes "and_then z f = (r, st')" "\<And>x st1. z = (x, st1) \<Longrightarrow> quiet w st st1"
    and "\<And>x st1. \<lbrakk>quiet w st st1; f x st1 = (r, st')\<rbrakk> \<Longrightarrow> round_effect owner w st1 r st'"
  shows "round_effect owner w st r st'"
  using assms(1)
proof (cases rule: and_then_cases)
  case (broken e) with assms(2) show ?thesis by (auto intro: effect_broken)
next
  case (ok x st1) with assms(2,3) show ?thesis by (blast intro: effect_after)
qed

lemma quiet_recover: "transact out w (\<lambda>now. recover_interrupted_agent_wait_tasks now reason limit) st = (z, st') \<Longrightarrow> quiet w st st'"
  by (erule quiet_transact) (rule keeps_recover)

lemma quiet_resume: "transact out w (\<lambda>now. resume_satisfied_agent_tasks_matching now limit selected requeue) st = (z, st') \<Longrightarrow> quiet w st st'"
  by (erule quiet_transact) (rule keeps_resume)

lemma effect_wake:
  assumes "wake_waiting out w (offer_task out owner w) st = (r, st')" "0 < sc_permits st"
  shows "round_effect owner w st r st'"
  using assms(1) unfolding wake_waiting_def
proof (rule effect_and_then [OF _ quiet_recover])
  fix ids st1 assume q1: "quiet w st st1"
    and "and_then (outside_all out (length ids) st1) (\<lambda>_ st.
       and_then (transact out w (\<lambda>now. resume_satisfied_agent_tasks_matching now AGENT_SCHEDULER_SCAN_LIMIT (\<lambda>_. True)
         (chat_requeued out (sc_tick st))) st) (\<lambda>ids st.
       and_then (outside_all out (length ids) st) (\<lambda>_ st. offer_task out owner w st))) = (r, st')"
  from this(2) show "round_effect owner w st1 r st'"
  proof (rule effect_and_then [OF _ quiet_outside_all])
    fix x st2 assume q2: "quiet w st1 st2"
      and "and_then (transact out w (\<lambda>now. resume_satisfied_agent_tasks_matching now AGENT_SCHEDULER_SCAN_LIMIT (\<lambda>_. True)
         (chat_requeued out (sc_tick st2))) st2) (\<lambda>ids st.
       and_then (outside_all out (length ids) st) (\<lambda>_ st. offer_task out owner w st)) = (r, st')"
    from this(2) show "round_effect owner w st2 r st'"
    proof (rule effect_and_then [OF _ quiet_resume])
      fix ids' st3 assume q3: "quiet w st2 st3"
        and "and_then (outside_all out (length ids') st3) (\<lambda>_ st. offer_task out owner w st) = (r, st')"
      from this(2) show "round_effect owner w st3 r st'"
      proof (rule effect_and_then [OF _ quiet_outside_all])
        fix y st4 assume q4: "quiet w st3 st4" and run: "offer_task out owner w st4 = (r, st')"
        have "0 < sc_permits st4" using assms(2) q1 q2 q3 q4 by (simp add: quiet_def)
        with run show "round_effect owner w st4 r st'" by (rule effect_offer)
      qed
    qed
  qed
qed

lemma effect_synced:
  assumes "and_then (sync_plans out w st) (\<lambda>_ st. and_then (outside out st) (\<lambda>_ st.
      wake_waiting out w (offer_task out owner w) st)) = (r, st')" "0 < sc_permits st"
  shows "round_effect owner w st r st'"
  using assms(1)
proof (rule effect_and_then [OF _ quiet_sync])
  fix y st1 assume q1: "quiet w st st1" and "and_then (outside out st1) (\<lambda>_ st. wake_waiting out w (offer_task out owner w) st) = (r, st')"
  from this(2) show "round_effect owner w st1 r st'"
  proof (rule effect_and_then [OF _ quiet_outside])
    fix z st2 assume q2: "quiet w st1 st2" and run: "wake_waiting out w (offer_task out owner w) st2 = (r, st')"
    have "0 < sc_permits st2" using assms(2) q1 q2 by (simp add: quiet_def)
    with run show "round_effect owner w st2 r st'" by (rule effect_wake)
  qed
qed

lemma effect_round:
  assumes "scan_round out owner w st = (r, st')" "sc_permits st \<noteq> 0"
  shows "round_effect owner w st r st' \<and> sc_tick st < sc_tick st'"
proof -
  from assms have "and_then (outside out st) (\<lambda>_ st. and_then (sync_plans out w st) (\<lambda>_ st.
      and_then (outside out st) (\<lambda>_ st. wake_waiting out w (offer_task out owner w) st))) = (r, st')"
    by (simp add: scan_round_def)
  then show ?thesis
  proof (cases rule: and_then_cases)
    case (broken e)
    from effect_broken [OF quiet_outside [OF broken(1)]] broken show ?thesis by (auto simp: outside_def next_tick_def)
  next
    case (ok x st1)
    from ok(1) have same: "sc_permits st1 = sc_permits st" "sc_tick st < sc_tick st1" by (auto simp: outside_def next_tick_def)
    with assms(2) effect_synced [OF ok(2)] have effect: "round_effect owner w st1 r st'" by simp
    then have "sc_tick st1 \<le> sc_tick st'" by (simp add: round_effect_def balanced_def)
    with effect_after [OF quiet_outside [OF ok(1)] effect] same show ?thesis by simp
  qed
qed

lemma workspace_effect:
  "scan_workspace n out owner w st = Some (r, st') \<Longrightarrow> balanced w st st' \<and> r \<noteq> Again
    \<and> (r = NoTask \<longrightarrow> idle_since out st st' w) \<and> (r = NoPermit \<longrightarrow> sc_permits st' = 0)"
proof (induction n arbitrary: st)
  case (Suc n)
  show ?case
  proof (cases "sc_permits st = 0")
    case True
    with Suc.prems have "r = NoPermit" "st' = st" by (simp_all add: scan_round_def)
    with True show ?thesis by (simp add: balanced_def keeps_refl)
  next
    case False
    obtain q st1 where round: "scan_round out owner w st = (q, st1)" by (cases "scan_round out owner w st")
    have effect: "round_effect owner w st q st1" using effect_round [OF round False] by simp
    show ?thesis
    proof (cases "q = Again")
      case True
      with Suc.prems round have "scan_workspace n out owner w st1 = Some (r, st')" by simp
      from Suc.IH [OF this] have IH: "balanced w st1 st'" "r \<noteq> Again" "r = NoTask \<longrightarrow> idle_since out st1 st' w"
        "r = NoPermit \<longrightarrow> sc_permits st' = 0" by blast+
      have bal: "balanced w st st1" using effect by (simp add: round_effect_def)
      then have "balanced w st st'" using IH(1) keeps_trans unfolding balanced_def by auto
      moreover have "idle_since out st st' w" if "idle_since out st1 st' w" using that bal by (auto simp: balanced_def intro: idle_later)
      ultimately show ?thesis using IH by blast
    next
      case False
      with Suc.prems round have "r = q" "st' = st1" by (auto split: RoundEnd.splits)
      with effect False show ?thesis by (auto simp: round_effect_def)
    qed
  qed
qed simp

definition effect_on :: "rstr set \<Rightarrow> Scan \<Rightarrow> Scan \<Rightarrow> bool" where
  "effect_on ws st st' \<longleftrightarrow> sc_tick st \<le> sc_tick st' \<and> sc_permits st' + length (sc_runs st') = sc_permits st + length (sc_runs st)
    \<and> (\<forall>v. v \<notin> ws \<longrightarrow> sc_dbs st' v = sc_dbs st v) \<and> (\<forall>v. keeps (sc_tick st) (sc_dbs st v) (sc_dbs st' v))"

lemma effect_on_trans:
  assumes "effect_on vs a b" "effect_on ws b c"
  shows "effect_on (vs \<union> ws) a c"
proof -
  from assms have "keeps (sc_tick a) (sc_dbs a v) (sc_dbs b v)" "keeps (sc_tick b) (sc_dbs b v) (sc_dbs c v)" "sc_tick a \<le> sc_tick b" for v
    unfolding effect_on_def by blast+
  then have "keeps (sc_tick a) (sc_dbs a v) (sc_dbs c v)" for v by (rule keeps_trans)
  with assms show ?thesis by (simp add: effect_on_def)
qed

lemma balanced_effect:
  assumes "balanced w st st'"
  shows "effect_on {w} st st'"
proof -
  have "keeps (sc_tick st) (sc_dbs st v) (sc_dbs st' v)" for v
    using assms keeps_refl by (cases "v = w") (simp_all add: balanced_def)
  with assms show ?thesis by (simp add: balanced_def effect_on_def)
qed

lemma effect_on_more: "\<lbrakk>effect_on vs a b; vs \<subseteq> ws\<rbrakk> \<Longrightarrow> effect_on ws a b"
  unfolding effect_on_def by blast

lemma workspaces_effect:
  assumes "scan_workspaces n out owner ws st = Some (e, st')"
  shows "effect_on (set ws) st st' \<and> (e = None \<longrightarrow> distinct ws \<longrightarrow> sc_permits st' = 0 \<or> (\<forall>w \<in> set ws. idle_since out st st' w))"
  using assms
proof (induction ws arbitrary: st)
  case Nil
  then show ?case by (simp add: effect_on_def keeps_refl)
next
  case (Cons w ws)
  then obtain r st1 where one: "scan_workspace n out owner w st = Some (r, st1)"
    by (auto split: option.splits)
  from workspace_effect [OF one] have bal: "balanced w st st1" and r: "r \<noteq> Again" "r = NoTask \<longrightarrow> idle_since out st st1 w"
    "r = NoPermit \<longrightarrow> sc_permits st1 = 0" by blast+
  note first = balanced_effect [OF bal]
  show ?case
  proof (cases "r = NoTask")
    case True
    with Cons.prems one have "scan_workspaces n out owner ws st1 = Some (e, st')" by simp
    from Cons.IH [OF this] have on: "effect_on (set ws) st1 st'"
      and rest: "e = None \<longrightarrow> distinct ws \<longrightarrow> sc_permits st' = 0 \<or> (\<forall>v \<in> set ws. idle_since out st1 st' v)" by blast+
    from on have after: "w \<notin> set ws \<longrightarrow> sc_dbs st' w = sc_dbs st1 w" "sc_tick st1 \<le> sc_tick st'" unfolding effect_on_def by blast+
    have idle: "idle_since out st st' w" if "w \<notin> set ws"
      using r(2) True after that unfolding idle_since_def by force
    have later: "idle_since out st1 st' v \<Longrightarrow> idle_since out st st' v" for v
      using bal by (auto simp: balanced_def intro: idle_later)
    have on': "effect_on (set (w # ws)) st st'" using effect_on_trans [OF first on] by simp
    have "sc_permits st' = 0 \<or> (\<forall>v \<in> set (w # ws). idle_since out st st' v)" if "e = None" "distinct (w # ws)"
    proof (cases "sc_permits st' = 0")
      case False
      with rest that have "\<forall>v \<in> set ws. idle_since out st st' v" using later by simp
      with idle that(2) show ?thesis by simp
    qed blast
    with on' show ?thesis by blast
  next
    case False
    then consider (broken) x where "r = Broken x" | (none) "r = NoPermit" using r(1) by (cases r) auto
    then have "st' = st1 \<and> (e = None \<longrightarrow> sc_permits st1 = 0)"
    proof cases
      case broken with Cons.prems one show ?thesis by auto
    next
      case none with Cons.prems one r(3) show ?thesis by auto
    qed
    with effect_on_more [OF first, of "set (w # ws)"] show ?thesis by auto
  qed
qed

lemma deadlines_quiet: "record_deadlines out ws st = (z, st1) \<Longrightarrow> sc_tick st \<le> sc_tick st1 \<and> sc_permits st1 = sc_permits st
    \<and> sc_runs st1 = sc_runs st \<and> sc_dbs st1 = sc_dbs st"
proof (induction ws arbitrary: st)
  case (Cons w ws)
  obtain x st2 where one: "outside out st = (x, st2)" by (cases "outside out st")
  then have same: "sc_tick st \<le> sc_tick st2" "sc_permits st2 = sc_permits st" "sc_runs st2 = sc_runs st" "sc_dbs st2 = sc_dbs st"
    by (auto simp: outside_def next_tick_def)
  let ?st = "record_next_agent_deadline w st2"
  have rec: "sc_tick ?st = sc_tick st2" "sc_permits ?st = sc_permits st2" "sc_runs ?st = sc_runs st2" "sc_dbs ?st = sc_dbs st2"
    by (simp_all add: record_next_agent_deadline_def split: option.split)
  show ?case
  proof (cases x)
    case (Inl e) with Cons.prems one same show ?thesis by auto
  next
    case (Inr u)
    with Cons.prems one have "record_deadlines out ws ?st = (z, st1)" by simp
    from Cons.IH [OF this] same rec show ?thesis by simp
  qed
qed simp

lemma scan_effect:
  assumes "schedule_runnable_tasks n out owner ws st = Some (e, st')"
  shows "sc_permits st' + length (sc_runs st') = sc_permits st + length (sc_runs st)
    \<and> (\<forall>v. keeps (sc_tick st) (sc_dbs st v) (sc_dbs st' v))
    \<and> (e = None \<longrightarrow> distinct ws \<longrightarrow> sc_permits st' = 0 \<or> (\<forall>w \<in> set ws. idle_since out st st' w))"
proof -
  obtain z st1 where rec: "record_deadlines out ws st = (z, st1)" by (cases "record_deadlines out ws st")
  note same = deadlines_quiet [OF rec]
  show ?thesis
  proof (cases z)
    case (Inl x)
    with assms rec have "e = Some x" "st' = st1" by (simp_all add: schedule_runnable_tasks_def)
    with same show ?thesis by (simp add: keeps_refl)
  next
    case (Inr u)
    with assms rec have "scan_workspaces n out owner ws st1 = Some (e, st')" by (simp add: schedule_runnable_tasks_def)
    note later = workspaces_effect [OF this]
    have "keeps (sc_tick st) (sc_dbs st v) (sc_dbs st' v)" for v
    proof -
      from later same have "keeps (sc_tick st1) (sc_dbs st v) (sc_dbs st' v)" unfolding effect_on_def by metis
      then show ?thesis by (rule keeps_from) (use same in blast)
    qed
    moreover have "idle_since out st1 st' v \<Longrightarrow> idle_since out st st' v" for v using same by (blast intro: idle_later)
    moreover have "sc_permits st' + length (sc_runs st') = sc_permits st + length (sc_runs st)" using later same unfolding effect_on_def by metis
    ultimately show ?thesis using later by blast
  qed
qed

end

end
