(* ===== verification/Scheduler_Example.thy ===== *)
theory Scheduler_Example
  imports Agent_Scheduler
begin

text \<open>
  Runs of the scheduler on which its properties are tried out: a scan that starts two tasks, and tables that
  the operations reach in which the task that is offered first cannot be claimed.
\<close>

section \<open>A world in which everything succeeds\<close>

definition ex_world :: Outside where
  "ex_world = \<lparr>call_ok = (\<lambda>_. True), clock = (\<lambda>n. int n + 10), new_name = (\<lambda>n. [100, n]), plan_sync = (\<lambda>_ db. (True, db)),
     chat_requeued = (\<lambda>_ _. True), failure_json = (\<lambda>_. [])\<rparr>"

definition ex_start :: "AgentDb \<Rightarrow> Scan" where
  "ex_start db = \<lparr>sc_tick = 0, sc_permits = AGENT_GLOBAL_MAX_CONCURRENT_RUNS, sc_runs = [], sc_deadline = None, sc_dbs = (\<lambda>_. db)\<rparr>"

lemma ex_world_mono: "mono (clock ex_world)"
  by (simp add: mono_def ex_world_def)

lemma ex_world_plans: "plan_sync ex_world n db = (True, db)"
  by (simp add: ex_world_def)

section \<open>A scan that starts a task\<close>

definition ex_alone :: "AgentInstanceRow \<Rightarrow> AgentTaskRow \<Rightarrow> AgentAttemptRow list \<Rightarrow> AgentDb" where
  "ex_alone inst t attempts = \<lparr>db_teams = [([1], \<lparr>team_state = TeamActive, team_max_runs = 2\<rparr>)],
    db_instances = [([2], inst), ([3], ex_instance InstIdle 0 None)], db_tasks = [([4], t)],
    db_attempts = attempts, db_dependencies = [], db_cancellations = [], db_wait_events = []\<rparr>"

definition ex_idle_db :: AgentDb where
  "ex_idle_db = ex_alone (ex_instance InstIdle 1 None) (ex_task 0 [2] TaskQueued 1 None) []"

definition ex_busy_db :: AgentDb where
  "ex_busy_db = ex_alone (ex_instance InstRunning 1 (Some 17)) (ex_task 0 [2] TaskRunning 17 (Some 17))
     [(ex_attempt [100, 7] 0 AttRunning 17)\<lparr>att_owner := Some [79], att_lease := Some 17\<rparr>]"

definition ex_after :: Scan where
  "ex_after = (ex_start ex_idle_db)\<lparr>sc_tick := 18, sc_permits := 9, sc_runs := [([97], [4], [100, 7])],
     sc_dbs := (\<lambda>_. ex_idle_db)([97] := ex_busy_db)\<rparr>"

lemma ex_usable: "\<not> blank_owner (Some [79])"
  by (simp add: blank_owner_def trim_def trim_start_def trim_end_def is_whitespace_def)

lemma ex_idle_steps:
  "enqueue_agent_task_with_limits 1 (plain_task [4] [2]) 9 9 9 ex_team = Inr ex_idle_db"
  "recover_interrupted_agent_wait_tasks 14 RESTART_INTERRUPTION_REASON 64 ex_idle_db = Inr ([], ex_idle_db)"
  "resume_satisfied_agent_tasks_matching 15 64 (\<lambda>_. True) (\<lambda>_. True) ex_idle_db = Inr ([], ex_idle_db)"
  "runnable_agent_tasks 16 ex_idle_db 64 = Inr [([4], ex_task 0 [2] TaskQueued 1 None)]"
  by code_simp+

lemma ex_idle_claim: "claim_runnable_agent_task_with_owner 17 [1] [4] [100, 7] (Some [79]) ex_idle_db
    = Inr (Some (ex_task 0 [2] TaskRunning 17 (Some 17)), ex_busy_db)"
proof -
  let ?r = "ex_task 0 [2] TaskQueued 1 None"
  have "runnable 17 ex_idle_db [4] ?r" "map_of (db_tasks ex_idle_db) [4] = Some ?r" "at_team ?r = [1]"
    "map_of (db_tasks ex_busy_db) [4] = Some (ex_task 0 [2] TaskRunning 17 (Some 17))"
    "check_constraints (claim_task 17 [4] ?r (new_attempt 17 [1] [4] [100, 7] (Some [79]) ex_idle_db) ex_idle_db) = Inr ex_busy_db"
    by code_simp+
  then show ?thesis using ex_usable by (simp add: claim_runnable_agent_task_with_owner_def)
qed

lemma ex_busy_steps:
  "recover_interrupted_agent_wait_tasks 25 RESTART_INTERRUPTION_REASON 64 ex_busy_db = Inr ([], ex_busy_db)"
  "resume_satisfied_agent_tasks_matching 26 64 (\<lambda>_. True) (\<lambda>_. True) ex_busy_db = Inr ([], ex_busy_db)"
  "runnable_agent_tasks 27 ex_busy_db 64 = Inr []"
  "next_waiting_agent_task_dependency_deadline ex_busy_db = None"
  "next_waiting_agent_task_dependency_deadline ex_idle_db = None"
  by code_simp+

lemma ex_idle_reachable: "agent_reachable ex_idle_db"
  by (rule agent_reachable.step [OF ex_team_reachable agent_step.enqueued [OF ex_idle_steps(1)]])

lemmas scan_defs = scan_round_def wake_waiting_def offer_task_def claim_and_start_def start_claimed_def transact_def sync_plans_def
  outside_def next_tick_def record_next_agent_deadline_def

definition ex_claimed_scan :: Scan where
  "ex_claimed_scan = ex_after\<lparr>sc_tick := 12\<rparr>"

lemma ex_rounds:
  "scan_round ex_world [79] [97] ((ex_start ex_idle_db)\<lparr>sc_tick := 1\<rparr>) = (Again, ex_claimed_scan)"
  "scan_round ex_world [79] [97] ex_claimed_scan = (NoTask, ex_after)"
proof -
  note world = ex_world_def ex_start_def AGENT_GLOBAL_MAX_CONCURRENT_RUNS_def AGENT_SCHEDULER_SCAN_LIMIT_def
  have team: "at_team (ex_task 0 [2] TaskQueued 1 None) = [1]" by (simp add: ex_task_def)
  have two: "outside_all out 2 st = outside_all out (Suc (Suc 0)) st" for out st by (simp add: numeral_2_eq_2)
  show "scan_round ex_world [79] [97] ((ex_start ex_idle_db)\<lparr>sc_tick := 1\<rparr>) = (Again, ex_claimed_scan)"
    by (simp add: scan_defs world ex_idle_steps ex_idle_claim team two Let_def ex_claimed_scan_def ex_after_def del: One_nat_def)
  show "scan_round ex_world [79] [97] ex_claimed_scan = (NoTask, ex_after)"
    by (simp add: scan_defs world ex_busy_steps ex_claimed_scan_def ex_after_def)
qed

lemma ex_scan: "schedule_runnable_tasks 2 ex_world [79] [[97]] (ex_start ex_idle_db) = Some (None, ex_after)"
proof -
  have "record_deadlines ex_world [[97]] (ex_start ex_idle_db) = (Inr (), (ex_start ex_idle_db)\<lparr>sc_tick := 1\<rparr>)"
    by (simp add: scan_defs ex_world_def ex_start_def ex_busy_steps)
  moreover have "scan_workspaces (Suc (Suc 0)) ex_world [79] [[97]] ((ex_start ex_idle_db)\<lparr>sc_tick := 1\<rparr>) = Some (None, ex_after)"
    by (simp only: scan_workspaces.simps scan_workspace.simps ex_rounds prod.case RoundEnd.case option.case)
  ultimately show ?thesis by (simp only: schedule_runnable_tasks_def prod.case sum.case numeral_2_eq_2)
qed

section \<open>A task that cannot be claimed\<close>

definition ex_move :: "AgentTaskTransition \<Rightarrow> AgentTaskStatus \<Rightarrow> rstr option \<Rightarrow> AgentTaskStateUpdate" where
  "ex_move t from e = \<lparr>upd_team = [1], upd_task = [5], upd_expected = from, upd_transition = t, upd_result = None,
     upd_error = e, upd_reason = None\<rparr>"

definition ex_pair :: "AgentInstanceStatus \<Rightarrow> int option \<Rightarrow> AgentTaskRow \<Rightarrow> AgentTaskRow \<Rightarrow> AgentAttemptRow list \<Rightarrow> AgentDb" where
  "ex_pair s scheduled t5 t6 attempts = \<lparr>db_teams = [([1], \<lparr>team_state = TeamActive, team_max_runs = 2\<rparr>)],
    db_instances = [([2], ex_instance InstIdle 0 None), ([3], ex_instance s 2 scheduled)],
    db_tasks = [([5], t5), ([6], t6)],
    db_attempts = attempts, db_dependencies = [], db_cancellations = [], db_wait_events = []\<rparr>"

definition ex_run5 :: AgentAttemptRow where "ex_run5 = (ex_attempt [7] 0 AttRunning 2)\<lparr>att_task := [5]\<rparr>"
definition ex_run5_failed :: AgentAttemptRow where "ex_run5_failed = ex_run5\<lparr>att_status := AttFailed, att_completed := Some 3\<rparr>"
definition ex_run6 :: AgentAttemptRow where "ex_run6 = (ex_attempt [8] 0 AttRunning 4)\<lparr>att_task := [6]\<rparr>"
definition ex_failed :: AgentTaskRow where
  "ex_failed = (ex_task 0 [3] TaskFailed 3 (Some 2))\<lparr>at_error := Some [], at_completed := Some 3\<rparr>"
definition ex_retried :: AgentTaskRow where
  "ex_retried = (ex_task 0 [3] TaskQueued 5 None)\<lparr>at_error := Some [], at_completed := Some 3\<rparr>"

definition ex_first :: AgentDb where "ex_first = projr (enqueue_agent_task_with_limits 1 (plain_task [5] [3]) 9 9 9 ex_team)"
definition ex_both :: AgentDb where
  "ex_both = ex_pair InstIdle None (ex_task 0 [3] TaskQueued 1 None) (ex_task 1 [3] TaskQueued 1 None) []"
definition ex_runs :: AgentDb where
  "ex_runs = ex_pair InstRunning (Some 2) (ex_task 0 [3] TaskRunning 2 (Some 2)) (ex_task 1 [3] TaskQueued 1 None) [ex_run5]"
definition ex_fails :: AgentDb where
  "ex_fails = ex_pair InstIdle (Some 2) ex_failed (ex_task 1 [3] TaskQueued 1 None) [ex_run5_failed]"
definition ex_drains :: AgentDb where
  "ex_drains = ex_pair InstDraining (Some 2) ex_failed (ex_task 1 [3] TaskQueued 1 None) [ex_run5_failed]"
definition ex_next_runs :: AgentDb where
  "ex_next_runs = ex_pair InstDraining (Some 4) ex_failed (ex_task 1 [3] TaskRunning 4 (Some 4)) [ex_run5_failed, ex_run6]"
definition ex_stuck :: AgentDb where
  "ex_stuck = ex_pair InstDraining (Some 4) ex_retried (ex_task 1 [3] TaskRunning 4 (Some 4)) [ex_run5_failed, ex_run6]"

lemma ex_stuck_steps:
  "enqueue_agent_task_with_limits 1 (plain_task [5] [3]) 9 9 9 ex_team = Inr ex_first"
  "enqueue_agent_task_with_limits 1 (plain_task [6] [3]) 9 9 9 ex_first = Inr ex_both"
  "claim_runnable_agent_task_with_owner 2 [1] [5] [7] None ex_both = Inr (Some (ex_task 0 [3] TaskRunning 2 (Some 2)), ex_runs)"
  "update_agent_task_state_inner (\<lambda>_. True) 3 (ex_move TFail TaskRunning (Some [])) any_attempt ex_runs = Inr (True, ex_fails)"
  "transition_agent_instance_status [3] InstDraining ex_fails = Inr ex_drains"
  "claim_runnable_agent_task_with_owner 4 [1] [6] [8] None ex_drains = Inr (Some (ex_task 1 [3] TaskRunning 4 (Some 4)), ex_next_runs)"
  "update_agent_task_state_inner (\<lambda>_. True) 5 (ex_move TRetry TaskFailed None) any_attempt ex_next_runs = Inr (True, ex_stuck)"
  by code_simp+

lemma ex_stuck_reachable: "agent_reachable ex_stuck"
proof -
  note step = agent_reachable.step
  have keep: "upd_transition (ex_move TFail TaskRunning (Some [])) \<noteq> TResume" "upd_transition (ex_move TRetry TaskFailed None) \<noteq> TResume"
    by (simp_all add: ex_move_def)
  have "agent_reachable ex_first" by (rule step [OF ex_team_reachable agent_step.enqueued [OF ex_stuck_steps(1)]])
  then have "agent_reachable ex_both" by (rule step [OF _ agent_step.enqueued [OF ex_stuck_steps(2)]])
  then have "agent_reachable ex_runs" by (rule step [OF _ agent_step.claimed [OF ex_stuck_steps(3)]])
  then have "agent_reachable ex_fails" by (rule step [OF _ agent_step.updated [OF ex_stuck_steps(4) keep(1)]])
  then have "agent_reachable ex_drains" by (rule step [OF _ agent_step.instance_moved [OF ex_stuck_steps(5)]])
  then have "agent_reachable ex_next_runs" by (rule step [OF _ agent_step.claimed [OF ex_stuck_steps(6)]])
  then show ?thesis by (rule step [OF _ agent_step.updated [OF ex_stuck_steps(7) keep(2)]])
qed

end
