(* ===== verification/Scheduler_Progress.thy ===== *)
theory Scheduler_Progress
  imports Scheduler_Example Agent_Cancellation
begin

text \<open>
  What a scan of the scheduler of agents promises: it lasts no longer than there is work in the tables and from
  plans, keeps the tables in order, loses no permit and leaves no work behind; and the case in which a task that
  cannot be claimed stops it.
\<close>

section \<open>Progress\<close>

fun status_weight :: "AgentTaskStatus \<Rightarrow> nat" where
  "status_weight TaskInterrupted = 3"
| "status_weight TaskWaiting = 2"
| "status_weight TaskQueued = 1"
| "status_weight _ = 0"

text \<open>The work that the rows of the tasks hold: how many steps they can still take towards running.\<close>

definition potential :: "AgentDb \<Rightarrow> nat" where
  "potential db = sum_list (map (\<lambda>(_, r). status_weight (at_status r)) (db_tasks db))"

lemma sum_keyed_le:
  assumes "\<And>r. (i, r) \<in> set rows \<Longrightarrow> g (f r) \<le> (g r :: nat)"
  shows "sum_list (map (\<lambda>(_, r). g r) (update_keyed (\<lambda>k _. k = i) f rows)) \<le> sum_list (map (\<lambda>(_, r). g r) rows)"
  using assms by (induction rows) (force simp: update_keyed_def intro: add_mono)+

lemma potential_update:
  assumes "\<And>r. (i, r) \<in> set (db_tasks db) \<Longrightarrow> status_weight (at_status (f r)) \<le> status_weight (at_status r)"
  shows "potential (update_task i f db) \<le> potential db"
  unfolding potential_def update_task_def by (simp, rule sum_keyed_le) (rule assms)

lemma potential_tasks: "db_tasks db' = db_tasks db \<Longrightarrow> potential db' = potential db"
  by (simp add: potential_def)

lemma potential_fold: "(\<And>x db. potential (f x db) \<le> potential db) \<Longrightarrow> potential (fold f xs db) \<le> potential db"
  by (induction xs arbitrary: db) (auto intro: order_trans)

lemma potential_resume: "potential (resume_task now x db) \<le> potential db"
proof (cases x)
  case (Pair i r)
  let ?db = "update_task i (\<lambda>t. if at_status t = TaskWaiting then t\<lparr>at_status := TaskQueued, at_updated := now\<rparr> else t) db"
  have "potential (resume_task now x db) = potential ?db" by (rule potential_tasks) (simp add: resume_task_def Pair)
  also have "\<dots> \<le> potential db" by (rule potential_update) simp
  finally show ?thesis .
qed

lemma potential_recover: "potential (recover_task now reason x db) \<le> potential db"
proof (cases x)
  case (Pair i r)
  let ?db = "update_task i (\<lambda>t. if at_status t = TaskInterrupted
    then t\<lparr>at_status := TaskWaiting, at_error := None, at_completed := None, at_updated := now\<rparr> else t) db"
  have "potential (recover_task now reason x db) = potential ?db" by (rule potential_tasks) (simp add: recover_task_def Pair)
  also have "\<dots> \<le> potential db" by (rule potential_update) simp
  finally show ?thesis .
qed

lemma sum_keyed_less:
  assumes "(i, r) \<in> set rows" "g (f r) < (g r :: nat)" "\<And>r. (i, r) \<in> set rows \<Longrightarrow> g (f r) \<le> g r"
  shows "sum_list (map (\<lambda>(_, r). g r) (update_keyed (\<lambda>k _. k = i) f rows)) < sum_list (map (\<lambda>(_, r). g r) rows)"
proof -
  from assms(1) obtain xs ys where rows: "rows = xs @ (i, r) # ys" by (meson split_list)
  have "sum_list (map (\<lambda>(_, r). g r) (update_keyed (\<lambda>k _. k = i) f zs)) \<le> sum_list (map (\<lambda>(_, r). g r) zs)" if "set zs \<subseteq> set rows" for zs
    by (rule sum_keyed_le) (use assms(3) that in blast)
  then have le: "sum_list (map (\<lambda>(_, r). g r) (update_keyed (\<lambda>k _. k = i) f xs)) \<le> sum_list (map (\<lambda>(_, r). g r) xs)"
    "sum_list (map (\<lambda>(_, r). g r) (update_keyed (\<lambda>k _. k = i) f ys)) \<le> sum_list (map (\<lambda>(_, r). g r) ys)" using rows by auto
  have "update_keyed (\<lambda>k _. k = i) f rows = update_keyed (\<lambda>k _. k = i) f xs @ (i, f r) # update_keyed (\<lambda>k _. k = i) f ys"
    by (simp add: rows update_keyed_def)
  then show ?thesis using le assms(2) by (simp add: rows)
qed

lemma potential_claim:
  assumes "map_of (db_tasks db) i = Some r" "at_status r = TaskQueued"
  shows "potential (claim_task now i r a db) < potential db"
proof -
  let ?f = "\<lambda>t. t\<lparr>at_status := TaskRunning, at_started := (case at_started t of None \<Rightarrow> Some now | Some s \<Rightarrow> Some s), at_completed := None, at_updated := now\<rparr>"
  have "potential (claim_task now i r a db) = potential (update_task i ?f db)"
    by (rule potential_tasks) (simp add: claim_task_def insert_attempt_def)
  also have "\<dots> < potential db" unfolding potential_def update_task_def
    using map_of_SomeD [OF assms(1)] assms(2) by (simp, intro sum_keyed_less) auto
  finally show ?thesis .
qed

lemma potential_set_attempts: "potential (set_attempts p s c x db) = potential db"
  by (rule potential_tasks) (simp add: set_attempts_def)

lemma potential_apply:
  assumes "status_weight target = 0"
  shows "potential (apply_update now u target e owner db) \<le> potential db"
proof -
  have "potential (apply_update now u target e owner db) = potential (update_task (upd_task u) (set_task_state now u target) db)"
    by (rule potential_tasks) (rule apply_update_tasks)
  also have "\<dots> \<le> potential db" by (rule potential_update) (simp add: set_task_state_def assms)
  finally show ?thesis .
qed

text \<open>Every transaction of a scan keeps the keys of the tasks and adds no work.\<close>

definition task_keys :: "AgentDb \<Rightarrow> rstr list" where
  "task_keys db = map fst (db_tasks db)"

definition work_kept :: "nat \<Rightarrow> AgentDb \<Rightarrow> AgentDb \<Rightarrow> bool" where
  "work_kept n db db' \<longleftrightarrow> task_keys db' = task_keys db \<and> potential db' \<le> potential db"

lemma task_keys_tasks: "db_tasks db' = db_tasks (update_task i f db) \<Longrightarrow> task_keys db' = task_keys db"
  by (simp add: task_keys_def update_task_def)

lemma work_kept_fold: "(\<And>x db. work_kept n db (f x db)) \<Longrightarrow> work_kept n db (fold f xs db)"
proof (induction xs arbitrary: db)
  case (Cons x xs)
  from Cons.IH [OF Cons.prems, of "f x db"] Cons.prems [of db x] show ?case by (simp add: work_kept_def)
qed (simp add: work_kept_def)

lemma work_resume: "work_kept n db (resume_task now x db)"
proof (cases x)
  case (Pair i r)
  have "task_keys (resume_task now x db) = task_keys db"
    by (rule task_keys_tasks) (simp add: Pair resume_task_def)
  with potential_resume show ?thesis by (simp add: work_kept_def)
qed

lemma work_recover: "work_kept n db (recover_task now reason x db)"
proof (cases x)
  case (Pair i r)
  have "task_keys (recover_task now reason x db) = task_keys db"
    by (rule task_keys_tasks) (simp add: Pair recover_task_def)
  with potential_recover show ?thesis by (simp add: work_kept_def)
qed

lemma work_claim:
  assumes "claim_runnable_agent_task_with_owner now team i attempt incarnation db = Inr (x, db')"
  shows "work_kept n db db'"
  using claim_effect [OF assms]
proof
  assume "\<exists>r. map_of (db_tasks db) i = Some r \<and> at_team r = team \<and> runnable now db i r \<and> unique_ok db'
    \<and> db' = claim_task now i r (new_attempt now team i attempt incarnation db) db"
  then obtain r where r: "map_of (db_tasks db) i = Some r" "runnable now db i r"
    "db' = claim_task now i r (new_attempt now team i attempt incarnation db) db" by blast
  then have "at_status r = TaskQueued" by (auto simp: runnable_def split: option.splits)
  with potential_claim r have "potential db' \<le> potential db" by (simp add: less_imp_le)
  moreover have "task_keys db' = task_keys db"
    unfolding r(3) claim_task_def insert_attempt_def by (rule task_keys_tasks) simp
  ultimately show ?thesis by (simp add: work_kept_def)
qed (simp add: work_kept_def)

lemma fail_effect:
  assumes "fail_claimed_task error_json i attempt now db = Inr (applied, db')" "db' \<noteq> db"
  obtains u e target owner where "update_agent_task_state_inner (\<lambda>_. True) now u e db = Inr (applied, db')"
    "upd_transition u = TFail" "upd_task u = i" "status_weight target = 0" "db' = apply_update now u target e owner db"
proof -
  let ?u = "\<lambda>team. \<lparr>upd_team = team, upd_task = i, upd_expected = TaskRunning, upd_transition = TFail, upd_result = None,
             upd_error = Some error_json, upd_reason = None\<rparr>"
  let ?e = "\<lparr>exp_attempt = Some attempt, exp_owner = None, exp_lease = None\<rparr>"
  from assms obtain team where upd: "update_agent_task_state_inner (\<lambda>_. True) now (?u team) ?e db = Inr (applied, db')"
    by (auto simp: fail_claimed_task_def split: option.splits if_splits)
  from update_effect [OF upd] assms(2) obtain target owner where
    "task_target TaskRunning TFail = Some target" "db' = apply_update now (?u team) target ?e owner db" by auto
  then show thesis using that [OF upd, of target owner] by auto
qed

lemma work_fail:
  assumes "fail_claimed_task error_json i attempt now db = Inr (applied, db')"
  shows "work_kept n db db'"
proof (cases "db' = db")
  case False
  with assms obtain u e target owner where "status_weight target = 0" "db' = apply_update now u target e owner db"
    by (blast elim: fail_effect)
  with potential_apply task_keys_tasks [OF apply_update_tasks] show ?thesis by (simp add: work_kept_def)
qed (simp add: work_kept_def)

text \<open>The part of a round after the synchronisation of plans does not depend on it.\<close>

definition without_plans :: "Outside \<Rightarrow> Outside" where
  "without_plans out = out\<lparr>plan_sync := (\<lambda>_ db. (True, db))\<rparr>"

interpretation work_scan: queue_effect "without_plans out" work_kept for out
proof unfold_locales
  fix n m a b c assume "work_kept n a b" "work_kept m b c" "n \<le> m"
  then show "work_kept n a c" by (simp add: work_kept_def)
next
  fix n db ok db' assume "plan_sync (without_plans out) n db = (ok, db')"
  then show "work_kept n db db'" by (simp add: without_plans_def work_kept_def)
next
  fix now reason limit db ids db' n
  assume "recover_interrupted_agent_wait_tasks now reason limit db = Inr (ids, db')"
  from recover_effect [OF this] show "work_kept n db db'" by (auto intro: work_kept_fold work_recover)
next
  fix now limit selected requeue db ids db' n
  assume "resume_satisfied_agent_tasks_matching now limit selected requeue db = Inr (ids, db')"
  from resume_effect [OF this] show "work_kept n db db'" by (auto intro: work_kept_fold work_resume)
qed (simp add: work_kept_def, (erule work_claim work_fail)+)

lemma outside_without [simp]: "outside (without_plans out) st = outside out st"
  by (simp add: outside_def without_plans_def)

lemma outside_all_without [simp]: "outside_all (without_plans out) n st = outside_all out n st"
  by (induction n arbitrary: st) (simp_all split: prod.split sum.split)

lemma transact_without [simp]: "transact (without_plans out) w f st = transact out w f st"
  by (simp add: transact_def without_plans_def)

lemma fields_without [simp]: "clock (without_plans out) = clock out" "new_name (without_plans out) = new_name out"
  "chat_requeued (without_plans out) = chat_requeued out" "failure_json (without_plans out) = failure_json out"
  by (simp_all add: without_plans_def)

lemma offer_without: "offer_task (without_plans out) = offer_task out"
proof -
  have "fail_claimed_task_after_scheduler_error (without_plans out) = fail_claimed_task_after_scheduler_error out"
    by (intro ext) (simp add: fail_claimed_task_after_scheduler_error_def cong: if_cong)
  then have start: "start_claimed (without_plans out) = start_claimed out"
    by (intro ext) (simp only: start_claimed_def outside_without outside_all_without)
  have "claim_and_start (without_plans out) = claim_and_start out"
    by (intro ext) (simp only: claim_and_start_def transact_without fields_without start)
  then show ?thesis by (intro ext) (simp only: offer_task_def fields_without)
qed

lemma wake_without:
  "wake_waiting (without_plans out) w (offer_task (without_plans out) owner w) st = wake_waiting out w (offer_task out owner w) st"
  by (simp add: wake_waiting_def offer_without)

text \<open>The recovery of waiting tasks succeeds only on tables whose keys are distinct.\<close>

lemma wake_keys:
  assumes "wake_waiting out w rest st = (Again, st')"
  shows "distinct (task_keys (sc_dbs st w))"
proof -
  from assms obtain ids st1 where "transact out w (\<lambda>now. recover_interrupted_agent_wait_tasks now
      RESTART_INTERRUPTION_REASON AGENT_SCHEDULER_SCAN_LIMIT) st = (Inr ids, st1)"
    unfolding wake_waiting_def by (cases rule: and_then_cases) auto
  then obtain now db' where "recover_interrupted_agent_wait_tasks now RESTART_INTERRUPTION_REASON AGENT_SCHEDULER_SCAN_LIMIT
      (sc_dbs st w) = Inr (ids, db')" by (auto simp: transact_def split: sum.splits)
  from recover_effect [OF this] obtain rows where "unique_ok db'"
    "db' = fold (recover_task now RESTART_INTERRUPTION_REASON) rows (sc_dbs st w)" by blast
  moreover from this(2) have "work_kept 0 (sc_dbs st w) db'" by (simp add: work_kept_fold work_recover)
  ultimately show ?thesis by (simp add: work_kept_def task_keys_def unique_ok_def keys_unique_def)
qed

text \<open>A claim of a task that was offered a moment before is a step forward, as waits that are over stay over.\<close>

lemma wait_over_later: "\<lbrakk>wait_over now db i; now \<le> later\<rbrakk> \<Longrightarrow> wait_over later db i"
  by (auto simp: wait_over_def Let_def list_ex_iff deadline_passed_def split: option.splits intro: order_trans)

lemma runnable_later: "\<lbrakk>runnable now db i r; now \<le> later\<rbrakk> \<Longrightarrow> runnable later db i r"
  using wait_over_later by (auto simp: runnable_def split: option.splits)

lemma offered:
  assumes "runnable_agent_tasks now db limit = Inr ((i, r) # tasks)" "distinct (task_keys db)"
  shows "map_of (db_tasks db) i = Some r \<and> runnable now db i r"
proof -
  let ?xs = "sort_key (schedule_key db) (filter (\<lambda>(i, r). runnable now db i r) (db_tasks db))"
  from assms(1) have "(i, r) \<in> set (take (nat limit) ?xs)" by (auto simp: runnable_agent_tasks_def split: if_splits)
  then have "(i, r) \<in> set ?xs" by (rule in_set_takeD)
  then show ?thesis using assms(2) by (auto simp: task_keys_def)
qed

lemma claimed_less:
  assumes "claimed_first out owner a b" "distinct (task_keys a)" "mono (clock out)"
  shows "potential b < potential a"
proof -
  from assms(1) obtain n i r tasks attempt x where
    first: "runnable_agent_tasks (clock out n) a AGENT_SCHEDULER_SCAN_LIMIT = Inr ((i, r) # tasks)"
    and claim: "claim_runnable_agent_task_with_owner (clock out (n + 1)) (at_team r) i attempt (Some owner) a = Inr (x, b)"
    unfolding claimed_first_def by blast
  from offered [OF first assms(2)] have r: "map_of (db_tasks a) i = Some r" "runnable (clock out n) a i r" by blast+
  have "clock out n \<le> clock out (n + 1)" using assms(3) by (simp add: monoD)
  with r(2) have run: "runnable (clock out (n + 1)) a i r" by (rule runnable_later)
  from run have queued: "at_status r = TaskQueued" by (auto simp: runnable_def split: option.splits)
  from claim r(1) run have "b = claim_task (clock out (n + 1)) i r (new_attempt (clock out (n + 1)) (at_team r) i attempt (Some owner) a) a"
    by (auto simp: claim_runnable_agent_task_with_owner_def map_sum_Inr dest!: check_unique split: if_splits)
  with potential_claim [OF r(1) queued] show ?thesis by simp
qed

section \<open>A scan comes to its end\<close>

lemma scan_workspace_more: "\<lbrakk>scan_workspace n out owner w st = Some res; n \<le> m\<rbrakk> \<Longrightarrow> scan_workspace m out owner w st = Some res"
proof (induction n arbitrary: m st)
  case (Suc n)
  then obtain k where "m = Suc k" "n \<le> k" by (cases m) auto
  with Suc show ?case by (auto split: prod.splits RoundEnd.splits)
qed simp

lemma scan_workspaces_more:
  "\<lbrakk>scan_workspaces n out owner ws st = Some res; n \<le> m\<rbrakk> \<Longrightarrow> scan_workspaces m out owner ws st = Some res"
proof (induction ws arbitrary: st)
  case (Cons w ws)
  from Cons.prems(1) obtain r st' where one: "scan_workspace n out owner w st = Some (r, st')" by (auto split: option.splits)
  from scan_workspace_more [OF one Cons.prems(2)] one Cons show ?case by (cases r) auto
qed simp

text \<open>The work that the synchronisation of plans adds at the start of a round, and in all rounds of the scan
  of a workspace.\<close>

definition plan_work :: "Outside \<Rightarrow> rstr \<Rightarrow> Scan \<Rightarrow> nat" where
  "plan_work out w st = potential (snd (plan_sync out (sc_tick st + 1) (sc_dbs st w))) - potential (sc_dbs st w)"

fun planned_work :: "nat \<Rightarrow> Outside \<Rightarrow> rstr \<Rightarrow> rstr \<Rightarrow> Scan \<Rightarrow> nat" where
  "planned_work 0 out owner w st = 0"
| "planned_work (Suc n) out owner w st = plan_work out w st
     + (case scan_round out owner w st of (Again, st') \<Rightarrow> planned_work n out owner w st' | _ \<Rightarrow> 0)"

text \<open>A round that is not the last one uses up work.\<close>

lemma round_uses_work:
  assumes "scan_round out owner w st = (Again, st')" "mono (clock out)"
  shows "potential (sc_dbs st' w) < potential (sc_dbs st w) + plan_work out w st"
proof -
  have permits: "sc_permits st \<noteq> 0"
  proof
    assume "sc_permits st = 0"
    with assms(1) show False by (simp add: scan_round_def)
  qed
  with assms(1) have "and_then (outside out st) (\<lambda>_ st. and_then (sync_plans out w st) (\<lambda>_ st.
      and_then (outside out st) (\<lambda>_ st. wake_waiting out w (offer_task out owner w) st))) = (Again, st')"
    by (simp add: scan_round_def)
  then obtain u1 st1 where o1: "outside out st = (u1, st1)"
    and "and_then (sync_plans out w st1) (\<lambda>_ st. and_then (outside out st) (\<lambda>_ st.
      wake_waiting out w (offer_task out owner w) st)) = (Again, st')"
    by (cases rule: and_then_cases) blast+
  from this(2) obtain u2 st2 where o2: "sync_plans out w st1 = (u2, st2)"
    and "and_then (outside out st2) (\<lambda>_ st. wake_waiting out w (offer_task out owner w) st) = (Again, st')"
    by (cases rule: and_then_cases) blast+
  from this(2) obtain u3 st3 where o3: "outside out st2 = (u3, st3)"
    and wake: "wake_waiting out w (offer_task out owner w) st3 = (Again, st')"
    by (cases rule: and_then_cases) blast+
  have db: "sc_dbs st3 w = snd (plan_sync out (sc_tick st + 1) (sc_dbs st w))" and st3: "0 < sc_permits st3"
    using o1 o2 o3 permits by (auto simp: outside_def sync_plans_def next_tick_def split: prod.splits)
  from work_scan.effect_wake [of out w owner st3 Again st'] wake st3
  have "work_scan.round_effect out owner w st3 Again st'" by (simp add: wake_without)
  then obtain a b where a: "work_kept (sc_tick st3) (sc_dbs st3 w) a" and first: "claimed_first (without_plans out) owner a b"
    and b: "work_kept (sc_tick st3) b (sc_dbs st' w)"
    by (auto simp: work_scan.round_effect_def)
  from a wake_keys [OF wake] have "distinct (task_keys a)" by (simp add: work_kept_def)
  from claimed_less [OF first this] assms(2) a b
  have "potential (sc_dbs st' w) < potential (sc_dbs st3 w)" by (simp add: work_kept_def)
  then show ?thesis by (simp add: db plan_work_def)
qed

lemma workspace_accounts:
  "\<lbrakk>scan_workspace n out owner w st = None; mono (clock out)\<rbrakk>
    \<Longrightarrow> n \<le> potential (sc_dbs st w) + planned_work n out owner w st"
proof (induction n arbitrary: st)
  case (Suc n)
  obtain r st' where round: "scan_round out owner w st = (r, st')" by (cases "scan_round out owner w st")
  with Suc.prems(1) have again: "r = Again" by (auto split: RoundEnd.splits)
  with Suc.prems round have "scan_workspace n out owner w st' = None" by simp
  from Suc.IH [OF this Suc.prems(2)] round_uses_work [OF round [unfolded again] Suc.prems(2)] round again
  show ?case by simp
qed simp

text \<open>Which workspace a scan is at when it has used up its fuel.\<close>

lemma workspaces_stuck:
  "scan_workspaces n out owner ws st = None \<Longrightarrow>
    \<exists>us w vs st1. ws = us @ w # vs \<and> scan_workspaces n out owner us st = Some (None, st1) \<and> scan_workspace n out owner w st1 = None"
proof (induction ws arbitrary: st)
  case (Cons w ws)
  show ?case
  proof (cases "scan_workspace n out owner w st")
    case None
    then show ?thesis by (intro exI [of _ "[]"] exI [of _ w] exI [of _ ws] exI [of _ st]) simp
  next
    case (Some res)
    then obtain q st2 where one: "scan_workspace n out owner w st = Some (q, st2)" by (cases res) simp
    with Cons.prems have rest: "scan_workspaces n out owner ws st2 = None" and "q = NoTask \<or> q = Again"
      by (cases q; simp)+
    from Cons.IH [OF rest] obtain us v vs st1 where "ws = us @ v # vs"
      "scan_workspaces n out owner us st2 = Some (None, st1)" "scan_workspace n out owner v st1 = None" by blast
    with one \<open>q = NoTask \<or> q = Again\<close> show ?thesis
      by (intro exI [of _ "w # us"] exI [of _ v] exI [of _ vs] exI [of _ st1]) auto
  qed
qed simp

text \<open>What synchronisations of plans may promise: they work through the operations of the tables; they add
  no work.\<close>

definition plans_ok :: "Outside \<Rightarrow> bool" where
  "plans_ok out \<longleftrightarrow> (\<forall>n db. agent_reachable db \<longrightarrow> agent_reachable (snd (plan_sync out n db)))"

definition plans_at_rest :: "Outside \<Rightarrow> bool" where
  "plans_at_rest out \<longleftrightarrow> (\<forall>n db. potential (snd (plan_sync out n db)) \<le> potential db)"

definition tables_kept :: "Outside \<Rightarrow> nat \<Rightarrow> AgentDb \<Rightarrow> AgentDb \<Rightarrow> bool" where
  "tables_kept out n db db' \<longleftrightarrow> (plans_ok out \<longrightarrow> agent_reachable db \<longrightarrow> agent_reachable db')
     \<and> (plans_at_rest out \<longrightarrow> potential db' \<le> potential db)"

lemma tables_keptI: "\<lbrakk>agent_step db db' \<or> db' = db; work_kept n db db'\<rbrakk> \<Longrightarrow> tables_kept out n db db'"
  using agent_reachable.step unfolding tables_kept_def work_kept_def by blast

lemma step_fail: "fail_claimed_task error_json i attempt now db = Inr (applied, db') \<Longrightarrow> agent_step db db' \<or> db' = db"
proof (cases "db' = db")
  case False
  assume "fail_claimed_task error_json i attempt now db = Inr (applied, db')"
  with False obtain u e where "update_agent_task_state_inner (\<lambda>_. True) now u e db = Inr (applied, db')" "upd_transition u = TFail"
    by (blast elim: fail_effect)
  then show ?thesis using agent_step.updated by fastforce
qed simp

interpretation queue_scan: queue_effect out "tables_kept out" for out
proof unfold_locales
  fix n m a b c assume "tables_kept out n a b" "tables_kept out m b c" "n \<le> m"
  then show "tables_kept out n a c" unfolding tables_kept_def by (meson order_trans)
next
  fix n db ok db' assume "plan_sync out n db = (ok, db')"
  then show "tables_kept out n db db'" unfolding tables_kept_def plans_ok_def plans_at_rest_def by (metis snd_conv)
next
  fix now reason limit db ids db' n
  assume run: "recover_interrupted_agent_wait_tasks now reason limit db = Inr (ids, db')"
  show "tables_kept out n db db'"
    by (rule tables_keptI [OF disjI1 [OF agent_step.recovered [OF run]] work_scan.keeps_recover [OF run]])
next
  fix now limit selected requeue db ids db' n
  assume run: "resume_satisfied_agent_tasks_matching now limit selected requeue db = Inr (ids, db')"
  show "tables_kept out n db db'"
    by (rule tables_keptI [OF disjI1 [OF agent_step.resumed [OF run]] work_scan.keeps_resume [OF run]])
next
  fix now team i attempt incarnation db x db' n
  assume run: "claim_runnable_agent_task_with_owner now team i attempt incarnation db = Inr (x, db')"
  show "tables_kept out n db db'"
    by (rule tables_keptI [OF disjI1 [OF agent_step.claimed [OF run]] work_claim [OF run]])
next
  fix error_json i attempt now db applied db' n
  assume run: "fail_claimed_task error_json i attempt now db = Inr (applied, db')"
  show "tables_kept out n db db'" by (rule tables_keptI [OF step_fail [OF run] work_fail [OF run]])
qed (simp add: tables_kept_def)

lemma no_planned_work: "plans_at_rest out \<Longrightarrow> planned_work n out owner w st = 0"
  by (induction n arbitrary: st) (auto simp: plans_at_rest_def plan_work_def split: prod.split RoundEnd.split)

section \<open>Claims\<close>

text \<open>C20: How long a scan can last, whatever fails, as long as the clock does not go back. If the scan is not
  over after \<open>n\<close> rounds in some workspace, then that workspace held, when its turn came, together with
  what the synchronisation of its plans added in those rounds, work for at least \<open>n\<close> rounds (every
  round but the last one starts a task or gives it up): the scan can go on only by plans that queue more
  and more tasks. In particular it comes to its end when its plans queue none, in at most one round more
  than the work that the tables hold at its start.
\<close>
theorem scan_comes_to_an_end:
  assumes "mono (clock out)"
  shows "(schedule_runnable_tasks n out owner ws st = None \<longrightarrow>
      (\<exists>us w vs st0 st1. ws = us @ w # vs \<and> record_deadlines out ws st = (Inr (), st0)
        \<and> scan_workspaces n out owner us st0 = Some (None, st1)
        \<and> n \<le> potential (sc_dbs st1 w) + planned_work n out owner w st1))
    \<and> (plans_at_rest out \<longrightarrow> (\<forall>w \<in> set ws. potential (sc_dbs st w) < n) \<longrightarrow>
      (\<exists>res. schedule_runnable_tasks n out owner ws st = Some res))"
proof -
  have stuck: "\<exists>us w vs st0 st1. ws = us @ w # vs \<and> record_deadlines out ws st = (Inr (), st0)
      \<and> scan_workspaces n out owner us st0 = Some (None, st1)
      \<and> n \<le> potential (sc_dbs st1 w) + planned_work n out owner w st1"
    if none: "schedule_runnable_tasks n out owner ws st = None"
  proof -
    from none obtain st0 where rec: "record_deadlines out ws st = (Inr (), st0)" "scan_workspaces n out owner ws st0 = None"
      by (auto simp: schedule_runnable_tasks_def split: prod.splits sum.splits)
    from workspaces_stuck [OF rec(2)] workspace_accounts [OF _ assms] rec(1) show ?thesis by blast
  qed
  moreover have "\<exists>res. schedule_runnable_tasks n out owner ws st = Some res"
    if rest: "plans_at_rest out" and fuel: "\<forall>w \<in> set ws. potential (sc_dbs st w) < n"
  proof (rule ccontr)
    assume "\<nexists>res. schedule_runnable_tasks n out owner ws st = Some res"
    then obtain us w vs st0 st1 where w: "ws = us @ w # vs" and rec: "record_deadlines out ws st = (Inr (), st0)"
      and run: "scan_workspaces n out owner us st0 = Some (None, st1)"
      and work: "n \<le> potential (sc_dbs st1 w) + planned_work n out owner w st1"
      using stuck by (metis option.exhaust)
    from queue_scan.workspaces_effect [OF run] have "tables_kept out (sc_tick st0) (sc_dbs st0 w) (sc_dbs st1 w)"
      by (simp add: queue_scan.effect_on_def)
    with queue_scan.deadlines_quiet [OF rec] rest have "potential (sc_dbs st1 w) \<le> potential (sc_dbs st w)"
      by (simp add: tables_kept_def)
    with work fuel w no_planned_work [OF rest, of n owner w st1] show False by fastforce
  qed
  ultimately show ?thesis by blast
qed

theorem scan_comes_to_an_end_witness:
  "plans_at_rest ex_world \<and> (\<exists>res. schedule_runnable_tasks 4 ex_world [79] [[97], [98]] (ex_start ex_stuck) = Some res)"
proof -
  have rest: "plans_at_rest ex_world" by (simp add: plans_at_rest_def ex_world_plans)
  have "potential ex_stuck < 4" by code_simp
  then have "\<forall>w \<in> set [[97], [98]]. potential (sc_dbs (ex_start ex_stuck) w) < 4" by (simp add: ex_start_def)
  with scan_comes_to_an_end [OF ex_world_mono] rest show ?thesis by blast
qed

text \<open>A scan keeps the tables of every workspace in states that the operations reach, hence consistent, whether it
  succeeds or not, and every permit that it takes belongs to one run that it has started: permits and runs
  add up to what they were, so no failure on the way loses a permit.
\<close>
theorem scan_keeps_tables_and_permits:
  assumes "plans_ok out" "\<forall>w. agent_reachable (sc_dbs st w)"
    and "schedule_runnable_tasks n out owner ws st = Some (e, st')"
  shows "(\<forall>w. agent_reachable (sc_dbs st' w)) \<and> sc_permits st' + length (sc_runs st') = sc_permits st + length (sc_runs st)"
proof -
  note effect = queue_scan.scan_effect [OF assms(3)]
  then have "\<forall>v. tables_kept out (sc_tick st) (sc_dbs st v) (sc_dbs st' v)" by blast
  with assms(1,2) have "\<forall>w. agent_reachable (sc_dbs st' w)" unfolding tables_kept_def by blast
  with effect show ?thesis by blast
qed

theorem scan_keeps_tables_and_permits_witness:
  "plans_ok ex_world \<and> schedule_runnable_tasks 2 ex_world [79] [[97]] (ex_start ex_idle_db) = Some (None, ex_after)
    \<and> agent_reachable (sc_dbs ex_after [97]) \<and> sc_permits ex_after + length (sc_runs ex_after) = 10 \<and> sc_permits ex_after = 9"
proof -
  have plans: "plans_ok ex_world" by (simp add: plans_ok_def ex_world_plans)
  have "\<forall>w. agent_reachable (sc_dbs (ex_start ex_idle_db) w)" using ex_idle_reachable by (simp add: ex_start_def)
  from scan_keeps_tables_and_permits [OF plans this ex_scan] have "agent_reachable (sc_dbs ex_after [97])"
    "sc_permits ex_after + length (sc_runs ex_after) = 10" by (simp_all add: ex_start_def AGENT_GLOBAL_MAX_CONCURRENT_RUNS_def)
  with plans ex_scan show ?thesis by (simp add: ex_after_def)
qed

text \<open>C19: A scan without failure leaves no work behind: it ends with no permit left, or for each workspace it has, at
  some call during the scan, found no task that can run in the tables as they are at the end.
\<close>
theorem scan_leaves_no_work:
  assumes "schedule_runnable_tasks n out owner ws st = Some (None, st')" "distinct ws"
  shows "sc_permits st' = 0 \<or> (\<forall>w \<in> set ws. \<exists>k. sc_tick st \<le> k \<and> k < sc_tick st'
    \<and> (\<forall>i r. map_of (db_tasks (sc_dbs st' w)) i = Some r \<longrightarrow> \<not> runnable (clock out k) (sc_dbs st' w) i r))"
proof -
  have none: "\<not> runnable now db i r" if "runnable_agent_tasks now db AGENT_SCHEDULER_SCAN_LIMIT = Inr []"
    "map_of (db_tasks db) i = Some r" for now db i r
  proof -
    have "sort_key (schedule_key db) (filter (\<lambda>(i, r). runnable now db i r) (db_tasks db)) = []"
      using that(1) by (simp add: runnable_agent_tasks_def AGENT_SCHEDULER_SCAN_LIMIT_def)
    then have "filter (\<lambda>(i, r). runnable now db i r) (db_tasks db) = []"
      by (metis length_0_conv length_sort)
    with map_of_SomeD [OF that(2)] show ?thesis by (auto simp: filter_empty_conv)
  qed
  from queue_scan.scan_effect [OF assms(1)] assms(2) have "sc_permits st' = 0 \<or> (\<forall>w \<in> set ws. idle_since out st st' w)" by simp
  then show ?thesis using none unfolding idle_since_def by blast
qed

theorem scan_leaves_no_work_witness:
  "\<exists>k < 18. \<forall>i r. map_of (db_tasks ex_busy_db) i = Some r \<longrightarrow> \<not> runnable (clock ex_world k) ex_busy_db i r"
  using scan_leaves_no_work [OF ex_scan] by (auto simp: ex_after_def ex_start_def)

section \<open>A task that cannot be claimed stops the scan\<close>

lemma deadlines_ok:
  "(\<And>n. call_ok out n) \<Longrightarrow> \<exists>st1. record_deadlines out ws st = (Inr (), st1) \<and> sc_tick st1 = sc_tick st + length ws
    \<and> sc_permits st1 = sc_permits st \<and> sc_runs st1 = sc_runs st \<and> sc_dbs st1 = sc_dbs st"
proof (induction ws arbitrary: st)
  case (Cons w ws)
  let ?st = "record_next_agent_deadline w (next_tick st)"
  have rec: "sc_tick ?st = Suc (sc_tick st)" "sc_permits ?st = sc_permits st" "sc_runs ?st = sc_runs st" "sc_dbs ?st = sc_dbs st"
    by (simp_all add: record_next_agent_deadline_def next_tick_def split: option.split)
  from Cons have "\<exists>st1. record_deadlines out ws ?st = (Inr (), st1) \<and> sc_tick st1 = sc_tick ?st + length ws
    \<and> sc_permits st1 = sc_permits ?st \<and> sc_runs st1 = sc_runs ?st \<and> sc_dbs st1 = sc_dbs ?st" by blast
  with Cons.prems rec show ?case by (simp add: outside_def)
qed simp

definition nothing_asleep :: "AgentDb \<Rightarrow> bool" where
  "nothing_asleep db \<longleftrightarrow> list_all (\<lambda>(_, r). at_status r \<noteq> TaskWaiting \<and> at_status r \<noteq> TaskInterrupted) (db_tasks db)"

lemma nothing_to_wake:
  assumes "agent_reachable db" "nothing_asleep db"
  shows "recover_interrupted_agent_wait_tasks now reason AGENT_SCHEDULER_SCAN_LIMIT db = Inr ([], db)"
    and "resume_satisfied_agent_tasks_matching now AGENT_SCHEDULER_SCAN_LIMIT selected requeue db = Inr ([], db)"
proof -
  have check: "check_constraints db = Inr db"
    using inv_parts(5) [OF inv_reachable [OF assms(1)]] by (simp add: unique_ok_def check_constraints_def)
  have "filter (\<lambda>(i, r). recoverable db reason i r) (db_tasks db) = []"
    using assms(2) by (fastforce simp: nothing_asleep_def filter_empty_conv list_all_iff recoverable_def interrupted_wait_def)
  then show "recover_interrupted_agent_wait_tasks now reason AGENT_SCHEDULER_SCAN_LIMIT db = Inr ([], db)"
    by (simp add: recover_interrupted_agent_wait_tasks_def AGENT_SCHEDULER_SCAN_LIMIT_def check)
  have "filter (\<lambda>(i, r). resumable now db selected i r) (db_tasks db) = []"
    using assms(2) by (fastforce simp: nothing_asleep_def filter_empty_conv list_all_iff resumable_def)
  then show "resume_satisfied_agent_tasks_matching now AGENT_SCHEDULER_SCAN_LIMIT selected requeue db = Inr ([], db)"
    by (simp add: resume_satisfied_agent_tasks_matching_def AGENT_SCHEDULER_SCAN_LIMIT_def check)
qed

lemma refused_claim:
  assumes "agent_reachable db" "map_of (db_tasks db) i = Some r" "runnable now db i r" "\<not> blank_owner incarnation"
    "\<exists>e \<in> snd ` set (db_tasks db). at_owner e = at_owner r \<and> task_active e" "attempt \<notin> att_id ` set (db_attempts db)"
  shows "claim_runnable_agent_task_with_owner now (at_team r) i attempt incarnation db = Inl SqliteFailure"
proof -
  let ?db = "claim_task now i r (new_attempt now (at_team r) i attempt incarnation db) db"
  from assms(3) have "at_status r = TaskQueued" by (auto simp: runnable_def split: option.splits)
  from unique_after_claim [OF inv_reachable [OF assms(1)] assms(2) this assms(6)] assms(5)
  have "\<not> unique_ok ?db" by blast
  then have "check_constraints ?db = Inl SqliteFailure" by (auto simp: check_constraints_def unique_ok_def)
  with assms(2-4) show ?thesis by (simp add: claim_runnable_agent_task_with_owner_def)
qed

text \<open>C21: When the task that is offered first in a workspace belongs to an instance with an active task (which happens
  on an instance that is drained), the database refuses its claim, and the whole scan ends with this failure
  although all calls succeed: nothing changes, no run starts, and no later workspace is looked at, so
  every further scan ends in the same way until the active task comes to its end.
\<close>
theorem refused_claim_stops_the_scan:
  assumes "agent_reachable (sc_dbs st w)" "nothing_asleep (sc_dbs st w)" "0 < sc_permits st" "\<not> blank_owner (Some owner)"
    and "\<And>n. call_ok out n" "\<And>n db. plan_sync out n db = (True, db)" "mono (clock out)"
    and "runnable_agent_tasks (clock out (sc_tick st + length ws + 6)) (sc_dbs st w) AGENT_SCHEDULER_SCAN_LIMIT = Inr ((i, r) # tasks)"
    and "\<exists>e \<in> snd ` set (db_tasks (sc_dbs st w)). at_owner e = at_owner r \<and> task_active e"
    and "new_name out (sc_tick st + length ws + 7) \<notin> att_id ` set (db_attempts (sc_dbs st w))"
  shows "\<exists>st'. schedule_runnable_tasks (Suc n) out owner (w # ws) st = Some (Some (StoreFailed SqliteFailure), st')
    \<and> sc_dbs st' = sc_dbs st \<and> sc_permits st' = sc_permits st \<and> sc_runs st' = sc_runs st"
proof -
  from deadlines_ok [OF assms(5)] obtain st1 where rec: "record_deadlines out (w # ws) st = (Inr (), st1)"
    and st1: "sc_tick st1 = sc_tick st + length (w # ws)" "sc_permits st1 = sc_permits st" "sc_runs st1 = sc_runs st" "sc_dbs st1 = sc_dbs st"
    by blast
  let ?k = "sc_tick st + length ws + 6"
  have "distinct (task_keys (sc_dbs st w))" using inv_parts(6) [OF inv_reachable [OF assms(1)]] by (simp add: task_keys_def)
  from offered [OF assms(8) this] have row: "map_of (db_tasks (sc_dbs st w)) i = Some r" "runnable (clock out ?k) (sc_dbs st w) i r" by blast+
  let ?l = "sc_tick st + length ws + 7"
  have "clock out ?k \<le> clock out ?l" using assms(7) by (simp add: monoD)
  with row(2) have "runnable (clock out ?l) (sc_dbs st w) i r" by (rule runnable_later)
  note refused = refused_claim [OF assms(1) row(1) this assms(4,9,10)]
  note wake = nothing_to_wake [OF assms(1,2)]
  define st2 where "st2 = st1\<lparr>sc_tick := ?k + 2, sc_dbs := (sc_dbs st)(w := sc_dbs st w)\<rparr>"
  have "scan_round out owner w st1 = (Broken (StoreFailed SqliteFailure), st2)"
    using assms(3,5,6,8) refused wake
    by (simp add: scan_defs st1 st2_def Let_def eval_nat_numeral)
  then have "schedule_runnable_tasks (Suc n) out owner (w # ws) st = Some (Some (StoreFailed SqliteFailure), st2)"
    by (simp add: schedule_runnable_tasks_def rec del: record_deadlines.simps)
  moreover have "sc_dbs st2 = sc_dbs st" "sc_permits st2 = sc_permits st" "sc_runs st2 = sc_runs st"
    using st1 by (simp_all add: st2_def)
  ultimately show ?thesis by blast
qed

theorem refused_claim_stops_the_scan_witness:
  "\<exists>st'. schedule_runnable_tasks (Suc 0) ex_world [79] [[97], [98]] ((ex_start ex_idle_db)\<lparr>sc_dbs := (\<lambda>_. ex_idle_db)([97] := ex_stuck)\<rparr>)
      = Some (Some (StoreFailed SqliteFailure), st') \<and> sc_dbs st' [98] = ex_idle_db"
proof -
  let ?st = "(ex_start ex_idle_db)\<lparr>sc_dbs := (\<lambda>_. ex_idle_db)([97] := ex_stuck)\<rparr>"
  have db: "sc_dbs ?st [97] = ex_stuck" "sc_dbs ?st [98] = ex_idle_db" "0 < sc_permits (ex_start ex_idle_db)" "sc_tick ?st = 0"
    by (simp_all add: ex_start_def AGENT_GLOBAL_MAX_CONCURRENT_RUNS_def)
  have offer: "runnable_agent_tasks 17 ex_stuck 64 = Inr [([5], ex_retried)]" by code_simp
  have rest: "nothing_asleep ex_stuck" "\<exists>e \<in> snd ` set (db_tasks ex_stuck). at_owner e = at_owner ex_retried \<and> task_active e"
    "[100, 8] \<notin> att_id ` set (db_attempts ex_stuck)" by code_simp+
  have world: "call_ok ex_world n" "clock ex_world n = int n + 10" "new_name ex_world n = [100, n]" for n by (simp_all add: ex_world_def)
  have "\<exists>st'. schedule_runnable_tasks (Suc 0) ex_world [79] [[97], [98]] ?st = Some (Some (StoreFailed SqliteFailure), st')
    \<and> sc_dbs st' = sc_dbs ?st \<and> sc_permits st' = sc_permits ?st \<and> sc_runs st' = sc_runs ?st"
    by (rule refused_claim_stops_the_scan [where i = "[5]" and r = ex_retried and tasks = "[]"])
      (use rest offer ex_stuck_reachable ex_usable ex_world_mono in
        \<open>simp_all add: world ex_world_plans AGENT_SCHEDULER_SCAN_LIMIT_def db del: bex_simps\<close>)
  with db(2) show ?thesis by metis
qed

end
